(* ===== verification/GaPrelude.thy ===== *)
theory GaPrelude
  imports Main "HOL-Library.Word" "HOL-Library.Char_ord" "HOL-Library.List_Lexorder"
    "HOL-Library.Signed_Division" "HOL-Library.Monad_Syntax"
begin

text \<open>
  The prelude of the development: the C-level vocabulary that the component theories
  share. It holds the machine types, bounded reads and writes of byte arrays (an access
  outside the array is undefined behaviour in C and is the value \<open>None\<close> here), the
  character classes and string functions of the C library that the sources call
  (\<open>isspace\<close>, \<open>isdigit\<close>, \<open>strcasecmp\<close>, \<open>strchr\<close>, \<open>strncpy\<close>, \<open>strtol\<close>), network
  byte order, and the \<open>timeval\<close> structure. C strings are lists of characters without
  the terminating NUL. The target is the Win32 build (the only one the README supports):
  \<open>int\<close> and \<open>long\<close> are 32 bits wide and integers are stored little-endian.
\<close>

unbundle bit_operations_syntax

named_theorems ga_defs \<open>definitions of the small C-level helpers, unfolded by automation\<close>
named_theorems ga_inv \<open>preservation lemmas of component invariants\<close>

type_synonym byte = "8 word"
type_synonym u16 = "16 word"
type_synonym u32 = "32 word"

subsection \<open>Undefined behaviour as an option\<close>

text \<open>
  A computation that may run into undefined behaviour (an access outside an object, a
  NULL dereference) has an option type, \<open>None\<close> being the undefined case. The following
  lemma lets automation split a bind.
\<close>

lemma bind_Some_iff [simp]:
  "(m \<bind> f = Some y) \<longleftrightarrow> (\<exists>x. m = Some x \<and> f x = Some y)"
  by (cases m) auto

subsection \<open>Bounded access to arrays\<close>

definition c_read :: "'a list \<Rightarrow> int \<Rightarrow> int \<Rightarrow> 'a list option" where
  "c_read buf off n =
     (if 0 \<le> off \<and> 0 \<le> n \<and> off + n \<le> int (length buf)
      then Some (take (nat n) (drop (nat off) buf)) else None)"

definition c_write :: "'a list \<Rightarrow> int \<Rightarrow> 'a list \<Rightarrow> 'a list option" where
  "c_write buf off xs =
     (if 0 \<le> off \<and> off + int (length xs) \<le> int (length buf)
      then Some (take (nat off) buf @ xs @ drop (nat off + length xs) buf) else None)"

definition c_get :: "'a list \<Rightarrow> int \<Rightarrow> 'a option" where
  "c_get buf i = (if 0 \<le> i \<and> i < int (length buf) then Some (buf ! nat i) else None)"

lemma c_read_SomeD: "c_read buf off n = Some xs \<Longrightarrow> int (length xs) = n"
  by (auto simp: c_read_def split: if_splits)

lemma c_read_defined:
  "0 \<le> off \<Longrightarrow> 0 \<le> n \<Longrightarrow> off + n \<le> int (length buf) \<Longrightarrow>
   c_read buf off n = Some (take (nat n) (drop (nat off) buf))"
  by (simp add: c_read_def)

lemma c_write_defined:
  "0 \<le> off \<Longrightarrow> off + int (length xs) \<le> int (length buf) \<Longrightarrow>
   \<exists>buf'. c_write buf off xs = Some buf' \<and> length buf' = length buf"
  by (auto simp: c_write_def)

lemma c_write_length: "c_write buf off xs = Some buf' \<Longrightarrow> length buf' = length buf"
  by (auto simp: c_write_def split: if_splits)

lemma c_read_write_same:
  "c_write buf off xs = Some buf' \<Longrightarrow> c_read buf' off (int (length xs)) = Some xs"
  by (auto simp: c_write_def c_read_def split: if_splits)

lemma c_read_write_before:
  assumes "c_write buf off xs = Some buf'" and "o2 + n \<le> off"
  shows "c_read buf' o2 n = c_read buf o2 n"
proof -
  from assms(1) have b: "0 \<le> off" "off + int (length xs) \<le> int (length buf)"
    "buf' = take (nat off) buf @ xs @ drop (nat off + length xs) buf"
    by (auto simp: c_write_def split: if_splits)
  show ?thesis
  proof (cases "0 \<le> o2 \<and> 0 \<le> n")
    case True
    with b assms(2) have "nat o2 + nat n \<le> nat off" "nat off \<le> length buf" by linarith+
    then show ?thesis using b True assms(2)
      by (simp add: c_read_def drop_take min_def le_diff_conv2)
  qed (auto simp: c_read_def)
qed

lemma c_read_write_after:
  assumes "c_write buf off xs = Some buf'" and "off + int (length xs) \<le> o2"
  shows "c_read buf' o2 n = c_read buf o2 n"
proof -
  from assms(1) have b: "0 \<le> off" "off + int (length xs) \<le> int (length buf)"
    "buf' = take (nat off) buf @ xs @ drop (nat off + length xs) buf"
    by (auto simp: c_write_def split: if_splits)
  have l: "length buf' = length buf" using c_write_length [OF assms(1)] .
  show ?thesis
  proof (cases "0 \<le> o2 \<and> 0 \<le> n \<and> o2 + n \<le> int (length buf)")
    case True
    with b assms(2) have le: "nat off + length xs \<le> nat o2" "nat off \<le> length buf" by linarith+
    have "drop (nat o2) buf' = drop (nat o2) buf"
      using le by (simp add: b(3) min_def)
    then show ?thesis by (simp add: c_read_def l)
  qed (auto simp: c_read_def l)
qed

lemmas c_read_write_disjoint = c_read_write_before c_read_write_after

lemma c_read_append:
  assumes "0 \<le> n" and "0 \<le> m"
    and "c_read buf off n = Some xs" and "c_read buf (off + n) m = Some ys"
  shows "c_read buf off (n + m) = Some (xs @ ys)"
proof -
  have o: "0 \<le> off" using assms(3) by (auto simp: c_read_def split: if_splits)
  have "take (nat n) (drop (nat off) buf) @ take (nat m) (drop (nat (off + n)) buf)
      = take (nat n + nat m) (drop (nat off) buf)"
    using assms(1) o by (simp add: take_add nat_add_distrib add.commute [of "nat off"])
  then show ?thesis using assms
    by (auto simp: c_read_def nat_add_distrib split: if_splits)
qed

lemma c_read_split:
  assumes "c_read buf off (n + m) = Some zs" and "0 \<le> n" and "0 \<le> m"
  shows "c_read buf off n = Some (take (nat n) zs)"
    and "c_read buf (off + n) m = Some (drop (nat n) zs)"
proof -
  have c: "0 \<le> off" "off + (n + m) \<le> int (length buf)"
    and z: "zs = take (nat (n + m)) (drop (nat off) buf)"
    using assms by (auto simp: c_read_def split: if_splits)
  show "c_read buf off n = Some (take (nat n) zs)"
    using c assms by (simp add: c_read_def z min_def nat_add_distrib)
  have e: "nat (off + n) = nat n + nat off" using c assms by simp
  show "c_read buf (off + n) m = Some (drop (nat n) zs)"
    using c assms by (simp add: c_read_def z drop_take nat_add_distrib e)
qed

text \<open>A buffer that begins with the given bytes stays one when a write falls behind them.\<close>

lemma c_write_append:
  assumes "off = int (length pre)" and "length xs \<le> length post"
  shows "c_write (pre @ post) off xs = Some ((pre @ xs) @ drop (length xs) post)"
  using assms by (simp add: c_write_def)

lemma c_read_append_at:
  assumes "off = int (length pre)" and "n = int (length xs)"
  shows "c_read (pre @ xs @ post) off n = Some xs"
  using assms by (simp add: c_read_def)

lemma c_get_at:
  assumes "off = int (length pre)"
  shows "c_get (pre @ x # post) off = Some x"
  using assms by (simp add: c_get_def)

subsection \<open>Conversions between C integers\<close>

definition to_int32 :: "int \<Rightarrow> int" where
  "to_int32 x = sint (word_of_int x :: u32)"

definition to_u16 :: "int \<Rightarrow> u16" where
  "to_u16 x = word_of_int x"

lemma to_int32_id: "- (2 ^ 31) \<le> x \<Longrightarrow> x < 2 ^ 31 \<Longrightarrow> to_int32 x = x"
  by (simp add: to_int32_def signed_take_bit_int_eq_self sint_sbintrunc')

text \<open>Signed arithmetic: an \<open>int\<close> that does not fit is undefined.\<close>

definition c_int :: "int \<Rightarrow> int option" where
  "c_int x = (if - (2 ^ 31) \<le> x \<and> x < 2 ^ 31 then Some x else None)"

lemma c_int_Some: "- (2 ^ 31) \<le> x \<Longrightarrow> x < 2 ^ 31 \<Longrightarrow> c_int x = Some x"
  by (simp add: c_int_def)

subsection \<open>Byte order\<close>

text \<open>
  A stored value is its little-endian byte sequence; the wire format is big-endian, so
  \<open>htons\<close> and \<open>htonl\<close> reverse the bytes of a value on this target.
\<close>

definition le16 :: "u16 \<Rightarrow> byte list" where
  "le16 w = [ucast w, ucast (drop_bit 8 w)]"

definition le32 :: "u32 \<Rightarrow> byte list" where
  "le32 w = [ucast w, ucast (drop_bit 8 w), ucast (drop_bit 16 w), ucast (drop_bit 24 w)]"

fun un16 :: "byte list \<Rightarrow> u16" where
  "un16 [a, b] = ucast a OR push_bit 8 (ucast b)"
| "un16 _ = 0"

fun un32 :: "byte list \<Rightarrow> u32" where
  "un32 [a, b, c, d] = ucast a OR push_bit 8 (ucast b) OR push_bit 16 (ucast c)
     OR push_bit 24 (ucast d)"
| "un32 _ = 0"

definition htons :: "u16 \<Rightarrow> u16" where
  "htons w = un16 (rev (le16 w))"

definition htonl :: "u32 \<Rightarrow> u32" where
  "htonl w = un32 (rev (le32 w))"

abbreviation ntohs :: "u16 \<Rightarrow> u16" where "ntohs \<equiv> htons"
abbreviation ntohl :: "u32 \<Rightarrow> u32" where "ntohl \<equiv> htonl"

lemma length_le16 [simp]: "length (le16 w) = 2" by (simp add: le16_def)
lemma length_le32 [simp]: "length (le32 w) = 4" by (simp add: le32_def)

lemma un16_le16 [simp]: "un16 (le16 w) = w"
  by (rule bit_word_eqI) (auto simp: le16_def bit_simps)

lemma un32_le32 [simp]: "un32 (le32 w) = w"
proof (rule bit_word_eqI)
  fix n :: nat assume "n < LENGTH(32)"
  then consider "n < 8" | "8 \<le> n \<and> n < 16" | "16 \<le> n \<and> n < 24" | "24 \<le> n \<and> n < 32"
    by fastforce
  then show "bit (un32 (le32 w)) n = bit w n"
    by cases (auto simp: le32_def bit_simps)
qed

lemma le16_un16 [simp]: "le16 (un16 [a, b]) = [a, b]"
proof -
  have "ucast (ucast a OR push_bit 8 (ucast b) :: u16) = a"
    by (rule bit_word_eqI) (auto simp: bit_simps)
  moreover have "ucast (drop_bit 8 (ucast a OR push_bit 8 (ucast b) :: u16)) = b"
    by (rule bit_word_eqI) (auto simp: bit_simps dest: bit_imp_le_length)
  ultimately show ?thesis by (simp add: le16_def)
qed

lemma le32_un32 [simp]: "le32 (un32 [a, b, c, d]) = [a, b, c, d]"
proof -
  let ?w = "ucast a OR push_bit 8 (ucast b) OR push_bit 16 (ucast c)
     OR push_bit 24 (ucast d) :: u32"
  have "ucast ?w = a"
    by (rule bit_word_eqI) (auto simp: bit_simps)
  moreover have "ucast (drop_bit 8 ?w) = b"
    by (rule bit_word_eqI) (auto simp: bit_simps dest: bit_imp_le_length)
  moreover have "ucast (drop_bit 16 ?w) = c"
    by (rule bit_word_eqI) (auto simp: bit_simps dest: bit_imp_le_length)
  moreover have "ucast (drop_bit 24 ?w) = d"
    by (rule bit_word_eqI) (auto simp: bit_simps dest: bit_imp_le_length)
  ultimately show ?thesis by (simp add: le32_def)
qed

lemma htons_htons [simp]: "htons (htons w) = w"
proof -
  have "htons w = un16 [ucast (drop_bit 8 w), ucast w]"
    by (simp add: htons_def le16_def del: un16.simps)
  then have "le16 (htons w) = rev (le16 w)"
    by (simp only: le16_un16) (simp add: le16_def)
  then show ?thesis by (simp add: htons_def [of "htons w"])
qed

lemma htonl_htonl [simp]: "htonl (htonl w) = w"
proof -
  have "htonl w = un32 [ucast (drop_bit 24 w), ucast (drop_bit 16 w), ucast (drop_bit 8 w), ucast w]"
    by (simp add: htonl_def le32_def del: un32.simps)
  then have "le32 (htonl w) = rev (le32 w)"
    by (simp only: le32_un32) (simp add: le32_def)
  then show ?thesis by (simp add: htonl_def [of "htonl w"])
qed

lemma htons_0 [simp]: "htons 0 = 0" by (simp add: htons_def le16_def)
lemma htonl_0 [simp]: "htonl 0 = 0" by (simp add: htonl_def le32_def)

lemma htons_0_iff [simp]: "htons w = 0 \<longleftrightarrow> w = 0"
  by (metis htons_htons htons_0)

lemma htonl_0_iff [simp]: "htonl w = 0 \<longleftrightarrow> w = 0"
  by (metis htonl_htonl htonl_0)

subsection \<open>Time values\<close>

record timeval =
  tv_sec :: int
  tv_usec :: int

subsection \<open>Characters and strings of the C library\<close>

definition c_isspace :: "char \<Rightarrow> bool" where
  "c_isspace c = (let n = (of_char c :: nat) in n = 32 \<or> (9 \<le> n \<and> n \<le> 13))"

definition c_isdigit :: "char \<Rightarrow> bool" where
  "c_isdigit c = (let n = (of_char c :: nat) in 48 \<le> n \<and> n \<le> 57)"

definition c_tolower :: "char \<Rightarrow> char" where
  "c_tolower c = (let n = (of_char c :: nat) in if 65 \<le> n \<and> n \<le> 90 then char_of (n + 32) else c)"

text \<open>\<open>strcasecmp(a, b) == 0\<close> and \<open>strncasecmp(a, b, n) == 0\<close>.\<close>

definition strcaseeq :: "string \<Rightarrow> string \<Rightarrow> bool" where
  "strcaseeq a b \<longleftrightarrow> map c_tolower a = map c_tolower b"

definition strncaseeq :: "string \<Rightarrow> string \<Rightarrow> nat \<Rightarrow> bool" where
  "strncaseeq a b n \<longleftrightarrow> strcaseeq (take n a) (take n b)"

text \<open>
  \<open>strchr\<close> at the first occurrence of a character: the part before it and the part
  after it, or \<open>None\<close> when the character does not occur.
\<close>

primrec c_strchr :: "char \<Rightarrow> string \<Rightarrow> (string \<times> string) option" where
  "c_strchr c [] = None"
| "c_strchr c (x # xs) =
     (if x = c then Some ([], xs) else map_option (\<lambda>(a, b). (x # a, b)) (c_strchr c xs))"

text \<open>Cutting a string at the first occurrence of a character (\<open>*strchr(s, c) = 0\<close>).\<close>

definition cut_at :: "char \<Rightarrow> string \<Rightarrow> string" where
  "cut_at c s = takeWhile (\<lambda>x. x \<noteq> c) s"

lemma c_strchr_None [simp]: "c_strchr c s = None \<longleftrightarrow> c \<notin> set s"
  by (induction s) auto

lemma c_strchr_notin [simp]: "c \<notin> set s \<Longrightarrow> c_strchr c s = None"
  by simp

lemma c_strchr_SomeD: "c_strchr c s = Some (a, b) \<Longrightarrow> s = a @ c # b \<and> c \<notin> set a"
  by (induction s arbitrary: a) (auto split: if_splits)

lemma c_strchr_append [simp]: "c \<notin> set a \<Longrightarrow> c_strchr c (a @ c # b) = Some (a, b)"
  by (induction a) auto

lemma notin_cut_at [simp]: "c \<notin> set (cut_at c s)"
  by (auto simp: cut_at_def dest: set_takeWhileD)

lemma set_cut_at: "set (cut_at c s) \<subseteq> set s"
  by (auto simp: cut_at_def dest: set_takeWhileD)

lemma cut_at_id [simp]: "c \<notin> set s \<Longrightarrow> cut_at c s = s"
  unfolding cut_at_def by (rule takeWhile_eq_all_conv [THEN iffD2]) auto

text \<open>
  \<open>strncpy(store, v, n)\<close> into a buffer of \<open>n\<close> bytes: when the value does not fit with its
  terminator, the buffer is left unterminated and using it as a string is undefined.
\<close>

definition strncpy_str :: "nat \<Rightarrow> string \<Rightarrow> string option" where
  "strncpy_str n v = (if length v < n then Some v else None)"

definition digit_val :: "char \<Rightarrow> nat" where
  "digit_val c = (let n = (of_char c :: nat) in
     if 48 \<le> n \<and> n \<le> 57 then n - 48
     else if 97 \<le> n \<and> n \<le> 122 then n - 87
     else if 65 \<le> n \<and> n \<le> 90 then n - 55 else 99)"

definition digits_value :: "nat \<Rightarrow> string \<Rightarrow> int" where
  "digits_value base ds = foldl (\<lambda>a c. a * int base + int (digit_val c)) 0 ds"

definition clamp_long :: "int \<Rightarrow> int" where
  "clamp_long v = max (- (2 ^ 31)) (min (2 ^ 31 - 1) v)"

text \<open>
  \<open>strtol(s, &end, base)\<close>: the value and the unread rest. Base 0 selects 16, 8 or 10 from
  the prefix. Without digits nothing is consumed and the value is 0.
\<close>

definition strtol_sign :: "string \<Rightarrow> bool \<times> string" where
  "strtol_sign t = (case t of [] \<Rightarrow> (False, [])
     | c # cs \<Rightarrow> if c = CHR ''-'' then (True, cs) else if c = CHR ''+'' then (False, cs)
                else (False, t))"

definition strtol_base :: "string \<Rightarrow> nat \<times> string" where
  "strtol_base u = (case u of
       z # x # d # ds \<Rightarrow>
         if z = CHR ''0'' \<and> c_tolower x = CHR ''x'' \<and> digit_val d < 16 then (16, d # ds)
         else if z = CHR ''0'' then (8, u) else (10, u)
     | z # zs \<Rightarrow> if z = CHR ''0'' then (8, u) else (10, u)
     | [] \<Rightarrow> (10, u))"

definition strtol :: "nat \<Rightarrow> string \<Rightarrow> int \<times> string" where
  "strtol base s =
     (let (neg, u) = strtol_sign (dropWhile c_isspace s);
          (b, v) = (if base = 0 then strtol_base u else (base, u));
          ds = takeWhile (\<lambda>c. digit_val c < b) v;
          n = digits_value b ds
      in if ds = [] then (0, s)
         else (clamp_long (if neg then - n else n), drop (length ds) v))"

lemma clamp_long_bounds: "- (2 ^ 31) \<le> clamp_long v \<and> clamp_long v < 2 ^ 31"
  by (auto simp: clamp_long_def)

lemma strtol_bounds: "- (2 ^ 31) \<le> fst (strtol b s) \<and> fst (strtol b s) < 2 ^ 31"
  using clamp_long_bounds by (auto simp: strtol_def Let_def split: prod.splits)

lemma strtol_sign_length: "length (snd (strtol_sign t)) \<le> length t"
  by (auto simp: strtol_sign_def split: list.splits)

lemma strtol_base_length: "length (snd (strtol_base t)) \<le> length t"
  by (auto simp: strtol_base_def split: list.splits)

lemma strtol_rest_shorter:
  assumes "snd (strtol b s) \<noteq> s"
  shows "length (snd (strtol b s)) < length s"
proof -
  obtain neg u where u: "strtol_sign (dropWhile c_isspace s) = (neg, u)" by fastforce
  obtain b' v where v: "(if b = 0 then strtol_base u else (b, u)) = (b', v)" by fastforce
  have "length u \<le> length s"
    using strtol_sign_length [of "dropWhile c_isspace s"] length_dropWhile_le [of c_isspace s] u
    by simp
  moreover have "length v \<le> length u"
    using v strtol_base_length [of u] by (auto split: if_splits)
  moreover have "takeWhile (\<lambda>c. digit_val c < b') v \<noteq> []"
    using assms u v by (auto simp: strtol_def Let_def)
  moreover have "length (takeWhile (\<lambda>c. digit_val c < b') v) \<le> length v"
    by (rule length_takeWhile_le)
  ultimately show ?thesis using u v
    by (simp add: strtol_def Let_def) (metis diff_less_mono2 diff_zero le_less_trans length_greater_0_conv less_le_trans)
qed

subsection \<open>Printed numbers\<close>

text \<open>\<open>%d\<close>, and the digits of \<open>%x\<close>.\<close>

definition digit_char :: "nat \<Rightarrow> char" where
  "digit_char n = char_of (if n < 10 then 48 + n else 87 + n)"

function nat_str :: "nat \<Rightarrow> nat \<Rightarrow> string" where
  "nat_str b n = (if n < b \<or> b < 2 then [digit_char n] else nat_str b (n div b) @ [digit_char (n mod b)])"
  by pat_completeness auto
termination
  by (relation "measure snd") (auto simp: div_less_dividend)

declare nat_str.simps [simp del]

definition int_str :: "int \<Rightarrow> string" where
  "int_str i = (if i < 0 then CHR ''-'' # nat_str 10 (nat (- i)) else nat_str 10 (nat i))"

end
