(* ===== verification/StdMap.thy ===== *)
theory StdMap
  imports GaPrelude
begin

text \<open>
  The \<open>std::map\<close> of the C++ library, which most components use: an association list
  kept in key order, with its find, assignment through \<open>operator[]\<close>, erase, and the
  forward iteration from one key to the next. The locale \<open>ordered_map\<close> states the
  laws that the components rely on; the list operations interpret it.
\<close>

type_synonym ('k, 'v) smap = "('k \<times> 'v) list"

definition smap_ok :: "('k::linorder, 'v) smap \<Rightarrow> bool" where
  "smap_ok m \<longleftrightarrow> sorted_wrt (<) (map fst m)"

fun smap_find :: "('k::linorder, 'v) smap \<Rightarrow> 'k \<Rightarrow> 'v option" where
  "smap_find [] k = None"
| "smap_find ((k', v) # m) k = (if k = k' then Some v else smap_find m k)"

fun smap_put :: "('k::linorder, 'v) smap \<Rightarrow> 'k \<Rightarrow> 'v \<Rightarrow> ('k, 'v) smap" where
  "smap_put [] k v = [(k, v)]"
| "smap_put ((k', v') # m) k v =
     (if k < k' then (k, v) # (k', v') # m
      else if k = k' then (k, v) # m
      else (k', v') # smap_put m k v)"

fun smap_erase :: "('k::linorder, 'v) smap \<Rightarrow> 'k \<Rightarrow> ('k, 'v) smap" where
  "smap_erase [] k = []"
| "smap_erase ((k', v') # m) k = (if k = k' then m else (k', v') # smap_erase m k)"

text \<open>\<open>begin()\<close>, and \<open>++it\<close> from the element with the given key; \<open>None\<close> is \<open>end()\<close>.\<close>

definition smap_begin :: "('k::linorder, 'v) smap \<Rightarrow> 'k option" where
  "smap_begin m = (case m of [] \<Rightarrow> None | (k, _) # _ \<Rightarrow> Some k)"

fun smap_next :: "('k::linorder, 'v) smap \<Rightarrow> 'k \<Rightarrow> 'k option" where
  "smap_next [] k = None"
| "smap_next ((k', _) # m) k = (if k < k' then Some k' else smap_next m k)"

definition smap_keys :: "('k::linorder, 'v) smap \<Rightarrow> 'k list" where
  "smap_keys m = map fst m"

subsection \<open>The interface\<close>

locale ordered_map =
  fixes find :: "'m \<Rightarrow> 'k::linorder \<Rightarrow> 'v option"
    and put :: "'m \<Rightarrow> 'k \<Rightarrow> 'v \<Rightarrow> 'm"
    and erase :: "'m \<Rightarrow> 'k \<Rightarrow> 'm"
    and keys :: "'m \<Rightarrow> 'k list"
    and ok :: "'m \<Rightarrow> bool"
  assumes ok_put: "ok m \<Longrightarrow> ok (put m k v)"
    and ok_erase: "ok m \<Longrightarrow> ok (erase m k)"
    and find_put: "ok m \<Longrightarrow> find (put m k v) k' = (if k' = k then Some v else find m k')"
    and find_erase: "ok m \<Longrightarrow> find (erase m k) k' = (if k' = k then None else find m k')"
    and keys_sorted: "ok m \<Longrightarrow> sorted_wrt (<) (keys m)"
    and keys_find: "ok m \<Longrightarrow> k \<in> set (keys m) \<longleftrightarrow> find m k \<noteq> None"
begin

lemma put_put: "ok m \<Longrightarrow> find (put (put m k v) k w) k' = find (put m k w) k'"
  by (simp add: find_put ok_put)

lemma erase_put: "ok m \<Longrightarrow> find m k = None \<Longrightarrow> find (erase (put m k v) k) k' = find m k'"
  by (simp add: find_put find_erase ok_put)

lemma keys_put: "ok m \<Longrightarrow> set (keys (put m k v)) = insert k (set (keys m))"
  by (auto simp: keys_find ok_put find_put split: if_splits)

lemma keys_erase: "ok m \<Longrightarrow> set (keys (erase m k)) = set (keys m) - {k}"
  by (auto simp: keys_find ok_erase find_erase split: if_splits)

lemma keys_distinct: "ok m \<Longrightarrow> distinct (keys m)"
  by (drule keys_sorted) (simp add: strict_sorted_iff)

lemma length_keys: "ok m \<Longrightarrow> length (keys m) = card (set (keys m))"
  by (simp add: distinct_card keys_distinct)

end

subsection \<open>The list operations implement it\<close>

lemma smap_ok_Nil [simp, intro]: "smap_ok []"
  by (simp add: smap_ok_def)

lemma smap_ok_Cons [simp]: "smap_ok ((k, v) # m) \<longleftrightarrow> smap_ok m \<and> (\<forall>x\<in>set m. k < fst x)"
  by (auto simp: smap_ok_def)

lemma set_fst_smap_put: "fst ` set (smap_put m k v) = insert k (fst ` set m)"
  by (induction m k v rule: smap_put.induct) auto

lemma set_smap_put: "set (smap_put m k x) \<subseteq> insert (k, x) (set m)"
  by (induction m k x rule: smap_put.induct) auto

lemma smap_ok_put: "smap_ok m \<Longrightarrow> smap_ok (smap_put m k v)"
proof (induction m k v rule: smap_put.induct)
  case (2 k' v' m k v)
  have mem: "\<forall>x\<in>set (smap_put m k v). fst x = k \<or> fst x \<in> fst ` set m"
    using set_fst_smap_put [of m k v] by blast
  consider "k < k'" | "k = k'" | "k' < k" by force
  then show ?case
  proof cases
    case 3
    then have "smap_ok (smap_put m k v)" using 2 by auto
    moreover have "\<forall>x\<in>set (smap_put m k v). k' < fst x"
      using mem 2 3 by fastforce
    ultimately show ?thesis using 3 by auto
  qed (use 2 in \<open>auto dest: order.strict_trans\<close>)
qed simp

lemma smap_find_below: "\<forall>x\<in>set m. k < fst x \<Longrightarrow> smap_find m k = None"
  by (induction m k rule: smap_find.induct) auto

lemma smap_find_put: "smap_find (smap_put m k v) k' = (if k' = k then Some v else smap_find m k')"
  by (induction m k v rule: smap_put.induct) auto

lemma set_smap_erase: "set (smap_erase m k) \<subseteq> set m"
  by (induction m k rule: smap_erase.induct) auto

lemma smap_ok_erase: "smap_ok m \<Longrightarrow> smap_ok (smap_erase m k)"
proof (induction m k rule: smap_erase.induct)
  case (2 k' v' m k)
  then show ?case using set_smap_erase [of m k] by auto
qed simp

lemma smap_find_erase:
  "smap_ok m \<Longrightarrow> smap_find (smap_erase m k) k' = (if k' = k then None else smap_find m k')"
  by (induction m k rule: smap_erase.induct) (auto simp: smap_find_below)

lemma smap_keys_find: "k \<in> set (smap_keys m) \<longleftrightarrow> smap_find m k \<noteq> None"
  by (induction m k rule: smap_find.induct) (auto simp: smap_keys_def)

lemma smap_keys_sorted: "smap_ok m \<Longrightarrow> sorted_wrt (<) (smap_keys m)"
  by (simp add: smap_keys_def smap_ok_def)

interpretation sm: ordered_map smap_find smap_put smap_erase smap_keys smap_ok
  by unfold_locales
    (simp_all add: smap_ok_put smap_ok_erase smap_find_put smap_find_erase smap_keys_find
       smap_keys_sorted)

lemma smap_find_Nil [simp]: "smap_find [] k = None" by simp

subsection \<open>Iteration visits every key once, in order\<close>

text \<open>The keys from an iterator position on.\<close>

primrec smap_walk :: "nat \<Rightarrow> ('k::linorder, 'v) smap \<Rightarrow> 'k option \<Rightarrow> 'k list" where
  "smap_walk 0 m it = []"
| "smap_walk (Suc n) m it =
     (case it of None \<Rightarrow> [] | Some k \<Rightarrow> k # smap_walk n m (smap_next m k))"

lemma smap_next_skip:
  "\<forall>x\<in>set m1. fst x \<le> k \<Longrightarrow> smap_next (m1 @ m2) k = smap_next m2 k"
  by (induction m1 k rule: smap_next.induct) auto

lemma smap_next_suffix:
  assumes "smap_ok (m1 @ (k, v) # m2)"
  shows "smap_next (m1 @ (k, v) # m2) k = smap_begin m2"
proof -
  have "\<forall>x\<in>set (m1 @ [(k, v)]). fst x \<le> k" and "\<forall>x\<in>set m2. k < fst x"
    using assms by (force simp: smap_ok_def sorted_wrt_append)+
  then show ?thesis
    using smap_next_skip [of "m1 @ [(k, v)]" k m2]
    by (cases m2) (auto simp: smap_begin_def)
qed

lemma smap_walk_suffix:
  "smap_ok (m1 @ m2) \<Longrightarrow> length m2 \<le> n \<Longrightarrow>
   smap_walk n (m1 @ m2) (smap_begin m2) = smap_keys m2"
proof (induction m2 arbitrary: m1 n)
  case Nil
  then show ?case by (cases n) (auto simp: smap_begin_def smap_keys_def)
next
  case (Cons x m2)
  obtain k v where x: "x = (k, v)" by (cases x)
  from Cons.prems obtain n' where n: "n = Suc n'" "length m2 \<le> n'" by (cases n) auto
  have "smap_walk n' ((m1 @ [x]) @ m2) (smap_begin m2) = smap_keys m2"
    using Cons.prems n by (intro Cons.IH) auto
  moreover have "smap_next (m1 @ x # m2) k = smap_begin m2"
    using Cons.prems by (simp add: x smap_next_suffix)
  ultimately show ?case
    by (simp add: x n smap_begin_def smap_keys_def)
qed

lemma smap_walk_all: "smap_ok m \<Longrightarrow> smap_walk (length m) m (smap_begin m) = smap_keys m"
  using smap_walk_suffix [of "[]" m "length m"] by simp

end
