(* ===== verification/GaConf.thy ===== *)
theory GaConf
  imports StdMap
begin

text \<open>
  The configuration store: \<open>core/ga-confvar.cpp\<close> (one parameter: a plain value or a
  parameter map with its iteration pointer) and \<open>core/ga-conf.cpp\<close> (the table of
  parameters, the file loader with its line parser and includes, the server URL parser,
  the typed readers and the iteration over parameter maps). The global tables are the
  record \<open>ga_conf\<close>, passed explicitly.
\<close>

section \<open>One parameter: gaConfVar\<close>

text \<open>The iterator \<open>mi\<close> is the key it points at, or \<open>None\<close> for \<open>mapdata.end()\<close>.\<close>

record gaConfVar =
  cv_data :: string
  cv_mapdata :: "(string, string) smap"
  cv_mi :: "string option"

definition gaConfVar_clear :: "gaConfVar \<Rightarrow> gaConfVar" where
  "gaConfVar_clear v = v\<lparr>cv_data := [], cv_mapdata := [], cv_mi := smap_begin ([] :: (string, string) smap)\<rparr>"

definition gaConfVar_new :: gaConfVar where
  "gaConfVar_new = gaConfVar_clear \<lparr>cv_data = [], cv_mapdata = [], cv_mi = None\<rparr>"

definition gaConfVar_value :: "gaConfVar \<Rightarrow> string" where
  "gaConfVar_value v = cv_data v"

definition gaConfVar_assign :: "gaConfVar \<Rightarrow> string \<Rightarrow> gaConfVar" where
  "gaConfVar_assign v s =
     v\<lparr>cv_data := s, cv_mapdata := [], cv_mi := smap_begin ([] :: (string, string) smap)\<rparr>"

definition gaConfVar_copy :: "gaConfVar \<Rightarrow> gaConfVar \<Rightarrow> gaConfVar" where
  "gaConfVar_copy v var =
     v\<lparr>cv_data := cv_data var, cv_mapdata := cv_mapdata var,
       cv_mi := smap_begin (cv_mapdata var)\<rparr>"

text \<open>
  \<open>v[key]\<close> returns a reference to the slot, created empty when absent. Insertion does not
  move the iterator.
\<close>

definition gaConfVar_index :: "gaConfVar \<Rightarrow> string \<Rightarrow> string \<times> gaConfVar" where
  "gaConfVar_index v key = (case smap_find (cv_mapdata v) key of
       Some s \<Rightarrow> (s, v)
     | None \<Rightarrow> ([], v\<lparr>cv_mapdata := smap_put (cv_mapdata v) key []\<rparr>))"

definition gaConfVar_index_set :: "gaConfVar \<Rightarrow> string \<Rightarrow> string \<Rightarrow> gaConfVar" where
  "gaConfVar_index_set v key s =
     (let v' = snd (gaConfVar_index v key)
      in v'\<lparr>cv_mapdata := smap_put (cv_mapdata v') key s\<rparr>)"

definition gaConfVar_haskey :: "gaConfVar \<Rightarrow> string \<Rightarrow> bool" where
  "gaConfVar_haskey v key \<longleftrightarrow> smap_find (cv_mapdata v) key \<noteq> None"

definition gaConfVar_msize :: "gaConfVar \<Rightarrow> int" where
  "gaConfVar_msize v = int (length (cv_mapdata v))"

definition gaConfVar_mreset :: "gaConfVar \<Rightarrow> gaConfVar" where
  "gaConfVar_mreset v = v\<lparr>cv_mi := smap_begin (cv_mapdata v)\<rparr>"

definition gaConfVar_mkey :: "gaConfVar \<Rightarrow> string" where
  "gaConfVar_mkey v = (case cv_mi v of None \<Rightarrow> [] | Some k \<Rightarrow> k)"

definition gaConfVar_mvalue :: "gaConfVar \<Rightarrow> string" where
  "gaConfVar_mvalue v = (case cv_mi v of None \<Rightarrow> []
     | Some k \<Rightarrow> (case smap_find (cv_mapdata v) k of None \<Rightarrow> [] | Some s \<Rightarrow> s))"

definition gaConfVar_mnextkey :: "gaConfVar \<Rightarrow> string \<times> gaConfVar" where
  "gaConfVar_mnextkey v = (case cv_mi v of None \<Rightarrow> ([], v)
     | Some k \<Rightarrow> (let v' = v\<lparr>cv_mi := smap_next (cv_mapdata v) k\<rparr>
                 in (case cv_mi v' of None \<Rightarrow> ([], v') | Some k' \<Rightarrow> (k', v'))))"

text \<open>The invariant: the map is in order and the iterator points into it.\<close>

definition cv_ok :: "gaConfVar \<Rightarrow> bool" where
  "cv_ok v \<longleftrightarrow> smap_ok (cv_mapdata v) \<and>
     (\<forall>k. cv_mi v = Some k \<longrightarrow> smap_find (cv_mapdata v) k \<noteq> None)"

lemmas cv_defs = gaConfVar_clear_def gaConfVar_new_def gaConfVar_value_def
  gaConfVar_assign_def gaConfVar_copy_def gaConfVar_index_def gaConfVar_index_set_def
  gaConfVar_haskey_def gaConfVar_msize_def gaConfVar_mreset_def gaConfVar_mkey_def
  gaConfVar_mvalue_def gaConfVar_mnextkey_def

lemma smap_begin_Nil [simp]: "smap_begin [] = None"
  by (simp add: smap_begin_def)

lemma smap_begin_find: "smap_begin m = Some k \<Longrightarrow> smap_find m k \<noteq> None"
  by (auto simp: smap_begin_def split: list.splits)

lemma smap_next_find: "smap_ok m \<Longrightarrow> smap_next m k = Some k' \<Longrightarrow> smap_find m k' \<noteq> None"
  by (induction m k rule: smap_next.induct) (auto split: if_splits)

lemma cv_ok_ops [ga_inv, intro]:
  "cv_ok gaConfVar_new"
  "cv_ok (gaConfVar_assign v s)"
  "cv_ok v \<Longrightarrow> cv_ok (gaConfVar_index_set v k s)"
  "cv_ok v \<Longrightarrow> cv_ok (gaConfVar_mreset v)"
  "cv_ok v \<Longrightarrow> cv_ok (snd (gaConfVar_mnextkey v))"
  "cv_ok w \<Longrightarrow> cv_ok (gaConfVar_copy v w)"
  by (auto simp: cv_ok_def cv_defs smap_ok_put smap_find_put Let_def smap_begin_find
      dest: smap_begin_find smap_next_find split: option.splits)

lemma index_set_mapdata:
  "smap_find (cv_mapdata (gaConfVar_index_set v k s)) k' =
   (if k' = k then Some s else smap_find (cv_mapdata v) k')"
  by (auto simp: cv_defs smap_find_put Let_def split: option.splits)

lemma index_set_data [simp]: "cv_data (gaConfVar_index_set v k s) = cv_data v"
  by (auto simp: cv_defs Let_def split: option.splits)

section \<open>The table of parameters\<close>

text \<open>
  The global iterator \<open>ga_vmi\<close>: at an element, at the end, or dangling after the element
  it pointed at was erased (using it is then undefined).
\<close>

datatype conf_iter = CI_at string | CI_end | CI_dangling

record ga_conf =
  ga_vars :: "(string, gaConfVar) smap"
  ga_vmi :: conf_iter

definition conf_iter_begin :: "(string, gaConfVar) smap \<Rightarrow> conf_iter" where
  "conf_iter_begin m = (case smap_begin m of None \<Rightarrow> CI_end | Some k \<Rightarrow> CI_at k)"

definition ga_conf_empty :: ga_conf where
  "ga_conf_empty = \<lparr>ga_vars = [], ga_vmi = CI_end\<rparr>"

text \<open>\<open>ga_vars[key]\<close>: the parameter, created when it is absent.\<close>

definition conf_var :: "ga_conf \<Rightarrow> string \<Rightarrow> gaConfVar" where
  "conf_var st key = (case smap_find (ga_vars st) key of Some v \<Rightarrow> v | None \<Rightarrow> gaConfVar_new)"

definition conf_set :: "ga_conf \<Rightarrow> string \<Rightarrow> gaConfVar \<Rightarrow> ga_conf" where
  "conf_set st key v = st\<lparr>ga_vars := smap_put (ga_vars st) key v\<rparr>"

definition conf_erase_key :: "ga_conf \<Rightarrow> string \<Rightarrow> ga_conf" where
  "conf_erase_key st key = st\<lparr>ga_vars := smap_erase (ga_vars st) key,
     ga_vmi := (if ga_vmi st = CI_at key \<and> smap_find (ga_vars st) key \<noteq> None
                then CI_dangling else ga_vmi st)\<rparr>"

definition ga_conf_clear :: "ga_conf \<Rightarrow> ga_conf" where
  "ga_conf_clear st = st\<lparr>ga_vars := [], ga_vmi := conf_iter_begin []\<rparr>"

subsection \<open>Readers\<close>

text \<open>
  Reading into a buffer of \<open>slen\<close> bytes. The inner \<open>None\<close> is the NULL pointer. The outer
  \<open>None\<close> is a value that fills the buffer without a terminator, which every caller then
  reads as a string. A caller that passes no buffer gets a fresh copy of the value
  (\<open>strdup\<close>), which is the case of an \<open>slen\<close> above the length of the value.
\<close>

definition ga_conf_readv :: "ga_conf \<Rightarrow> string \<Rightarrow> nat \<Rightarrow> string option option" where
  "ga_conf_readv st key slen = (case smap_find (ga_vars st) key of
       None \<Rightarrow> Some None
     | Some v \<Rightarrow> map_option Some (strncpy_str slen (gaConfVar_value v)))"

definition ga_conf_readint :: "ga_conf \<Rightarrow> string \<Rightarrow> int option" where
  "ga_conf_readint st key = do {
     p \<leftarrow> ga_conf_readv st key 64;
     Some (case p of None \<Rightarrow> 0 | Some s \<Rightarrow> fst (strtol 0 s)) }"

text \<open>
  The loop of \<open>ga_conf_multiple_int\<close>: the number of integers read and the array. The slot
  at which the conversion fails has been overwritten with 0.
\<close>

function ga_conf_multiple_int :: "string \<Rightarrow> int list \<Rightarrow> nat \<Rightarrow> nat \<Rightarrow> nat \<times> int list" where
  "ga_conf_multiple_int ptr val reads n =
     (if reads < n then
        (let (v, endptr) = strtol 0 ptr; val' = val[reads := v]
         in if endptr = ptr then (reads, val')
            else ga_conf_multiple_int endptr val' (Suc reads) n)
      else (reads, val))"
  by pat_completeness auto
termination
  by (relation "measure (\<lambda>(ptr, val, reads, n). n - reads)") auto

declare ga_conf_multiple_int.simps [simp del]

definition ga_conf_readints :: "ga_conf \<Rightarrow> string \<Rightarrow> int list \<Rightarrow> nat \<Rightarrow> (nat \<times> int list) option" where
  "ga_conf_readints st key val n = do {
     p \<leftarrow> ga_conf_readv st key 1024;
     Some (case p of None \<Rightarrow> (0, val) | Some s \<Rightarrow> ga_conf_multiple_int s val 0 n) }"

definition ga_conf_boolval :: "string \<Rightarrow> int \<Rightarrow> int" where
  "ga_conf_boolval ptr defval =
     (if strcaseeq ptr ''true'' \<or> strcaseeq ptr ''1'' \<or> strcaseeq ptr ''y'' \<or>
         strcaseeq ptr ''yes'' \<or> strcaseeq ptr ''enabled'' \<or> strcaseeq ptr ''enable'' then 1
      else if strcaseeq ptr ''false'' \<or> strcaseeq ptr ''0'' \<or> strcaseeq ptr ''n'' \<or>
         strcaseeq ptr ''no'' \<or> strcaseeq ptr ''disabled'' \<or> strcaseeq ptr ''disable'' then 0
      else defval)"

definition ga_conf_readbool :: "ga_conf \<Rightarrow> string \<Rightarrow> int \<Rightarrow> int option" where
  "ga_conf_readbool st key defval = do {
     p \<leftarrow> ga_conf_readv st key 64;
     Some (case p of None \<Rightarrow> defval | Some s \<Rightarrow> ga_conf_boolval s defval) }"

subsection \<open>Writers\<close>

definition ga_conf_writev :: "ga_conf \<Rightarrow> string \<Rightarrow> string \<Rightarrow> ga_conf" where
  "ga_conf_writev st key value = conf_set st key (gaConfVar_assign (conf_var st key) value)"

definition ga_conf_erase :: "ga_conf \<Rightarrow> string \<Rightarrow> ga_conf" where
  "ga_conf_erase st key = conf_erase_key st key"

definition ga_conf_mapsize :: "ga_conf \<Rightarrow> string \<Rightarrow> int" where
  "ga_conf_mapsize st mapname = (case smap_find (ga_vars st) mapname of
       None \<Rightarrow> 0 | Some v \<Rightarrow> gaConfVar_msize v)"

definition ga_conf_ismap :: "ga_conf \<Rightarrow> string \<Rightarrow> int" where
  "ga_conf_ismap st key = (if ga_conf_mapsize st key > 0 then 1 else 0)"

definition ga_conf_haskey :: "ga_conf \<Rightarrow> string \<Rightarrow> string \<Rightarrow> bool" where
  "ga_conf_haskey st mapname key = (case smap_find (ga_vars st) mapname of
       None \<Rightarrow> False | Some v \<Rightarrow> gaConfVar_haskey v key)"

subsection \<open>Parameter maps\<close>

text \<open>
  Reading a key goes through \<open>operator[]\<close>, so a key that is absent is created with an
  empty value: the reader changes the table.
\<close>

definition ga_conf_mapreadv ::
    "ga_conf \<Rightarrow> string \<Rightarrow> string \<Rightarrow> nat \<Rightarrow> (string option \<times> ga_conf) option" where
  "ga_conf_mapreadv st mapname key slen = (case smap_find (ga_vars st) mapname of
       None \<Rightarrow> Some (None, st)
     | Some v \<Rightarrow> (let (s, v') = gaConfVar_index v key; st' = conf_set st mapname v'
                in if s = [] then Some (None, st')
                   else do { t \<leftarrow> strncpy_str slen s; Some (Some t, st') }))"

definition ga_conf_mapreadint ::
    "ga_conf \<Rightarrow> string \<Rightarrow> string \<Rightarrow> (int \<times> ga_conf) option" where
  "ga_conf_mapreadint st mapname key = do {
     (p, st') \<leftarrow> ga_conf_mapreadv st mapname key 64;
     Some (case p of None \<Rightarrow> 0 | Some s \<Rightarrow> fst (strtol 0 s), st') }"

definition ga_conf_mapreadints ::
    "ga_conf \<Rightarrow> string \<Rightarrow> string \<Rightarrow> int list \<Rightarrow> nat \<Rightarrow> ((nat \<times> int list) \<times> ga_conf) option" where
  "ga_conf_mapreadints st mapname key val n = do {
     (p, st') \<leftarrow> ga_conf_mapreadv st mapname key 1024;
     Some (case p of None \<Rightarrow> (0, val) | Some s \<Rightarrow> ga_conf_multiple_int s val 0 n, st') }"

definition ga_conf_mapreadbool ::
    "ga_conf \<Rightarrow> string \<Rightarrow> string \<Rightarrow> int \<Rightarrow> (int \<times> ga_conf) option" where
  "ga_conf_mapreadbool st mapname key defval = do {
     (p, st') \<leftarrow> ga_conf_mapreadv st mapname key 64;
     Some (case p of None \<Rightarrow> defval | Some s \<Rightarrow> ga_conf_boolval s defval, st') }"

definition ga_conf_mapwritev :: "ga_conf \<Rightarrow> string \<Rightarrow> string \<Rightarrow> string \<Rightarrow> ga_conf" where
  "ga_conf_mapwritev st mapname key value =
     conf_set st mapname (gaConfVar_index_set (conf_var st mapname) key value)"

definition ga_conf_maperase :: "ga_conf \<Rightarrow> string \<Rightarrow> string \<Rightarrow> ga_conf" where
  "ga_conf_maperase st mapname key = (case smap_find (ga_vars st) mapname of
       None \<Rightarrow> st | Some v \<Rightarrow> conf_erase_key st mapname)"

definition ga_conf_mapreset :: "ga_conf \<Rightarrow> string \<Rightarrow> ga_conf" where
  "ga_conf_mapreset st mapname = (case smap_find (ga_vars st) mapname of
       None \<Rightarrow> st | Some v \<Rightarrow> conf_set st mapname (gaConfVar_mreset v))"

definition ga_conf_mapkey :: "ga_conf \<Rightarrow> string \<Rightarrow> nat \<Rightarrow> string option option" where
  "ga_conf_mapkey st mapname klen = (case smap_find (ga_vars st) mapname of
       None \<Rightarrow> Some None
     | Some v \<Rightarrow> if gaConfVar_mkey v = [] then Some None
               else map_option Some (strncpy_str klen (gaConfVar_mkey v)))"

definition ga_conf_mapvalue :: "ga_conf \<Rightarrow> string \<Rightarrow> nat \<Rightarrow> string option option" where
  "ga_conf_mapvalue st mapname vlen = (case smap_find (ga_vars st) mapname of
       None \<Rightarrow> Some None
     | Some v \<Rightarrow> if gaConfVar_mkey v = [] then Some None
               else map_option Some (strncpy_str vlen (gaConfVar_mvalue v)))"

definition ga_conf_mapnextkey ::
    "ga_conf \<Rightarrow> string \<Rightarrow> nat \<Rightarrow> (string option \<times> ga_conf) option" where
  "ga_conf_mapnextkey st mapname klen = (case smap_find (ga_vars st) mapname of
       None \<Rightarrow> Some (None, st)
     | Some v \<Rightarrow> (let (k, v') = gaConfVar_mnextkey v; st' = conf_set st mapname v'
                in if k = [] then Some (None, st')
                   else do { t \<leftarrow> strncpy_str klen k; Some (Some t, st') }))"

subsection \<open>Iteration over the whole table\<close>

definition ga_conf_reset :: "ga_conf \<Rightarrow> ga_conf" where
  "ga_conf_reset st = st\<lparr>ga_vmi := conf_iter_begin (ga_vars st)\<rparr>"

definition ga_conf_key :: "ga_conf \<Rightarrow> string option option" where
  "ga_conf_key st = (case ga_vmi st of CI_end \<Rightarrow> Some None | CI_at k \<Rightarrow> Some (Some k)
     | CI_dangling \<Rightarrow> None)"

definition ga_conf_nextkey :: "ga_conf \<Rightarrow> (string option \<times> ga_conf) option" where
  "ga_conf_nextkey st = (case ga_vmi st of
       CI_end \<Rightarrow> Some (None, st)
     | CI_dangling \<Rightarrow> None
     | CI_at k \<Rightarrow> (case smap_next (ga_vars st) k of
           None \<Rightarrow> Some (None, st\<lparr>ga_vmi := CI_end\<rparr>)
         | Some k' \<Rightarrow> Some (Some k', st\<lparr>ga_vmi := CI_at k'\<rparr>)))"

section \<open>The file loader\<close>

text \<open>
  \<open>ga_conf_trim\<close>, step by step: leading spaces; a section header makes the line empty;
  cut at the first \<open>#\<close>, then at the first \<open>;\<close>, then at the first \<open>/\<close> if another
  \<open>/\<close> follows it; the backward scan that cuts at every remaining \<open>#\<close>; trailing spaces.
\<close>

definition trim_slashes :: "string \<Rightarrow> string" where
  "trim_slashes s = (case c_strchr CHR ''/'' s of None \<Rightarrow> s
     | Some (a, b) \<Rightarrow> (case b of x # _ \<Rightarrow> if x = CHR ''/'' then a else s | [] \<Rightarrow> s))"

primrec trim_hash_loop :: "nat \<Rightarrow> string \<Rightarrow> string" where
  "trim_hash_loop 0 s = s"
| "trim_hash_loop (Suc i) s =
     trim_hash_loop i (if i < length s \<and> s ! i = CHR ''#'' then take i s else s)"

definition rstrip :: "string \<Rightarrow> string" where
  "rstrip s = rev (dropWhile c_isspace (rev s))"

definition ga_conf_trim :: "string \<Rightarrow> string" where
  "ga_conf_trim buf =
     (let b1 = dropWhile c_isspace buf
      in if (case b1 of x # _ \<Rightarrow> x = CHR ''['' | [] \<Rightarrow> False) then []
         else let b2 = cut_at CHR ''#'' b1; b3 = cut_at CHR '';'' b2; b4 = trim_slashes b3;
                  b5 = trim_hash_loop (length b4) b4
              in rstrip b5)"

text \<open>
  The file name of an include: an absolute name is copied into a buffer of \<open>_MAX_PATH\<close>
  bytes, a relative one is combined with the directory of the including file
  (\<open>_splitpath\<close> and \<open>_makepath\<close> of the Windows runtime, the parameter \<open>mkpath\<close>); then
  every slash becomes a backslash.
\<close>

definition c_backslash :: char where
  "c_backslash = char_of (92 :: nat)"

definition conf_abspath :: "string \<Rightarrow> bool" where
  "conf_abspath token = (case token of [] \<Rightarrow> False
     | x # xs \<Rightarrow> x = CHR ''/'' \<or> x = c_backslash \<or> (case xs of y # _ \<Rightarrow> y = CHR '':'' | [] \<Rightarrow> False))"

definition conf_incfile :: "(string \<Rightarrow> string \<Rightarrow> string) \<Rightarrow> string \<Rightarrow> string \<Rightarrow> string option" where
  "conf_incfile mkpath filename token =
     map_option (map (\<lambda>c. if c = CHR ''/'' then c_backslash else c))
       (if conf_abspath token then strncpy_str 260 token else Some (mkpath filename token))"

text \<open>
  One line. The loader for included files is the argument \<open>load\<close>, so that the recursion
  through includes is the one of \<open>ga_conf_load\<close> below. The result is the return value
  and the table.
\<close>

definition ga_conf_parse :: "(string \<Rightarrow> ga_conf \<Rightarrow> (int \<times> ga_conf) option) \<Rightarrow>
    (string \<Rightarrow> string \<Rightarrow> string) \<Rightarrow> string \<Rightarrow> string \<Rightarrow> ga_conf \<Rightarrow> (int \<times> ga_conf) option" where
  "ga_conf_parse load mkpath filename buf st =
     (case c_strchr CHR ''='' buf of
        None \<Rightarrow> Some (0, st)
      | Some (opt0, tok0) \<Rightarrow>
          if tok0 = [] then Some (0, st)
          else let option = ga_conf_trim opt0 in
          if option = [] then Some (0, st)
          else let token = ga_conf_trim tok0 in
          if token = [] then Some (0, st)
          else if option = ''include'' then
            do { incfile \<leftarrow> conf_incfile mkpath filename token; load incfile st }
          else (case c_strchr CHR ''['' option of
              None \<Rightarrow> Some (0, conf_set st option (gaConfVar_assign (conf_var st option) token))
            | Some (name, rest) \<Rightarrow>
                (case c_strchr CHR '']'' rest of
                   None \<Rightarrow> Some (-1, st)
                 | Some (key, after) \<Rightarrow>
                     if key = [] then Some (-1, st)
                     else if after \<noteq> [] then Some (-1, st)
                     else Some (0, conf_set st name
                            (gaConfVar_index_set (conf_var st name) key token)))))"

text \<open>
  \<open>fgets(buf, 8192, fp)\<close> returns at most 8191 characters, up to and with a newline; the
  string in the buffer ends at the first NUL.
\<close>

definition fgets_chunk :: "nat \<Rightarrow> string \<Rightarrow> string" where
  "fgets_chunk n s = take (min (n - 1) (Suc (length (takeWhile (\<lambda>c. c \<noteq> CHR 0x0A) s)))) s"

function fgets_lines :: "nat \<Rightarrow> string \<Rightarrow> string list" where
  "fgets_lines n s =
     (if s = [] \<or> n < 2 then []
      else takeWhile (\<lambda>c. c \<noteq> CHR 0x00) (fgets_chunk n s)
           # fgets_lines n (drop (length (fgets_chunk n s)) s))"
  by pat_completeness auto
termination
  by (relation "measure (\<lambda>(n, s). length s)") (auto simp: fgets_chunk_def min_def)

declare fgets_lines.simps [simp del]

primrec conf_lines :: "(string \<Rightarrow> ga_conf \<Rightarrow> (int \<times> ga_conf) option) \<Rightarrow>
    (string \<Rightarrow> string \<Rightarrow> string) \<Rightarrow> string \<Rightarrow> string list \<Rightarrow> int \<Rightarrow> ga_conf \<Rightarrow> (int \<times> ga_conf) option" where
  "conf_lines load mkpath filename [] lineno st = Some (lineno, st)"
| "conf_lines load mkpath filename (l # ls) lineno st = do {
     (r, st') \<leftarrow> ga_conf_parse load mkpath filename l st;
     if r < 0 then Some (-1, st') else conf_lines load mkpath filename ls (lineno + 1) st' }"

text \<open>
  \<open>ga_conf_load\<close>: \<open>fs\<close> gives the contents of the files that can be opened. The fuel bounds
  the depth of includes; running out of it is \<open>None\<close>.
\<close>

primrec ga_conf_load :: "nat \<Rightarrow> (string \<Rightarrow> string \<Rightarrow> string) \<Rightarrow> (string \<Rightarrow> string option) \<Rightarrow>
    string \<Rightarrow> ga_conf \<Rightarrow> (int \<times> ga_conf) option" where
  "ga_conf_load 0 mkpath fs filename st = None"
| "ga_conf_load (Suc fuel) mkpath fs filename st =
     (case fs filename of
        None \<Rightarrow> Some (-1, st)
      | Some content \<Rightarrow> conf_lines (ga_conf_load fuel mkpath fs) mkpath filename
                          (fgets_lines 8192 content) 0 st)"

section \<open>The server URL\<close>

text \<open>
  \<open>ga_url_parse\<close> scans the copy of the address in a buffer of 1024 bytes; a scan that would
  run past the buffer is undefined.
\<close>

definition ga_url_parse :: "string \<Rightarrow> ga_conf \<Rightarrow> (int \<times> ga_conf) option" where
  "ga_url_parse url st =
     (if \<not> strncaseeq ''rtsp://'' url 7 then Some (-1, st)
      else let addr = take 1024 (drop 7 url);
               stop = (\<lambda>c. c = CHR ''/'' \<or> c = CHR '':'');
               servername = takeWhile (\<lambda>c. \<not> stop c) addr;
               finish = (\<lambda>s. ga_conf_writev (ga_conf_writev s ''server-url'' url)
                               ''server-name'' servername)
      in (case drop (length servername) addr of
            [] \<Rightarrow> if length addr = 1024 then None else Some (0, finish st)
          | c # rest \<Rightarrow>
              if c = CHR ''/'' then Some (0, finish st)
              else let serverport = takeWhile c_isdigit (take 63 rest)
                   in if length addr = 1024 \<and> length serverport = length rest \<and> length rest < 63
                      then None
                      else Some (0, finish (ga_conf_writev st ''server-port'' serverport))))"

section \<open>Properties of the store\<close>

definition conf_ok :: "ga_conf \<Rightarrow> bool" where
  "conf_ok st \<longleftrightarrow> smap_ok (ga_vars st) \<and>
     (\<forall>k v. smap_find (ga_vars st) k = Some v \<longrightarrow> cv_ok v) \<and>
     (\<forall>k. ga_vmi st = CI_at k \<longrightarrow> smap_find (ga_vars st) k \<noteq> None)"

lemma conf_okD:
  "conf_ok st \<Longrightarrow> smap_ok (ga_vars st)"
  "conf_ok st \<Longrightarrow> smap_find (ga_vars st) k = Some v \<Longrightarrow> cv_ok v"
  by (auto simp: conf_ok_def)

lemma conf_ok_empty [ga_inv]: "conf_ok ga_conf_empty"
  by (simp add: conf_ok_def ga_conf_empty_def)

lemma cv_ok_conf_var [ga_inv]: "conf_ok st \<Longrightarrow> cv_ok (conf_var st k)"
  by (auto simp: conf_var_def conf_okD cv_ok_ops split: option.splits)

lemma conf_ok_set [ga_inv]: "conf_ok st \<Longrightarrow> cv_ok v \<Longrightarrow> conf_ok (conf_set st k v)"
  by (auto simp: conf_ok_def conf_set_def smap_ok_put smap_find_put)

lemma conf_ok_erase_key [ga_inv]: "conf_ok st \<Longrightarrow> conf_ok (conf_erase_key st k)"
  by (auto simp: conf_ok_def conf_erase_key_def smap_ok_erase smap_find_erase split: if_splits)

lemma cv_ok_index [ga_inv]: "cv_ok v \<Longrightarrow> cv_ok (snd (gaConfVar_index v k))"
  by (auto simp: cv_ok_def gaConfVar_index_def smap_ok_put smap_find_put split: option.splits)

lemma conf_iter_begin_find:
  "conf_iter_begin m = CI_at k \<Longrightarrow> smap_find m k \<noteq> None"
  using smap_begin_find [of m k] by (auto simp: conf_iter_begin_def split: option.splits)

lemma conf_ok_ops [ga_inv]:
  assumes "conf_ok st"
  shows "conf_ok (ga_conf_writev st k s)" and "conf_ok (ga_conf_erase st k)"
    and "conf_ok (ga_conf_clear st)" and "conf_ok (ga_conf_reset st)"
    and "conf_ok (ga_conf_mapwritev st k k2 s)" and "conf_ok (ga_conf_maperase st k k2)"
    and "conf_ok (ga_conf_mapreset st k)"
proof -
  show "conf_ok (ga_conf_writev st k s)" "conf_ok (ga_conf_erase st k)"
    "conf_ok (ga_conf_mapwritev st k k2 s)"
    using assms by (auto simp: ga_conf_writev_def ga_conf_erase_def ga_conf_mapwritev_def
        intro!: ga_inv)
  show "conf_ok (ga_conf_clear st)"
    by (simp add: ga_conf_clear_def conf_ok_def conf_iter_begin_def)
  show "conf_ok (ga_conf_reset st)"
    using assms by (auto simp: ga_conf_reset_def conf_ok_def dest: conf_iter_begin_find)
  show "conf_ok (ga_conf_maperase st k k2)" "conf_ok (ga_conf_mapreset st k)"
    using assms by (auto simp: ga_conf_maperase_def ga_conf_mapreset_def conf_okD
        intro!: ga_inv split: option.splits)
qed

lemma find_conf_set [simp]:
  "smap_find (ga_vars (conf_set st k v)) k' = (if k' = k then Some v else smap_find (ga_vars st) k')"
  by (simp add: conf_set_def smap_find_put)

lemma cv_assign_value [simp]: "cv_data (gaConfVar_assign v s) = s"
  by (simp add: gaConfVar_assign_def)

lemma readv_writev:
  "ga_conf_readv (ga_conf_writev st k s) k' n =
   (if k' = k then map_option Some (strncpy_str n s) else ga_conf_readv st k' n)"
  by (simp add: ga_conf_readv_def ga_conf_writev_def gaConfVar_value_def)

lemma mapread_mapwrite:
  assumes "s \<noteq> []" and "length s < n"
  shows "map_option fst (ga_conf_mapreadv (ga_conf_mapwritev st m k s) m k n) = Some (Some s)"
  using assms index_set_mapdata [of "conf_var st m" k s k]
  by (simp add: ga_conf_mapreadv_def ga_conf_mapwritev_def gaConfVar_index_def strncpy_str_def)

section \<open>Properties of the line parser\<close>

lemma trim_hash_loop_id [simp]: "CHR ''#'' \<notin> set s \<Longrightarrow> trim_hash_loop n s = s"
proof (induction n)
  case (Suc i)
  then have "\<not> (i < length s \<and> s ! i = CHR ''#'')" by (auto simp: in_set_conv_nth)
  then have "trim_hash_loop (Suc i) s = trim_hash_loop i s"
    by (simp only: trim_hash_loop.simps if_False)
  then show ?case using Suc by (simp only: not_False_eq_True)
qed simp

lemma set_trim_slashes: "set (trim_slashes s) \<subseteq> set s"
  by (auto simp: trim_slashes_def dest!: c_strchr_SomeD split: option.splits list.splits if_splits)

lemma rstrip_append: "\<exists>w. s = rstrip s @ w \<and> (\<forall>x\<in>set w. c_isspace x)"
proof -
  have "s = rev (takeWhile c_isspace (rev s) @ dropWhile c_isspace (rev s))"
    by simp
  then have "s = rstrip s @ rev (takeWhile c_isspace (rev s))"
    by (metis rev_append rstrip_def)
  moreover have "\<forall>x\<in>set (rev (takeWhile c_isspace (rev s))). c_isspace x"
    by (auto dest: set_takeWhileD)
  ultimately show ?thesis by blast
qed

lemma rstrip_last: "rstrip s \<noteq> [] \<Longrightarrow> \<not> c_isspace (last (rstrip s))"
  by (simp add: rstrip_def last_rev hd_dropWhile)

lemma rstrip_pad: "\<forall>x\<in>set w. c_isspace x \<Longrightarrow> rstrip (s @ w) = rstrip s"
  by (simp add: rstrip_def dropWhile_append)

lemma rstrip_id: "s = [] \<or> \<not> c_isspace (last s) \<Longrightarrow> rstrip s = s"
  by (cases s rule: rev_cases) (auto simp: rstrip_def)

text \<open>The conditions under which trimming changes nothing.\<close>

definition conf_clean :: "string \<Rightarrow> bool" where
  "conf_clean s \<longleftrightarrow> s = [] \<or> (\<not> c_isspace (hd s) \<and> \<not> c_isspace (last s) \<and> hd s \<noteq> CHR ''['' \<and>
     CHR ''#'' \<notin> set s \<and> CHR '';'' \<notin> set s \<and> trim_slashes s = s)"

lemma trim_slashes_prefix:
  assumes "trim_slashes (s @ w) = s @ w"
  shows "trim_slashes s = s"
proof (cases "c_strchr CHR ''/'' s")
  case (Some p)
  obtain a b where p: "p = (a, b)" by (cases p)
  with Some have s: "s = a @ CHR ''/'' # b" "CHR ''/'' \<notin> set a" by (auto dest: c_strchr_SomeD)
  then have "c_strchr CHR ''/'' (s @ w) = Some (a, b @ w)" by simp
  with assms s Some p show ?thesis
    by (cases b) (auto simp: trim_slashes_def split: if_splits list.splits)
qed (simp add: trim_slashes_def)

lemma trim_slashes_idem: "trim_slashes (trim_slashes s) = trim_slashes s"
proof -
  have "trim_slashes a = a" if "CHR ''/'' \<notin> set a" for a
    using that by (simp add: trim_slashes_def)
  then show ?thesis
    by (auto simp: trim_slashes_def [of s] dest!: c_strchr_SomeD split: option.splits list.splits if_splits)
qed

lemma trim_slashes_take: "\<exists>w. s = trim_slashes s @ w"
  by (auto simp: trim_slashes_def dest!: c_strchr_SomeD split: option.splits list.splits if_splits)

lemma trim_clean: "conf_clean (ga_conf_trim s)"
proof -
  define b1 where "b1 = dropWhile c_isspace s"
  define b3 where "b3 = cut_at CHR '';'' (cut_at CHR ''#'' b1)"
  define b4 where "b4 = trim_slashes b3"
  show ?thesis
  proof (cases "(case b1 of x # _ \<Rightarrow> x = CHR ''['' | [] \<Rightarrow> False) \<or> rstrip b4 = []")
    case True
    have "CHR ''#'' \<notin> set b4" using set_cut_at set_trim_slashes
      by (fastforce simp: b4_def b3_def dest: subsetD)
    with True show ?thesis
      by (auto simp: ga_conf_trim_def conf_clean_def Let_def b1_def b3_def b4_def)
  next
    case False
    have h: "CHR ''#'' \<notin> set b4" "CHR '';'' \<notin> set b4" using set_cut_at set_trim_slashes
      by (fastforce simp: b4_def b3_def dest: subsetD)+
    obtain w where w: "b4 = rstrip b4 @ w" using rstrip_append by blast
    obtain u1 where u1: "b1 = cut_at CHR ''#'' b1 @ u1"
      by (metis cut_at_def takeWhile_dropWhile_id)
    obtain u2 where u2: "cut_at CHR ''#'' b1 = b3 @ u2"
      by (metis b3_def cut_at_def takeWhile_dropWhile_id)
    obtain u3 where u3: "b3 = b4 @ u3" using trim_slashes_take b4_def by blast
    have "b1 = rstrip b4 @ (w @ u3 @ u2 @ u1)" using u1 u2 u3 w by simp
    then have hd: "hd b1 = hd (rstrip b4)" "b1 \<noteq> []" using False by auto
    then have "\<not> c_isspace (hd b1)" unfolding b1_def by (metis hd_dropWhile)
    moreover have "hd b1 \<noteq> CHR ''[''" using False hd by (cases b1) auto
    moreover have "trim_slashes (rstrip b4) = rstrip b4"
      using trim_slashes_prefix [of "rstrip b4" w] w trim_slashes_idem [of b3]
      by (simp add: b4_def)
    moreover have "CHR ''#'' \<notin> set (rstrip b4)" "CHR '';'' \<notin> set (rstrip b4)"
      using h w by (metis in_set_conv_decomp append_assoc append_Cons)+
    moreover have "ga_conf_trim s = rstrip b4"
      using False h by (auto simp: ga_conf_trim_def Let_def b1_def b3_def b4_def)
    ultimately show ?thesis using hd False rstrip_last [of b4]
      by (auto simp: conf_clean_def)
  qed
qed

lemma trim_pad:
  assumes c: "conf_clean s" and ne: "s \<noteq> []"
    and w: "\<forall>x\<in>set w1. c_isspace x" "\<forall>x\<in>set w2. c_isspace x"
  shows "ga_conf_trim (w1 @ s @ w2) = s"
proof -
  have sp: "\<not> c_isspace CHR ''#''" "\<not> c_isspace CHR '';''" "\<not> c_isspace CHR ''/''"
    by (simp_all add: c_isspace_def)
  obtain x xs where s: "s = x # xs" using ne by (cases s) auto
  have d: "dropWhile c_isspace (w1 @ s @ w2) = s @ w2"
    using w(1) c s by (simp add: dropWhile_append conf_clean_def)
  have n: "CHR ''#'' \<notin> set (s @ w2)" "CHR '';'' \<notin> set (s @ w2)"
    using c ne w(2) sp by (auto simp: conf_clean_def)
  have "trim_slashes (s @ w2) = s @ w2"
  proof (cases "c_strchr CHR ''/'' s")
    case None
    then have "CHR ''/'' \<notin> set (s @ w2)" using w(2) sp by auto
    then show ?thesis by (simp add: trim_slashes_def)
  next
    case (Some p)
    obtain a b where p: "p = (a, b)" by (cases p)
    with Some have sa: "s = a @ CHR ''/'' # b" "CHR ''/'' \<notin> set a"
      by (auto dest: c_strchr_SomeD)
    then have e: "c_strchr CHR ''/'' (s @ w2) = Some (a, b @ w2)" by simp
    have "trim_slashes s = s" using c ne by (simp add: conf_clean_def)
    then have "b = [] \<or> hd b \<noteq> CHR ''/''"
      using Some p sa by (auto simp: trim_slashes_def split: list.splits if_splits)
    then show ?thesis using e w(2) sp
      by (cases b; cases w2) (auto simp: trim_slashes_def)
  qed
  moreover have "rstrip (s @ w2) = s"
    using rstrip_pad [OF w(2)] rstrip_id [of s] c ne by (simp add: conf_clean_def)
  moreover have "\<not> (case s @ w2 of x # _ \<Rightarrow> x = CHR ''['' | [] \<Rightarrow> False)"
    using c s by (simp add: conf_clean_def)
  ultimately show ?thesis
    by (simp only: ga_conf_trim_def Let_def d if_False cut_at_id [OF n(1)] cut_at_id [OF n(2)]
        trim_hash_loop_id [OF n(1)])
qed

lemma trim_id: "conf_clean s \<Longrightarrow> ga_conf_trim s = s"
  using trim_pad [of s "[]" "[]"] by (cases "s = []") (auto simp: ga_conf_trim_def rstrip_def trim_slashes_def cut_at_def)

section \<open>Lines and files\<close>

lemma conf_writev_eq:
  "conf_set st k (gaConfVar_assign (conf_var st k) v) = ga_conf_writev st k v"
  by (simp add: ga_conf_writev_def)

text \<open>The names and values that a line can carry.\<close>

definition conf_token_ok :: "string \<Rightarrow> bool" where
  "conf_token_ok s \<longleftrightarrow> s \<noteq> [] \<and> conf_clean s \<and> CHR 0x0A \<notin> set s \<and> CHR 0x00 \<notin> set s"

definition conf_name_ok :: "string \<Rightarrow> bool" where
  "conf_name_ok k \<longleftrightarrow> conf_token_ok k \<and> CHR ''='' \<notin> set k \<and> CHR ''['' \<notin> set k \<and> k \<noteq> ''include''"

definition conf_line :: "string \<Rightarrow> string \<Rightarrow> string" where
  "conf_line k v = k @ CHR ''='' # v @ [CHR 0x0A]"

definition conf_print :: "(string \<times> string) list \<Rightarrow> string" where
  "conf_print kvs = concat (map (\<lambda>(k, v). conf_line k v) kvs)"

lemma space_newline [simp]: "c_isspace CHR 0x0A"
  by (simp add: c_isspace_def)

lemma eq_not_space: "\<forall>x\<in>set w. c_isspace x \<Longrightarrow> CHR ''='' \<notin> set w"
  by (auto simp: c_isspace_def)

lemma parse_tokens:
  assumes k: "conf_clean k" "k \<noteq> []" "CHR ''='' \<notin> set k" and v: "conf_clean v" "v \<noteq> []"
    and w: "\<forall>x\<in>set (w1 @ w2 @ w3 @ w4). c_isspace x"
  shows "ga_conf_parse load mkpath fn (w1 @ k @ w2 @ CHR ''='' # w3 @ v @ w4) st =
     (if k = ''include'' then do { incfile \<leftarrow> conf_incfile mkpath fn v; load incfile st }
      else (case c_strchr CHR ''['' k of
              None \<Rightarrow> Some (0, ga_conf_writev st k v)
            | Some (name, rest) \<Rightarrow>
                (case c_strchr CHR '']'' rest of
                   None \<Rightarrow> Some (-1, st)
                 | Some (key, after) \<Rightarrow>
                     if key = [] then Some (-1, st)
                     else if after \<noteq> [] then Some (-1, st)
                     else Some (0, ga_conf_mapwritev st name key v))))"
proof -
  have n: "CHR ''='' \<notin> set (w1 @ k @ w2)" using k(3) w eq_not_space [of w1] eq_not_space [of w2] by auto
  have c: "c_strchr CHR ''='' (w1 @ k @ w2 @ CHR ''='' # w3 @ v @ w4) = Some (w1 @ k @ w2, w3 @ v @ w4)"
    using c_strchr_append [OF n, of "w3 @ v @ w4"] by simp
  have t: "ga_conf_trim (w1 @ k @ w2) = k" "ga_conf_trim (w3 @ v @ w4) = v"
    using k v w by (auto intro!: trim_pad)
  show ?thesis
    using k(2) v(2) by (simp add: ga_conf_parse_def c t conf_writev_eq ga_conf_mapwritev_def split: option.split)
qed

lemma fgets_line:
  assumes "CHR 0x0A \<notin> set l" and "CHR 0x00 \<notin> set l" and "length l < n - 1"
  shows "fgets_lines n (l @ CHR 0x0A # rest) = (l @ [CHR 0x0A]) # fgets_lines n rest"
proof -
  have "takeWhile (\<lambda>c. c \<noteq> CHR 0x0A) (l @ CHR 0x0A # rest) = l"
    using assms(1) by (subst takeWhile_append2) auto
  then have c: "fgets_chunk n (l @ CHR 0x0A # rest) = l @ [CHR 0x0A]"
    using assms(3) by (simp add: fgets_chunk_def)
  have "takeWhile (\<lambda>c. c \<noteq> CHR 0x00) (l @ [CHR 0x0A]) = l @ [CHR 0x0A]"
    using assms(2) by (intro takeWhile_eq_all_conv [THEN iffD2]) auto
  moreover have "\<not> n < 2" using assms(3) by linarith
  ultimately show ?thesis
    by (subst fgets_lines.simps) (simp add: c)
qed

lemma conf_line_parse:
  assumes "conf_name_ok k" and "conf_token_ok v"
  shows "ga_conf_parse load mkpath fn (conf_line k v) st = Some (0, ga_conf_writev st k v)"
  using parse_tokens [of k v "[]" "[]" "[]" "[CHR 0x0A]"] assms
  by (simp add: conf_line_def conf_name_ok_def conf_token_ok_def)

lemma print_lines:
  assumes "\<forall>(k, v)\<in>set kvs. conf_name_ok k \<and> conf_token_ok v \<and> length k + length v < 8190"
  shows "fgets_lines 8192 (conf_print kvs @ rest) =
    map (\<lambda>(k, v). conf_line k v) kvs @ fgets_lines 8192 rest"
  using assms
proof (induction kvs)
  case (Cons kv kvs)
  obtain k v where kv: "kv = (k, v)" by (cases kv)
  have "fgets_lines 8192 ((k @ CHR ''='' # v) @ CHR 0x0A # conf_print kvs @ rest)
      = ((k @ CHR ''='' # v) @ [CHR 0x0A]) # fgets_lines 8192 (conf_print kvs @ rest)"
    using Cons.prems kv
    by (intro fgets_line) (auto simp: conf_name_ok_def conf_token_ok_def)
  then show ?case using Cons kv by (simp add: conf_print_def conf_line_def)
qed (simp add: conf_print_def)

lemma conf_lines_good:
  assumes "\<forall>(k, v)\<in>set kvs. conf_name_ok k \<and> conf_token_ok v"
  shows "conf_lines load mkpath fn (map (\<lambda>(k, v). conf_line k v) kvs @ ls) n st =
    conf_lines load mkpath fn ls (n + int (length kvs))
      (foldl (\<lambda>s (k, v). ga_conf_writev s k v) st kvs)"
  using assms
proof (induction kvs arbitrary: n st)
  case (Cons kv kvs)
  obtain k v where kv: "kv = (k, v)" by (cases kv)
  then show ?case using Cons by (simp add: conf_line_parse add.assoc)
qed simp



text \<open>A line \<open>name[key]=value\<close> with a bracket that is not closed at the end of the name
  stops the loader with an error: the lines before it have taken effect, the lines after it
  are not read.\<close>

theorem ga_conf_load_malformed:
  assumes "fs fn = Some (conf_print kvs @ name @ CHR ''['' # key @ CHR ''='' # v @ CHR 0x0A # rest)"
    and "\<forall>(k, v)\<in>set kvs. conf_name_ok k \<and> conf_token_ok v \<and> length k + length v < 8190"
    and "conf_token_ok (name @ CHR ''['' # key)" and "conf_token_ok v"
    and "CHR ''='' \<notin> set (name @ key)" and "CHR ''['' \<notin> set name" and "CHR '']'' \<notin> set key"
    and "length name + length key + length v < 8189"
  shows "ga_conf_load (Suc fuel) mkpath fs fn st =
    Some (-1, foldl (\<lambda>s (k, v). ga_conf_writev s k v) st kvs)"
proof -
  let ?o = "name @ CHR ''['' # key"
  let ?l = "?o @ CHR ''='' # v"
  have l: "fgets_lines 8192 (conf_print kvs @ ?l @ CHR 0x0A # rest) =
      map (\<lambda>(k, v). conf_line k v) kvs @ (?l @ [CHR 0x0A]) # fgets_lines 8192 rest"
    using assms(3,4,8)
    by (subst print_lines [OF assms(2)], subst fgets_line) (auto simp: conf_token_ok_def)
  have kv: "\<forall>(k, v)\<in>set kvs. conf_name_ok k \<and> conf_token_ok v" using assms(2) by fastforce
  have "?o \<noteq> ''include''" using assms(6) by (auto simp: append_eq_Cons_conv Cons_eq_append_conv)
  then have p: "ga_conf_parse load mkpath fn (?l @ [CHR 0x0A]) st' = Some (-1, st')" for load st'
    using parse_tokens [of ?o v "[]" "[]" "[]" "[CHR 0x0A]" load mkpath fn st'] assms(3-7)
    by (simp add: conf_token_ok_def)
  have "conf_lines load mkpath fn (map (\<lambda>(k, v). conf_line k v) kvs @ (?l @ [CHR 0x0A]) # ls) n st =
      Some (-1, foldl (\<lambda>s (k, v). ga_conf_writev s k v) st kvs)" for load ls n
    by (subst conf_lines_good [OF kv]) (simp only: conf_lines.simps p, simp)
  with l show ?thesis using assms(1) by simp
qed

theorem ga_conf_load_malformed_witness:
  "ga_conf_load 1 (\<lambda>d f. d)
     [''c'' \<mapsto> conf_print [(''a'', ''1'')] @ ''m[k'' @ CHR ''='' # ''2'' @ CHR 0x0A # conf_line ''b'' ''3'']
     ''c'' ga_conf_empty
   = Some (-1, ga_conf_writev ga_conf_empty ''a'' ''1'')"
  using ga_conf_load_malformed [of "[''c'' \<mapsto> conf_print [(''a'', ''1'')] @ ''m[k'' @ CHR ''='' # ''2'' @ CHR 0x0A # conf_line ''b'' ''3'']"
      "''c''" "[(''a'', ''1'')]" "''m''" "''k''" "''2''" "conf_line ''b'' ''3''" 0 "\<lambda>d f. d" ga_conf_empty]
  by (simp add: conf_name_ok_def conf_token_ok_def conf_clean_def c_isspace_def trim_slashes_def)

section \<open>Includes\<close>

text \<open>The argument of a line that is an include.\<close>

definition conf_line_include :: "string \<Rightarrow> string option" where
  "conf_line_include buf = (case c_strchr CHR ''='' buf of
       Some (o', t) \<Rightarrow> if ga_conf_trim o' = ''include'' \<and> t \<noteq> [] \<and> ga_conf_trim t \<noteq> []
                     then Some (ga_conf_trim t) else None
     | None \<Rightarrow> None)"

lemma parse_include:
  "conf_line_include buf = Some token \<Longrightarrow>
   ga_conf_parse load mkpath fn buf st = do { inc \<leftarrow> conf_incfile mkpath fn token; load inc st }"
  by (auto simp: conf_line_include_def ga_conf_parse_def split: option.splits if_splits)

lemma parse_no_include:
  assumes n: "conf_line_include buf = None"
  shows "\<exists>r st'. (\<forall>load. ga_conf_parse load mkpath fn buf st = Some (r, st')) \<and> (conf_ok st \<longrightarrow> conf_ok st')"
proof (cases "c_strchr CHR ''='' buf")
  case None
  then show ?thesis by (simp add: ga_conf_parse_def)
next
  case c: (Some p)
  obtain opt tok where p: "p = (opt, tok)" by (cases p)
  show ?thesis
  proof (cases "tok = [] \<or> ga_conf_trim opt = [] \<or> ga_conf_trim tok = []")
    case True
    then have "ga_conf_parse load mkpath fn buf st = Some (0, st)" for load
      using c p by (auto simp: ga_conf_parse_def Let_def)
    then show ?thesis by blast
  next
    case False
    then have ni: "ga_conf_trim opt \<noteq> ''include''" using n c p by (auto simp: conf_line_include_def split: if_splits)
    let ?o = "ga_conf_trim opt" and ?t = "ga_conf_trim tok"
    let ?res = "case c_strchr CHR ''['' ?o of None \<Rightarrow> (0 :: int, ga_conf_writev st ?o ?t)
      | Some (name, rest) \<Rightarrow> (case c_strchr CHR '']'' rest of None \<Rightarrow> (-1, st)
         | Some (key, after) \<Rightarrow> if key = [] \<or> after \<noteq> [] then (-1, st)
             else (0, ga_conf_mapwritev st name key ?t))"
    have "ga_conf_parse load mkpath fn buf st = Some ?res" for load
    proof (cases "c_strchr CHR ''['' ?o")
      case None
      then show ?thesis using False ni c p by (simp add: ga_conf_parse_def conf_writev_eq)
    next
      case b: (Some nr)
      obtain name rest where nr: "nr = (name, rest)" by (cases nr)
      show ?thesis
        using False ni c p b nr
        by (cases "c_strchr CHR '']'' rest") (auto simp: ga_conf_parse_def ga_conf_mapwritev_def)
    qed
    moreover have "conf_ok (snd ?res)" if "conf_ok st"
    proof (cases "c_strchr CHR ''['' ?o")
      case None
      then show ?thesis using that by (simp add: conf_ok_ops)
    next
      case b: (Some nr)
      obtain name rest where nr: "nr = (name, rest)" by (cases nr)
      show ?thesis
        using that b nr by (cases "c_strchr CHR '']'' rest") (auto simp: conf_ok_ops)
    qed
    moreover obtain r st' where "?res = (r, st')" by (rule prod.exhaust)
    ultimately have "(\<forall>load. ga_conf_parse load mkpath fn buf st = Some (r, st')) \<and> (conf_ok st \<longrightarrow> conf_ok st')"
      by (simp only: snd_conv) simp
    then show ?thesis by blast
  qed
qed

lemma conf_lines_ok:
  assumes "\<And>inc st r st'. load inc st = Some (r, st') \<Longrightarrow> conf_ok st \<Longrightarrow> conf_ok st'"
  shows "conf_lines load mkpath fn ls n st = Some (r, st') \<Longrightarrow> conf_ok st \<Longrightarrow> conf_ok st'"
proof (induction ls arbitrary: n st)
  case (Cons l ls)
  obtain r1 st1 where p: "ga_conf_parse load mkpath fn l st = Some (r1, st1)"
    using Cons.prems(1) by auto
  have "conf_ok st1"
  proof (cases "conf_line_include l")
    case None
    from parse_no_include [OF this, of mkpath fn st] p Cons.prems(2) show ?thesis by auto
  next
    case (Some t)
    obtain inc where "load inc st = Some (r1, st1)"
      using parse_include [OF Some, of load mkpath fn st] p by (cases "conf_incfile mkpath fn t") auto
    then show ?thesis using Cons.prems(2) assms by blast
  qed
  then show ?case using Cons p by (auto split: if_splits)
qed simp



text \<open>C37. Loading ends when includes do not form a cycle: if every file included by a file
  ranks below it, fuel above the rank of the first file is enough for a result.\<close>

theorem ga_conf_load_terminates:
  assumes "\<And>f content l token. fs f = Some content \<Longrightarrow> l \<in> set (fgets_lines 8192 content) \<Longrightarrow>
      conf_line_include l = Some token \<Longrightarrow>
      \<exists>inc. conf_incfile mkpath f token = Some inc \<and> rank inc < rank f"
    and "rank fn < fuel"
  shows "\<exists>r st'. ga_conf_load fuel mkpath fs fn st = Some (r, st')"
  using assms(2)
proof (induction fuel arbitrary: fn st)
  case (Suc fuel)
  show ?case
  proof (cases "fs fn")
    case (Some content)
    have "\<exists>r st'. conf_lines (ga_conf_load fuel mkpath fs) mkpath fn ls n st = Some (r, st')"
      if "set ls \<subseteq> set (fgets_lines 8192 content)" for ls n
      using that
    proof (induction ls arbitrary: n st)
      case (Cons l ls)
      have "\<exists>r st'. ga_conf_parse (ga_conf_load fuel mkpath fs) mkpath fn l st = Some (r, st')"
      proof (cases "conf_line_include l")
        case None
        from parse_no_include [OF this] show ?thesis by blast
      next
        case t: (Some token)
        obtain inc where inc: "conf_incfile mkpath fn token = Some inc" "rank inc < rank fn"
          using assms(1) [OF Some _ t] Cons.prems by auto
        have "\<exists>r st'. ga_conf_load fuel mkpath fs inc st = Some (r, st')"
          using Suc.prems inc(2) by (intro Suc.IH) simp
        then show ?thesis using parse_include [OF t] inc(1) by simp
      qed
      then obtain r st' where "ga_conf_parse (ga_conf_load fuel mkpath fs) mkpath fn l st = Some (r, st')"
        by blast
      then show ?case using Cons.IH [of "n + 1" st'] Cons.prems by auto
    qed simp
    then show ?thesis using Some by simp
  qed simp
qed simp

text \<open>A file that includes itself on its first line is loaded without end: the recursion
  between \<open>ga_conf_load\<close> and \<open>ga_conf_parse\<close> has no bound, so no fuel gives a result.\<close>

theorem ga_conf_load_self_include:
  assumes "fs fn = Some content" and "fgets_lines 8192 content = l # ls"
    and "conf_line_include l = Some token" and "conf_incfile mkpath fn token = Some fn"
  shows "ga_conf_load fuel mkpath fs fn st = None"
proof (induction fuel arbitrary: st)
  case (Suc fuel)
  then show ?case
    using assms parse_include [OF assms(3), of "ga_conf_load fuel mkpath fs" mkpath fn st] by simp
qed simp

theorem ga_conf_load_self_include_witness:
  "ga_conf_load 5 (\<lambda>d f. f) [''c'' \<mapsto> ''include=c''] ''c'' ga_conf_empty = None"
proof (rule ga_conf_load_self_include)
  show "fgets_lines 8192 ''include=c'' = ''include=c'' # []" by code_simp
  show "conf_line_include ''include=c'' = Some ''c''" by code_simp
  show "conf_incfile (\<lambda>d f. f) ''c'' ''c'' = Some ''c''" by code_simp
qed simp

theorem ga_conf_load_terminates_witness:
  "\<exists>r st'. ga_conf_load 2 (\<lambda>d f. f) [''c'' \<mapsto> ''include=d'', ''d'' \<mapsto> ''a=1''] ''c'' ga_conf_empty = Some (r, st')"
proof (rule ga_conf_load_terminates [where rank = "\<lambda>f. if f = ''c'' then 1 else 0"])
  fix f content l token
  let ?fs = "[''c'' \<mapsto> ''include=d'', ''d'' \<mapsto> ''a=1'']"
  have l: "fgets_lines 8192 ''include=d'' = [''include=d'']" "fgets_lines 8192 ''a=1'' = [''a=1'']"
    by code_simp+
  have i: "conf_line_include ''a=1'' = None" "conf_line_include ''include=d'' = Some ''d''"
    "conf_incfile (\<lambda>d f. f) ''c'' ''d'' = Some ''d''"
    by code_simp+
  assume fs: "?fs f = Some content" and ls: "l \<in> set (fgets_lines 8192 content)"
    and inc: "conf_line_include l = Some token"
  from fs consider "f = ''c''" "content = ''include=d''" | "f = ''d''" "content = ''a=1''"
    by (simp split: if_splits)
  then show "\<exists>inc. conf_incfile (\<lambda>d f. f) f token = Some inc \<and>
      (if inc = ''c'' then 1 else 0) < (if f = ''c'' then 1 else (0::nat))"
  proof cases
    case 1
    then have "l = ''include=d''" using ls by (simp only: l(1)) simp
    then have "token = ''d''" using inc i(2) by simp
    then show ?thesis using i(3) 1 by simp
  next
    case 2
    then have "l = ''a=1''" using ls by (simp only: l(2)) simp
    then show ?thesis using inc i(1) by simp
  qed
qed simp

section \<open>Parameter maps\<close>

text \<open>Enumerating a map: the key at the iterator, then \<open>ga_conf_mapnextkey\<close> until it
  returns NULL; at most \<open>n\<close> keys are taken.\<close>

primrec conf_enum_rest :: "nat \<Rightarrow> ga_conf \<Rightarrow> string \<Rightarrow> nat \<Rightarrow> string list option" where
  "conf_enum_rest 0 st m klen = Some []"
| "conf_enum_rest (Suc n) st m klen = do {
     (k, st') \<leftarrow> ga_conf_mapnextkey st m klen;
     (case k of None \<Rightarrow> Some [] | Some k' \<Rightarrow> do { ks \<leftarrow> conf_enum_rest n st' m klen; Some (k' # ks) }) }"

definition conf_enum :: "nat \<Rightarrow> ga_conf \<Rightarrow> string \<Rightarrow> nat \<Rightarrow> string list option" where
  "conf_enum n st m klen = do {
     k \<leftarrow> ga_conf_mapkey (ga_conf_mapreset st m) m klen;
     (case k of None \<Rightarrow> Some [] | Some k' \<Rightarrow>
        do { ks \<leftarrow> conf_enum_rest n (ga_conf_mapreset st m) m klen; Some (k' # ks) }) }"

lemma enum_rest_walk:
  assumes "smap_find (ga_vars st) m = Some v" and "cv_mi v = Some k"
    and "\<forall>x\<in>set (smap_keys (cv_mapdata v)). x \<noteq> [] \<and> length x < klen" and "smap_ok (cv_mapdata v)"
  shows "conf_enum_rest n st m klen = Some (smap_walk n (cv_mapdata v) (smap_next (cv_mapdata v) k))"
  using assms
proof (induction n arbitrary: st v k)
  case (Suc n)
  let ?d = "cv_mapdata v"
  show ?case
  proof (cases "smap_next ?d k")
    case None
    then show ?thesis
      using Suc.prems by (simp add: ga_conf_mapnextkey_def gaConfVar_mnextkey_def)
  next
    case (Some k')
    let ?v = "v\<lparr>cv_mi := Some k'\<rparr>"
    have k': "k' \<noteq> []" "length k' < klen"
      using smap_next_find [OF Suc.prems(4) Some] smap_keys_find [of k' ?d] Suc.prems(3) by auto
    have "ga_conf_mapnextkey st m klen = Some (Some k', conf_set st m ?v)"
      using Suc.prems Some k'
      by (simp add: ga_conf_mapnextkey_def gaConfVar_mnextkey_def strncpy_str_def)
    moreover have "conf_enum_rest n (conf_set st m ?v) m klen = Some (smap_walk n ?d (smap_next ?d k'))"
      using Suc.IH [of "conf_set st m ?v" ?v k'] Suc.prems by simp
    ultimately show ?thesis by (simp add: Some)
  qed
qed simp

text \<open>Resetting the iterator of a map parameter and following it yields every key of the
  map exactly once, in increasing order, and then stops: as many calls as the map has keys
  are enough.\<close>

theorem ga_conf_map_enumeration:
  assumes "conf_ok st" and "smap_find (ga_vars st) m = Some v"
    and "\<forall>x\<in>set (smap_keys (cv_mapdata v)). x \<noteq> [] \<and> length x < klen"
    and "int n = ga_conf_mapsize st m"
  shows "conf_enum n st m klen = Some (smap_keys (cv_mapdata v)) \<and>
    sorted_wrt (<) (smap_keys (cv_mapdata v))"
proof -
  let ?d = "cv_mapdata v" and ?st = "ga_conf_mapreset st m"
  let ?v = "v\<lparr>cv_mi := smap_begin ?d\<rparr>"
  have ok: "smap_ok ?d" using assms(1,2) by (auto dest: conf_okD simp: cv_ok_def)
  have n: "n = length ?d" using assms(2,4) by (simp add: ga_conf_mapsize_def gaConfVar_msize_def)
  have f: "smap_find (ga_vars ?st) m = Some ?v"
    using assms(2) by (simp add: ga_conf_mapreset_def gaConfVar_mreset_def)
  have w: "smap_walk (Suc n) ?d (smap_begin ?d) = smap_keys ?d"
    using smap_walk_suffix [of "[]" ?d "Suc n"] ok n by simp
  show ?thesis
  proof (cases "smap_begin ?d")
    case None
    then have "?d = []" by (cases ?d) (auto simp: smap_begin_def)
    then show ?thesis using f None ok
      by (simp add: conf_enum_def ga_conf_mapkey_def gaConfVar_mkey_def smap_keys_def)
  next
    case (Some k)
    have k: "k \<noteq> []" "length k < klen"
      using smap_begin_find [OF Some] smap_keys_find [of k ?d] assms(3) by auto
    have "ga_conf_mapkey ?st m klen = Some (Some k)"
      using f Some k by (simp add: ga_conf_mapkey_def gaConfVar_mkey_def strncpy_str_def)
    moreover have "conf_enum_rest n ?st m klen = Some (smap_walk n ?d (smap_next ?d k))"
      using enum_rest_walk [OF f, of k klen n] Some assms(3) ok by simp
    ultimately show ?thesis
      using w Some ok by (simp add: conf_enum_def smap_keys_sorted)
  qed
qed

theorem ga_conf_map_enumeration_witness:
  "conf_enum 2 (ga_conf_mapwritev (ga_conf_mapwritev ga_conf_empty ''p'' ''b'' ''1'') ''p'' ''a'' ''2'') ''p'' 64
   = Some [''a'', ''b'']"
proof -
  let ?st = "ga_conf_mapwritev (ga_conf_mapwritev ga_conf_empty ''p'' ''b'' ''1'') ''p'' ''a'' ''2''"
  have ok: "conf_ok ?st" by (intro conf_ok_ops(5) conf_ok_empty)
  have f: "smap_find (ga_vars ?st) ''p'' =
      Some \<lparr>cv_data = [], cv_mapdata = [(''a'', ''2''), (''b'', ''1'')], cv_mi = None\<rparr>"
    by code_simp
  from ga_conf_map_enumeration [OF ok f, of 64 2] f
  show ?thesis by (simp add: smap_keys_def ga_conf_mapsize_def gaConfVar_msize_def)
qed

text \<open>Erasing one key of a map parameter removes the whole parameter: after
  \<open>ga_conf_maperase\<close> no key of that map is left, and a plain value stored under the same
  name is gone as well; every other parameter keeps its value.\<close>

theorem ga_conf_maperase_drops_parameter:
  assumes "conf_ok st" and "smap_find (ga_vars st) m \<noteq> None"
  shows "\<not> ga_conf_haskey (ga_conf_maperase st m k) m k2 \<and>
    ga_conf_mapsize (ga_conf_maperase st m k) m = 0 \<and>
    ga_conf_readv (ga_conf_maperase st m k) m n = Some None \<and>
    (m' \<noteq> m \<longrightarrow> ga_conf_readv (ga_conf_maperase st m k) m' n = ga_conf_readv st m' n)"
proof -
  have "smap_find (ga_vars (ga_conf_maperase st m k)) x =
      (if x = m then None else smap_find (ga_vars st) x)" for x
    using assms by (auto simp: ga_conf_maperase_def conf_erase_key_def smap_find_erase
        conf_okD split: option.splits)
  then show ?thesis by (simp add: ga_conf_haskey_def ga_conf_mapsize_def ga_conf_readv_def)
qed

theorem ga_conf_maperase_drops_parameter_witness:
  "\<not> ga_conf_haskey (ga_conf_maperase
      (ga_conf_mapwritev (ga_conf_mapwritev ga_conf_empty ''p'' ''b'' ''1'') ''p'' ''a'' ''2'') ''p'' ''a'') ''p'' ''b''"
proof -
  let ?st = "ga_conf_mapwritev (ga_conf_mapwritev ga_conf_empty ''p'' ''b'' ''1'') ''p'' ''a'' ''2''"
  have ok: "conf_ok ?st" by (intro conf_ok_ops(5) conf_ok_empty)
  have "smap_find (ga_vars ?st) ''p'' \<noteq> None" by code_simp
  from ga_conf_maperase_drops_parameter [OF ok this] show ?thesis by blast
qed

text \<open>Reading is not pure: asking a map parameter for a key it does not have returns NULL
  but inserts the key with an empty value, so the map grows by one and \<open>ga_conf_haskey\<close>
  answers true from then on; asking again changes nothing more.\<close>

theorem ga_conf_mapreadv_inserts:
  assumes "smap_find (ga_vars st) m = Some v" and "\<not> ga_conf_haskey st m k" and "0 < n"
  shows "\<exists>st'. ga_conf_mapreadv st m k n = Some (None, st') \<and> ga_conf_haskey st' m k \<and>
    ga_conf_mapsize st' m = ga_conf_mapsize st m + 1 \<and>
    map_option fst (ga_conf_mapreadv st' m k n) = Some None \<and>
    (\<forall>k2. k2 \<noteq> k \<longrightarrow> ga_conf_haskey st' m k2 = ga_conf_haskey st m k2)"
proof -
  have f: "smap_find (cv_mapdata v) k = None"
    using assms(1,2) by (simp add: ga_conf_haskey_def gaConfVar_haskey_def)
  have l: "length (smap_put d k x) = Suc (length d)" if "smap_find d k = None"
    for d :: "(string, string) smap" and x
    using that by (induction d k x rule: smap_put.induct) (auto split: if_splits)
  show ?thesis
    using assms(1) f l [OF f]
    by (auto simp: ga_conf_mapreadv_def gaConfVar_index_def ga_conf_haskey_def gaConfVar_haskey_def
        ga_conf_mapsize_def gaConfVar_msize_def smap_find_put)
qed

theorem ga_conf_mapreadv_inserts_witness:
  "\<exists>st'. ga_conf_mapreadv (ga_conf_mapwritev ga_conf_empty ''p'' ''a'' ''1'') ''p'' ''b'' 64 = Some (None, st')
     \<and> ga_conf_haskey st' ''p'' ''b''"
proof -
  let ?st = "ga_conf_mapwritev ga_conf_empty ''p'' ''a'' ''1''"
  have f: "smap_find (ga_vars ?st) ''p'' = Some \<lparr>cv_data = [], cv_mapdata = [(''a'', ''1'')], cv_mi = None\<rparr>"
    by code_simp
  have "\<not> ga_conf_haskey ?st ''p'' ''b''" by code_simp
  from ga_conf_mapreadv_inserts [OF f this, of 64] show ?thesis by auto
qed

section \<open>The server URL\<close>

text \<open>A URL \<open>rtsp://name:port/...\<close> sets the server name and port, stores the whole URL, and
  touches no other parameter.\<close>

theorem ga_url_parse_name_port:
  assumes "\<forall>c\<in>set name. c \<noteq> CHR ''/'' \<and> c \<noteq> CHR '':''" and "\<forall>c\<in>set port. c_isdigit c"
    and "length name + length port + length rest < 1022" and "length port < 63"
    and "url = ''rtsp://'' @ name @ CHR '':'' # port @ CHR ''/'' # rest"
  shows "\<exists>st'. ga_url_parse url st = Some (0, st') \<and>
    ga_conf_readv st' ''server-name'' 1024 = Some (Some name) \<and>
    ga_conf_readv st' ''server-port'' 64 = Some (Some port) \<and>
    ga_conf_readv st' ''server-url'' 2048 = Some (Some url) \<and>
    (\<forall>k. k \<notin> {''server-name'', ''server-port'', ''server-url''} \<longrightarrow>
       ga_conf_readv st' k n = ga_conf_readv st k n)"
proof -
  have nd: "\<not> c_isdigit CHR ''/''" by (simp add: c_isdigit_def)
  have r: "strncaseeq ''rtsp://'' url 7" by (simp add: assms(5) strncaseeq_def strcaseeq_def)
  have a: "take 1024 (drop 7 url) = name @ CHR '':'' # port @ CHR ''/'' # rest"
    using assms(3,5) by simp
  have t: "takeWhile (\<lambda>c. \<not> (c = CHR ''/'' \<or> c = CHR '':'')) (name @ CHR '':'' # port @ CHR ''/'' # rest) = name"
    using assms(1) by (subst takeWhile_append2) auto
  have p: "takeWhile c_isdigit (take 63 (port @ CHR ''/'' # rest)) = port"
  proof -
    obtain i where i: "63 - length port = Suc i" using assms(4) by (cases "63 - length port") auto
    have "take 63 (port @ CHR ''/'' # rest) = port @ CHR ''/'' # take i rest"
      using assms(4) by (simp add: i)
    then show ?thesis using assms(2) nd by (subst \<open>take 63 _ = _\<close>, subst takeWhile_append2) auto
  qed
  have l: "length name < 1024" "length port < 64" "length url < 2048"
    using assms(3,4,5) by simp_all
  show ?thesis
    using l assms(3) unfolding ga_url_parse_def Let_def
    by (simp only: r a t not_True_eq_False if_False)
      (simp add: p readv_writev strncpy_str_def del: take_append)
qed

theorem ga_url_parse_name_port_witness:
  "\<exists>st'. ga_url_parse ''rtsp://host:8554/desktop'' ga_conf_empty = Some (0, st') \<and>
    ga_conf_readv st' ''server-name'' 1024 = Some (Some ''host'') \<and>
    ga_conf_readv st' ''server-port'' 64 = Some (Some ''8554'')"
  using ga_url_parse_name_port [of "''host''" "''8554''" "''desktop''" "''rtsp://host:8554/desktop''" ga_conf_empty 64]
  by (auto simp: c_isdigit_def)

end
