(* ===== verification/GaCommon.thy ===== *)
theory GaCommon
  imports GaConf
begin

text \<open>
  The shared routines of \<open>core/ga-common.cpp\<close>: time differences and sleeping, aligned
  allocation, start-up and the log file, saving frames to a file, the aggregated statistics
  output, the start-code search, rectangles and the cropping of the captured window, and
  the codec table. Calls into the operating system are arguments.
\<close>

section \<open>Time\<close>

definition tvdiff_us :: "timeval \<Rightarrow> timeval \<Rightarrow> int" where
  "tvdiff_us tv1 tv2 =
     (let sec = tv_sec tv1 - tv_sec tv2; usec = tv_usec tv1 - tv_usec tv2
      in if usec < 0 then 1000000 * (sec - 1) + (usec + 1000000) else 1000000 * sec + usec)"

text \<open>The result and the argument of the call of \<open>usleep\<close>; \<open>now\<close> is the time read.\<close>

definition ga_usleep :: "timeval \<Rightarrow> int \<Rightarrow> timeval option \<Rightarrow> int \<times> int" where
  "ga_usleep now interval ptv = (case ptv of
       None \<Rightarrow> (0, interval)
     | Some t \<Rightarrow> (let delta = tvdiff_us now t
                in if delta \<ge> interval then (-1, 1) else (0, interval - delta)))"

text \<open>The instant of a time value in microseconds.\<close>

definition tv_us :: "timeval \<Rightarrow> int" where
  "tv_us t = 1000000 * tv_sec t + tv_usec t"

lemma tvdiff_us_exact: "tvdiff_us a b = tv_us a - tv_us b"
  by (simp add: tvdiff_us_def tv_us_def Let_def)

lemma usleep_wakes:
  assumes "ga_usleep now interval (Some t) = (0, d)"
  shows "tv_us now + d = tv_us t + interval" and "0 < d"
  using assms by (auto simp: ga_usleep_def Let_def tvdiff_us_exact split: if_splits)

section \<open>Aligned allocation\<close>

text \<open>\<open>malloc\<close> gives the address of a block of the requested size, or \<open>None\<close>.\<close>

definition ga_malloc :: "(int \<Rightarrow> nat option) \<Rightarrow> int \<Rightarrow> (nat \<times> nat) option" where
  "ga_malloc malloc sz = do {
     ptr \<leftarrow> malloc (sz + 16);
     Some (ptr, 16 - ptr mod 16) }"

text \<open>\<open>ptr & mask\<close> is the remainder for the alignments 1, 2, 4, ... that the caller may pass.\<close>

definition ga_alignment :: "u32 \<Rightarrow> u32 \<Rightarrow> u32" where
  "ga_alignment ptr alignto = alignto - (ptr AND (alignto - 1))"

lemma ga_malloc_aligned:
  assumes "ga_malloc malloc sz = Some (ptr, off)"
  shows "16 dvd (ptr + off)" and "1 \<le> off" and "off \<le> 16"
    and "malloc (sz + 16) = Some ptr"
proof -
  have o: "off = 16 - ptr mod 16" "malloc (sz + 16) = Some ptr"
    using assms by (auto simp: ga_malloc_def)
  have "ptr + off = 16 * (ptr div 16 + 1)" using o(1) by presburger
  then show "16 dvd (ptr + off)" by simp
  show "1 \<le> off" "off \<le> 16" using o(1) by presburger+
qed (use assms in \<open>auto simp: ga_malloc_def\<close>)

section \<open>Start-up and the log file\<close>

text \<open>\<open>ga_init\<close> up to the library initialisation: the result and the configuration.\<close>

definition ga_init :: "nat \<Rightarrow> (string \<Rightarrow> string \<Rightarrow> string) \<Rightarrow> (string \<Rightarrow> string option) \<Rightarrow>
    string option \<Rightarrow> string option \<Rightarrow> ga_conf \<Rightarrow> (int \<times> ga_conf) option" where
  "ga_init fuel mkpath fs config url st = do {
     (r, st1) \<leftarrow> (case config of None \<Rightarrow> Some (0, st) | Some c \<Rightarrow> ga_conf_load fuel mkpath fs c st);
     if r < 0 then Some (-1, st1)
     else do {
       (r2, st2) \<leftarrow> (case url of None \<Rightarrow> Some (0, st1) | Some u \<Rightarrow> ga_url_parse u st1);
       if r2 < 0 then Some (-1, st2) else Some (0, st2) } }"

text \<open>The global \<open>ga_logfile\<close>; \<open>fopen_ok\<close> tells whether the file can be opened.\<close>

definition ga_openlog :: "ga_conf \<Rightarrow> (string \<Rightarrow> bool) \<Rightarrow> string option \<Rightarrow> string option option" where
  "ga_openlog st fopen_ok logfile = do {
     p \<leftarrow> ga_conf_readv st ''logfile'' 1024;
     Some (case p of None \<Rightarrow> logfile | Some fn \<Rightarrow> if fopen_ok fn then Some fn else logfile) }"

definition ga_closelog :: "string option \<Rightarrow> string option" where
  "ga_closelog logfile = None"

section \<open>Saving frames\<close>

text \<open>
  A file open for writing is the bytes written to it. \<open>fwrite\<close> writes a prefix of the
  bytes given and returns its length; \<open>limit\<close> is the room left on the device.
\<close>

definition fwrite :: "nat \<Rightarrow> byte list \<Rightarrow> byte list \<Rightarrow> int \<times> byte list" where
  "fwrite limit data fp = (let n = min (length data) (limit - length fp)
     in (int n, fp @ take n data))"

definition ga_save_data :: "nat \<Rightarrow> byte list option \<Rightarrow> byte list option \<Rightarrow> int \<Rightarrow> (int \<times> byte list option) option" where
  "ga_save_data limit fp buffer sz = (case (fp, buffer) of
       (Some f, Some b) \<Rightarrow>
         if sz < 0 then Some (-1, fp)
         else if sz = 0 then Some (0, fp)
         else do { d \<leftarrow> c_read b 0 sz; let (n, f') = fwrite limit d f in Some (n, Some f') }
     | _ \<Rightarrow> Some (-1, fp))"

text \<open>
  The loop that writes \<open>h\<close> rows of \<open>w\<close> bytes: the bytes written so far, the source
  position and the file.
\<close>

primrec save_rows :: "nat \<Rightarrow> nat \<Rightarrow> byte list \<Rightarrow> int \<Rightarrow> int \<Rightarrow> int \<Rightarrow> int \<Rightarrow> byte list \<Rightarrow> (int \<times> byte list) option" where
  "save_rows 0 limit plane src w linesize written fp = Some (written, fp)"
| "save_rows (Suc h) limit plane src w linesize written fp = do {
     row \<leftarrow> c_read plane src w;
     let (wlen, fp') = fwrite limit row fp
     in if wlen < 0 then Some (-1, fp')
        else save_rows h limit plane (src + linesize) w linesize (written + wlen) fp' }"

definition ga_save_yuv420p :: "nat \<Rightarrow> byte list option \<Rightarrow> int \<Rightarrow> int \<Rightarrow> (byte list \<times> byte list \<times> byte list) option \<Rightarrow>
    (int \<times> int \<times> int) option \<Rightarrow> (int \<times> byte list option) option" where
  "ga_save_yuv420p limit fp w h planes linesize = (case (fp, planes, linesize) of
       (Some f, Some (y, u, v), Some (ly, lu, lv)) \<Rightarrow>
         if w \<le> 0 \<or> h \<le> 0 then Some (-1, fp)
         else do {
           (n1, f1) \<leftarrow> save_rows (nat h) limit y 0 w ly 0 f;
           (n2, f2) \<leftarrow> save_rows (nat (h div 2)) limit u 0 (w div 2) lu n1 f1;
           (n3, f3) \<leftarrow> save_rows (nat (h div 2)) limit v 0 (w div 2) lv n2 f2;
           Some (n3, Some f3) }
     | _ \<Rightarrow> Some (-1, fp))"

definition ga_save_rgb4 :: "nat \<Rightarrow> byte list option \<Rightarrow> int \<Rightarrow> int \<Rightarrow> byte list option \<Rightarrow> int \<Rightarrow> (int \<times> byte list option) option" where
  "ga_save_rgb4 limit fp w h planes linesize = (case (fp, planes) of
       (Some f, Some b) \<Rightarrow>
         if w \<le> 0 \<or> h \<le> 0 \<or> linesize < w * 4 then Some (-1, fp)
         else do {
           (n, f') \<leftarrow> save_rows (nat h) limit b 0 (w * 4) linesize 0 f;
           Some (n, Some f') }
     | _ \<Rightarrow> Some (-1, fp))"

text \<open>The rows of a plane without the padding at their ends.\<close>

definition plane_rows :: "byte list \<Rightarrow> nat \<Rightarrow> nat \<Rightarrow> nat \<Rightarrow> nat \<Rightarrow> byte list" where
  "plane_rows p src w ls h = concat (map (\<lambda>i. take w (drop (src + i * ls) p)) [0..<h])"

lemma plane_rows_Suc:
  "plane_rows p src w ls (Suc h) = take w (drop src p) @ plane_rows p (src + ls) w ls h"
proof -
  have "[0..<Suc h] = 0 # map Suc [0..<h]" by (simp add: upt_conv_Cons map_Suc_upt)
  then show ?thesis by (simp add: plane_rows_def o_def add.assoc del: upt_Suc)
qed

lemma save_rows_all:
  assumes "h > 0 \<Longrightarrow> src + (h - 1) * ls + w \<le> length p" and "length fp + h * w \<le> limit"
  shows "save_rows h limit p (int src) (int w) (int ls) n fp =
    Some (n + int (h * w), fp @ plane_rows p src w ls h)"
  using assms
proof (induction h arbitrary: src n fp)
  case 0
  then show ?case by (simp add: plane_rows_def)
next
  case (Suc h)
  have b: "src + w \<le> length p"
    using Suc.prems(1) by (cases h) auto
  have r: "c_read p (int src) (int w) = Some (take w (drop src p))" (is "_ = Some ?row")
    using b by (simp add: c_read_def)
  have l: "length ?row = w" using b by simp
  have fw: "fwrite limit ?row fp = (int w, fp @ ?row)"
    using Suc.prems(2) l by (simp add: fwrite_def Let_def min_def)
  have "save_rows h limit p (int (src + ls)) (int w) (int ls) (n + int w) (fp @ ?row) =
      Some (n + int w + int (h * w), (fp @ ?row) @ plane_rows p (src + ls) w ls h)"
    using Suc.prems l by (intro Suc.IH) (cases h, auto)
  then show ?case
    by (simp add: r fw plane_rows_Suc)
qed

section \<open>Aggregated statistics\<close>

definition agg_prefix :: "int \<Rightarrow> string" where
  "agg_prefix key = (let x = nat_str 16 (nat (key mod 2 ^ 32))
     in ''AGGREGATED-OUTPUT['' @ replicate (4 - length x) CHR ''0'' @ x @ '']:'')"

text \<open>The loop that prints the buffered values while more than 16 bytes are left.\<close>

primrec agg_fill :: "string \<Rightarrow> nat \<Rightarrow> int list \<Rightarrow> string" where
  "agg_fill buf left [] = buf"
| "agg_fill buf left (v # vs) =
     (if left > 16 then (let s = CHR '' '' # int_str v in agg_fill (buf @ s) (left - length s) vs)
      else buf)"

text \<open>The map \<open>aggmap\<close> after the call, and the line written when there is one.\<close>

definition ga_aggregated_print :: "int \<Rightarrow> nat \<Rightarrow> int \<Rightarrow> (int, int list) smap \<Rightarrow>
    (int, int list) smap \<times> string option" where
  "ga_aggregated_print key limit value m = (case smap_find m key of
       None \<Rightarrow> (smap_put m key [value], None)
     | Some l \<Rightarrow>
         (let l' = l @ [value]
          in if length l' \<ge> limit
             then (smap_put m key [], Some (agg_fill (agg_prefix key) (16384 - length (agg_prefix key)) l'))
             else (smap_put m key l', None)))"

definition ga_aggregated_reset :: "(int, int list) smap \<Rightarrow> (int, int list) smap" where
  "ga_aggregated_reset m = []"

section \<open>Start codes\<close>

text \<open>The position of the start code relative to \<open>buf\<close> and its length.\<close>

function find_startcode_from :: "byte list \<Rightarrow> nat \<Rightarrow> (nat \<times> nat) option option" where
  "find_startcode_from buf ptr =
     (if ptr + 4 < length buf then do {
        b0 \<leftarrow> c_get buf (int ptr); b1 \<leftarrow> c_get buf (int ptr + 1);
        b2 \<leftarrow> c_get buf (int ptr + 2); b3 \<leftarrow> c_get buf (int ptr + 3);
        if b0 = 0 \<and> b1 = 0 \<and> b2 = 1 then Some (Some (ptr, 3))
        else if b0 = 0 \<and> b1 = 0 \<and> b2 = 0 \<and> b3 = 1 then Some (Some (ptr, 4))
        else find_startcode_from buf (Suc ptr) }
      else Some None)"
  by pat_completeness auto
termination
  by (relation "measure (\<lambda>(buf, ptr). length buf - ptr)") auto

declare find_startcode_from.simps [simp del]

definition ga_find_startcode :: "byte list \<Rightarrow> (nat \<times> nat) option option" where
  "ga_find_startcode buf = find_startcode_from buf 0"

text \<open>A start code at a position, and its length.\<close>

definition startcode_at :: "byte list \<Rightarrow> nat \<Rightarrow> nat \<Rightarrow> bool" where
  "startcode_at buf p n \<longleftrightarrow>
     (n = 3 \<and> take 3 (drop p buf) = [0, 0, 1]) \<or> (n = 4 \<and> take 4 (drop p buf) = [0, 0, 0, 1])"

lemma startcode_at_nth:
  assumes "p + 4 < length buf"
  shows "startcode_at buf p n \<longleftrightarrow>
    (n = 3 \<and> buf ! p = 0 \<and> buf ! Suc p = 0 \<and> buf ! Suc (Suc p) = 1) \<or>
    (n = 4 \<and> buf ! p = 0 \<and> buf ! Suc p = 0 \<and> buf ! Suc (Suc p) = 0 \<and> buf ! Suc (Suc (Suc p)) = 1)"
proof -
  have "drop p buf = buf ! p # buf ! Suc p # buf ! Suc (Suc p) # buf ! Suc (Suc (Suc p)) # drop (p + 4) buf"
    using assms by (simp add: Cons_nth_drop_Suc eval_nat_numeral)
  then show ?thesis by (auto simp: startcode_at_def eval_nat_numeral)
qed

lemma find_startcode_from_spec:
  assumes "ptr \<le> length buf"
  shows "\<exists>r. find_startcode_from buf ptr = Some r \<and>
    (case r of
       None \<Rightarrow> \<forall>q n. ptr \<le> q \<and> q + 4 < length buf \<longrightarrow> \<not> startcode_at buf q n
     | Some (p, n) \<Rightarrow> ptr \<le> p \<and> p + 4 < length buf \<and> startcode_at buf p n \<and>
         (\<forall>q k. ptr \<le> q \<and> q < p \<longrightarrow> \<not> startcode_at buf q k))"
  using assms
proof (induction "length buf - ptr" arbitrary: ptr rule: less_induct)
  case less
  show ?case
  proof (cases "ptr + 4 < length buf")
    case False
    then show ?thesis by (subst find_startcode_from.simps) auto
  next
    case True
    have g: "c_get buf (int ptr) = Some (buf ! ptr)" "c_get buf (int ptr + 1) = Some (buf ! Suc ptr)"
      "c_get buf (int ptr + 2) = Some (buf ! Suc (Suc ptr))"
      "c_get buf (int ptr + 3) = Some (buf ! Suc (Suc (Suc ptr)))"
      using True by (simp_all add: c_get_def nat_add_distrib eval_nat_numeral)
    let ?c3 = "buf ! ptr = 0 \<and> buf ! Suc ptr = 0 \<and> buf ! Suc (Suc ptr) = 1"
    let ?c4 = "buf ! ptr = 0 \<and> buf ! Suc ptr = 0 \<and> buf ! Suc (Suc ptr) = 0 \<and> buf ! Suc (Suc (Suc ptr)) = 1"
    have u: "find_startcode_from buf ptr = (if ?c3 then Some (Some (ptr, 3))
        else if ?c4 then Some (Some (ptr, 4)) else find_startcode_from buf (Suc ptr))"
      by (subst find_startcode_from.simps) (simp only: True g if_True bind.bind_lunit)
    show ?thesis
    proof (cases "?c3 \<or> ?c4")
      case True2: True
      then show ?thesis
        using True u startcode_at_nth [OF True] by auto
    next
      case False
      have no: "\<not> startcode_at buf ptr k" for k
        using False startcode_at_nth [OF True] by auto
      have "find_startcode_from buf ptr = find_startcode_from buf (Suc ptr)"
        using False u by auto
      moreover have lt: "length buf - Suc ptr < length buf - ptr" "Suc ptr \<le> length buf"
        using True by linarith+
      moreover obtain r where
        "find_startcode_from buf (Suc ptr) = Some r \<and> (case r of
         None \<Rightarrow> \<forall>q n. Suc ptr \<le> q \<and> q + 4 < length buf \<longrightarrow> \<not> startcode_at buf q n
       | Some (p, n) \<Rightarrow> Suc ptr \<le> p \<and> p + 4 < length buf \<and> startcode_at buf p n \<and>
           (\<forall>q k. Suc ptr \<le> q \<and> q < p \<longrightarrow> \<not> startcode_at buf q k))"
        using less.hyps [OF lt] by blast
      moreover have "ptr \<le> q \<longleftrightarrow> q = ptr \<or> Suc ptr \<le> q" for q by auto
      ultimately show ?thesis using no
        by (intro exI [of _ r]) (auto split: option.splits)
    qed
  qed
qed

text \<open>The start-code search never reads outside the buffer; it returns the first position
  at which a 3- or 4-byte MPEG start code begins among the positions that have more than four
  bytes after them, with its length, and NULL when there is none.\<close>

theorem ga_find_startcode_first:
  "\<exists>r. ga_find_startcode buf = Some r \<and>
    (r = None \<longleftrightarrow> (\<forall>q n. q + 4 < length buf \<longrightarrow> \<not> startcode_at buf q n)) \<and>
    (\<forall>p n. r = Some (p, n) \<longrightarrow> p + 4 < length buf \<and> startcode_at buf p n \<and>
       (\<forall>q k. q < p \<longrightarrow> \<not> startcode_at buf q k))"
proof -
  obtain r where r: "find_startcode_from buf 0 = Some r" and
    c: "case r of None \<Rightarrow> \<forall>q n. 0 \<le> q \<and> q + 4 < length buf \<longrightarrow> \<not> startcode_at buf q n
     | Some (p, n) \<Rightarrow> 0 \<le> p \<and> p + 4 < length buf \<and> startcode_at buf p n \<and>
         (\<forall>q k. 0 \<le> q \<and> q < p \<longrightarrow> \<not> startcode_at buf q k)"
    using find_startcode_from_spec [of 0 buf] by blast
  show ?thesis
  proof (cases r)
    case None
    then show ?thesis using r c by (simp add: ga_find_startcode_def)
  next
    case (Some pn)
    obtain p n where "pn = (p, n)" by (cases pn)
    then show ?thesis using r c Some
      by (intro exI [of _ r]) (auto simp: ga_find_startcode_def)
  qed
qed

theorem ga_find_startcode_first_witness:
  "\<exists>r. ga_find_startcode [7, 0, 0, 1, 101, 9] = Some r \<and> r = Some (1, 3)"
proof -
  have e: "ga_find_startcode [7, 0, 0, 1, 101, 9] = Some (Some (1, 3))" by code_simp
  from ga_find_startcode_first [of "[7, 0, 0, 1, 101, 9]"] show ?thesis using e by auto
qed

section \<open>Rectangles\<close>

record gaRect =
  rect_left :: int
  rect_top :: int
  rect_right :: int
  rect_bottom :: int
  rect_width :: int
  rect_height :: int
  rect_linesize :: int
  rect_size :: int

definition ga_fillrect :: "gaRect option \<Rightarrow> int \<Rightarrow> int \<Rightarrow> int \<Rightarrow> int \<Rightarrow> bool \<times> gaRect option" where
  "ga_fillrect rect left tp right bt = (case rect of
       None \<Rightarrow> (False, None)
     | Some r \<Rightarrow>
         (let (l, r') = (if left > right then (right, left) else (left, right));
              (t, b) = (if tp > bt then (bt, tp) else (tp, bt));
              w = to_int32 (r' - l + 1); h = to_int32 (b - t + 1);
              res = \<lparr>rect_left = l, rect_top = t, rect_right = r', rect_bottom = b,
                 rect_width = w, rect_height = h, rect_linesize = to_int32 (w * 4),
                 rect_size = to_int32 (w * h * 4)\<rparr>
          in (\<not> (w \<le> 0 \<or> h \<le> 0), Some res)))"

text \<open>The Windows calls of \<open>ga_crop_window\<close>: the window found for a class and a name, the size of
  the screen, whether the window could be moved to the origin, its client rectangle, the
  map from client to screen coordinates, and the path of the program that owns the window
  in lower case (empty when the process snapshot does not give it).\<close>

record win_api =
  api_find :: "string option \<Rightarrow> string option \<Rightarrow> nat option"
  api_screen :: "int \<times> int"
  api_setpos :: "nat \<Rightarrow> bool"
  api_client :: "nat \<Rightarrow> (int \<times> int \<times> int \<times> int) option"
  api_to_screen :: "nat \<Rightarrow> int \<times> int \<Rightarrow> (int \<times> int) option"
  api_procpath :: "nat \<Rightarrow> string"

definition c_strstr :: "string \<Rightarrow> string \<Rightarrow> bool" where
  "c_strstr s pat = list_ex (\<lambda>i. take (length pat) (drop i s) = pat) [0..<Suc (length s)]"

text \<open>The adjustments to the corners: an odd extent grows by one to the left or the top, and a
  corner off the screen is moved back with its opposite corner.\<close>

definition crop_adjust :: "int \<times> int \<Rightarrow> int \<times> int \<Rightarrow> gaRect \<Rightarrow> gaRect" where
  "crop_adjust lt rb rect =
     (let l0 = fst lt; t0 = snd lt; r0 = fst rb; b0 = snd rb;
          l1 = (if odd (r0 - l0 + 1) then l0 - 1 else l0);
          t1 = (if odd (b0 - t0 + 1) then t0 - 1 else t0);
          (l2, r2) = (if l1 < 0 then (0, r0 - l1) else (l1, r0));
          (t2, b2) = (if t1 < 0 then (0, b0 - t1) else (t1, b0))
      in rect\<lparr>rect_left := l2, rect_top := t2, rect_right := r2, rect_bottom := b2\<rparr>)"

text \<open>The final check of the rectangle against the screen.\<close>

definition crop_check :: "win_api \<Rightarrow> gaRect \<Rightarrow> int \<times> gaRect" where
  "crop_check api r =
     (if rect_left r < 0 \<or> rect_top r < 0 \<or> rect_right r \<ge> fst (api_screen api) \<or>
         rect_bottom r \<ge> snd (api_screen api) \<or> rect_top r \<ge> rect_bottom r
      then (-1, r) else (1, r))"

text \<open>The part of \<open>ga_crop_window\<close> after a window has been found.\<close>

definition crop_found :: "win_api \<Rightarrow> nat \<Rightarrow> gaRect \<Rightarrow> int \<times> gaRect" where
  "crop_found api hWnd rect =
     (if \<not> api_setpos api hWnd then (-1, rect)
      else (case api_client api hWnd of
          None \<Rightarrow> (-1, rect)
        | Some (cl, ct, cr, cb) \<Rightarrow>
            (case (api_to_screen api hWnd (cl, ct), api_to_screen api hWnd (cr - 1, cb - 1)) of
               (Some lt, Some rb) \<Rightarrow>
                 (let r1 = crop_adjust lt rb rect;
                      r2 = (if c_strstr (api_procpath api hWnd) ''bluestacks''
                            then r1\<lparr>rect_top := rect_top r1 + 40\<rparr> else r1)
                  in crop_check api r2)
             | _ \<Rightarrow> (-1, rect))))"

text \<open>
  \<open>ga_crop_window\<close>: the return value and the rectangle. \<open>*prect\<close> is NULL when 0 is returned,
  the rectangle when 1 is returned, and is left as it was on errors.
\<close>

definition ga_crop_window :: "win_api \<Rightarrow> ga_conf \<Rightarrow> gaRect option \<Rightarrow> (int \<times> gaRect option) option" where
  "ga_crop_window api st prect = (case prect of None \<Rightarrow> Some (-1, None) | Some rect \<Rightarrow> do {
     pname \<leftarrow> ga_conf_readv st ''find-window-name'' 1024;
     pclass \<leftarrow> ga_conf_readv st ''find-window-class'' 1024;
     if (pname = None \<or> pname = Some []) \<and> (pclass = None \<or> pclass = Some [])
     then Some (0, Some rect)
     else (case api_find api pclass pname of
         None \<Rightarrow> Some (-1, Some rect)
       | Some hWnd \<Rightarrow> Some (apsnd Some (crop_found api hWnd rect))) })"

section \<open>The codec table\<close>

datatype codec_id = AV_CODEC_ID_NONE | AV_CODEC_ID_H264 | AV_CODEC_ID_H265 | AV_CODEC_ID_VP8
  | AV_CODEC_ID_MP3 | AV_CODEC_ID_OPUS

record ga_codec_entry =
  ce_key :: string
  ce_id :: codec_id
  ce_mime :: string
  ce_decoders :: "string list"

definition ga_codec_table :: "ga_codec_entry list" where
  "ga_codec_table =
    [\<lparr>ce_key = ''H264'', ce_id = AV_CODEC_ID_H264, ce_mime = ''video/avc'', ce_decoders = [''h264'']\<rparr>,
     \<lparr>ce_key = ''H265'', ce_id = AV_CODEC_ID_H265, ce_mime = ''video/hevc'', ce_decoders = [''hevc'']\<rparr>,
     \<lparr>ce_key = ''VP8'', ce_id = AV_CODEC_ID_VP8, ce_mime = ''video/x-vnd.on2.vp8'', ce_decoders = [''libvpx'']\<rparr>,
     \<lparr>ce_key = ''MPA'', ce_id = AV_CODEC_ID_MP3, ce_mime = ''audio/mpeg'', ce_decoders = [''mp3'']\<rparr>,
     \<lparr>ce_key = ''OPUS'', ce_id = AV_CODEC_ID_OPUS, ce_mime = ''audio/opus'', ce_decoders = [''libopus'']\<rparr>]"

definition ga_lookup_core :: "string \<Rightarrow> ga_codec_entry option" where
  "ga_lookup_core key = find (\<lambda>e. strcaseeq (ce_key e) key) ga_codec_table"

definition ga_lookup_mime :: "string \<Rightarrow> string option" where
  "ga_lookup_mime key = map_option ce_mime (ga_lookup_core key)"

definition ga_lookup_ffmpeg_decoders :: "string \<Rightarrow> string list option" where
  "ga_lookup_ffmpeg_decoders key = map_option ce_decoders (ga_lookup_core key)"

definition ga_lookup_codec_id :: "string \<Rightarrow> codec_id" where
  "ga_lookup_codec_id key = (case ga_lookup_core key of None \<Rightarrow> AV_CODEC_ID_NONE | Some e \<Rightarrow> ce_id e)"

section \<open>Properties\<close>

text \<open>Saving a YUV 4:2:0 frame of even size to a device with enough room writes exactly
  \<open>w * h * 3 / 2\<close> bytes, the three planes row by row without the padding at the ends of
  their lines, and returns that number; the reads stay inside the planes.\<close>

theorem ga_save_yuv420p_complete:
  assumes "0 < w2" and "0 < h2" and "2 * w2 \<le> ly" and "w2 \<le> lu" and "w2 \<le> lv"
    and "(2 * h2 - 1) * ly + 2 * w2 \<le> length y"
    and "(h2 - 1) * lu + w2 \<le> length u" and "(h2 - 1) * lv + w2 \<le> length v"
    and "length f + 6 * (w2 * h2) \<le> limit"
  shows "ga_save_yuv420p limit (Some f) (2 * int w2) (2 * int h2) (Some (y, u, v))
      (Some (int ly, int lu, int lv)) =
    Some ((2 * int w2) * (2 * int h2) * 3 div 2,
      Some (f @ plane_rows y 0 (2 * w2) ly (2 * h2) @ plane_rows u 0 w2 lu h2 @ plane_rows v 0 w2 lv h2))"
proof -
  have len: "length (plane_rows p 0 w ls h) = h * w" if "(h - 1) * ls + w \<le> length p" for p w ls h
  proof -
    have "length (take w (drop (i * ls) p)) = w" if "i < h" for i
    proof -
      have "i * ls \<le> (h - 1) * ls" using that by (intro mult_le_mono1) simp
      then have "i * ls + w \<le> length p" using \<open>(h - 1) * ls + w \<le> length p\<close> by linarith
      then show ?thesis by simp
    qed
    then have "map (\<lambda>i. length (take w (drop (i * ls) p))) [0..<h] = replicate h w"
      by (intro nth_equalityI) auto
    then show ?thesis
      by (simp add: plane_rows_def length_concat o_def sum_list_replicate)
  qed
  have a1: "save_rows (2 * h2) limit y 0 (int (2 * w2)) (int ly) 0 f =
      Some (int (2 * h2 * (2 * w2)), f @ plane_rows y 0 (2 * w2) ly (2 * h2))" (is "_ = Some (_, ?f1)")
    using save_rows_all [of "2 * h2" 0 ly "2 * w2" y f limit 0] assms(6,9)
    by (simp add: algebra_simps)
  have l1: "length ?f1 = length f + 4 * (w2 * h2)"
    using len [of "2 * h2" ly "2 * w2" y] assms(6) by (simp add: algebra_simps)
  have a2: "save_rows h2 limit u 0 (int w2) (int lu) n ?f1 =
      Some (n + int (h2 * w2), ?f1 @ plane_rows u 0 w2 lu h2)" (is "_ = Some (_, ?f2)") for n
    using save_rows_all [of h2 0 lu w2 u ?f1 limit n] assms(7,9) l1 by (simp add: algebra_simps)
  have l2: "length ?f2 = length f + 5 * (w2 * h2)"
    using len [of h2 lu w2 u] l1 assms(7) by (simp add: algebra_simps)
  have a3: "save_rows h2 limit v 0 (int w2) (int lv) n ?f2 =
      Some (n + int (h2 * w2), ?f2 @ plane_rows v 0 w2 lv h2)" for n
    using save_rows_all [of h2 0 lv w2 v ?f2 limit n] assms(8,9) l2 by (simp add: algebra_simps)
  have n: "nat (2 * int h2) = 2 * h2" "nat (int h2 * 2) = h2 * 2" "2 * int h2 div 2 = int h2" "2 * int w2 div 2 = int w2"
    by simp_all
  show ?thesis
    using assms(1,2) a1 a2 a3
    by (simp add: ga_save_yuv420p_def n algebra_simps)
qed

theorem ga_save_yuv420p_complete_witness:
  "ga_save_yuv420p 100 (Some []) 2 2 (Some ([1, 2, 0, 3, 4], [5], [6])) (Some (3, 1, 1))
   = Some (6, Some [1, 2, 3, 4, 5, 6])"
  using ga_save_yuv420p_complete [of 1 1 3 1 1 "[1, 2, 0, 3, 4]" "[5]" "[6]" "[]" 100]
  by (simp add: plane_rows_def upt_conv_Cons)

subsection \<open>Aggregated statistics\<close>

lemma nat_str_length:
  assumes "2 \<le> b" and "n < b ^ k" and "0 < k"
  shows "length (nat_str b n) \<le> k"
  using assms
proof (induction k arbitrary: n)
  case (Suc k)
  show ?case
  proof (cases "n < b")
    case True
    then show ?thesis by (simp add: nat_str.simps)
  next
    case False
    then have k: "0 < k" using Suc.prems by (cases k) auto
    have "n div b < b ^ k" using Suc.prems by (simp add: less_mult_imp_div_less mult.commute)
    then have "length (nat_str b (n div b)) \<le> k" using Suc.IH k Suc.prems by blast
    then show ?thesis using False Suc.prems(1) by (subst nat_str.simps) simp
  qed
qed simp

lemma int_str_length:
  assumes "- (2 ^ 31) \<le> v" and "v < 2 ^ 31"
  shows "length (int_str v) \<le> 11"
proof -
  have "nat (- v) < 10 ^ 10" "nat v < 10 ^ 10" using assms by simp_all
  then show ?thesis
    using nat_str_length [of 10 "nat (- v)" 10] nat_str_length [of 10 "nat v" 10]
    by (simp add: int_str_def)
qed

lemma agg_prefix_length: "length (agg_prefix key) \<le> 28"
proof -
  have "nat (key mod 2 ^ 32) < 16 ^ 8" by (simp add: nat_less_iff)
  then have "length (nat_str 16 (nat (key mod 2 ^ 32))) \<le> 8" by (intro nat_str_length) simp_all
  then show ?thesis by (simp add: agg_prefix_def Let_def)
qed

lemma agg_fill_all:
  assumes "\<forall>v\<in>set vs. - (2 ^ 31) \<le> v \<and> v < 2 ^ 31" and "12 * length vs + 16 < left"
  shows "agg_fill buf left vs = buf @ concat (map (\<lambda>v. CHR '' '' # int_str v) vs)"
  using assms
proof (induction vs arbitrary: buf left)
  case (Cons v vs)
  have "length (int_str v) \<le> 11" using Cons.prems(1) by (intro int_str_length) auto
  then show ?case using Cons by (simp add: Let_def)
qed simp

definition agg_line :: "int \<Rightarrow> int list \<Rightarrow> string" where
  "agg_line key vs = agg_prefix key @ concat (map (\<lambda>v. CHR '' '' # int_str v) vs)"

text \<open>Printing a series of values: the map and the lines written.\<close>

primrec agg_run :: "int \<Rightarrow> nat \<Rightarrow> int list \<Rightarrow> (int, int list) smap \<Rightarrow> (int, int list) smap \<times> string list" where
  "agg_run key limit [] m = (m, [])"
| "agg_run key limit (v # vs) m =
     (let (m1, line) = ga_aggregated_print key limit v m; (m2, ls) = agg_run key limit vs m1
      in (m2, (case line of None \<Rightarrow> ls | Some l \<Rightarrow> l # ls)))"

lemma agg_run_some:
  assumes "smap_find m key = Some l" and "length l < limit" and "limit \<le> 1300"
    and "\<forall>v\<in>set (l @ vs). - (2 ^ 31) \<le> v \<and> v < 2 ^ 31"
  shows "\<exists>bs rest m'. agg_run key limit vs m = (m', map (agg_line key) bs) \<and>
    concat bs @ rest = l @ vs \<and> (\<forall>b\<in>set bs. length b = limit) \<and>
    smap_find m' key = Some rest \<and> length rest < limit"
  using assms
proof (induction vs arbitrary: l m)
  case Nil
  then have "agg_run key limit [] m = (m, map (agg_line key) []) \<and> concat [] @ l = l @ [] \<and>
      (\<forall>b\<in>set []. length b = limit) \<and> smap_find m key = Some l \<and> length l < limit" by simp
  then show ?case by blast
next
  case (Cons v vs)
  show ?case
  proof (cases "length (l @ [v]) \<ge> limit")
    case True
    then have len: "length (l @ [v]) = limit" using Cons.prems(2) by simp
    let ?m = "smap_put m key []"
    have "agg_fill (agg_prefix key) (16384 - length (agg_prefix key)) (l @ [v]) = agg_line key (l @ [v])"
      using Cons.prems(3,4) len agg_prefix_length [of key]
      by (subst agg_fill_all) (auto simp: agg_line_def)
    then have p: "ga_aggregated_print key limit v m = (?m, Some (agg_line key (l @ [v])))"
      using Cons.prems(1) True by (simp add: ga_aggregated_print_def)
    obtain bs rest m' where r: "agg_run key limit vs ?m = (m', map (agg_line key) bs)"
      "concat bs @ rest = vs" "\<forall>b\<in>set bs. length b = limit" "smap_find m' key = Some rest" "length rest < limit"
      using Cons.IH [of ?m "[]"] Cons.prems by (auto simp: smap_find_put)
    then show ?thesis using p len
      by (intro exI [of _ "(l @ [v]) # bs"] exI [of _ rest] exI [of _ m']) simp
  next
    case False
    let ?m = "smap_put m key (l @ [v])"
    have p: "ga_aggregated_print key limit v m = (?m, None)"
      using Cons.prems(1) False by (simp add: ga_aggregated_print_def)
    obtain bs rest m' where "agg_run key limit vs ?m = (m', map (agg_line key) bs)"
      "concat bs @ rest = (l @ [v]) @ vs" "\<forall>b\<in>set bs. length b = limit"
      "smap_find m' key = Some rest" "length rest < limit"
      using Cons.IH [of ?m "l @ [v]"] Cons.prems False by (auto simp: smap_find_put)
    then show ?thesis using p
      by (intro exI [of _ bs] exI [of _ rest] exI [of _ m']) simp
  qed
qed

text \<open>Aggregated output loses nothing and keeps the order: over a series of values for a new
  key, the lines written are the values in batches of exactly \<open>limit\<close>, and the values not yet
  written, fewer than \<open>limit\<close>, are what the table holds. Up to 1300 values fit in the line.\<close>

theorem ga_aggregated_batches:
  assumes "smap_find m key = None" and "2 \<le> limit" and "limit \<le> 1300" and "vs \<noteq> []"
    and "\<forall>v\<in>set vs. - (2 ^ 31) \<le> v \<and> v < 2 ^ 31"
  shows "\<exists>bs rest m'. agg_run key limit vs m = (m', map (agg_line key) bs) \<and>
    concat bs @ rest = vs \<and> (\<forall>b\<in>set bs. length b = limit) \<and>
    smap_find m' key = Some rest \<and> length rest < limit"
proof -
  obtain v ws where vs: "vs = v # ws" using assms(4) by (cases vs) auto
  have p: "ga_aggregated_print key limit v m = (smap_put m key [v], None)"
    using assms(1) by (simp add: ga_aggregated_print_def)
  from agg_run_some [of "smap_put m key [v]" key "[v]" limit ws] assms vs p
  show ?thesis by (auto simp: smap_find_put)
qed

theorem ga_aggregated_batches_witness:
  "\<exists>m' rest. agg_run 7 2 [1, 2, 3] [] = (m', [agg_line 7 [1, 2]]) \<and> smap_find m' 7 = Some [3]"
proof -
  obtain bs rest m' where r: "agg_run 7 2 [1, 2, 3] [] = (m', map (agg_line 7) bs)"
    "concat bs @ rest = [1, 2, 3]" "\<forall>b\<in>set bs. length b = 2" "smap_find m' 7 = Some rest" "length rest < 2"
    using ga_aggregated_batches [of "[]" 7 2 "[1, 2, 3]"] by auto
  have s: "sum_list (map length bs) = length bs * 2" using r(3) by (induction bs) auto
  have "length (concat bs) + length rest = 3" using r(2) by (metis length_append length_Cons list.size(3) numeral_3_eq_3)
  then have "length bs * 2 + length rest = 3" using s by (simp add: length_concat)
  then have "length bs = 1" "length rest = 1" using r(5) by presburger+
  then obtain b x where "bs = [b]" "rest = [x]" by (metis One_nat_def length_0_conv length_Suc_conv)
  then have "b = [1, 2]" "x = 3" using r(2) by (auto simp: append_eq_Cons_conv)
  then show ?thesis using r(1,4) \<open>bs = [b]\<close> \<open>rest = [x]\<close> by auto
qed

subsection \<open>The captured window\<close>

lemma crop_adjust_even:
  "even (rect_right (crop_adjust lt rb r) - rect_left (crop_adjust lt rb r) + 1)"
  "even (rect_bottom (crop_adjust lt rb r) - rect_top (crop_adjust lt rb r) + 1)"
  "even (rect_bottom (crop_adjust lt rb r) - (rect_top (crop_adjust lt rb r) + 40) + 1)"
  by (auto simp: crop_adjust_def Let_def)

lemma crop_check_one:
  "crop_check api r2 = (1, r) \<Longrightarrow> r2 = r \<and> \<not> (rect_left r < 0 \<or> rect_top r < 0 \<or>
    rect_right r \<ge> fst (api_screen api) \<or> rect_bottom r \<ge> snd (api_screen api) \<or> rect_top r \<ge> rect_bottom r)"
  by (auto simp: crop_check_def split: if_splits)

lemma apsnd_Some_iff: "apsnd Some p = (a, Some b) \<longleftrightarrow> p = (a, b)"
  by (cases p) auto

lemma crop_found_safe:
  assumes "crop_found api h rect = (1, r)"
  shows "\<exists>lt rb. (r = crop_adjust lt rb rect \<or>
      r = (crop_adjust lt rb rect)\<lparr>rect_top := rect_top (crop_adjust lt rb rect) + 40\<rparr>) \<and>
    \<not> (rect_left r < 0 \<or> rect_top r < 0 \<or> rect_right r \<ge> fst (api_screen api) \<or>
       rect_bottom r \<ge> snd (api_screen api) \<or> rect_top r \<ge> rect_bottom r)"
proof -
  obtain cl ct cr cb where c: "api_setpos api h" "api_client api h = Some (cl, ct, cr, cb)"
    using assms by (auto simp: crop_found_def split: if_splits option.splits)
  obtain lt rb where s: "api_to_screen api h (cl, ct) = Some lt" "api_to_screen api h (cr - 1, cb - 1) = Some rb"
    using assms c by (auto simp: crop_found_def split: option.splits)
  let ?r1 = "crop_adjust lt rb rect"
  let ?r2 = "if c_strstr (api_procpath api h) ''bluestacks'' then ?r1\<lparr>rect_top := rect_top ?r1 + 40\<rparr> else ?r1"
  have "crop_found api h rect = crop_check api ?r2"
    by (simp add: crop_found_def c s Let_def)
  with assms have "crop_check api ?r2 = (1, r)" by simp
  note crop_check_one [OF this]
  then show ?thesis by (intro exI [of _ lt] exI [of _ rb]) (auto split: if_splits)
qed

text \<open>When cropping succeeds, the captured rectangle lies on the screen and both its width and
  its height are even: the parity repair and the moves to the screen keep it, whatever the
  Windows calls return.\<close>

theorem ga_crop_window_safe:
  assumes "ga_crop_window api st (Some rect) = Some (1, Some r)"
  shows "0 \<le> rect_left r \<and> rect_right r < fst (api_screen api) \<and>
    0 \<le> rect_top r \<and> rect_top r < rect_bottom r \<and> rect_bottom r < snd (api_screen api) \<and>
    even (rect_right r - rect_left r + 1) \<and> even (rect_bottom r - rect_top r + 1)"
proof -
  obtain h where "crop_found api h rect = (1, r)"
    using assms by (auto simp: ga_crop_window_def apsnd_Some_iff split: option.splits if_splits)
  from crop_found_safe [OF this] show ?thesis using crop_adjust_even
    by (elim exE conjE disjE) simp_all
qed

definition crop_example :: win_api where
  "crop_example = \<lparr>api_find = (\<lambda>c n. Some 1), api_screen = (800, 600), api_setpos = (\<lambda>h. True),
      api_client = (\<lambda>h. Some (0, 0, 101, 100)), api_to_screen = (\<lambda>h (x, y). Some (x + 3, y + 20)),
      api_procpath = (\<lambda>h. ''game.exe'')\<rparr>"

theorem ga_crop_window_safe_witness:
  "\<exists>r. ga_crop_window crop_example (ga_conf_writev ga_conf_empty ''find-window-name'' ''Game'')
     (Some \<lparr>rect_left = 0, rect_top = 0, rect_right = 0, rect_bottom = 0, rect_width = 0,
        rect_height = 0, rect_linesize = 0, rect_size = 0\<rparr>) = Some (1, Some r) \<and>
     even (rect_right r - rect_left r + 1)"
proof -
  have c: "ga_crop_window crop_example (ga_conf_writev ga_conf_empty ''find-window-name'' ''Game'')
     (Some \<lparr>rect_left = 0, rect_top = 0, rect_right = 0, rect_bottom = 0, rect_width = 0,
        rect_height = 0, rect_linesize = 0, rect_size = 0\<rparr>)
   = Some (1, Some \<lparr>rect_left = 2, rect_top = 20, rect_right = 103, rect_bottom = 119, rect_width = 0,
        rect_height = 0, rect_linesize = 0, rect_size = 0\<rparr>)" by code_simp
  from ga_crop_window_safe [OF c] c show ?thesis by blast
qed

end
