(* ===== verification/Crc5.thy ===== *)
theory Crc5
  imports GaPrelude
begin

text \<open>
  The 5-bit checksums of \<open>core/ga-crc.cpp\<close> and \<open>core/ga-crc.h\<close>: the two lookup tables, the bit
  reflection, the table-driven update and its initial and final steps. The register keeps
  the checksum in its upper five bits, as in the source. The reference is the reflected
  shift register that takes one bit of the message at a time.
\<close>

type_synonym crc5_t = "8 word"

definition crc5_table_ccitt :: "crc5_t list" where
  "crc5_table_ccitt =
    [0, 88, 176, 232, 200, 144, 120, 32, 56, 96, 136, 208, 240, 168, 64, 24,
     112, 40, 192, 152, 184, 224, 8, 80, 72, 16, 248, 160, 128, 216, 48, 104,
     224, 184, 80, 8, 40, 112, 152, 192, 216, 128, 104, 48, 16, 72, 160, 248,
     144, 200, 32, 120, 88, 0, 232, 176, 168, 240, 24, 64, 96, 56, 208, 136,
     104, 48, 216, 128, 160, 248, 16, 72, 80, 8, 224, 184, 152, 192, 40, 112,
     24, 64, 168, 240, 208, 136, 96, 56, 32, 120, 144, 200, 232, 176, 88, 0,
     136, 208, 56, 96, 64, 24, 240, 168, 176, 232, 0, 88, 120, 32, 200, 144,
     248, 160, 72, 16, 48, 104, 128, 216, 192, 152, 112, 40, 8, 80, 184, 224,
     208, 136, 96, 56, 24, 64, 168, 240, 232, 176, 88, 0, 32, 120, 144, 200,
     160, 248, 16, 72, 104, 48, 216, 128, 152, 192, 40, 112, 80, 8, 224, 184,
     48, 104, 128, 216, 248, 160, 72, 16, 8, 80, 184, 224, 192, 152, 112, 40,
     64, 24, 240, 168, 136, 208, 56, 96, 120, 32, 200, 144, 176, 232, 0, 88,
     184, 224, 8, 80, 112, 40, 192, 152, 128, 216, 48, 104, 72, 16, 248, 160,
     200, 144, 120, 32, 0, 88, 176, 232, 240, 168, 64, 24, 56, 96, 136, 208,
     88, 0, 232, 176, 144, 200, 32, 120, 96, 56, 208, 136, 168, 240, 24, 64,
     40, 112, 152, 192, 224, 184, 80, 8, 16, 72, 160, 248, 216, 128, 104, 48]"

definition crc5_table_usb :: "crc5_t list" where
  "crc5_table_usb =
    [0, 112, 224, 144, 136, 248, 104, 24, 88, 40, 184, 200, 208, 160, 48, 64,
     176, 192, 80, 32, 56, 72, 216, 168, 232, 152, 8, 120, 96, 16, 128, 240,
     40, 88, 200, 184, 160, 208, 64, 48, 112, 0, 144, 224, 248, 136, 24, 104,
     152, 232, 120, 8, 16, 96, 240, 128, 192, 176, 32, 80, 72, 56, 168, 216,
     80, 32, 176, 192, 216, 168, 56, 72, 8, 120, 232, 152, 128, 240, 96, 16,
     224, 144, 0, 112, 104, 24, 136, 248, 184, 200, 88, 40, 48, 64, 208, 160,
     120, 8, 152, 232, 240, 128, 16, 96, 32, 80, 192, 176, 168, 216, 72, 56,
     200, 184, 40, 88, 64, 48, 160, 208, 144, 224, 112, 0, 24, 104, 248, 136,
     160, 208, 64, 48, 40, 88, 200, 184, 248, 136, 24, 104, 112, 0, 144, 224,
     16, 96, 240, 128, 152, 232, 120, 8, 72, 56, 168, 216, 192, 176, 32, 80,
     136, 248, 104, 24, 0, 112, 224, 144, 208, 160, 48, 64, 88, 40, 184, 200,
     56, 72, 216, 168, 176, 192, 80, 32, 96, 16, 128, 240, 232, 152, 8, 120,
     240, 128, 16, 96, 120, 8, 152, 232, 168, 216, 72, 56, 32, 80, 192, 176,
     64, 48, 160, 208, 200, 184, 40, 88, 24, 104, 248, 136, 144, 224, 112, 0,
     216, 168, 56, 72, 80, 32, 176, 192, 128, 240, 96, 16, 8, 120, 232, 152,
     104, 24, 136, 248, 224, 144, 0, 112, 48, 64, 208, 160, 184, 200, 88, 40]"

text \<open>The loop of \<open>crc5_reflect\<close>: \<open>n\<close> more bits, from \<open>data\<close> to \<open>ret\<close>.\<close>

primrec crc5_reflect_loop :: "nat \<Rightarrow> crc5_t \<Rightarrow> crc5_t \<Rightarrow> crc5_t" where
  "crc5_reflect_loop 0 data ret = ret"
| "crc5_reflect_loop (Suc n) data ret =
     crc5_reflect_loop n (drop_bit 1 data) (push_bit 1 ret OR (drop_bit 1 data AND 1))"

definition crc5_reflect :: "crc5_t \<Rightarrow> nat \<Rightarrow> crc5_t" where
  "crc5_reflect data data_len = crc5_reflect_loop (data_len - 1) data (data AND 1)"

text \<open>One step of the update: the index into the table, then the new register.\<close>

definition crc5_step :: "crc5_t list \<Rightarrow> crc5_t \<Rightarrow> byte \<Rightarrow> crc5_t" where
  "crc5_step table crc d =
     (table ! unat ((drop_bit 3 crc XOR d) AND 0xff) XOR drop_bit 8 crc) AND push_bit 3 0x1f"

definition crc5_update :: "crc5_t \<Rightarrow> byte list \<Rightarrow> crc5_t list \<Rightarrow> crc5_t" where
  "crc5_update crc data table = foldl (crc5_step table) crc data AND push_bit 3 0x1f"

definition crc5_update_usb :: "crc5_t \<Rightarrow> byte list \<Rightarrow> crc5_t" where
  "crc5_update_usb crc data = crc5_update crc data crc5_table_usb"

definition crc5_update_ccitt :: "crc5_t \<Rightarrow> byte list \<Rightarrow> crc5_t" where
  "crc5_update_ccitt crc data = crc5_update crc data crc5_table_ccitt"

definition crc5_init :: crc5_t where
  "crc5_init = push_bit 3 0x1f"

definition crc5_finalize :: "crc5_t \<Rightarrow> crc5_t" where
  "crc5_finalize crc = drop_bit 3 crc XOR 0x1f"

section \<open>The shift register\<close>

text \<open>
  One bit of the message enters the register (right-aligned); \<open>poly\<close> is the generator
  polynomial without its leading term, reflected.
\<close>

definition lfsr_bit :: "crc5_t \<Rightarrow> crc5_t \<Rightarrow> bool \<Rightarrow> crc5_t" where
  "lfsr_bit poly r b = (if bit r 0 \<noteq> b then drop_bit 1 r XOR poly else drop_bit 1 r)"

definition lfsr_byte :: "crc5_t \<Rightarrow> crc5_t \<Rightarrow> byte \<Rightarrow> crc5_t" where
  "lfsr_byte poly r d = foldl (lfsr_bit poly) r (map (bit d) [0..<8])"

definition crc5_spec :: "crc5_t \<Rightarrow> byte list \<Rightarrow> crc5_t" where
  "crc5_spec poly data = foldl (lfsr_byte poly) 0x1f data XOR 0x1f"

definition poly_usb :: crc5_t where "poly_usb = crc5_reflect 0x5 5"
definition poly_ccitt :: crc5_t where "poly_ccitt = crc5_reflect 0xb 5"

lemma poly_values: "poly_usb = 0x14" "poly_ccitt = 0x1a"
  by code_simp+

text \<open>The table holds the register after eight steps from each byte.\<close>

definition table_ok :: "crc5_t \<Rightarrow> crc5_t list \<Rightarrow> bool" where
  "table_ok poly table \<longleftrightarrow> table = map (\<lambda>i. push_bit 3 (lfsr_byte poly 0 (of_nat i))) [0..<256]"

lemma lfsr_byte_unfold: "lfsr_byte poly r d =
    lfsr_bit poly (lfsr_bit poly (lfsr_bit poly (lfsr_bit poly (lfsr_bit poly (lfsr_bit poly
      (lfsr_bit poly (lfsr_bit poly r (bit d 0)) (bit d 1)) (bit d 2)) (bit d 3)) (bit d 4))
      (bit d 5)) (bit d 6)) (bit d 7)"
  by (simp add: lfsr_byte_def upt_conv_Cons numeral_eq_Suc)

lemma bytes_upt: "[0..<256::nat] =
   [0, 1, 2, 3, 4, 5, 6, 7, 8, 9, 10, 11, 12, 13, 14, 15, 16, 17, 18, 19, 20, 21, 22, 23, 24, 25, 26, 27, 28, 29, 30, 31,
    32, 33, 34, 35, 36, 37, 38, 39, 40, 41, 42, 43, 44, 45, 46, 47, 48, 49, 50, 51, 52, 53, 54, 55, 56, 57, 58, 59, 60, 61, 62, 63,
    64, 65, 66, 67, 68, 69, 70, 71, 72, 73, 74, 75, 76, 77, 78, 79, 80, 81, 82, 83, 84, 85, 86, 87, 88, 89, 90, 91, 92, 93, 94, 95,
    96, 97, 98, 99, 100, 101, 102, 103, 104, 105, 106, 107, 108, 109, 110, 111, 112, 113, 114, 115, 116, 117, 118, 119, 120, 121, 122, 123, 124, 125, 126, 127,
    128, 129, 130, 131, 132, 133, 134, 135, 136, 137, 138, 139, 140, 141, 142, 143, 144, 145, 146, 147, 148, 149, 150, 151, 152, 153, 154, 155, 156, 157, 158, 159,
    160, 161, 162, 163, 164, 165, 166, 167, 168, 169, 170, 171, 172, 173, 174, 175, 176, 177, 178, 179, 180, 181, 182, 183, 184, 185, 186, 187, 188, 189, 190, 191,
    192, 193, 194, 195, 196, 197, 198, 199, 200, 201, 202, 203, 204, 205, 206, 207, 208, 209, 210, 211, 212, 213, 214, 215, 216, 217, 218, 219, 220, 221, 222, 223,
    224, 225, 226, 227, 228, 229, 230, 231, 232, 233, 234, 235, 236, 237, 238, 239, 240, 241, 242, 243, 244, 245, 246, 247, 248, 249, 250, 251, 252, 253, 254, 255]"
  by (simp add: upt_conv_Cons)

lemma lfsr_bit_simps:
  "lfsr_bit poly r True = (if bit r 0 then drop_bit 1 r else drop_bit 1 r XOR poly)"
  "lfsr_bit poly r False = (if bit r 0 then drop_bit 1 r XOR poly else drop_bit 1 r)"
  by (simp_all add: lfsr_bit_def)

lemma table_usb_ok: "table_ok poly_usb crc5_table_usb"
  unfolding table_ok_def bytes_upt list.map poly_values
  by (simp add: crc5_table_usb_def lfsr_byte_unfold lfsr_bit_simps)

lemma table_ccitt_ok: "table_ok poly_ccitt crc5_table_ccitt"
  unfolding table_ok_def bytes_upt list.map poly_values
  by (simp add: crc5_table_ccitt_def lfsr_byte_unfold lfsr_bit_simps)

text \<open>The register as a function of the bits consumed.\<close>

definition lfsr_bits :: "nat \<Rightarrow> crc5_t \<Rightarrow> crc5_t \<Rightarrow> byte \<Rightarrow> crc5_t" where
  "lfsr_bits n poly r d = foldl (lfsr_bit poly) r (map (bit d) [0..<n])"

lemma lfsr_bits_Suc: "lfsr_bits (Suc n) poly r d = lfsr_bit poly (lfsr_bits n poly r d) (bit d n)"
  by (simp add: lfsr_bits_def)

lemma lfsr_bit_xor:
  "lfsr_bit poly (r XOR x) b = lfsr_bit poly r (b \<noteq> bit x 0) XOR drop_bit 1 x"
proof -
  have d: "drop_bit 1 (r XOR x) = drop_bit 1 r XOR drop_bit 1 x"
    by (rule bit_word_eqI) (simp add: bit_simps)
  show ?thesis
    by (cases "bit r 0"; cases b; cases "bit x 0")
      (simp_all add: lfsr_bit_def d [unfolded One_nat_def] bit_xor_iff ac_simps)
qed

lemma lfsr_bits_xor:
  "lfsr_bits n poly (r XOR x) d = lfsr_bits n poly r (d XOR x) XOR drop_bit n x"
proof (induction n)
  case 0
  then show ?case by (simp add: lfsr_bits_def)
next
  case (Suc n)
  have b: "(bit d n \<noteq> bit (drop_bit n x) 0) = bit (d XOR x) n" by (auto simp: bit_simps)
  have "drop_bit 1 (drop_bit n x) = drop_bit (Suc n) x"
    by (rule bit_word_eqI) (simp add: bit_simps ac_simps)
  then show ?case unfolding lfsr_bits_Suc Suc.IH lfsr_bit_xor b by simp
qed

lemma lfsr_byte_table: "lfsr_byte poly r d = lfsr_byte poly 0 (r XOR d)"
proof -
  have "drop_bit 8 r = 0" by (rule bit_word_eqI) (auto simp: bit_simps dest: bit_imp_le_length)
  then show ?thesis
    using lfsr_bits_xor [of 8 poly 0 r d]
    by (simp add: lfsr_byte_def lfsr_bits_def ac_simps)
qed

definition reg5 :: "crc5_t \<Rightarrow> bool" where
  "reg5 r \<longleftrightarrow> (\<forall>n\<ge>5. \<not> bit r n)"

lemma reg5_bit: "reg5 poly \<Longrightarrow> reg5 r \<Longrightarrow> reg5 (lfsr_bit poly r b)"
  by (auto simp: reg5_def lfsr_bit_def bit_simps)

lemma reg5_byte: "reg5 poly \<Longrightarrow> reg5 r \<Longrightarrow> reg5 (lfsr_byte poly r d)"
  by (simp add: lfsr_byte_unfold reg5_bit)

lemma reg5_values: "reg5 0x1f" "reg5 0x14" "reg5 0x1a"
proof -
  have b: "\<not> bit w n" if "take_bit 5 w = w" "5 \<le> n" for w :: crc5_t and n
    using that by (metis bit_take_bit_iff linorder_not_less)
  show "reg5 0x1f" "reg5 0x14" "reg5 0x1a"
    unfolding reg5_def by (intro allI impI b; simp)+
qed

lemma reg_shift: "reg5 r \<Longrightarrow> drop_bit 3 (push_bit 3 r) = r"
proof (rule bit_word_eqI)
  fix n :: nat assume r: "reg5 r" and n: "n < LENGTH(8)"
  show "bit (drop_bit 3 (push_bit 3 r)) n = bit r n"
    using r n by (cases "5 \<le> n") (auto simp: reg5_def bit_simps)
qed

lemma push_mask: "push_bit 3 x AND push_bit 3 0x1f = (push_bit 3 x :: crc5_t)"
proof (rule bit_word_eqI)
  fix n :: nat assume n: "n < LENGTH(8)"
  have "push_bit 3 (0x1f :: crc5_t) = 0xf8" by simp
  moreover have "bit (0xf8 :: crc5_t) n" if "3 \<le> n"
  proof -
    from n that consider "n = 3" | "n = 4" | "n = 5" | "n = 6" | "n = 7" by fastforce
    then show ?thesis by cases simp_all
  qed
  ultimately show "bit (push_bit 3 x AND push_bit 3 0x1f) n = bit (push_bit 3 x) n"
    by (auto simp only: bit_and_iff bit_push_bit_iff)
qed

lemma crc5_step_lfsr:
  assumes t: "table_ok poly table" and r: "reg5 r"
  shows "crc5_step table (push_bit 3 r) d = push_bit 3 (lfsr_byte poly r d)"
proof -
  have m: "(w AND 0xff) = (w :: crc5_t)" for w
  proof -
    have "w AND mask 8 = w"
      by (rule bit_word_eqI) (auto simp: bit_simps)
    then show ?thesis by (simp add: mask_eq_exp_minus_1)
  qed
  have z: "drop_bit 8 w = (0 :: crc5_t)" for w
    by (rule bit_word_eqI) (auto simp: bit_simps dest: bit_imp_le_length)
  have "unat (r XOR d) < 256" using unsigned_less [of "r XOR d"] by simp
  then have "table ! unat (r XOR d) = push_bit 3 (lfsr_byte poly 0 (r XOR d))"
    using t by (simp add: table_ok_def)
  then show ?thesis
    unfolding crc5_step_def m z reg_shift [OF r] lfsr_byte_table [of poly r d]
    by (simp only: xor.right_neutral push_mask)
qed

lemma crc5_fold:
  assumes "table_ok poly table" and "reg5 poly"
  shows "reg5 r \<Longrightarrow> foldl (crc5_step table) (push_bit 3 r) data = push_bit 3 (foldl (lfsr_byte poly) r data)
    \<and> reg5 (foldl (lfsr_byte poly) r data)"
  by (induction data arbitrary: r) (simp_all add: crc5_step_lfsr [OF assms(1)] reg5_byte [OF assms(2)])

lemma crc5_update_spec:
  assumes "table_ok poly table" and "reg5 poly"
  shows "crc5_finalize (crc5_update crc5_init data table) = crc5_spec poly data"
proof -
  have f: "foldl (crc5_step table) (push_bit 3 0x1f) data = push_bit 3 (foldl (lfsr_byte poly) 0x1f data)"
    and r: "reg5 (foldl (lfsr_byte poly) 0x1f data)"
    using crc5_fold [OF assms reg5_values(1)] by blast+
  show ?thesis
    unfolding crc5_finalize_def crc5_update_def crc5_init_def crc5_spec_def f push_mask reg_shift [OF r]
    by (rule refl)
qed

lemma reg5_polys: "reg5 poly_usb" "reg5 poly_ccitt"
  by (simp_all only: poly_values reg5_values)

lemmas crc5_spec_usb = crc5_update_spec [OF table_usb_ok reg5_polys(1), folded crc5_update_usb_def]
lemmas crc5_spec_ccitt = crc5_update_spec [OF table_ccitt_ok reg5_polys(2), folded crc5_update_ccitt_def]

text \<open>C25. The table-driven checksums are the bit-serial ones: for every message, initialising,
  updating with the generated table and finalising gives the checksum of the reflected
  shift register for the polynomial 0x5 (USB) and 0xB (CCITT) with all-ones in and out.\<close>

theorem crc5_table_driven:
  "crc5_finalize (crc5_update_usb crc5_init data) = crc5_spec poly_usb data \<and>
   crc5_finalize (crc5_update_ccitt crc5_init data) = crc5_spec poly_ccitt data"
  by (simp only: crc5_spec_usb crc5_spec_ccitt simp_thms)

section \<open>Single-bit errors\<close>

lemma xor_cancel: "(a XOR c = b XOR c) = (a = (b :: crc5_t))"
  by (metis xor.assoc xor.right_neutral xor_self_eq)

lemma lfsr_bit_inj:
  assumes "bit poly 4" and "reg5 r" and "reg5 r'" and "lfsr_bit poly r b = lfsr_bit poly r' b"
  shows "r = r'"
proof -
  have top: "bit (lfsr_bit poly x b) 4 \<longleftrightarrow> bit x 0 \<noteq> b" if "reg5 x" for x
  proof -
    have "\<not> bit x 5" using that by (simp add: reg5_def)
    then show ?thesis using assms(1) by (simp add: lfsr_bit_def bit_xor_iff bit_drop_bit_eq)
  qed
  have z: "bit r 0 = bit r' 0"
    using top [OF assms(2)] top [OF assms(3)] unfolding assms(4) by argo
  have d: "drop_bit 1 r = drop_bit 1 r'"
    using assms(4) unfolding lfsr_bit_def z by (simp only: xor_cancel split: if_splits)
  show ?thesis
  proof (rule bit_word_eqI)
    fix n :: nat assume "n < LENGTH(8)"
    show "bit r n = bit r' n"
      using z arg_cong [OF d, of "\<lambda>w. bit w (n - 1)"] by (cases n) (auto simp: bit_simps)
  qed
qed

lemma lfsr_byte_inj:
  assumes "bit poly 4" and "reg5 poly" and "reg5 r" and "reg5 r'"
    and "lfsr_byte poly r d = lfsr_byte poly r' d"
  shows "r = r'"
proof -
  have "lfsr_bits n poly r d = lfsr_bits n poly r' d \<Longrightarrow> r = r'" for n
  proof (induction n)
    case 0
    then show ?case by (simp add: lfsr_bits_def)
  next
    case (Suc n)
    have "reg5 (lfsr_bits n poly x d)" if "reg5 x" for x
      using that by (induction n) (simp_all add: lfsr_bits_Suc reg5_bit assms(2), simp add: lfsr_bits_def)
    then show ?case
      using Suc lfsr_bit_inj [OF assms(1)] assms(3,4) by (metis lfsr_bits_Suc)
  qed
  then show ?thesis using assms(5) by (simp add: lfsr_byte_def lfsr_bits_def)
qed

lemma lfsr_fold_inj:
  assumes "bit poly 4" and "reg5 poly" and "reg5 r" and "reg5 r'"
    and "foldl (lfsr_byte poly) r data = foldl (lfsr_byte poly) r' data"
  shows "r = r'"
  using assms(3-5)
proof (induction data arbitrary: r r')
  case (Cons d data)
  then have "lfsr_byte poly r d = lfsr_byte poly r' d"
    by (simp add: reg5_byte assms(2))
  then show ?case using lfsr_byte_inj assms(1,2) Cons.prems by blast
qed simp

text \<open>Flipping one bit of a byte changes the register after it.\<close>

lemma flip_basis:
  assumes "k < 8" and "poly = 0x14 \<or> poly = 0x1a"
  shows "lfsr_byte poly 0 (push_bit k 1) \<noteq> 0"
proof -
  from assms(1) have "k = 0 \<or> k = 1 \<or> k = 2 \<or> k = 3 \<or> k = 4 \<or> k = 5 \<or> k = 6 \<or> k = 7" by auto
  with assms(2) show ?thesis
    by (elim disjE) (simp_all add: lfsr_byte_unfold lfsr_bit_def)
qed

lemma lfsr_byte_flip:
  "lfsr_byte poly r (d XOR x) = lfsr_byte poly r d XOR lfsr_byte poly 0 x"
proof -
  have lin: "lfsr_bits n poly (r XOR s) (d XOR x) = lfsr_bits n poly r d XOR lfsr_bits n poly s x" for n r s d x
  proof (induction n)
    case 0
    then show ?case by (simp add: lfsr_bits_def)
  next
    case (Suc n)
    have d: "drop_bit 1 (u XOR v) = drop_bit 1 u XOR drop_bit 1 v" for u v :: crc5_t
      by (rule bit_word_eqI) (simp add: bit_simps)
    have "lfsr_bit poly (u XOR v) (b \<noteq> c) = lfsr_bit poly u b XOR lfsr_bit poly v c" for u v b c
      by (cases "bit u 0"; cases "bit v 0"; cases b; cases c)
        (simp_all add: lfsr_bit_def d [unfolded One_nat_def] bit_xor_iff ac_simps)
    moreover have "bit (d XOR x) n = (bit d n \<noteq> bit x n)" by (auto simp: bit_simps)
    ultimately show ?case by (simp add: lfsr_bits_Suc Suc)
  qed
  show ?thesis using lin [of 8 r 0 d x] by (simp add: lfsr_byte_def lfsr_bits_def)
qed

text \<open>Flipping any single bit of a message changes both of its checksums.\<close>

theorem crc5_detects_bit_flip:
  assumes "k < 8"
  shows "crc5_finalize (crc5_update_usb crc5_init (xs @ (d XOR push_bit k 1) # ys)) \<noteq>
      crc5_finalize (crc5_update_usb crc5_init (xs @ d # ys)) \<and>
    crc5_finalize (crc5_update_ccitt crc5_init (xs @ (d XOR push_bit k 1) # ys)) \<noteq>
      crc5_finalize (crc5_update_ccitt crc5_init (xs @ d # ys))"
proof -
  have "crc5_spec poly (xs @ (d XOR push_bit k 1) # ys) \<noteq> crc5_spec poly (xs @ d # ys)"
    if p: "poly = 0x14 \<or> poly = 0x1a" for poly
  proof
    assume e: "crc5_spec poly (xs @ (d XOR push_bit k 1) # ys) = crc5_spec poly (xs @ d # ys)"
    have b: "bit poly 4" "reg5 poly" using p reg5_values by auto
    let ?r = "foldl (lfsr_byte poly) 0x1f xs"
    have r: "reg5 ?r"
    proof -
      have "reg5 q \<Longrightarrow> reg5 (foldl (lfsr_byte poly) q zs)" for q zs
        by (induction zs arbitrary: q) (simp_all add: reg5_byte b(2))
      then show ?thesis using reg5_values(1) by blast
    qed
    have "foldl (lfsr_byte poly) (lfsr_byte poly ?r (d XOR push_bit k 1)) ys =
        foldl (lfsr_byte poly) (lfsr_byte poly ?r d) ys"
      using e unfolding crc5_spec_def xor_cancel foldl_append foldl.simps .
    then have "lfsr_byte poly ?r (d XOR push_bit k 1) = lfsr_byte poly ?r d"
      by (rule lfsr_fold_inj [OF b reg5_byte [OF b(2) r] reg5_byte [OF b(2) r]])
    then have "lfsr_byte poly ?r d XOR (lfsr_byte poly ?r d XOR lfsr_byte poly 0 (push_bit k 1)) = 0"
      by (simp add: lfsr_byte_flip)
    moreover have "a XOR (a XOR b) = b" for a b :: crc5_t
      by (rule bit_word_eqI) (auto simp: bit_simps)
    ultimately have "lfsr_byte poly 0 (push_bit k 1) = 0" by (simp only:)
    then show False using flip_basis [OF assms p] by blast
  qed
  then show ?thesis unfolding crc5_spec_usb crc5_spec_ccitt by (simp only: poly_values simp_thms)
qed

theorem crc5_detects_bit_flip_witness:
  "crc5_finalize (crc5_update_usb crc5_init [1, 2 XOR push_bit 3 1]) \<noteq> crc5_finalize (crc5_update_usb crc5_init [1, 2])"
  using crc5_detects_bit_flip [of 3 "[1]" 2 "[]"] by simp

end
