(* ===== verification/Dpipe.thy ===== *)
theory Dpipe
  imports GaCommon
begin

text \<open>
  The frame pipe of \<open>core/dpipe.cpp\<close>: a pool of free frame buffers (\<open>in\<close>) and a queue of
  occupied ones (\<open>out\<close>), both linked through the \<open>next\<close> fields of the buffers, and the registry
  of pipes by name. Buffers live in a heap from addresses to structures; following an address
  that is not allocated is undefined (\<open>None\<close>). Every operation runs under the pipe's mutex,
  so it is one atomic function; the waits of \<open>dpipe_load\<close> release it, and what other threads
  do meanwhile is an argument.
\<close>

section \<open>Structures\<close>

record dpipe_buffer =
  buf_pointer :: nat
  buf_internal :: nat
  buf_offset :: nat
  buf_next :: "nat option"

record dpipe_t =
  dp_channel_id :: int
  dp_name :: string
  dp_in :: "nat option"
  dp_out :: "nat option"
  dp_out_tail :: "nat option"
  dp_in_count :: int
  dp_out_count :: int

type_synonym dheap = "nat \<Rightarrow> dpipe_buffer option"

definition set_next :: "dheap \<Rightarrow> nat \<Rightarrow> nat option \<Rightarrow> dheap option" where
  "set_next h b n = do { x \<leftarrow> h b; Some (h(b \<mapsto> x\<lparr>buf_next := n\<rparr>)) }"

section \<open>Operations on a pipe\<close>

definition dpipe_take_out :: "dheap \<Rightarrow> dpipe_t \<Rightarrow> nat \<Rightarrow> (nat option \<times> dheap \<times> dpipe_t) option" where
  "dpipe_take_out h d b = do {
     x \<leftarrow> h b;
     h' \<leftarrow> set_next h b None;
     Some (Some b, h', d\<lparr>dp_out := buf_next x,
       dp_out_tail := (if buf_next x = None then None else dp_out_tail d),
       dp_out_count := dp_out_count d - 1\<rparr>) }"

definition dpipe_get :: "dheap \<Rightarrow> dpipe_t \<Rightarrow> (nat option \<times> dheap \<times> dpipe_t) option" where
  "dpipe_get h d = (case dp_in d of
       Some b \<Rightarrow> do {
         x \<leftarrow> h b;
         h' \<leftarrow> set_next h b None;
         Some (Some b, h', d\<lparr>dp_in := buf_next x, dp_in_count := dp_in_count d - 1\<rparr>) }
     | None \<Rightarrow> (case dp_out d of
           Some b \<Rightarrow> dpipe_take_out h d b
         | None \<Rightarrow> Some (None, h, d)))"

definition dpipe_put :: "dheap \<Rightarrow> dpipe_t \<Rightarrow> nat \<Rightarrow> (dheap \<times> dpipe_t) option" where
  "dpipe_put h d b = do {
     h' \<leftarrow> set_next h b (dp_in d);
     Some (h', d\<lparr>dp_in := Some b, dp_in_count := dp_in_count d + 1\<rparr>) }"

definition dpipe_load_nowait :: "dheap \<Rightarrow> dpipe_t \<Rightarrow> (nat option \<times> dheap \<times> dpipe_t) option" where
  "dpipe_load_nowait h d = (case dp_out d of
       Some b \<Rightarrow> dpipe_take_out h d b
     | None \<Rightarrow> Some (None, h, d))"

text \<open>
  \<open>dpipe_load\<close>: \<open>timed\<close> tells whether a time limit is given, and \<open>wakes\<close> what the other
  threads do during each successive wait. Without a limit the call goes on waiting; it is
  still blocked when no wake-up is left.
\<close>

datatype load_result = Loaded "nat option" | Blocked

fun dpipe_load :: "bool \<Rightarrow> bool \<Rightarrow> (dheap \<times> dpipe_t \<Rightarrow> dheap \<times> dpipe_t) list \<Rightarrow> dheap \<Rightarrow> dpipe_t \<Rightarrow>
    (load_result \<times> dheap \<times> dpipe_t) option" where
  "dpipe_load timed failed wakes h d = (case dp_out d of
       Some b \<Rightarrow> do { (r, h', d') \<leftarrow> dpipe_take_out h d b; Some (Loaded r, h', d') }
     | None \<Rightarrow>
         if timed \<and> failed then Some (Loaded None, h, d)
         else (case wakes of
             [] \<Rightarrow> Some (Blocked, h, d)
           | w # ws \<Rightarrow> let (h', d') = w (h, d) in dpipe_load timed timed ws h' d'))"

declare dpipe_load.simps [simp del]

definition dpipe_store :: "dheap \<Rightarrow> dpipe_t \<Rightarrow> nat \<Rightarrow> (dheap \<times> dpipe_t) option" where
  "dpipe_store h d b = (case dp_out_tail d of
       Some t \<Rightarrow> do {
         h1 \<leftarrow> set_next h t (Some b);
         h2 \<leftarrow> set_next h1 b None;
         Some (h2, d\<lparr>dp_out_tail := Some b, dp_out_count := dp_out_count d + 1\<rparr>) }
     | None \<Rightarrow> do {
         h2 \<leftarrow> set_next h b None;
         Some (h2, d\<lparr>dp_out := Some b, dp_out_tail := Some b, dp_out_count := dp_out_count d + 1\<rparr>) })"

section \<open>Creation and destruction\<close>

record dpipe_sys =
  ds_heap :: dheap
  ds_pipes :: "nat \<Rightarrow> dpipe_t option"
  dpipemap :: "(string, nat) smap"

definition dpipe_lookup :: "dpipe_sys \<Rightarrow> string \<Rightarrow> nat option" where
  "dpipe_lookup s name = smap_find (dpipemap s) name"

text \<open>Freeing a list; the fuel bounds its length.\<close>

primrec free_list :: "nat \<Rightarrow> dheap \<Rightarrow> nat option \<Rightarrow> dheap option" where
  "free_list 0 h p = (if p = None then Some h else None)"
| "free_list (Suc n) h p = (case p of None \<Rightarrow> Some h
     | Some b \<Rightarrow> do { x \<leftarrow> h b; free_list n (h(b := None)) (buf_next x) })"

definition dpipe_destroy :: "nat \<Rightarrow> dpipe_sys \<Rightarrow> nat option \<Rightarrow> (int \<times> dpipe_sys) option" where
  "dpipe_destroy fuel s p = (case p of None \<Rightarrow> Some (0, s)
     | Some a \<Rightarrow> do {
         d \<leftarrow> ds_pipes s a;
         h1 \<leftarrow> free_list fuel (ds_heap s) (dp_in d);
         h2 \<leftarrow> free_list fuel h1 (dp_out d);
         Some (0, s\<lparr>ds_heap := h2, ds_pipes := (ds_pipes s)(a := None),
                    dpipemap := smap_erase (dpipemap s) (dp_name d)\<rparr>) })"

text \<open>
  The loop that allocates the frames: \<open>balloc i\<close> is the address of the i-th buffer structure
  and \<open>malloc i\<close> the allocator at that moment. The flag is false when an allocation fails.
\<close>

primrec dpipe_alloc :: "nat \<Rightarrow> (nat \<Rightarrow> nat option) \<Rightarrow> (nat \<Rightarrow> int \<Rightarrow> nat option) \<Rightarrow> int \<Rightarrow> nat \<Rightarrow>
    dheap \<Rightarrow> dpipe_t \<Rightarrow> bool \<times> dheap \<times> dpipe_t" where
  "dpipe_alloc 0 balloc malloc maxframesize i h d = (True, h, d)"
| "dpipe_alloc (Suc n) balloc malloc maxframesize i h d = (case balloc i of
       None \<Rightarrow> (False, h, d)
     | Some b \<Rightarrow> (case ga_malloc (malloc i) maxframesize of
           None \<Rightarrow> (False, h, d)
         | Some (internal, off) \<Rightarrow>
             dpipe_alloc n balloc malloc maxframesize (Suc i)
               (h(b \<mapsto> \<lparr>buf_pointer = internal + off, buf_internal = internal, buf_offset = off,
                        buf_next = dp_in d\<rparr>))
               (d\<lparr>dp_in := Some b, dp_in_count := dp_in_count d + 1\<rparr>)))"

text \<open>
  \<open>palloc\<close> is the address of the pipe structure and \<open>nalloc\<close> tells whether the name can be
  copied. On failure everything allocated is given back through \<open>dpipe_destroy\<close>.
\<close>

definition dpipe_create :: "nat option \<Rightarrow> bool \<Rightarrow> (nat \<Rightarrow> nat option) \<Rightarrow> (nat \<Rightarrow> int \<Rightarrow> nat option) \<Rightarrow>
    int \<Rightarrow> string option \<Rightarrow> int \<Rightarrow> int \<Rightarrow> dpipe_sys \<Rightarrow> (nat option \<times> dpipe_sys) option" where
  "dpipe_create palloc nalloc balloc malloc id' name nframe maxframesize s = (case name of
       None \<Rightarrow> Some (None, s)
     | Some nm \<Rightarrow>
         if id' < 0 \<or> nframe \<le> 0 \<or> maxframesize \<le> 0 then Some (None, s)
         else if dpipe_lookup s nm \<noteq> None then Some (None, s)
         else (case palloc of None \<Rightarrow> Some (None, s)
           | Some a \<Rightarrow>
               let d0 = \<lparr>dp_channel_id = id', dp_name = nm, dp_in = None, dp_out = None,
                         dp_out_tail = None, dp_in_count = 0, dp_out_count = 0\<rparr>
               in if \<not> nalloc then Some (None, s)
               else let (ok, h, d) = dpipe_alloc (nat nframe) balloc malloc maxframesize 0 (ds_heap s) d0;
                        s' = s\<lparr>ds_heap := h, ds_pipes := (ds_pipes s)(a \<mapsto> d)\<rparr>
                    in if ok then Some (Some a, s'\<lparr>dpipemap := smap_put (dpipemap s') nm a\<rparr>)
                       else do { (r, s2) \<leftarrow> dpipe_destroy (nat nframe) s' (Some a); Some (None, s2) }))"

section \<open>The pools a pipe represents\<close>

text \<open>\<open>plist h p xs\<close>: from \<open>p\<close> the buffers linked are \<open>xs\<close>.\<close>

primrec plist :: "dheap \<Rightarrow> nat option \<Rightarrow> nat list \<Rightarrow> bool" where
  "plist h p [] \<longleftrightarrow> p = None"
| "plist h p (x # xs) \<longleftrightarrow> p = Some x \<and> (\<exists>b. h x = Some b \<and> plist h (buf_next b) xs)"

definition dpipe_rep :: "dheap \<Rightarrow> dpipe_t \<Rightarrow> nat list \<Rightarrow> nat list \<Rightarrow> bool" where
  "dpipe_rep h d ins outs \<longleftrightarrow> plist h (dp_in d) ins \<and> plist h (dp_out d) outs \<and>
     distinct (ins @ outs) \<and> dp_out_tail d = (if outs = [] then None else Some (last outs)) \<and>
     dp_in_count d = int (length ins) \<and> dp_out_count d = int (length outs)"

lemma plist_None [simp]: "plist h None xs \<longleftrightarrow> xs = []"
  by (cases xs) auto

lemma plist_alloc: "plist h p xs \<Longrightarrow> x \<in> set xs \<Longrightarrow> h x \<noteq> None"
  by (induction xs arbitrary: p) auto

lemma plist_cong: "plist h p xs \<Longrightarrow> \<forall>x\<in>set xs. h' x = h x \<Longrightarrow> plist h' p xs"
  by (induction xs arbitrary: p) auto

lemma plist_upd [simp]: "a \<notin> set xs \<Longrightarrow> plist (h(a := v)) p xs \<longleftrightarrow> plist h p xs"
  using plist_cong [of h p xs "h(a := v)"] plist_cong [of "h(a := v)" p xs h] by auto

lemma set_next_Some: "h b = Some x \<Longrightarrow> set_next h b n = Some (h(b \<mapsto> x\<lparr>buf_next := n\<rparr>))"
  by (simp add: set_next_def)

lemma set_next_alloc: "set_next h b n = Some h' \<Longrightarrow> (h' x = None) = (h x = None)"
  by (auto simp: set_next_def split: if_splits)

lemma plist_snoc:
  assumes "plist h p xs" and "xs \<noteq> []" and "distinct (xs @ [b])" and "h b = Some y"
    and "h (last xs) = Some z"
  shows "plist (h(last xs \<mapsto> z\<lparr>buf_next := Some b\<rparr>, b \<mapsto> y\<lparr>buf_next := None\<rparr>)) p (xs @ [b])"
  using assms
proof (induction xs arbitrary: p)
  case (Cons a xs)
  then obtain x where x: "h a = Some x" "plist h (buf_next x) xs" "p = Some a" by auto
  show ?case
  proof (cases "xs = []")
    case True
    then show ?thesis using Cons.prems x by auto
  next
    case False
    then have "plist (h(last xs \<mapsto> z\<lparr>buf_next := Some b\<rparr>, b \<mapsto> y\<lparr>buf_next := None\<rparr>)) (buf_next x) (xs @ [b])"
      using Cons x by (intro Cons.IH) auto
    moreover have "a \<noteq> last xs" "a \<noteq> b" using Cons.prems False by auto
    moreover from this have "(h(last xs \<mapsto> z\<lparr>buf_next := Some b\<rparr>, b \<mapsto> y\<lparr>buf_next := None\<rparr>)) a = Some x"
      using x by simp
    ultimately show ?thesis using x False by (simp del: fun_upd_apply)
  qed
qed simp

section \<open>The operations implement the two pools\<close>

lemma take_out_rep:
  assumes "dpipe_rep h d ins (b # outs)"
  shows "\<exists>h' d'. dpipe_take_out h d b = Some (Some b, h', d') \<and> dpipe_rep h' d' ins outs \<and>
    (\<forall>x. (h' x = None) = (h x = None))"
proof -
  obtain x where x: "h b = Some x" "plist h (buf_next x) outs" using assms by (auto simp: dpipe_rep_def)
  have nb: "b \<notin> set ins" "b \<notin> set outs" using assms by (auto simp: dpipe_rep_def)
  have e: "buf_next x = None \<longleftrightarrow> outs = []" using x(2) by (cases outs) auto
  show ?thesis
    using assms x nb e by (auto simp: dpipe_take_out_def set_next_Some dpipe_rep_def)
qed

lemma load_nowait_rep:
  assumes "dpipe_rep h d ins outs"
  shows "\<exists>h' d'. dpipe_load_nowait h d =
      Some ((case outs of [] \<Rightarrow> None | b # _ \<Rightarrow> Some b), h', d') \<and>
    dpipe_rep h' d' ins (tl outs) \<and> (\<forall>x. (h' x = None) = (h x = None))"
proof (cases outs)
  case Nil
  then show ?thesis using assms by (auto simp: dpipe_load_nowait_def dpipe_rep_def)
next
  case (Cons b bs)
  then have "dp_out d = Some b" using assms by (simp add: dpipe_rep_def)
  then show ?thesis using take_out_rep [of h d ins b bs] assms Cons
    by (simp add: dpipe_load_nowait_def)
qed

lemma get_rep:
  assumes "dpipe_rep h d ins outs"
  shows "\<exists>h' d'. dpipe_get h d =
      Some ((case ins @ outs of [] \<Rightarrow> None | b # _ \<Rightarrow> Some b), h', d') \<and>
    dpipe_rep h' d' (tl ins) (if ins = [] then tl outs else outs) \<and>
    (\<forall>x. (h' x = None) = (h x = None))"
proof (cases ins)
  case Nil
  then have i: "dp_in d = None" using assms by (simp add: dpipe_rep_def)
  show ?thesis
  proof (cases outs)
    case Nil2: Nil
    then show ?thesis using assms Nil by (auto simp: dpipe_get_def dpipe_rep_def)
  next
    case (Cons b bs)
    then have "dp_out d = Some b" using assms by (simp add: dpipe_rep_def)
    then show ?thesis using take_out_rep [of h d ins b bs] assms Cons Nil i
      by (simp add: dpipe_get_def)
  qed
next
  case (Cons b bs)
  obtain x where x: "h b = Some x" "plist h (buf_next x) bs" "dp_in d = Some b"
    using assms Cons by (auto simp: dpipe_rep_def)
  have nb: "b \<notin> set bs" "b \<notin> set outs" using assms Cons by (auto simp: dpipe_rep_def)
  show ?thesis
    using assms x nb Cons by (auto simp: dpipe_get_def set_next_Some dpipe_rep_def)
qed

lemma put_rep:
  assumes "dpipe_rep h d ins outs" and "h b \<noteq> None" and "b \<notin> set (ins @ outs)"
  shows "\<exists>h' d'. dpipe_put h d b = Some (h', d') \<and> dpipe_rep h' d' (b # ins) outs \<and>
    (\<forall>x. (h' x = None) = (h x = None))"
  using assms by (auto simp: dpipe_put_def set_next_Some dpipe_rep_def)

lemma store_rep:
  assumes r: "dpipe_rep h d ins outs" and b: "h b \<noteq> None" "b \<notin> set (ins @ outs)"
  shows "\<exists>h' d'. dpipe_store h d b = Some (h', d') \<and> dpipe_rep h' d' ins (outs @ [b]) \<and>
    (\<forall>x. (h' x = None) = (h x = None))"
proof (cases "outs = []")
  case True
  then show ?thesis using assms by (auto simp: dpipe_store_def set_next_Some dpipe_rep_def)
next
  case False
  obtain y where y: "h b = Some y" using b(1) by auto
  have l: "last outs \<in> set outs" "last outs \<noteq> b" using False b by auto
  obtain z where z: "h (last outs) = Some z" using plist_alloc [of h "dp_out d" outs] r l
    by (auto simp: dpipe_rep_def)
  let ?h = "h(last outs \<mapsto> z\<lparr>buf_next := Some b\<rparr>, b \<mapsto> y\<lparr>buf_next := None\<rparr>)"
  let ?d = "d\<lparr>dp_out_tail := Some b, dp_out_count := dp_out_count d + 1\<rparr>"
  have "dpipe_store h d b = Some (?h, ?d)"
    using r False y z l by (simp add: dpipe_store_def dpipe_rep_def set_next_Some)
  moreover have "plist ?h (dp_out d) (outs @ [b])"
    using r b False y z by (intro plist_snoc) (auto simp: dpipe_rep_def)
  moreover have "last outs \<notin> set ins" using r l by (auto simp: dpipe_rep_def)
  moreover have "\<forall>x. (?h x = None) = (h x = None)" using y z by auto
  ultimately show ?thesis using r b by (auto simp: dpipe_rep_def simp del: fun_upd_apply)
qed

text \<open>C3. The linked lists implement two pools of distinct buffers, with the tail pointer and the
  counters always exact: getting takes the first free buffer, or the eldest stored one when
  none is free; putting adds a free buffer; storing appends to the output pool; loading takes
  the eldest stored buffer. None of them follows a pointer that is not allocated.\<close>

theorem dpipe_refines_pools:
  assumes "dpipe_rep h d ins outs" and "h b \<noteq> None" and "b \<notin> set (ins @ outs)"
  shows "(\<exists>h' d'. dpipe_get h d = Some ((case ins @ outs of [] \<Rightarrow> None | b # _ \<Rightarrow> Some b), h', d') \<and>
      dpipe_rep h' d' (tl ins) (if ins = [] then tl outs else outs)) \<and>
    (\<exists>h' d'. dpipe_put h d b = Some (h', d') \<and> dpipe_rep h' d' (b # ins) outs) \<and>
    (\<exists>h' d'. dpipe_store h d b = Some (h', d') \<and> dpipe_rep h' d' ins (outs @ [b])) \<and>
    (\<exists>h' d'. dpipe_load_nowait h d = Some ((case outs of [] \<Rightarrow> None | b # _ \<Rightarrow> Some b), h', d') \<and>
      dpipe_rep h' d' ins (tl outs))"
  using get_rep [OF assms(1)] put_rep [OF assms] store_rep [OF assms] load_nowait_rep [OF assms(1)]
  by blast

definition example_heap :: dheap where
  "example_heap = (\<lambda>a. if a = 1 then Some \<lparr>buf_pointer = 16, buf_internal = 0, buf_offset = 16, buf_next = None\<rparr>
     else if a = 2 then Some \<lparr>buf_pointer = 48, buf_internal = 32, buf_offset = 16, buf_next = None\<rparr> else None)"

definition example_pipe :: dpipe_t where
  "example_pipe = \<lparr>dp_channel_id = 0, dp_name = ''v'', dp_in = Some 1, dp_out = None,
     dp_out_tail = None, dp_in_count = 1, dp_out_count = 0\<rparr>"

theorem dpipe_refines_pools_witness:
  "\<exists>h' d'. dpipe_store example_heap example_pipe 2 = Some (h', d') \<and> dpipe_rep h' d' [1] [2]"
proof -
  have "dpipe_rep example_heap example_pipe [1] []" "example_heap 2 \<noteq> None" "2 \<notin> set ([1 :: nat] @ [])"
    by (simp_all add: dpipe_rep_def example_heap_def example_pipe_def)
  from dpipe_refines_pools [OF this] show ?thesis by simp
qed

section \<open>Threads sharing a pipe\<close>

text \<open>
  Any interleaving of the operations: \<open>held\<close> are the buffers that threads have obtained and
  not yet given back. Two histories are kept: the buffers stored, and the buffers that left
  the output pool (loaded, or dropped by \<open>dpipe_get\<close>).
\<close>

record dpipe_run =
  dr_heap :: dheap
  dr_pipe :: dpipe_t
  dr_held :: "nat list"
  dr_stored :: "nat list"
  dr_removed :: "nat list"

inductive dpipe_step :: "dpipe_run \<Rightarrow> dpipe_run \<Rightarrow> bool" where
  step_get: "dpipe_get (dr_heap s) (dr_pipe s) = Some (Some b, h', d') \<Longrightarrow>
     dpipe_step s (s\<lparr>dr_heap := h', dr_pipe := d', dr_held := b # dr_held s,
       dr_removed := dr_removed s @ (if dp_in (dr_pipe s) = None then [b] else [])\<rparr>)"
| step_get_null: "dpipe_get (dr_heap s) (dr_pipe s) = Some (None, h', d') \<Longrightarrow>
     dpipe_step s (s\<lparr>dr_heap := h', dr_pipe := d'\<rparr>)"
| step_put: "b \<in> set (dr_held s) \<Longrightarrow> dpipe_put (dr_heap s) (dr_pipe s) b = Some (h', d') \<Longrightarrow>
     dpipe_step s (s\<lparr>dr_heap := h', dr_pipe := d', dr_held := remove1 b (dr_held s)\<rparr>)"
| step_store: "b \<in> set (dr_held s) \<Longrightarrow> dpipe_store (dr_heap s) (dr_pipe s) b = Some (h', d') \<Longrightarrow>
     dpipe_step s (s\<lparr>dr_heap := h', dr_pipe := d', dr_held := remove1 b (dr_held s),
       dr_stored := dr_stored s @ [b]\<rparr>)"
| step_load: "dpipe_load_nowait (dr_heap s) (dr_pipe s) = Some (Some b, h', d') \<Longrightarrow>
     dpipe_step s (s\<lparr>dr_heap := h', dr_pipe := d', dr_held := b # dr_held s,
       dr_removed := dr_removed s @ [b]\<rparr>)"
| step_load_null: "dpipe_load_nowait (dr_heap s) (dr_pipe s) = Some (None, h', d') \<Longrightarrow>
     dpipe_step s (s\<lparr>dr_heap := h', dr_pipe := d'\<rparr>)"

definition dpipe_start :: "dpipe_run \<Rightarrow> nat list \<Rightarrow> bool" where
  "dpipe_start s frames \<longleftrightarrow> dpipe_rep (dr_heap s) (dr_pipe s) frames [] \<and>
     dr_held s = [] \<and> dr_stored s = [] \<and> dr_removed s = []"

definition dpipe_inv :: "nat list \<Rightarrow> dpipe_run \<Rightarrow> nat list \<Rightarrow> nat list \<Rightarrow> bool" where
  "dpipe_inv frames s ins outs \<longleftrightarrow> dpipe_rep (dr_heap s) (dr_pipe s) ins outs \<and>
     distinct (ins @ outs @ dr_held s) \<and> set (ins @ outs @ dr_held s) = set frames \<and>
     dr_stored s = dr_removed s @ outs \<and> (\<forall>b\<in>set frames. dr_heap s b \<noteq> None)"

lemma inv_get:
  assumes i: "dpipe_inv frames s ins outs"
    and g: "dpipe_get (dr_heap s) (dr_pipe s) = Some (r, h', d')"
  shows "dpipe_rep h' d' (tl ins) (if ins = [] then tl outs else outs) \<and>
    (\<forall>x. (h' x = None) = (dr_heap s x = None)) \<and> r = (case ins @ outs of [] \<Rightarrow> None | b # _ \<Rightarrow> Some b)"
  using get_rep [of "dr_heap s" "dr_pipe s" ins outs] i g by (auto simp: dpipe_inv_def)

lemma inv_load:
  assumes i: "dpipe_inv frames s ins outs"
    and g: "dpipe_load_nowait (dr_heap s) (dr_pipe s) = Some (r, h', d')"
  shows "dpipe_rep h' d' ins (tl outs) \<and>
    (\<forall>x. (h' x = None) = (dr_heap s x = None)) \<and> r = (case outs of [] \<Rightarrow> None | b # _ \<Rightarrow> Some b)"
  using load_nowait_rep [of "dr_heap s" "dr_pipe s" ins outs] i g by (auto simp: dpipe_inv_def)

lemma inv_held:
  assumes "dpipe_inv frames s ins outs" and "b \<in> set (dr_held s)"
  shows "dr_heap s b \<noteq> None" and "b \<notin> set (ins @ outs)"
  using assms by (auto simp: dpipe_inv_def)

lemma dpipe_step_inv:
  assumes "dpipe_step s s'" and i: "dpipe_inv frames s ins outs"
  shows "\<exists>ins' outs'. dpipe_inv frames s' ins' outs'"
  using assms(1)
proof cases
  case (step_get b h' d')
  note g = inv_get [OF i step_get(2)]
  have n: "dp_in (dr_pipe s) = None \<longleftrightarrow> ins = []"
    using i by (cases ins) (auto simp: dpipe_inv_def dpipe_rep_def)
  show ?thesis
  proof (cases ins)
    case Nil
    then obtain os where "outs = b # os" using g by (auto split: list.splits)
    then have "dpipe_inv frames s' [] os"
      using i g Nil n step_get(1) by (auto simp: dpipe_inv_def)
    then show ?thesis by blast
  next
    case (Cons a rs)
    then have "dpipe_inv frames s' rs outs"
      using i g n step_get(1) by (auto simp: dpipe_inv_def)
    then show ?thesis by blast
  qed
next
  case (step_get_null h' d')
  note g = inv_get [OF i step_get_null(2)]
  then have "ins = [] \<and> outs = []" by (auto split: list.splits)
  then have "dpipe_inv frames s' ins outs"
    using i g step_get_null(1) by (auto simp: dpipe_inv_def)
  then show ?thesis by blast
next
  case (step_put b h' d')
  note h = inv_held [OF i step_put(2)]
  have "dpipe_rep h' d' (b # ins) outs \<and> (\<forall>x. (h' x = None) = (dr_heap s x = None))"
    using put_rep [of "dr_heap s" "dr_pipe s" ins outs b] i h step_put(3) by (auto simp: dpipe_inv_def)
  then have "dpipe_inv frames s' (b # ins) outs"
    using i h step_put(1,2) by (auto simp: dpipe_inv_def)
  then show ?thesis by blast
next
  case (step_store b h' d')
  note h = inv_held [OF i step_store(2)]
  have "dpipe_rep h' d' ins (outs @ [b]) \<and> (\<forall>x. (h' x = None) = (dr_heap s x = None))"
    using store_rep [of "dr_heap s" "dr_pipe s" ins outs b] i h step_store(3) by (auto simp: dpipe_inv_def)
  then have "dpipe_inv frames s' ins (outs @ [b])"
    using i h step_store(1,2) by (auto simp: dpipe_inv_def)
  then show ?thesis by blast
next
  case (step_load b h' d')
  note g = inv_load [OF i step_load(2)]
  then obtain os where "outs = b # os" by (auto split: list.splits)
  then have "dpipe_inv frames s' ins os"
    using i g step_load(1) by (auto simp: dpipe_inv_def)
  then show ?thesis by blast
next
  case (step_load_null h' d')
  note g = inv_load [OF i step_load_null(2)]
  then have "outs = []" by (auto split: list.splits)
  then have "dpipe_inv frames s' ins outs"
    using i g step_load_null(1) by (auto simp: dpipe_inv_def)
  then show ?thesis by blast
qed

lemma dpipe_reach_inv:
  assumes "dpipe_step\<^sup>*\<^sup>* s0 s" and "dpipe_start s0 frames"
  shows "\<exists>ins outs. dpipe_inv frames s ins outs"
  using assms(1)
proof (induction rule: rtranclp_induct)
  case base
  have "\<forall>b\<in>set frames. dr_heap s0 b \<noteq> None"
    using assms(2) plist_alloc by (fastforce simp: dpipe_start_def dpipe_rep_def)
  then have "dpipe_inv frames s0 frames []"
    using assms(2) by (auto simp: dpipe_inv_def dpipe_start_def dpipe_rep_def)
  then show ?case by blast
qed (use dpipe_step_inv in blast)

text \<open>C8. Under every interleaving of gets, puts, stores and loads, each frame of the pipe is in
  exactly one place: free, stored, or held by one thread; and frames leave the output pool
  in the order in which they were stored.\<close>

theorem dpipe_ownership_fifo:
  assumes "dpipe_step\<^sup>*\<^sup>* s0 s" and "dpipe_start s0 frames"
  shows "\<exists>ins outs. dpipe_rep (dr_heap s) (dr_pipe s) ins outs \<and>
    distinct (ins @ outs @ dr_held s) \<and> set (ins @ outs @ dr_held s) = set frames \<and>
    dr_stored s = dr_removed s @ outs"
  using dpipe_reach_inv [OF assms] by (auto simp: dpipe_inv_def)

text \<open>\<open>dpipe_get\<close> succeeds as long as the threads hold fewer frames than the pipe has, and
  returns NULL when they hold them all.\<close>

theorem dpipe_get_available:
  assumes "dpipe_step\<^sup>*\<^sup>* s0 s" and "dpipe_start s0 frames"
  shows "\<exists>r h' d'. dpipe_get (dr_heap s) (dr_pipe s) = Some (r, h', d') \<and>
    (r = None \<longleftrightarrow> length (dr_held s) = length frames) \<and>
    (\<forall>b. r = Some b \<longrightarrow> b \<in> set frames \<and> b \<notin> set (dr_held s))"
proof -
  obtain ins outs where i: "dpipe_inv frames s ins outs" using dpipe_reach_inv [OF assms] by blast
  have dist: "distinct frames" using assms(2) by (simp add: dpipe_start_def dpipe_rep_def)
  have "length frames = card (set (ins @ outs @ dr_held s))"
    using i dist by (simp add: dpipe_inv_def distinct_card)
  also have "\<dots> = length (ins @ outs @ dr_held s)"
    using i by (intro distinct_card) (simp add: dpipe_inv_def)
  finally have len: "length frames = length (ins @ outs) + length (dr_held s)" by simp
  obtain h' d' where g: "dpipe_get (dr_heap s) (dr_pipe s) =
      Some ((case ins @ outs of [] \<Rightarrow> None | b # _ \<Rightarrow> Some b), h', d')"
    using get_rep i unfolding dpipe_inv_def by blast
  have sub: "set (ins @ outs) \<subseteq> set frames" "set (ins @ outs) \<inter> set (dr_held s) = {}"
    using i by (auto simp: dpipe_inv_def)
  show ?thesis
  proof (cases "ins @ outs")
    case Nil
    then show ?thesis using g len by auto
  next
    case (Cons b bs)
    then have "b \<in> set (ins @ outs)" by simp
    then have "b \<in> set frames" "b \<notin> set (dr_held s)" using sub by blast+
    then show ?thesis using g len Cons by simp
  qed
qed

definition example_run :: dpipe_run where
  "example_run = \<lparr>dr_heap = example_heap, dr_pipe = example_pipe, dr_held = [], dr_stored = [], dr_removed = []\<rparr>"

lemma example_start: "dpipe_start example_run [1]"
  by (simp add: dpipe_start_def example_run_def dpipe_rep_def example_heap_def example_pipe_def)

theorem dpipe_ownership_fifo_witness:
  "\<exists>ins outs. distinct (ins @ outs @ dr_held example_run) \<and> set (ins @ outs @ dr_held example_run) = {1}"
  using dpipe_ownership_fifo [OF _ example_start, of example_run] by auto

theorem dpipe_get_available_witness:
  "\<exists>h' d'. dpipe_get example_heap example_pipe = Some (Some 1, h', d')"
proof -
  obtain r h' d' where r: "dpipe_get (dr_heap example_run) (dr_pipe example_run) = Some (r, h', d')"
    "r = None \<longleftrightarrow> length (dr_held example_run) = length [1 :: nat]" "\<forall>b. r = Some b \<longrightarrow> b \<in> set [1]"
    using dpipe_get_available [OF _ example_start, of example_run] by auto
  then have "r = Some 1" by (cases r) (auto simp: example_run_def)
  then show ?thesis using r(1) by (simp add: example_run_def)
qed

section \<open>Creating and destroying a pipe\<close>

lemma free_list_all:
  assumes "plist h p xs" and "distinct xs" and "length xs \<le> n"
  shows "free_list n h p = Some (\<lambda>x. if x \<in> set xs then None else h x)"
  using assms
proof (induction xs arbitrary: h p n)
  case Nil
  then show ?case by (cases n) simp_all
next
  case (Cons a xs)
  then obtain x m where x: "h a = Some x" "plist h (buf_next x) xs" "p = Some a" and n: "n = Suc m"
    by (cases n) auto
  have "free_list m (h(a := None)) (buf_next x) = Some (\<lambda>y. if y \<in> set xs then None else (h(a := None)) y)"
    using Cons.prems x n by (intro Cons.IH) (simp_all del: fun_upd_apply)
  then show ?case using x n by (auto simp: fun_eq_iff)
qed

definition buf_aligned :: "dpipe_buffer \<Rightarrow> bool" where
  "buf_aligned b \<longleftrightarrow> 16 dvd buf_pointer b \<and> buf_internal b < buf_pointer b \<and> buf_pointer b \<le> buf_internal b + 16"

lemma dpipe_alloc_frames:
  assumes "dpipe_alloc n balloc malloc sz i h d = (ok, h', d')"
    and "plist h (dp_in d) ins" and "distinct ins"
    and "\<And>j b. i \<le> j \<Longrightarrow> balloc j = Some b \<Longrightarrow> h b = None"
    and "\<And>j k b. balloc j = Some b \<Longrightarrow> balloc k = Some b \<Longrightarrow> j = k"
  shows "\<exists>new. plist h' (dp_in d') (new @ ins) \<and> distinct (new @ ins) \<and>
    (\<forall>x. x \<notin> set new \<longrightarrow> h' x = h x) \<and> (\<forall>x\<in>set new. h x = None \<and> (\<exists>b. h' x = Some b \<and> buf_aligned b)) \<and>
    length new \<le> n \<and> (ok \<longrightarrow> length new = n) \<and>
    d' = d\<lparr>dp_in := dp_in d', dp_in_count := dp_in_count d + int (length new)\<rparr>"
  using assms(1-4)
proof (induction n arbitrary: i h d ins)
  case 0
  then show ?case by (intro exI [of _ "[]"]) simp
next
  case (Suc n)
  show ?case
  proof (cases "balloc i = None \<or> ga_malloc (malloc i) sz = None")
    case True
    then have "ok = False \<and> h' = h \<and> d' = d" using Suc.prems(1) by (auto split: option.splits)
    then show ?thesis using Suc.prems(2,3) by (intro exI [of _ "[]"]) simp
  next
    case False
    then obtain b t where bt: "balloc i = Some b" "ga_malloc (malloc i) sz = Some t" by auto
    obtain internal off where b: "balloc i = Some b" "ga_malloc (malloc i) sz = Some (internal, off)"
      using bt by (cases t) auto
    let ?b = "\<lparr>buf_pointer = internal + off, buf_internal = internal, buf_offset = off, buf_next = dp_in d\<rparr>"
    let ?h = "h(b \<mapsto> ?b)" and ?d = "d\<lparr>dp_in := Some b, dp_in_count := dp_in_count d + 1\<rparr>"
    have hb: "h b = None" using Suc.prems(4) b(1) by blast
    then have nb: "b \<notin> set ins" using plist_alloc [OF Suc.prems(2)] by blast
    have al: "buf_aligned ?b" using ga_malloc_aligned [OF b(2)] by (simp add: buf_aligned_def)
    have "\<exists>new. plist h' (dp_in d') (new @ b # ins) \<and> distinct (new @ b # ins) \<and>
        (\<forall>x. x \<notin> set new \<longrightarrow> h' x = ?h x) \<and> (\<forall>x\<in>set new. ?h x = None \<and> (\<exists>b. h' x = Some b \<and> buf_aligned b)) \<and>
        length new \<le> n \<and> (ok \<longrightarrow> length new = n) \<and>
        d' = ?d\<lparr>dp_in := dp_in d', dp_in_count := dp_in_count ?d + int (length new)\<rparr>"
    proof (rule Suc.IH)
      show "dpipe_alloc n balloc malloc sz (Suc i) ?h ?d = (ok, h', d')"
        using Suc.prems(1) b by simp
      show "plist ?h (dp_in ?d) (b # ins)" using Suc.prems(2) nb by simp
      show "distinct (b # ins)" using nb Suc.prems(3) by simp
      show "?h b' = None" if "Suc i \<le> j" "balloc j = Some b'" for j b'
        using that Suc.prems(4) [of j b'] assms(5) [of j b' i] b(1) by auto
    qed
    then obtain new where new: "plist h' (dp_in d') (new @ b # ins)" "distinct (new @ b # ins)"
      "\<forall>x. x \<notin> set new \<longrightarrow> h' x = ?h x" "\<forall>x\<in>set new. ?h x = None \<and> (\<exists>b. h' x = Some b \<and> buf_aligned b)"
      "length new \<le> n" "ok \<longrightarrow> length new = n"
      "d' = ?d\<lparr>dp_in := dp_in d', dp_in_count := dp_in_count ?d + int (length new)\<rparr>" by blast
    have nn: "\<forall>x\<in>set new. h x = None" using new(4) by (auto split: if_splits)
    have hb': "h' b = Some ?b" using new(2,3) by auto
    show ?thesis
    proof (intro exI [of _ "new @ [b]"] conjI)
      show "\<forall>x\<in>set (new @ [b]). h x = None \<and> (\<exists>b. h' x = Some b \<and> buf_aligned b)"
        using new(4) nn hb hb' al by auto
      show "d' = d\<lparr>dp_in := dp_in d', dp_in_count := dp_in_count d + int (length (new @ [b]))\<rparr>"
        using new(7) by (simp add: add.assoc)
    qed (use new in auto)
  qed
qed

text \<open>The state before a pipe is created: the allocator gives fresh, different addresses.\<close>

definition alloc_fresh :: "(nat \<Rightarrow> nat option) \<Rightarrow> dpipe_sys \<Rightarrow> bool" where
  "alloc_fresh balloc s \<longleftrightarrow> (\<forall>j b. balloc j = Some b \<longrightarrow> ds_heap s b = None) \<and>
     (\<forall>j k b. balloc j = Some b \<longrightarrow> balloc k = Some b \<longrightarrow> j = k)"

lemma create_cases:
  assumes f: "alloc_fresh balloc s" and m: "smap_ok (dpipemap s)" and a: "ds_pipes s a = None"
    and c: "dpipe_create (Some a) True balloc malloc i (Some name) nframe sz s = Some (r, s')"
  shows "(r = None \<and> ds_heap s' = ds_heap s \<and> ds_pipes s' = ds_pipes s \<and>
      (\<forall>n. dpipe_lookup s' n = dpipe_lookup s n)) \<or>
    (r = Some a \<and> dpipe_lookup s name = None \<and> (\<exists>d frames. ds_pipes s' = (ds_pipes s)(a \<mapsto> d) \<and> dp_name d = name \<and>
       dpipe_rep (ds_heap s') d frames [] \<and> int (length frames) = nframe \<and>
       (\<forall>x. x \<notin> set frames \<longrightarrow> ds_heap s' x = ds_heap s x) \<and> (\<forall>x\<in>set frames. ds_heap s x = None) \<and>
       (\<forall>x\<in>set frames. \<exists>b. ds_heap s' x = Some b \<and> buf_aligned b) \<and>
       dpipemap s' = smap_put (dpipemap s) name a))"
proof (cases "i < 0 \<or> nframe \<le> 0 \<or> sz \<le> 0 \<or> dpipe_lookup s name \<noteq> None")
  case True
  then have "r = None \<and> s' = s" using c by (cases "dpipe_lookup s name") (simp_all add: dpipe_create_def split: if_splits)
  then show ?thesis by simp
next
  case False
  let ?d0 = "\<lparr>dp_channel_id = i, dp_name = name, dp_in = None, dp_out = None,
     dp_out_tail = None, dp_in_count = 0, dp_out_count = 0\<rparr>"
  obtain ok h d where al: "dpipe_alloc (nat nframe) balloc malloc sz 0 (ds_heap s) ?d0 = (ok, h, d)"
    by (metis prod_cases3)
  let ?s = "s\<lparr>ds_heap := h, ds_pipes := (ds_pipes s)(a \<mapsto> d)\<rparr>"
  obtain new where new: "plist h (dp_in d) new" "distinct new"
    "\<forall>x. x \<notin> set new \<longrightarrow> h x = ds_heap s x"
    "\<forall>x\<in>set new. ds_heap s x = None \<and> (\<exists>b. h x = Some b \<and> buf_aligned b)"
    "length new \<le> nat nframe" "ok \<longrightarrow> length new = nat nframe"
    "d = ?d0\<lparr>dp_in := dp_in d, dp_in_count := int (length new)\<rparr>"
    using dpipe_alloc_frames [OF al, of "[]"] f by (auto simp: alloc_fresh_def)
  have d: "dp_out d = None" "dp_name d = name" "dp_in_count d = int (length new)" "dp_out_tail d = None"
    "dp_out_count d = 0"
    by (subst new(7), simp)+
  show ?thesis
  proof (cases ok)
    case True
    have "dpipe_rep h d new []" using new(1,2) d by (simp add: dpipe_rep_def)
    moreover have "r = Some a \<and> s' = ?s\<lparr>dpipemap := smap_put (dpipemap ?s) name a\<rparr>"
      using c False al True by (simp add: dpipe_create_def Let_def)
    ultimately show ?thesis using new d True False
      by (intro disjI2 conjI exI [of _ d] exI [of _ new]) auto
  next
    case ok: False
    have "free_list (nat nframe) h (dp_in d) = Some (\<lambda>x. if x \<in> set new then None else h x)"
      using new by (intro free_list_all) auto
    moreover have "(\<lambda>x. if x \<in> set new then None else h x) = ds_heap s" using new(3,4) by auto
    moreover have "free_list k g None = Some g" for k g by (cases k) simp_all
    ultimately have "dpipe_destroy (nat nframe) ?s (Some a) =
        Some (0, ?s\<lparr>ds_heap := ds_heap s, ds_pipes := (ds_pipes ?s)(a := None),
                  dpipemap := smap_erase (dpipemap s) name\<rparr>)"
      by (simp add: dpipe_destroy_def d)
    then have "r = None \<and> s' = ?s\<lparr>ds_heap := ds_heap s, ds_pipes := (ds_pipes ?s)(a := None),
        dpipemap := smap_erase (dpipemap s) name\<rparr>"
      using c False al ok by (simp add: dpipe_create_def Let_def)
    then show ?thesis using a m False
      by (auto simp: dpipe_lookup_def smap_find_erase fun_upd_idem)
  qed
qed

lemma create_destroy:
  assumes f: "alloc_fresh balloc s" and m: "smap_ok (dpipemap s)" and a: "ds_pipes s a = None"
    and c: "dpipe_create (Some a) True balloc malloc i (Some name) nframe sz s = Some (r, s')"
  shows "(r = None \<and> ds_heap s' = ds_heap s \<and> ds_pipes s' = ds_pipes s \<and>
      (\<forall>n. dpipe_lookup s' n = dpipe_lookup s n)) \<or>
    (r = Some a \<and> dpipe_lookup s' name = Some a \<and>
     (\<exists>d frames. ds_pipes s' a = Some d \<and> dpipe_rep (ds_heap s') d frames [] \<and>
        int (length frames) = nframe \<and> (\<forall>x\<in>set frames. \<exists>b. ds_heap s' x = Some b \<and> buf_aligned b)) \<and>
     (\<exists>s2. dpipe_destroy (nat nframe) s' (Some a) = Some (0, s2) \<and> ds_heap s2 = ds_heap s \<and>
        ds_pipes s2 = ds_pipes s \<and> (\<forall>n. dpipe_lookup s2 n = dpipe_lookup s n)))"
  using create_cases [OF assms]
proof (elim disjE conjE exE)
  fix d frames
  assume r: "r = Some a" "dpipe_lookup s name = None" and p: "ds_pipes s' = (ds_pipes s)(a \<mapsto> d)" "dp_name d = name"
    and rep: "dpipe_rep (ds_heap s') d frames []" and n: "int (length frames) = nframe"
    and h: "\<forall>x. x \<notin> set frames \<longrightarrow> ds_heap s' x = ds_heap s x" "\<forall>x\<in>set frames. ds_heap s x = None"
    and al: "\<forall>x\<in>set frames. \<exists>b. ds_heap s' x = Some b \<and> buf_aligned b"
    and mp: "dpipemap s' = smap_put (dpipemap s) name a"
  have "free_list (nat nframe) (ds_heap s') (dp_in d) = Some (\<lambda>x. if x \<in> set frames then None else ds_heap s' x)"
    using rep n by (intro free_list_all) (auto simp: dpipe_rep_def)
  moreover have "(\<lambda>x. if x \<in> set frames then None else ds_heap s' x) = ds_heap s" using h by auto
  moreover have "free_list k g None = Some g" for k g by (cases k) simp_all
  moreover have "dp_out d = None" using rep by (simp add: dpipe_rep_def)
  ultimately have dst: "dpipe_destroy (nat nframe) s' (Some a) = Some (0, s'\<lparr>ds_heap := ds_heap s,
      ds_pipes := (ds_pipes s')(a := None), dpipemap := smap_erase (dpipemap s') name\<rparr>)"
    using p by (simp add: dpipe_destroy_def)
  have "(ds_pipes s')(a := None) = ds_pipes s" using p(1) a by auto
  moreover have "smap_find (smap_erase (dpipemap s') name) x = smap_find (dpipemap s) x" for x
    using sm.erase_put [OF m] r(2) mp by (simp add: dpipe_lookup_def)
  moreover have "dpipe_lookup s' name = Some a" using mp by (simp add: dpipe_lookup_def smap_find_put)
  ultimately show ?thesis
    using r dst p(1) rep n al by (intro disjI2) (auto simp: dpipe_lookup_def)
qed simp


definition empty_sys :: dpipe_sys where
  "empty_sys = \<lparr>ds_heap = (\<lambda>x. None), ds_pipes = (\<lambda>x. None), dpipemap = []\<rparr>"


end
