(* ===== verification/CtrlMsg.thy ===== *)
theory CtrlMsg
  imports GaPrelude
begin

text \<open>
  System control messages: \<open>core/ctrl-msg.cpp\<close> and \<open>core/ctrl-msg.h\<close>. A message lives in a
  byte buffer; its packed structures are read and written at their offsets, in the byte order
  of the machine (little-endian), and on the wire the fields are big-endian. The system
  header is 4 bytes (size, type, subtype), a network report 28, a generic message 128.
\<close>

definition rd16 :: "byte list \<Rightarrow> int \<Rightarrow> u16 option" where
  "rd16 buf off = map_option un16 (c_read buf off 2)"

definition rd32 :: "byte list \<Rightarrow> int \<Rightarrow> u32 option" where
  "rd32 buf off = map_option un32 (c_read buf off 4)"

definition wr16 :: "byte list \<Rightarrow> int \<Rightarrow> u16 \<Rightarrow> byte list option" where
  "wr16 buf off w = c_write buf off (le16 w)"

definition wr32 :: "byte list \<Rightarrow> int \<Rightarrow> u32 \<Rightarrow> byte list option" where
  "wr32 buf off w = c_write buf off (le32 w)"

definition CTRL_MSGTYPE_SYSTEM :: byte where "CTRL_MSGTYPE_SYSTEM = 0xfe"
definition CTRL_MSGSYS_SUBTYPE_MAX :: byte where "CTRL_MSGSYS_SUBTYPE_MAX = 2"

text \<open>The handler table: one entry per subtype, \<open>None\<close> for NULL.\<close>

type_synonym 'h ctrlsys_table = "'h option list"

definition ctrlsys_handler_list :: "'h ctrlsys_table" where
  "ctrlsys_handler_list = [None, None, None]"

definition ctrlsys_set_handler :: "'h ctrlsys_table \<Rightarrow> byte \<Rightarrow> 'h option \<Rightarrow> 'h option \<times> 'h ctrlsys_table" where
  "ctrlsys_set_handler tab subtype handler =
     (if subtype > CTRL_MSGSYS_SUBTYPE_MAX then (None, tab)
      else (tab ! unat subtype, tab[unat subtype := handler]))"

text \<open>The conversion of one 32-bit field in place.\<close>

definition swap32 :: "byte list \<Rightarrow> int \<Rightarrow> byte list option" where
  "swap32 buf off = do { w \<leftarrow> rd32 buf off; wr32 buf off (htonl w) }"

definition ctrlsys_ntoh :: "byte list \<Rightarrow> int \<Rightarrow> (int \<times> byte list) option" where
  "ctrlsys_ntoh buf off = do {
     sz \<leftarrow> rd16 buf off;
     buf \<leftarrow> wr16 buf off (ntohs sz);
     st \<leftarrow> c_get buf (off + 3);
     if st = 0 \<or> st = 1 then Some (0, buf)
     else if st = 2 then
       (if ntohs sz \<noteq> 28 then Some (-1, buf)
        else do {
          b1 \<leftarrow> swap32 buf (off + 4); b2 \<leftarrow> swap32 b1 (off + 8); b3 \<leftarrow> swap32 b2 (off + 12);
          b4 \<leftarrow> swap32 b3 (off + 16); b5 \<leftarrow> swap32 b4 (off + 20); b6 \<leftarrow> swap32 b5 (off + 24);
          Some (0, b6) })
     else Some (-1, buf) }"

text \<open>
  Handling the message at an offset of a buffer: the return value, the buffer, and the call of
  a handler with the message it sees. The pointer is never NULL here.
\<close>

definition ctrlsys_handle_message :: "'h ctrlsys_table \<Rightarrow> byte list \<Rightarrow> int \<Rightarrow> int \<Rightarrow>
    (int \<times> byte list \<times> ('h \<times> byte list) option) option" where
  "ctrlsys_handle_message tab buf off sz =
     (if sz < 4 then Some (0, buf, None)
      else do {
        ty \<leftarrow> c_get buf (off + 2);
        st \<leftarrow> c_get buf (off + 3);
        if ty \<noteq> CTRL_MSGTYPE_SYSTEM then Some (0, buf, None)
        else if st > CTRL_MSGSYS_SUBTYPE_MAX then Some (1, buf, None)
        else (case tab ! unat st of
            None \<Rightarrow> Some (1, buf, None)
          | Some h \<Rightarrow> do {
              (r, buf') \<leftarrow> ctrlsys_ntoh buf off;
              if r \<noteq> 0 then Some (1, buf', None)
              else Some (1, buf', Some (h, drop (nat off) buf')) }) })"

definition ctrlsys_netreport :: "byte list \<Rightarrow> u32 \<Rightarrow> u32 \<Rightarrow> u32 \<Rightarrow> u32 \<Rightarrow> u32 \<Rightarrow> u32 \<Rightarrow> byte list option" where
  "ctrlsys_netreport msg duration framecount pktcount pktloss bytecount capacity = do {
     m \<leftarrow> c_write msg 0 (replicate 28 0);
     m \<leftarrow> wr16 m 0 (htons 28);
     m \<leftarrow> c_write m 2 [CTRL_MSGTYPE_SYSTEM];
     m \<leftarrow> c_write m 3 [2];
     m \<leftarrow> wr32 m 4 (htonl duration);
     m \<leftarrow> wr32 m 8 (htonl framecount);
     m \<leftarrow> wr32 m 12 (htonl pktcount);
     m \<leftarrow> wr32 m 16 (htonl pktloss);
     m \<leftarrow> wr32 m 20 (htonl bytecount);
     wr32 m 24 (htonl capacity) }"

section \<open>Properties\<close>

lemma rd32_wr32:
  assumes "wr32 buf off w = Some buf'"
  shows "rd32 buf' off = Some w"
  using c_read_write_same [of buf off "le32 w" buf'] assms by (simp add: rd32_def wr32_def)

lemma rd32_wr32_other:
  assumes "wr32 buf off w = Some buf'" and "o2 + 4 \<le> off \<or> off + 4 \<le> o2"
  shows "rd32 buf' o2 = rd32 buf o2"
  using c_read_write_before [of buf off "le32 w" buf' o2 4] c_read_write_after [of buf off "le32 w" buf' o2 4]
    assms by (auto simp: rd32_def wr32_def)

lemma wr32_ok: "0 \<le> off \<Longrightarrow> off + 4 \<le> int (length buf) \<Longrightarrow> \<exists>b. wr32 buf off w = Some b \<and> length b = length buf"
  using c_write_defined [of off "le32 w" buf] by (simp add: wr32_def)

definition netreport_bytes :: "u32 list \<Rightarrow> byte list" where
  "netreport_bytes ws = le16 (htons 28) @ [0xfe, 2] @ concat (map le32 ws)"

lemma length_netreport [simp]: "length (netreport_bytes [a, b, c, d, e, f]) = 28"
  by (simp add: netreport_bytes_def)

lemma netreport_build:
  assumes "28 \<le> length msg"
  shows "ctrlsys_netreport msg a b c d e f =
    Some (netreport_bytes (map htonl [a, b, c, d, e, f]) @ drop 28 msg)"
proof -
  define post where "post = drop 28 msg"
  have m: "c_write msg 0 (replicate 28 0) = Some (replicate 28 0 @ post)"
    using assms by (simp add: c_write_def post_def)
  have r: "replicate 28 (0 :: byte) = [0, 0, 0, 0, 0, 0, 0, 0, 0, 0, 0, 0, 0, 0,
      0, 0, 0, 0, 0, 0, 0, 0, 0, 0, 0, 0, 0, 0]"
    by (simp add: numeral_eq_Suc)
  show ?thesis
    unfolding ctrlsys_netreport_def m r netreport_bytes_def wr16_def wr32_def post_def [symmetric]
    using assms
    by (simp add: c_write_def CTRL_MSGTYPE_SYSTEM_def le16_def le32_def)
      (simp add: post_def numeral_eq_Suc)
qed

lemma swap32_at:
  assumes "off = int (length pre)"
  shows "swap32 (pre @ le32 w @ post) off = Some (pre @ le32 (htonl w) @ post)"
proof -
  have "c_read (pre @ le32 w @ post) off 4 = Some (le32 w)"
    using assms by (intro c_read_append_at) simp_all
  then show ?thesis using assms by (simp add: swap32_def rd32_def wr32_def c_write_def)
qed

text \<open>The message as the handler sees it: all fields in host order.\<close>

definition netreport_host :: "u32 list \<Rightarrow> byte list" where
  "netreport_host ws = le16 28 @ [0xfe, 2] @ concat (map le32 ws)"

lemma ntoh_netreport:
  assumes off: "off = int (length pre)"
  shows "ctrlsys_ntoh (pre @ netreport_bytes (map htonl [a, b, c, d, e, f]) @ post) off =
    Some (0, pre @ netreport_host [a, b, c, d, e, f] @ post)"
proof -
  define rest where "rest = concat (map (le32 \<circ> htonl) [a, b, c, d, e, f]) @ post"
  have buf: "pre @ netreport_bytes (map htonl [a, b, c, d, e, f]) @ post
      = pre @ le16 (htons 28) @ [0xfe, 2] @ rest"
    by (simp add: netreport_bytes_def rest_def)
  have r: "rd16 (pre @ le16 (htons 28) @ [0xfe, 2] @ rest) off = Some (htons 28)"
    using c_read_append_at [of off pre 2 "le16 (htons 28)"] off by (simp add: rd16_def)
  have w: "wr16 (pre @ le16 (htons 28) @ [0xfe, 2] @ rest) off 28 = Some (pre @ le16 28 @ [0xfe, 2] @ rest)"
    using off by (simp add: wr16_def c_write_def)
  have g: "c_get (pre @ le16 28 @ [0xfe, 2] @ rest) (off + 3) = Some 2"
    using c_get_at [of "off + 3" "pre @ le16 28 @ [0xfe]" 2 rest] off by simp
  define h where "h = pre @ le16 28 @ [0xfe, 2]"
  have hl: "off + 4 = int (length h)" using off by (simp add: h_def)
  have s: "swap32 (h @ x @ le32 (htonl w) @ y) (off + 4 + int (length x)) = Some (h @ x @ le32 w @ y)" for x w y
    using swap32_at [of "off + 4 + int (length x)" "h @ x" "htonl w" y] hl by simp
  have s1: "swap32 (h @ rest) (off + 4) = Some (h @ le32 a @ concat (map (le32 \<circ> htonl) [b, c, d, e, f]) @ post)"
    using s [of "[]" a "concat (map (le32 \<circ> htonl) [b, c, d, e, f]) @ post"] by (simp add: rest_def)
  have s2: "swap32 (h @ le32 a @ concat (map (le32 \<circ> htonl) [b, c, d, e, f]) @ post) (off + 8) =
      Some (h @ le32 a @ le32 b @ concat (map (le32 \<circ> htonl) [c, d, e, f]) @ post)"
    using s [of "le32 a" b "concat (map (le32 \<circ> htonl) [c, d, e, f]) @ post"] by (simp add: add.commute)
  have s3: "swap32 (h @ le32 a @ le32 b @ concat (map (le32 \<circ> htonl) [c, d, e, f]) @ post) (off + 12) =
      Some (h @ le32 a @ le32 b @ le32 c @ concat (map (le32 \<circ> htonl) [d, e, f]) @ post)"
    using s [of "le32 a @ le32 b" c "concat (map (le32 \<circ> htonl) [d, e, f]) @ post"] by (simp add: add.commute)
  have s4: "swap32 (h @ le32 a @ le32 b @ le32 c @ concat (map (le32 \<circ> htonl) [d, e, f]) @ post) (off + 16) =
      Some (h @ le32 a @ le32 b @ le32 c @ le32 d @ concat (map (le32 \<circ> htonl) [e, f]) @ post)"
    using s [of "le32 a @ le32 b @ le32 c" d "concat (map (le32 \<circ> htonl) [e, f]) @ post"] by (simp add: add.commute)
  have s5: "swap32 (h @ le32 a @ le32 b @ le32 c @ le32 d @ concat (map (le32 \<circ> htonl) [e, f]) @ post) (off + 20) =
      Some (h @ le32 a @ le32 b @ le32 c @ le32 d @ le32 e @ le32 (htonl f) @ post)"
    using s [of "le32 a @ le32 b @ le32 c @ le32 d" e "le32 (htonl f) @ post"] by (simp add: add.commute)
  have s6: "swap32 (h @ le32 a @ le32 b @ le32 c @ le32 d @ le32 e @ le32 (htonl f) @ post) (off + 24) =
      Some (h @ le32 a @ le32 b @ le32 c @ le32 d @ le32 e @ le32 f @ post)"
    using s [of "le32 a @ le32 b @ le32 c @ le32 d @ le32 e" f post] by (simp add: add.commute)
  have hr: "pre @ le16 28 @ [0xfe, 2] @ rest = h @ rest" by (simp add: h_def)
  have fin: "h @ le32 a @ le32 b @ le32 c @ le32 d @ le32 e @ le32 f @ post
      = pre @ netreport_host [a, b, c, d, e, f] @ post" by (simp add: h_def netreport_host_def)
  show ?thesis
    unfolding ctrlsys_ntoh_def buf r bind.bind_lunit htons_htons w g unfolding hr
    by (simp only: bind.bind_lunit s1 s2 s3 s4 s5 s6 fin) simp
qed

lemma netreport_handled:
  assumes "tab' ! 2 = Some h"
  shows "ctrlsys_handle_message tab' (pre @ netreport_bytes (map htonl [a, b, c, d, e, f]) @ post) (int (length pre)) 28 =
    Some (1, pre @ netreport_host [a, b, c, d, e, f] @ post, Some (h, netreport_host [a, b, c, d, e, f] @ post))"
proof -
  let ?n = "netreport_bytes (map htonl [a, b, c, d, e, f])"
  obtain r where n: "?n = le16 (htons 28) @ [0xfe, 2] @ r" by (simp add: netreport_bytes_def)
  have g: "c_get (pre @ ?n @ post) (int (length pre) + 2) = Some 0xfe"
    "c_get (pre @ ?n @ post) (int (length pre) + 3) = Some 2"
    using c_get_at [of "int (length pre) + 2" "pre @ le16 (htons 28)" "0xfe" "2 # r @ post"]
      c_get_at [of "int (length pre) + 3" "pre @ le16 (htons 28) @ [0xfe]" 2 "r @ post"]
    unfolding n by simp_all
  show ?thesis
    using ntoh_netreport [of "int (length pre)" pre a b c d e f post] g assms
    by (simp add: ctrlsys_handle_message_def CTRL_MSGTYPE_SYSTEM_def CTRL_MSGSYS_SUBTYPE_MAX_def)
qed

lemma ctrlsys_set_report_handler:
  "ctrlsys_set_handler tab 2 (Some h) = (old, tab') \<Longrightarrow> length tab = 3 \<Longrightarrow> tab' ! 2 = Some h"
  by (auto simp: ctrlsys_set_handler_def CTRL_MSGSYS_SUBTYPE_MAX_def)

text \<open>A network report built by a client and handled by a server reaches the registered
  handler with exactly the numbers it was built from, in host order, wherever the message
  lies in the receive buffer; the bytes around it are not touched.\<close>

theorem netreport_roundtrip:
  assumes "ctrlsys_netreport msg dur fc pc pl bc cap = Some m" and "28 \<le> length msg"
    and "ctrlsys_set_handler tab 2 (Some h) = (old, tab')" and "length tab = 3"
  shows "ctrlsys_handle_message tab' (pre @ m @ post) (int (length pre)) 28 =
    Some (1, pre @ netreport_host [dur, fc, pc, pl, bc, cap] @ drop 28 m @ post,
      Some (h, netreport_host [dur, fc, pc, pl, bc, cap] @ drop 28 m @ post))"
proof -
  have m: "m = netreport_bytes (map htonl [dur, fc, pc, pl, bc, cap]) @ drop 28 msg" using assms(1) netreport_build [OF assms(2)] by simp
  then have d: "drop 28 m = drop 28 msg" by simp
  show ?thesis using netreport_handled [OF ctrlsys_set_report_handler [OF assms(3,4)], where pre = pre and post = "drop 28 msg @ post"]
    unfolding d unfolding m by simp
qed

theorem netreport_roundtrip_witness:
  "\<exists>m. ctrlsys_netreport (replicate 128 0) 1 2 3 4 5 6 = Some m \<and>
    ctrlsys_handle_message [None, None, Some ()] (m @ []) 0 28 =
      Some (1, netreport_host [1, 2, 3, 4, 5, 6] @ drop 28 m, Some ((), netreport_host [1, 2, 3, 4, 5, 6] @ drop 28 m))"
proof -
  obtain m where m: "ctrlsys_netreport (replicate 128 0) 1 2 3 4 5 6 = Some m"
    using netreport_build [of "replicate 128 0" 1 2 3 4 5 6] by simp
  have s: "ctrlsys_set_handler [None, None, None] 2 (Some ()) = (None, [None, None, Some ()])"
    by code_simp
  from netreport_roundtrip [OF m _ s, of "[]" "[]"] m show ?thesis by simp
qed

end
