(* ===== verification/Fifo.thy ===== *)
theory Fifo
  imports GaPrelude
begin

text \<open>
  The interface of a bounded first-in-first-out queue, shared by the controller message
  queue, the encoder packet queue and the frame pipe: an enqueue that reports whether the
  element was accepted, a front, and a removal of the front. The locale proves once that
  over any sequence of operations the elements delivered are, in order, the elements
  accepted.
\<close>

datatype 'a fifo_op = Enq 'a | Deq

text \<open>
  Running a sequence of operations: the final queue, the elements accepted and the
  elements taken out, both in order.
\<close>

fun fifo_run :: "('q \<Rightarrow> 'a \<Rightarrow> bool \<times> 'q) \<Rightarrow> ('q \<Rightarrow> 'a option) \<Rightarrow> ('q \<Rightarrow> 'q) \<Rightarrow> 'q \<Rightarrow>
    'a fifo_op list \<Rightarrow> 'q \<times> 'a list \<times> 'a list" where
  "fifo_run enq front deq q [] = (q, [], [])"
| "fifo_run enq front deq q (Enq x # ops) =
     (let (ok, q1) = enq q x; (q2, acc, out) = fifo_run enq front deq q1 ops
      in (q2, (if ok then x # acc else acc), out))"
| "fifo_run enq front deq q (Deq # ops) =
     (let (q2, acc, out) = fifo_run enq front deq (deq q) ops
      in (q2, acc, (case front q of None \<Rightarrow> out | Some x \<Rightarrow> x # out)))"

fun ops_ok :: "('a \<Rightarrow> bool) \<Rightarrow> 'a fifo_op list \<Rightarrow> bool" where
  "ops_ok P [] = True"
| "ops_ok P (Enq x # ops) = (P x \<and> ops_ok P ops)"
| "ops_ok P (Deq # ops) = ops_ok P ops"

locale bounded_fifo =
  fixes enq :: "'q \<Rightarrow> 'a \<Rightarrow> bool \<times> 'q"
    and front :: "'q \<Rightarrow> 'a option"
    and deq :: "'q \<Rightarrow> 'q"
    and items :: "'q \<Rightarrow> 'a list"
    and invar :: "'q \<Rightarrow> bool"
    and valid :: "'a \<Rightarrow> bool"
  assumes enq_invar: "invar q \<Longrightarrow> valid x \<Longrightarrow> invar (snd (enq q x))"
    and enq_items: "invar q \<Longrightarrow> valid x \<Longrightarrow>
      items (snd (enq q x)) = (if fst (enq q x) then items q @ [x] else items q)"
    and front_items: "invar q \<Longrightarrow> front q = (case items q of [] \<Rightarrow> None | x # _ \<Rightarrow> Some x)"
    and deq_invar: "invar q \<Longrightarrow> invar (deq q)"
    and deq_items: "invar q \<Longrightarrow> items (deq q) = tl (items q)"
begin

lemma run_fifo:
  assumes "invar q" and "ops_ok valid ops"
    and "fifo_run enq front deq q ops = (q', acc, out)"
  shows "invar q' \<and> items q @ acc = out @ items q'"
  using assms
proof (induction ops arbitrary: q q' acc out)
  case Nil
  then show ?case by simp
next
  case (Cons op ops)
  show ?case
  proof (cases op)
    case (Enq x)
    obtain ok q1 where e: "enq q x = (ok, q1)" by fastforce
    obtain q2 acc' out' where r: "fifo_run enq front deq q1 ops = (q2, acc', out')"
      by (cases "fifo_run enq front deq q1 ops") auto
    have v: "valid x" "ops_ok valid ops" using Cons.prems(2) Enq by auto
    have i1: "invar q1" and it: "items q1 = (if ok then items q @ [x] else items q)"
      using enq_invar [OF Cons.prems(1) v(1)] enq_items [OF Cons.prems(1) v(1)] e by auto
    have "invar q2 \<and> items q1 @ acc' = out' @ items q2"
      by (rule Cons.IH [OF i1 v(2) r])
    then show ?thesis using Cons.prems(3) Enq e r it by (auto split: if_splits)
  next
    case Deq
    obtain q2 acc' out' where r: "fifo_run enq front deq (deq q) ops = (q2, acc', out')"
      by (cases "fifo_run enq front deq (deq q) ops") auto
    have v: "ops_ok valid ops" using Cons.prems(2) Deq by auto
    have "invar q2 \<and> items (deq q) @ acc' = out' @ items q2"
      by (rule Cons.IH [OF deq_invar [OF Cons.prems(1)] v r])
    then show ?thesis
      using Cons.prems(1,3) Deq r deq_items [OF Cons.prems(1)] front_items [OF Cons.prems(1)]
      by (cases "items q") auto
  qed
qed

end

end
