(* ===== verification/CtrlQueue.thy ===== *)
theory CtrlQueue
  imports CtrlMsg Fifo
begin

text \<open>
  The controller message queue of \<open>core/controller.cpp\<close> (\<open>ctrl_queue_*\<close> and
  \<open>ctrl_server_readnext\<close>): a byte buffer cut into units of equal size, used as a ring. A unit
  holds a \<open>struct queuemsg\<close>: the size in two bytes, then the message. \<open>None\<close> is an access
  outside the buffer. The abstract queue is the list of messages from head to tail.
\<close>

section \<open>Operations\<close>

record ctrl_queue =
  qhead :: int
  qtail :: int
  qsize :: int
  qunit :: int
  qbuffer :: "byte list option"

text \<open>\<open>malloc_ok\<close> tells whether the buffer can be allocated; a unit size of 0 divides by zero.\<close>

definition ctrl_queue_init :: "bool \<Rightarrow> int \<Rightarrow> int \<Rightarrow> ctrl_queue \<Rightarrow> (int \<times> ctrl_queue) option" where
  "ctrl_queue_init malloc_ok sz maxunit q =
     (let u = maxunit + 4 in
      if u = 0 then None
      else let n = sz - sz smod u;
               q' = q\<lparr>qunit := u, qsize := n, qhead := 0, qtail := 0\<rparr>
           in if malloc_ok then Some (0, q'\<lparr>qbuffer := Some (replicate (nat n) 0)\<rparr>)
              else Some (-1, q'\<lparr>qbuffer := None\<rparr>))"

definition ctrl_queue_free :: "ctrl_queue \<Rightarrow> ctrl_queue" where
  "ctrl_queue_free q = q\<lparr>qbuffer := None, qhead := 0, qtail := 0, qsize := 0\<rparr>"

text \<open>The offset of the message at the head, or \<open>None\<close> for NULL.\<close>

definition ctrl_queue_read_msg :: "ctrl_queue \<Rightarrow> int option" where
  "ctrl_queue_read_msg q =
     (if qbuffer q = None then None else if qtail q = qhead q then None else Some (qhead q))"

definition ctrl_queue_release_msg :: "ctrl_queue \<Rightarrow> ctrl_queue" where
  "ctrl_queue_release_msg q =
     (if qbuffer q = None then q
      else if qhead q = qtail q then q
      else let h = qhead q + qunit q in q\<lparr>qhead := (if h = qsize q then 0 else h)\<rparr>)"

text \<open>The size check compares unsigned 32-bit numbers.\<close>

definition ctrl_queue_write_msg :: "ctrl_queue \<Rightarrow> byte list \<Rightarrow> int \<Rightarrow> (int \<times> ctrl_queue) option" where
  "ctrl_queue_write_msg q msg msgsize =
     (if (msgsize + 4) mod 2 ^ 32 > qunit q mod 2 ^ 32 then Some (0, q)
      else (case qbuffer q of
          None \<Rightarrow> Some (0, q)
        | Some buf \<Rightarrow>
            (let n = qtail q + qunit q; nextpos = (if n = qsize q then 0 else n)
             in if nextpos = qhead q then Some (0, q)
                else do {
                  b1 \<leftarrow> c_write buf (qtail q) (le16 (to_u16 msgsize));
                  m \<leftarrow> (if msgsize > 0 then c_read msg 0 msgsize else Some []);
                  b2 \<leftarrow> c_write b1 (qtail q + 2) m;
                  Some (msgsize, q\<lparr>qbuffer := Some b2, qtail := nextpos\<rparr>) })))"

definition ctrl_queue_clear :: "ctrl_queue \<Rightarrow> ctrl_queue" where
  "ctrl_queue_clear q = q\<lparr>qhead := 0, qtail := 0\<rparr>"

text \<open>The message stored at an offset.\<close>

definition queuemsg_at :: "byte list \<Rightarrow> int \<Rightarrow> byte list option" where
  "queuemsg_at buf off = do {
     sz \<leftarrow> rd16 buf off;
     c_read buf (off + 2) (uint sz) }"

text \<open>
  One pass of \<open>ctrl_server_readnext\<close> into a buffer of \<open>msglen\<close> bytes: the return value and the
  bytes copied; the inner \<open>None\<close> when the queue is empty and the caller waits.
\<close>

definition ctrl_server_readnext :: "ctrl_queue \<Rightarrow> int \<Rightarrow> ((int \<times> byte list) option \<times> ctrl_queue) option" where
  "ctrl_server_readnext q msglen = (case (qbuffer q, ctrl_queue_read_msg q) of
       (Some buf, Some off) \<Rightarrow> do {
         sz \<leftarrow> rd16 buf off;
         r \<leftarrow> (if uint sz > msglen then Some (-1, [])
              else do { m \<leftarrow> queuemsg_at buf off; Some (uint sz, m) });
         Some (Some r, ctrl_queue_release_msg q) }
     | _ \<Rightarrow> Some (None, q))"

section \<open>The abstract queue\<close>

text \<open>
  The queue holds the messages \<open>ms\<close>: a buffer of \<open>n\<close> units of \<open>u\<close> bytes, the head at unit \<open>h\<close>,
  the messages in the units from there on, the tail after them.
\<close>

definition ctrlq_rep :: "nat \<Rightarrow> nat \<Rightarrow> nat \<Rightarrow> ctrl_queue \<Rightarrow> byte list list \<Rightarrow> bool" where
  "ctrlq_rep u n h q ms \<longleftrightarrow> 4 \<le> u \<and> u < 65540 \<and> 2 \<le> n \<and> h < n \<and> length ms < n \<and>
     qunit q = int u \<and> qsize q = int (u * n) \<and> qhead q = int (u * h) \<and>
     qtail q = int (u * ((h + length ms) mod n)) \<and>
     (\<exists>buf. qbuffer q = Some buf \<and> length buf = u * n \<and>
        (\<forall>i<length ms. length (ms ! i) + 4 \<le> u \<and>
           queuemsg_at buf (int (u * ((h + i) mod n))) = Some (ms ! i)))"

definition ctrlq_items :: "ctrl_queue \<Rightarrow> byte list list" where
  "ctrlq_items q =
     (let u = nat (qunit q); n = nat (qsize q) div u; h = nat (qhead q) div u; t = nat (qtail q) div u
      in map (\<lambda>i. the (queuemsg_at (the (qbuffer q)) (int (u * ((h + i) mod n))))) [0..<(t + n - h) mod n])"

definition ctrlq_ok :: "ctrl_queue \<Rightarrow> bool" where
  "ctrlq_ok q \<longleftrightarrow> (\<exists>u n h ms. ctrlq_rep u n h q ms)"

lemma ring_count:
  fixes h k n :: nat
  assumes "h < n" and "k < n"
  shows "((h + k) mod n + n - h) mod n = k"
proof (cases "h + k < n")
  case True
  then have "(h + k) mod n = h + k" by simp
  moreover have "h + k + n - h = k + n" by simp
  ultimately show ?thesis using assms(2) by simp
next
  case False
  then have "(h + k) mod n = h + k - n" using assms by (simp add: mod_if)
  then show ?thesis using assms False by simp
qed

lemma ring_inj: "(h + i) mod n = (h + j) mod n \<Longrightarrow> i < n \<Longrightarrow> j < n \<Longrightarrow> h < n \<Longrightarrow> i = (j::nat)"
  by (metis ring_count)

lemma rep_items:
  assumes "ctrlq_rep u n h q ms"
  shows "ctrlq_items q = ms"
proof -
  have b: "4 \<le> u" "h < n" "length ms < n" "nat (qunit q) = u" "nat (qsize q) = u * n"
    "nat (qhead q) = u * h" "nat (qtail q) = u * ((h + length ms) mod n)"
    using assms unfolding ctrlq_rep_def by (simp_all add: nat_mult_distrib)
  obtain buf where buf: "qbuffer q = Some buf"
    "\<forall>i<length ms. queuemsg_at buf (int (u * ((h + i) mod n))) = Some (ms ! i)"
    using assms unfolding ctrlq_rep_def by blast
  have d: "u * x div u = x" for x using b(1) by simp
  show ?thesis
    unfolding ctrlq_items_def Let_def b d
    using ring_count [OF b(2,3)] buf by (intro nth_equalityI) simp_all
qed

lemma queuemsg_at_write:
  assumes "length m < 65536" and "0 \<le> off" and "off + 2 + int (length m) \<le> int (length buf)"
  shows "\<exists>b1 b2. c_write buf off (le16 (to_u16 (int (length m)))) = Some b1 \<and>
    c_write b1 (off + 2) m = Some b2 \<and> length b2 = length buf \<and> queuemsg_at b2 off = Some m \<and>
    (\<forall>o2 k. o2 + k \<le> off \<or> off + 2 + int (length m) \<le> o2 \<longrightarrow> c_read b2 o2 k = c_read buf o2 k)"
proof -
  obtain b1 where b1: "c_write buf off (le16 (to_u16 (int (length m)))) = Some b1" "length b1 = length buf"
    using c_write_defined [of off "le16 (to_u16 (int (length m)))" buf] assms by auto
  obtain b2 where b2: "c_write b1 (off + 2) m = Some b2" "length b2 = length b1"
    using c_write_defined [of "off + 2" m b1] assms b1 by auto
  have "c_read b2 off 2 = Some (le16 (to_u16 (int (length m))))"
    using c_read_write_before [OF b2(1), of off 2] c_read_write_same [OF b1(1)] by simp
  then have sz: "rd16 b2 off = Some (to_u16 (int (length m)))" by (simp add: rd16_def)
  have "uint (to_u16 (int (length m))) = int (length m)"
    using assms(1) by (simp add: to_u16_def unsigned_of_nat take_bit_nat_eq_self)
  then have q: "queuemsg_at b2 off = Some m"
    using sz c_read_write_same [OF b2(1)] by (simp add: queuemsg_at_def)
  have "c_read b2 o2 k = c_read buf o2 k" if "o2 + k \<le> off \<or> off + 2 + int (length m) \<le> o2" for o2 k
    using that c_read_write_disjoint [OF b2(1), of o2 k] c_read_write_disjoint [OF b1(1), of o2 k] by auto
  then show ?thesis using b1 b2 q by auto
qed

lemma queuemsg_at_frame:
  assumes "queuemsg_at buf o1 = Some m"
    and "\<And>o2 k. o1 \<le> o2 \<Longrightarrow> o2 + k \<le> o1 + 2 + int (length m) \<Longrightarrow> c_read b2 o2 k = c_read buf o2 k"
  shows "queuemsg_at b2 o1 = Some m"
proof -
  obtain sz where sz: "rd16 buf o1 = Some sz" "c_read buf (o1 + 2) (uint sz) = Some m"
    using assms(1) by (auto simp: queuemsg_at_def)
  have "int (length m) = uint sz" using c_read_SomeD [OF sz(2)] .
  then have "c_read b2 o1 2 = c_read buf o1 2" "c_read b2 (o1 + 2) (uint sz) = c_read buf (o1 + 2) (uint sz)"
    using assms(2) by auto
  then show ?thesis using sz by (auto simp: queuemsg_at_def rd16_def)
qed

text \<open>Writing on a queue that holds \<open>ms\<close>.\<close>

lemma write_rep:
  assumes r: "ctrlq_rep u n h q ms" and m: "0 < length m" "int (length m) < 2 ^ 32 - 4"
  shows "if length m + 4 \<le> u \<and> length ms + 1 < n
    then \<exists>q'. ctrl_queue_write_msg q m (int (length m)) = Some (int (length m), q') \<and>
      ctrlq_rep u n h q' (ms @ [m])
    else ctrl_queue_write_msg q m (int (length m)) = Some (0, q)"
proof -
  have b: "4 \<le> u" "u < 65540" "2 \<le> n" "h < n" "length ms < n" "qunit q = int u" "qsize q = int (u * n)"
    "qhead q = int (u * h)" "qtail q = int (u * ((h + length ms) mod n))"
    using r unfolding ctrlq_rep_def by simp_all
  obtain buf where buf: "qbuffer q = Some buf" "length buf = u * n"
    "\<forall>i<length ms. length (ms ! i) + 4 \<le> u \<and> queuemsg_at buf (int (u * ((h + i) mod n))) = Some (ms ! i)"
    using r unfolding ctrlq_rep_def by blast
  let ?t = "(h + length ms) mod n"
  have sz: "(int (length m) + 4) mod 2 ^ 32 > qunit q mod 2 ^ 32 \<longleftrightarrow> \<not> length m + 4 \<le> u"
    using m b(2,6) by auto
  have t: "?t < n" using b(3) by simp
  have nx: "(if qtail q + qunit q = qsize q then 0 else qtail q + qunit q) = int (u * ((h + (length ms + 1)) mod n))"
  proof -
    have e: "qtail q + qunit q = int (u * (?t + 1))" using b by (simp add: algebra_simps)
    have "(qtail q + qunit q = qsize q) = (?t + 1 = n)"
      unfolding e b(7) using b(1) by (metis mult_cancel1 not_numeral_le_zero of_nat_eq_iff)
    moreover have "(h + (length ms + 1)) mod n = (if ?t + 1 = n then 0 else ?t + 1)"
      by (metis Suc_eq_plus1 add.assoc mod_Suc)
    ultimately show ?thesis unfolding e by (simp add: algebra_simps)
  qed
  have full: "int (u * ((h + (length ms + 1)) mod n)) = qhead q \<longleftrightarrow> \<not> length ms + 1 < n"
  proof -
    have "(h + (length ms + 1)) mod n = h \<longleftrightarrow> \<not> length ms + 1 < n"
    proof (cases "length ms + 1 < n")
      case True
      then show ?thesis using ring_inj [of h "length ms + 1" n 0] b by auto
    next
      case False
      then have "length ms + 1 = n" using b(5) by linarith
      then show ?thesis using b(4) by simp
    qed
    then show ?thesis unfolding b(8) using b(1) by (metis mult_cancel1 not_numeral_le_zero of_nat_eq_iff)
  qed
  show ?thesis
  proof (cases "length m + 4 \<le> u \<and> length ms + 1 < n")
    case False
    then show ?thesis
      using sz nx full buf(1) by (auto simp: ctrl_queue_write_msg_def Let_def)
  next
    case True
    have "u * ?t + u \<le> u * n" using t by (metis Suc_leI mult_Suc_right mult_le_mono2 add.commute)
    then have lt: "int (u * ?t) + 2 + int (length m) \<le> int (length buf)" using True buf(2) by linarith
    have l16: "length m < 65536" using True b(2) by linarith
    obtain b1 b2 where w: "c_write buf (int (u * ?t)) (le16 (to_u16 (int (length m)))) = Some b1"
      "c_write b1 (int (u * ?t) + 2) m = Some b2" "length b2 = length buf" "queuemsg_at b2 (int (u * ?t)) = Some m"
      "\<forall>o2 k. o2 + k \<le> int (u * ?t) \<or> int (u * ?t) + 2 + int (length m) \<le> o2 \<longrightarrow> c_read b2 o2 k = c_read buf o2 k"
      using queuemsg_at_write [OF l16 _ lt] by auto
    let ?q = "q\<lparr>qbuffer := Some b2, qtail := int (u * ((h + (length ms + 1)) mod n))\<rparr>"
    have rd: "c_read m 0 (int (length m)) = Some m" by (simp add: c_read_def)
    have wq: "ctrl_queue_write_msg q m (int (length m)) = Some (int (length m), ?q)"
      using sz True full buf(1) w(1,2) rd m(1)
      unfolding ctrl_queue_write_msg_def Let_def nx by (simp add: b(9))
    have keep: "queuemsg_at b2 (int (u * ((h + i) mod n))) = Some (ms ! i)" if i: "i < length ms" for i
    proof (rule queuemsg_at_frame)
      let ?s = "(h + i) mod n"
      show "queuemsg_at buf (int (u * ?s)) = Some (ms ! i)" using buf(3) i by blast
      fix o2 k assume o: "int (u * ?s) \<le> o2" "o2 + k \<le> int (u * ?s) + 2 + int (length (ms ! i))"
      have li: "length (ms ! i) + 4 \<le> u" using buf(3) i by blast
      have "?s \<noteq> ?t" using ring_inj [of h i n "length ms"] i b by auto
      then have "u * ?s + u \<le> u * ?t \<or> u * ?t + u \<le> u * ?s"
        by (metis Suc_leI add.commute linorder_neqE_nat mult_Suc_right mult_le_mono2)
      then have "o2 + k \<le> int (u * ?t) \<or> int (u * ?t) + 2 + int (length m) \<le> o2"
        using o li True by linarith
      then show "c_read b2 o2 k = c_read buf o2 k" using w(5) by blast
    qed
    have "ctrlq_rep u n h ?q (ms @ [m])"
      unfolding ctrlq_rep_def
      using b True buf w(3,4) keep by (auto simp: nth_append less_Suc_eq)
    then show ?thesis using wq True by auto
  qed
qed

text \<open>Reading and releasing on a queue that holds \<open>ms\<close>.\<close>

lemma read_rep:
  assumes r: "ctrlq_rep u n h q ms"
  shows "ctrl_queue_read_msg q = (if ms = [] then None else Some (qhead q))"
    and "ms \<noteq> [] \<Longrightarrow> queuemsg_at (the (qbuffer q)) (qhead q) = Some (hd ms)"
proof -
  have b: "4 \<le> u" "h < n" "length ms < n" "qhead q = int (u * h)"
    "qtail q = int (u * ((h + length ms) mod n))"
    using r unfolding ctrlq_rep_def by simp_all
  obtain buf where buf: "qbuffer q = Some buf"
    "\<forall>i<length ms. queuemsg_at buf (int (u * ((h + i) mod n))) = Some (ms ! i)"
    using r unfolding ctrlq_rep_def by blast
  have "(h + length ms) mod n = h \<longleftrightarrow> ms = []"
    using ring_inj [of h "length ms" n 0] b by auto
  then have "qtail q = qhead q \<longleftrightarrow> ms = []"
    unfolding b(4,5) using b(1) by (metis mult_cancel1 not_numeral_le_zero of_nat_eq_iff)
  then show "ctrl_queue_read_msg q = (if ms = [] then None else Some (qhead q))"
    using buf(1) by (simp add: ctrl_queue_read_msg_def)
  show "queuemsg_at (the (qbuffer q)) (qhead q) = Some (hd ms)" if "ms \<noteq> []"
  proof -
    have "queuemsg_at buf (int (u * ((h + 0) mod n))) = Some (ms ! 0)" using buf(2) that by blast
    then show ?thesis using b(2,4) buf(1) that by (simp add: hd_conv_nth)
  qed
qed

lemma release_rep:
  assumes r: "ctrlq_rep u n h q ms"
  shows "ctrlq_rep u n (if ms = [] then h else (h + 1) mod n) (ctrl_queue_release_msg q) (tl ms)"
proof -
  have b: "4 \<le> u" "u < 65540" "2 \<le> n" "h < n" "length ms < n" "qunit q = int u" "qsize q = int (u * n)"
    "qhead q = int (u * h)" "qtail q = int (u * ((h + length ms) mod n))"
    using r unfolding ctrlq_rep_def by simp_all
  obtain buf where buf: "qbuffer q = Some buf" "length buf = u * n"
    "\<forall>i<length ms. length (ms ! i) + 4 \<le> u \<and> queuemsg_at buf (int (u * ((h + i) mod n))) = Some (ms ! i)"
    using r unfolding ctrlq_rep_def by blast
  have e: "qhead q = qtail q \<longleftrightarrow> ms = []"
    using read_rep(1) [OF r] buf(1) by (auto simp: ctrl_queue_read_msg_def split: if_splits)
  show ?thesis
  proof (cases ms)
    case Nil
    then show ?thesis using r e by (simp add: ctrl_queue_release_msg_def)
  next
    case (Cons m ms')
    let ?h = "(h + 1) mod n"
    have hh: "qhead q + qunit q = int (u * (h + 1))" using b by (simp add: algebra_simps)
    have "(qhead q + qunit q = qsize q) = (h + 1 = n)"
      unfolding hh b(7) using b(1) by (metis mult_cancel1 not_numeral_le_zero of_nat_eq_iff)
    moreover have "?h = (if h + 1 = n then 0 else h + 1)" using b(4) by simp
    ultimately have nh: "(if qhead q + qunit q = qsize q then 0 else qhead q + qunit q) = int (u * ?h)"
      unfolding hh by (simp add: algebra_simps)
    have rel: "ctrl_queue_release_msg q = q\<lparr>qhead := int (u * ?h)\<rparr>"
      using e Cons buf(1) nh by (simp add: ctrl_queue_release_msg_def Let_def)
    have m: "(?h + i) mod n = (h + Suc i) mod n" for i by (simp add: mod_simps)
    have "\<forall>i<length ms'. length (ms' ! i) + 4 \<le> u \<and> queuemsg_at buf (int (u * ((?h + i) mod n))) = Some (ms' ! i)"
    proof (intro allI impI)
      fix i assume "i < length ms'"
      then have "Suc i < length ms" "ms ! Suc i = ms' ! i" using Cons by simp_all
      then show "length (ms' ! i) + 4 \<le> u \<and> queuemsg_at buf (int (u * ((?h + i) mod n))) = Some (ms' ! i)"
        using buf(3) unfolding m by metis
    qed
    moreover have "(?h + length ms') mod n = (h + length ms) mod n" unfolding m using Cons by simp
    moreover have "?h < n" using b(3) by simp
    ultimately show ?thesis
      unfolding rel ctrlq_rep_def using b buf Cons by simp
  qed
qed

section \<open>The queue interface\<close>

definition ctrl_enq :: "ctrl_queue \<Rightarrow> byte list \<Rightarrow> bool \<times> ctrl_queue" where
  "ctrl_enq q m = (case ctrl_queue_write_msg q m (int (length m)) of
       None \<Rightarrow> (False, q) | Some (r, q') \<Rightarrow> (r = int (length m), q'))"

definition ctrl_front :: "ctrl_queue \<Rightarrow> byte list option" where
  "ctrl_front q = (case ctrl_queue_read_msg q of
       None \<Rightarrow> None | Some off \<Rightarrow> queuemsg_at (the (qbuffer q)) off)"

definition ctrl_valid :: "byte list \<Rightarrow> bool" where
  "ctrl_valid m \<longleftrightarrow> m \<noteq> [] \<and> int (length m) < 2 ^ 32 - 4"

lemma enq_rep:
  assumes "ctrlq_rep u n h q ms" and "ctrl_valid m"
  shows "if length m + 4 \<le> u \<and> length ms + 1 < n
    then fst (ctrl_enq q m) \<and> ctrlq_rep u n h (snd (ctrl_enq q m)) (ms @ [m])
    else \<not> fst (ctrl_enq q m) \<and> snd (ctrl_enq q m) = q"
  using write_rep [OF assms(1), of m] assms(2)
  by (auto simp: ctrl_enq_def ctrl_valid_def split: if_splits)

interpretation cq: bounded_fifo ctrl_enq ctrl_front ctrl_queue_release_msg ctrlq_items ctrlq_ok ctrl_valid
proof unfold_locales
  fix q m
  assume "ctrlq_ok q" and v: "ctrl_valid m"
  then obtain u n h ms where r: "ctrlq_rep u n h q ms" by (auto simp: ctrlq_ok_def)
  note e = enq_rep [OF r v]
  show "ctrlq_ok (snd (ctrl_enq q m))"
    using e r by (auto simp: ctrlq_ok_def split: if_splits)
  show "ctrlq_items (snd (ctrl_enq q m)) = (if fst (ctrl_enq q m) then ctrlq_items q @ [m] else ctrlq_items q)"
    using e rep_items [OF r] rep_items by (auto split: if_splits)
next
  fix q
  assume "ctrlq_ok q"
  then obtain u n h ms where r: "ctrlq_rep u n h q ms" by (auto simp: ctrlq_ok_def)
  show "ctrl_front q = (case ctrlq_items q of [] \<Rightarrow> None | x # _ \<Rightarrow> Some x)"
    using read_rep [OF r] rep_items [OF r] by (cases ms) (simp_all add: ctrl_front_def)
  show "ctrlq_ok (ctrl_queue_release_msg q)" using release_rep [OF r] by (auto simp: ctrlq_ok_def)
  show "ctrlq_items (ctrl_queue_release_msg q) = tl (ctrlq_items q)"
    using rep_items [OF release_rep [OF r]] rep_items [OF r] by simp
qed

text \<open>C5. The controller queue is first-in first-out: over any sequence of writes of non-empty
  messages and of reads with releases, what is read, followed by what is still queued, is
  what was queued at the start followed by the accepted messages, byte for byte and in
  order, and the buffer stays well formed.\<close>

theorem ctrl_queue_fifo:
  assumes "ctrlq_ok q" and "ops_ok ctrl_valid ops"
    and "fifo_run ctrl_enq ctrl_front ctrl_queue_release_msg q ops = (q', accepted, delivered)"
  shows "ctrlq_ok q' \<and> ctrlq_items q @ accepted = delivered @ ctrlq_items q'"
  using cq.run_fifo [OF assms] .

text \<open>A write is accepted exactly when the message fits into a unit (its size plus 4) and a
  unit beyond the one always kept free is available; otherwise the queue is unchanged and
  the result is 0. A queue of \<open>n\<close> units therefore holds at most \<open>n - 1\<close> messages.\<close>

theorem ctrl_queue_write_accepts:
  assumes "ctrlq_rep u n h q ms" and "0 < length m" and "int (length m) < 2 ^ 32 - 4"
  shows "if length m + 4 \<le> u \<and> length ms < n - 1
    then \<exists>q'. ctrl_queue_write_msg q m (int (length m)) = Some (int (length m), q') \<and>
      ctrlq_rep u n h q' (ms @ [m])
    else ctrl_queue_write_msg q m (int (length m)) = Some (0, q)"
  using write_rep [OF assms] by (simp add: less_diff_conv)

lemma init_rep:
  assumes "0 \<le> maxunit" and "maxunit < 65536" and "2 * (maxunit + 4) \<le> sz"
    and "ctrl_queue_init True sz maxunit q0 = Some (r, q)"
  shows "r = 0 \<and> ctrlq_rep (nat (maxunit + 4)) (nat (sz div (maxunit + 4))) 0 q []"
proof -
  let ?u = "maxunit + 4"
  have sm: "sz smod ?u = sz mod ?u" using assms by (simp add: signed_modulo_int_def sgn_if)
  have n: "sz - sz smod ?u = ?u * (sz div ?u)" unfolding sm by (simp add: minus_mod_eq_mult_div)
  have two: "2 \<le> sz div ?u" 
  proof -
    have "2 * ?u div ?u = 2" using assms(1) by (intro nonzero_mult_div_cancel_right) simp
    then show ?thesis using zdiv_mono1 [OF assms(3), of ?u] assms(1) by linarith
  qed
  have l: "nat (?u * (sz div ?u)) = nat ?u * nat (sz div ?u)" using assms(1) by (simp add: nat_mult_distrib)
  have z: "nat ?u * nat (sz div ?u) = nat (?u * (sz div ?u))" using l by simp
  show ?thesis
    using assms(1,2,4) two n l
    by (auto simp: ctrl_queue_init_def ctrlq_rep_def Let_def)
qed

text \<open>Initialising with room for at least two units gives an empty well-formed queue of
  \<open>size div (maxunit + 4)\<close> units.\<close>

theorem ctrl_queue_init_ok:
  assumes "0 \<le> maxunit" and "maxunit < 65536" and "2 * (maxunit + 4) \<le> sz"
  shows "\<exists>q. ctrl_queue_init True sz maxunit q0 = Some (0, q) \<and> ctrlq_ok q \<and> ctrlq_items q = []"
proof -
  obtain r q where i: "ctrl_queue_init True sz maxunit q0 = Some (r, q)"
    using assms(1) by (simp add: ctrl_queue_init_def Let_def)
  from init_rep [OF assms i] show ?thesis using i rep_items by (auto simp: ctrlq_ok_def)
qed

text \<open>A queue initialised with less room than one unit is not refused: its size becomes 0, the
  test for wrapping never succeeds, and the first write of a message that fits a unit goes
  outside the buffer.\<close>

theorem ctrl_queue_small_overflow:
  assumes "0 \<le> maxunit" and "maxunit < 65536" and "0 \<le> sz" and "sz < maxunit + 4"
    and "ctrl_queue_init True sz maxunit q0 = Some (0, q)" and "int (length m) \<le> maxunit"
  shows "ctrl_queue_write_msg q m (int (length m)) = None"
proof -
  have "sz smod (maxunit + 4) = sz" using assms by (simp add: signed_modulo_int_def sgn_if)
  then have q: "qunit q = maxunit + 4" "qsize q = 0" "qtail q = 0" "qhead q = 0" "qbuffer q = Some []"
    using assms(1,5) by (auto simp: ctrl_queue_init_def Let_def)
  have "\<not> (int (length m) + 4) mod 2 ^ 32 > (maxunit + 4) mod 2 ^ 32" using assms by simp
  then show ?thesis
    using q assms(1) by (simp add: ctrl_queue_write_msg_def c_write_def Let_def)
qed

text \<open>Reading the next message copies the eldest one and removes it; when the caller's buffer is
  too small the result is -1 and the message is removed all the same, so it is lost; on an
  empty queue the caller waits and nothing changes.\<close>

theorem ctrl_server_readnext_spec:
  assumes "ctrlq_rep u n h q ms"
  shows "\<exists>q'. ctrl_server_readnext q (int len) =
      Some ((case ms of [] \<Rightarrow> None
         | m # _ \<Rightarrow> Some (if length m \<le> len then (int (length m), m) else (-1, []))), q') \<and>
    ctrlq_ok q' \<and> ctrlq_items q' = tl ms"
proof (cases ms)
  case Nil
  have "ctrlq_items q = []" using rep_items [OF assms] Nil by simp
  then show ?thesis using read_rep(1) [OF assms] assms Nil
    by (auto simp: ctrl_server_readnext_def ctrlq_ok_def split: option.split)
next
  case (Cons m ms')
  obtain buf where buf: "qbuffer q = Some buf" using assms unfolding ctrlq_rep_def by blast
  have m: "queuemsg_at buf (qhead q) = Some m" using read_rep(2) [OF assms] Cons buf by simp
  then obtain sz where sz: "rd16 buf (qhead q) = Some sz" "c_read buf (qhead q + 2) (uint sz) = Some m"
    by (auto simp: queuemsg_at_def)
  have "int (length m) = uint sz" using c_read_SomeD [OF sz(2)] .
  moreover have "ctrlq_ok (ctrl_queue_release_msg q) \<and> ctrlq_items (ctrl_queue_release_msg q) = ms'"
    using release_rep [OF assms] rep_items [OF release_rep [OF assms]] Cons by (auto simp: ctrlq_ok_def)
  ultimately show ?thesis
    using read_rep(1) [OF assms] Cons buf m sz
    by (auto simp: ctrl_server_readnext_def)
qed

section \<open>Witnesses\<close>

definition example_queue :: ctrl_queue where
  "example_queue = \<lparr>qhead = 0, qtail = 0, qsize = 24, qunit = 8, qbuffer = Some (replicate 24 0)\<rparr>"

lemma example_queue_rep: "ctrlq_rep 8 3 0 example_queue []"
  by (simp add: ctrlq_rep_def example_queue_def)

theorem ctrl_queue_fifo_witness:
  "\<exists>q' acc out. fifo_run ctrl_enq ctrl_front ctrl_queue_release_msg example_queue [Enq [1, 2], Enq [3], Deq] = (q', acc, out)
    \<and> acc = out @ ctrlq_items q'"
proof -
  obtain q' acc out where r: "fifo_run ctrl_enq ctrl_front ctrl_queue_release_msg example_queue [Enq [1, 2], Enq [3], Deq] = (q', acc, out)"
    by (rule prod_cases3)
  have "ctrlq_ok example_queue" "ops_ok ctrl_valid [Enq [1, 2], Enq [3], Deq]"
    using example_queue_rep by (auto simp: ctrlq_ok_def ctrl_valid_def)
  from ctrl_queue_fifo [OF this r] rep_items [OF example_queue_rep] r show ?thesis by auto
qed

theorem ctrl_queue_write_accepts_witness:
  "\<exists>q'. ctrl_queue_write_msg example_queue [1, 2, 3] 3 = Some (3, q') \<and> ctrlq_rep 8 3 0 q' [[1, 2, 3]]"
  using ctrl_queue_write_accepts [OF example_queue_rep, of "[1, 2, 3]"] by simp

theorem ctrl_queue_init_ok_witness:
  "\<exists>q. ctrl_queue_init True 100 20 example_queue = Some (0, q) \<and> ctrlq_items q = []"
  using ctrl_queue_init_ok [of 20 100 example_queue] by auto

theorem ctrl_queue_small_overflow_witness:
  "ctrl_queue_write_msg \<lparr>qhead = 0, qtail = 0, qsize = 0, qunit = 24, qbuffer = Some []\<rparr> [7] 1 = None"
proof -
  have "ctrl_queue_init True 10 20 example_queue = Some (0, \<lparr>qhead = 0, qtail = 0, qsize = 0, qunit = 24, qbuffer = Some []\<rparr>)"
    by (simp add: ctrl_queue_init_def Let_def example_queue_def signed_modulo_int_def)
  from ctrl_queue_small_overflow [OF _ _ _ _ this, of "[7]"] show ?thesis by simp
qed

theorem ctrl_server_readnext_spec_witness:
  "\<exists>q'. ctrl_server_readnext example_queue 4 = Some (None, q')"
  using ctrl_server_readnext_spec [OF example_queue_rep, of 4] by auto

end
