(* ===== verification/CtrlServer.thy ===== *)
theory CtrlServer
  imports CtrlQueue
begin

text \<open>
  The controller connection of \<open>core/controller.cpp\<close>: the handshake of the TCP client and
  server, and the receive loop of \<open>ctrl_server_thread\<close> for TCP and UDP, which finds messages
  in a buffer of 8192 bytes and hands each to the system message handler, to the replay
  callback or to the message queue. What \<open>recv\<close> returns is an argument; the calls of
  handlers and callbacks are recorded in the state. The labels of the source are the values of
  \<open>ctrl_next\<close>: \<open>ReadMore\<close> jumps to \<open>tcp_readmore\<close>, \<open>Continue\<close> starts the loop again, which
  resets \<open>bufhead\<close>.
\<close>

section \<open>The handshake\<close>

text \<open>The message of \<open>ctrl_client_init\<close>: a length byte and the identifier, zero-padded to 64 bytes.\<close>

definition ctrl_handshake_msg :: "byte list \<Rightarrow> byte list" where
  "ctrl_handshake_msg ctrlid =
     (let n = int (length ctrlid) + 2; len = (let b = n mod 256 in if b > 65 then 65 else b);
          hid = take 64 (ctrlid @ replicate (64 - length ctrlid) 0)
      in take (nat len) (word_of_int len # hid))"

text \<open>\<open>memcmp(a, b, n)\<close> up to the first difference: reading past an end is undefined.\<close>

fun memcmp_eq :: "byte list \<Rightarrow> byte list \<Rightarrow> nat \<Rightarrow> bool option" where
  "memcmp_eq a b 0 = Some True"
| "memcmp_eq (x # a) (y # b) (Suc n) = (if x = y then memcmp_eq a b n else Some False)"
| "memcmp_eq _ _ (Suc n) = None"

text \<open>
  The check of the server on the first data received into the buffer. A length of 0 makes the
  size of the comparison wrap around, and it runs past the strings unless they differ.
\<close>

definition ctrl_handshake_check :: "byte list \<Rightarrow> byte list \<Rightarrow> byte list \<Rightarrow> bool option" where
  "ctrl_handshake_check myctrlid buf data =
     (if data = [] then Some False
      else do {
        b \<leftarrow> c_write buf 0 data;
        len \<leftarrow> c_get b 0;
        if uint len > int (length data) then Some False
        else memcmp_eq (myctrlid @ [0]) (drop 1 b) (nat ((uint len - 1) mod 2 ^ 32)) })"

section \<open>The receive loop\<close>

record ctrl_server =
  sv_buf :: "byte list"
  sv_head :: int
  sv_len :: int
  sv_queue :: ctrl_queue
  sv_tab :: "nat ctrlsys_table"
  sv_replay :: bool
  sv_calls :: "(nat \<times> byte list) list"
  sv_replayed :: "byte list list"
  sv_wakeups :: nat
  sv_dropped :: nat

datatype ctrl_next = ReadMore | Continue

text \<open>Handling the message of \<open>msglen\<close> bytes at \<open>bufhead\<close>.\<close>

definition ctrl_dispatch :: "ctrl_server \<Rightarrow> int \<Rightarrow> ctrl_server option" where
  "ctrl_dispatch s msglen = do {
     (r, buf, call) \<leftarrow> ctrlsys_handle_message (sv_tab s) (sv_buf s) (sv_head s) msglen;
     if r \<noteq> 0 then
       Some (s\<lparr>sv_buf := buf, sv_calls := sv_calls s @ (case call of None \<Rightarrow> [] | Some c \<Rightarrow> [c])\<rparr>)
     else if sv_replay s then do {
       m \<leftarrow> c_read (sv_buf s) (sv_head s) msglen;
       Some (s\<lparr>sv_replayed := sv_replayed s @ [m]\<rparr>) }
     else do {
       (n, q) \<leftarrow> ctrl_queue_write_msg (sv_queue s) (drop (nat (sv_head s)) (sv_buf s)) msglen;
       if n \<noteq> msglen then Some (s\<lparr>sv_queue := q, sv_dropped := sv_dropped s + 1\<rparr>)
       else Some (s\<lparr>sv_queue := q, sv_wakeups := sv_wakeups s + 1\<rparr>) } }"

function ctrl_tcp_again :: "ctrl_server \<Rightarrow> (ctrl_server \<times> ctrl_next) option" where
  "ctrl_tcp_again s =
     (if sv_len s < 2 then Some (s, ReadMore)
      else do {
        w \<leftarrow> rd16 (sv_buf s) (sv_head s);
        let msglen = uint (ntohs w)
        in if msglen = 0 then Some (s, Continue)
           else if sv_len s < msglen then do {
             d \<leftarrow> c_read (sv_buf s) (sv_head s) (sv_len s);
             b \<leftarrow> c_write (sv_buf s) 0 d;
             Some (s\<lparr>sv_buf := b\<rparr>, ReadMore) }
           else do {
             s' \<leftarrow> ctrl_dispatch s msglen;
             if sv_len s > msglen
             then ctrl_tcp_again (s'\<lparr>sv_head := sv_head s + msglen, sv_len := sv_len s - msglen\<rparr>)
             else Some (s'\<lparr>sv_len := 0\<rparr>, Continue) } })"
  by pat_completeness auto
termination
proof (relation "measure (\<lambda>s. nat (sv_len s))", goal_cases)
  case (2 s w msglen s')
  have "0 \<le> uint (ntohs w)" by simp
  then have "0 < msglen" using 2 by linarith
  then show ?case using 2 by simp
qed simp

declare ctrl_tcp_again.simps [simp del]

text \<open>
  The TCP loop over the data that \<open>recv\<close> gives, segment by segment: it takes at most the room
  left behind \<open>buflen\<close>. No room, or an empty segment, ends the connection (the flag).
\<close>

function ctrl_tcp_session :: "byte list list \<Rightarrow> ctrl_server \<Rightarrow> (ctrl_server \<times> bool) option" where
  "ctrl_tcp_session [] s = Some (s, False)"
| "ctrl_tcp_session (c # cs) s =
     (let n = min (length c) (nat (8192 - sv_len s))
      in if n = 0 then Some (s, True)
         else do {
           b \<leftarrow> c_write (sv_buf s) (sv_len s) (take n c);
           (s', nx) \<leftarrow> ctrl_tcp_again (s\<lparr>sv_buf := b, sv_len := sv_len s + int n\<rparr>);
           ctrl_tcp_session (if n = length c then cs else drop n c # cs)
             (if nx = Continue then s'\<lparr>sv_head := 0\<rparr> else s') })"
  by pat_completeness auto
termination
  by (relation "measure (\<lambda>(cs, s). length (concat cs) + length cs)") (auto simp: min_def)

declare ctrl_tcp_session.simps(2) [simp del]

text \<open>One datagram; \<open>None\<close> is a failing \<open>recvfrom\<close> (\<open>buflen\<close> is then -1).\<close>

definition ctrl_udp_step :: "ctrl_server \<Rightarrow> byte list option \<Rightarrow> ctrl_server option" where
  "ctrl_udp_step s dgram = (case dgram of
       None \<Rightarrow> Some (s\<lparr>sv_head := 0, sv_len := -1\<rparr>)
     | Some d \<Rightarrow> do {
         b \<leftarrow> c_write (sv_buf s) 0 (take 8192 d);
         let s1 = s\<lparr>sv_buf := b, sv_head := 0, sv_len := int (length (take 8192 d))\<rparr>
         in if sv_len s1 < 2 then Some s1
            else do {
              w \<leftarrow> rd16 b 0;
              let msglen = uint (ntohs w)
              in if msglen = 0 then Some s1
                 else if sv_len s1 \<noteq> msglen then Some s1
                 else do { s2 \<leftarrow> ctrl_dispatch s1 msglen; Some (s2\<lparr>sv_len := 0\<rparr>) } } })"

text \<open>Every thread starts with an empty buffer.\<close>

definition ctrl_server_start :: "byte list \<Rightarrow> ctrl_queue \<Rightarrow> nat ctrlsys_table \<Rightarrow> bool \<Rightarrow> ctrl_server" where
  "ctrl_server_start buf q tab replay = \<lparr>sv_buf = buf, sv_head = 0, sv_len = 0, sv_queue = q, sv_tab = tab,
     sv_replay = replay, sv_calls = [], sv_replayed = [], sv_wakeups = 0, sv_dropped = 0\<rparr>"

section \<open>The handshake accepts the client, and more\<close>

lemma memcmp_eq_same: "n \<le> length a \<Longrightarrow> memcmp_eq a (take n a @ r) n = Some True"
  by (induction a "take n a @ r" n rule: memcmp_eq.induct) auto

lemma memcmp_eq_refl: "n \<le> length a \<Longrightarrow> take n b = take n a \<Longrightarrow> n \<le> length b \<Longrightarrow> memcmp_eq a b n = Some True"
  by (induction a b n rule: memcmp_eq.induct) auto

lemma handshake_accepted:
  assumes "length ctrlid \<le> 63" and "length buf = 8192" and "length rest \<le> 8000"
  shows "ctrl_handshake_check ctrlid buf (ctrl_handshake_msg ctrlid @ rest) = Some True"
proof -
  let ?n = "length ctrlid"
  have msg: "ctrl_handshake_msg ctrlid = word_of_nat (?n + 2) # (ctrlid @ [0])"
  proof -
    have i: "(int ?n + 2) mod 256 = int (?n + 2)" using assms(1) by simp
    have t: "take (Suc ?n) (ctrlid @ replicate (64 - ?n) 0) = ctrlid @ [0 :: byte]"
      using assms(1) by (cases "64 - ?n") auto
    have "min (Suc ?n) 64 = Suc ?n" using assms(1) by simp
    then have "take (Suc ?n) (take 64 (ctrlid @ replicate (64 - ?n) 0)) = ctrlid @ [0 :: byte]"
      using t by simp
    moreover have "nat (int (?n + 2)) = Suc (Suc ?n)" by simp
    ultimately show ?thesis
      using assms(1) unfolding ctrl_handshake_msg_def Let_def i by (simp del: of_nat_add)
  qed
  obtain b where b: "c_write buf 0 (word_of_nat (?n + 2) # (ctrlid @ [0]) @ rest) = Some b"
      "b = (word_of_nat (?n + 2) # (ctrlid @ [0])) @ rest @ drop (?n + 2 + length rest) buf"
    using assms by (simp add: c_write_def)
  have u: "uint (word_of_nat (?n + 2) :: byte) = int (?n + 2)"
  proof -
    have "uint (word_of_nat k :: byte) = int k" if "k < 256" for k
      using that by (simp add: unsigned_of_nat take_bit_nat_eq_self)
    from this [of "?n + 2"] show ?thesis using assms(1) by simp
  qed
  have g: "c_get b 0 = Some (word_of_nat (?n + 2))" by (simp add: b(2) c_get_def)
  have k: "nat ((int (?n + 2) - 1) mod 2 ^ 32) = ?n + 1" using assms(1) by simp
  have "memcmp_eq (ctrlid @ [0]) (drop 1 b) (?n + 1) = Some True"
    by (rule memcmp_eq_refl) (simp_all add: b(2))
  then show ?thesis
    unfolding ctrl_handshake_check_def msg append_Cons
    by (simp only: b(1) g u k bind.bind_lunit list.distinct if_False) simp
qed

text \<open>The server accepts the handshake that a client of the same version sends, for every
  version string of at most 63 characters.\<close>

theorem ctrl_handshake_roundtrip:
  assumes "length ctrlid \<le> 63" and "length buf = 8192"
  shows "ctrl_handshake_check ctrlid buf (ctrl_handshake_msg ctrlid) = Some True"
  using handshake_accepted [OF assms, of "[]"] by simp

theorem ctrl_handshake_roundtrip_witness:
  "ctrl_handshake_check [71, 65] (replicate 8192 0) (ctrl_handshake_msg [71, 65]) = Some True"
  using ctrl_handshake_roundtrip [of "[71, 65]" "replicate 8192 0"] by simp

text \<open>The identifier is not enforced: a handshake whose length byte is 1 compares no character,
  so any client that sends it is accepted, whatever follows and whatever the version is.\<close>

theorem ctrl_handshake_bypass:
  assumes "length rest < 8192" and "length buf = 8192"
  shows "ctrl_handshake_check myctrlid buf (1 # rest) = Some True"
  using assms by (simp add: ctrl_handshake_check_def c_write_def c_get_def)

theorem ctrl_handshake_bypass_witness:
  "ctrl_handshake_check [71, 65] (replicate 8192 0) [1] = Some True"
  using ctrl_handshake_bypass [of "[]" "replicate 8192 0" "[71, 65]"] by simp

section \<open>Framing\<close>

text \<open>A message that starts with its own length, and is not a system message.\<close>

definition ctrl_framed :: "byte list \<Rightarrow> bool" where
  "ctrl_framed m \<longleftrightarrow> 2 \<le> length m \<and> length m \<le> 8192 \<and> take 2 m = le16 (htons (word_of_nat (length m)))"

definition ctrl_app_msg :: "byte list \<Rightarrow> bool" where
  "ctrl_app_msg m \<longleftrightarrow> ctrl_framed m \<and> (4 \<le> length m \<longrightarrow> m ! 2 \<noteq> CTRL_MSGTYPE_SYSTEM)"

lemma framed_size:
  assumes "ctrl_framed m" and "buf = pre @ m @ post" and "off = int (length pre)"
  shows "\<exists>w. rd16 buf off = Some w \<and> uint (ntohs w) = int (length m)"
proof -
  have "c_read (pre @ take 2 m @ (drop 2 m @ post)) off 2 = Some (take 2 m)"
    using assms(1,3) by (intro c_read_append_at) (simp_all add: ctrl_framed_def)
  moreover have "pre @ take 2 m @ (drop 2 m @ post) = buf"
    unfolding assms(2) by (metis append.assoc append_take_drop_id)
  ultimately have "c_read buf off 2 = Some (take 2 m)" by (simp only:)
  then have "rd16 buf off = Some (htons (word_of_nat (length m)))"
    using assms(1) by (simp add: rd16_def ctrl_framed_def)
  moreover have "uint (word_of_nat (length m) :: u16) = int (length m)"
    using assms(1) by (simp add: ctrl_framed_def unsigned_of_nat take_bit_nat_eq_self)
  ultimately show ?thesis by simp
qed

lemma dispatch_app:
  assumes "ctrl_app_msg m" and "sv_buf s = pre @ m @ post" and "sv_head s = int (length pre)" and "sv_replay s"
  shows "ctrl_dispatch s (int (length m)) = Some (s\<lparr>sv_replayed := sv_replayed s @ [m]\<rparr>)"
proof -
  have h: "ctrlsys_handle_message (sv_tab s) (sv_buf s) (sv_head s) (int (length m)) = Some (0, sv_buf s, None)"
  proof (cases "4 \<le> length m")
    case True
    have g: "c_get (sv_buf s) (sv_head s + int k) = Some (m ! k)" if "k < length m" for k
      using that assms(2,3) by (simp add: c_get_def nat_add_distrib nth_append)
    have "m ! 2 \<noteq> CTRL_MSGTYPE_SYSTEM" using assms(1) True by (simp add: ctrl_app_msg_def)
    then show ?thesis using g [of 2] g [of 3] True by (simp add: ctrlsys_handle_message_def)
  qed (simp add: ctrlsys_handle_message_def)
  have "c_read (sv_buf s) (sv_head s) (int (length m)) = Some m"
    using assms(2,3) by (simp add: c_read_append_at)
  then show ?thesis using h assms(4) by (simp add: ctrl_dispatch_def)
qed

lemma tcp_again_whole:
  assumes "ms \<noteq> []" and "\<forall>m\<in>set ms. ctrl_app_msg m" and "sv_buf s = pre @ concat ms @ post"
    and "sv_head s = int (length pre)" and "sv_len s = int (length (concat ms))" and "sv_replay s"
  shows "\<exists>h. ctrl_tcp_again s = Some (s\<lparr>sv_replayed := sv_replayed s @ ms, sv_head := h, sv_len := 0\<rparr>, Continue)"
  using assms
proof (induction ms arbitrary: s pre)
  case (Cons m ms)
  have m: "ctrl_framed m" "2 \<le> length m" using Cons.prems(2) by (simp_all add: ctrl_app_msg_def ctrl_framed_def)
  have b: "sv_buf s = pre @ m @ (concat ms @ post)" using Cons.prems(3) by simp
  obtain w where w: "rd16 (sv_buf s) (sv_head s) = Some w" "uint (ntohs w) = int (length m)"
    using framed_size [OF m(1) b Cons.prems(4)] by blast
  let ?s = "s\<lparr>sv_replayed := sv_replayed s @ [m]\<rparr>"
  have d: "ctrl_dispatch s (int (length m)) = Some ?s"
    using dispatch_app [OF _ b Cons.prems(4,6)] Cons.prems(2) by simp
  have len: "sv_len s = int (length m) + int (length (concat ms))" using Cons.prems(5) by simp
  show ?case
  proof (cases "ms = []")
    case True
    then have "ctrl_tcp_again s = Some (?s\<lparr>sv_len := 0\<rparr>, Continue)"
      using w d len m(2) by (subst ctrl_tcp_again.simps) (auto simp: Let_def)
    then show ?thesis using True by (intro exI [of _ "sv_head s"]) simp
  next
    case False
    have pos: "0 < length (concat ms)"
      using False Cons.prems(2) by (cases ms) (auto simp: ctrl_app_msg_def ctrl_framed_def)
    let ?s2 = "?s\<lparr>sv_head := sv_head s + int (length m), sv_len := sv_len s - int (length m)\<rparr>"
    have "\<exists>h. ctrl_tcp_again ?s2 =
        Some (?s2\<lparr>sv_replayed := sv_replayed ?s2 @ ms, sv_head := h, sv_len := 0\<rparr>, Continue)"
      using False Cons.prems by (intro Cons.IH [of ?s2 "pre @ m"]) auto
    then obtain h where h: "ctrl_tcp_again ?s2 =
        Some (?s2\<lparr>sv_replayed := sv_replayed ?s2 @ ms, sv_head := h, sv_len := 0\<rparr>, Continue)" by blast
    have "ctrl_tcp_again s = ctrl_tcp_again ?s2"
      using w d len m(2) pos by (subst ctrl_tcp_again.simps) (auto simp: Let_def)
    then show ?thesis using h by (intro exI [of _ h]) simp
  qed
qed simp

lemma tcp_session_whole:
  assumes "\<forall>ms\<in>set mss. ms \<noteq> [] \<and> (\<forall>m\<in>set ms. ctrl_app_msg m) \<and> length (concat ms) \<le> 8192"
    and "length (sv_buf s) = 8192" and "sv_head s = 0" and "sv_len s = 0" and "sv_replay s"
  shows "\<exists>s'. ctrl_tcp_session (map concat mss) s = Some (s', False) \<and>
    sv_replayed s' = sv_replayed s @ concat mss \<and> sv_queue s' = sv_queue s \<and> sv_calls s' = sv_calls s"
  using assms
proof (induction mss arbitrary: s)
  case (Cons ms mss)
  let ?c = "concat ms"
  have c: "ms \<noteq> []" "\<forall>m\<in>set ms. ctrl_app_msg m" "length ?c \<le> 8192" using Cons.prems(1) by auto
  have pos: "0 < length ?c" using c(1,2) by (cases ms) (auto simp: ctrl_app_msg_def ctrl_framed_def)
  have n: "min (length ?c) (nat (8192 - sv_len s)) = length ?c" using c(3) Cons.prems(4) by simp
  have w: "c_write (sv_buf s) (sv_len s) ?c = Some (?c @ drop (length ?c) (sv_buf s))"
    using c(3) Cons.prems(2,4) by (simp add: c_write_def)
  let ?s = "s\<lparr>sv_buf := ?c @ drop (length ?c) (sv_buf s), sv_len := sv_len s + int (length ?c)\<rparr>"
  obtain h where h: "ctrl_tcp_again ?s =
      Some (?s\<lparr>sv_replayed := sv_replayed ?s @ ms, sv_head := h, sv_len := 0\<rparr>, Continue)"
    using tcp_again_whole [OF c(1,2), of ?s "[]" "drop (length ?c) (sv_buf s)"] Cons.prems by auto
  let ?s2 = "?s\<lparr>sv_replayed := sv_replayed s @ ms, sv_len := 0, sv_head := 0\<rparr>"
  have "ctrl_tcp_session (map concat (ms # mss)) s = ctrl_tcp_session (map concat mss) ?s2"
  proof -
    have "length ?c \<noteq> 0" using pos by simp
    moreover have "take (length ?c) ?c = ?c" by simp
    ultimately show ?thesis
      unfolding list.map ctrl_tcp_session.simps(2) Let_def n
      by (simp only: if_False w h bind.bind_lunit prod.case simp_thms if_True) simp
  qed
  moreover have "\<exists>s'. ctrl_tcp_session (map concat mss) ?s2 = Some (s', False) \<and>
      sv_replayed s' = sv_replayed ?s2 @ concat mss \<and> sv_queue s' = sv_queue ?s2 \<and> sv_calls s' = sv_calls ?s2"
    using Cons.prems c(3) by (intro Cons.IH) auto
  ultimately show ?case by auto
qed simp

text \<open>C28. When every segment that \<open>recv\<close> returns holds whole messages, the TCP loop hands exactly
  these messages, in order and byte for byte, to the replay callback, and the connection
  stays open.\<close>

theorem ctrl_tcp_whole_segments:
  assumes "\<forall>ms\<in>set mss. ms \<noteq> [] \<and> (\<forall>m\<in>set ms. ctrl_app_msg m) \<and> length (concat ms) \<le> 8192"
    and "length buf = 8192"
  shows "\<exists>s'. ctrl_tcp_session (map concat mss) (ctrl_server_start buf q tab True) = Some (s', False) \<and>
    sv_replayed s' = concat mss"
  using tcp_session_whole [OF assms(1), of "ctrl_server_start buf q tab True"] assms(2)
  by (auto simp: ctrl_server_start_def)

theorem ctrl_tcp_whole_segments_witness:
  "\<exists>s'. ctrl_tcp_session [[0, 4, 1, 7, 0, 2], [0, 3, 9]] (ctrl_server_start (replicate 8192 0) example_queue [None, None, None] True)
      = Some (s', False) \<and> sv_replayed s' = [[0, 4, 1, 7], [0, 2], [0, 3, 9]]"
proof -
  have f: "\<forall>ms\<in>set [[[0, 4, 1, 7], [0, 2]], [[0, 3, 9]]]. ms \<noteq> [] \<and> (\<forall>m\<in>set ms. ctrl_app_msg m) \<and> length (concat ms) \<le> 8192"
    by (simp add: ctrl_app_msg_def ctrl_framed_def CTRL_MSGTYPE_SYSTEM_def le16_def htons_def)
  from ctrl_tcp_whole_segments [OF f, of "replicate 8192 0" example_queue "[None, None, None]"]
  show ?thesis by simp
qed

lemma split_read [simp]:
  "rd16 (0 # 3 # xs) 0 = Some 0x300" "rd16 (a # b # c # 0 # 3 # xs) 3 = Some 0x300"
  "uint (ntohs 0x300) = 3"
  by (simp_all add: rd16_def c_read_def htons_def le16_def)

lemma dispatch_short:
  assumes "sv_replay s" and "c_read (sv_buf s) (sv_head s) 3 = Some m"
  shows "ctrl_dispatch s 3 = Some (s\<lparr>sv_replayed := sv_replayed s @ [m]\<rparr>)"
  using assms by (simp add: ctrl_dispatch_def ctrlsys_handle_message_def)

text \<open>A message that is split over two segments after another one in the first segment is
  corrupted: \<open>bufhead\<close> is not reset when the rest is moved to the front of the buffer, so the
  loop goes on reading at the old place. Here the peer sends the messages 00 03 01 and
  00 03 02, and the second is delivered with its last byte replaced by whatever the buffer
  held there before.\<close>

theorem ctrl_tcp_split_corrupts:
  assumes "length buf = 8192"
  shows "\<exists>s'. ctrl_tcp_session [[0, 3, 1, 0, 3], [2]] (ctrl_server_start buf q tab True) = Some (s', False) \<and>
    sv_replayed s' = [[0, 3, 1], [0, 3, buf ! 5]]"
proof -
  define r where "r = drop 6 buf"
  have "length (take 6 buf) = Suc (Suc (Suc (Suc (Suc (Suc 0)))))" using assms by simp
  then obtain x0 x1 x2 x3 x4 x5 where t: "take 6 buf = [x0, x1, x2, x3, x4, x5]"
    unfolding length_Suc_conv by auto
  have b: "buf = x0 # x1 # x2 # x3 # x4 # x5 # r"
    using append_take_drop_id [of 6 buf] unfolding t r_def by simp
  have r: "length r = 8186" using assms by (simp add: r_def)
  let ?s = "ctrl_server_start buf q tab True"
  let ?s1 = "?s\<lparr>sv_buf := 0 # 3 # 1 # 0 # 3 # x5 # r, sv_len := 5\<rparr>"
  let ?s2 = "?s1\<lparr>sv_replayed := [[0, 3, 1]], sv_head := 3, sv_len := 2\<rparr>"
  let ?s3 = "?s2\<lparr>sv_buf := 0 # 3 # 2 # 0 # 3 # x5 # r, sv_len := 3\<rparr>"
  have w1: "c_write buf 0 [0, 3, 1, 0, 3] = Some (0 # 3 # 1 # 0 # 3 # x5 # r)" using r by (simp add: b c_write_def)
  have d1: "ctrl_dispatch ?s1 3 = Some (?s1\<lparr>sv_replayed := [[0, 3, 1]]\<rparr>)"
    using r by (subst dispatch_short [of _ "[0, 3, 1]"]) (simp_all add: ctrl_server_start_def c_read_def)
  have a2: "ctrl_tcp_again ?s2 = Some (?s2, ReadMore)"
    using r by (subst ctrl_tcp_again.simps) (simp add: c_read_def c_write_def)
  have "ctrl_tcp_again ?s1 = ctrl_tcp_again ?s2"
    using d1 by (subst ctrl_tcp_again.simps) (simp add: ctrl_server_start_def)
  then have a1: "ctrl_tcp_again ?s1 = Some (?s2, ReadMore)" using a2 by simp
  have d3: "ctrl_dispatch ?s3 3 = Some (?s3\<lparr>sv_replayed := [[0, 3, 1], [0, 3, x5]]\<rparr>)"
    using r by (subst dispatch_short [of _ "[0, 3, x5]"]) (simp_all add: ctrl_server_start_def c_read_def)
  have a3: "ctrl_tcp_again ?s3 = Some (?s3\<lparr>sv_replayed := [[0, 3, 1], [0, 3, x5]], sv_len := 0\<rparr>, Continue)"
    using d3 by (subst ctrl_tcp_again.simps) (simp add: ctrl_server_start_def)
  have w2: "c_write (0 # 3 # 1 # 0 # 3 # x5 # r) 2 [2] = Some (0 # 3 # 2 # 0 # 3 # x5 # r)"
    using r by (simp add: c_write_def)
  have "ctrl_tcp_session [[0, 3, 1, 0, 3], [2]] ?s = ctrl_tcp_session [[2]] ?s2"
    using w1 a1 by (simp add: ctrl_tcp_session.simps(2) ctrl_server_start_def)
  also have "\<dots> = Some (?s3\<lparr>sv_replayed := [[0, 3, 1], [0, 3, x5]], sv_len := 0, sv_head := 0\<rparr>, False)"
    using w2 a3 by (simp add: ctrl_tcp_session.simps(2))
  finally show ?thesis by (simp add: b)
qed

theorem ctrl_tcp_split_corrupts_witness:
  "\<exists>s'. ctrl_tcp_session [[0, 3, 1, 0, 3], [2]] (ctrl_server_start (replicate 8192 7) example_queue [None, None, None] True) = Some (s', False) \<and>
    sv_replayed s' = [[0, 3, 1], [0, 3, 7]]"
proof -
  have "replicate 8192 (7 :: byte) ! 5 = 7" by (rule nth_replicate) simp
  then show ?thesis using ctrl_tcp_split_corrupts [of "replicate 8192 7" example_queue "[None, None, None]"]
    by (simp only: length_replicate simp_thms)
qed

text \<open>Over UDP a datagram reaches the replay callback exactly when its first two bytes are its
  own length; every other datagram, and a failing receive, is ignored.\<close>

theorem ctrl_udp_exact:
  assumes "length (sv_buf s) = 8192" and "sv_replay s" and "length d \<le> 8192"
    and "4 \<le> length d \<longrightarrow> d ! 2 \<noteq> CTRL_MSGTYPE_SYSTEM"
  shows "\<exists>s'. ctrl_udp_step s (Some d) = Some s' \<and> length (sv_buf s') = 8192 \<and>
    sv_replayed s' = sv_replayed s @ (if ctrl_framed d then [d] else [])"
proof -
  let ?b = "[] @ d @ drop (length d) (sv_buf s)"
  let ?s1 = "s\<lparr>sv_buf := ?b, sv_head := 0, sv_len := int (length d)\<rparr>"
  have w: "c_write (sv_buf s) 0 d = Some (d @ drop (length d) (sv_buf s))" "take 8192 d = d"
    using assms(1,3) by (simp_all add: c_write_def)
  have lb: "length ?b = 8192" using assms(1,3) by simp
  show ?thesis
  proof (cases "length d < 2")
    case True
    then have "ctrl_udp_step s (Some d) = Some ?s1" by (simp add: ctrl_udp_step_def w)
    moreover have "\<not> ctrl_framed d" using True by (simp add: ctrl_framed_def)
    ultimately show ?thesis using lb by simp
  next
    case False
    then have r: "c_read ?b 0 2 = Some (take 2 d)"
      using c_read_split(1) [of ?b 0 2 "int (length d) - 2" d] by (simp add: c_read_def)
    obtain x y where xy: "take 2 d = [x, y]"
      using False by (cases d rule: list.exhaust, simp, rename_tac a as, case_tac as) auto
    define w16 where "w16 = un16 (take 2 d)"
    have lw: "le16 w16 = take 2 d" unfolding w16_def xy by (rule le16_un16)
    have rd: "rd16 ?b 0 = Some w16" using r by (simp add: rd16_def w16_def)
    have fr: "ctrl_framed d \<longleftrightarrow> uint (ntohs w16) = int (length d)"
    proof
      assume "ctrl_framed d"
      then show "uint (ntohs w16) = int (length d)"
        using framed_size [of d ?b "[]" "drop (length d) (sv_buf s)" 0] rd by auto
    next
      assume "uint (ntohs w16) = int (length d)"
      then have "ntohs w16 = word_of_nat (length d)" by (metis of_int_of_nat_eq word_of_int_uint)
      then have "w16 = htons (word_of_nat (length d))" by (metis htons_htons)
      then have "le16 w16 = le16 (htons (word_of_nat (length d)))" by simp
      then show "ctrl_framed d" using False assms(3) unfolding lw by (simp add: ctrl_framed_def)
    qed
    show ?thesis
    proof (cases "ctrl_framed d")
      case True
      then have "ctrl_dispatch ?s1 (int (length d)) = Some (?s1\<lparr>sv_replayed := sv_replayed ?s1 @ [d]\<rparr>)"
        using assms(2,4) by (intro dispatch_app [of d _ "[]"]) (simp_all add: ctrl_app_msg_def)
      moreover have "uint (ntohs w16) = int (length d)" using fr True by blast
      moreover have "uint (ntohs w16) \<noteq> 0" using calculation False by auto
      ultimately have "ctrl_udp_step s (Some d) = Some (?s1\<lparr>sv_replayed := sv_replayed s @ [d], sv_len := 0\<rparr>)"
        unfolding ctrl_udp_step_def using rd w False by (simp add: Let_def)
      then show ?thesis using True lb by simp
    next
      case no: False
      then have "uint (ntohs w16) \<noteq> int (length d)" using fr by blast
      then have "ctrl_udp_step s (Some d) = Some ?s1"
        unfolding ctrl_udp_step_def using rd w False by (simp add: Let_def)
      then show ?thesis using no lb by simp
    qed
  qed
qed

theorem ctrl_udp_exact_witness:
  "\<exists>s'. ctrl_udp_step (ctrl_server_start (replicate 8192 0) example_queue [None, None, None] True) (Some [0, 3, 9]) = Some s' \<and>
    sv_replayed s' = [[0, 3, 9]]"
  using ctrl_udp_exact [of "ctrl_server_start (replicate 8192 0) example_queue [None, None, None] True" "[0, 3, 9]"]
  by (auto simp: ctrl_server_start_def ctrl_framed_def htons_def le16_def)

end
