(* ===== verification/GaModule.thy ===== *)
theory GaModule
  imports StdMap
begin

text \<open>
  Modules: \<open>core/ga-module.h\<close> and \<open>core/ga-module.cpp\<close>. A module is a structure of function
  pointers, NULL being \<open>None\<close>; a function acts on the world \<open>'w\<close>, gets its argument pointer as
  a number and returns an integer. The registry \<open>mlist\<close> maps a loaded module to the handle of
  its library. The dynamic loader is an argument: it gives a handle for a file name and, for
  a handle, the result of \<open>module_load\<close>; open handles are counted.
\<close>

type_synonym 'w mfun = "'w \<Rightarrow> nat \<Rightarrow> int \<times> 'w"

record 'w ga_module =
  m_handle :: nat
  m_type :: int
  m_name :: string
  m_mimetype :: string
  m_init :: "'w mfun option"
  m_start :: "'w mfun option"
  m_stop :: "'w mfun option"
  m_deinit :: "'w mfun option"
  m_ioctl :: "('w \<Rightarrow> int \<Rightarrow> int \<Rightarrow> nat \<Rightarrow> int \<times> 'w) option"
  m_notify :: "'w mfun option"
  m_raw :: "('w \<Rightarrow> nat \<Rightarrow> (nat option \<times> int) \<times> 'w) option"
  m_send_packet :: "('w \<Rightarrow> int \<Rightarrow> byte list \<Rightarrow> int \<Rightarrow> timeval option \<Rightarrow> int \<times> 'w) option"

section \<open>Wrappers\<close>

definition GA_IOCTL_ERR_NULLMODULE :: int where "GA_IOCTL_ERR_NULLMODULE = -2"
definition GA_IOCTL_ERR_NOINTERFACE :: int where "GA_IOCTL_ERR_NOINTERFACE = -3"
definition GA_IOCTL_ERR_NOIOCTL :: int where "GA_IOCTL_ERR_NOIOCTL = -3"

definition ga_module_init :: "'w ga_module option \<Rightarrow> 'w \<Rightarrow> nat \<Rightarrow> int \<times> 'w" where
  "ga_module_init m w arg = (case m of None \<Rightarrow> (GA_IOCTL_ERR_NULLMODULE, w)
     | Some m \<Rightarrow> (case m_init m of None \<Rightarrow> (0, w) | Some f \<Rightarrow> f w arg))"

definition ga_module_start :: "'w ga_module option \<Rightarrow> 'w \<Rightarrow> nat \<Rightarrow> int \<times> 'w" where
  "ga_module_start m w arg = (case m of None \<Rightarrow> (GA_IOCTL_ERR_NULLMODULE, w)
     | Some m \<Rightarrow> (case m_start m of None \<Rightarrow> (GA_IOCTL_ERR_NOINTERFACE, w) | Some f \<Rightarrow> f w arg))"

definition ga_module_stop :: "'w ga_module option \<Rightarrow> 'w \<Rightarrow> nat \<Rightarrow> int \<times> 'w" where
  "ga_module_stop m w arg = (case m of None \<Rightarrow> (GA_IOCTL_ERR_NULLMODULE, w)
     | Some m \<Rightarrow> (case m_stop m of None \<Rightarrow> (0, w) | Some f \<Rightarrow> f w arg))"

definition ga_module_deinit :: "'w ga_module option \<Rightarrow> 'w \<Rightarrow> nat \<Rightarrow> int \<times> 'w" where
  "ga_module_deinit m w arg = (case m of None \<Rightarrow> (GA_IOCTL_ERR_NULLMODULE, w)
     | Some m \<Rightarrow> (case m_deinit m of None \<Rightarrow> (0, w) | Some f \<Rightarrow> f w arg))"

definition ga_module_ioctl :: "'w ga_module option \<Rightarrow> 'w \<Rightarrow> int \<Rightarrow> int \<Rightarrow> nat \<Rightarrow> int \<times> 'w" where
  "ga_module_ioctl m w command argsize arg = (case m of None \<Rightarrow> (GA_IOCTL_ERR_NULLMODULE, w)
     | Some m \<Rightarrow> (case m_ioctl m of None \<Rightarrow> (GA_IOCTL_ERR_NOIOCTL, w) | Some f \<Rightarrow> f w command argsize arg))"

definition ga_module_notify :: "'w ga_module option \<Rightarrow> 'w \<Rightarrow> nat \<Rightarrow> int \<times> 'w" where
  "ga_module_notify m w arg = (case m of None \<Rightarrow> (GA_IOCTL_ERR_NULLMODULE, w)
     | Some m \<Rightarrow> (case m_notify m of None \<Rightarrow> (0, w) | Some f \<Rightarrow> f w arg))"

text \<open>The pointer returned and, when the interface is called, the size stored.\<close>

definition ga_module_raw :: "'w ga_module option \<Rightarrow> 'w \<Rightarrow> nat \<Rightarrow> (nat option \<times> int option) \<times> 'w" where
  "ga_module_raw m w arg = (case m of None \<Rightarrow> ((None, None), w)
     | Some m \<Rightarrow> (case m_raw m of None \<Rightarrow> ((None, None), w)
         | Some f \<Rightarrow> (case f w arg of ((p, n), w') \<Rightarrow> ((p, Some n), w'))))"

text \<open>Not checked: a NULL module or interface is undefined.\<close>

definition ga_module_send_packet :: "'w ga_module option \<Rightarrow> 'w \<Rightarrow> int \<Rightarrow> byte list \<Rightarrow> int \<Rightarrow> timeval option \<Rightarrow> (int \<times> 'w) option" where
  "ga_module_send_packet m w ch pkt pts ptv = do {
     m \<leftarrow> m; f \<leftarrow> m_send_packet m; Some (f w ch pkt pts ptv) }"

definition ga_init_single_module :: "'w ga_module \<Rightarrow> 'w \<Rightarrow> nat \<Rightarrow> int \<times> 'w" where
  "ga_init_single_module m w arg = (case m_init m of None \<Rightarrow> (0, w)
     | Some f \<Rightarrow> (case f w arg of (r, w') \<Rightarrow> if r < 0 then (-1, w') else (0, w')))"

text \<open>A program that quits is \<open>Inl\<close> its exit code.\<close>

definition ga_init_single_module_or_quit :: "'w ga_module \<Rightarrow> 'w \<Rightarrow> nat \<Rightarrow> int + 'w" where
  "ga_init_single_module_or_quit m w arg =
     (case ga_init_single_module m w arg of (r, w') \<Rightarrow> if r < 0 then Inl (-1) else Inr w')"

text \<open>Starting a detached thread: \<open>create_ok\<close> tells whether the thread can be created.\<close>

definition ga_run_single_module :: "bool \<Rightarrow> nat option \<Rightarrow> int" where
  "ga_run_single_module create_ok threadproc =
     (case threadproc of None \<Rightarrow> 0 | Some p \<Rightarrow> if create_ok then 0 else -1)"

definition ga_run_single_module_or_quit :: "bool \<Rightarrow> nat option \<Rightarrow> int + unit" where
  "ga_run_single_module_or_quit create_ok threadproc =
     (if ga_run_single_module create_ok threadproc < 0 then Inl (-1) else Inr ())"

section \<open>Loading\<close>

record dl_api =
  dlopen :: "string \<Rightarrow> nat option"
  module_load :: "nat \<Rightarrow> nat option option"

text \<open>\<open>module_load\<close> of a handle: \<open>None\<close> when the symbol is missing, else what the function returns.\<close>

record module_registry =
  mlist :: "(nat, nat) smap"
  dl_refs :: "nat \<Rightarrow> nat"

definition ga_load_module :: "dl_api \<Rightarrow> string \<Rightarrow> module_registry \<Rightarrow> nat option \<times> module_registry" where
  "ga_load_module dl modname reg =
     (case dlopen dl (take 1023 (modname @ ''.dll'')) of
        None \<Rightarrow> (None, reg)
      | Some h \<Rightarrow>
          (case module_load dl h of
             None \<Rightarrow> (None, reg)
           | Some m \<Rightarrow>
               let reg' = reg\<lparr>dl_refs := (dl_refs reg)(h := dl_refs reg h + 1)\<rparr>
               in (case m of None \<Rightarrow> (None, reg')
                   | Some a \<Rightarrow> (Some a, reg'\<lparr>mlist := smap_put (mlist reg') a h\<rparr>))))"

definition ga_unload_module :: "nat option \<Rightarrow> module_registry \<Rightarrow> module_registry" where
  "ga_unload_module m reg = (case m of None \<Rightarrow> reg
     | Some a \<Rightarrow> (case smap_find (mlist reg) a of None \<Rightarrow> reg
         | Some h \<Rightarrow> reg\<lparr>dl_refs := (dl_refs reg)(h := dl_refs reg h - 1), mlist := smap_erase (mlist reg) a\<rparr>))"

section \<open>Properties\<close>

text \<open>Loading a module that is not loaded and unloading it again gives back the registry and
  every library reference; a load that fails before a module is obtained changes nothing.\<close>

theorem ga_module_load_unload:
  assumes "ga_load_module dl modname reg = (r, reg')" and "smap_ok (mlist reg)"
    and "\<And>a. r = Some a \<Longrightarrow> smap_find (mlist reg) a = None"
    and "\<And>h. dlopen dl (take 1023 (modname @ ''.dll'')) = Some h \<Longrightarrow> module_load dl h \<noteq> Some None"
  shows "dl_refs (ga_unload_module r reg') = dl_refs reg \<and>
    (\<forall>a. smap_find (mlist (ga_unload_module r reg')) a = smap_find (mlist reg) a) \<and> (r = None \<longrightarrow> reg' = reg)"
proof (cases r)
  case None
  then show ?thesis using assms(1,4)
    by (auto simp: ga_load_module_def ga_unload_module_def Let_def split: option.splits)
next
  case (Some a)
  then obtain h where h: "reg' = reg\<lparr>dl_refs := (dl_refs reg)(h := dl_refs reg h + 1), mlist := smap_put (mlist reg) a h\<rparr>"
    using assms(1) by (auto simp: ga_load_module_def Let_def split: option.splits)
  show ?thesis
    using Some sm.erase_put [OF assms(2) assms(3) [OF Some]]
    by (simp add: ga_unload_module_def h smap_find_put)
qed

text \<open>Loading the same module twice and unloading it once makes the registry forget it while
  its library keeps a reference that no later unload of the module can release.\<close>

theorem ga_module_reload_leaks:
  assumes "dlopen dl (take 1023 (modname @ ''.dll'')) = Some h" and "module_load dl h = Some (Some a)"
    and "ga_load_module dl modname reg = (r1, reg1)" and "ga_load_module dl modname reg1 = (r2, reg2)"
    and "smap_ok (mlist reg)" and "dl_refs reg h = 0"
  shows "dl_refs (ga_unload_module r1 (ga_unload_module r2 reg2)) h = 1 \<and>
    smap_find (mlist (ga_unload_module r2 reg2)) a = None"
proof -
  have e: "r1 = Some a" "r2 = Some a" "dl_refs reg2 h = 2" "smap_find (mlist reg2) a = Some h" "smap_ok (mlist reg2)"
    using assms by (auto simp: ga_load_module_def Let_def smap_find_put smap_ok_put)
  then have f: "smap_find (smap_erase (mlist reg2) a) a = None" by (simp add: smap_find_erase)
  show ?thesis using e f by (simp add: ga_unload_module_def)
qed

definition example_dl :: dl_api where
  "example_dl = \<lparr>dlopen = (\<lambda>f. if f = ''encoder.dll'' then Some 7 else None), module_load = (\<lambda>h. Some (Some (100 + h)))\<rparr>"

definition example_reg :: module_registry where
  "example_reg = \<lparr>mlist = [], dl_refs = (\<lambda>h. 0)\<rparr>"

theorem ga_module_load_unload_witness:
  "\<exists>reg'. ga_load_module example_dl ''encoder'' example_reg = (Some 107, reg') \<and>
    dl_refs (ga_unload_module (Some 107) reg') = dl_refs example_reg"
proof -
  obtain reg' where l: "ga_load_module example_dl ''encoder'' example_reg = (Some 107, reg')"
    by (simp add: ga_load_module_def example_dl_def Let_def)
  from ga_module_load_unload [OF l] show ?thesis
    using l by (auto simp: example_reg_def example_dl_def)
qed

theorem ga_module_reload_leaks_witness:
  "\<exists>reg. dl_refs (ga_unload_module (Some 107) (ga_unload_module (Some 107) reg)) 7 = 1"
proof -
  obtain r1 where l1: "ga_load_module example_dl ''encoder'' example_reg = (Some 107, r1)"
    by (simp add: ga_load_module_def example_dl_def Let_def)
  obtain r2 where l2: "ga_load_module example_dl ''encoder'' r1 = (Some 107, r2)"
    by (simp add: ga_load_module_def example_dl_def Let_def)
  have "dlopen example_dl (take 1023 (''encoder'' @ ''.dll'')) = Some 7" "module_load example_dl 7 = Some (Some 107)"
    by (simp_all add: example_dl_def)
  from ga_module_reload_leaks [OF this l1 l2] show ?thesis by (auto simp: example_reg_def)
qed

end
