(* ===== verification/PktQueue.thy ===== *)
theory PktQueue
  imports StdMap Fifo
begin

text \<open>
  The packet queues between encoders and sink servers: the second half of
  \<open>core/encoder-common.cpp\<close>. Each channel has a byte buffer used as a ring, and a list of
  packets that point into it. A packet is never split by the end of the buffer: when it does
  not fit there, the rest of the buffer becomes the \<open>padding\<close> of the packet before it. The
  operations run under the queue's mutex. A pointer into the buffer is its offset; an
  access outside the buffer is \<open>None\<close>.
\<close>

record encoder_packet =
  pk_data :: int
  pk_size :: int
  pk_pts_int64 :: int
  pk_pts_tv :: timeval
  pk_padding :: int

record encoder_packet_queue =
  pq_buf :: "byte list option"
  pq_bufsize :: int
  pq_datasize :: int
  pq_head :: int
  pq_tail :: int
  pktlist :: "encoder_packet list"
  queue_cb :: "(nat, nat) smap"

section \<open>Operations on a channel\<close>

text \<open>
  The loop at \<open>size_check\<close>: the queue with room made at its tail, and whether the packet can
  be placed. The fuel bounds the number of jumps back to the label.
\<close>

primrec pktqueue_place :: "nat \<Rightarrow> encoder_packet_queue \<Rightarrow> int \<Rightarrow> (bool \<times> encoder_packet_queue) option" where
  "pktqueue_place 0 q sz = None"
| "pktqueue_place (Suc fuel) q sz =
     (if pq_datasize q + sz > pq_bufsize q then Some (False, q)
      else if pq_bufsize q - pq_tail q < sz then
        (if pktlist q = [] then
           pktqueue_place fuel (q\<lparr>pq_datasize := 0, pq_tail := 0, pq_head := 0\<rparr>) sz
         else
           let padding = pq_bufsize q - pq_tail q
           in pktqueue_place fuel
                (q\<lparr>pktlist := butlast (pktlist q) @ [(last (pktlist q))\<lparr>pk_padding := padding\<rparr>],
                   pq_datasize := pq_datasize q + padding, pq_tail := 0\<rparr>) sz)
      else Some (True, q))"

text \<open>
  Appending the data of a packet: the return value, the queue and the callbacks called. \<open>now\<close>
  is the time of day, used when no time is given.
\<close>

definition encoder_pktqueue_append :: "nat \<Rightarrow> timeval \<Rightarrow> encoder_packet_queue \<Rightarrow> byte list \<Rightarrow> int \<Rightarrow>
    timeval option \<Rightarrow> (int \<times> encoder_packet_queue \<times> nat list) option" where
  "encoder_pktqueue_append fuel now q pdata pts ptv = do {
     (ok, q1) \<leftarrow> pktqueue_place fuel q (int (length pdata));
     if \<not> ok then Some (-1, q1, [])
     else do {
       buf \<leftarrow> pq_buf q1;
       buf' \<leftarrow> c_write buf (pq_tail q1) pdata;
       let qp = \<lparr>pk_data = pq_tail q1, pk_size = int (length pdata), pk_pts_int64 = pts,
                 pk_pts_tv = (case ptv of Some t \<Rightarrow> t | None \<Rightarrow> now), pk_padding = 0\<rparr>;
           t = pq_tail q1 + int (length pdata)
       in Some (0, q1\<lparr>pq_buf := Some buf', pq_tail := (if t = pq_bufsize q1 then 0 else t),
                  pq_datasize := pq_datasize q1 + int (length pdata),
                  pktlist := pktlist q1 @ [qp]\<rparr>, map snd (queue_cb q1)) } }"

definition encoder_pktqueue_front :: "encoder_packet_queue \<Rightarrow> encoder_packet option" where
  "encoder_pktqueue_front q = (case pktlist q of [] \<Rightarrow> None | p # _ \<Rightarrow> Some p)"

definition encoder_pktqueue_split_packet :: "encoder_packet_queue \<Rightarrow> int \<Rightarrow> encoder_packet_queue" where
  "encoder_pktqueue_split_packet q offset = (case pktlist q of
       [] \<Rightarrow> q
     | p # ps \<Rightarrow>
         if offset \<le> pk_data p \<or> offset \<ge> pk_data p + pk_size p then q
         else let newpkt = p\<lparr>pk_size := offset - pk_data p, pk_padding := 0\<rparr>
              in q\<lparr>pktlist := newpkt # p\<lparr>pk_data := offset, pk_size := pk_size p - pk_size newpkt\<rparr> # ps\<rparr>)"

definition encoder_pktqueue_pop_front :: "encoder_packet_queue \<Rightarrow> encoder_packet_queue" where
  "encoder_pktqueue_pop_front q = (case pktlist q of
       [] \<Rightarrow> q
     | p # ps \<Rightarrow>
         let h1 = pq_head q + pk_size p + pk_padding p;
             h2 = (if h1 = pq_bufsize q then 0 else h1);
             q1 = q\<lparr>pktlist := ps, pq_datasize := pq_datasize q - pk_size p - pk_padding p, pq_head := h2\<rparr>
         in if h2 = pq_tail q then q1\<lparr>pq_head := 0, pq_tail := 0\<rparr> else q1)"

definition encoder_pktqueue_size :: "encoder_packet_queue \<Rightarrow> int" where
  "encoder_pktqueue_size q = pq_datasize q"

definition encoder_pktqueue_register_callback :: "encoder_packet_queue \<Rightarrow> nat \<Rightarrow> encoder_packet_queue" where
  "encoder_pktqueue_register_callback q cb = q\<lparr>queue_cb := smap_put (queue_cb q) cb cb\<rparr>"

definition encoder_pktqueue_unregister_callback :: "encoder_packet_queue \<Rightarrow> nat \<Rightarrow> encoder_packet_queue" where
  "encoder_pktqueue_unregister_callback q cb = q\<lparr>queue_cb := smap_erase (queue_cb q) cb\<rparr>"

section \<open>All channels\<close>

text \<open>
  The arrays have 3 elements (\<open>VIDEO_SOURCE_CHANNEL_MAX + 1\<close>); a channel beyond them is
  undefined. An allocation that fails ends the program; that branch is left out.
\<close>

record encoder_queues =
  pktqueue_initqsize :: int
  pktqueue_initchannels :: int
  pktqueue :: "encoder_packet_queue list"

definition pktqueue_fresh :: "int \<Rightarrow> encoder_packet_queue \<Rightarrow> encoder_packet_queue" where
  "pktqueue_fresh qsize q = q\<lparr>pq_buf := Some (replicate (nat qsize) 0), pq_bufsize := qsize,
     pq_datasize := 0, pq_head := 0, pq_tail := 0, pktlist := []\<rparr>"

definition encoder_pktqueue_init :: "int \<Rightarrow> int \<Rightarrow> encoder_queues \<Rightarrow> (int \<times> encoder_queues) option" where
  "encoder_pktqueue_init channels qsize st =
     (if channels > int (length (pktqueue st)) then None
      else Some (0, st\<lparr>pktqueue := map (pktqueue_fresh qsize) (take (nat channels) (pktqueue st))
             @ drop (nat channels) (pktqueue st),
           pktqueue_initqsize := qsize, pktqueue_initchannels := channels\<rparr>))"

definition pktqueue_reset1 :: "int \<Rightarrow> encoder_packet_queue \<Rightarrow> encoder_packet_queue" where
  "pktqueue_reset1 qsize q =
     q\<lparr>pktlist := [], pq_head := 0, pq_tail := 0, pq_datasize := 0, pq_bufsize := qsize\<rparr>"

definition encoder_pktqueue_reset_channel :: "nat \<Rightarrow> encoder_queues \<Rightarrow> (int \<times> encoder_queues) option" where
  "encoder_pktqueue_reset_channel ch st =
     (if ch < length (pktqueue st)
      then Some (0, st\<lparr>pktqueue := (pktqueue st)[ch := pktqueue_reset1 (pktqueue_initqsize st) (pktqueue st ! ch)]\<rparr>)
      else None)"

primrec pktqueue_reset_loop :: "nat \<Rightarrow> encoder_queues \<Rightarrow> encoder_queues option" where
  "pktqueue_reset_loop 0 st = Some st"
| "pktqueue_reset_loop (Suc n) st = do {
     st1 \<leftarrow> pktqueue_reset_loop n st;
     (r, st2) \<leftarrow> encoder_pktqueue_reset_channel n st1;
     Some st2 }"

definition encoder_pktqueue_reset :: "encoder_queues \<Rightarrow> (int \<times> encoder_queues) option" where
  "encoder_pktqueue_reset st =
     (if pktqueue_initchannels st \<le> 0 then Some (-1, st)
      else do { st' \<leftarrow> pktqueue_reset_loop (nat (pktqueue_initchannels st)) st; Some (0, st') })"

section \<open>The layout of the ring\<close>

definition span :: "encoder_packet \<Rightarrow> int" where
  "span p = pk_size p + pk_padding p"

definition spans :: "encoder_packet list \<Rightarrow> int" where
  "spans ps = sum_list (map span ps)"

text \<open>
  The packets \<open>ps\<close> lie one after the other on a ring of \<open>B\<close> bytes from position \<open>h\<close>, which
  counts bytes without wrapping; no packet crosses the end, and a padding reaches to the end.
\<close>

primrec laid_out :: "int \<Rightarrow> int \<Rightarrow> encoder_packet list \<Rightarrow> bool" where
  "laid_out B h [] \<longleftrightarrow> True"
| "laid_out B h (p # ps) \<longleftrightarrow> pk_data p = h mod B \<and> 0 < pk_size p \<and> 0 \<le> pk_padding p \<and>
     pk_data p + span p \<le> B \<and> (0 < pk_padding p \<longrightarrow> pk_data p + span p = B) \<and> laid_out B (h + span p) ps"

definition pktq_ok :: "encoder_packet_queue \<Rightarrow> bool" where
  "pktq_ok q \<longleftrightarrow> 0 < pq_bufsize q \<and> (\<exists>buf. pq_buf q = Some buf \<and> int (length buf) = pq_bufsize q) \<and>
     0 \<le> pq_head q \<and> pq_head q < pq_bufsize q \<and> laid_out (pq_bufsize q) (pq_head q) (pktlist q) \<and>
     pq_datasize q = spans (pktlist q) \<and> pq_datasize q \<le> pq_bufsize q \<and>
     pq_tail q = (pq_head q + spans (pktlist q)) mod pq_bufsize q"

definition pkt_value :: "encoder_packet_queue \<Rightarrow> encoder_packet \<Rightarrow> byte list \<times> int \<times> timeval" where
  "pkt_value q p = (the (c_read (the (pq_buf q)) (pk_data p) (pk_size p)), pk_pts_int64 p, pk_pts_tv p)"

definition pktq_items :: "encoder_packet_queue \<Rightarrow> (byte list \<times> int \<times> timeval) list" where
  "pktq_items q = map (pkt_value q) (pktlist q)"

lemma spans_simps [simp]: "spans [] = 0" "spans (p # ps) = span p + spans ps" "spans (ps @ qs) = spans ps + spans qs"
  by (simp_all add: spans_def)

lemma laid_out_append: "laid_out B h (ps @ qs) \<longleftrightarrow> laid_out B h ps \<and> laid_out B (h + spans ps) qs"
  by (induction ps arbitrary: h) (auto simp: add.assoc)

lemma laid_out_cong: "h mod B = h' mod B \<Longrightarrow> laid_out B h ps = laid_out B h' ps"
proof (induction ps arbitrary: h h')
  case (Cons p ps)
  have "(h + span p) mod B = (h' + span p) mod B" using Cons.prems by (rule mod_add_cong) simp
  from Cons.IH [OF this] show ?case by (simp only: laid_out.simps Cons.prems)
qed simp

lemma laid_out_pos: "laid_out B h ps \<Longrightarrow> 0 \<le> spans ps \<and> (ps \<noteq> [] \<longrightarrow> 0 < spans ps)"
  by (induction ps arbitrary: h) (auto simp: span_def add_pos_nonneg)

text \<open>Two stretches of the ring that do not overlap without wrapping do not overlap in it.\<close>

lemma ring_disjoint:
  fixes a b B x y :: int
  assumes "0 < B" and "a + x \<le> b" and "b + y \<le> a + B" and "0 \<le> x" and "0 \<le> y"
    and "a mod B + x \<le> B" and "b mod B + y \<le> B"
  shows "a mod B + x \<le> b mod B \<or> b mod B + y \<le> a mod B"
proof -
  have ab: "a = B * (a div B) + a mod B" "b = B * (b div B) + b mod B" by simp_all
  have m: "0 \<le> a mod B" "a mod B < B" "0 \<le> b mod B" "b mod B < B" using assms(1) by simp_all
  have le: "a div B \<le> b div B" using assms(1,2,4) by (intro zdiv_mono1) simp_all
  consider "b div B = a div B" | "b div B = a div B + 1" | "a div B + 2 \<le> b div B" using le by linarith
  then show ?thesis
  proof cases
    case 1
    then have "b - a = b mod B - a mod B" using ab by (metis add_diff_cancel_left)
    then show ?thesis using assms by linarith
  next
    case 2
    then have "b = B * (a div B) + B + b mod B" using ab(2) by (simp add: distrib_left)
    then have "b - a = B + b mod B - a mod B" using ab(1) by linarith
    then show ?thesis using assms by linarith
  next
    case 3
    then have "B * (a div B + 2) \<le> B * (b div B)" using assms(1) by (simp only: mult_le_cancel_left_pos)
    then have "B * (a div B) + 2 * B \<le> B * (b div B)" by (simp add: distrib_left mult.commute)
    then have "a + B < b" using ab m by linarith
    then show ?thesis using assms by linarith
  qed
qed

lemma laid_out_before:
  assumes "laid_out B h ps" and "0 < B" and "p \<in> set ps" and "h + spans ps + y \<le> h + B" and "0 \<le> y"
    and "(h + spans ps) mod B + y \<le> B"
  shows "pk_data p + pk_size p \<le> (h + spans ps) mod B \<or> (h + spans ps) mod B + y \<le> pk_data p"
proof -
  obtain xs zs where ps: "ps = xs @ p # zs" using assms(3) by (meson split_list)
  have l: "laid_out B h xs" "pk_data p = (h + spans xs) mod B" "0 < pk_size p" "0 \<le> pk_padding p"
    "pk_data p + span p \<le> B" "laid_out B (h + spans xs + span p) zs"
    using assms(1) by (simp_all add: ps laid_out_append)
  have pos: "0 \<le> spans xs" "0 \<le> spans zs" using laid_out_pos l(1,6) by blast+
  have "(h + spans xs) mod B + pk_size p \<le> (h + spans ps) mod B \<or> (h + spans ps) mod B + y \<le> (h + spans xs) mod B"
    using assms l pos by (intro ring_disjoint) (simp_all add: ps span_def)
  then show ?thesis using l(2) by simp
qed

lemma laid_out_bounds:
  "laid_out B h ps \<Longrightarrow> 0 < B \<Longrightarrow> p \<in> set ps \<Longrightarrow> 0 \<le> pk_data p \<and> 0 < pk_size p \<and> pk_data p + pk_size p \<le> B"
proof (induction ps arbitrary: h)
  case (Cons a ps)
  have "0 \<le> h mod B" using Cons.prems(2) by simp
  moreover have "p \<noteq> a \<Longrightarrow> 0 \<le> pk_data p \<and> 0 < pk_size p \<and> pk_data p + pk_size p \<le> B"
    using Cons by auto
  ultimately show ?case using Cons.prems by (cases "p = a") (simp_all add: span_def)
qed simp

text \<open>Making room: at most one jump back when the queue is well formed.\<close>

lemma place_ok:
  assumes q: "pktq_ok q" and sz: "0 < sz"
  shows "\<exists>ok q1. pktqueue_place (Suc (Suc f)) q sz = Some (ok, q1) \<and> pktq_ok q1 \<and> pktq_items q1 = pktq_items q \<and>
    pq_buf q1 = pq_buf q \<and> queue_cb q1 = queue_cb q \<and>
    (ok \<longrightarrow> pq_datasize q1 + sz \<le> pq_bufsize q1 \<and> pq_tail q1 + sz \<le> pq_bufsize q1)"
proof -
  let ?B = "pq_bufsize q"
  have B: "0 < ?B" and ds: "pq_datasize q = spans (pktlist q)" "pq_datasize q \<le> ?B"
    and lay: "laid_out ?B (pq_head q) (pktlist q)" and h: "0 \<le> pq_head q" "pq_head q < ?B"
    and t: "pq_tail q = (pq_head q + spans (pktlist q)) mod ?B"
    using q by (auto simp: pktq_ok_def)
  show ?thesis
  proof (cases "pq_datasize q + sz > ?B \<or> ?B - pq_tail q \<ge> sz")
    case True
    then show ?thesis using q by auto
  next
    case room: False
    show ?thesis
    proof (cases "pktlist q = []")
      case True
      let ?q = "q\<lparr>pq_datasize := 0, pq_tail := 0, pq_head := 0\<rparr>"
      have "pktq_ok ?q" using q True by (auto simp: pktq_ok_def)
      moreover have "pktqueue_place (Suc (Suc f)) q sz = Some (True, ?q)"
        using room True ds by auto
      ultimately show ?thesis using room True ds by (auto simp: pktq_items_def)
    next
      case False
      obtain ps p where ps: "pktlist q = ps @ [p]" using False by (metis rev_exhaust)
      let ?pad = "?B - pq_tail q"
      let ?p' = "p\<lparr>pk_padding := ?pad\<rparr>"
      let ?q = "q\<lparr>pktlist := ps @ [?p'], pq_datasize := pq_datasize q + ?pad, pq_tail := 0\<rparr>"
      have lp: "laid_out ?B (pq_head q) ps" "pk_data p = (pq_head q + spans ps) mod ?B" "0 < pk_size p"
        "0 \<le> pk_padding p" "pk_data p + span p \<le> ?B" "0 < pk_padding p \<longrightarrow> pk_data p + span p = ?B"
        using lay unfolding ps laid_out_append laid_out.simps by blast+
      have sp: "spans (pktlist q) = spans ps + span p" by (simp add: ps)
      have tpos: "0 < pq_tail q" "pq_tail q < ?B" using room ds laid_out_pos [OF lay] t B by auto
      have tail: "pq_tail q = (pk_data p + span p) mod ?B"
        unfolding t sp lp(2) mod_add_left_eq by (simp only: add.assoc)
      then have lt: "pk_data p + span p < ?B" using tpos lp(5) by (cases "pk_data p + span p = ?B") auto
      then have np: "pk_padding p = 0" using lp(4,6) by linarith
      have pd: "0 \<le> pk_data p" using lp(2) B by simp
      have te: "pq_tail q = pk_data p + pk_size p"
        using tail lt pd lp(3) np by (simp add: span_def)
      have span': "span ?p' = span p + ?pad" using np by (simp add: span_def)
      have sum: "spans (ps @ [?p']) = spans (pktlist q) + ?pad" using span' sp by simp
      have "laid_out ?B (pq_head q) (ps @ [?p'])"
        using lp(1-3) te tpos by (simp add: laid_out_append span_def)
      moreover have "(pq_head q + (spans (pktlist q) + ?pad)) mod ?B = 0"
      proof -
        have "(pq_head q + (spans (pktlist q) + ?pad)) mod ?B = ((pq_head q + spans (pktlist q)) mod ?B + ?pad) mod ?B"
          unfolding mod_add_left_eq by (simp only: add.assoc)
        also have "\<dots> = 0" unfolding t [symmetric] by simp
        finally show ?thesis .
      qed
      moreover have "pq_datasize q + ?pad \<le> ?B"
      proof -
        have "sz \<le> ?B - pq_datasize q" "?B - pq_tail q < sz" using room by linarith+
        then show ?thesis by linarith
      qed
      ultimately have ok: "pktq_ok ?q" using q sum ds(1) by (auto simp: pktq_ok_def)
      have items: "pktq_items ?q = pktq_items q"
      proof -
        have v: "pkt_value ?q x = pkt_value q x" for x by (simp add: pkt_value_def)
        have "pktq_items q = map (pkt_value q) (ps @ [p])" by (simp only: pktq_items_def ps)
        then show ?thesis by (simp add: pktq_items_def v) (simp add: pkt_value_def)
      qed
      have jump: "pktqueue_place (Suc (Suc f)) q sz = pktqueue_place (Suc f) ?q sz"
        using room by (simp add: ps Let_def)
      show ?thesis
      proof (cases "pq_datasize ?q + sz > ?B")
        case True
        then have "pktqueue_place (Suc f) ?q sz = Some (False, ?q)" by simp
        then show ?thesis using jump ok items by auto
      next
        case fits: False
        then have "sz \<le> ?B" using ok laid_out_pos [OF lay] tpos ds by simp
        then have "pktqueue_place (Suc f) ?q sz = Some (True, ?q)" using fits by simp
        then show ?thesis using jump ok items fits \<open>sz \<le> ?B\<close> by auto
      qed
    qed
  qed
qed

section \<open>The operations implement a queue of packets\<close>

lemma append_spec:
  assumes q: "pktq_ok q" and d: "d \<noteq> []"
  shows "\<exists>r q' cbs. encoder_pktqueue_append (Suc (Suc f)) now q d pts ptv = Some (r, q', cbs) \<and> pktq_ok q' \<and>
    (r = 0 \<and> pktq_items q' = pktq_items q @ [(d, pts, (case ptv of Some t \<Rightarrow> t | None \<Rightarrow> now))] \<and>
       cbs = map snd (queue_cb q) \<or>
     r = -1 \<and> pktq_items q' = pktq_items q \<and> cbs = [])"
proof -
  have sz: "0 < int (length d)" using d by simp
  obtain ok q1 where p: "pktqueue_place (Suc (Suc f)) q (int (length d)) = Some (ok, q1)" "pktq_ok q1"
    "pktq_items q1 = pktq_items q" "queue_cb q1 = queue_cb q"
    "ok \<longrightarrow> pq_datasize q1 + int (length d) \<le> pq_bufsize q1 \<and> pq_tail q1 + int (length d) \<le> pq_bufsize q1"
    using place_ok [OF q sz, of f] by blast
  show ?thesis
  proof (cases ok)
    case False
    then show ?thesis using p by (simp add: encoder_pktqueue_append_def del: pktqueue_place.simps)
  next
    case True
    let ?B = "pq_bufsize q1" and ?t = "pq_tail q1"
    have i: "0 < ?B" "0 \<le> pq_head q1" "pq_head q1 < ?B" "laid_out ?B (pq_head q1) (pktlist q1)"
      "pq_datasize q1 = spans (pktlist q1)" "?t = (pq_head q1 + spans (pktlist q1)) mod ?B"
      using p(2) by (auto simp: pktq_ok_def)
    obtain buf where buf: "pq_buf q1 = Some buf" "int (length buf) = ?B"
      using p(2) by (auto simp: pktq_ok_def)
    have room: "pq_datasize q1 + int (length d) \<le> ?B" "?t + int (length d) \<le> ?B" using p(5) True by auto
    have t0: "0 \<le> ?t" using i(1,6) by simp
    obtain buf' where w: "c_write buf ?t d = Some buf'" "length buf' = length buf"
      using c_write_defined [OF t0, of d buf] room(2) buf(2) by auto
    define qp where "qp = \<lparr>pk_data = ?t, pk_size = int (length d), pk_pts_int64 = pts,
      pk_pts_tv = (case ptv of Some t \<Rightarrow> t | None \<Rightarrow> now), pk_padding = 0\<rparr>"
    let ?tl = "?t + int (length d)"
    let ?q' = "q1\<lparr>pq_buf := Some buf', pq_tail := (if ?tl = ?B then 0 else ?tl),
      pq_datasize := pq_datasize q1 + int (length d), pktlist := pktlist q1 @ [qp]\<rparr>"
    have r: "encoder_pktqueue_append (Suc (Suc f)) now q d pts ptv = Some (0, ?q', map snd (queue_cb q))"
      using p True buf(1) w(1) by (simp add: encoder_pktqueue_append_def Let_def qp_def del: pktqueue_place.simps)
    have sp: "span qp = int (length d)" by (simp add: span_def qp_def)
    have "laid_out ?B (pq_head q1) (pktlist q1 @ [qp])"
      using i(4,6) sz room(2) sp by (simp add: laid_out_append) (simp add: qp_def)
    moreover have "(if ?tl = ?B then 0 else ?tl) = (pq_head q1 + spans (pktlist q1 @ [qp])) mod ?B"
    proof -
      have "(pq_head q1 + spans (pktlist q1 @ [qp])) mod ?B = (?t + int (length d)) mod ?B"
        unfolding i(6) mod_add_left_eq by (simp add: sp add.assoc)
      then show ?thesis using room(2) t0 by (cases "?tl = ?B") simp_all
    qed
    ultimately have ok: "pktq_ok ?q'"
      using i buf w(2) room(1) sp by (auto simp: pktq_ok_def)
    have keep: "pkt_value ?q' x = pkt_value q1 x" if x: "x \<in> set (pktlist q1)" for x
    proof -
      have "pk_data x + pk_size x \<le> ?t \<or> ?t + int (length d) \<le> pk_data x"
        using laid_out_before [OF i(4,1) x, of "int (length d)"] room i(5,6) by auto
      then show ?thesis using c_read_write_disjoint [OF w(1)] buf(1) by (auto simp: pkt_value_def)
    qed
    have new: "pkt_value ?q' qp = (d, pts, (case ptv of Some t \<Rightarrow> t | None \<Rightarrow> now))"
      using c_read_write_same [OF w(1)] by (simp add: pkt_value_def qp_def)
    have "pktq_items ?q' = map (pkt_value ?q') (pktlist q1) @ [pkt_value ?q' qp]"
      by (simp add: pktq_items_def)
    then have "pktq_items ?q' = pktq_items q1 @ [(d, pts, (case ptv of Some t \<Rightarrow> t | None \<Rightarrow> now))]"
      unfolding new using keep by (simp add: pktq_items_def cong: map_cong)
    then show ?thesis using r ok p(3)
      by (intro exI [of _ 0] exI [of _ ?q'] exI [of _ "map snd (queue_cb q)"]) (simp only: simp_thms)
  qed
qed

lemma pop_spec:
  assumes q: "pktq_ok q"
  shows "pktq_ok (encoder_pktqueue_pop_front q) \<and> pktq_items (encoder_pktqueue_pop_front q) = tl (pktq_items q)"
proof (cases "pktlist q")
  case Nil
  then show ?thesis using q by (simp add: encoder_pktqueue_pop_front_def pktq_items_def)
next
  case (Cons p ps)
  let ?B = "pq_bufsize q" and ?h = "pq_head q"
  have i: "0 < ?B" "0 \<le> ?h" "?h < ?B" "pk_data p = ?h mod ?B" "0 < pk_size p" "0 \<le> pk_padding p"
    "pk_data p + span p \<le> ?B" "laid_out ?B (?h + span p) ps"
    "pq_datasize q = span p + spans ps" "pq_datasize q \<le> ?B"
    "pq_tail q = (?h + (span p + spans ps)) mod ?B"
    using q unfolding pktq_ok_def Cons laid_out.simps spans_simps by blast+
  define h2 where "h2 = (if ?h + pk_size p + pk_padding p = ?B then 0 else ?h + pk_size p + pk_padding p)"
  have hd: "pk_data p = ?h" using i by simp
  have h2: "h2 = (?h + span p) mod ?B"
    using i hd by (cases "?h + span p = ?B") (simp_all add: h2_def span_def)
  let ?q1 = "q\<lparr>pktlist := ps, pq_datasize := pq_datasize q - pk_size p - pk_padding p, pq_head := h2\<rparr>"
  have lay: "laid_out ?B h2 ps" using laid_out_cong [of "?h + span p" ?B h2 ps] i(8) h2 by simp
  have tl: "pq_tail q = (h2 + spans ps) mod ?B"
    unfolding i(11) h2 mod_add_left_eq by (simp only: add.assoc)
  have pos: "0 \<le> spans ps" "ps \<noteq> [] \<longrightarrow> 0 < spans ps" using laid_out_pos [OF i(8)] by blast+
  have sp: "0 < span p" using i(5,6) by (simp add: span_def)
  have ds: "pq_datasize q - pk_size p - pk_padding p = spans ps" using i(9) by (simp add: span_def)
  have it: "pktq_items ?q1 = tl (pktq_items q)"
    using Cons by (simp add: pktq_items_def pkt_value_def)
  have hb: "0 \<le> h2" "h2 < ?B" using h2 i(1) by simp_all
  have ok1: "pktq_ok ?q1"
    using q lay tl ds i pos sp hb by (auto simp: pktq_ok_def)
  have e: "h2 = pq_tail q \<longrightarrow> ps = []"
  proof
    assume "h2 = pq_tail q"
    then have "(h2 + spans ps) mod ?B = h2 mod ?B" using tl hb by simp
    then have "?B dvd spans ps" by (metis add_diff_cancel_left' mod_eq_dvd_iff)
    moreover have "spans ps < ?B" using i(9,10) sp by linarith
    ultimately have "spans ps = 0" using pos(1) by (metis zdvd_not_zless le_less)
    then show "ps = []" using pos(2) by auto
  qed
  have pop: "encoder_pktqueue_pop_front q = (if h2 = pq_tail q then ?q1\<lparr>pq_head := 0, pq_tail := 0\<rparr> else ?q1)"
    using Cons by (simp add: encoder_pktqueue_pop_front_def Let_def h2_def)
  show ?thesis
  proof (cases "h2 = pq_tail q")
    case True
    have "pktq_ok (?q1\<lparr>pq_head := 0, pq_tail := 0\<rparr>)" using ok1 e True i(1) by (auto simp: pktq_ok_def)
    moreover have "pkt_value (?q1\<lparr>pq_head := 0, pq_tail := 0\<rparr>) = pkt_value ?q1"
      by (simp add: pkt_value_def fun_eq_iff)
    then have "pktq_items (?q1\<lparr>pq_head := 0, pq_tail := 0\<rparr>) = tl (pktq_items q)"
      using it by (simp add: pktq_items_def)
    ultimately show ?thesis using pop True by simp
  next
    case False
    then show ?thesis using pop ok1 it by simp
  qed
qed

lemma split_spec:
  assumes q: "pktq_ok q" and p: "pktlist q = p # ps" and o: "pk_data p < off" "off < pk_data p + pk_size p"
  shows "pktq_ok (encoder_pktqueue_split_packet q off) \<and>
    pktq_items (encoder_pktqueue_split_packet q off) =
      (take (nat (off - pk_data p)) (fst (pkt_value q p)), snd (pkt_value q p)) #
      (drop (nat (off - pk_data p)) (fst (pkt_value q p)), snd (pkt_value q p)) # tl (pktq_items q)"
proof -
  let ?B = "pq_bufsize q"
  let ?n = "p\<lparr>pk_size := off - pk_data p, pk_padding := 0\<rparr>"
  let ?r = "p\<lparr>pk_data := off, pk_size := pk_size p - (off - pk_data p)\<rparr>"
  let ?q = "q\<lparr>pktlist := ?n # ?r # ps\<rparr>"
  have e: "encoder_pktqueue_split_packet q off = ?q"
    using p o by (simp add: encoder_pktqueue_split_packet_def)
  have i: "0 < ?B" "0 \<le> pq_head q" "pq_head q < ?B" "pk_data p = pq_head q mod ?B" "0 \<le> pk_padding p"
    "pk_data p + span p \<le> ?B" "0 < pk_padding p \<longrightarrow> pk_data p + span p = ?B" "laid_out ?B (pq_head q + span p) ps"
    using q unfolding pktq_ok_def p laid_out.simps spans_simps by blast+
  have hd: "pk_data p = pq_head q" using i by simp
  have s: "span ?n + span ?r = span p" "span ?n = off - pk_data p" by (simp_all add: span_def)
  have "off < ?B" using o i by (simp add: span_def)
  then have m: "off = (pq_head q + (off - pk_data p)) mod ?B" using hd o i(2) by simp
  have "pktq_ok ?q"
    using q p i o s m hd by (auto simp: pktq_ok_def span_def algebra_simps)
  moreover have "pktq_items ?q = (take (nat (off - pk_data p)) (fst (pkt_value q p)), snd (pkt_value q p)) #
      (drop (nat (off - pk_data p)) (fst (pkt_value q p)), snd (pkt_value q p)) # tl (pktq_items q)"
  proof -
    obtain buf where buf: "pq_buf q = Some buf" "int (length buf) = ?B" using q by (auto simp: pktq_ok_def)
    obtain d where d: "c_read buf (pk_data p) (pk_size p) = Some d"
      using c_read_defined [of "pk_data p" "pk_size p" buf] i o buf by (auto simp: span_def)
    then have d': "c_read buf (pk_data p) ((off - pk_data p) + (pk_size p - (off - pk_data p))) = Some d" by simp
    note sp = c_read_split [OF d']
    have "c_read buf (pk_data p) (off - pk_data p) = Some (take (nat (off - pk_data p)) d)"
      "c_read buf off (pk_size p - (off - pk_data p)) = Some (drop (nat (off - pk_data p)) d)"
      using sp o by simp_all
    then show ?thesis using d buf(1) p by (simp add: pktq_items_def pkt_value_def)
  qed
  ultimately show ?thesis using e by simp
qed

section \<open>The queue interface\<close>

definition pktq_enq :: "encoder_packet_queue \<Rightarrow> byte list \<times> int \<times> timeval \<Rightarrow> bool \<times> encoder_packet_queue" where
  "pktq_enq q x = (case x of (d, pts, tv) \<Rightarrow>
     (case encoder_pktqueue_append 2 tv q d pts (Some tv) of
        None \<Rightarrow> (False, q) | Some (r, q', cbs) \<Rightarrow> (r = 0, q')))"

definition pktq_front :: "encoder_packet_queue \<Rightarrow> (byte list \<times> int \<times> timeval) option" where
  "pktq_front q = map_option (pkt_value q) (encoder_pktqueue_front q)"

definition pktq_valid :: "byte list \<times> int \<times> timeval \<Rightarrow> bool" where
  "pktq_valid x \<longleftrightarrow> fst x \<noteq> []"

interpretation pq: bounded_fifo pktq_enq pktq_front encoder_pktqueue_pop_front pktq_items pktq_ok pktq_valid
proof unfold_locales
  fix q :: encoder_packet_queue and x :: "byte list \<times> int \<times> timeval"
  assume q: "pktq_ok q" and v: "pktq_valid x"
  obtain d pts tv where x: "x = (d, pts, tv)" by (rule prod_cases3)
  have d: "d \<noteq> []" using v by (simp add: pktq_valid_def x)
  obtain r q' cbs where a: "encoder_pktqueue_append 2 tv q d pts (Some tv) = Some (r, q', cbs)" "pktq_ok q'"
    "r = 0 \<and> pktq_items q' = pktq_items q @ [(d, pts, tv)] \<or> r = -1 \<and> pktq_items q' = pktq_items q"
    using append_spec [OF q d, of 0 tv pts "Some tv"] by (auto simp: numeral_2_eq_2)
  show "pktq_ok (snd (pktq_enq q x))" using a by (simp add: pktq_enq_def x)
  show "pktq_items (snd (pktq_enq q x)) = (if fst (pktq_enq q x) then pktq_items q @ [x] else pktq_items q)"
    using a by (auto simp: pktq_enq_def x)
next
  fix q :: encoder_packet_queue
  assume q: "pktq_ok q"
  show "pktq_front q = (case pktq_items q of [] \<Rightarrow> None | x # _ \<Rightarrow> Some x)"
    by (cases "pktlist q") (simp_all add: pktq_front_def encoder_pktqueue_front_def pktq_items_def)
  show "pktq_ok (encoder_pktqueue_pop_front q)" "pktq_items (encoder_pktqueue_pop_front q) = tl (pktq_items q)"
    using pop_spec [OF q] by blast+
qed

text \<open>C1. The packet queue delivers what it accepted: over any sequence of appends of non-empty
  packets and of removals, the packets read at the front before each removal, followed by
  those still queued, are the packets queued at the start followed by the accepted ones, with
  their data, their time stamps and their order; the ring stays well formed.\<close>

theorem encoder_pktqueue_fifo:
  assumes "pktq_ok q" and "ops_ok pktq_valid ops"
    and "fifo_run pktq_enq pktq_front encoder_pktqueue_pop_front q ops = (q', accepted, delivered)"
  shows "pktq_ok q' \<and> pktq_items q @ accepted = delivered @ pktq_items q'"
  using pq.run_fifo [OF assms] .

text \<open>Appending always returns, after at most one jump back to the size check, and writes only
  inside the buffer: either the packet is added at the end and every callback of the channel
  is called once, or it is dropped with -1, no packet is lost and no callback is called.\<close>

theorem encoder_pktqueue_append_total:
  assumes "pktq_ok q" and "d \<noteq> []" and "2 \<le> fuel"
  shows "\<exists>r q' cbs. encoder_pktqueue_append fuel now q d pts ptv = Some (r, q', cbs) \<and> pktq_ok q' \<and>
    (r = 0 \<and> pktq_items q' = pktq_items q @ [(d, pts, (case ptv of Some t \<Rightarrow> t | None \<Rightarrow> now))] \<and>
       cbs = map snd (queue_cb q) \<or>
     r = -1 \<and> pktq_items q' = pktq_items q \<and> cbs = [])"
proof -
  obtain f where "fuel = Suc (Suc f)" using assms(3) by (metis add_2_eq_Suc le_Suc_ex)
  then show ?thesis using append_spec [OF assms(1,2), of f now pts ptv] by simp
qed

text \<open>Splitting the first packet at a position strictly inside it gives two packets with the
  same time stamps whose data, put together, are the data of the packet; the rest of the
  queue is unchanged.\<close>

theorem encoder_pktqueue_split_joins:
  assumes "pktq_ok q" and "pktlist q = p # ps" and "pk_data p < off" and "off < pk_data p + pk_size p"
  shows "\<exists>a b t. pktq_items q = (a @ b, t) # map (pkt_value q) ps \<and>
    pktq_items (encoder_pktqueue_split_packet q off) = (a, t) # (b, t) # map (pkt_value q) ps \<and>
    int (length a) = off - pk_data p \<and> pktq_ok (encoder_pktqueue_split_packet q off)"
proof -
  let ?d = "fst (pkt_value q p)" and ?n = "nat (off - pk_data p)"
  have "0 < pq_bufsize q" "laid_out (pq_bufsize q) (pq_head q) (p # ps)"
    using assms(1,2) by (auto simp: pktq_ok_def)
  from laid_out_bounds [OF this(2,1), of p]
  have b: "0 \<le> pk_data p" "0 < pk_size p" "pk_data p + pk_size p \<le> pq_bufsize q" by auto
  obtain buf where "pq_buf q = Some buf" "int (length buf) = pq_bufsize q" using assms(1) by (auto simp: pktq_ok_def)
  then have "int (length ?d) = pk_size p" using b by (simp add: pkt_value_def c_read_def)
  then have l: "int (length (take ?n ?d)) = off - pk_data p" using assms(3,4) by simp
  have i: "pktq_items q = (take ?n ?d @ drop ?n ?d, snd (pkt_value q p)) # map (pkt_value q) ps"
    using assms(2) by (simp add: pktq_items_def)
  note sp = split_spec [OF assms]
  then have "pktq_items (encoder_pktqueue_split_packet q off) =
      (take ?n ?d, snd (pkt_value q p)) # (drop ?n ?d, snd (pkt_value q p)) # map (pkt_value q) ps"
    using i by simp
  then show ?thesis using i l sp by blast
qed

section \<open>Initialisation and reset\<close>

lemma fresh_ok: "0 < qsize \<Longrightarrow> pktq_ok (pktqueue_fresh qsize q) \<and> pktq_items (pktqueue_fresh qsize q) = []"
  by (simp add: pktqueue_fresh_def pktq_ok_def pktq_items_def)

lemma reset_loop_nth:
  "n \<le> length (pktqueue st) \<Longrightarrow> \<exists>st'. pktqueue_reset_loop n st = Some st' \<and>
    length (pktqueue st') = length (pktqueue st) \<and> pktqueue_initqsize st' = pktqueue_initqsize st \<and>
    pktqueue_initchannels st' = pktqueue_initchannels st \<and>
    (\<forall>i<length (pktqueue st). pktqueue st' ! i =
      (if i < n then pktqueue_reset1 (pktqueue_initqsize st) (pktqueue st ! i) else pktqueue st ! i))"
proof (induction n)
  case (Suc n)
  then obtain st1 where s: "pktqueue_reset_loop n st = Some st1" "length (pktqueue st1) = length (pktqueue st)"
    "pktqueue_initqsize st1 = pktqueue_initqsize st" "pktqueue_initchannels st1 = pktqueue_initchannels st"
    "\<forall>i<length (pktqueue st). pktqueue st1 ! i =
      (if i < n then pktqueue_reset1 (pktqueue_initqsize st) (pktqueue st ! i) else pktqueue st ! i)"
    by auto
  then show ?case using Suc.prems
    by (auto simp: encoder_pktqueue_reset_channel_def nth_list_update less_Suc_eq)
qed simp

text \<open>After initialising \<open>channels\<close> queues, whatever happens to them, a reset empties every one
  of them and leaves it well formed, provided their buffers are still the ones allocated.\<close>

theorem encoder_pktqueue_reset_empties:
  assumes "0 < pktqueue_initchannels st" and "pktqueue_initchannels st \<le> int (length (pktqueue st))"
    and "0 < pktqueue_initqsize st"
    and "\<forall>q\<in>set (pktqueue st). \<exists>buf. pq_buf q = Some buf \<and> int (length buf) = pktqueue_initqsize st"
  shows "\<exists>st'. encoder_pktqueue_reset st = Some (0, st') \<and>
    (\<forall>i<nat (pktqueue_initchannels st). pktq_ok (pktqueue st' ! i) \<and> pktq_items (pktqueue st' ! i) = [])"
proof -
  let ?n = "nat (pktqueue_initchannels st)"
  have n: "?n \<le> length (pktqueue st)" using assms(1,2) by linarith
  obtain st' where s: "pktqueue_reset_loop ?n st = Some st'" "\<forall>i<length (pktqueue st). pktqueue st' ! i =
      (if i < ?n then pktqueue_reset1 (pktqueue_initqsize st) (pktqueue st ! i) else pktqueue st ! i)"
    using reset_loop_nth [OF n] by blast
  have "pktq_ok (pktqueue st' ! i) \<and> pktq_items (pktqueue st' ! i) = []" if "i < ?n" for i
  proof -
    have i: "i < length (pktqueue st)" using that n by simp
    then have "pktqueue st' ! i = pktqueue_reset1 (pktqueue_initqsize st) (pktqueue st ! i)" using s(2) that by simp
    moreover obtain buf where "pq_buf (pktqueue st ! i) = Some buf" "int (length buf) = pktqueue_initqsize st"
      using assms(4) i by (meson nth_mem)
    ultimately show ?thesis using assms(3) by (simp add: pktqueue_reset1_def pktq_ok_def pktq_items_def)
  qed
  then show ?thesis using s(1) assms(1) by (simp add: encoder_pktqueue_reset_def)
qed

section \<open>Witnesses\<close>

definition example_pktq :: encoder_packet_queue where
  "example_pktq = pktqueue_fresh 8 \<lparr>pq_buf = None, pq_bufsize = 0, pq_datasize = 0, pq_head = 0, pq_tail = 0,
     pktlist = [], queue_cb = []\<rparr>"

lemma example_pktq_ok: "pktq_ok example_pktq" "pktq_items example_pktq = []"
  using fresh_ok [of 8] by (simp_all add: example_pktq_def)

definition example_tv :: timeval where
  "example_tv = \<lparr>tv_sec = 1, tv_usec = 2\<rparr>"

theorem encoder_pktqueue_fifo_witness:
  "\<exists>q' acc out. fifo_run pktq_enq pktq_front encoder_pktqueue_pop_front example_pktq
      [Enq ([1, 2, 3], 5, example_tv), Enq ([4, 5, 6], 6, example_tv), Deq, Enq ([7, 8, 9], 7, example_tv)] = (q', acc, out)
    \<and> acc = out @ pktq_items q'"
proof -
  let ?ops = "[Enq ([1, 2, 3], 5, example_tv), Enq ([4, 5, 6], 6, example_tv), Deq, Enq ([7, 8, 9], 7, example_tv)]
    :: (byte list \<times> int \<times> timeval) fifo_op list"
  obtain q' acc out where r: "fifo_run pktq_enq pktq_front encoder_pktqueue_pop_front example_pktq ?ops = (q', acc, out)"
    by (rule prod_cases3)
  have "ops_ok pktq_valid ?ops" by (simp add: pktq_valid_def)
  from encoder_pktqueue_fifo [OF example_pktq_ok(1) this r] example_pktq_ok(2) r show ?thesis by auto
qed

theorem encoder_pktqueue_append_total_witness:
  "\<exists>r q' cbs. encoder_pktqueue_append 2 example_tv example_pktq [1, 2] 3 None = Some (r, q', cbs) \<and> pktq_ok q'"
  using encoder_pktqueue_append_total [OF example_pktq_ok(1), of "[1, 2]" 2 example_tv 3 None] by auto

definition example_pktq1 :: encoder_packet_queue where
  "example_pktq1 = example_pktq\<lparr>pq_buf := Some [1, 2, 3, 4, 0, 0, 0, 0], pq_tail := 4, pq_datasize := 4,
     pktlist := [\<lparr>pk_data = 0, pk_size = 4, pk_pts_int64 = 9, pk_pts_tv = example_tv, pk_padding = 0\<rparr>]\<rparr>"

theorem encoder_pktqueue_split_joins_witness:
  "\<exists>a b t. pktq_items example_pktq1 = [(a @ b, t)] \<and>
    pktq_items (encoder_pktqueue_split_packet example_pktq1 1) = [(a, t), (b, t)]"
proof -
  have "pktq_ok example_pktq1"
    by (simp add: example_pktq1_def example_pktq_def pktqueue_fresh_def pktq_ok_def span_def)
  from encoder_pktqueue_split_joins [OF this, of _ _ 1] show ?thesis by (auto simp: example_pktq1_def)
qed

theorem encoder_pktqueue_reset_empties_witness:
  "\<exists>st'. encoder_pktqueue_reset \<lparr>pktqueue_initqsize = 8, pktqueue_initchannels = 1, pktqueue = [example_pktq1]\<rparr> = Some (0, st') \<and>
    pktq_items (pktqueue st' ! 0) = []"
  using encoder_pktqueue_reset_empties [of "\<lparr>pktqueue_initqsize = 8, pktqueue_initchannels = 1, pktqueue = [example_pktq1]\<rparr>"]
  by (auto simp: example_pktq1_def)

end
