(* ===== verification/EncoderCore.thy ===== *)
theory EncoderCore
  imports GaModule PktQueue GaCommon
begin

text \<open>
  The first half of \<open>core/encoder-common.cpp\<close>: the registered encoders and sink server, the
  life cycle of the encoders driven by the number of clients, the common clock of the
  encoders, and the queues that map presentation time stamps back to times. Each function
  runs under its lock. A program that exits is \<open>Inl\<close> its code; the conversion of an elapsed
  time to a time stamp is floating-point and is an argument.
\<close>

record 'w encoder_state =
  encoder_clients :: "(nat, nat) smap"
  threadLaunched :: bool
  sync_reset :: bool
  synctv :: timeval
  vencoder :: "'w ga_module option"
  aencoder :: "'w ga_module option"
  sinkserver :: "'w ga_module option"
  vencoder_param :: nat
  aencoder_param :: nat
  enc_queues :: encoder_queues

section \<open>The common clock\<close>

text \<open>\<open>scale us rate\<close> is \<open>(int) (0.000001 * us * rate)\<close>.\<close>

definition encoder_pts_sync :: "(int \<Rightarrow> int \<Rightarrow> int) \<Rightarrow> timeval \<Rightarrow> int \<Rightarrow> 'w encoder_state \<Rightarrow> int \<times> 'w encoder_state" where
  "encoder_pts_sync scale now samplerate s =
     (if sync_reset s then (0, s\<lparr>synctv := now, sync_reset := False\<rparr>)
      else let ret = scale (tvdiff_us now (synctv s)) samplerate in ((if ret > 0 then ret else 0), s))"

section \<open>Registration\<close>

definition encoder_running :: "'w encoder_state \<Rightarrow> int" where
  "encoder_running s = (if threadLaunched s then 1 else 0)"

definition encoder_register_vencoder :: "'w ga_module \<Rightarrow> nat \<Rightarrow> 'w encoder_state \<Rightarrow> int \<times> 'w encoder_state" where
  "encoder_register_vencoder m param s = (0, s\<lparr>vencoder := Some m, vencoder_param := param\<rparr>)"

definition encoder_register_aencoder :: "'w ga_module \<Rightarrow> nat \<Rightarrow> 'w encoder_state \<Rightarrow> int \<times> 'w encoder_state" where
  "encoder_register_aencoder m param s = (0, s\<lparr>aencoder := Some m, aencoder_param := param\<rparr>)"

definition encoder_register_sinkserver :: "'w ga_module \<Rightarrow> 'w encoder_state \<Rightarrow> int \<times> 'w encoder_state" where
  "encoder_register_sinkserver m s =
     (if m_send_packet m = None then (-1, s) else (0, s\<lparr>sinkserver := Some m\<rparr>))"

definition encoder_get_vencoder :: "'w encoder_state \<Rightarrow> 'w ga_module option" where
  "encoder_get_vencoder s = vencoder s"

definition encoder_get_aencoder :: "'w encoder_state \<Rightarrow> 'w ga_module option" where
  "encoder_get_aencoder s = aencoder s"

definition encoder_get_sinkserver :: "'w encoder_state \<Rightarrow> 'w ga_module option" where
  "encoder_get_sinkserver s = sinkserver s"

definition encoder_send_packet :: "'w encoder_state \<Rightarrow> 'w \<Rightarrow> int \<Rightarrow> byte list \<Rightarrow> int \<Rightarrow> timeval option \<Rightarrow> (int \<times> 'w) option" where
  "encoder_send_packet s w ch pkt pts ptv = (case sinkserver s of
       None \<Rightarrow> Some (-1, w)
     | Some m \<Rightarrow> do { f \<leftarrow> m_send_packet m; Some (f w ch pkt pts ptv) })"

section \<open>Clients\<close>

text \<open>Calling an interface if the module and the interface are there; the result 0 otherwise.\<close>

definition call_if :: "('w ga_module \<Rightarrow> 'w mfun option) \<Rightarrow> 'w ga_module option \<Rightarrow> nat \<Rightarrow> 'w \<Rightarrow> int \<times> 'w" where
  "call_if sel m param w = (case m of None \<Rightarrow> (0, w)
     | Some m \<Rightarrow> (case sel m of None \<Rightarrow> (0, w) | Some f \<Rightarrow> f w param))"

definition encoder_register_client :: "nat \<Rightarrow> 'w encoder_state \<Rightarrow> 'w \<Rightarrow> int + 'w encoder_state \<times> 'w" where
  "encoder_register_client rtsp s w =
     (if encoder_clients s = [] then
        (case call_if m_init (vencoder s) (vencoder_param s) w of (r1, w1) \<Rightarrow>
         if r1 < 0 then Inl (-1) else
         (case call_if m_init (aencoder s) (aencoder_param s) w1 of (r2, w2) \<Rightarrow>
          if r2 < 0 then Inl (-1) else
          let s1 = s\<lparr>threadLaunched := True\<rparr> in
          (case call_if m_start (vencoder s1) (vencoder_param s1) w2 of (r3, w3) \<Rightarrow>
           if r3 < 0 then Inl (-1) else
           (case call_if m_start (aencoder s1) (aencoder_param s1) w3 of (r4, w4) \<Rightarrow>
            if r4 < 0 then Inl (-1)
            else Inr (s1\<lparr>encoder_clients := smap_put (encoder_clients s1) rtsp rtsp\<rparr>, w4)))))
      else Inr (s\<lparr>encoder_clients := smap_put (encoder_clients s) rtsp rtsp\<rparr>, w))"

definition encoder_unregister_client :: "nat \<Rightarrow> 'w encoder_state \<Rightarrow> 'w \<Rightarrow> (int \<times> 'w encoder_state \<times> 'w) option" where
  "encoder_unregister_client rtsp s w =
     (let s1 = s\<lparr>encoder_clients := smap_erase (encoder_clients s) rtsp\<rparr>
      in if encoder_clients s1 = [] then
           let s2 = s1\<lparr>threadLaunched := False\<rparr>;
               w1 = snd (call_if m_stop (vencoder s2) (vencoder_param s2) w);
               w2 = snd (call_if m_deinit (vencoder s2) (vencoder_param s2) w1);
               w3 = snd (call_if m_stop (aencoder s2) (aencoder_param s2) w2);
               w4 = snd (call_if m_deinit (aencoder s2) (aencoder_param s2) w3)
           in do { (r, qs) \<leftarrow> encoder_pktqueue_reset (enc_queues s2);
                   Some (0, s2\<lparr>enc_queues := qs, sync_reset := True\<rparr>, w4) }
         else Some (0, s1, w))"

section \<open>From time stamps to times\<close>

record encoder_pts_t =
  ep_pts :: int
  ep_ptv :: timeval

text \<open>The array \<open>pts_queue\<close> has 8 lists.\<close>

definition encoder_pts_clear :: "encoder_pts_t list list \<Rightarrow> nat \<Rightarrow> int \<times> encoder_pts_t list list" where
  "encoder_pts_clear pq queueid = (if queueid \<ge> 8 then (-1, pq) else (0, pq[queueid := []]))"

definition encoder_pts_put :: "encoder_pts_t list list \<Rightarrow> nat \<Rightarrow> int \<Rightarrow> timeval \<Rightarrow> int \<times> encoder_pts_t list list" where
  "encoder_pts_put pq queueid pts ptv =
     (if queueid \<ge> 8 then (-1, pq)
      else (0, pq[queueid := (pq ! queueid) @ [\<lparr>ep_pts = pts, ep_ptv = ptv\<rparr>]]))"

text \<open>The time before that of an entry by \<open>delta_ts\<close>, as the interpolation computes it.\<close>

definition ptv_back :: "timeval \<Rightarrow> int \<Rightarrow> int \<Rightarrow> timeval" where
  "ptv_back tv delta_ts interpolation =
     (let delta_tv = delta_ts div interpolation;
          sec = tv_sec tv - delta_tv div 1000000;
          d = delta_tv mod 1000000
      in if tv_usec tv < d then \<lparr>tv_sec = sec - 1, tv_usec = tv_usec tv + 1000000 - d\<rparr>
         else \<lparr>tv_sec = sec, tv_usec = tv_usec tv - d\<rparr>)"

text \<open>
  The loop on one queue. The quotient \<open>1.0 * delta_ts / interpolation\<close> is rounded towards zero;
  for the positive differences below 2^53 that occur it is the integer quotient.
\<close>

primrec ptv_get_loop :: "encoder_pts_t list \<Rightarrow> int \<Rightarrow> int \<Rightarrow> timeval option \<times> encoder_pts_t list" where
  "ptv_get_loop [] pts interpolation = (None, [])"
| "ptv_get_loop (e # es) pts interpolation =
     (if pts > ep_pts e then ptv_get_loop es pts interpolation
      else if ep_pts e = pts then (Some (ep_ptv e), es)
      else if interpolation > 0 then (Some (ptv_back (ep_ptv e) (ep_pts e - pts) interpolation), e # es)
      else (None, e # es))"

definition encoder_ptv_get :: "encoder_pts_t list list \<Rightarrow> nat \<Rightarrow> int \<Rightarrow> int \<Rightarrow> timeval option \<times> encoder_pts_t list list" where
  "encoder_ptv_get pq queueid pts interpolation =
     (if queueid \<ge> 8 then (None, pq)
      else (case ptv_get_loop (pq ! queueid) pts interpolation of (r, q) \<Rightarrow> (r, pq[queueid := q])))"

section \<open>The life cycle of the encoders\<close>

text \<open>An encoder that records the calls it gets and never fails.\<close>

datatype enc_call = C_init nat | C_start nat | C_stop nat | C_deinit nat

definition probe :: "nat \<Rightarrow> enc_call list ga_module" where
  "probe k = \<lparr>m_handle = 0, m_type = 0, m_name = [], m_mimetype = [],
     m_init = Some (\<lambda>w a. (0, w @ [C_init k])), m_start = Some (\<lambda>w a. (0, w @ [C_start k])),
     m_stop = Some (\<lambda>w a. (0, w @ [C_stop k])), m_deinit = Some (\<lambda>w a. (0, w @ [C_deinit k])),
     m_ioctl = None, m_notify = None, m_raw = None, m_send_packet = None\<rparr>"

datatype client_op = Register nat | Unregister nat

text \<open>Running clients' calls; \<open>None\<close> when the program ends or is undefined.\<close>

primrec clients_run :: "client_op list \<Rightarrow> 'w encoder_state \<Rightarrow> 'w \<Rightarrow> ('w encoder_state \<times> 'w) option" where
  "clients_run [] s w = Some (s, w)"
| "clients_run (c # cs) s w = (case c of
       Register k \<Rightarrow> (case encoder_register_client k s w of Inl e \<Rightarrow> None | Inr (s', w') \<Rightarrow> clients_run cs s' w')
     | Unregister k \<Rightarrow> do { (r, s', w') \<leftarrow> encoder_unregister_client k s w; clients_run cs s' w' })"

text \<open>Only clients that are registered unregister.\<close>

primrec clients_ok :: "client_op list \<Rightarrow> nat set \<Rightarrow> bool" where
  "clients_ok [] A \<longleftrightarrow> True"
| "clients_ok (c # cs) A \<longleftrightarrow> (case c of Register k \<Rightarrow> clients_ok cs (insert k A)
     | Unregister k \<Rightarrow> k \<in> A \<and> clients_ok cs (A - {k}))"

definition startup :: "enc_call list" where
  "startup = [C_init 0, C_init 1, C_start 0, C_start 1]"

definition enc_cycle :: "enc_call list" where
  "enc_cycle = startup @ [C_stop 0, C_deinit 0, C_stop 1, C_deinit 1]"

definition queues_ready :: "encoder_queues \<Rightarrow> bool" where
  "queues_ready qs \<longleftrightarrow> 0 < pktqueue_initchannels qs \<and> pktqueue_initchannels qs \<le> int (length (pktqueue qs))"

definition life_inv :: "enc_call list encoder_state \<Rightarrow> enc_call list \<Rightarrow> bool" where
  "life_inv s w \<longleftrightarrow> smap_ok (encoder_clients s) \<and> vencoder s = Some (probe 0) \<and> aencoder s = Some (probe 1) \<and>
     threadLaunched s = (encoder_clients s \<noteq> []) \<and> queues_ready (enc_queues s) \<and>
     (\<exists>n. w = concat (replicate n enc_cycle) @ (if encoder_clients s = [] then [] else startup))"

lemma smap_put_nonempty [simp]: "smap_put m k v \<noteq> []"
  by (cases m) (auto split: if_splits)

lemma concat_replicate_Suc: "concat (replicate n xs) @ xs = concat (replicate (Suc n) xs)"
  by (induction n) auto

lemma reset_ready:
  assumes "queues_ready qs"
  shows "\<exists>qs'. encoder_pktqueue_reset qs = Some (0, qs') \<and> queues_ready qs'"
proof -
  have "nat (pktqueue_initchannels qs) \<le> length (pktqueue qs)" using assms by (auto simp: queues_ready_def)
  from reset_loop_nth [OF this] show ?thesis
    using assms by (auto simp: encoder_pktqueue_reset_def queues_ready_def)
qed

lemma register_life:
  assumes "life_inv s w"
  shows "\<exists>s' w'. encoder_register_client k s w = Inr (s', w') \<and> life_inv s' w' \<and>
    (\<forall>x. smap_find (encoder_clients s') x = (if x = k then Some k else smap_find (encoder_clients s) x))"
proof -
  have p: "call_if m_init (Some (probe i)) a w = (0, w @ [C_init i])"
    "call_if m_start (Some (probe i)) a w = (0, w @ [C_start i])" for i a w
    by (simp_all add: call_if_def probe_def)
  obtain n where w: "w = concat (replicate n enc_cycle) @ (if encoder_clients s = [] then [] else startup)"
    and i: "smap_ok (encoder_clients s)" "vencoder s = Some (probe 0)" "aencoder s = Some (probe 1)"
      "threadLaunched s = (encoder_clients s \<noteq> [])" "queues_ready (enc_queues s)"
    using assms by (auto simp: life_inv_def)
  show ?thesis
  proof (cases "encoder_clients s = []")
    case True
    let ?s = "s\<lparr>threadLaunched := True, encoder_clients := smap_put (encoder_clients s) k k\<rparr>"
    have "encoder_register_client k s w = Inr (?s, w @ startup)"
      using True i by (simp add: encoder_register_client_def p startup_def)
    moreover have "life_inv ?s (w @ startup)"
      using i w True by (auto simp: life_inv_def smap_ok_put)
    ultimately show ?thesis by (simp add: smap_find_put)
  next
    case False
    let ?s = "s\<lparr>encoder_clients := smap_put (encoder_clients s) k k\<rparr>"
    have "encoder_register_client k s w = Inr (?s, w)"
      using False by (simp add: encoder_register_client_def)
    moreover have "life_inv ?s w" using i w False by (auto simp: life_inv_def smap_ok_put)
    ultimately show ?thesis by (simp add: smap_find_put)
  qed
qed

lemma unregister_life:
  assumes "life_inv s w" and k: "smap_find (encoder_clients s) k \<noteq> None"
  shows "\<exists>r s' w'. encoder_unregister_client k s w = Some (r, s', w') \<and> life_inv s' w' \<and>
    (\<forall>x. smap_find (encoder_clients s') x = (if x = k then None else smap_find (encoder_clients s) x))"
proof -
  have p: "call_if m_stop (Some (probe i)) a w = (0, w @ [C_stop i])"
    "call_if m_deinit (Some (probe i)) a w = (0, w @ [C_deinit i])" for i a w
    by (simp_all add: call_if_def probe_def)
  have ne: "encoder_clients s \<noteq> []" using k by auto
  obtain n where w: "w = concat (replicate n enc_cycle) @ startup"
    and i: "smap_ok (encoder_clients s)" "vencoder s = Some (probe 0)" "aencoder s = Some (probe 1)"
      "threadLaunched s = (encoder_clients s \<noteq> [])" "queues_ready (enc_queues s)"
    using assms ne by (auto simp: life_inv_def)
  show ?thesis
  proof (cases "smap_erase (encoder_clients s) k = []")
    case True
    obtain qs where q: "encoder_pktqueue_reset (enc_queues s) = Some (0, qs)" "queues_ready qs"
      using reset_ready i(5) by blast
    let ?s = "s\<lparr>encoder_clients := [], threadLaunched := False, enc_queues := qs, sync_reset := True\<rparr>"
    let ?w = "concat (replicate n enc_cycle) @ enc_cycle"
    have "encoder_unregister_client k s w = Some (0, ?s, ?w)"
      using True i q(1) w by (simp add: encoder_unregister_client_def p enc_cycle_def Let_def)
    moreover have "\<exists>m. ?w = concat (replicate m enc_cycle)"
      using concat_replicate_Suc by blast
    then have "life_inv ?s ?w" using i q(2) by (simp add: life_inv_def)
    moreover have "smap_find (smap_erase (encoder_clients s) k) x = (if x = k then None else smap_find (encoder_clients s) x)" for x
      using i(1) by (rule smap_find_erase)
    then have "\<forall>x. smap_find (encoder_clients ?s) x = (if x = k then None else smap_find (encoder_clients s) x)"
      unfolding True by simp
    ultimately show ?thesis by blast
  next
    case False
    let ?s = "s\<lparr>encoder_clients := smap_erase (encoder_clients s) k\<rparr>"
    have "encoder_unregister_client k s w = Some (0, ?s, w)"
      using False by (simp add: encoder_unregister_client_def Let_def)
    moreover have "life_inv ?s w" using i w False ne by (auto simp: life_inv_def smap_ok_erase)
    ultimately show ?thesis using i(1) by (simp add: smap_find_erase)
  qed
qed

lemma clients_life:
  "life_inv s w \<Longrightarrow> clients_ok cs {k. smap_find (encoder_clients s) k \<noteq> None} \<Longrightarrow>
   \<exists>s' w'. clients_run cs s w = Some (s', w') \<and> life_inv s' w'"
proof (induction cs arbitrary: s w)
  case (Cons c cs)
  show ?case
  proof (cases c)
    case (Register k)
    obtain s1 w1 where r: "encoder_register_client k s w = Inr (s1, w1)" "life_inv s1 w1"
      "\<forall>x. smap_find (encoder_clients s1) x = (if x = k then Some k else smap_find (encoder_clients s) x)"
      using register_life [OF Cons.prems(1)] by blast
    have "{x. smap_find (encoder_clients s1) x \<noteq> None} = insert k {x. smap_find (encoder_clients s) x \<noteq> None}"
      using r(3) by auto
    then show ?thesis using Cons r(1,2) Register by simp
  next
    case (Unregister k)
    have k: "smap_find (encoder_clients s) k \<noteq> None" using Cons.prems(2) Unregister by simp
    obtain r0 s1 w1 where r: "encoder_unregister_client k s w = Some (r0, s1, w1)" "life_inv s1 w1"
      "\<forall>x. smap_find (encoder_clients s1) x = (if x = k then None else smap_find (encoder_clients s) x)"
      using unregister_life [OF Cons.prems(1) k] by blast
    have "{x. smap_find (encoder_clients s1) x \<noteq> None} = {x. smap_find (encoder_clients s) x \<noteq> None} - {k}"
      using r(3) by auto
    then show ?thesis using Cons r(1,2) Unregister by simp
  qed
qed simp

definition encoder_idle :: "encoder_queues \<Rightarrow> enc_call list encoder_state" where
  "encoder_idle qs = \<lparr>encoder_clients = [], threadLaunched = False, sync_reset = True,
     synctv = \<lparr>tv_sec = 0, tv_usec = 0\<rparr>, vencoder = Some (probe 0), aencoder = Some (probe 1),
     sinkserver = None, vencoder_param = 0, aencoder_param = 0, enc_queues = qs\<rparr>"

text \<open>C14. As long as only registered clients unregister, the encoders run through complete cycles:
  they are initialised and started, video before audio, when the first client comes, and
  stopped and deinitialised when the last one leaves; they are running exactly while there are
  clients, however the clients come and go.\<close>

theorem encoder_lifecycle:
  assumes "queues_ready qs" and "clients_ok cs {}"
  shows "\<exists>s w n. clients_run cs (encoder_idle qs) [] = Some (s, w) \<and>
    (encoder_running s = 1 \<longleftrightarrow> encoder_clients s \<noteq> []) \<and>
    w = concat (replicate n enc_cycle) @ (if encoder_clients s = [] then [] else startup)"
proof -
  have "life_inv (encoder_idle qs) []"
    using assms(1) by (simp add: life_inv_def encoder_idle_def)
  moreover have "clients_ok cs {k. smap_find (encoder_clients (encoder_idle qs)) k \<noteq> None}"
    using assms(2) by (simp add: encoder_idle_def)
  ultimately obtain s w where "clients_run cs (encoder_idle qs) [] = Some (s, w)" "life_inv s w"
    using clients_life by blast
  then show ?thesis by (auto simp: life_inv_def encoder_running_def)
qed

text \<open>Unregistering does not check that there was a client: with none registered, the encoders
  are stopped and deinitialised although they were never started.\<close>

theorem encoder_unregister_unbalanced:
  assumes "queues_ready qs"
  shows "\<exists>s. encoder_unregister_client k (encoder_idle qs) [] = Some (0, s, [C_stop 0, C_deinit 0, C_stop 1, C_deinit 1])"
  using reset_ready [OF assms]
  by (auto simp: encoder_unregister_client_def encoder_idle_def call_if_def probe_def Let_def)

definition example_queues :: encoder_queues where
  "example_queues = \<lparr>pktqueue_initqsize = 8, pktqueue_initchannels = 1, pktqueue = [example_pktq]\<rparr>"

lemma example_ready: "queues_ready example_queues"
  by (simp add: queues_ready_def example_queues_def)

theorem encoder_lifecycle_witness:
  "\<exists>s w n. clients_run [Register 1, Register 2, Unregister 1, Unregister 2, Register 3] (encoder_idle example_queues) [] = Some (s, w) \<and>
    w = concat (replicate n enc_cycle) @ (if encoder_clients s = [] then [] else startup)"
proof -
  have "clients_ok [Register 1, Register 2, Unregister 1, Unregister 2, Register 3] {}" by simp
  from encoder_lifecycle [OF example_ready this] show ?thesis by blast
qed

theorem encoder_unregister_unbalanced_witness:
  "\<exists>s. encoder_unregister_client 5 (encoder_idle example_queues) [] = Some (0, s, [C_stop 0, C_deinit 0, C_stop 1, C_deinit 1])"
  using encoder_unregister_unbalanced [OF example_ready] .

section \<open>The time stamp queues\<close>

text \<open>With interpolation, a time stamp before the first entry gets the time of that entry minus
  \<open>delta / rate\<close>, but counted in microseconds although the quotient is in seconds: for a
  sample rate of \<open>rate\<close>, a stamp \<open>k\<close> seconds before the entry is moved back by only \<open>k\<close>
  microseconds, and the entry stays in the queue.\<close>

theorem encoder_ptv_get_interpolation:
  assumes "queueid < 8" and "length pq = 8" and "pq ! queueid = e # es" and "0 < rate" and "0 < k"
    and "0 \<le> tv_usec (ep_ptv e)" and "tv_usec (ep_ptv e) < 1000000"
  shows "\<exists>t. encoder_ptv_get pq queueid (ep_pts e - k * rate) rate = (Some t, pq) \<and>
    tv_us t = tv_us (ep_ptv e) - k \<and> 0 \<le> tv_usec t \<and> tv_usec t < 1000000"
proof -
  let ?t = "ptv_back (ep_ptv e) (k * rate) rate"
  have "0 < k * rate" using assms(4,5) by simp
  then have "\<not> k * rate < 0" by simp
  then have l: "ptv_get_loop (pq ! queueid) (ep_pts e - k * rate) rate = (Some ?t, pq ! queueid)"
    using assms(3,4,5) by simp
  have g: "encoder_ptv_get pq queueid (ep_pts e - k * rate) rate = (Some ?t, pq)"
    unfolding encoder_ptv_get_def l using assms(1,2) by simp
  have d: "k * rate div rate = k" using assms(4) by simp
  have "- (k mod 1000000) - 1000000 * (k div 1000000) = - k"
    using mult_div_mod_eq [of 1000000 k] by linarith
  moreover have "0 \<le> k mod 1000000" "k mod 1000000 < 1000000" by simp_all
  ultimately have "tv_us ?t = tv_us (ep_ptv e) - k \<and> 0 \<le> tv_usec ?t \<and> tv_usec ?t < 1000000"
    unfolding ptv_back_def d Let_def tv_us_def using assms(6,7) by auto
  then show ?thesis using g by blast
qed

text \<open>What has been put under increasing time stamps is found again under its time stamp: the
  entry and the older ones leave the queue, the younger ones and the other queues stay.\<close>

theorem encoder_ptv_get_put:
  assumes "queueid < 8" and "length pq = 8" and "pq ! queueid = xs @ e # ys"
    and "\<forall>x\<in>set xs. ep_pts x < ep_pts e"
  shows "encoder_ptv_get pq queueid (ep_pts e) r = (Some (ep_ptv e), pq[queueid := ys])"
proof -
  have "ptv_get_loop (xs @ e # ys) (ep_pts e) r = (Some (ep_ptv e), ys)"
    using assms(4) by (induction xs) auto
  then show ?thesis using assms(1-3) by (simp add: encoder_ptv_get_def)
qed

theorem encoder_ptv_get_interpolation_witness:
  "\<exists>t. encoder_ptv_get ([\<lparr>ep_pts = 88200, ep_ptv = \<lparr>tv_sec = 10, tv_usec = 5\<rparr>\<rparr>] # replicate 7 []) 0 44100 44100 =
      (Some t, [\<lparr>ep_pts = 88200, ep_ptv = \<lparr>tv_sec = 10, tv_usec = 5\<rparr>\<rparr>] # replicate 7 []) \<and> tv_us t = 10000004"
  using encoder_ptv_get_interpolation [of 0 "[\<lparr>ep_pts = 88200, ep_ptv = \<lparr>tv_sec = 10, tv_usec = 5\<rparr>\<rparr>] # replicate 7 []"
      "\<lparr>ep_pts = 88200, ep_ptv = \<lparr>tv_sec = 10, tv_usec = 5\<rparr>\<rparr>" "[]" 44100 1]
  by (auto simp: tv_us_def)

theorem encoder_ptv_get_put_witness:
  "encoder_ptv_get ([\<lparr>ep_pts = 1, ep_ptv = example_tv\<rparr>, \<lparr>ep_pts = 2, ep_ptv = \<lparr>tv_sec = 7, tv_usec = 0\<rparr>\<rparr>] # replicate 7 []) 0 2 0
    = (Some \<lparr>tv_sec = 7, tv_usec = 0\<rparr>, [] # replicate 7 [])"
  using encoder_ptv_get_put [of 0 "[\<lparr>ep_pts = 1, ep_ptv = example_tv\<rparr>, \<lparr>ep_pts = 2, ep_ptv = \<lparr>tv_sec = 7, tv_usec = 0\<rparr>\<rparr>] # replicate 7 []"
      "[\<lparr>ep_pts = 1, ep_ptv = example_tv\<rparr>]" "\<lparr>ep_pts = 2, ep_ptv = \<lparr>tv_sec = 7, tv_usec = 0\<rparr>\<rparr>" "[]" 0]
  by simp

end
