(* ===== verification/AudioSource.thy ===== *)
theory AudioSource
  imports StdMap
begin

text \<open>
  The audio source \<open>core/asource.cpp\<close>: one byte buffer per client, which the capture thread
  fills and the encoder of the client reads. The bytes lie between \<open>bufhead\<close> and \<open>buftail\<close>
  and are moved to the front when the space at the end is too small. Buffers are objects of
  a heap, so two clients may share one. A signed overflow, an access outside a buffer and a
  loop without end are \<open>None\<close>; memory, and what other threads do while a reader waits,
  are arguments.
\<close>

record audio_buffer =
  bufPts :: int
  ab_frames :: int
  ab_channels :: int
  ab_bits :: int
  ab_bufsize :: int
  ab_bufhead :: int
  ab_buftail :: int
  bframes :: int
  ab_buffer :: "byte list"

record audio_state =
  gChunksize :: int
  gSamplerate :: int
  gBitspersample :: int
  gChannels :: int
  audio_clients :: "(int, nat) smap"
  ab_heap :: "nat \<Rightarrow> audio_buffer option"

section \<open>The code\<close>

text \<open>\<open>frames * channels * bitspersample / 8\<close>.\<close>

definition audio_bytes :: "int \<Rightarrow> int \<Rightarrow> int \<Rightarrow> int option" where
  "audio_bytes frames channels bits = do { a \<leftarrow> c_int (frames * channels); b \<leftarrow> c_int (a * bits); Some (b sdiv 8) }"

text \<open>\<open>p\<close> is the address that the first \<open>malloc\<close> returns, 0 when it fails.\<close>

definition audio_source_buffer_init :: "nat \<Rightarrow> (int \<Rightarrow> byte list option) \<Rightarrow> audio_state \<Rightarrow> (nat \<times> audio_state) option" where
  "audio_source_buffer_init p mem s = do {
     frames \<leftarrow> c_int (gChunksize s * 4);
     (if frames = 0 \<or> gChannels s = 0 \<or> gBitspersample s = 0 then Some (0, s)
      else if p = 0 then Some (0, s)
      else do {
        size \<leftarrow> audio_bytes frames (gChannels s) (gBitspersample s);
        (case mem size of
           None \<Rightarrow> Some (0, s)
         | Some b \<Rightarrow> Some (p, s\<lparr>ab_heap := (ab_heap s)(p \<mapsto>
             \<lparr>bufPts = 0, ab_frames = frames, ab_channels = gChannels s, ab_bits = gBitspersample s,
              ab_bufsize = size, ab_bufhead = 0, ab_buftail = 0, bframes = 0, ab_buffer = b\<rparr>)\<rparr>)) }) }"

definition audio_source_buffer_deinit :: "nat \<Rightarrow> audio_state \<Rightarrow> audio_state option" where
  "audio_source_buffer_deinit p s =
     (if p = 0 then Some s
      else if ab_heap s p = None then None
      else Some (s\<lparr>ab_heap := (ab_heap s)(p := None)\<rparr>))"

text \<open>The label \<open>retry\<close> with its \<open>goto\<close>. Data of \<open>None\<close> is the NULL pointer, for silence.\<close>

partial_function (option) fill_retry :: "audio_buffer \<Rightarrow> byte list option \<Rightarrow> int \<Rightarrow> int \<Rightarrow> audio_buffer option" where
  "fill_retry ab data frames framesize =
     (let headspace = ab_bufhead ab; tailspace = ab_bufsize ab - ab_buftail ab
      in if framesize > headspace + tailspace then Some ab
         else if framesize \<le> tailspace then do {
           xs \<leftarrow> (case data of None \<Rightarrow> Some (replicate (nat framesize) 0) | Some d \<Rightarrow> c_read d 0 framesize);
           b \<leftarrow> c_write (ab_buffer ab) (ab_buftail ab) xs;
           Some (ab\<lparr>ab_buffer := b, ab_buftail := ab_buftail ab + framesize, bframes := bframes ab + frames\<rparr>) }
         else do {
           xs \<leftarrow> c_read (ab_buffer ab) (ab_bufhead ab) (ab_buftail ab - ab_bufhead ab);
           b \<leftarrow> c_write (ab_buffer ab) 0 xs;
           fill_retry (ab\<lparr>ab_buffer := b, ab_buftail := ab_buftail ab - ab_bufhead ab, ab_bufhead := 0\<rparr>) data frames framesize })"

definition audio_source_buffer_fill_one :: "audio_buffer \<Rightarrow> byte list option \<Rightarrow> int \<Rightarrow> audio_buffer option" where
  "audio_source_buffer_fill_one ab data frames =
     (if frames \<le> 0 then Some ab
      else do { framesize \<leftarrow> audio_bytes frames (ab_channels ab) (ab_bits ab);
                fill_retry ab data frames framesize })"

text \<open>The loop over the clients; a client without a buffer is skipped.\<close>

primrec fill_clients :: "(int \<times> nat) list \<Rightarrow> (nat \<Rightarrow> audio_buffer option) \<Rightarrow> byte list option \<Rightarrow> int \<Rightarrow>
    (nat \<Rightarrow> audio_buffer option) option" where
  "fill_clients [] h data frames = Some h"
| "fill_clients (c # cs) h data frames =
     (if snd c \<noteq> 0 then do {
        ab \<leftarrow> h (snd c);
        ab' \<leftarrow> audio_source_buffer_fill_one ab data frames;
        fill_clients cs (h(snd c \<mapsto> ab')) data frames }
      else fill_clients cs h data frames)"

definition audio_source_buffer_fill :: "byte list option \<Rightarrow> int \<Rightarrow> audio_state \<Rightarrow> audio_state option" where
  "audio_source_buffer_fill data frames s =
     do { h \<leftarrow> fill_clients (audio_clients s) (ab_heap s) data frames; Some (s\<lparr>ab_heap := h\<rparr>) }"

text \<open>
  Reading at most \<open>frames\<close> frames into \<open>buf\<close>: the number of frames, the contents of \<open>buf\<close>
  and the buffer. An empty buffer is waited for once, for a second; \<open>waited\<close> is the buffer
  as the other threads leave it.
\<close>

definition audio_source_buffer_read :: "(audio_buffer \<Rightarrow> audio_buffer) \<Rightarrow> audio_buffer \<Rightarrow> byte list \<Rightarrow> int \<Rightarrow>
    (int \<times> byte list \<times> audio_buffer) option" where
  "audio_source_buffer_read waited ab0 buf frames =
     (if frames \<le> 0 then Some (0, buf, ab0)
      else let ab = (if bframes ab0 = 0 then waited ab0 else ab0);
               copyframe = (if bframes ab \<ge> frames then frames else bframes ab)
           in if copyframe > 0 then do {
                copysize \<leftarrow> audio_bytes copyframe (ab_channels ab) (ab_bits ab);
                xs \<leftarrow> c_read (ab_buffer ab) (ab_bufhead ab) copysize;
                buf' \<leftarrow> c_write buf 0 xs;
                (let ab1 = ab\<lparr>ab_bufhead := ab_bufhead ab + copysize, bframes := bframes ab - copyframe,
                              bufPts := bufPts ab + copyframe\<rparr>
                 in Some (copyframe, buf', if bframes ab1 = 0 then ab1\<lparr>ab_bufhead := 0, ab_buftail := 0\<rparr> else ab1)) }
              else Some (copyframe, buf, ab))"

definition audio_source_buffer_purge :: "audio_buffer \<Rightarrow> audio_buffer" where
  "audio_source_buffer_purge ab = ab\<lparr>bufPts := 0, ab_bufhead := 0, ab_buftail := 0, bframes := 0\<rparr>"

definition audio_source_client_register :: "int \<Rightarrow> nat \<Rightarrow> audio_state \<Rightarrow> audio_state" where
  "audio_source_client_register tid p s = s\<lparr>audio_clients := smap_put (audio_clients s) tid p\<rparr>"

definition audio_source_client_unregister :: "int \<Rightarrow> audio_state \<Rightarrow> audio_state" where
  "audio_source_client_unregister tid s = s\<lparr>audio_clients := smap_erase (audio_clients s) tid\<rparr>"

definition audio_source_client_count :: "audio_state \<Rightarrow> int" where
  "audio_source_client_count s = int (length (audio_clients s))"

definition audio_source_chunkbytes :: "audio_state \<Rightarrow> int option" where
  "audio_source_chunkbytes s = audio_bytes (gChunksize s) (gChannels s) (gBitspersample s)"

definition audio_source_setup :: "int \<Rightarrow> int \<Rightarrow> int \<Rightarrow> int \<Rightarrow> audio_state \<Rightarrow> int \<times> audio_state" where
  "audio_source_setup chunksize samplerate bitspersample channels s =
     (0, s\<lparr>gChunksize := chunksize, gSamplerate := samplerate, gBitspersample := bitspersample, gChannels := channels\<rparr>)"

section \<open>The invariant and the stored bytes\<close>

text \<open>A frame has \<open>frame_bytes\<close> whole bytes, and the size of a full buffer fits an \<open>int\<close>.\<close>

definition frame_bytes :: "audio_buffer \<Rightarrow> int" where
  "frame_bytes ab = ab_channels ab * ab_bits ab div 8"

definition audio_ok :: "audio_buffer \<Rightarrow> bool" where
  "audio_ok ab \<longleftrightarrow> 0 < ab_channels ab \<and> 0 < ab_bits ab \<and> 8 dvd ab_channels ab * ab_bits ab \<and>
     int (length (ab_buffer ab)) = ab_bufsize ab \<and>
     0 \<le> ab_bufhead ab \<and> ab_bufhead ab \<le> ab_buftail ab \<and> ab_buftail ab \<le> ab_bufsize ab \<and>
     0 \<le> bframes ab \<and> ab_buftail ab - ab_bufhead ab = bframes ab * frame_bytes ab \<and>
     ab_bufsize ab * 8 < 2 ^ 31"

definition audio_content :: "audio_buffer \<Rightarrow> byte list" where
  "audio_content ab = take (nat (ab_buftail ab - ab_bufhead ab)) (drop (nat (ab_bufhead ab)) (ab_buffer ab))"

definition audio_valid :: "audio_buffer \<Rightarrow> int \<Rightarrow> bool" where
  "audio_valid ab frames \<longleftrightarrow> frames * ab_channels ab * ab_bits ab < 2 ^ 31"

lemma audio_bytes_frames:
  assumes "audio_ok ab" and "0 \<le> frames" and "audio_valid ab frames"
  shows "audio_bytes frames (ab_channels ab) (ab_bits ab) = Some (frames * frame_bytes ab)"
proof -
  obtain k where k: "ab_channels ab * ab_bits ab = 8 * k" using assms(1) by (auto simp: audio_ok_def)
  have p: "0 < ab_channels ab" "0 < ab_bits ab" using assms(1) by (auto simp: audio_ok_def)
  have t: "frames * ab_channels ab * ab_bits ab = 8 * (frames * k)" using k by (simp add: mult.assoc)
  have a: "0 \<le> frames * ab_channels ab" using p assms(2) by simp
  have b: "frames * ab_channels ab \<le> frames * ab_channels ab * ab_bits ab"
    using mult_left_mono [of 1 "ab_bits ab" "frames * ab_channels ab"] p a by simp
  have k0: "0 < k" using p k by (metis mult_pos_pos zero_less_mult_pos zero_less_numeral)
  have "0 \<le> frames * k" using assms(2) k0 by simp
  then have "8 * (frames * k) sdiv 8 = frames * k"
    by (cases "frames * k = 0") (simp_all add: signed_divide_int_def sgn_if)
  then show ?thesis
    using a b assms(2,3) k0
    by (simp add: audio_bytes_def c_int_def audio_valid_def t frame_bytes_def k)
qed

lemma frame_bytes_pos: "audio_ok ab \<Longrightarrow> 0 < frame_bytes ab"
proof -
  assume a: "audio_ok ab"
  then have "0 < ab_channels ab * ab_bits ab" "8 dvd ab_channels ab * ab_bits ab" by (auto simp: audio_ok_def)
  then have "8 \<le> ab_channels ab * ab_bits ab" by (rule zdvd_imp_le [rotated])
  then show ?thesis by (simp add: frame_bytes_def pos_imp_zdiv_pos_iff)
qed

lemma length_content: "audio_ok ab \<Longrightarrow> int (length (audio_content ab)) = bframes ab * frame_bytes ab"
  by (auto simp: audio_ok_def audio_content_def min_def)

text \<open>Filling, for data that holds the frames: the bytes are appended, or nothing changes when they do
  not fit.\<close>

definition fill_bytes :: "byte list option \<Rightarrow> int \<Rightarrow> byte list" where
  "fill_bytes data sz = (case data of None \<Rightarrow> replicate (nat sz) 0 | Some d \<Rightarrow> take (nat sz) d)"

definition data_ok :: "byte list option \<Rightarrow> int \<Rightarrow> bool" where
  "data_ok data sz \<longleftrightarrow> (case data of None \<Rightarrow> True | Some d \<Rightarrow> sz \<le> int (length d))"

lemma length_fill_bytes: "data_ok data sz \<Longrightarrow> 0 \<le> sz \<Longrightarrow> int (length (fill_bytes data sz)) = sz"
  by (auto simp: fill_bytes_def data_ok_def split: option.splits)

lemma fill_direct:
  assumes "audio_ok ab" and "data_ok data sz" and "sz = frames * frame_bytes ab" and "0 < frames"
    and "sz \<le> ab_bufsize ab - ab_buftail ab"
  shows "\<exists>ab'. fill_retry ab data frames sz = Some ab' \<and> audio_ok ab' \<and>
    ab_channels ab' = ab_channels ab \<and> ab_bits ab' = ab_bits ab \<and> ab_bufsize ab' = ab_bufsize ab \<and>
    bframes ab' = bframes ab + frames \<and> bufPts ab' = bufPts ab \<and>
    audio_content ab' = audio_content ab @ fill_bytes data sz"
proof -
  have s: "0 \<le> sz" using frame_bytes_pos [OF assms(1)] assms(3,4) by simp
  have o: "0 \<le> ab_bufhead ab" "ab_bufhead ab \<le> ab_buftail ab" "ab_buftail ab \<le> ab_bufsize ab"
    "int (length (ab_buffer ab)) = ab_bufsize ab"
    using assms(1) by (auto simp: audio_ok_def)
  let ?xs = "fill_bytes data sz"
  have l: "int (length ?xs) = sz" using length_fill_bytes [OF assms(2) s] .
  have d: "(case data of None \<Rightarrow> Some (replicate (nat sz) 0) | Some d \<Rightarrow> c_read d 0 sz) = Some ?xs"
    using s assms(2) by (auto simp: fill_bytes_def data_ok_def c_read_def split: option.splits)
  let ?b = "take (nat (ab_buftail ab)) (ab_buffer ab) @ ?xs @ drop (nat (ab_buftail ab) + length ?xs) (ab_buffer ab)"
  have w: "c_write (ab_buffer ab) (ab_buftail ab) ?xs = Some ?b"
    using o l assms(5) by (simp add: c_write_def)
  have lb: "length ?b = length (ab_buffer ab)" using c_write_length [OF w] .
  let ?ab = "ab\<lparr>ab_buffer := ?b, ab_buftail := ab_buftail ab + sz, bframes := bframes ab + frames\<rparr>"
  have "fill_retry ab data frames sz = Some ?ab"
    using assms(5) o d w by (subst fill_retry.simps) simp
  moreover have "frame_bytes ?ab = frame_bytes ab" by (simp add: frame_bytes_def)
  then have "audio_ok ?ab"
    using assms(1,3,4,5) s lb by (auto simp: audio_ok_def algebra_simps)
  moreover have "audio_content ?ab = audio_content ab @ ?xs"
  proof -
    have n: "nat (ab_buftail ab + sz - ab_bufhead ab) = nat (ab_buftail ab - ab_bufhead ab) + length ?xs"
      using o s l by linarith
    have t: "drop (nat (ab_bufhead ab)) (take (nat (ab_buftail ab)) (ab_buffer ab)) = audio_content ab"
      using o by (simp add: audio_content_def drop_take nat_diff_distrib)
    have "length (audio_content ab) = nat (ab_buftail ab - ab_bufhead ab)"
      using o by (simp add: audio_content_def)
    then show ?thesis
      using o t by (simp add: audio_content_def [of ?ab] n)
  qed
  ultimately show ?thesis by fastforce
qed

lemma fill_spec:
  assumes "audio_ok ab" and "data_ok data (frames * frame_bytes ab)" and "0 < frames" and "audio_valid ab frames"
  shows "\<exists>ab'. audio_source_buffer_fill_one ab data frames = Some ab' \<and> audio_ok ab' \<and>
    ab_channels ab' = ab_channels ab \<and> ab_bits ab' = ab_bits ab \<and> ab_bufsize ab' = ab_bufsize ab \<and>
    (if (bframes ab + frames) * frame_bytes ab \<le> ab_bufsize ab
     then bframes ab' = bframes ab + frames \<and> bufPts ab' = bufPts ab \<and>
          audio_content ab' = audio_content ab @ fill_bytes data (frames * frame_bytes ab)
     else ab' = ab)"
proof -
  let ?size = "frames * frame_bytes ab"
  have e: "audio_source_buffer_fill_one ab data frames = fill_retry ab data frames ?size"
    using audio_bytes_frames [OF assms(1) _ assms(4)] assms(3) by (simp add: audio_source_buffer_fill_one_def)
  have o: "0 \<le> ab_bufhead ab" "ab_bufhead ab \<le> ab_buftail ab" "ab_buftail ab \<le> ab_bufsize ab"
    "int (length (ab_buffer ab)) = ab_bufsize ab" "ab_buftail ab - ab_bufhead ab = bframes ab * frame_bytes ab"
    using assms(1) by (auto simp: audio_ok_def)
  have i: "(bframes ab + frames) * frame_bytes ab \<le> ab_bufsize ab \<longleftrightarrow> ?size \<le> ab_bufhead ab + (ab_bufsize ab - ab_buftail ab)"
    using o(5) by (simp add: algebra_simps)
  consider "?size > ab_bufhead ab + (ab_bufsize ab - ab_buftail ab)"
    | "?size \<le> ab_bufsize ab - ab_buftail ab"
    | "?size \<le> ab_bufhead ab + (ab_bufsize ab - ab_buftail ab)" "?size > ab_bufsize ab - ab_buftail ab"
    by linarith
  then show ?thesis
  proof cases
    case 1
    then have "fill_retry ab data frames ?size = Some ab" by (subst fill_retry.simps) simp
    then show ?thesis using e i 1 assms(1) by simp
  next
    case 2
    then show ?thesis using fill_direct [OF assms(1,2) refl assms(3) 2] e i o by auto
  next
    case 3
    let ?c = "audio_content ab"
    have lc: "int (length ?c) = ab_buftail ab - ab_bufhead ab" using o by (auto simp: audio_content_def)
    have r: "c_read (ab_buffer ab) (ab_bufhead ab) (ab_buftail ab - ab_bufhead ab) = Some ?c"
      using o by (simp add: c_read_def audio_content_def)
    have w: "c_write (ab_buffer ab) 0 ?c = Some (?c @ drop (length ?c) (ab_buffer ab))"
      using o lc by (simp add: c_write_def)
    let ?ab = "ab\<lparr>ab_buffer := ?c @ drop (length ?c) (ab_buffer ab), ab_buftail := ab_buftail ab - ab_bufhead ab, ab_bufhead := 0\<rparr>"
    have f: "fill_retry ab data frames ?size = fill_retry ?ab data frames ?size"
      using 3 r w by (subst fill_retry.simps) simp
    have fb: "frame_bytes ?ab = frame_bytes ab" by (simp add: frame_bytes_def)
    have ok: "audio_ok ?ab" using assms(1) c_write_length [OF w] o unfolding audio_ok_def fb by auto
    have c: "audio_content ?ab = ?c"
      unfolding audio_content_def [of ?ab] using lc by (simp add: nat_int_comparison)
    have sp: "?size \<le> ab_bufsize ?ab - ab_buftail ?ab" using 3 by simp
    have sz: "?size = frames * frame_bytes ?ab" by (simp only: fb)
    have pos: "(bframes ab + frames) * frame_bytes ab \<le> ab_bufsize ab" using i 3 by simp
    have same: "ab_channels ?ab = ab_channels ab" "ab_bits ?ab = ab_bits ab" "ab_bufsize ?ab = ab_bufsize ab"
      "bframes ?ab = bframes ab" "bufPts ?ab = bufPts ab" by simp_all
    show ?thesis
      unfolding if_P [OF pos] e f using fill_direct [OF ok assms(2) sz assms(3) sp] unfolding c same .
  qed
qed

text \<open>Reading takes the oldest frames, as many as there are and are asked for.\<close>

lemma read_spec:
  assumes "audio_ok ab" and "frames * frame_bytes ab \<le> int (length buf)" and "0 < frames"
  defines "n \<equiv> min frames (bframes ab)"
  shows "\<exists>buf' ab'. audio_source_buffer_read (\<lambda>x. x) ab buf frames = Some (n, buf', ab') \<and> audio_ok ab' \<and>
    ab_channels ab' = ab_channels ab \<and> ab_bits ab' = ab_bits ab \<and> ab_bufsize ab' = ab_bufsize ab \<and>
    bframes ab' = bframes ab - n \<and> bufPts ab' = bufPts ab + n \<and>
    audio_content ab = take (nat (n * frame_bytes ab)) buf' @ audio_content ab'"
proof -
  have o: "0 \<le> ab_bufhead ab" "ab_bufhead ab \<le> ab_buftail ab" "ab_buftail ab \<le> ab_bufsize ab" "0 \<le> bframes ab"
    "int (length (ab_buffer ab)) = ab_bufsize ab" "ab_buftail ab - ab_bufhead ab = bframes ab * frame_bytes ab"
    using assms(1) by (auto simp: audio_ok_def)
  have fb: "0 < frame_bytes ab" using frame_bytes_pos [OF assms(1)] .
  show ?thesis
  proof (cases "0 < bframes ab")
    case False
    then have "bframes ab = 0" using o(4) by simp
    then show ?thesis
      using assms(1,3) o by (simp add: audio_source_buffer_read_def n_def audio_content_def)
  next
    case True
    have n: "0 < n" "n \<le> frames" "n \<le> bframes ab" using True assms(3) by (auto simp: n_def)
    let ?sz = "n * frame_bytes ab"
    have sz: "0 < ?sz" "?sz \<le> ab_buftail ab - ab_bufhead ab" "?sz \<le> int (length buf)"
    proof -
      show "0 < ?sz" using n fb by simp
      show "?sz \<le> ab_buftail ab - ab_bufhead ab" using o(6) n fb by simp
      have "?sz \<le> frames * frame_bytes ab" using n fb by simp
      then show "?sz \<le> int (length buf)" using assms(2) by simp
    qed
    have v: "audio_valid ab n"
    proof -
      have "ab_channels ab * ab_bits ab = 8 * frame_bytes ab"
        using assms(1) by (auto simp: audio_ok_def frame_bytes_def)
      then have "n * ab_channels ab * ab_bits ab = 8 * ?sz" by (simp add: mult.assoc)
      moreover have "8 * ?sz < 2 ^ 31" using sz(2) o assms(1) unfolding audio_ok_def by linarith
      ultimately show ?thesis by (simp only: audio_valid_def)
    qed
    let ?xs = "take (nat ?sz) (audio_content ab)"
    have r: "c_read (ab_buffer ab) (ab_bufhead ab) ?sz = Some ?xs"
      using o sz by (simp add: c_read_def audio_content_def min_def)
    have l: "int (length ?xs) = ?sz" using c_read_SomeD [OF r] .
    let ?buf = "?xs @ drop (length ?xs) buf"
    have w: "c_write buf 0 ?xs = Some ?buf" using l sz by (simp add: c_write_def)
    have tk: "take (nat ?sz) ?buf = ?xs" using l by simp
    let ?a1 = "ab\<lparr>ab_bufhead := ab_bufhead ab + ?sz, bframes := bframes ab - n, bufPts := bufPts ab + n\<rparr>"
    let ?ab = "if bframes ?a1 = 0 then ?a1\<lparr>ab_bufhead := 0, ab_buftail := 0\<rparr> else ?a1"
    have e: "audio_source_buffer_read (\<lambda>x. x) ab buf frames = Some (n, ?buf, ?ab)"
      using True assms(3) n audio_bytes_frames [OF assms(1) _ v] r w
      by (auto simp: audio_source_buffer_read_def n_def min_def Let_def)
    have f: "frame_bytes ?ab = frame_bytes ab" by (simp add: frame_bytes_def)
    have d: "bframes ab * frame_bytes ab - ?sz = (bframes ab - n) * frame_bytes ab" by (simp add: algebra_simps)
    have ok: "audio_ok ?ab" unfolding audio_ok_def f using assms(1) o sz n d by (auto simp: audio_ok_def)
    have c: "audio_content ?ab = drop (nat ?sz) (audio_content ab)"
    proof (cases "bframes ab = n")
      case True
      then show ?thesis using o by (simp add: audio_content_def)
    next
      case False
      have "nat (ab_bufhead ab + ?sz) = nat ?sz + nat (ab_bufhead ab)"
        "nat (ab_buftail ab - (ab_bufhead ab + ?sz)) = nat (ab_buftail ab - ab_bufhead ab) - nat ?sz"
        using o sz by linarith+
      then show ?thesis using False by (simp add: audio_content_def drop_take)
    qed
    have "audio_content ab = take (nat ?sz) ?buf @ audio_content ?ab" unfolding c tk by simp
    then show ?thesis using e ok by auto
  qed
qed

text \<open>Waiting for another thread to fill the buffer is reading after that thread.\<close>

lemma read_after_wait:
  "bframes ab = 0 \<Longrightarrow> audio_source_buffer_read f ab buf frames =
     (if frames \<le> 0 then Some (0, buf, ab) else audio_source_buffer_read (\<lambda>x. x) (f ab) buf frames)"
  by (simp add: audio_source_buffer_read_def Let_def)

section \<open>Any sequence of fills and reads\<close>

datatype audio_op = AFill "byte list option" int | ARead "byte list" int

definition aop_ok :: "audio_buffer \<Rightarrow> audio_op \<Rightarrow> bool" where
  "aop_ok ab op \<longleftrightarrow> (case op of
       AFill data n \<Rightarrow> 0 < n \<and> audio_valid ab n \<and> data_ok data (n * frame_bytes ab)
     | ARead buf n \<Rightarrow> 0 < n \<and> n * frame_bytes ab \<le> int (length buf))"

text \<open>The bytes accepted, the bytes read, and the final buffer.\<close>

primrec audio_run :: "audio_op list \<Rightarrow> audio_buffer \<Rightarrow> (byte list \<times> byte list \<times> audio_buffer) option" where
  "audio_run [] ab = Some ([], [], ab)"
| "audio_run (op # ops) ab = (case op of
       AFill data n \<Rightarrow> do {
         ab1 \<leftarrow> audio_source_buffer_fill_one ab data n;
         (acc, out, ab2) \<leftarrow> audio_run ops ab1;
         Some ((if bframes ab1 = bframes ab then acc else fill_bytes data (n * frame_bytes ab) @ acc), out, ab2) }
     | ARead buf n \<Rightarrow> do {
         (k, buf', ab1) \<leftarrow> audio_source_buffer_read (\<lambda>x. x) ab buf n;
         (acc, out, ab2) \<leftarrow> audio_run ops ab1;
         Some (acc, take (nat (k * frame_bytes ab)) buf' @ out, ab2) })"

lemma aop_ok_cong:
  "ab_channels a = ab_channels b \<Longrightarrow> ab_bits a = ab_bits b \<Longrightarrow> aop_ok a = aop_ok b"
  by (rule ext) (simp add: aop_ok_def audio_valid_def frame_bytes_def split: audio_op.splits)

text \<open>C13. Through any sequence of fills and reads, a client's buffer is a byte stream with loss only at
  the entrance: a fill is taken whole or not at all, the bytes read are, in order, the bytes
  taken, nothing is read twice or out of the buffer, and the time stamp advances with the frames
  read.\<close>

theorem audio_buffer_stream:
  assumes "audio_ok ab" and "\<forall>op\<in>set ops. aop_ok ab op"
  shows "\<exists>acc out ab'. audio_run ops ab = Some (acc, out, ab') \<and> audio_ok ab' \<and>
    audio_content ab @ acc = out @ audio_content ab' \<and>
    (bufPts ab' - bufPts ab) * frame_bytes ab = int (length out)"
  using assms
proof (induction ops arbitrary: ab)
  case Nil
  then show ?case by simp
next
  case (Cons op ops)
  have op: "aop_ok ab op" and ops: "\<forall>op\<in>set ops. aop_ok ab op" using Cons.prems(2) by auto
  show ?case
  proof (cases op)
    case (AFill data n)
    have a: "0 < n" "audio_valid ab n" "data_ok data (n * frame_bytes ab)" using op AFill by (auto simp: aop_ok_def)
    obtain ab1 where f: "audio_source_buffer_fill_one ab data n = Some ab1" "audio_ok ab1"
      "ab_channels ab1 = ab_channels ab" "ab_bits ab1 = ab_bits ab"
      "bframes ab1 = bframes ab + n \<and> bufPts ab1 = bufPts ab \<and> audio_content ab1 = audio_content ab @ fill_bytes data (n * frame_bytes ab)
       \<or> ab1 = ab"
      using fill_spec [OF Cons.prems(1) a(3,1,2)] by (auto split: if_splits)
    have fb: "frame_bytes ab1 = frame_bytes ab" using f(3,4) by (simp add: frame_bytes_def)
    have "\<forall>op\<in>set ops. aop_ok ab1 op" using ops aop_ok_cong [OF f(3,4)] by simp
    then obtain acc out ab2 where r: "audio_run ops ab1 = Some (acc, out, ab2)" "audio_ok ab2"
      "audio_content ab1 @ acc = out @ audio_content ab2" "(bufPts ab2 - bufPts ab1) * frame_bytes ab = int (length out)"
      using Cons.IH [OF f(2)] fb by auto
    then show ?thesis using f(1,5) AFill a(1) by auto
  next
    case (ARead buf n)
    have a: "0 < n" "n * frame_bytes ab \<le> int (length buf)" using op ARead by (auto simp: aop_ok_def)
    let ?k = "min n (bframes ab)"
    obtain buf' ab1 where f: "audio_source_buffer_read (\<lambda>x. x) ab buf n = Some (?k, buf', ab1)" "audio_ok ab1"
      "ab_channels ab1 = ab_channels ab" "ab_bits ab1 = ab_bits ab" "bframes ab1 = bframes ab - ?k"
      "bufPts ab1 = bufPts ab + ?k" "audio_content ab = take (nat (?k * frame_bytes ab)) buf' @ audio_content ab1"
      using read_spec [OF Cons.prems(1) a(2,1)] by blast
    have fb: "frame_bytes ab1 = frame_bytes ab" using f(3,4) by (simp add: frame_bytes_def)
    have "\<forall>op\<in>set ops. aop_ok ab1 op" using ops aop_ok_cong [OF f(3,4)] by simp
    then obtain acc out ab2 where r: "audio_run ops ab1 = Some (acc, out, ab2)" "audio_ok ab2"
      "audio_content ab1 @ acc = out @ audio_content ab2" "(bufPts ab2 - bufPts ab1) * frame_bytes ab = int (length out)"
      using Cons.IH [OF f(2)] fb by auto
    have l: "int (length (take (nat (?k * frame_bytes ab)) buf')) = ?k * frame_bytes ab"
      using arg_cong [OF f(7), of "\<lambda>xs. int (length xs)"] length_content [OF Cons.prems(1)] length_content [OF f(2)]
        fb f(5) by (simp add: algebra_simps)
    have "(bufPts ab2 - bufPts ab) * frame_bytes ab = int (length (take (nat (?k * frame_bytes ab)) buf' @ out))"
      using r(4) l f(6) by (simp add: algebra_simps)
    then show ?thesis using f(1,7) r(1-3) ARead by auto
  qed
qed

definition example_audio :: audio_buffer where
  "example_audio = \<lparr>bufPts = 0, ab_frames = 4, ab_channels = 2, ab_bits = 16, ab_bufsize = 16,
     ab_bufhead = 0, ab_buftail = 0, bframes = 0, ab_buffer = replicate 16 7\<rparr>"

lemma example_audio_ok: "audio_ok example_audio"
  by (simp add: audio_ok_def example_audio_def frame_bytes_def)

theorem audio_buffer_stream_witness:
  "\<exists>acc out ab'. audio_run [AFill (Some [1, 2, 3, 4, 5, 6, 7, 8]) 2, AFill None 1, ARead (replicate 8 9) 2, AFill None 3] example_audio
     = Some (acc, out, ab') \<and> audio_ok ab' \<and> acc = out @ audio_content ab'"
proof -
  have "\<forall>op\<in>set [AFill (Some [1, 2, 3, 4, 5, 6, 7, 8]) 2, AFill None 1, ARead (replicate 8 9) 2, AFill None 3]. aop_ok example_audio op"
    by (simp add: aop_ok_def audio_valid_def data_ok_def example_audio_def frame_bytes_def)
  moreover have "audio_content example_audio = []" by (simp add: audio_content_def example_audio_def)
  ultimately show ?thesis using audio_buffer_stream [OF example_audio_ok] by fastforce
qed

section \<open>Clients and their buffers\<close>

lemma fill_clients_all:
  "distinct (filter (\<lambda>p. p \<noteq> 0) (map snd cs)) \<Longrightarrow>
   (\<forall>p\<in>snd ` set cs. p \<noteq> 0 \<longrightarrow> (\<exists>ab ab'. h p = Some ab \<and> audio_source_buffer_fill_one ab data frames = Some ab')) \<Longrightarrow>
   \<exists>h'. fill_clients cs h data frames = Some h' \<and>
     (\<forall>p. h' p = (if p \<noteq> 0 \<and> p \<in> snd ` set cs then audio_source_buffer_fill_one (the (h p)) data frames else h p))"
proof (induction cs arbitrary: h)
  case (Cons c cs)
  show ?case
  proof (cases "snd c = 0")
    case True
    have n: "distinct (filter (\<lambda>p. p \<noteq> 0) (map snd cs))" using Cons.prems(1) True by simp
    have "\<forall>p\<in>snd ` set cs. p \<noteq> 0 \<longrightarrow> (\<exists>ab x. h p = Some ab \<and> audio_source_buffer_fill_one ab data frames = Some x)"
      using Cons.prems(2) by simp
    from Cons.IH [OF n this] obtain h' where h': "fill_clients cs h data frames = Some h'"
      "\<forall>p. h' p = (if p \<noteq> 0 \<and> p \<in> snd ` set cs then audio_source_buffer_fill_one (the (h p)) data frames else h p)"
      by blast
    have e: "p \<noteq> 0 \<and> p \<in> snd ` set (c # cs) \<longleftrightarrow> p \<noteq> 0 \<and> p \<in> snd ` set cs" for p using True by auto
    show ?thesis unfolding e using h' True by simp
  next
    case False
    obtain ab ab' where a: "h (snd c) = Some ab" "audio_source_buffer_fill_one ab data frames = Some ab'"
      using Cons.prems(2) False by auto
    have n: "snd c \<notin> snd ` set cs" "distinct (filter (\<lambda>p. p \<noteq> 0) (map snd cs))"
      using Cons.prems(1) False by auto
    have "\<forall>p\<in>snd ` set cs. p \<noteq> 0 \<longrightarrow> (\<exists>ab x. (h(snd c \<mapsto> ab')) p = Some ab \<and> audio_source_buffer_fill_one ab data frames = Some x)"
    proof (intro ballI impI)
      fix p assume p: "p \<in> snd ` set cs" "p \<noteq> 0"
      then have "p \<noteq> snd c" using n(1) by blast
      moreover have "\<exists>ab x. h p = Some ab \<and> audio_source_buffer_fill_one ab data frames = Some x"
        using Cons.prems(2) [rule_format, of p] p by (metis image_insert insert_iff list.simps(15))
      ultimately show "\<exists>ab x. (h(snd c \<mapsto> ab')) p = Some ab \<and> audio_source_buffer_fill_one ab data frames = Some x"
        by simp
    qed
    from Cons.IH [OF n(2) this] obtain h' where h': "fill_clients cs (h(snd c \<mapsto> ab')) data frames = Some h'"
      "\<And>p. h' p = (if p \<noteq> 0 \<and> p \<in> snd ` set cs
         then audio_source_buffer_fill_one (the ((h(snd c \<mapsto> ab')) p)) data frames else (h(snd c \<mapsto> ab')) p)"
      by blast
    have "h' p = (if p \<noteq> 0 \<and> p \<in> snd ` set (c # cs) then audio_source_buffer_fill_one (the (h p)) data frames else h p)" for p
      using a n(1) False h'(2) [of p] by (cases "p = snd c") simp_all
    then show ?thesis using a False h'(1) by simp
  qed
qed simp

text \<open>The capture thread's data reaches every client that has a buffer of its own: each buffer is
  filled as if it were the only one, so a client that is behind loses data without disturbing
  the others, and buffers that are not registered are untouched.\<close>

theorem audio_fill_broadcast:
  assumes "distinct (filter (\<lambda>p. p \<noteq> 0) (map snd (audio_clients s)))" and "0 < frames"
    and "\<forall>p\<in>snd ` set (audio_clients s). p \<noteq> 0 \<longrightarrow> (\<exists>ab. ab_heap s p = Some ab \<and> audio_ok ab \<and>
           audio_valid ab frames \<and> data_ok data (frames * frame_bytes ab))"
  shows "\<exists>s'. audio_source_buffer_fill data frames s = Some s' \<and> audio_clients s' = audio_clients s \<and>
    (\<forall>p ab. ab_heap s p = Some ab \<longrightarrow>
       (if p \<noteq> 0 \<and> p \<in> snd ` set (audio_clients s) then
          (\<exists>ab'. ab_heap s' p = Some ab' \<and> audio_ok ab' \<and>
             audio_content ab' = audio_content ab @
               (if (bframes ab + frames) * frame_bytes ab \<le> ab_bufsize ab
                then fill_bytes data (frames * frame_bytes ab) else []))
        else ab_heap s' p = Some ab))"
proof -
  have one: "\<exists>ab'. audio_source_buffer_fill_one ab data frames = Some ab' \<and> audio_ok ab' \<and>
      audio_content ab' = audio_content ab @ (if (bframes ab + frames) * frame_bytes ab \<le> ab_bufsize ab
        then fill_bytes data (frames * frame_bytes ab) else [])"
    if "audio_ok ab" "audio_valid ab frames" "data_ok data (frames * frame_bytes ab)" for ab
    using fill_spec [OF that(1,3) assms(2) that(2)] by (auto split: if_splits)
  have pre: "\<forall>p\<in>snd ` set (audio_clients s). p \<noteq> 0 \<longrightarrow>
      (\<exists>ab ab'. ab_heap s p = Some ab \<and> audio_source_buffer_fill_one ab data frames = Some ab')"
    using assms(3) one by meson
  obtain h' where h': "fill_clients (audio_clients s) (ab_heap s) data frames = Some h'"
    "\<forall>p. h' p = (if p \<noteq> 0 \<and> p \<in> snd ` set (audio_clients s) then audio_source_buffer_fill_one (the (ab_heap s p)) data frames
       else ab_heap s p)"
    using fill_clients_all [OF assms(1) pre] by blast
  have "(if p \<noteq> 0 \<and> p \<in> snd ` set (audio_clients s) then
          (\<exists>ab'. h' p = Some ab' \<and> audio_ok ab' \<and> audio_content ab' = audio_content ab @
               (if (bframes ab + frames) * frame_bytes ab \<le> ab_bufsize ab
                then fill_bytes data (frames * frame_bytes ab) else []))
        else h' p = Some ab)" if "ab_heap s p = Some ab" for p ab
  proof (cases "p \<noteq> 0 \<and> p \<in> snd ` set (audio_clients s)")
    case True
    then have "audio_ok ab" "audio_valid ab frames" "data_ok data (frames * frame_bytes ab)"
      using assms(3) that by fastforce+
    from one [OF this] show ?thesis using True that h'(2) by simp
  qed (use that h'(2) in auto)
  then show ?thesis using h'(1) by (simp add: audio_source_buffer_fill_def)
qed

text \<open>After a setup with sound parameters, a new buffer is empty, well-formed, not yet shared, and
  has room for exactly four chunks.\<close>

theorem audio_buffer_init_ok:
  assumes "0 < chunk" and "0 < bits" and "0 < chans" and "8 dvd chans * bits"
    and "4 * chunk * chans * bits < 2 ^ 31" and "p \<noteq> 0"
    and "mem (4 * chunk * (chans * bits div 8)) = Some b" and "int (length b) = 4 * chunk * (chans * bits div 8)"
  shows "\<exists>s' ab. audio_source_buffer_init p mem (snd (audio_source_setup chunk rate bits chans s)) = Some (p, s') \<and>
    ab_heap s' p = Some ab \<and> audio_ok ab \<and> audio_content ab = [] \<and> bufPts ab = 0 \<and>
    audio_clients s' = audio_clients s \<and>
    (\<exists>c. audio_source_chunkbytes s' = Some c \<and> ab_bufsize ab = 4 * c)"
proof -
  obtain k where k: "chans * bits = 8 * k" using assms(4) by blast
  have k0: "0 < k" using assms(2,3) k by (metis mult_pos_pos zero_less_mult_pos zero_less_numeral)
  have bnd: "0 < chunk * k" "32 * (chunk * k) < 2 ^ 31"
    using assms(1,5) k k0 by (simp_all add: mult.assoc)
  have cc: "chunk * chans \<le> chunk * chans * bits"
    using mult_left_mono [of 1 bits "chunk * chans"] assms(1,2,3) by simp
  have c4: "0 < chunk * chans" "chunk \<le> chunk * chans"
    using assms(1,3) mult_left_mono [of 1 chans chunk] by simp_all
  have e: "chunk * chans * bits = 8 * (chunk * k)" "chunk * 4 * chans * bits = 8 * (4 * (chunk * k))"
    "chunk * 4 * chans = 4 * (chunk * chans)"
    using k by (simp_all add: mult.assoc mult.left_commute)
  have sd: "8 * m sdiv 8 = m" if "0 < m" for m :: int
    using that by (simp add: signed_divide_int_def)
  have cs: "c_int (chunk * 4 * chans) = Some (chunk * 4 * chans)" "c_int (chunk * chans) = Some (chunk * chans)"
    "c_int (chunk * 4 * chans * bits) = Some (8 * (4 * (chunk * k)))" "c_int (chunk * chans * bits) = Some (8 * (chunk * k))"
  proof -
    note c = c_int_def
    have "chunk * 4 * chans = 4 * (chunk * chans)" by simp
    then show "c_int (chunk * 4 * chans) = Some (chunk * 4 * chans)"
      unfolding c using bnd c4 cc [unfolded e(1)] by (intro if_P) linarith
    show "c_int (chunk * chans) = Some (chunk * chans)"
      unfolding c using bnd c4 cc [unfolded e(1)] by (intro if_P) linarith
    show "c_int (chunk * 4 * chans * bits) = Some (8 * (4 * (chunk * k)))"
      unfolding e(2) c using bnd by (intro if_P) linarith
    show "c_int (chunk * chans * bits) = Some (8 * (chunk * k))"
      unfolding e(1) c using bnd by (intro if_P) linarith
  qed
  have b1: "audio_bytes (chunk * 4) chans bits = Some (4 * (chunk * k))"
    and b2: "audio_bytes chunk chans bits = Some (chunk * k)"
    unfolding audio_bytes_def by (simp_all only: cs bind.bind_lunit sd bnd(1) mult_pos_pos zero_less_numeral)
  have "chunk * chans < 2 ^ 29" using cc [unfolded e(1)] bnd by simp
  then have "chunk < 2 ^ 29" using c4 by linarith
  then have ci: "c_int (chunk * 4) = Some (chunk * 4)"
    using assms(1) by (simp add: c_int_def)
  have kk: "chans * bits div 8 = k" using k by simp
  show ?thesis
    using assms(1,2,3,6,7,8) ci b1 b2 kk k k0 bnd
    by (auto simp: audio_source_buffer_init_def audio_source_setup_def audio_source_chunkbytes_def
        audio_ok_def audio_content_def frame_bytes_def mult.assoc)
qed

definition example_audio_state :: audio_state where
  "example_audio_state = \<lparr>gChunksize = 0, gSamplerate = 0, gBitspersample = 0, gChannels = 0,
     audio_clients = [(1, 10), (2, 0), (3, 20)], ab_heap = [10 \<mapsto> example_audio, 20 \<mapsto> example_audio]\<rparr>"

theorem audio_fill_broadcast_witness:
  "\<exists>s'. audio_source_buffer_fill (Some [1, 2, 3, 4]) 1 example_audio_state = Some s' \<and>
    audio_clients s' = audio_clients example_audio_state"
proof -
  have "\<forall>p\<in>snd ` set (audio_clients example_audio_state). p \<noteq> 0 \<longrightarrow> (\<exists>ab. ab_heap example_audio_state p = Some ab \<and> audio_ok ab \<and>
           audio_valid ab 1 \<and> data_ok (Some [1, 2, 3, 4]) (1 * frame_bytes ab))"
    using example_audio_ok
    by (simp add: example_audio_state_def audio_valid_def data_ok_def example_audio_def frame_bytes_def)
  moreover have "distinct (filter (\<lambda>p. p \<noteq> 0) (map snd (audio_clients example_audio_state)))"
    by (simp add: example_audio_state_def)
  ultimately show ?thesis using audio_fill_broadcast [of example_audio_state 1 "Some [1, 2, 3, 4]"] by auto
qed

theorem audio_buffer_init_ok_witness:
  "\<exists>s' ab. audio_source_buffer_init 30 (\<lambda>n. Some (replicate (nat n) 0)) (snd (audio_source_setup 8 44100 16 2 example_audio_state)) = Some (30, s') \<and>
    ab_heap s' 30 = Some ab \<and> audio_ok ab"
  using audio_buffer_init_ok [of 8 16 2 30 "\<lambda>n. Some (replicate (nat n) 0)" "replicate 128 0" 44100 example_audio_state]
  by auto

end
