(* ===== verification/VConverter.thy ===== *)
theory VConverter
  imports StdMap
begin

text \<open>
  The cache of frame converters, \<open>core/vconverter.cpp\<close>: a \<open>std::map\<close> from the source and
  destination sizes and formats to a converter of the swscale library. The order of the map
  is the code's \<open>operator<\<close>, which is shown to be a linear order and made the order of the
  type. The library's \<open>sws_getContext\<close> is an argument; it may answer differently every time
  and fail. Pointers are numbers, NULL is 0.
\<close>

datatype vconvcfg = Vconvcfg
  (src_width: int) (src_height: int) (src_fmt: int) (dst_width: int) (dst_height: int) (dst_fmt: int)

definition vconvcfg_less :: "vconvcfg \<Rightarrow> vconvcfg \<Rightarrow> bool" where
  "vconvcfg_less a b =
     (if src_width a < src_width b then True
      else if src_width a > src_width b then False
      else if src_height a < src_height b then True
      else if src_height a > src_height b then False
      else if src_fmt a < src_fmt b then True
      else if src_fmt a > src_fmt b then False
      else if dst_width a < dst_width b then True
      else if dst_width a > dst_width b then False
      else if dst_height a < dst_height b then True
      else if dst_height a > dst_height b then False
      else if dst_fmt a < dst_fmt b then True
      else if dst_fmt a > dst_fmt b then False
      else False)"

lemma vconvcfg_less_irrefl: "\<not> vconvcfg_less a a"
  by (simp add: vconvcfg_less_def)

lemma vconvcfg_less_trans: "vconvcfg_less a b \<Longrightarrow> vconvcfg_less b c \<Longrightarrow> vconvcfg_less a c"
  unfolding vconvcfg_less_def by (smt (verit))

lemma vconvcfg_less_total: "vconvcfg_less a b \<or> a = b \<or> vconvcfg_less b a"
  unfolding vconvcfg_less_def by (cases a; cases b) (auto simp: not_less)

instantiation vconvcfg :: linorder
begin

definition less_vconvcfg :: "vconvcfg \<Rightarrow> vconvcfg \<Rightarrow> bool" where
  "less_vconvcfg = vconvcfg_less"

definition less_eq_vconvcfg :: "vconvcfg \<Rightarrow> vconvcfg \<Rightarrow> bool" where
  "less_eq_vconvcfg a b \<longleftrightarrow> vconvcfg_less a b \<or> a = b"

instance
proof
  fix a b c :: vconvcfg
  show "a < b \<longleftrightarrow> a \<le> b \<and> \<not> b \<le> a"
    using vconvcfg_less_irrefl vconvcfg_less_trans by (auto simp: less_vconvcfg_def less_eq_vconvcfg_def)
  show "a \<le> a" by (simp add: less_eq_vconvcfg_def)
  show "a \<le> b \<Longrightarrow> b \<le> c \<Longrightarrow> a \<le> c"
    using vconvcfg_less_trans by (auto simp: less_eq_vconvcfg_def)
  show "a \<le> b \<Longrightarrow> b \<le> a \<Longrightarrow> a = b"
    using vconvcfg_less_irrefl vconvcfg_less_trans by (auto simp: less_eq_vconvcfg_def)
  show "a \<le> b \<or> b \<le> a"
    using vconvcfg_less_total by (auto simp: less_eq_vconvcfg_def)
qed

end

type_synonym converters = "(vconvcfg, nat) smap"

definition lookup_frame_converter_internal :: "converters \<Rightarrow> vconvcfg \<Rightarrow> nat" where
  "lookup_frame_converter_internal m ccfg = (case smap_find m ccfg of Some ctx \<Rightarrow> ctx | None \<Rightarrow> 0)"

definition lookup_frame_converter :: "converters \<Rightarrow> int \<Rightarrow> int \<Rightarrow> int \<Rightarrow> int \<Rightarrow> int \<Rightarrow> int \<Rightarrow> nat" where
  "lookup_frame_converter m srcw srch srcfmt dstw dsth dstfmt =
     lookup_frame_converter_internal m (Vconvcfg srcw srch srcfmt dstw dsth dstfmt)"

definition create_frame_converter :: "(vconvcfg \<Rightarrow> nat) \<Rightarrow> converters \<Rightarrow> int \<Rightarrow> int \<Rightarrow> int \<Rightarrow> int \<Rightarrow> int \<Rightarrow> int \<Rightarrow> nat \<times> converters" where
  "create_frame_converter sws_getContext m srcw srch srcfmt dstw dsth dstfmt =
     (let ccfg = Vconvcfg srcw srch srcfmt dstw dsth dstfmt;
          ctx = lookup_frame_converter_internal m ccfg
      in if ctx \<noteq> 0 then (ctx, m)
         else let ctx = sws_getContext ccfg
              in if ctx = 0 then (0, m) else (ctx, smap_put m ccfg ctx))"

section \<open>Sequences of requests\<close>

text \<open>
  A request is a configuration and the library at that time. The run gives the results and
  the contexts that the library was asked for and made, in order.
\<close>

primrec converters_run :: "(vconvcfg \<times> (vconvcfg \<Rightarrow> nat)) list \<Rightarrow> converters \<Rightarrow> nat list \<times> (vconvcfg \<times> nat) list \<times> converters" where
  "converters_run [] m = ([], [], m)"
| "converters_run (r # rs) m =
     (let c = fst r; (ctx, m1) = create_frame_converter (snd r) m (src_width c) (src_height c) (src_fmt c)
                        (dst_width c) (dst_height c) (dst_fmt c);
          (xs, made, m2) = converters_run rs m1
      in (ctx # xs, (if m1 = m then made else (c, ctx) # made), m2))"

definition converters_ok :: "converters \<Rightarrow> bool" where
  "converters_ok m \<longleftrightarrow> smap_ok m \<and> (\<forall>x\<in>set m. snd x \<noteq> 0)"

lemma converters_find: "converters_ok m \<Longrightarrow> smap_find m c = Some ctx \<Longrightarrow> ctx \<noteq> 0"
  by (induction m c rule: smap_find.induct) (auto simp: converters_ok_def split: if_splits)

lemma converters_ok_put: "converters_ok m \<Longrightarrow> ctx \<noteq> 0 \<Longrightarrow> converters_ok (smap_put m c ctx)"
  using set_smap_put [of m c ctx] by (auto simp: converters_ok_def smap_ok_put)

text \<open>One request: answered from the cache, or made and stored, or failed without a change.\<close>

lemma converter_create_cases:
  assumes "converters_ok m"
  shows "(case smap_find m (Vconvcfg a b c d e f) of
       Some ctx \<Rightarrow> create_frame_converter sws m a b c d e f = (ctx, m)
     | None \<Rightarrow> create_frame_converter sws m a b c d e f =
         (let ctx = sws (Vconvcfg a b c d e f) in (ctx, if ctx = 0 then m else smap_put m (Vconvcfg a b c d e f) ctx)))"
  using converters_find [OF assms]
  by (auto simp: create_frame_converter_def lookup_frame_converter_internal_def Let_def split: option.splits)

lemma put_new: "smap_find m k = None \<Longrightarrow> smap_put m k v \<noteq> m"
  by (metis option.distinct(1) smap_find_put)

text \<open>The cache never makes two converters for one configuration: over any sequence of requests
  the configurations made are distinct and new, each request that does not fail returns the
  converter that the final cache holds for it, and existing entries are never replaced.\<close>

theorem converters_never_duplicated:
  assumes "converters_ok m" and "converters_run rs m = (xs, made, m')"
  shows "converters_ok m' \<and> distinct (map fst made) \<and> (\<forall>c\<in>set (map fst made). smap_find m c = None) \<and>
    (\<forall>c. smap_find m' c = (case smap_find m c of Some ctx \<Rightarrow> Some ctx | None \<Rightarrow> map_of made c)) \<and>
    list_all2 (\<lambda>r ctx. ctx \<noteq> 0 \<longrightarrow> smap_find m' (fst r) = Some ctx) rs xs"
  using assms
proof (induction rs arbitrary: m xs made m')
  case (Cons r rs)
  let ?c = "fst r"
  obtain ctx m1 where c: "create_frame_converter (snd r) m (src_width ?c) (src_height ?c) (src_fmt ?c)
      (dst_width ?c) (dst_height ?c) (dst_fmt ?c) = (ctx, m1)" by fastforce
  obtain ys made1 m2 where run: "converters_run rs m1 = (ys, made1, m2)" by (metis prod_cases3)
  have res: "xs = ctx # ys" "m' = m2" "made = (if m1 = m then made1 else (?c, ctx) # made1)"
    using Cons.prems(2) c run by auto
  have "(case smap_find m ?c of Some x \<Rightarrow> ctx = x \<and> m1 = m
    | None \<Rightarrow> (if ctx = 0 then m1 = m else m1 = smap_put m ?c ctx))"
    using converter_create_cases [OF Cons.prems(1), where a = "src_width ?c" and b = "src_height ?c" and c = "src_fmt ?c"
        and d = "dst_width ?c" and e = "dst_height ?c" and f = "dst_fmt ?c" and sws = "snd r"] c
    by (auto simp: Let_def split: option.splits if_splits)
  then consider (hit) "smap_find m ?c = Some ctx" "m1 = m" | (failed) "ctx = 0" "m1 = m"
    | (new) "smap_find m ?c = None" "ctx \<noteq> 0" "m1 = smap_put m ?c ctx"
    by (auto split: option.splits if_splits)
  then show ?case
  proof cases
    case hit
    note ih = Cons.IH [OF Cons.prems(1) run [unfolded hit(2)]]
    have h: "smap_find m2 ?c = Some ctx" using ih hit(1) by (metis option.simps(5))
    have "made = made1" using res(3) hit(2) by simp
    then show ?thesis unfolding res(1,2) list_all2_Cons using ih h by blast
  next
    case failed
    note ih = Cons.IH [OF Cons.prems(1) run [unfolded failed(2)]]
    have "made = made1" using res(3) failed(2) by simp
    then show ?thesis unfolding res(1,2) list_all2_Cons using ih failed(1) by blast
  next
    case new
    have ok: "converters_ok m1" using converters_ok_put [OF Cons.prems(1) new(2)] new(3) by simp
    have f: "smap_find m1 c = (if c = ?c then Some ctx else smap_find m c)" for c
      unfolding new(3) by (rule smap_find_put)
    have ne: "m1 \<noteq> m" using put_new [OF new(1)] new(3) by simp
    note ih = Cons.IH [OF ok run]
    have d: "?c \<notin> set (map fst made1)" using ih f [of ?c] by auto
    have n: "\<forall>c\<in>set (map fst made1). smap_find m c = None" using ih f by (metis option.distinct(1))
    have m2: "smap_find m2 c = (case smap_find m c of Some ctx \<Rightarrow> Some ctx | None \<Rightarrow> map_of made c)" for c
      using ih f [of c] new(1) ne res(3) by (simp split: option.splits)
    have "smap_find m2 ?c = Some ctx" using m2 [of ?c] new(1) ne res(3) by simp
    moreover have "made = (?c, ctx) # made1" using ne res(3) by simp
    then have "distinct (map fst made)" "\<forall>c\<in>set (map fst made). smap_find m c = None"
      using ih d n new(1) by auto
    ultimately show ?thesis unfolding res(1,2) list_all2_Cons using ih m2 by blast
  qed
qed (auto split: option.splits)

definition example_cfg :: vconvcfg where
  "example_cfg = Vconvcfg 1280 720 28 640 480 0"

theorem converters_never_duplicated_witness:
  "converters_run [(example_cfg, \<lambda>_. 7), (example_cfg, \<lambda>_. 8)] [] = ([7, 7], [(example_cfg, 7)], [(example_cfg, 7)]) \<and>
   converters_ok [(example_cfg, 7)]"
proof -
  have r: "converters_run [(example_cfg, \<lambda>_. 7), (example_cfg, \<lambda>_. 8)] [] = ([7, 7], [(example_cfg, 7)], [(example_cfg, 7)])"
    by (simp add: create_frame_converter_def lookup_frame_converter_internal_def)
  show ?thesis using converters_never_duplicated [OF _ r] r by (simp add: converters_ok_def)
qed

text \<open>\<open>operator<\<close> is a strict total order on the configurations, as \<open>std::map\<close> requires:
  exactly one of a before b, a equal to b in all six fields and b before a holds, and it is
  transitive, so two configurations share a converter only when they are equal.\<close>

theorem vconvcfg_strict_order:
  "(vconvcfg_less a b \<and> a \<noteq> b \<and> \<not> vconvcfg_less b a \<or> \<not> vconvcfg_less a b \<and> a = b \<and> \<not> vconvcfg_less b a \<or>
    \<not> vconvcfg_less a b \<and> a \<noteq> b \<and> vconvcfg_less b a) \<and>
   (vconvcfg_less a b \<and> vconvcfg_less b c \<longrightarrow> vconvcfg_less a c)"
  using vconvcfg_less_irrefl vconvcfg_less_trans vconvcfg_less_total by blast

theorem vconvcfg_strict_order_witness:
  "vconvcfg_less (Vconvcfg 1 2 3 4 5 6) (Vconvcfg 1 2 3 4 6 0)"
  using vconvcfg_strict_order [of "Vconvcfg 1 2 3 4 5 6" "Vconvcfg 1 2 3 4 5 7" "Vconvcfg 1 2 3 4 6 0"]
  by (simp add: vconvcfg_less_def)

end
