(* ===== verification/VSource.thy ===== *)
theory VSource
  imports Dpipe GaConf
begin

text \<open>
  The video sources of \<open>core/vsource.cpp\<close>: the configuration of the at most two channels,
  their frame pipes, and the frames in the pipes. A frame is its structure with the memory
  behind it: \<open>vf_mem\<close> are the bytes that follow the structure in its block and \<open>vf_img\<close> is
  where in them the image begins. Addresses are numbers; memory that the allocator gives
  has arbitrary contents. A channel's pointer into the array \<open>gVsource\<close> is its index.
\<close>

record vsource_frame =
  vf_channel :: int
  imgpts :: int
  pixelformat :: int
  linesize :: "int list"
  realwidth :: int
  realheight :: int
  realstride :: int
  realsize :: int
  vf_timestamp :: timeval
  maxstride :: int
  imgbufsize :: int
  vf_img :: int
  vf_mem :: "byte list"

record vsource_config =
  cfg_width :: int
  cfg_height :: int
  cfg_stride :: int

record vsource =
  vs_channel :: int
  pipename :: "string list"
  max_width :: int
  max_height :: int
  max_stride :: int
  curr_width :: int
  curr_height :: int
  curr_stride :: int
  out_width :: int
  out_height :: int
  out_stride :: int

definition vsource_zero :: vsource where
  "vsource_zero = \<lparr>vs_channel = 0, pipename = [], max_width = 0, max_height = 0, max_stride = 0,
     curr_width = 0, curr_height = 0, curr_stride = 0, out_width = 0, out_height = 0, out_stride = 0\<rparr>"

record vsource_sys =
  gVideoChannels :: int
  gVsource :: "vsource list"
  gPipe :: "nat option list"
  vs_pipes :: dpipe_sys
  vs_frames :: "nat \<Rightarrow> vsource_frame option"

definition VIDEO_SOURCE_CHANNEL_MAX :: int where "VIDEO_SOURCE_CHANNEL_MAX = 2"
definition VSOURCE_ALIGNMENT :: int where "VSOURCE_ALIGNMENT = 16"

text \<open>\<open>sizeof(vsource_frame_t)\<close> on the target.\<close>

definition sizeof_frame :: int where "sizeof_frame = 80"

section \<open>Frames\<close>

text \<open>
  Initialising the structure at address \<open>addr\<close> with the bytes \<open>mem\<close> behind it. The inner
  \<open>None\<close> is the NULL pointer.
\<close>

definition vsource_frame_init :: "vsource list \<Rightarrow> int \<Rightarrow> nat \<Rightarrow> byte list \<Rightarrow> vsource_frame option option" where
  "vsource_frame_init vss channel addr mem =
     (if channel < 0 \<or> channel \<ge> VIDEO_SOURCE_CHANNEL_MAX then Some None
      else do {
        vs \<leftarrow> c_get vss channel;
        (if max_width vs = 0 then Some None
         else do {
           bufsize \<leftarrow> c_int (max_height vs * max_stride vs);
           (let off = uint (ga_alignment (word_of_int (int addr + sizeof_frame)) (word_of_int VSOURCE_ALIGNMENT))
            in do {
              mem' \<leftarrow> c_write mem off (replicate (nat bufsize) 0);
              Some (Some \<lparr>vf_channel = 0, imgpts = 0, pixelformat = 0, linesize = replicate 4 (max_stride vs),
                realwidth = 0, realheight = 0, realstride = 0, realsize = 0,
                vf_timestamp = \<lparr>tv_sec = 0, tv_usec = 0\<rparr>, maxstride = max_stride vs, imgbufsize = bufsize,
                vf_img = off, vf_mem = mem'\<rparr>) }) }) })"

definition vsource_dup_frame :: "vsource_frame \<Rightarrow> vsource_frame \<Rightarrow> vsource_frame option" where
  "vsource_dup_frame src dst = do {
     n \<leftarrow> c_int (realstride src * realheight src);
     xs \<leftarrow> c_read (vf_mem src) (vf_img src) n;
     mem \<leftarrow> c_write (vf_mem dst) (vf_img dst) xs;
     Some (dst\<lparr>imgpts := imgpts src, pixelformat := pixelformat src, linesize := linesize src,
       realwidth := realwidth src, realheight := realheight src, realstride := realstride src,
       realsize := realsize src, vf_mem := mem\<rparr>) }"

section \<open>Channels\<close>

definition video_source_channels :: "vsource_sys \<Rightarrow> int" where
  "video_source_channels s = gVideoChannels s"

definition video_source :: "vsource_sys \<Rightarrow> int \<Rightarrow> int option" where
  "video_source s channel = (if channel < 0 \<or> channel > gVideoChannels s then None else Some channel)"

text \<open>Malloc of the name may fail (\<open>alloc\<close> false). The result is the name, or NULL.\<close>

definition video_source_add_pipename_internal :: "bool \<Rightarrow> vsource \<Rightarrow> string option \<Rightarrow> string option \<times> vsource" where
  "video_source_add_pipename_internal alloc vs name = (case name of
       None \<Rightarrow> (None, vs)
     | Some nm \<Rightarrow> if alloc then (Some nm, vs\<lparr>pipename := nm # pipename vs\<rparr>) else (None, vs))"

definition video_source_add_pipename :: "bool \<Rightarrow> vsource_sys \<Rightarrow> int \<Rightarrow> string option \<Rightarrow> (string option \<times> vsource_sys) option" where
  "video_source_add_pipename alloc s channel name = (case video_source s channel of
       None \<Rightarrow> Some (None, s)
     | Some i \<Rightarrow> do {
         vs \<leftarrow> c_get (gVsource s) i;
         (let (r, vs') = video_source_add_pipename_internal alloc vs name
          in Some (r, s\<lparr>gVsource := (gVsource s)[nat i := vs']\<rparr>)) })"

definition video_source_get_pipename :: "vsource_sys \<Rightarrow> int \<Rightarrow> string option option" where
  "video_source_get_pipename s channel = (case video_source s channel of
       None \<Rightarrow> Some None
     | Some i \<Rightarrow> do { vs \<leftarrow> c_get (gVsource s) i; Some (case pipename vs of [] \<Rightarrow> None | nm # _ \<Rightarrow> Some nm) })"

definition video_source_max_width :: "vsource_sys \<Rightarrow> int \<Rightarrow> int option" where
  "video_source_max_width s channel = (case video_source s channel of
       None \<Rightarrow> Some (-1) | Some i \<Rightarrow> map_option max_width (c_get (gVsource s) i))"

definition video_source_max_height :: "vsource_sys \<Rightarrow> int \<Rightarrow> int option" where
  "video_source_max_height s channel = (case video_source s channel of
       None \<Rightarrow> Some (-1) | Some i \<Rightarrow> map_option max_height (c_get (gVsource s) i))"

definition video_source_max_stride :: "vsource_sys \<Rightarrow> int \<Rightarrow> int option" where
  "video_source_max_stride s channel = (case video_source s channel of
       None \<Rightarrow> Some (-1) | Some i \<Rightarrow> map_option max_stride (c_get (gVsource s) i))"

definition video_source_curr_width :: "vsource_sys \<Rightarrow> int \<Rightarrow> int option" where
  "video_source_curr_width s channel = (case video_source s channel of
       None \<Rightarrow> Some (-1) | Some i \<Rightarrow> map_option curr_width (c_get (gVsource s) i))"

definition video_source_curr_height :: "vsource_sys \<Rightarrow> int \<Rightarrow> int option" where
  "video_source_curr_height s channel = (case video_source s channel of
       None \<Rightarrow> Some (-1) | Some i \<Rightarrow> map_option curr_height (c_get (gVsource s) i))"

definition video_source_curr_stride :: "vsource_sys \<Rightarrow> int \<Rightarrow> int option" where
  "video_source_curr_stride s channel = (case video_source s channel of
       None \<Rightarrow> Some (-1) | Some i \<Rightarrow> map_option curr_stride (c_get (gVsource s) i))"

definition video_source_out_width :: "vsource_sys \<Rightarrow> int \<Rightarrow> int option" where
  "video_source_out_width s channel = (case video_source s channel of
       None \<Rightarrow> Some (-1) | Some i \<Rightarrow> map_option out_width (c_get (gVsource s) i))"

definition video_source_out_height :: "vsource_sys \<Rightarrow> int \<Rightarrow> int option" where
  "video_source_out_height s channel = (case video_source s channel of
       None \<Rightarrow> Some (-1) | Some i \<Rightarrow> map_option out_height (c_get (gVsource s) i))"

definition video_source_out_stride :: "vsource_sys \<Rightarrow> int \<Rightarrow> int option" where
  "video_source_out_stride s channel = (case video_source s channel of
       None \<Rightarrow> Some (-1) | Some i \<Rightarrow> map_option out_stride (c_get (gVsource s) i))"

definition video_source_mem_size :: "vsource_sys \<Rightarrow> int \<Rightarrow> int option" where
  "video_source_mem_size s channel = (case video_source s channel of
       None \<Rightarrow> Some 0
     | Some i \<Rightarrow> do { vs \<leftarrow> c_get (gVsource s) i; n \<leftarrow> c_int (max_height vs * max_stride vs); c_int (n + VSOURCE_ALIGNMENT) })"

section \<open>Setup\<close>

text \<open>
  What the environment gives: whether the name of a channel can be stored, the addresses
  for its pipe (\<open>dpipe_create\<close>'s arguments), and the contents of the memory behind a frame
  at an address.
\<close>

record setup_env =
  se_name :: "nat \<Rightarrow> bool"
  se_pipe :: "nat \<Rightarrow> nat option"
  se_pipename :: "nat \<Rightarrow> bool"
  se_buffer :: "nat \<Rightarrow> nat \<Rightarrow> nat option"
  se_malloc :: "nat \<Rightarrow> nat \<Rightarrow> int \<Rightarrow> nat option"
  se_memory :: "nat \<Rightarrow> byte list"

text \<open>\<open>snprintf(pipename, 64, "video-%d", idx)\<close> for the two channels.\<close>

definition video_pipename :: "nat \<Rightarrow> string" where
  "video_pipename idx = ''video-'' @ [char_of (48 + idx)]"

text \<open>The loop over the free frames of a new pipe; \<open>False\<close> is a frame that could not be initialised.\<close>

primrec init_frames :: "nat \<Rightarrow> vsource list \<Rightarrow> int \<Rightarrow> (nat \<Rightarrow> byte list) \<Rightarrow> dheap \<Rightarrow> nat option \<Rightarrow>
    (nat \<Rightarrow> vsource_frame option) \<Rightarrow> (bool \<times> (nat \<Rightarrow> vsource_frame option)) option" where
  "init_frames 0 vss idx mem h data fs = (if data = None then Some (True, fs) else None)"
| "init_frames (Suc n) vss idx mem h data fs = (case data of
       None \<Rightarrow> Some (True, fs)
     | Some b \<Rightarrow> do {
         x \<leftarrow> h b;
         r \<leftarrow> vsource_frame_init vss idx (buf_pointer x) (mem (buf_pointer x));
         (case r of None \<Rightarrow> Some (False, fs)
          | Some f \<Rightarrow> init_frames n vss idx mem h (buf_next x) (fs(buf_pointer x \<mapsto> f))) })"

definition setup_vsource :: "vsource \<Rightarrow> vsource_config \<Rightarrow> int list \<Rightarrow> int list \<Rightarrow> vsource" where
  "setup_vsource vs c maxres outres =
     (let mw = max 2560 (maxres ! 0); mh = max 1600 (maxres ! 1)
      in vs\<lparr>max_width := mw, max_height := mh, max_stride := mw * 4,
         curr_width := cfg_width c, curr_height := cfg_height c, curr_stride := cfg_stride c,
         out_width := (if outres ! 0 \<noteq> 0 then outres ! 0 else cfg_width c),
         out_height := (if outres ! 0 \<noteq> 0 then outres ! 1 else cfg_height c),
         out_stride := (if outres ! 0 \<noteq> 0 then outres ! 0 * 4 else cfg_stride c)\<rparr>)"

text \<open>One round of the loop; the result is whether it went on.\<close>

definition setup_channel :: "setup_env \<Rightarrow> vsource_config \<Rightarrow> int list \<Rightarrow> int list \<Rightarrow> nat \<Rightarrow> vsource_sys \<Rightarrow> (bool \<times> vsource_sys) option" where
  "setup_channel e c maxres outres idx s =
     (let (nm, vs) = video_source_add_pipename_internal (se_name e idx)
            (vsource_zero\<lparr>vs_channel := int idx\<rparr>) (Some (video_pipename idx))
      in if nm = None then Some (False, s\<lparr>gVsource := (gVsource s)[idx := vs]\<rparr>)
         else do {
           st4 \<leftarrow> c_int (max 2560 (maxres ! 0) * 4);
           os4 \<leftarrow> c_int (outres ! 0 * 4);
           (let vs1 = setup_vsource vs c maxres outres; vss = (gVsource s)[idx := vs1]
            in do {
              bufsize \<leftarrow> c_int (max_height vs1 * max_stride vs1);
              sz \<leftarrow> c_int (sizeof_frame + bufsize + VSOURCE_ALIGNMENT);
              (p, pipes) \<leftarrow> dpipe_create (se_pipe e idx) (se_pipename e idx) (se_buffer e idx) (se_malloc e idx)
                 (int idx) (Some (video_pipename idx)) 8 sz (vs_pipes s);
              (let s1 = s\<lparr>gVsource := vss, gPipe := (gPipe s)[idx := p], vs_pipes := pipes\<rparr>
               in case p of None \<Rightarrow> Some (False, s1)
                  | Some a \<Rightarrow> do {
                      d \<leftarrow> ds_pipes pipes a;
                      (ok, fs) \<leftarrow> init_frames 8 vss (int idx) (se_memory e) (ds_heap pipes) (dp_in d) (vs_frames s1);
                      Some (ok, s1\<lparr>vs_frames := fs\<rparr>) }) }) })"

primrec setup_channels :: "setup_env \<Rightarrow> vsource_config list \<Rightarrow> int list \<Rightarrow> int list \<Rightarrow> nat \<Rightarrow> vsource_sys \<Rightarrow> (bool \<times> vsource_sys) option" where
  "setup_channels e [] maxres outres idx s = Some (True, s)"
| "setup_channels e (c # cs) maxres outres idx s = do {
     (ok, s1) \<leftarrow> setup_channel e c maxres outres idx s;
     (if ok then setup_channels e cs maxres outres (Suc idx) s1 else Some (False, s1)) }"

text \<open>\<open>config\<close> is the array that the pointer shows, with at least \<open>nConfig\<close> entries.\<close>

definition video_source_setup_ex :: "setup_env \<Rightarrow> ga_conf \<Rightarrow> vsource_config list option \<Rightarrow> int \<Rightarrow> vsource_sys \<Rightarrow> (int \<times> vsource_sys) option" where
  "video_source_setup_ex e conf config nConfig s = (case config of
       None \<Rightarrow> Some (-1, s)
     | Some cs \<Rightarrow>
         if nConfig \<le> 0 \<or> nConfig > VIDEO_SOURCE_CHANNEL_MAX then Some (-1, s)
         else if int (length cs) < nConfig then None
         else do {
           (n1, mr) \<leftarrow> ga_conf_readints conf ''max-resolution'' [0, 0] 2;
           (n2, outr) \<leftarrow> ga_conf_readints conf ''output-resolution'' [0, 0] 2;
           (let maxres = (if n1 \<noteq> 2 then [0, 0] else mr); outres = (if n2 \<noteq> 2 then [0, 0] else outr)
            in do {
              (ok, s1) \<leftarrow> setup_channels e (take (nat nConfig) cs) maxres outres 0 s;
              Some (if ok then (0, s1\<lparr>gVideoChannels := nConfig\<rparr>) else (-1, s1)) }) })"

definition video_source_setup :: "setup_env \<Rightarrow> ga_conf \<Rightarrow> int \<Rightarrow> int \<Rightarrow> int \<Rightarrow> vsource_sys \<Rightarrow> (int \<times> vsource_sys) option" where
  "video_source_setup e conf w h st s =
     video_source_setup_ex e conf (Some [\<lparr>cfg_width = w, cfg_height = h, cfg_stride = st\<rparr>]) 1 s"

section \<open>Initialised frames\<close>

text \<open>
  A frame at \<open>addr\<close> that is ready for use: the image is aligned, lies whole inside the memory
  of the frame and is black, and the structure says so.
\<close>

definition frame_ready :: "vsource \<Rightarrow> nat \<Rightarrow> vsource_frame \<Rightarrow> bool" where
  "frame_ready vs addr f \<longleftrightarrow>
     VSOURCE_ALIGNMENT dvd int addr + sizeof_frame + vf_img f \<and>
     imgbufsize f = max_height vs * max_stride vs \<and>
     c_read (vf_mem f) (vf_img f) (imgbufsize f) = Some (replicate (nat (imgbufsize f)) 0) \<and>
     linesize f = replicate 4 (max_stride vs) \<and> maxstride f = max_stride vs"

lemma ga_alignment_16:
  "uint (ga_alignment (word_of_int x) (word_of_int VSOURCE_ALIGNMENT)) = 16 - x mod 16"
proof -
  have a: "(w AND 15 :: u32) = take_bit 4 w" for w
    using take_bit_eq_mask [of 4 w] by (simp add: mask_eq_exp_minus_1)
  have m: "uint (take_bit 4 (word_of_int x :: u32)) = x mod 16"
    unfolding unsigned_take_bit_eq
    by (simp add: take_bit_eq_mod uint_word_of_int mod_mod_cancel)
  have le: "take_bit 4 (word_of_int x :: u32) \<le> 16"
    using m by (simp add: word_le_def)
  have "uint (16 - take_bit 4 (word_of_int x :: u32)) = uint (16 :: u32) - uint (take_bit 4 (word_of_int x :: u32))"
    using le by (rule uint_minus_simple_alt [THEN iffD1])
  then show ?thesis by (simp add: ga_alignment_def VSOURCE_ALIGNMENT_def a m)
qed

lemma frame_init_ready:
  assumes "c_get vss channel = Some vs" and "max_width vs \<noteq> 0" and "channel < 2"
    and "0 \<le> max_height vs * max_stride vs" and "max_height vs * max_stride vs < 2 ^ 31"
    and "max_height vs * max_stride vs + VSOURCE_ALIGNMENT \<le> int (length mem)"
  shows "\<exists>f. vsource_frame_init vss channel addr mem = Some (Some f) \<and> frame_ready vs addr f \<and>
    length (vf_mem f) = length mem"
proof -
  have ch: "0 \<le> channel" using assms(1) by (auto simp: c_get_def split: if_splits)
  let ?x = "int addr + sizeof_frame" and ?n = "max_height vs * max_stride vs"
  let ?off = "16 - ?x mod 16"
  have off: "uint (ga_alignment (word_of_int ?x) (word_of_int VSOURCE_ALIGNMENT)) = ?off"
    by (rule ga_alignment_16)
  have ob: "0 \<le> ?off" "?off \<le> 16" by simp_all
  have ml: "?n + 16 \<le> int (length mem)" using assms(6) by (simp add: VSOURCE_ALIGNMENT_def)
  have "?off + int (length (replicate (nat ?n) (0 :: byte))) \<le> int (length mem)"
    using ob ml assms(4) by simp
  from c_write_defined [OF ob(1) this] obtain mem' where w: "c_write mem ?off (replicate (nat ?n) 0) = Some mem'"
    "length mem' = length mem" by blast
  have r: "c_read mem' ?off ?n = Some (replicate (nat ?n) 0)"
    using c_read_write_same [OF w(1)] assms(4) by simp
  have "16 dvd ?x + ?off"
  proof -
    have "?x + ?off = 16 * (?x div 16) + 16" using mult_div_mod_eq [of 16 ?x] by linarith
    then show ?thesis by presburger
  qed
  then show ?thesis
    using ch assms(1-5) off w r
    by (simp add: vsource_frame_init_def frame_ready_def c_int_Some VIDEO_SOURCE_CHANNEL_MAX_def VSOURCE_ALIGNMENT_def)
qed

text \<open>Duplicating a frame into another ready frame copies the image and all that describes it
  whenever the image fits the destination, and leaves the source alone; only the capture time
  stays that of the destination.\<close>

theorem vsource_dup_frame_copies:
  assumes "c_read (vf_mem src) (vf_img src) (realstride src * realheight src) = Some pix"
    and "frame_ready vs addr dst" and "realstride src * realheight src \<le> imgbufsize dst"
    and "imgbufsize dst < 2 ^ 31"
  shows "\<exists>f. vsource_dup_frame src dst = Some f \<and>
    c_read (vf_mem f) (vf_img f) (realstride f * realheight f) = Some pix \<and>
    imgpts f = imgpts src \<and> pixelformat f = pixelformat src \<and> linesize f = linesize src \<and>
    realwidth f = realwidth src \<and> realheight f = realheight src \<and> realstride f = realstride src \<and>
    realsize f = realsize src \<and> vf_timestamp f = vf_timestamp dst"
proof -
  let ?n = "realstride src * realheight src"
  have l: "int (length pix) = ?n" using c_read_SomeD [OF assms(1)] .
  have d: "0 \<le> vf_img dst" "vf_img dst + imgbufsize dst \<le> int (length (vf_mem dst))"
    using assms(2) by (auto simp: frame_ready_def c_read_def split: if_splits)
  have "vf_img dst + int (length pix) \<le> int (length (vf_mem dst))" using l assms(3) d(2) by linarith
  from c_write_defined [OF d(1) this] obtain mem where m: "c_write (vf_mem dst) (vf_img dst) pix = Some mem" by blast
  have "c_int ?n = Some ?n" using l assms(3,4) by (intro c_int_Some) linarith+
  then show ?thesis
    using assms(1) m c_read_write_same [OF m] by (simp add: vsource_dup_frame_def l)
qed

section \<open>Channel numbers\<close>

text \<open>The guard of \<open>video_source\<close> lets the channel number \<open>gChannels\<close> through. With both channels
  in use, asking for channel 2 reads behind the array; with one in use, asking for channel 1
  gives the values of an unused entry instead of the error value; all other numbers outside
  the channels give -1.\<close>

theorem video_source_bound_off_by_one:
  assumes "length (gVsource s) = 2" and "gVideoChannels s = 1 \<or> gVideoChannels s = 2"
  shows "(gVideoChannels s = 2 \<longrightarrow> video_source_max_width s 2 = None) \<and>
    (gVideoChannels s = 1 \<longrightarrow> video_source_max_width s 1 = Some (max_width (gVsource s ! 1))) \<and>
    (\<forall>ch. 0 \<le> ch \<and> ch < gVideoChannels s \<longrightarrow> video_source_max_width s ch = Some (max_width (gVsource s ! nat ch))) \<and>
    (\<forall>ch. ch < 0 \<or> ch > gVideoChannels s \<longrightarrow> video_source_max_width s ch = Some (-1))"
  using assms by (auto simp: video_source_max_width_def video_source_def c_get_def)

section \<open>Setting up a channel\<close>

lemma init_frames_ready:
  assumes "plist h data bs" and "length bs \<le> n" and "c_get vss idx = Some vs" and "idx < 2" and "max_width vs \<noteq> 0"
    and "0 \<le> max_height vs * max_stride vs" and "max_height vs * max_stride vs < 2 ^ 31"
    and "\<And>a. max_height vs * max_stride vs + VSOURCE_ALIGNMENT \<le> int (length (mem a))"
  shows "\<exists>fs'. init_frames n vss idx mem h data fs = Some (True, fs') \<and>
    (\<forall>b\<in>set bs. \<exists>x f. h b = Some x \<and> fs' (buf_pointer x) = Some f \<and> frame_ready vs (buf_pointer x) f) \<and>
    (\<forall>a. (\<exists>f. fs a = Some f \<and> frame_ready vs a f) \<longrightarrow> (\<exists>f. fs' a = Some f \<and> frame_ready vs a f))"
  using assms(1,2)
proof (induction bs arbitrary: data n fs)
  case Nil
  then show ?case by (cases n) auto
next
  case (Cons b bs)
  obtain x m where x: "h b = Some x" "plist h (buf_next x) bs" "data = Some b" and n: "n = Suc m"
    using Cons.prems(1,2) by (cases n) auto
  from frame_init_ready [OF assms(3,5,4,6,7) assms(8)]
  obtain f where f: "vsource_frame_init vss idx (buf_pointer x) (mem (buf_pointer x)) = Some (Some f)"
    "frame_ready vs (buf_pointer x) f" by blast
  have len: "length bs \<le> m" using Cons.prems(2) n by simp
  from Cons.IH [OF x(2) len, of "fs(buf_pointer x \<mapsto> f)"] obtain fs' where
    fs': "init_frames m vss idx mem h (buf_next x) (fs(buf_pointer x \<mapsto> f)) = Some (True, fs')"
    "\<forall>b\<in>set bs. \<exists>x f. h b = Some x \<and> fs' (buf_pointer x) = Some f \<and> frame_ready vs (buf_pointer x) f"
    "\<forall>a. (\<exists>g. (fs(buf_pointer x \<mapsto> f)) a = Some g \<and> frame_ready vs a g) \<longrightarrow> (\<exists>g. fs' a = Some g \<and> frame_ready vs a g)"
    by blast
  have hd: "\<exists>g. fs' (buf_pointer x) = Some g \<and> frame_ready vs (buf_pointer x) g"
    using fs'(3) f(2) by simp
  have keep: "\<exists>g. fs' a = Some g \<and> frame_ready vs a g" if "\<exists>g. fs a = Some g \<and> frame_ready vs a g" for a
    using fs'(3) that f(2) by (cases "a = buf_pointer x") simp_all
  show ?case using x n f(1) fs'(1,2) hd keep by auto
qed

lemma dpipe_create_defined:
  assumes "alloc_fresh balloc s"
  shows "\<exists>r s'. dpipe_create (Some a) nalloc balloc malloc i (Some name) nframe sz s = Some (r, s')"
proof -
  let ?d0 = "\<lparr>dp_channel_id = i, dp_name = name, dp_in = None, dp_out = None,
     dp_out_tail = None, dp_in_count = 0, dp_out_count = 0\<rparr>"
  obtain ok h d where al: "dpipe_alloc (nat nframe) balloc malloc sz 0 (ds_heap s) ?d0 = (ok, h, d)"
    by (metis prod_cases3)
  obtain new where new: "plist h (dp_in d) new" "distinct new" "length new \<le> nat nframe"
    "d = ?d0\<lparr>dp_in := dp_in d, dp_in_count := int (length new)\<rparr>"
    using dpipe_alloc_frames [OF al, of "[]"] assms by (auto simp: alloc_fresh_def)
  have o: "dp_out d = None" using new(4) by (metis dpipe_t.select_convs(4) dpipe_t.update_convs(3,6) dpipe_t.surjective)
  have fl: "free_list k g None = Some g" for k g by (cases k) simp_all
  let ?s = "s\<lparr>ds_heap := h, ds_pipes := (ds_pipes s)(a \<mapsto> d)\<rparr>"
  have "\<exists>r s2. dpipe_destroy (nat nframe) ?s (Some a) = Some (r, s2)"
    using free_list_all [OF new(1,2,3)] o fl by (simp add: dpipe_destroy_def)
  then show ?thesis using al by (auto simp: dpipe_create_def Let_def)
qed

text \<open>The two numbers of a configuration parameter, zero unless there are two.\<close>

definition conf_pair :: "ga_conf \<Rightarrow> string \<Rightarrow> int list option" where
  "conf_pair conf key = do { (n, v) \<leftarrow> ga_conf_readints conf key [0, 0] 2; Some (if n \<noteq> 2 then [0, 0] else v) }"

text \<open>The environment of a successful or failed setup of channel 0: the pipe structure is
  new, buffer structures are new and different, and blocks have the size asked for.\<close>

definition env_ok :: "setup_env \<Rightarrow> nat \<Rightarrow> int \<Rightarrow> vsource_sys \<Rightarrow> bool" where
  "env_ok e a bufsize s \<longleftrightarrow> se_name e 0 \<and> se_pipe e 0 = Some a \<and> se_pipename e 0 \<and>
     alloc_fresh (se_buffer e 0) (vs_pipes s) \<and> smap_ok (dpipemap (vs_pipes s)) \<and> ds_pipes (vs_pipes s) a = None \<and>
     (\<forall>p. bufsize + VSOURCE_ALIGNMENT \<le> int (length (se_memory e p)))"

text \<open>Setting up one channel either fails, leaving the number of channels alone, or gives channel 0
  the captured size, limits of at least 2560 by 1600, the output size of the configuration or
  else the captured one, and a pipe of 8 frames, each initialised with an aligned black image of
  the maximum size that lies within its block.\<close>

theorem video_source_setup_one:
  assumes "conf_pair conf ''max-resolution'' = Some mr" and "conf_pair conf ''output-resolution'' = Some outr"
    and "max 1600 (mr ! 1) * (max 2560 (mr ! 0) * 4) + 96 < 2 ^ 31" and "\<bar>outr ! 0\<bar> < 2 ^ 29"
    and "length (gVsource s) = 2" and "length (gPipe s) = 2"
    and "env_ok e a (max 1600 (mr ! 1) * (max 2560 (mr ! 0) * 4)) s"
  shows "\<exists>r s'. video_source_setup e conf w h st s = Some (r, s') \<and>
    (r = -1 \<and> gVideoChannels s' = gVideoChannels s \<or>
     r = 0 \<and> gVideoChannels s' = 1 \<and>
     (let vs = gVsource s' ! 0 in pipename vs = [''video-0''] \<and> curr_width vs = w \<and> curr_height vs = h \<and> curr_stride vs = st \<and>
        2560 \<le> max_width vs \<and> 1600 \<le> max_height vs \<and> max_stride vs = 4 * max_width vs \<and>
        (if outr ! 0 \<noteq> 0 then out_width vs = outr ! 0 \<and> out_height vs = outr ! 1 \<and> out_stride vs = 4 * outr ! 0
         else out_width vs = w \<and> out_height vs = h \<and> out_stride vs = st) \<and>
        gPipe s' ! 0 = Some a \<and>
        (\<exists>d frames. ds_pipes (vs_pipes s') a = Some d \<and> dpipe_rep (ds_heap (vs_pipes s')) d frames [] \<and>
           length frames = 8 \<and> (\<forall>b\<in>set frames. \<exists>x f. ds_heap (vs_pipes s') b = Some x \<and>
             vs_frames s' (buf_pointer x) = Some f \<and> frame_ready vs (buf_pointer x) f))))"
proof -
  let ?c = "\<lparr>cfg_width = w, cfg_height = h, cfg_stride = st\<rparr>"
  let ?base = "vsource_zero\<lparr>vs_channel := 0, pipename := [video_pipename 0]\<rparr>"
  let ?vs = "setup_vsource ?base ?c mr outr"
  let ?vss = "(gVsource s)[0 := ?vs]"
  let ?n = "max 1600 (mr ! 1) * (max 2560 (mr ! 0) * 4)"
  have mw: "2560 \<le> max 2560 (mr ! 0)" and mh: "1600 \<le> max 1600 (mr ! 1)" by simp_all
  have le: "max 2560 (mr ! 0) * 4 \<le> ?n"
  proof -
    have "1 * (max 2560 (mr ! 0) * 4) \<le> ?n" by (rule mult_right_mono) (use mw mh in linarith)+
    then show ?thesis by (simp only: mult_1)
  qed
  have f: "max_height ?vs * max_stride ?vs = ?n" by (simp add: setup_vsource_def Let_def)
  have ci: "c_int (max 2560 (mr ! 0) * 4) = Some (max 2560 (mr ! 0) * 4)" "c_int (outr ! 0 * 4) = Some (outr ! 0 * 4)"
    "c_int ?n = Some ?n" "c_int (sizeof_frame + ?n + VSOURCE_ALIGNMENT) = Some (sizeof_frame + ?n + VSOURCE_ALIGNMENT)"
  proof -
    have p: "(2 :: int) ^ 31 = 2147483648" "(2 :: int) ^ 29 = 536870912" by simp_all
    note c = c_int_Some [unfolded p] and b = le mw assms(3,4) [unfolded p]
    show "c_int (max 2560 (mr ! 0) * 4) = Some (max 2560 (mr ! 0) * 4)" by (rule c) (use b in linarith)+
    show "c_int (outr ! 0 * 4) = Some (outr ! 0 * 4)" by (rule c) (use b in linarith)+
    show "c_int ?n = Some ?n" by (rule c) (use b in linarith)+
    show "c_int (sizeof_frame + ?n + VSOURCE_ALIGNMENT) = Some (sizeof_frame + ?n + VSOURCE_ALIGNMENT)"
      unfolding sizeof_frame_def VSOURCE_ALIGNMENT_def by (rule c) (use b in linarith)+
  qed
  have ok: "se_name e 0" "se_pipe e 0 = Some a" "se_pipename e 0" "alloc_fresh (se_buffer e 0) (vs_pipes s)"
    "smap_ok (dpipemap (vs_pipes s))" "ds_pipes (vs_pipes s) a = None"
    "\<And>p. ?n + VSOURCE_ALIGNMENT \<le> int (length (se_memory e p))"
    using assms(7) by (auto simp: env_ok_def)
  obtain r pipes where cr: "dpipe_create (Some a) True (se_buffer e 0) (se_malloc e 0) 0 (Some (video_pipename 0)) 8
      (sizeof_frame + ?n + VSOURCE_ALIGNMENT) (vs_pipes s) = Some (r, pipes)"
    using dpipe_create_defined [OF ok(4)] by blast
  let ?s1 = "s\<lparr>gVsource := ?vss, gPipe := (gPipe s)[0 := r], vs_pipes := pipes\<rparr>"
  have nm: "video_source_add_pipename_internal True (vsource_zero\<lparr>vs_channel := 0\<rparr>) (Some (video_pipename 0))
      = (Some (video_pipename 0), ?base)"
    by (simp add: video_source_add_pipename_internal_def vsource_zero_def)
  have step: "setup_channel e ?c mr outr 0 s = (case r of None \<Rightarrow> Some (False, ?s1)
      | Some a \<Rightarrow> do { d \<leftarrow> ds_pipes pipes a;
          (k, fs) \<leftarrow> init_frames 8 ?vss (int 0) (se_memory e) (ds_heap pipes) (dp_in d) (vs_frames ?s1);
          Some (k, ?s1\<lparr>vs_frames := fs\<rparr>) })"
    using ok(1-3) ci cr f
    by (simp add: setup_channel_def nm Let_def)
  have top: "video_source_setup e conf w h st s = do { (k, s1) \<leftarrow> setup_channel e ?c mr outr 0 s;
      Some (if k then (0, s1\<lparr>gVideoChannels := 1\<rparr>) else (-1, s1)) }"
  proof -
    obtain n1 v1 where a: "ga_conf_readints conf ''max-resolution'' [0, 0] 2 = Some (n1, v1)"
      "(if n1 \<noteq> 2 then [0, 0] else v1) = mr"
      using assms(1) unfolding conf_pair_def by fastforce
    obtain n2 v2 where b: "ga_conf_readints conf ''output-resolution'' [0, 0] 2 = Some (n2, v2)"
      "(if n2 \<noteq> 2 then [0, 0] else v2) = outr"
      using assms(2) unfolding conf_pair_def by fastforce
    have t: "take (nat 1) [?c] = [?c]" by simp
    have d: "do { (ok, s1) \<leftarrow> setup_channels e [?c] mr outr 0 s; Some (if ok then (0, s1\<lparr>gVideoChannels := 1\<rparr>) else (-1, s1)) }
        = do { (k, s1) \<leftarrow> setup_channel e ?c mr outr 0 s; Some (if k then (0 :: int, s1\<lparr>gVideoChannels := 1\<rparr>) else (-1, s1)) }"
      by (cases "setup_channel e ?c mr outr 0 s") (auto split: prod.splits)
    have g: "\<not> ((1 :: int) \<le> 0 \<or> 1 > VIDEO_SOURCE_CHANNEL_MAX)" "\<not> int (length [?c]) < 1"
      by (simp_all add: VIDEO_SOURCE_CHANNEL_MAX_def)
    show ?thesis
      unfolding video_source_setup_def video_source_setup_ex_def option.case if_not_P [OF g(1)] if_not_P [OF g(2)]
        a(1) b(1) bind.bind_lunit prod.case Let_def a(2) b(2) t d ..
  qed
  show ?thesis
  proof (cases r)
    case None
    then show ?thesis unfolding top step by simp
  next
    case (Some a')
    obtain d frames where d: "a' = a" "ds_pipes pipes a = Some d" "dpipe_rep (ds_heap pipes) d frames []" "length frames = 8"
      using create_cases [OF ok(4,5,6) cr] Some by auto
    have g: "c_get ?vss 0 = Some ?vs" using assms(5) by (simp add: c_get_def)
    have w0: "max_width ?vs \<noteq> 0" by (simp add: setup_vsource_def Let_def max_def)
    have p: "plist (ds_heap pipes) (dp_in d) frames" using d(3) by (simp add: dpipe_rep_def)
    obtain fs where fs: "init_frames 8 ?vss 0 (se_memory e) (ds_heap pipes) (dp_in d) (vs_frames ?s1) = Some (True, fs)"
      "\<forall>b\<in>set frames. \<exists>x f. ds_heap pipes b = Some x \<and> fs (buf_pointer x) = Some f \<and> frame_ready ?vs (buf_pointer x) f"
      using init_frames_ready [OF p _ g _ w0, of 8 "se_memory e" "vs_frames ?s1"] d(4) f mw mh assms(3) ok(7) le by auto
    have e: "video_source_setup e conf w h st s = Some (0, ?s1\<lparr>vs_frames := fs, gVideoChannels := 1\<rparr>)"
      unfolding top step Some d(1) using d(2) fs(1) Some d(1) by simp
    have v: "gVsource (?s1\<lparr>vs_frames := fs, gVideoChannels := 1\<rparr>) ! 0 = ?vs" using assms(5) by simp
    have nm: "video_pipename 0 = ''video-0''" by code_simp
    have fields: "pipename ?vs = [''video-0'']" "curr_width ?vs = w" "curr_height ?vs = h" "curr_stride ?vs = st"
      "2560 \<le> max_width ?vs" "1600 \<le> max_height ?vs" "max_stride ?vs = 4 * max_width ?vs"
      "if outr ! 0 \<noteq> 0 then out_width ?vs = outr ! 0 \<and> out_height ?vs = outr ! 1 \<and> out_stride ?vs = 4 * outr ! 0
       else out_width ?vs = w \<and> out_height ?vs = h \<and> out_stride ?vs = st"
      by (simp_all add: setup_vsource_def Let_def nm)
    have gp: "gPipe (?s1\<lparr>vs_frames := fs, gVideoChannels := 1\<rparr>) ! 0 = Some a" using Some d(1) assms(6) by simp
    show ?thesis
      apply (intro exI conjI, rule e)
      apply (rule disjI2)
      unfolding Let_def v using fields gp d fs(2) by auto
  qed
qed

definition example_env :: setup_env where
  "example_env = \<lparr>se_name = (\<lambda>_. True), se_pipe = (\<lambda>_. Some 9), se_pipename = (\<lambda>_. True),
     se_buffer = (\<lambda>_ j. Some (100 + j)), se_malloc = (\<lambda>_ i n. Some (17000000 * i)),
     se_memory = (\<lambda>_. replicate 16384016 3)\<rparr>"

definition example_vsys :: vsource_sys where
  "example_vsys = \<lparr>gVideoChannels = 0, gVsource = [vsource_zero, vsource_zero], gPipe = [None, None],
     vs_pipes = empty_sys, vs_frames = (\<lambda>_. None)\<rparr>"

theorem video_source_setup_one_witness:
  "\<exists>r s'. video_source_setup example_env ga_conf_empty 1280 720 5120 example_vsys = Some (r, s') \<and> r \<in> {-1, 0}"
proof -
  have c: "conf_pair ga_conf_empty k = Some [0, 0]" for k
    by (simp add: conf_pair_def ga_conf_readints_def ga_conf_readv_def ga_conf_empty_def)
  have e: "env_ok example_env 9 (max 1600 ([0, 0 :: int] ! 1) * (max 2560 ([0, 0 :: int] ! 0) * 4)) example_vsys"
    by (simp add: env_ok_def example_env_def example_vsys_def empty_sys_def alloc_fresh_def VSOURCE_ALIGNMENT_def)
  have l: "length (gVsource example_vsys) = 2" "length (gPipe example_vsys) = 2"
    by (simp_all add: example_vsys_def)
  have b: "max 1600 ([0, 0 :: int] ! 1) * (max 2560 ([0, 0 :: int] ! 0) * 4) + 96 < 2 ^ 31" "\<bar>[0, 0 :: int] ! 0\<bar> < 2 ^ 29"
    by simp_all
  from video_source_setup_one [OF c c b l e, of 1280 720 5120] show ?thesis by blast
qed

theorem video_source_bound_off_by_one_witness:
  "video_source_max_width (example_vsys\<lparr>gVideoChannels := 2\<rparr>) 2 = None"
  using video_source_bound_off_by_one [of "example_vsys\<lparr>gVideoChannels := 2\<rparr>"]
  by (simp add: example_vsys_def)

definition example_frame :: vsource_frame where
  "example_frame = \<lparr>vf_channel = 0, imgpts = 5, pixelformat = 28, linesize = [4, 4, 4, 4],
     realwidth = 1, realheight = 2, realstride = 4, realsize = 8,
     vf_timestamp = \<lparr>tv_sec = 3, tv_usec = 0\<rparr>, maxstride = 4, imgbufsize = 8, vf_img = 0,
     vf_mem = [1, 2, 3, 4, 5, 6, 7, 8]\<rparr>"

definition example_black :: vsource_frame where
  "example_black = \<lparr>vf_channel = 0, imgpts = 0, pixelformat = 0, linesize = [8, 8, 8, 8],
     realwidth = 0, realheight = 0, realstride = 0, realsize = 0,
     vf_timestamp = \<lparr>tv_sec = 0, tv_usec = 0\<rparr>, maxstride = 8, imgbufsize = 16, vf_img = 16,
     vf_mem = replicate 32 0\<rparr>"

theorem vsource_dup_frame_copies_witness:
  "\<exists>f. vsource_dup_frame example_frame example_black = Some f \<and>
    c_read (vf_mem f) (vf_img f) 8 = Some [1, 2, 3, 4, 5, 6, 7, 8] \<and> tv_sec (vf_timestamp f) = 0"
proof -
  have "frame_ready (vsource_zero\<lparr>max_height := 2, max_stride := 8\<rparr>) 0 example_black"
    by (simp add: frame_ready_def example_black_def sizeof_frame_def VSOURCE_ALIGNMENT_def c_read_def numeral_eq_Suc)
  moreover have "c_read (vf_mem example_frame) (vf_img example_frame) (realstride example_frame * realheight example_frame)
      = Some [1, 2, 3, 4, 5, 6, 7, 8]"
    and "realstride example_frame * realheight example_frame \<le> imgbufsize example_black" "imgbufsize example_black < 2 ^ 31"
    by (simp_all add: example_frame_def example_black_def c_read_def)
  moreover note vsource_dup_frame_copies
  ultimately obtain f where f: "vsource_dup_frame example_frame example_black = Some f"
    "c_read (vf_mem f) (vf_img f) (realstride f * realheight f) = Some [1, 2, 3, 4, 5, 6, 7, 8]"
    "realheight f = realheight example_frame" "realstride f = realstride example_frame"
    "vf_timestamp f = vf_timestamp example_black"
    by blast
  have "realstride f * realheight f = 8" using f(3,4) by (simp add: example_frame_def)
  then show ?thesis using f(1,2,5) by (auto simp: example_black_def)
qed

end
