(* ===== verification/ColorCode.thy ===== *)
theory ColorCode
  imports VSource Crc5
begin

text \<open>
  The colour codes that \<open>core/vsource.cpp\<close> draws into captured frames: a sequence number
  written as a line of coloured cells, three bits a cell, most significant first, followed by
  two check digits and an identifier. The configuration is a record; the line is made in a
  static buffer and copied to the first lines of the image. An access outside the buffer or
  the frame is \<open>None\<close>. The file of codes and times, when there is one, is not modelled.
\<close>

record colorcode =
  cc_initialized :: int
  cc_counter :: u32
  cc_counter_mask :: u32
  cc_digits :: int
  cc_width :: int
  cc_height :: int
  cc_total_width :: int
  cc_initmask :: u32
  cc_initshift :: u32
  cc_planes :: "int option list"
  cc_buffer :: "byte list"

definition COLORCODE_MAX_DIGIT :: int where "COLORCODE_MAX_DIGIT = 10"
definition COLORCODE_MAX_WIDTH :: int where "COLORCODE_MAX_WIDTH = 128"
definition COLORCODE_SUFFIX :: int where "COLORCODE_SUFFIX = 4"

definition rgbacolor :: "byte list list" where
  "rgbacolor = [[0, 0, 0, 255], [0, 0, 234, 255], [0, 234, 0, 255], [234, 0, 0, 255],
     [234, 234, 0, 255], [234, 0, 234, 255], [0, 234, 234, 255], [255, 255, 255, 255]]"

definition bgracolor :: "byte list list" where
  "bgracolor = [[0, 0, 0, 255], [234, 0, 0, 255], [0, 234, 0, 255], [0, 0, 234, 255],
     [0, 234, 234, 255], [234, 0, 234, 255], [234, 234, 0, 255], [255, 255, 255, 255]]"

definition yuv_colorY :: "byte list" where
  "yuv_colorY = [0x10, 0x27, 0x86, 0x4C, 0xC2, 0x63, 0x9D, 0xEB]"

definition yuv_colorU :: "byte list" where
  "yuv_colorU = [0x7C, 0xDD, 0x3E, 0x6F, 0x26, 0xB7, 0x98, 0x85]"

definition yuv_colorV :: "byte list" where
  "yuv_colorV = [0x79, 0x77, 0x38, 0xDC, 0x80, 0xD1, 0x22, 0x87]"

section \<open>Configuration\<close>

text \<open>The loop that makes the counter mask.\<close>

primrec cc_mask_loop :: "nat \<Rightarrow> u32 \<Rightarrow> u32" where
  "cc_mask_loop 0 m = m"
| "cc_mask_loop (Suc n) m = cc_mask_loop n (push_bit 3 m OR 7)"

text \<open>From the three numbers of the parameter; the limits, the masks and the planes.\<close>

definition cc_configure :: "int list \<Rightarrow> int \<Rightarrow> colorcode \<Rightarrow> (int \<times> colorcode) option" where
  "cc_configure param RGBmode cc =
     (let cc1 = cc\<lparr>cc_digits := param ! 0, cc_width := param ! 1, cc_height := param ! 2\<rparr>
      in if cc_digits cc1 \<le> 0 then Some (-1, cc1)
         else let digits = (if cc_digits cc1 > COLORCODE_MAX_DIGIT then COLORCODE_MAX_DIGIT else cc_digits cc1);
                  width = (if cc_width cc1 > COLORCODE_MAX_WIDTH then COLORCODE_MAX_WIDTH else cc_width cc1);
                  shift = (digits - 1) * 3
              in do {
                total \<leftarrow> c_int ((digits + COLORCODE_SUFFIX) * width);
                Some (0, cc1\<lparr>cc_digits := digits, cc_width := width,
                  cc_initshift := word_of_int shift, cc_initmask := push_bit (nat shift) 7,
                  cc_total_width := total, cc_counter_mask := cc_mask_loop (nat digits) 0,
                  cc_planes := (if RGBmode \<noteq> 0 then [Some 0, None] @ drop 2 (cc_planes cc1)
                     else [Some 0, Some total, Some (total + drop_bit 2 total), None]),
                  cc_initialized := 1\<rparr>) })"

definition vsource_embed_colorcode_init :: "ga_conf \<Rightarrow> int \<Rightarrow> colorcode \<Rightarrow> (int \<times> colorcode) option" where
  "vsource_embed_colorcode_init conf RGBmode cc = do {
     (n, param) \<leftarrow> ga_conf_readints conf ''embed-colorcode'' [0, 0, 0] 3;
     (if n \<noteq> 3 then Some (-1, cc)
      else do {
        _ \<leftarrow> ga_conf_readv conf ''save-colorcode-timestamp'' 128;
        cc_configure param RGBmode cc }) }"

definition vsource_embed_colorcode_reset :: "colorcode \<Rightarrow> colorcode" where
  "vsource_embed_colorcode_reset cc = cc\<lparr>cc_counter := 0\<rparr>"

definition vsource_crc5_usb :: "byte list \<Rightarrow> crc5_t" where
  "vsource_crc5_usb data = crc5_finalize (crc5_update_usb crc5_init data)"

definition vsource_crc5_ccitt :: "byte list \<Rightarrow> crc5_t" where
  "vsource_crc5_ccitt data = crc5_finalize (crc5_update_ccitt crc5_init data)"

section \<open>The line of cells\<close>

text \<open>The check digits and the identifier.\<close>

definition cc_suffix :: "u32 \<Rightarrow> nat list" where
  "cc_suffix v = (if v \<noteq> 0
     then [unat ((43 * (((v * 32) div 43) + 1) - 32 * v) AND 7), unat ((37 * (((v * 32) div 37) + 1) - 32 * v) AND 7), 3, 7]
     else [0, 0, 3, 7])"

lemma drop_bit_less: "(msk :: u32) \<noteq> 0 \<Longrightarrow> unat (drop_bit 3 msk) < unat msk"
proof -
  assume "msk \<noteq> 0"
  then have "0 < unat msk" by (simp add: unat_gt_0)
  moreover have "unat (drop_bit 3 msk) = unat msk div 8"
    by (simp add: drop_bit_eq_div unat_div)
  ultimately show ?thesis by simp
qed

text \<open>The loop \<open>while(mask != 0)\<close>: the digits of the value part.\<close>

function cc_digits_of :: "u32 \<Rightarrow> u32 \<Rightarrow> u32 \<Rightarrow> nat list" where
  "cc_digits_of v msk shift =
     (if msk = 0 then []
      else unat (drop_bit (unat shift) (v AND msk)) # cc_digits_of v (drop_bit 3 msk) (shift - 3))"
  by pat_completeness auto
termination
  by (relation "measure (\<lambda>(v, msk, shift). unat msk)") (auto simp: drop_bit_less)

declare cc_digits_of.simps [simp del]

text \<open>Writing the cells through a moving pointer: \<open>width\<close> times the colour of each digit.\<close>

definition cc_cells :: "int \<Rightarrow> byte list list \<Rightarrow> nat list \<Rightarrow> byte list" where
  "cc_cells width color ds = concat (map (\<lambda>d. concat (replicate (nat width) (color ! d))) ds)"

definition cc_write :: "byte list \<Rightarrow> int \<Rightarrow> byte list \<Rightarrow> byte list option" where
  "cc_write buf off xs = (if xs = [] then Some buf else c_write buf off xs)"

text \<open>Copying the line to \<open>n\<close> lines of the image.\<close>

primrec cc_lines :: "nat \<Rightarrow> byte list \<Rightarrow> int \<Rightarrow> int \<Rightarrow> byte list \<Rightarrow> byte list option" where
  "cc_lines 0 line dst stride mem = Some mem"
| "cc_lines (Suc n) line dst stride mem = do {
     mem1 \<leftarrow> c_write mem dst line;
     cc_lines n line (dst + stride) stride mem1 }"

primrec cc_lines2 :: "nat \<Rightarrow> byte list \<Rightarrow> byte list \<Rightarrow> int \<Rightarrow> int \<Rightarrow> int \<Rightarrow> int \<Rightarrow> byte list \<Rightarrow> byte list option" where
  "cc_lines2 0 u v du dv su sv mem = Some mem"
| "cc_lines2 (Suc n) u v du dv su sv mem = do {
     mem1 \<leftarrow> c_write mem du u;
     mem2 \<leftarrow> c_write mem1 dv v;
     cc_lines2 n u v (du + su) (dv + sv) su sv mem2 }"

definition vsource_embed_yuv_code :: "colorcode \<Rightarrow> vsource_frame \<Rightarrow> u32 \<Rightarrow> (colorcode \<times> vsource_frame) option" where
  "vsource_embed_yuv_code cc f v =
     (let ds = cc_digits_of v (cc_initmask cc) (cc_initshift cc) @ cc_suffix v;
          total = cc_total_width cc; half = drop_bit 1 total;
          w = cc_width cc; w2 = drop_bit 1 w
      in do {
        b1 \<leftarrow> cc_write (cc_buffer cc) 0 (cc_cells w (map (\<lambda>y. [y]) yuv_colorY) ds);
        b2 \<leftarrow> cc_write b1 total (cc_cells w2 (map (\<lambda>y. [y]) yuv_colorU) ds);
        b3 \<leftarrow> cc_write b2 (total + half) (cc_cells w2 (map (\<lambda>y. [y]) yuv_colorV) ds);
        (let height = (if realheight f < cc_height cc then realheight f else cc_height cc);
             dstY = vf_img f;
             dstU = dstY + linesize f ! 0 * realheight f;
             dstV = dstU + linesize f ! 1 * drop_bit 1 (realheight f)
         in do {
           srcY \<leftarrow> (if height > 0 then c_read b3 0 total else Some []);
           srcU \<leftarrow> (if drop_bit 1 height > 0 then c_read b3 total half else Some []);
           srcV \<leftarrow> (if drop_bit 1 height > 0 then c_read b3 (total + half) half else Some []);
           m1 \<leftarrow> cc_lines (nat height) srcY dstY (linesize f ! 0) (vf_mem f);
           m2 \<leftarrow> cc_lines2 (nat (drop_bit 1 height)) srcU srcV dstU dstV (linesize f ! 1) (linesize f ! 2) m1;
           Some (cc\<lparr>cc_buffer := b3\<rparr>, f\<lparr>vf_mem := m2\<rparr>) }) })"

definition vsource_embed_rgba_code :: "colorcode \<Rightarrow> vsource_frame \<Rightarrow> u32 \<Rightarrow> byte list list \<Rightarrow> (colorcode \<times> vsource_frame) option" where
  "vsource_embed_rgba_code cc f v color =
     (let ds = cc_digits_of v (cc_initmask cc) (cc_initshift cc) @ cc_suffix v
      in do {
        b \<leftarrow> cc_write (cc_buffer cc) 0 (cc_cells (cc_width cc) color ds);
        (let height = (if realheight f < cc_height cc then realheight f else cc_height cc)
         in do {
           line \<leftarrow> (if height > 0 then c_read b 0 (cc_total_width cc * 4) else Some []);
           m \<leftarrow> cc_lines (nat height) line (vf_img f) (linesize f ! 0) (vf_mem f);
           Some (cc\<lparr>cc_buffer := b\<rparr>, f\<lparr>vf_mem := m\<rparr>) }) })"

text \<open>The pixel formats by their numbers in libavutil.\<close>

definition AV_PIX_FMT_YUV420P :: int where "AV_PIX_FMT_YUV420P = 0"
definition AV_PIX_FMT_RGBA :: int where "AV_PIX_FMT_RGBA = 28"
definition AV_PIX_FMT_BGRA :: int where "AV_PIX_FMT_BGRA = 30"

definition vsource_embed_colorcode :: "colorcode \<Rightarrow> vsource_frame option \<Rightarrow> u32 \<Rightarrow> (colorcode \<times> vsource_frame option) option" where
  "vsource_embed_colorcode cc frame v =
     (if cc_initialized cc = 0 then Some (cc, frame)
      else (case frame of
          None \<Rightarrow> Some (cc, None)
        | Some f \<Rightarrow>
            if realwidth f < cc_total_width cc then Some (cc, frame)
            else if pixelformat f = AV_PIX_FMT_YUV420P then
              map_option (\<lambda>(c, f). (c, Some f)) (vsource_embed_yuv_code cc f v)
            else if pixelformat f = AV_PIX_FMT_RGBA then
              map_option (\<lambda>(c, f). (c, Some f)) (vsource_embed_rgba_code cc f v rgbacolor)
            else if pixelformat f = AV_PIX_FMT_BGRA then
              map_option (\<lambda>(c, f). (c, Some f)) (vsource_embed_rgba_code cc f v bgracolor)
            else Some (cc, frame)))"

definition vsource_embed_colorcode_inc :: "colorcode \<Rightarrow> vsource_frame option \<Rightarrow> (colorcode \<times> vsource_frame option) option" where
  "vsource_embed_colorcode_inc cc frame = do {
     (c, f) \<leftarrow> vsource_embed_colorcode cc frame (cc_counter cc);
     Some (c\<lparr>cc_counter := (cc_counter c + 1) AND cc_counter_mask c\<rparr>, f) }"

section \<open>The digits\<close>

lemma bit_7: "bit (7 :: int) i \<longleftrightarrow> i < 3"
proof -
  have e: "(7 :: int) = mask 3" by (simp add: mask_eq_exp_minus_1)
  show ?thesis by (subst e) (auto simp: bit_mask_iff)
qed

lemma cc_mask_loop_mask: "k + 3 * n \<le> 32 \<Longrightarrow> cc_mask_loop n (mask k) = mask (k + 3 * n)"
proof (induction n arbitrary: k)
  case (Suc n)
  have "(push_bit 3 (mask k) OR 7 :: u32) = mask (k + 3)"
  proof (rule bit_word_eqI)
    fix i assume "i < LENGTH(32)"
    show "bit (push_bit 3 (mask k) OR 7 :: u32) i = bit (mask (k + 3) :: u32) i"
      by (auto simp: bit_simps bit_7)
  qed
  then show ?case using Suc.IH [of "k + 3"] Suc.prems by (simp add: algebra_simps)
qed simp

lemma cc_mask: "n \<le> 10 \<Longrightarrow> cc_mask_loop n 0 = mask (3 * n)"
  using cc_mask_loop_mask [of 0 n] by simp

text \<open>The digit \<open>j\<close> counted from the least significant is that of the value in base 8.\<close>

lemma cc_digit:
  assumes "3 * j + 3 \<le> 32"
  shows "unat (drop_bit (3 * j) (v AND push_bit (3 * j) 7) :: u32) = unat v div 8 ^ j mod 8"
proof -
  have "drop_bit (3 * j) (v AND push_bit (3 * j) 7) = take_bit 3 (drop_bit (3 * j) v)"
    by (rule bit_word_eqI) (use assms in \<open>auto simp: bit_simps bit_7\<close>)
  moreover have "unat (take_bit 3 (drop_bit (3 * j) v)) = take_bit 3 (unat (drop_bit (3 * j) v))"
    by (rule unsigned_take_bit_eq)
  moreover have "unat (drop_bit (3 * j) v) = drop_bit (3 * j) (unat v)"
    by (rule unat_drop_bit_eq)
  ultimately show ?thesis by (simp only:) (simp add: take_bit_eq_mod drop_bit_eq_div power_mult)
qed

lemma cc_digits_of_rev:
  "n \<le> 10 \<Longrightarrow> cc_digits_of v (if n = 0 then 0 else push_bit (3 * (n - 1)) 7) (word_of_int (3 * (int n - 1)))
     = rev (map (\<lambda>j. unat v div 8 ^ j mod 8) [0..<n])"
proof (induction n)
  case 0
  then show ?case by (simp add: cc_digits_of.simps)
next
  case (Suc n)
  have "bit (push_bit (3 * n) (7 :: u32)) (3 * n)" using Suc.prems by (simp add: bit_simps bit_7)
  then have nz: "push_bit (3 * n) (7 :: u32) \<noteq> 0" by (metis bit_0_eq bot_apply bot_bool_def)
  have s: "unat (word_of_int (3 * int n) :: u32) = 3 * n"
    using Suc.prems by (simp only: unat_eq_nat_uint uint_word_of_int) (simp add: nat_mult_distrib)
  have d: "drop_bit 3 (push_bit (3 * n) (7 :: u32)) = (if n = 0 then 0 else push_bit (3 * (n - 1)) 7)"
  proof (cases n)
    case (Suc m)
    show ?thesis
      by (rule bit_word_eqI) (use Suc Suc.prems in \<open>auto simp: bit_simps bit_7\<close>)
  qed simp
  have "cc_digits_of v (push_bit (3 * n) 7) (word_of_int (3 * int n)) =
      unat (drop_bit (3 * n) (v AND push_bit (3 * n) 7)) #
      cc_digits_of v (if n = 0 then 0 else push_bit (3 * (n - 1)) 7) (word_of_int (3 * int n) - 3)"
    using nz s d by (subst cc_digits_of.simps) simp
  moreover have "(word_of_int (3 * int n) - 3 :: u32) = word_of_int (3 * (int n - 1))" by simp
  ultimately show ?case
    using Suc cc_digit [of n v] by simp
qed

section \<open>A configured generator\<close>

definition cc_ready :: "colorcode \<Rightarrow> bool" where
  "cc_ready cc \<longleftrightarrow> cc_initialized cc \<noteq> 0 \<and> 1 \<le> cc_digits cc \<and> cc_digits cc \<le> 10 \<and>
     0 < cc_width cc \<and> cc_width cc \<le> 128 \<and> cc_total_width cc = (cc_digits cc + 4) * cc_width cc \<and>
     cc_initshift cc = word_of_int (3 * (cc_digits cc - 1)) \<and>
     cc_initmask cc = push_bit (3 * (nat (cc_digits cc) - 1)) 7 \<and>
     cc_counter_mask cc = mask (3 * nat (cc_digits cc)) \<and> int (length (cc_buffer cc)) = 4 * 128 * 14"

lemma unat_mask: "n \<le> 32 \<Longrightarrow> unat (mask n :: u32) = mask n"
  by (rule bit_eqI) (auto simp: bit_unsigned_iff bit_mask_iff)

lemma unat_next:
  assumes "n \<le> 32"
  shows "unat ((c + 1 :: u32) AND mask n) = (unat c + 1) mod 2 ^ n"
proof -
  have "unat (take_bit n (c + 1)) = take_bit n (unat (c + 1))" by (rule unsigned_take_bit_eq)
  moreover have "unat (c + 1) = (unat c + 1) mod 2 ^ 32" by (simp add: unat_word_ariths)
  moreover have "(2 :: nat) ^ n dvd 2 ^ 32" using assms by (rule le_imp_power_dvd)
  ultimately show ?thesis by (simp add: take_bit_eq_mask [symmetric]) (simp add: take_bit_eq_mod mod_mod_cancel)
qed

lemma ready_total:
  assumes "cc_ready cc"
  shows "0 < cc_total_width cc" and "cc_total_width cc * 4 \<le> int (length (cc_buffer cc))"
proof -
  have b: "1 \<le> cc_digits cc" "cc_digits cc \<le> 10" "0 < cc_width cc" "cc_width cc \<le> 128"
    "cc_total_width cc = (cc_digits cc + 4) * cc_width cc" "int (length (cc_buffer cc)) = 4 * 128 * 14"
    using assms by (auto simp: cc_ready_def)
  show "0 < cc_total_width cc" using b by simp
  have "(cc_digits cc + 4) * cc_width cc \<le> 14 * 128" using b by (intro mult_mono) auto
  then show "cc_total_width cc * 4 \<le> int (length (cc_buffer cc))" using b(5,6) by linarith
qed

text \<open>Every configuration that the initialisation accepts with a positive cell width, however large
  its digits and width, leaves a consistent generator: at most 10 digits, masks and shift for
  exactly these digits, and a line that fits the static buffer even with four bytes a pixel.\<close>

theorem colorcode_init_ready:
  assumes "vsource_embed_colorcode_init conf mode cc = Some (0, cc')" and "0 < cc_width cc'"
    and "int (length (cc_buffer cc)) = 4 * 128 * 14"
  shows "cc_ready cc' \<and> cc_total_width cc' * 4 \<le> int (length (cc_buffer cc')) \<and>
    unat (cc_counter_mask cc') = 8 ^ nat (cc_digits cc') - 1 \<and> cc_counter cc' = cc_counter cc"
proof -
  obtain param where c: "cc_configure param mode cc = Some (0, cc')"
    using assms(1) by (auto simp: vsource_embed_colorcode_init_def split: if_splits)
  have d0: "\<not> param ! 0 \<le> 0"
    using c by (auto simp: cc_configure_def Let_def)
  have mn: "(if a > b then b else a) = min b (a :: int)" for a b by simp
  have i: "c_int ((min 10 (param ! 0) + 4) * min 128 (param ! 1)) = Some (cc_total_width cc') \<and>
     cc_digits cc' = min 10 (param ! 0) \<and> cc_width cc' = min 128 (param ! 1) \<and>
     cc_initshift cc' = word_of_int ((min 10 (param ! 0) - 1) * 3) \<and>
     cc_initmask cc' = push_bit (nat ((min 10 (param ! 0) - 1) * 3)) 7 \<and>
     cc_counter_mask cc' = cc_mask_loop (nat (min 10 (param ! 0))) 0 \<and> cc_initialized cc' = 1 \<and>
     cc_buffer cc' = cc_buffer cc \<and> cc_counter cc' = cc_counter cc"
    using c d0 unfolding cc_configure_def COLORCODE_MAX_DIGIT_def COLORCODE_MAX_WIDTH_def COLORCODE_SUFFIX_def Let_def mn
    by auto
  have t: "cc_total_width cc' = (min 10 (param ! 0) + 4) * min 128 (param ! 1)" using i by (simp add: c_int_def split: if_splits)
  have m: "cc_mask_loop (nat (min 10 (param ! 0))) 0 = mask (3 * nat (min 10 (param ! 0)))" by (rule cc_mask) simp
  have s: "nat ((min 10 (param ! 0) - 1) * 3) = 3 * (nat (min 10 (param ! 0)) - 1)" using d0 by (simp add: nat_mult_distrib)
  have ready: "cc_ready cc'"
    using assms(2,3) d0 i unfolding cc_ready_def t m s by (simp add: mult.commute)
  have d: "nat (cc_digits cc') \<le> 10" using ready by (simp add: cc_ready_def nat_le_iff)
  have "unat (mask (3 * nat (cc_digits cc')) :: u32) = 2 ^ (3 * nat (cc_digits cc')) - 1"
    using d unat_mask [of "3 * nat (cc_digits cc')"] by (simp add: mask_eq_exp_minus_1)
  then have "unat (cc_counter_mask cc') = 8 ^ nat (cc_digits cc') - 1"
    using ready by (simp add: cc_ready_def power_mult)
  then show ?thesis using ready ready_total(2) [OF ready] i by simp
qed

section \<open>Reading a code back\<close>

text \<open>A reader: the colour of the first pixel of each cell gives the digit.\<close>

definition cc_index :: "byte list list \<Rightarrow> byte list \<Rightarrow> nat" where
  "cc_index color px = length (takeWhile (\<lambda>c. c \<noteq> px) color)"

definition cc_decode :: "nat \<Rightarrow> nat \<Rightarrow> byte list list \<Rightarrow> byte list \<Rightarrow> nat" where
  "cc_decode w n color row =
     foldl (\<lambda>a j. 8 * a + cc_index color (take 4 (drop (4 * w * j) row))) 0 [0..<n]"

definition color_ok :: "byte list list \<Rightarrow> bool" where
  "color_ok color \<longleftrightarrow> length color = 8 \<and> distinct color \<and> (\<forall>c\<in>set color. length c = 4)"

lemma color_tables_ok: "color_ok rgbacolor" "color_ok bgracolor"
  by (simp_all add: color_ok_def rgbacolor_def bgracolor_def)

lemma cc_index_nth: "distinct color \<Longrightarrow> d < length color \<Longrightarrow> cc_index color (color ! d) = d"
proof (induction color arbitrary: d)
  case (Cons c color)
  then show ?case by (cases d) (auto simp: cc_index_def)
qed simp

lemma length_cell: "color_ok color \<Longrightarrow> d < 8 \<Longrightarrow> length (concat (replicate w (color ! d))) = 4 * w"
  by (induction w) (auto simp: color_ok_def)

lemma cc_cells_Cons: "cc_cells w color (d # ds) = concat (replicate (nat w) (color ! d)) @ cc_cells w color ds"
  by (simp add: cc_cells_def)

lemma length_cells:
  "color_ok color \<Longrightarrow> \<forall>d\<in>set ds. d < 8 \<Longrightarrow> length (cc_cells w color ds) = 4 * nat w * length ds"
proof (induction ds)
  case (Cons d ds)
  then show ?case using length_cell [of color d "nat w"] by (simp add: cc_cells_Cons)
qed (simp add: cc_cells_def)

lemma cells_pixel:
  assumes "color_ok color" and "\<forall>d\<in>set ds. d < 8" and "0 < w" and "j < length ds"
  shows "take 4 (drop (4 * nat w * j) (cc_cells w color ds)) = color ! (ds ! j)"
  using assms(2,4)
proof (induction ds arbitrary: j)
  case (Cons d ds)
  have l: "length (concat (replicate (nat w) (color ! d))) = 4 * nat w"
    using length_cell [OF assms(1)] Cons.prems(1) by simp
  show ?case
  proof (cases j)
    case 0
    obtain k where k: "nat w = Suc k" using assms(3) by (cases "nat w") auto
    have "length (color ! d) = 4" using assms(1) Cons.prems(1) by (simp add: color_ok_def)
    then show ?thesis using 0 k by (simp add: cc_cells_Cons)
  next
    case (Suc i)
    have "4 * nat w * j = 4 * nat w + 4 * nat w * i" using Suc by simp
    then show ?thesis using Cons Suc l by (simp add: cc_cells_Cons)
  qed
qed simp

lemma octal_value:
  "foldl (\<lambda>a d. 8 * a + d) a (rev (map (\<lambda>j. v div 8 ^ j mod 8) [0..<n])) = a * 8 ^ n + v mod (8 :: nat) ^ n"
proof (induction n arbitrary: a)
  case (Suc n)
  have "v mod 8 ^ Suc n = 8 ^ n * (v div 8 ^ n mod 8) + v mod 8 ^ n"
    using mod_mult2_eq [of v "8 ^ n" 8] by (simp add: mult.commute)
  then show ?case using Suc by (simp add: algebra_simps)
qed simp

lemma foldl_index: "foldl (\<lambda>a j. f a (xs ! j)) a [0..<length xs] = foldl f a xs"
  by (metis foldl_map map_nth)

lemma foldl_cong_upt: "\<forall>j<n. g j = h j \<Longrightarrow> foldl (\<lambda>a j. 8 * a + g j) a [0..<n] = foldl (\<lambda>a j. 8 * a + h j) (a :: nat) [0..<n]"
  by (induction n) auto

lemma cc_suffix_octal: "\<forall>d\<in>set (cc_suffix v). d < 8"
proof -
  have "unat (x AND 7 :: u32) < 8" for x
  proof -
    have "x AND 7 = take_bit 3 x"
      by (rule bit_word_eqI) (auto simp: bit_simps bit_7)
    then show ?thesis by (simp only: unsigned_take_bit_eq) (simp add: take_bit_eq_mod)
  qed
  then show ?thesis by (simp add: cc_suffix_def)
qed

lemma length_cc_suffix: "length (cc_suffix v) = 4"
  by (simp add: cc_suffix_def)

lemma decode_digits:
  assumes "color_ok color" and "0 < w" and d: "\<forall>d\<in>set (ds @ sfx). d < 8"
  shows "cc_decode (nat w) (length ds) color (cc_cells w color (ds @ sfx)) = foldl (\<lambda>a d. 8 * a + d) 0 ds"
proof -
  have "cc_index color (take 4 (drop (4 * nat w * j) (cc_cells w color (ds @ sfx)))) = ds ! j" if "j < length ds" for j
  proof -
    have j: "j < length (ds @ sfx)" "(ds @ sfx) ! j = ds ! j" using that by (auto simp: nth_append)
    have "ds ! j < 8" using d that by simp
    then have l: "distinct color" "ds ! j < length color" using assms(1) by (simp_all add: color_ok_def)
    show ?thesis
      unfolding cells_pixel [OF assms(1) d assms(2) j(1)] j(2) by (rule cc_index_nth [OF l])
  qed
  then have "cc_decode (nat w) (length ds) color (cc_cells w color (ds @ sfx)) = foldl (\<lambda>a j. 8 * a + ds ! j) 0 [0..<length ds]"
    unfolding cc_decode_def by (intro foldl_cong_upt) blast
  then show ?thesis using foldl_index [of "\<lambda>a d. 8 * a + d" ds 0] by simp
qed

lemma decode_cells:
  assumes "color_ok color" and "0 < w"
  shows "cc_decode (nat w) n color (cc_cells w color (rev (map (\<lambda>j. unat v div 8 ^ j mod 8) [0..<n]) @ cc_suffix v))
    = unat v mod 8 ^ n"
proof -
  let ?ds = "rev (map (\<lambda>j. unat v div 8 ^ j mod 8) [0..<n])"
  have d: "\<forall>d\<in>set (?ds @ cc_suffix v). d < 8" using cc_suffix_octal by auto
  have l: "length ?ds = n" by simp
  have "cc_decode (nat w) n color (cc_cells w color (?ds @ cc_suffix v)) = foldl (\<lambda>a d. 8 * a + d) 0 ?ds"
    using decode_digits [OF assms d] unfolding l .
  also have "\<dots> = 0 * 8 ^ n + unat v mod 8 ^ n" by (rule octal_value)
  finally show ?thesis by simp
qed

text \<open>The lines written.\<close>

lemma cc_lines_spec:
  assumes "int (length line) \<le> stride" and "0 \<le> dst" and "dst + int n * stride \<le> int (length mem)"
  shows "\<exists>mem'. cc_lines n line dst stride mem = Some mem' \<and> length mem' = length mem \<and>
    (\<forall>i<n. c_read mem' (dst + int i * stride) (int (length line)) = Some line) \<and>
    (\<forall>o2 m. o2 + m \<le> dst \<longrightarrow> c_read mem' o2 m = c_read mem o2 m)"
  using assms(2,3)
proof (induction n arbitrary: dst mem)
  case (Suc n)
  have s: "0 \<le> stride" using assms(1) by linarith
  have e: "int (Suc n) * stride = stride + int n * stride" by (simp add: algebra_simps)
  have n0: "0 \<le> int n * stride" using s by simp
  have "dst + int (length line) \<le> int (length mem)" using Suc.prems(2) assms(1) e n0 by linarith
  from c_write_defined [OF Suc.prems(1) this] obtain m1 where m1: "c_write mem dst line = Some m1" "length m1 = length mem"
    by blast
  have d2: "0 \<le> dst + stride" "dst + stride + int n * stride \<le> int (length m1)"
    using Suc.prems s e m1(2) by linarith+
  from Suc.IH [OF d2] obtain mem' where m: "cc_lines n line (dst + stride) stride m1 = Some mem'" "length mem' = length m1"
    "\<forall>i<n. c_read mem' (dst + stride + int i * stride) (int (length line)) = Some line"
    "\<forall>o2 m. o2 + m \<le> dst + stride \<longrightarrow> c_read mem' o2 m = c_read m1 o2 m" by blast
  have first: "c_read mem' dst (int (length line)) = Some line"
    using m(4) assms(1) c_read_write_same [OF m1(1)] by simp
  have rest: "c_read mem' (dst + int i * stride) (int (length line)) = Some line" if "i < Suc n" for i
  proof (cases i)
    case 0
    then show ?thesis using first by simp
  next
    case (Suc k)
    then have "dst + int i * stride = dst + stride + int k * stride" by (simp add: algebra_simps)
    moreover have "k < n" using that Suc by simp
    ultimately show ?thesis using m(3) by (simp only:)
  qed
  have "c_read mem' o2 k = c_read mem o2 k" if "o2 + k \<le> dst" for o2 k
    using m(4) s that c_read_write_before [OF m1(1) that] by simp
  then show ?case using m(1,2) m1 rest by auto
qed simp

section \<open>Embedding\<close>

text \<open>The image has room for the code: the lines lie in the memory and are as long as the code.\<close>

definition frame_fits :: "colorcode \<Rightarrow> vsource_frame \<Rightarrow> bool" where
  "frame_fits cc f \<longleftrightarrow> 0 \<le> vf_img f \<and> cc_total_width cc * 4 \<le> linesize f ! 0 \<and>
     cc_total_width cc \<le> realwidth f \<and>
     vf_img f + int (nat (min (realheight f) (cc_height cc))) * (linesize f ! 0) \<le> int (length (vf_mem f))"

lemma embed_rgba_lines:
  fixes v :: u32
  assumes r: "cc_ready cc" and c: "color_ok color" and f: "frame_fits cc f"
  defines "line \<equiv> cc_cells (cc_width cc) color (cc_digits_of v (cc_initmask cc) (cc_initshift cc) @ cc_suffix v)"
  shows "\<exists>b f'. vsource_embed_rgba_code cc f v color = Some (cc\<lparr>cc_buffer := b\<rparr>, f') \<and> length b = length (cc_buffer cc) \<and>
    f' = f\<lparr>vf_mem := vf_mem f'\<rparr> \<and> length (vf_mem f') = length (vf_mem f) \<and>
    (\<forall>i. 0 \<le> i \<and> i < min (realheight f) (cc_height cc) \<longrightarrow>
       c_read (vf_mem f') (vf_img f + i * (linesize f ! 0)) (cc_total_width cc * 4) = Some line) \<and>
    cc_decode (nat (cc_width cc)) (nat (cc_digits cc)) color line = unat v mod 8 ^ nat (cc_digits cc)"
proof -
  let ?n = "nat (cc_digits cc)"
  let ?h = "min (realheight f) (cc_height cc)"
  have b: "1 \<le> cc_digits cc" "cc_digits cc \<le> 10" "0 < cc_width cc" using r by (auto simp: cc_ready_def)
  have n: "?n \<le> 10" "?n \<noteq> 0" "int ?n = cc_digits cc" using b by auto
  have ds: "cc_digits_of v (cc_initmask cc) (cc_initshift cc) = rev (map (\<lambda>j. unat v div 8 ^ j mod 8) [0..<?n])"
    using cc_digits_of_rev [OF n(1), of v] n r by (simp add: cc_ready_def)
  have d8: "\<forall>d\<in>set (rev (map (\<lambda>j. unat v div 8 ^ j mod 8) [0..<?n]) @ cc_suffix v). d < 8"
    using cc_suffix_octal by auto
  have ll: "int (length line) = cc_total_width cc * 4"
  proof -
    have "length line = 4 * nat (cc_width cc) * (?n + 4)"
      unfolding line_def ds length_cells [OF c d8] by (simp add: length_cc_suffix)
    moreover have "cc_total_width cc = (cc_digits cc + 4) * cc_width cc" using r by (simp add: cc_ready_def)
    ultimately show ?thesis using b by (simp add: algebra_simps)
  qed
  have tot: "0 < cc_total_width cc" "cc_total_width cc * 4 \<le> int (length (cc_buffer cc))" using ready_total [OF r] .
  have ne: "line \<noteq> []" using ll tot(1) by auto
  obtain buf where w: "c_write (cc_buffer cc) 0 line = Some buf" "length buf = length (cc_buffer cc)"
    using c_write_defined [of 0 line "cc_buffer cc"] ll tot(2) by auto
  have rd: "c_read buf 0 (cc_total_width cc * 4) = Some line" using c_read_write_same [OF w(1)] ll by simp
  have dec: "cc_decode (nat (cc_width cc)) ?n color line = unat v mod 8 ^ ?n"
    using decode_cells [OF c b(3)] by (simp add: line_def ds)
  have e: "vsource_embed_rgba_code cc f v color = do {
      l \<leftarrow> (if ?h > 0 then Some line else Some []);
      m \<leftarrow> cc_lines (nat ?h) l (vf_img f) (linesize f ! 0) (vf_mem f);
      Some (cc\<lparr>cc_buffer := buf\<rparr>, f\<lparr>vf_mem := m\<rparr>) }"
    unfolding vsource_embed_rgba_code_def Let_def line_def [symmetric] cc_write_def if_not_P [OF ne] w(1)
    by (simp add: min_def not_less rd)
  show ?thesis
  proof (cases "?h > 0")
    case True
    have fit: "int (length line) \<le> linesize f ! 0" "0 \<le> vf_img f" "vf_img f + int (nat ?h) * (linesize f ! 0) \<le> int (length (vf_mem f))"
      using f ll by (simp_all add: frame_fits_def)
    from cc_lines_spec [OF fit] obtain m where m: "cc_lines (nat ?h) line (vf_img f) (linesize f ! 0) (vf_mem f) = Some m"
      "length m = length (vf_mem f)"
      "\<forall>i<nat ?h. c_read m (vf_img f + int i * (linesize f ! 0)) (int (length line)) = Some line" by blast
    have "c_read m (vf_img f + i * (linesize f ! 0)) (cc_total_width cc * 4) = Some line" if "0 \<le> i \<and> i < ?h" for i
      using m(3) [rule_format, of "nat i"] that ll by simp
    then show ?thesis using e True m(1,2) w(2) dec by auto
  next
    case False
    have "vsource_embed_rgba_code cc f v color = Some (cc\<lparr>cc_buffer := buf\<rparr>, f)" using e False by simp
    moreover have "\<not> (0 \<le> i \<and> i < ?h)" for i using False by linarith
    moreover have "f = f\<lparr>vf_mem := vf_mem f\<rparr>" by simp
    ultimately show ?thesis using w(2) dec by blast
  qed
qed

text \<open>The table of a packed pixel format.\<close>

definition color_table :: "int \<Rightarrow> byte list list" where
  "color_table fmt = (if fmt = AV_PIX_FMT_RGBA then rgbacolor else bgracolor)"

text \<open>C24. What is embedded can be read back: after embedding the counter in an RGBA or BGRA frame that
  has room for it, every one of the first lines carries the same code, the colours of its cells
  give the counter back, nothing but the image memory of the frame changes, and the counter is
  advanced by one, wrapping round after all codes of the configured number of digits.\<close>

theorem colorcode_inc_roundtrip:
  assumes "cc_ready cc" and "frame_fits cc f" and "pixelformat f = AV_PIX_FMT_RGBA \<or> pixelformat f = AV_PIX_FMT_BGRA"
    and "unat (cc_counter cc) < 8 ^ nat (cc_digits cc)"
  shows "\<exists>cc' f'. vsource_embed_colorcode_inc cc (Some f) = Some (cc', Some f') \<and> cc_ready cc' \<and>
    f' = f\<lparr>vf_mem := vf_mem f'\<rparr> \<and>
    unat (cc_counter cc') = (unat (cc_counter cc) + 1) mod 8 ^ nat (cc_digits cc) \<and>
    (\<forall>i. 0 \<le> i \<and> i < min (realheight f) (cc_height cc) \<longrightarrow>
      (\<exists>line. c_read (vf_mem f') (vf_img f + i * (linesize f ! 0)) (cc_total_width cc * 4) = Some line \<and>
         cc_decode (nat (cc_width cc)) (nat (cc_digits cc)) (color_table (pixelformat f)) line = unat (cc_counter cc)))"
proof -
  let ?v = "cc_counter cc" and ?color = "color_table (pixelformat f)"
  have c: "color_ok ?color" using color_tables_ok by (simp add: color_table_def)
  obtain b f' line where e: "vsource_embed_rgba_code cc f ?v ?color = Some (cc\<lparr>cc_buffer := b\<rparr>, f')"
    "length b = length (cc_buffer cc)" "f' = f\<lparr>vf_mem := vf_mem f'\<rparr>"
    "\<forall>i. 0 \<le> i \<and> i < min (realheight f) (cc_height cc) \<longrightarrow>
       c_read (vf_mem f') (vf_img f + i * (linesize f ! 0)) (cc_total_width cc * 4) = Some line"
    "cc_decode (nat (cc_width cc)) (nat (cc_digits cc)) ?color line = unat ?v mod 8 ^ nat (cc_digits cc)"
    using embed_rgba_lines [OF assms(1) c assms(2), of ?v] by blast
  have ini: "cc_initialized cc \<noteq> 0" and dg: "nat (cc_digits cc) \<le> 10" and mk: "cc_counter_mask cc = mask (3 * nat (cc_digits cc))"
    using assms(1) by (auto simp: cc_ready_def nat_le_iff)
  have "\<not> realwidth f < cc_total_width cc" using assms(2) by (simp add: frame_fits_def)
  then have emb: "vsource_embed_colorcode cc (Some f) ?v = Some (cc\<lparr>cc_buffer := b\<rparr>, Some f')"
    using ini assms(3) e(1)
    by (auto simp: vsource_embed_colorcode_def color_table_def AV_PIX_FMT_YUV420P_def AV_PIX_FMT_RGBA_def AV_PIX_FMT_BGRA_def)
  let ?cc = "cc\<lparr>cc_buffer := b, cc_counter := (cc_counter cc + 1) AND cc_counter_mask cc\<rparr>"
  have inc: "vsource_embed_colorcode_inc cc (Some f) = Some (?cc, Some f')"
    by (simp add: vsource_embed_colorcode_inc_def emb)
  have ready: "cc_ready ?cc" using assms(1) e(2) by (simp add: cc_ready_def)
  have "3 * nat (cc_digits cc) \<le> 32" using dg by simp
  from unat_next [OF this] have "unat (cc_counter ?cc) = (unat ?v + 1) mod 8 ^ nat (cc_digits cc)"
    by (simp add: mk power_mult)
  then show ?thesis using inc ready e(3-5) assms(4) by (intro exI conjI) (assumption | simp)+
qed

text \<open>The initialisation accepts a negative cell width. Embedding then passes a negative length to
  the copy of the line: on any RGBA frame with a line to write, the behaviour is undefined.\<close>

theorem colorcode_negative_width:
  assumes "ga_conf_readints conf ''embed-colorcode'' [0, 0, 0] 3 = Some (3, [d, w, h])"
    and "ga_conf_readv conf ''save-colorcode-timestamp'' 128 = Some None"
    and "0 < d" and "w < 0" and "- 1000000 < w" and "0 < h"
  shows "\<exists>cc'. vsource_embed_colorcode_init conf 1 cc = Some (0, cc') \<and>
    (\<forall>f v. 0 \<le> realwidth f \<and> 0 < realheight f \<and> pixelformat f = AV_PIX_FMT_RGBA \<longrightarrow>
       vsource_embed_colorcode cc' (Some f) v = None)"
proof -
  let ?d = "min 10 d"
  have "(?d + 4) * w < 0" using assms(3,4) by (simp add: mult_pos_neg)
  moreover have "- (2 ^ 31) \<le> (?d + 4) * w"
  proof -
    have "14 * w \<le> (?d + 4) * w" using assms(4) by (intro mult_right_mono_neg) simp_all
    then show ?thesis using assms(5) by simp
  qed
  ultimately have t: "c_int ((?d + 4) * w) = Some ((?d + 4) * w)" "(?d + 4) * w < 0" by (auto intro!: c_int_Some)
  have mn: "(if a > b then b else a) = min b (a :: int)" for a b by simp
  have w128: "min 128 w = w" using assms(4) by simp
  obtain cc' where c: "cc_configure [d, w, h] 1 cc = Some (0, cc')" "cc_total_width cc' = (?d + 4) * w" "cc_height cc' = h"
    "cc_width cc' = w" "cc_initialized cc' = 1"
    using t(1) assms(3)
    unfolding cc_configure_def COLORCODE_MAX_DIGIT_def COLORCODE_MAX_WIDTH_def COLORCODE_SUFFIX_def Let_def mn
    by (simp add: w128)
  have i: "vsource_embed_colorcode_init conf 1 cc = Some (0, cc')"
    using assms(1,2) c(1) by (simp add: vsource_embed_colorcode_init_def)
  have "vsource_embed_colorcode cc' (Some f) v = None"
    if "0 \<le> realwidth f" "0 < realheight f" "pixelformat f = AV_PIX_FMT_RGBA" for f v
  proof -
    have z: "cc_cells w rgbacolor ds = []" for ds using assms(4) by (simp add: cc_cells_def)
    have rd: "c_read b 0 (cc_total_width cc' * 4) = None" for b :: "byte list"
      using t(2) unfolding c(2) by (auto simp: c_read_def mult.commute)
    have "vsource_embed_rgba_code cc' f v rgbacolor = None"
      using that(2) assms(6) unfolding vsource_embed_rgba_code_def Let_def rd c(3,4) z by (simp add: cc_write_def)
    then show ?thesis
      using that c(5) t(2) c(2) by (simp add: vsource_embed_colorcode_def AV_PIX_FMT_YUV420P_def AV_PIX_FMT_RGBA_def)
  qed
  then show ?thesis using i by blast
qed

definition example_cc :: colorcode where
  "example_cc = \<lparr>cc_initialized = 1, cc_counter = 63, cc_counter_mask = mask 6, cc_digits = 2, cc_width = 1,
     cc_height = 2, cc_total_width = 6, cc_initmask = push_bit 3 7, cc_initshift = 3,
     cc_planes = [], cc_buffer = replicate 7168 0\<rparr>"

definition example_rgba :: vsource_frame where
  "example_rgba = \<lparr>vf_channel = 0, imgpts = 0, pixelformat = 28, linesize = [24, 24, 24, 24],
     realwidth = 6, realheight = 3, realstride = 24, realsize = 72,
     vf_timestamp = \<lparr>tv_sec = 0, tv_usec = 0\<rparr>, maxstride = 24, imgbufsize = 72, vf_img = 16,
     vf_mem = replicate 88 1\<rparr>"

lemma example_cc_ready: "cc_ready example_cc"
  by (simp add: cc_ready_def example_cc_def)

theorem colorcode_inc_roundtrip_witness:
  "\<exists>cc' f'. vsource_embed_colorcode_inc example_cc (Some example_rgba) = Some (cc', Some f') \<and>
    unat (cc_counter cc') = 0"
proof -
  have "frame_fits example_cc example_rgba"
    by (simp add: frame_fits_def example_cc_def example_rgba_def)
  moreover have "pixelformat example_rgba = AV_PIX_FMT_RGBA \<or> pixelformat example_rgba = AV_PIX_FMT_BGRA"
    by (simp add: example_rgba_def AV_PIX_FMT_RGBA_def)
  moreover have "unat (cc_counter example_cc) < 8 ^ nat (cc_digits example_cc)"
    by (simp add: example_cc_def)
  ultimately obtain cc' f' where "vsource_embed_colorcode_inc example_cc (Some example_rgba) = Some (cc', Some f')"
    "unat (cc_counter cc') = (unat (cc_counter example_cc) + 1) mod 8 ^ nat (cc_digits example_cc)"
    using colorcode_inc_roundtrip [OF example_cc_ready] by blast
  then show ?thesis by (auto simp: example_cc_def)
qed

definition cc_conf :: "string \<Rightarrow> ga_conf" where
  "cc_conf v = ga_conf_writev ga_conf_empty ''embed-colorcode'' v"

theorem colorcode_negative_width_witness:
  "\<exists>cc'. vsource_embed_colorcode_init (cc_conf ''2 -8 16'') 1 example_cc = Some (0, cc') \<and>
    vsource_embed_colorcode cc' (Some example_rgba) 5 = None"
proof -
  have i: "ga_conf_readints (cc_conf ''2 -8 16'') ''embed-colorcode'' [0, 0, 0] 3 = Some (3, [2, -8, 16])"
    "ga_conf_readv (cc_conf ''2 -8 16'') ''save-colorcode-timestamp'' 128 = Some None"
    by code_simp+
  from colorcode_negative_width [OF i, of example_cc] show ?thesis
    by (auto simp: example_rgba_def AV_PIX_FMT_RGBA_def)
qed

theorem colorcode_init_ready_witness:
  "\<exists>cc'. vsource_embed_colorcode_init (cc_conf ''2 8 16'') 1 example_cc = Some (0, cc') \<and> cc_ready cc'"
proof -
  have i: "ga_conf_readints (cc_conf ''2 8 16'') ''embed-colorcode'' [0, 0, 0] 3 = Some (3, [2, 8, 16])"
    "ga_conf_readv (cc_conf ''2 8 16'') ''save-colorcode-timestamp'' 128 = Some None"
    by code_simp+
  obtain cc' where c: "vsource_embed_colorcode_init (cc_conf ''2 8 16'') 1 example_cc = Some (0, cc')" "cc_width cc' = 8"
    using i by (auto simp: vsource_embed_colorcode_init_def cc_configure_def Let_def c_int_def
        COLORCODE_MAX_DIGIT_def COLORCODE_MAX_WIDTH_def COLORCODE_SUFFIX_def)
  then show ?thesis using colorcode_init_ready [OF c(1)] by (simp add: example_cc_def)
qed

end
