(* ===== verification/RtspRequest.thy ===== *)
theory RtspRequest
  imports GaPrelude
begin

text \<open>
  The text of RTSP requests and replies, from \<open>module/server-ffmpeg/rtspserver.cpp\<close>: cutting the
  request line into words, the handling of the header lines (FFmpeg parses a line, and the server
  then repairs the sequence number and the session when FFmpeg has not found them), and the
  numbers that the replies print.
\<close>

section \<open>Printed numbers\<close>

text \<open>\<open>%04x\<close>.\<close>

definition show_04x :: "nat \<Rightarrow> string" where
  "show_04x n = (let s = nat_str 16 n in replicate (4 - length s) CHR ''0'' @ s)"

definition crlf :: string where
  "crlf = [CHR 0x0D, CHR 0x0A]"

section \<open>Words\<close>

definition skip_spaces :: "string \<Rightarrow> string" where
  "skip_spaces p = dropWhile (\<lambda>c. c = CHR '' '' \<or> c = CHR 0x09) p"

text \<open>The word, cut to fit its buffer, and the unread rest.\<close>

definition get_word :: "nat \<Rightarrow> string \<Rightarrow> string \<times> string" where
  "get_word buf_size pp =
     (let p = skip_spaces pp
      in (take (buf_size - 1) (takeWhile (\<lambda>c. \<not> c_isspace c) p), dropWhile (\<lambda>c. \<not> c_isspace c) p))"

definition request_line :: "string \<Rightarrow> string \<times> string \<times> string" where
  "request_line buf =
     (let (cmd, p1) = get_word 32 buf; (url, p2) = get_word 1024 p1; (protocol, p3) = get_word 32 p2
      in (cmd, url, protocol))"

section \<open>Headers\<close>

datatype lower_transport = LT_UDP | LT_TCP | LT_OTHER nat

record transport_field =
  th_lower :: lower_transport
  client_port_min :: int
  client_port_max :: int

record rtsp_header =
  h_seq :: int
  h_session :: string
  h_transports :: "transport_field list"

definition rtsp_header_zero :: rtsp_header where
  "rtsp_header_zero = \<lparr>h_seq = 0, h_session = [], h_transports = []\<rparr>"

text \<open>
  The session found by the server itself: the text after the name, copied with \<open>strcpy\<close> into an
  array of 512 bytes, up to a space or a semicolon. The terminator is written one place further on
  than the copy has come, which is outside the array when the loop has filled it.
\<close>

definition fix_session :: "string \<Rightarrow> rtsp_header \<Rightarrow> rtsp_header option" where
  "fix_session mysession h =
     (if mysession \<noteq> [] \<and> h_session h = [] then
        (let s = take 511 (takeWhile (\<lambda>c. \<not> c_isspace c \<and> c \<noteq> CHR '';'') mysession)
         in if length s + 1 < 512 then Some (h\<lparr>h_session := s\<rparr>) else None)
      else Some h)"

definition header_line :: "(string \<Rightarrow> rtsp_header \<Rightarrow> rtsp_header) \<Rightarrow> string \<Rightarrow> rtsp_header \<Rightarrow> rtsp_header option" where
  "header_line parse_line buf h =
     (let myseq = (if strncaseeq ''CSeq: '' buf 6 then fst (strtol 10 (drop 6 buf)) else -1)
      in do {
        mysession \<leftarrow> (if strncaseeq ''Session: '' buf 9 then strncpy_str 512 (drop 9 buf) else Some []);
        (let h1 = parse_line buf h;
             h2 = (if myseq > 0 \<and> h_seq h1 \<le> 0 then h1\<lparr>h_seq := myseq\<rparr> else h1)
         in fix_session mysession h2) })"

definition header_end :: "string \<Rightarrow> bool" where
  "header_end buf \<longleftrightarrow> take 1 buf = [CHR 0x0A] \<or> take 2 buf = crlf"

text \<open>The header lines up to the empty one; the inner \<open>None\<close> when the connection ends before it.
  At the end, the session is cut at the end of its line.\<close>

primrec read_headers :: "(string \<Rightarrow> rtsp_header \<Rightarrow> rtsp_header) \<Rightarrow> string list \<Rightarrow> rtsp_header \<Rightarrow> (rtsp_header \<times> string list) option option" where
  "read_headers parse_line [] h = Some None"
| "read_headers parse_line (buf # bufs) h =
     (if header_end buf then
        Some (Some (h\<lparr>h_session := takeWhile (\<lambda>c. c \<noteq> CHR 0x0D \<and> c \<noteq> CHR 0x0A) (h_session h)\<rparr>, bufs))
      else do { h' \<leftarrow> header_line parse_line buf h; read_headers parse_line bufs h' })"

section \<open>What the server prints, it reads\<close>

text \<open>A word of a request, and a session name.\<close>

definition word_ok :: "string \<Rightarrow> bool" where
  "word_ok w \<longleftrightarrow> w \<noteq> [] \<and> (\<forall>c\<in>set w. \<not> c_isspace c)"

definition session_ok :: "string \<Rightarrow> bool" where
  "session_ok s \<longleftrightarrow> word_ok s \<and> CHR '';'' \<notin> set s \<and> length s < 509"

lemma space_chars [simp]: "c_isspace CHR '' ''" "c_isspace CHR 0x0D" "c_isspace CHR 0x0A" "c_isspace CHR 0x09"
  by (simp_all add: c_isspace_def)

lemma takeWhile_word: "\<forall>c\<in>set w. P c \<Longrightarrow> \<not> P x \<Longrightarrow> takeWhile P (w @ x # r) = w \<and> dropWhile P (w @ x # r) = x # r"
  by (simp add: takeWhile_tail dropWhile_append)

lemma get_word_word:
  assumes "word_ok w" and "c_isspace x" and "length w < n" and "pad = [] \<or> pad = '' ''"
  shows "get_word n (pad @ w @ x # r) = (w, x # r)"
proof -
  obtain c cs where w: "w = c # cs" "\<not> c_isspace c" using assms(1) by (cases w) (auto simp: word_ok_def)
  then have "c \<noteq> CHR '' ''" "c \<noteq> CHR 0x09" by auto
  then have "skip_spaces (pad @ w @ x # r) = w @ x # r" using assms(4) w(1) by (auto simp: skip_spaces_def)
  then show ?thesis
    using takeWhile_word [of w "\<lambda>c. \<not> c_isspace c" x r] assms(1-3) by (auto simp: get_word_def word_ok_def)
qed

text \<open>A request line of three words is cut into the method, the URL and the protocol, whatever
  the words are, as long as they fit their buffers.\<close>

theorem request_line_words:
  assumes "word_ok m" and "word_ok u" and "word_ok p" and "length m < 32" and "length u < 1024" and "length p < 32"
  shows "request_line (m @ '' '' @ u @ '' '' @ p @ crlf) = (m, u, p)"
  using get_word_word [OF assms(1) _ assms(4), of "CHR '' ''" "[]" "u @ '' '' @ p @ crlf"]
    get_word_word [OF assms(2) _ assms(5), of "CHR '' ''" "'' ''" "p @ crlf"]
    get_word_word [OF assms(3) _ assms(6), of "CHR 0x0D" "'' ''" "[CHR 0x0A]"]
  by (simp add: request_line_def crlf_def)

text \<open>Session round trip. A session line as the server prints it in its replies, sent back by
  the client and not understood by FFmpeg's parser, is read as the same session; parameters after
  a semicolon are ignored.\<close>

theorem session_roundtrip:
  assumes "session_ok s" and "parse_line (''Session: '' @ s @ crlf) h = h" and "h_session h = []"
    and "params = [] \<or> hd params = CHR '';''"
  shows "header_line parse_line (''Session: '' @ s @ crlf) h = Some (h\<lparr>h_session := s\<rparr>) \<and>
    fix_session (s @ params @ crlf) h = Some (h\<lparr>h_session := s\<rparr>)"
proof -
  let ?P = "\<lambda>c. \<not> c_isspace c \<and> c \<noteq> CHR '';''"
  have s: "s \<noteq> []" "\<forall>c\<in>set s. ?P c" "length s < 509" using assms(1) by (auto simp: session_ok_def word_ok_def)
  have tw: "takeWhile ?P (s @ params @ crlf) = s" if p: "params = [] \<or> hd params = CHR '';''" for params
  proof -
    obtain x r where "params @ crlf = x # r" "\<not> ?P x" using p by (cases params) (auto simp: crlf_def)
    with takeWhile_word [OF s(2), of x r] show ?thesis by simp
  qed
  have fx: "fix_session (s @ params @ crlf) h = Some (h\<lparr>h_session := s\<rparr>)" if "params = [] \<or> hd params = CHR '';''" for params
    using tw [OF that] s assms(3) by (simp add: fix_session_def)
  have n: "\<not> strncaseeq ''CSeq: '' (''Session: '' @ s @ crlf) 6" "strncaseeq ''Session: '' (''Session: '' @ s @ crlf) 9"
    by (simp_all add: strncaseeq_def strcaseeq_def c_tolower_def)
  have "strncpy_str 512 (s @ crlf) = Some (s @ crlf)" using s(3) by (simp add: strncpy_str_def crlf_def)
  then have "header_line parse_line (''Session: '' @ s @ crlf) h = Some (h\<lparr>h_session := s\<rparr>)"
    using n assms(2) fx [of "[]"] by (simp add: header_line_def)
  with fx [OF assms(4)] show ?thesis by simp
qed

text \<open>A session header with 512 or more characters after its name overflows the array it is
  copied to, whatever FFmpeg's parser makes of the line.\<close>

theorem session_header_overflow:
  assumes "strcaseeq name ''Session: ''" and "512 \<le> length s"
  shows "header_line parse_line (name @ s) h = None"
proof -
  have "length name = 9" using assms(1) by (auto simp: strcaseeq_def dest: arg_cong [where f = length])
  moreover from this have "strncaseeq ''Session: '' (name @ s) 9" using assms(1) by (simp add: strncaseeq_def strcaseeq_def)
  ultimately show ?thesis using assms(2) by (simp add: header_line_def strncpy_str_def Let_def)
qed

theorem request_line_words_witness:
  "request_line (''PLAY'' @ '' '' @ ''rtsp://h/desktop'' @ '' '' @ ''RTSP/1.0'' @ crlf) = (''PLAY'', ''rtsp://h/desktop'', ''RTSP/1.0'')"
  by (rule request_line_words) (simp_all add: word_ok_def c_isspace_def)

theorem session_roundtrip_witness:
  "header_line (\<lambda>l h. h) (''Session: '' @ ''00a1ff02'' @ crlf) rtsp_header_zero = Some (rtsp_header_zero\<lparr>h_session := ''00a1ff02''\<rparr>) \<and>
   fix_session (''00a1ff02'' @ '';timeout=60'' @ crlf) rtsp_header_zero = Some (rtsp_header_zero\<lparr>h_session := ''00a1ff02''\<rparr>)"
  by (rule session_roundtrip) (simp_all add: session_ok_def word_ok_def c_isspace_def rtsp_header_zero_def)

theorem session_header_overflow_witness:
  "header_line (\<lambda>l h. h) (''session: '' @ replicate 600 (CHR ''x'')) rtsp_header_zero = None"
proof (rule session_header_overflow)
  show "strcaseeq ''session: '' ''Session: ''" by code_simp
qed simp

end
