(* ===== verification/RtspConf.thy ===== *)
theory RtspConf
  imports GaConf
begin

text \<open>
  The RTSP configuration, \<open>core/rtspconf.cpp\<close>: the defaults, and the parser that fills the
  structure from the configuration store and checks every value. The parser is written in the
  stages of the source; a stage gives whether it succeeded with the structure so far. Fixed
  character arrays hold what \<open>strncpy\<close> leaves in them; finders of codecs, sample formats and
  channel layouts are functions of FFmpeg and arguments.
\<close>

record rtspconf =
  rc_initialized :: int
  rc_object :: string
  rc_title :: string
  rc_display :: string
  rc_servername :: "string option"
  rc_serverport :: int
  rc_proto :: int
  rc_ctrlenable :: int
  rc_ctrlport :: int
  rc_ctrlproto :: int
  rc_sendmousemotion :: int
  video_encoder_name :: "string list"
  video_encoder_codec :: nat
  rc_video_fps :: int
  video_renderer_software :: int
  audio_encoder_name :: "string list"
  audio_encoder_codec :: nat
  audio_bitrate :: int
  audio_samplerate :: int
  audio_channels :: int
  audio_device_format :: int
  audio_device_channel_layout :: int
  audio_codec_format :: int
  audio_codec_channel_layout :: int
  rc_vso :: "string list"

record codec_env =
  find_encoder :: "string list \<Rightarrow> nat"
  get_sample_fmt :: "string \<Rightarrow> int"
  get_channel_layout :: "string \<Rightarrow> int"

definition IPPROTO_TCP :: int where "IPPROTO_TCP = 6"
definition IPPROTO_UDP :: int where "IPPROTO_UDP = 17"

section \<open>Defaults\<close>

text \<open>\<open>AV_SAMPLE_FMT_S16\<close> is 1 and \<open>AV_CH_LAYOUT_STEREO\<close> is 3. The layout of the device is set twice
  and that of the codec is not set.\<close>

definition rtspconf_init :: rtspconf where
  "rtspconf_init = \<lparr>rc_initialized = 1, rc_object = ''/desktop'', rc_title = ''Real-Time Desktop'',
     rc_display = '':0'', rc_servername = None, rc_serverport = 554, rc_proto = IPPROTO_UDP,
     rc_ctrlenable = 0, rc_ctrlport = 555, rc_ctrlproto = IPPROTO_TCP, rc_sendmousemotion = 0,
     video_encoder_name = [], video_encoder_codec = 0, rc_video_fps = 24, video_renderer_software = 0,
     audio_encoder_name = [], audio_encoder_codec = 0, audio_bitrate = 128000, audio_samplerate = 44100,
     audio_channels = 2, audio_device_format = 1, audio_device_channel_layout = 3,
     audio_codec_format = 1, audio_codec_channel_layout = 0, rc_vso = []\<rparr>"

section \<open>Codec names\<close>

definition is_delim :: "char \<Rightarrow> bool" where
  "is_delim c \<longleftrightarrow> c \<in> set [CHR '' '', CHR 0x09, CHR 0x0A, CHR 0x0D]"

text \<open>The tokens that \<open>strtok_r\<close> gives, the first \<open>n\<close> at most.\<close>

primrec strtok_all :: "nat \<Rightarrow> string \<Rightarrow> string list" where
  "strtok_all 0 s = []"
| "strtok_all (Suc n) s =
     (let t = dropWhile is_delim s
      in if t = [] then []
         else takeWhile (\<lambda>c. \<not> is_delim c) t # strtok_all n (drop 1 (dropWhile (\<lambda>c. \<not> is_delim c) t)))"

text \<open>The names and the codec; the names are stored even when no codec is found.\<close>

definition rtspconf_load_codec :: "(string list \<Rightarrow> nat) \<Rightarrow> string \<Rightarrow> int \<times> string list \<times> nat" where
  "rtspconf_load_codec finder v =
     (let names = strtok_all 8 v
      in if names = [] then (-1, [], 0)
         else let codec = finder names in if codec = 0 then (-1, names, 0) else (0, names, codec))"

section \<open>The parser\<close>

text \<open>The names, the server port and the transport.\<close>

definition conf_copy :: "nat \<Rightarrow> string option \<Rightarrow> string \<Rightarrow> string" where
  "conf_copy n p old = (case p of None \<Rightarrow> old | Some s \<Rightarrow> take n s)"

definition conf_proto :: "string option \<Rightarrow> int" where
  "conf_proto p = (if p = None \<or> p \<noteq> Some ''tcp'' then IPPROTO_UDP else IPPROTO_TCP)"

definition parse_server :: "ga_conf \<Rightarrow> rtspconf \<Rightarrow> (bool \<times> rtspconf) option" where
  "parse_server st c = do {
     sn \<leftarrow> ga_conf_readv st ''server-name'' 1024;
     ob \<leftarrow> ga_conf_readv st ''base-object'' 1024;
     ti \<leftarrow> ga_conf_readv st ''title'' 1024;
     di \<leftarrow> ga_conf_readv st ''display'' 1024;
     v \<leftarrow> ga_conf_readint st ''server-port'';
     (let c1 = c\<lparr>rc_servername := (case sn of None \<Rightarrow> rc_servername c | Some s \<Rightarrow> Some s),
                rc_object := conf_copy 128 ob (rc_object c), rc_title := conf_copy 256 ti (rc_title c),
                rc_display := conf_copy 16 di (rc_display c)\<rparr>
      in if v \<le> 0 \<or> v \<ge> 65536 then Some (False, c1)
         else do {
           p \<leftarrow> ga_conf_readv st ''proto'' 1024;
           Some (True, c1\<lparr>rc_serverport := v, rc_proto := conf_proto p\<rparr>) }) }"

definition parse_control :: "ga_conf \<Rightarrow> rtspconf \<Rightarrow> (bool \<times> rtspconf) option" where
  "parse_control st c = do {
     en \<leftarrow> ga_conf_readbool st ''control-enabled'' 0;
     (let c1 = c\<lparr>rc_ctrlenable := en\<rparr>
      in if en \<noteq> 0 then do {
           v \<leftarrow> ga_conf_readint st ''control-port'';
           (if v \<le> 0 \<or> v \<ge> 65536 then Some (False, c1)
            else do {
              p \<leftarrow> ga_conf_readv st ''control-proto'' 1024;
              m \<leftarrow> ga_conf_readbool st ''control-send-mouse-motion'' 1;
              Some (True, c1\<lparr>rc_ctrlport := v, rc_ctrlproto := conf_proto p, rc_sendmousemotion := m\<rparr>) }) }
         else Some (True, c1)) }"

definition parse_codec :: "(string list \<Rightarrow> nat) \<Rightarrow> ga_conf \<Rightarrow> string \<Rightarrow> (string list \<Rightarrow> nat \<Rightarrow> rtspconf \<Rightarrow> rtspconf) \<Rightarrow>
    rtspconf \<Rightarrow> (bool \<times> rtspconf) option" where
  "parse_codec finder st key upd c = do {
     p \<leftarrow> ga_conf_readv st key 1024;
     (case p of
        None \<Rightarrow> Some (True, c)
      | Some v \<Rightarrow> let (r, ns, k) = rtspconf_load_codec finder v in Some (\<not> r < 0, upd ns k c)) }"

text \<open>The next stage runs when the one before it has not returned with an error.\<close>

definition parse_then :: "(bool \<times> rtspconf) option \<Rightarrow> (rtspconf \<Rightarrow> (bool \<times> rtspconf) option) \<Rightarrow> (bool \<times> rtspconf) option" where
  "parse_then a f = do { (ok, c) \<leftarrow> a; (if ok then f c else Some (False, c)) }"

definition parse_codecs :: "codec_env \<Rightarrow> ga_conf \<Rightarrow> rtspconf \<Rightarrow> (bool \<times> rtspconf) option" where
  "parse_codecs e st c =
     parse_then (parse_codec (find_encoder e) st ''video-encoder''
         (\<lambda>ns k c. c\<lparr>video_encoder_name := ns, video_encoder_codec := k\<rparr>) c)
       (parse_codec (find_encoder e) st ''audio-encoder''
         (\<lambda>ns k c. c\<lparr>audio_encoder_name := ns, audio_encoder_codec := k\<rparr>))"

definition parse_rates :: "ga_conf \<Rightarrow> rtspconf \<Rightarrow> (bool \<times> rtspconf) option" where
  "parse_rates st c = do {
     v \<leftarrow> ga_conf_readint st ''video-fps'';
     (if v \<le> 0 \<or> v > 120 then Some (False, c)
      else do {
        p \<leftarrow> ga_conf_readv st ''video-renderer'' 1024;
        (let c1 = c\<lparr>rc_video_fps := v, video_renderer_software := (if p = Some ''software'' then 1 else 0)\<rparr>
         in do {
           v \<leftarrow> ga_conf_readint st ''audio-bitrate'';
           (if v \<le> 0 \<or> v > 1024000 then Some (False, c1)
            else let c2 = c1\<lparr>audio_bitrate := v\<rparr>
                 in do {
                   v \<leftarrow> ga_conf_readint st ''audio-samplerate'';
                   (if v \<le> 0 \<or> v > 1024000 then Some (False, c2)
                    else let c3 = c2\<lparr>audio_samplerate := v\<rparr>
                         in do {
                           v \<leftarrow> ga_conf_readint st ''audio-channels'';
                           (if v < 1 then Some (False, c3) else Some (True, c3\<lparr>audio_channels := v\<rparr>)) }) }) }) }) }"

text \<open>A name that must be given and known; \<open>bad\<close> is the value of an unknown one.\<close>

definition parse_name :: "ga_conf \<Rightarrow> string \<Rightarrow> (string \<Rightarrow> int) \<Rightarrow> int \<Rightarrow> (int \<Rightarrow> rtspconf \<Rightarrow> rtspconf) \<Rightarrow> rtspconf \<Rightarrow>
    (bool \<times> rtspconf) option" where
  "parse_name st key lookup bad upd c = do {
     p \<leftarrow> ga_conf_readv st key 1024;
     (case p of
        None \<Rightarrow> Some (False, c)
      | Some s \<Rightarrow> let v = lookup s in Some (v \<noteq> bad, upd v c)) }"

definition parse_formats :: "codec_env \<Rightarrow> ga_conf \<Rightarrow> rtspconf \<Rightarrow> (bool \<times> rtspconf) option" where
  "parse_formats e st c =
     parse_then (parse_name st ''audio-device-format'' (get_sample_fmt e) (-1) (\<lambda>v. audio_device_format_update (\<lambda>_. v)) c)
       (\<lambda>c. parse_then (parse_name st ''audio-device-channel-layout'' (get_channel_layout e) 0 (\<lambda>v. audio_device_channel_layout_update (\<lambda>_. v)) c)
         (\<lambda>c. parse_then (parse_name st ''audio-codec-format'' (get_sample_fmt e) (-1) (\<lambda>v. audio_codec_format_update (\<lambda>_. v)) c)
           (parse_name st ''audio-codec-channel-layout'' (get_channel_layout e) 0 (\<lambda>v. audio_codec_channel_layout_update (\<lambda>_. v)))))"

text \<open>The loop over the entries of a map parameter.\<close>

partial_function (option) vso_loop :: "ga_conf \<Rightarrow> string option \<Rightarrow> string list \<Rightarrow> (string list \<times> ga_conf) option" where
  "vso_loop st ptr vso = (case ptr of
       None \<Rightarrow> Some (vso, st)
     | Some k \<Rightarrow> do {
         val \<leftarrow> ga_conf_mapvalue st ''video-specific'' 1024;
         (ptr', st') \<leftarrow> ga_conf_mapnextkey st ''video-specific'' 1024;
         vso_loop st' ptr' (case val of None \<Rightarrow> vso | Some x \<Rightarrow> if x = [] then vso else vso @ [k, x]) })"

declare vso_loop.simps [code]

definition parse_vso :: "ga_conf \<Rightarrow> rtspconf \<Rightarrow> (rtspconf \<times> ga_conf) option" where
  "parse_vso st c =
     (if ga_conf_mapsize st ''video-specific'' > 0 then
        (let st1 = ga_conf_mapreset st ''video-specific''
         in do {
           ptr \<leftarrow> ga_conf_mapkey st1 ''video-specific'' 1024;
           (vso, st2) \<leftarrow> vso_loop st1 ptr (rc_vso c);
           Some (c\<lparr>rc_vso := vso\<rparr>, st2) })
      else Some (c, st))"

definition rtspconf_parse :: "codec_env \<Rightarrow> ga_conf \<Rightarrow> (int \<times> rtspconf \<times> ga_conf) option" where
  "rtspconf_parse e st = do {
     (ok, c) \<leftarrow> parse_then (parse_server st rtspconf_init) (\<lambda>c. parse_then (parse_control st c) (\<lambda>c.
       parse_then (parse_codecs e st c) (\<lambda>c. parse_then (parse_rates st c) (parse_formats e st))));
     (if ok then do { (c', st') \<leftarrow> parse_vso st c; Some (0, c', st') } else Some (-1, c, st)) }"

section \<open>What a parsed configuration satisfies\<close>

definition server_ok :: "rtspconf \<Rightarrow> bool" where
  "server_ok c \<longleftrightarrow> 0 < rc_serverport c \<and> rc_serverport c < 65536 \<and> rc_proto c \<in> {IPPROTO_TCP, IPPROTO_UDP} \<and>
     length (rc_object c) \<le> 128 \<and> length (rc_title c) \<le> 256 \<and> length (rc_display c) \<le> 16"

definition control_ok :: "rtspconf \<Rightarrow> bool" where
  "control_ok c \<longleftrightarrow> 0 < rc_ctrlport c \<and> rc_ctrlport c < 65536 \<and> rc_ctrlproto c \<in> {IPPROTO_TCP, IPPROTO_UDP}"

definition codecs_ok :: "rtspconf \<Rightarrow> bool" where
  "codecs_ok c \<longleftrightarrow> length (video_encoder_name c) \<le> 8 \<and> length (audio_encoder_name c) \<le> 8 \<and>
     (video_encoder_name c \<noteq> [] \<longrightarrow> video_encoder_codec c \<noteq> 0) \<and> (audio_encoder_name c \<noteq> [] \<longrightarrow> audio_encoder_codec c \<noteq> 0)"

definition rates_ok :: "rtspconf \<Rightarrow> bool" where
  "rates_ok c \<longleftrightarrow> 1 \<le> rc_video_fps c \<and> rc_video_fps c \<le> 120 \<and> 1 \<le> audio_bitrate c \<and> audio_bitrate c \<le> 1024000 \<and>
     1 \<le> audio_samplerate c \<and> audio_samplerate c \<le> 1024000 \<and> 1 \<le> audio_channels c"

definition formats_ok :: "rtspconf \<Rightarrow> bool" where
  "formats_ok c \<longleftrightarrow> audio_device_format c \<noteq> -1 \<and> audio_device_channel_layout c \<noteq> 0 \<and>
     audio_codec_format c \<noteq> -1 \<and> audio_codec_channel_layout c \<noteq> 0"

lemmas conf_ok_defs = server_ok_def control_ok_def codecs_ok_def rates_ok_def formats_ok_def

lemma parse_then_True: "parse_then a f = Some (True, c) \<longleftrightarrow> (\<exists>c1. a = Some (True, c1) \<and> f c1 = Some (True, c))"
  by (auto simp: parse_then_def split: if_splits)

lemma length_strtok_all: "length (strtok_all n s) \<le> n"
  by (induction n arbitrary: s) (auto simp: Let_def)

lemma load_codec_names: "rtspconf_load_codec f v = (r, ns, k) \<Longrightarrow> length ns \<le> 8 \<and> (\<not> r < 0 \<longrightarrow> k \<noteq> 0 \<and> ns \<noteq> [])"
  using length_strtok_all [of 8 v] by (auto simp: rtspconf_load_codec_def Let_def split: if_splits)

lemma conf_proto_cases: "conf_proto p \<in> {IPPROTO_TCP, IPPROTO_UDP}"
  by (simp add: conf_proto_def)

lemma if_guard_True: "(if b then Some (False, x) else y) = Some (True, z) \<longleftrightarrow> \<not> b \<and> y = Some (True, z)"
  by simp

lemma conf_copy_init: "length (conf_copy n p s) \<le> max n (length s)"
  by (simp add: conf_copy_def min.coboundedI2 le_max_iff_disj split: option.split)

lemma parse_server_ok:
  assumes "parse_server st rtspconf_init = Some (True, c)"
  shows "server_ok c \<and> control_ok c \<and> codecs_ok c \<and> rc_vso c = []"
proof -
  from assms obtain sn ob ti di v p where v: "\<not> (v \<le> 0 \<or> v \<ge> 65536)" and
    c: "rtspconf_init\<lparr>rc_servername := (case sn of None \<Rightarrow> rc_servername rtspconf_init | Some s \<Rightarrow> Some s),
          rc_object := conf_copy 128 ob (rc_object rtspconf_init), rc_title := conf_copy 256 ti (rc_title rtspconf_init),
          rc_display := conf_copy 16 di (rc_display rtspconf_init), rc_serverport := v, rc_proto := conf_proto p\<rparr> = c"
    unfolding parse_server_def Let_def bind_Some_iff if_guard_True option.inject prod.inject by blast
  have s: "length (conf_copy 128 ob (rc_object rtspconf_init)) \<le> 128"
    "length (conf_copy 256 ti (rc_title rtspconf_init)) \<le> 256" "length (conf_copy 16 di (rc_display rtspconf_init)) \<le> 16"
    using conf_copy_init [of 128 ob "rc_object rtspconf_init"] conf_copy_init [of 256 ti "rc_title rtspconf_init"]
      conf_copy_init [of 16 di "rc_display rtspconf_init"] by (simp_all add: rtspconf_init_def)
  have "server_ok c" using v s conf_proto_cases [of p] unfolding server_ok_def c [symmetric] by simp
  moreover have "control_ok c \<and> codecs_ok c \<and> rc_vso c = []"
    unfolding control_ok_def codecs_ok_def c [symmetric] by (simp add: rtspconf_init_def)
  ultimately show ?thesis by blast
qed

lemma parse_rates_ok:
  assumes "parse_rates st c = Some (True, c')"
  shows "rates_ok c' \<and> (codecs_ok c \<longrightarrow> codecs_ok c') \<and> (server_ok c \<longrightarrow> server_ok c') \<and> (control_ok c \<longrightarrow> control_ok c') \<and> rc_vso c' = rc_vso c"
proof -
  from assms obtain f p b s n where
    v: "\<not> (f \<le> 0 \<or> f > 120)" "\<not> (b \<le> 0 \<or> b > 1024000)" "\<not> (s \<le> 0 \<or> s > 1024000)" "\<not> n < (1::int)" and
    c: "c\<lparr>rc_video_fps := f, video_renderer_software := p, audio_bitrate := b, audio_samplerate := s, audio_channels := n\<rparr> = c'"
    unfolding parse_rates_def Let_def bind_Some_iff if_guard_True option.inject prod.inject by blast
  then show ?thesis by (simp add: conf_ok_defs c [symmetric])
qed

lemma parse_control_ok:
  assumes "parse_control st c = Some (True, c')"
  shows "(control_ok c \<longrightarrow> control_ok c') \<and> (server_ok c \<longrightarrow> server_ok c') \<and> (codecs_ok c \<longrightarrow> codecs_ok c') \<and> rc_vso c' = rc_vso c"
proof -
  from assms obtain en where e: "(if en \<noteq> 0 then do {
           v \<leftarrow> ga_conf_readint st ''control-port'';
           (if v \<le> 0 \<or> v \<ge> 65536 then Some (False, c\<lparr>rc_ctrlenable := en\<rparr>)
            else do {
              p \<leftarrow> ga_conf_readv st ''control-proto'' 1024;
              m \<leftarrow> ga_conf_readbool st ''control-send-mouse-motion'' 1;
              Some (True, c\<lparr>rc_ctrlenable := en, rc_ctrlport := v, rc_ctrlproto := conf_proto p, rc_sendmousemotion := m\<rparr>) }) }
         else Some (True, c\<lparr>rc_ctrlenable := en\<rparr>)) = Some (True, c')"
    unfolding parse_control_def Let_def by (elim bind_Some_iff [THEN iffD1, elim_format] exE conjE) blast
  show ?thesis
  proof (cases "en = 0")
    case True
    with e have c: "c\<lparr>rc_ctrlenable := en\<rparr> = c'" by simp
    show ?thesis by (simp add: conf_ok_defs c [symmetric])
  next
    case False
    from e obtain v p m where v: "\<not> (v \<le> 0 \<or> v \<ge> 65536)" and
      c: "c\<lparr>rc_ctrlenable := en, rc_ctrlport := v, rc_ctrlproto := conf_proto p, rc_sendmousemotion := m\<rparr> = c'"
      unfolding if_P [OF False] bind_Some_iff if_guard_True option.inject prod.inject by blast
    show ?thesis using v conf_proto_cases [of p] by (simp add: conf_ok_defs c [symmetric])
  qed
qed

lemma parse_codec_True:
  assumes "parse_codec f st key upd c = Some (True, c')"
  shows "c' = c \<or> (\<exists>ns k. length ns \<le> 8 \<and> k \<noteq> 0 \<and> c' = upd ns k c)"
proof -
  from assms obtain p where p: "(case p of None \<Rightarrow> Some (True, c)
      | Some v \<Rightarrow> let (r, ns, k) = rtspconf_load_codec f v in Some (\<not> r < 0, upd ns k c)) = Some (True, c')"
    unfolding parse_codec_def bind_Some_iff by blast
  show ?thesis
  proof (cases p)
    case (Some v)
    obtain r ns k where r: "rtspconf_load_codec f v = (r, ns, k)" by (metis prod_cases3)
    have "\<not> r < 0" "upd ns k c = c'" using p by (simp_all add: Some r)
    with load_codec_names [OF r] show ?thesis by blast
  qed (use p in simp)
qed

lemma parse_codecs_ok:
  assumes "parse_codecs e st c = Some (True, c')"
  shows "(codecs_ok c \<longrightarrow> codecs_ok c') \<and> (server_ok c \<longrightarrow> server_ok c') \<and> (control_ok c \<longrightarrow> control_ok c') \<and> rc_vso c' = rc_vso c"
proof -
  let ?V = "\<lambda>ns k c. c\<lparr>video_encoder_name := ns, video_encoder_codec := k\<rparr>"
  let ?A = "\<lambda>ns k c. c\<lparr>audio_encoder_name := ns, audio_encoder_codec := k\<rparr>"
  obtain c1 where "c1 = c \<or> (\<exists>ns k. length ns \<le> 8 \<and> k \<noteq> 0 \<and> c1 = ?V ns k c)" "c' = c1 \<or> (\<exists>ns k. length ns \<le> 8 \<and> k \<noteq> 0 \<and> c' = ?A ns k c1)"
    using assms unfolding parse_codecs_def parse_then_True by (blast dest: parse_codec_True)
  then show ?thesis by (elim disjE exE conjE) (simp_all add: conf_ok_defs)
qed

lemma parse_name_True:
  "parse_name st key lookup bad upd c = Some (True, c') \<longleftrightarrow>
     (\<exists>s. ga_conf_readv st key 1024 = Some (Some s) \<and> lookup s \<noteq> bad \<and> upd (lookup s) c = c')"
  by (auto simp: parse_name_def Let_def split: option.splits)

lemma parse_formats_ok:
  assumes "parse_formats e st c = Some (True, c')"
  shows "formats_ok c' \<and> (rates_ok c \<longrightarrow> rates_ok c') \<and> (codecs_ok c \<longrightarrow> codecs_ok c') \<and> (server_ok c \<longrightarrow> server_ok c') \<and>
    (control_ok c \<longrightarrow> control_ok c') \<and> rc_vso c' = rc_vso c"
proof -
  from assms obtain f l g m where "f \<noteq> -1" "l \<noteq> 0" "g \<noteq> -1" "m \<noteq> 0" and
    c: "c\<lparr>audio_device_format := f, audio_device_channel_layout := l, audio_codec_format := g, audio_codec_channel_layout := m\<rparr> = c'"
    unfolding parse_formats_def parse_then_True parse_name_True by blast
  then show ?thesis by (simp add: conf_ok_defs c [symmetric])
qed

section \<open>The video options\<close>

text \<open>What the options list holds for a map: the entries that have a value.\<close>

definition vso_options :: "(string, string) smap \<Rightarrow> string list" where
  "vso_options m = concat (map (\<lambda>(k, x). if x = [] then [] else [k, x]) m)"

lemma vso_options_simps [simp]:
  "vso_options [] = []" "vso_options ((k, x) # m) = (if x = [] then [] else [k, x]) @ vso_options m"
  by (simp_all add: vso_options_def)

lemma smap_find_middle: "smap_ok (m1 @ (k, x) # m2) \<Longrightarrow> smap_find (m1 @ (k, x) # m2) k = Some x"
proof (induction m1)
  case (Cons y m1)
  then show ?case by (cases y) auto
qed simp

definition entries_fit :: "nat \<Rightarrow> (string, string) smap \<Rightarrow> bool" where
  "entries_fit n m \<longleftrightarrow> (\<forall>(k, x) \<in> set m. k \<noteq> [] \<and> length k < n \<and> length x < n)"

lemma vso_loop_walk:
  assumes "smap_find (ga_vars st) ''video-specific'' = Some v"
    and "cv_mapdata v = m1 @ m2" and "cv_mi v = smap_begin m2"
    and "smap_ok (cv_mapdata v)" and "entries_fit 1024 (cv_mapdata v)"
  shows "\<exists>st'. vso_loop st (smap_begin m2) vso = Some (vso @ vso_options m2, st')"
  using assms
proof (induction m2 arbitrary: st v m1 vso)
  case Nil
  show ?case by (subst vso_loop.simps) (simp add: smap_begin_def)
next
  case (Cons y m2)
  obtain k x where y: "y = (k, x)" by (cases y)
  let ?v = "v\<lparr>cv_mi := smap_begin m2\<rparr>" and ?st = "conf_set st ''video-specific'' (v\<lparr>cv_mi := smap_begin m2\<rparr>)"
  let ?vso = "if x = [] then vso else vso @ [k, x]"
  have mi: "cv_mi v = Some k" using Cons.prems(3) by (simp add: y smap_begin_def)
  have k: "k \<noteq> []" "length k < 1024" "length x < 1024"
    using Cons.prems(2,5) by (auto simp: entries_fit_def y)
  have nxt: "smap_next (cv_mapdata v) k = smap_begin m2"
    using Cons.prems(2,4) smap_next_suffix [of m1 k x m2] by (simp add: y)
  have val: "ga_conf_mapvalue st ''video-specific'' 1024 = Some (Some x)"
    using Cons.prems(1,2,4) k smap_find_middle [of m1 k x m2]
    by (simp add: ga_conf_mapvalue_def gaConfVar_mkey_def gaConfVar_mvalue_def mi strncpy_str_def y)
  have nk: "ga_conf_mapnextkey st ''video-specific'' 1024 = Some (smap_begin m2, ?st)"
  proof (cases m2)
    case Nil
    then show ?thesis using Cons.prems(1) nxt
      by (simp add: ga_conf_mapnextkey_def gaConfVar_mnextkey_def mi smap_begin_def)
  next
    case (Cons z zs)
    then have "fst z \<noteq> []" "length (fst z) < 1024"
      using \<open>cv_mapdata v = m1 @ y # m2\<close> \<open>entries_fit 1024 (cv_mapdata v)\<close> by (auto simp: entries_fit_def)
    with Cons show ?thesis using \<open>smap_find (ga_vars st) ''video-specific'' = Some v\<close> nxt
      by (cases z) (simp add: ga_conf_mapnextkey_def gaConfVar_mnextkey_def mi smap_begin_def strncpy_str_def)
  qed
  obtain st' where "vso_loop ?st (smap_begin m2) ?vso = Some (?vso @ vso_options m2, st')"
    using Cons.IH [of ?st ?v "m1 @ [y]" ?vso] Cons.prems(2,4,5) by auto
  moreover have "vso_loop st (Some k) vso = vso_loop ?st (smap_begin m2) ?vso"
    by (subst vso_loop.simps) (simp add: val nk)
  ultimately show ?case by (auto simp: y smap_begin_def)
qed

lemma parse_vso_options:
  assumes "conf_ok st" and "smap_find (ga_vars st) ''video-specific'' = Some v" and "entries_fit 1024 (cv_mapdata v)"
  shows "\<exists>st'. parse_vso st c = Some (c\<lparr>rc_vso := rc_vso c @ vso_options (cv_mapdata v)\<rparr>, st')"
proof (cases "cv_mapdata v")
  case Nil
  then show ?thesis using assms(2) by (simp add: parse_vso_def ga_conf_mapsize_def gaConfVar_msize_def)
next
  case (Cons y m)
  let ?d = "cv_mapdata v" and ?st = "ga_conf_mapreset st ''video-specific''" and ?v = "v\<lparr>cv_mi := smap_begin (cv_mapdata v)\<rparr>"
  have ok: "smap_ok ?d" using assms(1,2) by (auto dest: conf_okD simp: cv_ok_def)
  have f: "smap_find (ga_vars ?st) ''video-specific'' = Some ?v"
    using assms(2) by (simp add: ga_conf_mapreset_def gaConfVar_mreset_def)
  have key: "ga_conf_mapkey ?st ''video-specific'' 1024 = Some (smap_begin ?d)"
    using assms(3) Cons by (cases y) (simp add: ga_conf_mapkey_def f gaConfVar_mkey_def smap_begin_def strncpy_str_def entries_fit_def)
  obtain st' where "vso_loop ?st (smap_begin ?d) (rc_vso c) = Some (rc_vso c @ vso_options ?d, st')"
    using vso_loop_walk [OF f, of "[]" ?d] ok assms(3) by auto
  moreover have "ga_conf_mapsize st ''video-specific'' > 0"
    using assms(2) Cons by (simp add: ga_conf_mapsize_def gaConfVar_msize_def)
  ultimately show ?thesis by (simp add: parse_vso_def key)
qed

section \<open>The parser as a whole\<close>

lemma parse_vso_same: "parse_vso st c = Some (c', st') \<Longrightarrow> \<exists>vso. c' = c\<lparr>rc_vso := vso\<rparr>"
  by (auto simp: parse_vso_def Let_def split: if_splits intro: exI [of _ "rc_vso c"])

lemma rtspconf_parse_stages:
  assumes "rtspconf_parse e st = Some (0, c, st')"
  shows "\<exists>c0. server_ok c0 \<and> control_ok c0 \<and> codecs_ok c0 \<and> rates_ok c0 \<and> formats_ok c0 \<and> rc_vso c0 = [] \<and>
    parse_vso st c0 = Some (c, st')"
proof -
  let ?p = "parse_then (parse_server st rtspconf_init) (\<lambda>c. parse_then (parse_control st c) (\<lambda>c.
       parse_then (parse_codecs e st c) (\<lambda>c. parse_then (parse_rates st c) (parse_formats e st))))"
  have "?p \<noteq> None" using assms unfolding rtspconf_parse_def by (metis bind.simps(1) option.distinct(1))
  then obtain ok c5 where p: "?p = Some (ok, c5)" by (metis not_None_eq surj_pair)
  have r: "(if ok then do { (c', st') \<leftarrow> parse_vso st c5; Some (0, c', st') } else Some (-1 :: int, c5, st)) = Some (0, c, st')"
    using assms unfolding rtspconf_parse_def p bind.simps prod.case by simp
  have ok: "ok" using r by (cases ok) simp_all
  obtain c1 c2 c3 c4 where s: "parse_server st rtspconf_init = Some (True, c1)" "parse_control st c1 = Some (True, c2)"
    "parse_codecs e st c2 = Some (True, c3)" "parse_rates st c3 = Some (True, c4)" "parse_formats e st c4 = Some (True, c5)"
    using p unfolding parse_then_True ok eqTrueI [OF ok] by blast
  have "parse_vso st c5 = Some (c, st')" using r ok by auto
  with parse_server_ok [OF s(1)] parse_control_ok [OF s(2)] parse_codecs_ok [OF s(3)] parse_rates_ok [OF s(4)] parse_formats_ok [OF s(5)]
  show ?thesis by metis
qed

text \<open>A readable store: every value fits the smallest buffer the parser reads it into, and the
  entries of the map of video options fit theirs.\<close>

definition conf_short :: "ga_conf \<Rightarrow> bool" where
  "conf_short st \<longleftrightarrow> (\<forall>(k, v) \<in> set (ga_vars st). length (cv_data v) < 64 \<and> entries_fit 1024 (cv_mapdata v))"

lemma smap_find_mem: "smap_find m k = Some v \<Longrightarrow> (k, v) \<in> set m"
  by (induction m k rule: smap_find.induct) (auto split: if_splits)

lemma readv_short: "conf_short st \<Longrightarrow> 64 \<le> n \<Longrightarrow> \<exists>p. ga_conf_readv st key n = Some p"
  by (auto simp: ga_conf_readv_def conf_short_def strncpy_str_def gaConfVar_value_def dest!: smap_find_mem split: option.split)

lemma readint_short: "conf_short st \<Longrightarrow> \<exists>v. ga_conf_readint st key = Some v"
  using readv_short [of st 64 key] by (auto simp: ga_conf_readint_def)

lemma readbool_short: "conf_short st \<Longrightarrow> \<exists>v. ga_conf_readbool st key d = Some v"
  using readv_short [of st 64 key] by (auto simp: ga_conf_readbool_def)

lemma bind_total: "\<exists>x. m = Some x \<Longrightarrow> (\<And>x. \<exists>y. f x = Some y) \<Longrightarrow> \<exists>y. (m \<bind> f) = Some y"
  by fastforce

lemma if_total: "(b \<Longrightarrow> \<exists>y. p = Some y) \<Longrightarrow> (\<not> b \<Longrightarrow> \<exists>y. q = Some y) \<Longrightarrow> \<exists>y. (if b then p else q) = Some y"
  by simp

lemma option_total: "\<exists>y. a = Some y \<Longrightarrow> (\<And>x. \<exists>y. f x = Some y) \<Longrightarrow> \<exists>y. (case p of None \<Rightarrow> a | Some x \<Rightarrow> f x) = Some y"
  by (cases p) simp_all

lemma pair_total: "(\<And>a b. \<exists>y. f a b = Some y) \<Longrightarrow> \<exists>y. (case p of (a, b) \<Rightarrow> f a b) = Some y"
  by (cases p) simp

lemma some_total: "\<exists>y. Some x = Some y"
  by simp

lemma readv_short_1024: "conf_short st \<Longrightarrow> \<exists>p. ga_conf_readv st key 1024 = Some p"
  by (rule readv_short) simp_all

lemmas parse_total = bind_total if_total option_total pair_total some_total readv_short_1024 readint_short readbool_short

lemma parse_then_total: "\<exists>y. a = Some y \<Longrightarrow> (\<And>c. \<exists>y. f c = Some y) \<Longrightarrow> \<exists>y. parse_then a f = Some y"
  unfolding parse_then_def by (intro parse_total)

lemma parse_codec_total: "conf_short st \<Longrightarrow> \<exists>y. parse_codec f st key upd c = Some y"
  unfolding parse_codec_def Let_def by (intro parse_total)

lemma parse_name_total: "conf_short st \<Longrightarrow> \<exists>y. parse_name st key lookup bad upd c = Some y"
  unfolding parse_name_def Let_def by (intro parse_total)

lemma parse_stages_total:
  assumes "conf_short st"
  shows "\<exists>y. parse_server st c = Some y" "\<exists>y. parse_control st c = Some y" "\<exists>y. parse_codecs e st c = Some y"
    "\<exists>y. parse_rates st c = Some y" "\<exists>y. parse_formats e st c = Some y"
  unfolding parse_server_def parse_control_def parse_codecs_def parse_rates_def parse_formats_def Let_def
  by (intro parse_total parse_then_total parse_codec_total parse_name_total assms)+

lemma parse_vso_total:
  assumes "conf_ok st" and "conf_short st"
  shows "\<exists>y. parse_vso st c = Some y"
proof (cases "smap_find (ga_vars st) ''video-specific''")
  case None
  then show ?thesis by (simp add: parse_vso_def ga_conf_mapsize_def)
next
  case (Some v)
  then have "entries_fit 1024 (cv_mapdata v)" using assms(2) by (auto simp: conf_short_def dest: smap_find_mem)
  with parse_vso_options [OF assms(1) Some] show ?thesis by blast
qed

lemma rtspconf_parse_total:
  assumes "conf_ok st" and "conf_short st"
  shows "\<exists>y. rtspconf_parse e st = Some y"
  unfolding rtspconf_parse_def
  by (intro parse_total parse_then_total parse_stages_total parse_vso_total assms)

text \<open>C32. When the configuration is accepted, every checked value is in its range: both ports,
  the frame rate, bit rate, sample rate and channels, the protocols are TCP or UDP, the formats
  and layouts are ones FFmpeg knows, a configured encoder list holds at most 8 names and has
  resolved to a codec, and the fixed buffers are not exceeded.\<close>

theorem rtspconf_parse_ranges:
  assumes "rtspconf_parse e st = Some (0, c, st')"
  shows "server_ok c \<and> control_ok c \<and> codecs_ok c \<and> rates_ok c \<and> formats_ok c"
proof -
  obtain c0 where c0: "server_ok c0 \<and> control_ok c0 \<and> codecs_ok c0 \<and> rates_ok c0 \<and> formats_ok c0"
    and v: "parse_vso st c0 = Some (c, st')"
    using rtspconf_parse_stages [OF assms] by blast
  from parse_vso_same [OF v] obtain vso where "c = c0\<lparr>rc_vso := vso\<rparr>" by blast
  with c0 show ?thesis by (simp add: conf_ok_defs)
qed

text \<open>On a store whose values fit the parser's buffers, parsing returns, the loop over the
  video options included; and when the configuration is accepted, the list of video options
  holds each entry of the map that has a value, key before value, in the order of the keys.\<close>

theorem rtspconf_video_options:
  assumes "conf_ok st" and "conf_short st" and "smap_find (ga_vars st) ''video-specific'' = Some v"
  shows "\<exists>r c st'. rtspconf_parse e st = Some (r, c, st') \<and> (r = 0 \<or> r = -1) \<and>
    (r = 0 \<longrightarrow> rc_vso c = vso_options (cv_mapdata v))"
proof -
  obtain r c st' where p: "rtspconf_parse e st = Some (r, c, st')"
    using rtspconf_parse_total [OF assms(1,2), of e] by (metis prod_cases3)
  have "r = 0 \<or> r = -1" using p unfolding rtspconf_parse_def by (auto split: if_splits)
  moreover have "rc_vso c = vso_options (cv_mapdata v)" if r: "r = 0"
  proof -
    obtain c0 where "rc_vso c0 = []" and v: "parse_vso st c0 = Some (c, st')"
      using rtspconf_parse_stages [OF p [unfolded r]] by blast
    moreover have "entries_fit 1024 (cv_mapdata v)"
      using assms(2,3) by (auto simp: conf_short_def dest: smap_find_mem)
    ultimately show ?thesis using parse_vso_options [OF assms(1,3), of c0] by auto
  qed
  ultimately show ?thesis using p by blast
qed

definition conf_example :: ga_conf where
  "conf_example = foldl (\<lambda>st (k, x). ga_conf_mapwritev st ''video-specific'' k x)
     (foldl (\<lambda>st (k, x). ga_conf_writev st k x) ga_conf_empty
        [(''server-port'', ''8554''), (''proto'', ''tcp''), (''control-enabled'', ''true''), (''control-port'', ''8555''),
         (''video-encoder'', ''libx264 mpeg4''), (''video-fps'', ''24''), (''audio-bitrate'', ''128000''),
         (''audio-samplerate'', ''44100''), (''audio-channels'', ''2''), (''audio-device-format'', ''s16''),
         (''audio-device-channel-layout'', ''stereo''), (''audio-codec-format'', ''s16''), (''audio-codec-channel-layout'', ''stereo'')])
     [(''refs'', ''1''), (''b'', ''3000''), (''empty'', [])]"

definition env_example :: codec_env where
  "env_example = \<lparr>find_encoder = (\<lambda>names. if ''libx264'' \<in> set names then 27 else 0),
     get_sample_fmt = (\<lambda>s. if s = ''s16'' then 1 else -1), get_channel_layout = (\<lambda>s. if s = ''stereo'' then 3 else 0)\<rparr>"

definition conf_result :: "rtspconf" where
  "conf_result = (case rtspconf_parse env_example conf_example of Some (_, c, _) \<Rightarrow> c | None \<Rightarrow> rtspconf_init)"

lemma conf_example_parse: "\<exists>st'. rtspconf_parse env_example conf_example = Some (0, conf_result, st')"
proof -
  have "(case rtspconf_parse env_example conf_example of Some (r, _, _) \<Rightarrow> r = 0 | None \<Rightarrow> False)" by code_simp
  then show ?thesis by (auto simp: conf_result_def split: option.splits prod.splits)
qed

theorem rtspconf_parse_ranges_witness:
  "(case rtspconf_parse env_example conf_example of Some (r, c, _) \<Rightarrow> r = 0 \<and> rc_serverport c = 8554 \<and> server_ok c \<and> rates_ok c | None \<Rightarrow> False)"
proof -
  obtain st' where p: "rtspconf_parse env_example conf_example = Some (0, conf_result, st')" using conf_example_parse ..
  have "rc_serverport conf_result = 8554" by code_simp
  with rtspconf_parse_ranges [OF p] p show ?thesis by simp
qed

theorem rtspconf_video_options_witness:
  "(case rtspconf_parse env_example conf_example of Some (r, c, _) \<Rightarrow> r = 0 \<and> rc_vso c = [''b'', ''3000'', ''refs'', ''1''] | None \<Rightarrow> False)"
proof -
  obtain st' where p: "rtspconf_parse env_example conf_example = Some (0, conf_result, st')" using conf_example_parse ..
  have ok: "conf_ok conf_example"
    unfolding conf_example_def by (simp, intro conf_ok_ops(5) conf_ok_ops conf_ok_empty)
  have s: "conf_short conf_example" by code_simp
  have f: "smap_find (ga_vars conf_example) ''video-specific'' =
      Some \<lparr>cv_data = [], cv_mapdata = [(''b'', ''3000''), (''empty'', []), (''refs'', ''1'')], cv_mi = None\<rparr>"
    by code_simp
  from rtspconf_video_options [OF ok s f, of env_example] p show ?thesis by simp
qed
end
