(* ===== verification/RtspSession.thy ===== *)
theory RtspSession
  imports RtspRequest RtspConf EncoderCore
begin

text \<open>
  The sessions of the RTSP server: \<open>module/server-ffmpeg/rtspserver.cpp\<close> (the handlers of the RTSP
  methods, the UDP ports and the hole punching) and \<open>module/server-ffmpeg/server-ffmpeg.cpp\<close> (the
  clients that get packets). A handler that uses a NULL pointer is undefined (\<open>None\<close>); one that ends
  the program gives \<open>Inl\<close> its exit code. What FFmpeg and the sockets answer is an argument.
\<close>

section \<open>State\<close>

datatype rtsp_state = STATE_IDLE | STATE_READY | STATE_PLAYING | STATE_PAUSE | STATE_TEARDOWN

datatype rtsp_status = STATUS_OK | STATUS_METHOD | STATUS_SESSION | STATUS_STATE | STATUS_AGGREGATE
  | STATUS_TRANSPORT | STATUS_INTERNAL | STATUS_SERVICE | STATUS_VERSION

text \<open>Whether the pointers of a stream are set; ports are kept in network order.\<close>

record rtsp_ctx =
  cx_state :: rtsp_state
  cx_seq :: int
  cx_session :: "string option"
  lower_transport :: "lower_transport list"
  fmtctx :: "bool list"
  stream :: "bool list"
  encoder :: "bool list"
  streamCount :: int
  rtpSocket :: "int list"
  rtpLocalPort :: "u16 list"
  rtpPeerPort :: "u16 list"
  rtpPortChecked :: "bool list"
  cx_client :: u32
  cx_out :: "string list"

definition rtsp_ctx_zero :: "u32 \<Rightarrow> rtsp_ctx" where
  "rtsp_ctx_zero addr = \<lparr>cx_state = STATE_IDLE, cx_seq = 0, cx_session = None, lower_transport = replicate 8 LT_UDP,
     fmtctx = replicate 8 False, stream = replicate 8 False, encoder = replicate 8 False, streamCount = 0,
     rtpSocket = replicate 16 0, rtpLocalPort = replicate 16 0, rtpPeerPort = replicate 16 0,
     rtpPortChecked = replicate 16 False, cx_client = addr, cx_out = []\<rparr>"

record rtsp_env =
  url_path :: "string \<Rightarrow> string"
  session_rand :: "nat \<times> nat"
  getpeername_ok :: bool
  getsockname_ok :: bool
  rtp_open_internal :: "nat \<Rightarrow> (int \<times> u16) option"
  av_format_ok :: bool
  av_alloc_ok :: bool
  av_dynbuf_ok :: bool
  av_stream_ok :: bool
  av_encoder_ok :: bool
  av_header_ok :: bool
  codec_id_of :: "nat \<Rightarrow> nat"
  source_channels :: nat
  sdp_content :: string
  gmt_date :: string

section \<open>Replies\<close>

definition rtsp_printf :: "string \<Rightarrow> rtsp_ctx \<Rightarrow> rtsp_ctx" where
  "rtsp_printf s c = c\<lparr>cx_out := cx_out c @ [s]\<rparr>"

fun status_line :: "rtsp_status \<Rightarrow> int \<times> string" where
  "status_line STATUS_OK = (200, ''OK'')"
| "status_line STATUS_METHOD = (405, ''Method Not Allowed'')"
| "status_line STATUS_SESSION = (454, ''Session Not Found'')"
| "status_line STATUS_STATE = (455, ''Method Not Valid in This State'')"
| "status_line STATUS_AGGREGATE = (459, ''Aggregate operation not allowed'')"
| "status_line STATUS_TRANSPORT = (461, ''Unsupported transport'')"
| "status_line STATUS_INTERNAL = (500, ''Internal Server Error'')"
| "status_line STATUS_SERVICE = (503, ''Service Unavailable'')"
| "status_line STATUS_VERSION = (505, ''RTSP Version not supported'')"

definition status_text :: "rtsp_status \<Rightarrow> string" where
  "status_text s = (case status_line s of (n, t) \<Rightarrow> ''RTSP/1.0 '' @ int_str n @ '' '' @ t @ crlf)"

definition rtsp_reply_header :: "rtsp_env \<Rightarrow> rtsp_ctx \<Rightarrow> rtsp_status \<Rightarrow> rtsp_ctx" where
  "rtsp_reply_header e c s =
     rtsp_printf (''Date: '' @ gmt_date e @ '' GMT'' @ crlf)
       (rtsp_printf (''CSeq: '' @ int_str (cx_seq c) @ crlf) (rtsp_printf (status_text s) c))"

definition rtsp_reply_error :: "rtsp_env \<Rightarrow> rtsp_ctx \<Rightarrow> rtsp_status \<Rightarrow> rtsp_ctx" where
  "rtsp_reply_error e c s = rtsp_printf crlf (rtsp_reply_header e c s)"

text \<open>The end of a reply that names the session: \<open>printf\<close> of a NULL session does not occur.\<close>

definition reply_session :: "rtsp_ctx \<Rightarrow> string" where
  "reply_session c = ''Session: '' @ (case cx_session c of None \<Rightarrow> [] | Some s \<Rightarrow> s) @ crlf"

section \<open>UDP ports\<close>

definition rtp_open_ports :: "rtsp_env \<Rightarrow> rtsp_ctx \<Rightarrow> int \<Rightarrow> int \<times> rtsp_ctx" where
  "rtp_open_ports e c streamid =
     (if streamid < 0 then (-1, c)
      else let c1 = (if streamid + 1 > streamCount c then c\<lparr>streamCount := streamid + 1\<rparr> else c);
               s = nat (streamid * 2)
           in if rtpSocket c1 ! s \<noteq> 0 then (0, c1)
              else case rtp_open_internal e s of
                None \<Rightarrow> (-1, c1\<lparr>rtpSocket := (rtpSocket c1)[s := -1]\<rparr>)
              | Some (fd, port) \<Rightarrow>
                  let c2 = c1\<lparr>rtpSocket := (rtpSocket c1)[s := fd], rtpLocalPort := (rtpLocalPort c1)[s := port]\<rparr>
                  in case rtp_open_internal e (s + 1) of
                       None \<Rightarrow> (-1, c2\<lparr>rtpSocket := (rtpSocket c2)[s + 1 := -1]\<rparr>)
                     | Some (fd, port) \<Rightarrow>
                         (0, c2\<lparr>rtpSocket := (rtpSocket c2)[s + 1 := fd], rtpLocalPort := (rtpLocalPort c2)[s + 1 := port]\<rparr>))"

definition rtp_close_ports :: "rtsp_ctx \<Rightarrow> nat \<Rightarrow> rtsp_ctx" where
  "rtp_close_ports c streamid = c\<lparr>rtpSocket := (rtpSocket c)[streamid * 2 := 0, streamid * 2 + 1 := 0]\<rparr>"

text \<open>A datagram at socket \<open>i\<close>: the first one from the client's address fixes the port.\<close>

definition rtp_check_peer :: "nat \<Rightarrow> u32 \<times> u16 \<Rightarrow> rtsp_ctx \<Rightarrow> rtsp_ctx" where
  "rtp_check_peer i from c =
     (if rtpPortChecked c ! i then c
      else if fst from \<noteq> cx_client c then c
      else c\<lparr>rtpPeerPort := (rtpPeerPort c)[i := snd from], rtpPortChecked := (rtpPortChecked c)[i := True]\<rparr>)"

section \<open>Methods without a change of state\<close>

definition rtsp_cmd_describe :: "rtsp_env \<Rightarrow> rtspconf \<Rightarrow> rtsp_ctx \<Rightarrow> string \<Rightarrow> rtsp_ctx" where
  "rtsp_cmd_describe e conf c url =
     (if url_path e url \<noteq> rc_object conf then rtsp_reply_error e c STATUS_SERVICE
      else rtsp_printf (sdp_content e) (rtsp_printf crlf
        (rtsp_printf (''Content-Length: '' @ int_str (int (length (sdp_content e))) @ crlf)
        (rtsp_printf (''Content-Type: application/sdp'' @ crlf)
        (rtsp_printf (''Content-Base: '' @ url @ ''/'' @ crlf) (rtsp_reply_header e c STATUS_OK))))))"

definition rtsp_cmd_options :: "rtsp_ctx \<Rightarrow> rtsp_ctx" where
  "rtsp_cmd_options c =
     rtsp_printf crlf (rtsp_printf (''Public: OPTIONS, DESCRIBE, SETUP, TEARDOWN, PLAY'' @ crlf)
       (rtsp_printf (''CSeq: '' @ int_str (cx_seq c) @ crlf) (rtsp_printf (status_text STATUS_OK) c)))"

section \<open>SETUP\<close>

definition find_transport :: "rtsp_header \<Rightarrow> lower_transport \<Rightarrow> transport_field option" where
  "find_transport h lt = find (\<lambda>th. th_lower th = lt) (h_transports h)"

text \<open>The id of a codec; the codec is a NULL pointer when none is configured.\<close>

definition codec_id :: "rtsp_env \<Rightarrow> nat \<Rightarrow> nat option" where
  "codec_id e codec = (if codec = 0 then None else Some (codec_id_of e codec))"

definition rtp_new_av_stream :: "rtsp_env \<Rightarrow> rtspconf \<Rightarrow> rtsp_ctx \<Rightarrow> nat \<Rightarrow> nat \<Rightarrow> (int \<times> rtsp_ctx) option" where
  "rtp_new_av_stream e conf c streamid codecid =
     (if streamid > 2 then Some (-1, c)
      else do {
        vid \<leftarrow> codec_id e (video_encoder_codec conf);
        known \<leftarrow> (if codecid = vid then Some True else do { aid \<leftarrow> codec_id e (audio_encoder_codec conf); Some (codecid = aid) });
        (if \<not> known \<or> fmtctx c ! streamid \<or> \<not> av_format_ok e \<or> \<not> av_alloc_ok e \<or> \<not> av_dynbuf_ok e then Some (-1, c)
         else let (r, c1) = (if lower_transport c ! streamid = LT_UDP then rtp_open_ports e c (int streamid) else (0, c))
              in if r < 0 \<or> \<not> av_stream_ok e \<or> \<not> av_encoder_ok e then Some (-1, c1)
                 else let c2 = c1\<lparr>encoder := (encoder c1)[streamid := True], stream := (stream c1)[streamid := True],
                                 fmtctx := (fmtctx c1)[streamid := True]\<rparr>
                      in Some (if av_header_ok e then 0 else -1, c2)) })"

text \<open>The stream that a path names. A path that is the object itself is compared from behind its
  end, which is undefined.\<close>

definition stream_name :: "nat \<Rightarrow> string" where
  "stream_name i = ''streamid='' @ int_str (int i)"

definition setup_stream :: "rtspconf \<Rightarrow> string \<Rightarrow> (rtsp_status + nat) option" where
  "setup_stream conf path =
     (let baselen = length (rc_object conf)
      in if take baselen path \<noteq> rc_object conf then Some (Inl STATUS_AGGREGATE)
         else if length path = baselen then None
         else case find (\<lambda>i. drop (baselen + 1) path = stream_name i) [0, 1, 2] of
                None \<Rightarrow> Some (Inl STATUS_SERVICE)
              | Some i \<Rightarrow> Some (Inr i))"

definition setup_error :: "rtsp_env \<Rightarrow> rtsp_ctx \<Rightarrow> nat \<Rightarrow> rtsp_status \<Rightarrow> rtsp_ctx" where
  "setup_error e c streamid s =
     rtsp_reply_error e (c\<lparr>cx_session := None, encoder := (encoder c)[streamid := False],
       stream := (stream c)[streamid := False], fmtctx := (fmtctx c)[streamid := False]\<rparr>) s"

text \<open>The session of a request, made up when neither side has one.\<close>

definition setup_session :: "rtsp_env \<Rightarrow> rtsp_ctx \<Rightarrow> rtsp_header \<Rightarrow> rtsp_ctx \<times> string" where
  "setup_session e c h =
     (if cx_session c = None \<and> h_session h = [] then
        let s = show_04x (fst (session_rand e) mod 65535) @ show_04x (snd (session_rand e) mod 65535)
        in (c\<lparr>cx_session := Some s\<rparr>, s)
      else (c, h_session h))"

definition setup_reply :: "rtsp_env \<Rightarrow> rtsp_ctx \<Rightarrow> nat \<Rightarrow> transport_field \<Rightarrow> rtsp_ctx" where
  "setup_reply e c streamid th =
     (let c1 = rtsp_printf (reply_session c) (rtsp_reply_header e (c\<lparr>cx_state := STATE_READY\<rparr>) STATUS_OK);
          c2 = (case th_lower th of
             LT_UDP \<Rightarrow>
               rtsp_printf (''Transport: RTP/AVP/UDP;unicast;client_port='' @ int_str (client_port_min th) @ ''-'' @
                   int_str (client_port_max th) @ '';server_port='' @ int_str (uint (rtpLocalPort c1 ! (streamid * 2))) @ ''-'' @
                   int_str (uint (rtpLocalPort c1 ! (streamid * 2 + 1))) @ crlf)
                 (c1\<lparr>rtpPeerPort := (rtpPeerPort c1)[streamid * 2 := htons (to_u16 (client_port_min th)),
                    streamid * 2 + 1 := htons (to_u16 (client_port_max th))]\<rparr>)
           | LT_TCP \<Rightarrow>
               rtsp_printf (''Transport: RTP/AVP/TCP;unicast;interleaved='' @ int_str (int (streamid * 2)) @ ''-'' @
                 int_str (int (streamid * 2 + 1)) @ crlf) c1
           | LT_OTHER n \<Rightarrow> c1)
      in rtsp_printf crlf c2)"

definition rtsp_cmd_setup :: "rtsp_env \<Rightarrow> rtspconf \<Rightarrow> rtsp_ctx \<Rightarrow> string \<Rightarrow> rtsp_header \<Rightarrow> rtsp_ctx option" where
  "rtsp_cmd_setup e conf c url h = do {
     target \<leftarrow> setup_stream conf (url_path e url);
     (case target of
        Inl s \<Rightarrow> Some (rtsp_reply_error e c s)
      | Inr i \<Rightarrow>
          if cx_state c \<noteq> STATE_IDLE \<and> cx_state c \<noteq> STATE_READY then Some (rtsp_reply_error e c STATUS_STATE)
          else let (c1, hs) = setup_session e c h;
                   th = (case find_transport h LT_UDP of None \<Rightarrow> find_transport h LT_TCP | Some t \<Rightarrow> Some t)
               in if cx_session c1 \<noteq> Some hs then Some (setup_error e c1 i STATUS_SESSION)
                  else (case th of
                     None \<Rightarrow> Some (setup_error e c1 i STATUS_TRANSPORT)
                   | Some t \<Rightarrow>
                       if \<not> getpeername_ok e \<or> \<not> getsockname_ok e then Some (setup_error e c1 i STATUS_INTERNAL)
                       else do {
                         codec \<leftarrow> codec_id e (if i = source_channels e then audio_encoder_codec conf else video_encoder_codec conf);
                         (r, c2) \<leftarrow> rtp_new_av_stream e conf (c1\<lparr>lower_transport := (lower_transport c1)[i := th_lower t]\<rparr>) i codec;
                         Some (if r < 0 then setup_error e c2 i STATUS_TRANSPORT else setup_reply e c2 i t) })) }"

section \<open>The clients that get packets\<close>

record 'w ff_server =
  ff_enc :: "'w encoder_state"
  ff_world :: 'w
  client_context :: "(nat, nat) smap"

definition ff_server_register_client :: "nat \<Rightarrow> 'w ff_server \<Rightarrow> int + 'w ff_server" where
  "ff_server_register_client k v = (case encoder_register_client k (ff_enc v) (ff_world v) of
       Inl x \<Rightarrow> Inl x
     | Inr (s, w) \<Rightarrow> Inr (v\<lparr>ff_enc := s, ff_world := w, client_context := smap_put (client_context v) k k\<rparr>))"

definition ff_server_unregister_client :: "nat \<Rightarrow> 'w ff_server \<Rightarrow> (int \<times> 'w ff_server) option" where
  "ff_server_unregister_client k v = do {
     (r, s, w) \<leftarrow> encoder_unregister_client k (ff_enc v) (ff_world v);
     (let v1 = v\<lparr>ff_enc := s, ff_world := w\<rparr>
      in Some (if r < 0 then (-1, v1) else (0, v1\<lparr>client_context := smap_erase (client_context v1) k\<rparr>))) }"

section \<open>PLAY, PAUSE and TEARDOWN\<close>

text \<open>\<open>strcmp\<close> of the session of the context, which may be a NULL pointer.\<close>

definition session_matches :: "rtsp_ctx \<Rightarrow> rtsp_header \<Rightarrow> bool option" where
  "session_matches c h = (case cx_session c of None \<Rightarrow> None | Some s \<Rightarrow> Some (s = h_session h))"

definition path_matches :: "rtspconf \<Rightarrow> string \<Rightarrow> bool" where
  "path_matches conf path \<longleftrightarrow> take (length (rc_object conf)) path = rc_object conf"

definition reply_ok :: "rtsp_env \<Rightarrow> rtsp_ctx \<Rightarrow> rtsp_ctx" where
  "reply_ok e c = rtsp_printf crlf (rtsp_printf (reply_session c) (rtsp_reply_header e c STATUS_OK))"

definition rtsp_cmd_play :: "rtsp_env \<Rightarrow> rtspconf \<Rightarrow> nat \<Rightarrow> rtsp_ctx \<Rightarrow> 'w ff_server \<Rightarrow> string \<Rightarrow> rtsp_header \<Rightarrow>
    (int + rtsp_ctx \<times> 'w ff_server) option" where
  "rtsp_cmd_play e conf k c v url h =
     (if \<not> path_matches conf (url_path e url) then Some (Inr (rtsp_reply_error e c STATUS_SESSION, v))
      else do {
        same \<leftarrow> session_matches c h;
        Some (if \<not> same then Inr (rtsp_reply_error e c STATUS_SESSION, v)
          else if cx_state c \<noteq> STATE_READY \<and> cx_state c \<noteq> STATE_PAUSE then Inr (rtsp_reply_error e c STATUS_STATE, v)
          else case ff_server_register_client k v of
                 Inl x \<Rightarrow> Inl x
               | Inr v' \<Rightarrow> Inr (reply_ok e (c\<lparr>cx_state := STATE_PLAYING\<rparr>), v')) })"

definition rtsp_cmd_pause :: "rtsp_env \<Rightarrow> rtspconf \<Rightarrow> rtsp_ctx \<Rightarrow> string \<Rightarrow> rtsp_header \<Rightarrow> rtsp_ctx option" where
  "rtsp_cmd_pause e conf c url h =
     (if \<not> path_matches conf (url_path e url) then Some (rtsp_reply_error e c STATUS_SESSION)
      else do {
        same \<leftarrow> session_matches c h;
        Some (if \<not> same then rtsp_reply_error e c STATUS_SESSION
          else if cx_state c \<noteq> STATE_PLAYING then rtsp_reply_error e c STATUS_STATE
          else reply_ok e (c\<lparr>cx_state := STATE_PAUSE\<rparr>)) })"

definition rtsp_cmd_teardown :: "rtsp_env \<Rightarrow> rtspconf \<Rightarrow> rtsp_ctx \<Rightarrow> string \<Rightarrow> rtsp_header \<Rightarrow> int \<Rightarrow> rtsp_ctx option" where
  "rtsp_cmd_teardown e conf c url h bruteforce =
     (if \<not> path_matches conf (url_path e url) then Some (rtsp_reply_error e c STATUS_SESSION)
      else do {
        same \<leftarrow> session_matches c h;
        Some (if \<not> same then rtsp_reply_error e c STATUS_SESSION
          else let c1 = c\<lparr>cx_state := STATE_TEARDOWN\<rparr> in if bruteforce \<noteq> 0 then c1 else reply_ok e c1) })"

section \<open>A request and the end of a connection\<close>

definition with_server :: "'w ff_server \<Rightarrow> rtsp_ctx option \<Rightarrow> (int + rtsp_ctx \<times> 'w ff_server) option" where
  "with_server v r = map_option (\<lambda>c. Inr (c, v)) r"

definition rtsp_command :: "rtsp_env \<Rightarrow> rtspconf \<Rightarrow> nat \<Rightarrow> string \<Rightarrow> string \<Rightarrow> rtsp_header \<Rightarrow> rtsp_ctx \<Rightarrow> 'w ff_server \<Rightarrow>
    (int + rtsp_ctx \<times> 'w ff_server) option" where
  "rtsp_command e conf k cmd url h c0 v =
     (let c = c0\<lparr>cx_seq := h_seq h\<rparr>
      in if cmd = ''DESCRIBE'' then with_server v (Some (rtsp_cmd_describe e conf c url))
         else if cmd = ''OPTIONS'' then with_server v (Some (rtsp_cmd_options c))
         else if cmd = ''SETUP'' then with_server v (rtsp_cmd_setup e conf c url h)
         else if cmd = ''PLAY'' then rtsp_cmd_play e conf k c v url h
         else if cmd = ''PAUSE'' then with_server v (rtsp_cmd_pause e conf c url h)
         else if cmd = ''TEARDOWN'' then with_server v (rtsp_cmd_teardown e conf c url h 1)
         else with_server v (Some (rtsp_reply_error e c STATUS_METHOD)))"

text \<open>The end of the connection's thread: the client is no longer served, and its streams and ports
  are closed.\<close>

definition per_client_deinit :: "nat \<Rightarrow> rtsp_ctx \<Rightarrow> rtsp_ctx" where
  "per_client_deinit channels c =
     foldl (\<lambda>c i. let c1 = c\<lparr>fmtctx := (fmtctx c)[i := False], stream := (stream c)[i := False], encoder := (encoder c)[i := False]\<rparr>
               in if lower_transport c1 ! i = LT_UDP then rtp_close_ports c1 i else c1) c [0..<channels + 1]"

definition rtsp_quit :: "nat \<Rightarrow> nat \<Rightarrow> rtsp_ctx \<Rightarrow> 'w ff_server \<Rightarrow> (rtsp_ctx \<times> 'w ff_server) option" where
  "rtsp_quit channels k c v = do {
     (r, v') \<leftarrow> ff_server_unregister_client k v;
     Some (per_client_deinit channels (c\<lparr>cx_state := STATE_TEARDOWN\<rparr>), v') }"

section \<open>What the handlers keep\<close>

lemma printf_sel [simp]:
  "cx_state (rtsp_printf s c) = cx_state c" "cx_session (rtsp_printf s c) = cx_session c" "fmtctx (rtsp_printf s c) = fmtctx c"
  "stream (rtsp_printf s c) = stream c" "encoder (rtsp_printf s c) = encoder c" "lower_transport (rtsp_printf s c) = lower_transport c"
  "cx_seq (rtsp_printf s c) = cx_seq c" "cx_out (rtsp_printf s c) = cx_out c @ [s]" "rtpLocalPort (rtsp_printf s c) = rtpLocalPort c"
  by (simp_all add: rtsp_printf_def)

lemma reply_header_sel [simp]:
  "cx_state (rtsp_reply_header e c s) = cx_state c" "cx_session (rtsp_reply_header e c s) = cx_session c"
  "fmtctx (rtsp_reply_header e c s) = fmtctx c" "stream (rtsp_reply_header e c s) = stream c"
  "encoder (rtsp_reply_header e c s) = encoder c" "lower_transport (rtsp_reply_header e c s) = lower_transport c"
  "rtpLocalPort (rtsp_reply_header e c s) = rtpLocalPort c"
  by (simp_all add: rtsp_reply_header_def)

lemma reply_error_sel [simp]:
  "cx_state (rtsp_reply_error e c s) = cx_state c" "cx_session (rtsp_reply_error e c s) = cx_session c"
  "fmtctx (rtsp_reply_error e c s) = fmtctx c" "stream (rtsp_reply_error e c s) = stream c"
  "encoder (rtsp_reply_error e c s) = encoder c" "lower_transport (rtsp_reply_error e c s) = lower_transport c"
  by (simp_all add: rtsp_reply_error_def)

lemma reply_ok_sel [simp]:
  "cx_state (reply_ok e c) = cx_state c" "cx_session (reply_ok e c) = cx_session c"
  "fmtctx (reply_ok e c) = fmtctx c" "stream (reply_ok e c) = stream c" "encoder (reply_ok e c) = encoder c"
  by (simp_all add: reply_ok_def)

lemma setup_error_sel [simp]:
  "cx_state (setup_error e c i s) = cx_state c" "cx_session (setup_error e c i s) = None"
  "fmtctx (setup_error e c i s) = (fmtctx c)[i := False]" "stream (setup_error e c i s) = (stream c)[i := False]"
  "encoder (setup_error e c i s) = (encoder c)[i := False]"
  by (simp_all add: setup_error_def)

lemma setup_reply_sel [simp]:
  "cx_state (setup_reply e c i t) = STATE_READY" "cx_session (setup_reply e c i t) = cx_session c"
  "fmtctx (setup_reply e c i t) = fmtctx c" "stream (setup_reply e c i t) = stream c"
  "encoder (setup_reply e c i t) = encoder c" "lower_transport (setup_reply e c i t) = lower_transport c"
  by (simp_all add: setup_reply_def Let_def split: lower_transport.split)

text \<open>The invariant of a session: the three pointers of a stream are set together; a session id
  implies a stream that is set up; nothing is set up before \<open>READY\<close>; a session id exists while
  the client plays or pauses.\<close>

definition served :: "rtsp_ctx \<Rightarrow> bool" where
  "served c \<longleftrightarrow> cx_state c = STATE_PLAYING \<or> cx_state c = STATE_PAUSE"

definition sess_ok :: "rtsp_ctx \<Rightarrow> bool" where
  "sess_ok c \<longleftrightarrow> length (fmtctx c) = 8 \<and> stream c = fmtctx c \<and> encoder c = fmtctx c \<and>
     (cx_session c \<noteq> None \<longrightarrow> (\<exists>i<3. fmtctx c ! i)) \<and>
     (cx_state c = STATE_IDLE \<longrightarrow> cx_session c = None \<and> fmtctx c = replicate 8 False) \<and>
     (served c \<longrightarrow> cx_session c \<noteq> None)"

lemma sess_ok_cong:
  "cx_state c' = cx_state c \<Longrightarrow> cx_session c' = cx_session c \<Longrightarrow> fmtctx c' = fmtctx c \<Longrightarrow> stream c' = stream c \<Longrightarrow> encoder c' = encoder c \<Longrightarrow>
   sess_ok c' = sess_ok c"
  by (simp add: sess_ok_def served_def)

lemma sess_ok_zero: "sess_ok (rtsp_ctx_zero addr)"
  by (simp add: sess_ok_def served_def rtsp_ctx_zero_def)

lemma open_ports_sel [simp]:
  "cx_state (snd (rtp_open_ports e c i)) = cx_state c" "cx_session (snd (rtp_open_ports e c i)) = cx_session c"
  "fmtctx (snd (rtp_open_ports e c i)) = fmtctx c" "stream (snd (rtp_open_ports e c i)) = stream c"
  "encoder (snd (rtp_open_ports e c i)) = encoder c" "cx_out (snd (rtp_open_ports e c i)) = cx_out c" "cx_seq (snd (rtp_open_ports e c i)) = cx_seq c"
  by (simp_all add: rtp_open_ports_def Let_def split: option.split)

lemma setup_stream_index: "setup_stream conf path = Some (Inr i) \<Longrightarrow> i < 3"
  by (auto simp: setup_stream_def Let_def split: if_splits option.splits)

lemma new_av_stream_cases:
  assumes "rtp_new_av_stream e conf c i codec = Some (r, c')"
  shows "cx_state c' = cx_state c \<and> cx_session c' = cx_session c \<and> cx_out c' = cx_out c \<and> cx_seq c' = cx_seq c \<and>
    (\<not> 0 \<le> r \<and> fmtctx c' = fmtctx c \<and> stream c' = stream c \<and> encoder c' = encoder c \<or>
     fmtctx c' = (fmtctx c)[i := True] \<and> stream c' = (stream c)[i := True] \<and> encoder c' = (encoder c)[i := True])"
proof -
  obtain r1 c1 where p: "(if lower_transport c ! i = LT_UDP then rtp_open_ports e c (int i) else (0, c)) = (r1, c1)" by fastforce
  have "c1 = snd (if lower_transport c ! i = LT_UDP then rtp_open_ports e c (int i) else (0, c))" unfolding p by simp
  then have c1: "cx_state c1 = cx_state c" "cx_session c1 = cx_session c" "fmtctx c1 = fmtctx c" "stream c1 = stream c" "encoder c1 = encoder c"
    "cx_out c1 = cx_out c" "cx_seq c1 = cx_seq c"
    by simp_all
  show ?thesis
  proof (cases "i > 2")
    case True
    then show ?thesis using assms by (simp add: rtp_new_av_stream_def)
  next
    case False
    let ?c2 = "c1\<lparr>encoder := (encoder c1)[i := True], stream := (stream c1)[i := True], fmtctx := (fmtctx c1)[i := True]\<rparr>"
    obtain known where k: "(if \<not> known \<or> fmtctx c ! i \<or> \<not> av_format_ok e \<or> \<not> av_alloc_ok e \<or> \<not> av_dynbuf_ok e then Some (-1, c)
        else if r1 < 0 \<or> \<not> av_stream_ok e \<or> \<not> av_encoder_ok e then Some (-1, c1)
        else Some (if av_header_ok e then 0 else -1, ?c2)) = Some (r, c')"
      using assms unfolding rtp_new_av_stream_def if_not_P [OF False] p prod.case Let_def bind_Some_iff by blast
    consider "r = -1 \<and> c' = c" | "r = -1 \<and> c' = c1" | "c' = ?c2" using k by (auto split: if_splits)
    then show ?thesis by cases (simp_all add: c1)
  qed
qed

lemma replicate_update_False [simp]: "(replicate n False)[i := False] = replicate n False"
proof (cases "i < n")
  case True
  then show ?thesis using list_update_id [of "replicate n False" i] by simp
qed (simp add: list_update_beyond)

text \<open>A handler that fails with \<open>error_setup\<close>, and one that succeeds, for a context in which the
  stream has been set up or not.\<close>

definition setup_pre :: "rtsp_ctx \<Rightarrow> nat \<Rightarrow> rtsp_ctx \<Rightarrow> bool" where
  "setup_pre c i c1 \<longleftrightarrow> cx_state c1 = cx_state c \<and> (fmtctx c1 = fmtctx c \<and> stream c1 = stream c \<and> encoder c1 = encoder c \<or>
     fmtctx c1 = (fmtctx c)[i := True] \<and> stream c1 = (stream c)[i := True] \<and> encoder c1 = (encoder c)[i := True])"

lemma setup_error_ok:
  assumes "sess_ok c" and "\<not> served c" and "setup_pre c i c1"
  shows "sess_ok (setup_error e c1 i s)"
  using assms by (auto simp: sess_ok_def served_def setup_pre_def)

lemma setup_cases:
  assumes "rtsp_cmd_setup e conf c url h = Some c'"
  obtains (refused) st where "c' = rtsp_reply_error e c st"
  | (failed) i st c1 hs where "cx_state c = STATE_IDLE \<or> cx_state c = STATE_READY" "setup_session e c h = (c1, hs)" "i < 3" "c' = setup_error e c1 i st"
  | (stream) i t codec r c1 hs c2 where "cx_state c = STATE_IDLE \<or> cx_state c = STATE_READY" "setup_session e c h = (c1, hs)" "i < 3"
      "rtp_new_av_stream e conf (c1\<lparr>lower_transport := (lower_transport c1)[i := th_lower t]\<rparr>) i codec = Some (r, c2)"
      "c' = (if r < 0 then setup_error e c2 i STATUS_TRANSPORT else setup_reply e c2 i t)"
proof -
  from assms(1) obtain target where t: "setup_stream conf (url_path e url) = Some target" by (auto simp: rtsp_cmd_setup_def)
  show ?thesis
  proof (cases "(\<exists>s. target = Inl s) \<or> cx_state c \<noteq> STATE_IDLE \<and> cx_state c \<noteq> STATE_READY")
    case True
    then obtain st where "c' = rtsp_reply_error e c st" using assms(1) t by (auto simp: rtsp_cmd_setup_def split: sum.splits)
    then show ?thesis by (rule refused)
  next
    case False
    then obtain i where i: "target = Inr i" "i < 3" and st: "cx_state c = STATE_IDLE \<or> cx_state c = STATE_READY"
      using setup_stream_index t by (cases target) auto
    obtain c1 hs where c1: "setup_session e c h = (c1, hs)" by fastforce
    define th where "th = (case find_transport h LT_UDP of None \<Rightarrow> find_transport h LT_TCP | Some t \<Rightarrow> Some t)"
    note body = assms(1) [unfolded rtsp_cmd_setup_def t bind.simps i sum.case c1 prod.case Let_def, folded th_def]
    show ?thesis
    proof (cases "cx_session c1 \<noteq> Some hs \<or> th = None \<or> \<not> getpeername_ok e \<or> \<not> getsockname_ok e")
      case True
      then obtain x where "c' = setup_error e c1 i x" using body st by (auto split: if_splits option.splits)
      with st c1 i(2) show ?thesis by (rule failed)
    next
      case False
      then obtain t where f: "cx_session c1 = Some hs" "th = Some t" "getpeername_ok e" "getsockname_ok e" by auto
      let ?c = "c1\<lparr>lower_transport := (lower_transport c1)[i := th_lower t]\<rparr>"
      obtain codec r c2 where "rtp_new_av_stream e conf ?c i codec = Some (r, c2)"
        "c' = (if r < 0 then setup_error e c2 i STATUS_TRANSPORT else setup_reply e c2 i t)"
        using body f st by (auto split: if_splits)
      with st c1 i(2) show ?thesis by (rule stream)
    qed
  qed
qed

lemma setup_session_same:
  "setup_session e c h = (c1, hs) \<Longrightarrow> cx_state c1 = cx_state c \<and> fmtctx c1 = fmtctx c \<and> stream c1 = stream c \<and> encoder c1 = encoder c \<and>
     cx_out c1 = cx_out c \<and> cx_seq c1 = cx_seq c"
  by (auto simp: setup_session_def Let_def split: if_splits)

lemma setup_ok:
  assumes "rtsp_cmd_setup e conf c url h = Some c'" and "sess_ok c"
  shows "sess_ok c' \<and> (served c' \<longleftrightarrow> served c) \<and> (cx_state c' = STATE_TEARDOWN \<longrightarrow> cx_state c = STATE_TEARDOWN)"
  using assms(1)
proof (cases rule: setup_cases)
  case (refused st)
  moreover have "sess_ok (rtsp_reply_error e c st) = sess_ok c" by (rule sess_ok_cong) simp_all
  ultimately show ?thesis using assms(2) by (simp add: served_def)
next
  case (failed i st c1 hs)
  then have ns: "\<not> served c" "setup_pre c i c1" using setup_session_same by (auto simp: served_def setup_pre_def)
  with setup_error_ok [OF assms(2) ns] failed show ?thesis by (auto simp: setup_pre_def served_def)
next
  case (stream i t codec r c1 hs c2)
  note same = setup_session_same [OF stream(2)]
  have ns: "\<not> served c" using stream(1) by (auto simp: served_def)
  have n: "setup_pre c i c2" "\<not> r < 0 \<longrightarrow> fmtctx c2 = (fmtctx c)[i := True] \<and> stream c2 = (stream c)[i := True] \<and> encoder c2 = (encoder c)[i := True]"
    using new_av_stream_cases [OF stream(4)] same by (auto simp: setup_pre_def)
  show ?thesis
  proof (cases "r < 0")
    case True
    with setup_error_ok [OF assms(2) ns n(1)] stream n(1) show ?thesis by (auto simp: setup_pre_def served_def)
  next
    case ok: False
    have "length (fmtctx c) = 8" "stream c = fmtctx c" "encoder c = fmtctx c" using assms(2) by (simp_all add: sess_ok_def)
    then have "sess_ok (setup_reply e c2 i t)" using n(2) ok stream(3) by (auto simp: sess_ok_def served_def intro!: exI [of _ i])
    then show ?thesis using stream(1,5) ok ns by (auto simp: served_def)
  qed
qed

end
