(* ===== verification/RtspIo.thy ===== *)
theory RtspIo
  imports GaPrelude
begin

text \<open>
  The byte level of the RTSP server, \<open>module/server-ffmpeg/rtspserver.cpp\<close>: writing media
  packets interleaved into the RTSP connection or as datagrams, and reading the connection, which
  mixes text lines with interleaved binary frames. A read delivers what one segment of the network
  brings, however the sender's data was cut into segments.
\<close>

section \<open>Writing packets\<close>

text \<open>The connection: what each call of \<open>write\<close> has sent, and the mutex of the writers. The
  value that the \<open>n\<close>th call returns is given by the network.\<close>

record rtsp_writer =
  wr_sent :: "byte list list"
  wr_calls :: nat
  wr_locked :: bool

definition rtsp_write :: "(nat \<Rightarrow> byte list \<Rightarrow> int) \<Rightarrow> byte list \<Rightarrow> rtsp_writer \<Rightarrow> int \<times> rtsp_writer" where
  "rtsp_write wres buf w =
     (let r = wres (wr_calls w) buf
      in (r, w\<lparr>wr_sent := wr_sent w @ [take (nat r) buf], wr_calls := Suc (wr_calls w)\<rparr>))"

text \<open>Locking a mutex that the thread holds already does not return.\<close>

definition writer_lock :: "rtsp_writer \<Rightarrow> rtsp_writer option" where
  "writer_lock w = (if wr_locked w then None else Some (w\<lparr>wr_locked := True\<rparr>))"

definition writer_unlock :: "rtsp_writer \<Rightarrow> rtsp_writer" where
  "writer_unlock w = w\<lparr>wr_locked := False\<rparr>"

text \<open>The packet size at an index, four bytes in network order, as an \<open>int\<close>.\<close>

definition bin_pktlen :: "byte list \<Rightarrow> int \<Rightarrow> int option" where
  "bin_pktlen buf i = map_option (\<lambda>b. sint (un32 (rev b))) (c_read buf i 4)"

definition bin_header :: "nat \<Rightarrow> int \<Rightarrow> byte list" where
  "bin_header streamid pktlen = [0x24, word_of_nat (streamid * 2), word_of_int (pktlen div 256), word_of_int pktlen]"

function write_bin_loop :: "(nat \<Rightarrow> byte list \<Rightarrow> int) \<Rightarrow> nat \<Rightarrow> byte list \<Rightarrow> int \<Rightarrow> rtsp_writer \<Rightarrow> (int \<times> rtsp_writer) option" where
  "write_bin_loop wres streamid buf i w =
     (if i < int (length buf) then do {
        pktlen \<leftarrow> bin_pktlen buf i;
        (if pktlen = 0 then write_bin_loop wres streamid buf (i + 4) w
         else do {
           w1 \<leftarrow> writer_lock w;
           (let (r, w2) = rtsp_write wres (bin_header streamid pktlen) w1
            in if r \<noteq> 4 then Some (i, writer_unlock w2)
               else do {
                 payload \<leftarrow> c_read buf (i + 4) pktlen;
                 (let (r, w3) = rtsp_write wres payload w2
                  in if r \<noteq> pktlen then Some (i, w3)
                     else write_bin_loop wres streamid buf (i + (4 + pktlen)) (writer_unlock w3)) }) }) }
      else Some (i, w))"
  by pat_completeness auto
termination
  by (relation "measure (\<lambda>(wres, streamid, buf, i, w). nat (int (length buf) - i))")
    (auto simp: c_read_def split: if_splits)

declare write_bin_loop.simps [simp del]

definition rtsp_write_bindata :: "(nat \<Rightarrow> byte list \<Rightarrow> int) \<Rightarrow> nat \<Rightarrow> byte list \<Rightarrow> rtsp_writer \<Rightarrow> (int \<times> rtsp_writer) option" where
  "rtsp_write_bindata wres streamid buf w =
     (if length buf < 4 then Some (int (length buf), w) else write_bin_loop wres streamid buf 0 w)"

text \<open>The same packets as datagrams to the client's port; the datagrams sent are returned.\<close>

function rtp_bin_loop :: "byte list \<Rightarrow> int \<Rightarrow> (int \<times> byte list list) option" where
  "rtp_bin_loop buf i =
     (if i < int (length buf) then do {
        pktlen \<leftarrow> bin_pktlen buf i;
        (if pktlen = 0 then rtp_bin_loop buf (i + 4)
         else do {
           payload \<leftarrow> c_read buf (i + 4) pktlen;
           (r, sent) \<leftarrow> rtp_bin_loop buf (i + (4 + pktlen));
           Some (r, payload # sent) }) }
      else Some (i, []))"
  by pat_completeness auto
termination
  by (relation "measure (\<lambda>(buf, i). nat (int (length buf) - i))")
    (auto simp: c_read_def split: if_splits)

declare rtp_bin_loop.simps [simp del]

definition rtp_write_bindata :: "int \<Rightarrow> byte list option \<Rightarrow> (int \<times> byte list list) option" where
  "rtp_write_bindata rtpSocket buf =
     (if rtpSocket = 0 then Some (-1, [])
      else case buf of
        None \<Rightarrow> Some (0, [])
      | Some buf \<Rightarrow> if length buf < 4 then Some (int (length buf), []) else rtp_bin_loop buf 0)"

section \<open>Reading the connection\<close>

record rtsp_rb =
  rbuffer :: "byte list option"
  rbufhead :: int
  rbuftail :: int
  rbufsize :: int
  rb_net :: "byte list list"

text \<open>\<open>read\<close> delivers from the first waiting segment; an empty network is an end of file, and a
  read into no space returns 0.\<close>

definition rtsp_read_internal :: "rtsp_rb \<Rightarrow> (int \<times> rtsp_rb) option" where
  "rtsp_read_internal ctx = do {
     b \<leftarrow> rbuffer ctx;
     (let n = nat (rbufsize ctx - rbuftail ctx)
      in case rb_net ctx of
           [] \<Rightarrow> Some (-1, ctx)
         | seg # rest \<Rightarrow>
             (let got = take n seg; left = drop n seg; net = (if left = [] then rest else left # rest)
              in if got = [] then Some (-1, ctx\<lparr>rb_net := net\<rparr>)
                 else do {
                   b' \<leftarrow> c_write b (rbuftail ctx) got;
                   (let tail = rbuftail ctx + int (length got)
                    in Some (tail - rbufhead ctx, ctx\<lparr>rbuffer := Some b', rbuftail := tail, rb_net := net\<rparr>)) })) }"

text \<open>The data in the buffer, and moving it to the front.\<close>

definition rb_data :: "rtsp_rb \<Rightarrow> byte list option" where
  "rb_data ctx = do { b \<leftarrow> rbuffer ctx; c_read b (rbufhead ctx) (rbuftail ctx - rbufhead ctx) }"

definition rb_compact :: "rtsp_rb \<Rightarrow> rtsp_rb option" where
  "rb_compact ctx = do {
     b \<leftarrow> rbuffer ctx;
     d \<leftarrow> rb_data ctx;
     b' \<leftarrow> c_write b 0 d;
     Some (ctx\<lparr>rbuffer := Some b', rbuftail := rbuftail ctx - rbufhead ctx, rbufhead := 0\<rparr>) }"

text \<open>Taking \<open>n\<close> bytes off the head.\<close>

definition rb_advance :: "int \<Rightarrow> rtsp_rb \<Rightarrow> rtsp_rb" where
  "rb_advance n ctx =
     (let h = rbufhead ctx + n
      in if h = rbuftail ctx then ctx\<lparr>rbufhead := 0, rbuftail := 0\<rparr> else ctx\<lparr>rbufhead := h\<rparr>)"

text \<open>The number of bytes up to and including the first newline.\<close>

fun line_length :: "byte list \<Rightarrow> nat option" where
  "line_length [] = None"
| "line_length (c # cs) = (if c = 0x0A then Some 1 else map_option Suc (line_length cs))"

definition net_bytes :: "rtsp_rb \<Rightarrow> nat" where
  "net_bytes ctx = length (concat (rb_net ctx))"

lemma read_internal_cases:
  assumes "rtsp_read_internal ctx = Some (r, ctx')" and "\<not> r < 0"
  obtains b b' seg rest where "rbuffer ctx = Some b" "rb_net ctx = seg # rest"
    "take (nat (rbufsize ctx - rbuftail ctx)) seg \<noteq> []"
    "c_write b (rbuftail ctx) (take (nat (rbufsize ctx - rbuftail ctx)) seg) = Some b'"
    "concat (rb_net ctx') = drop (nat (rbufsize ctx - rbuftail ctx)) seg @ concat rest"
proof -
  let ?n = "nat (rbufsize ctx - rbuftail ctx)"
  from assms obtain b where b: "rbuffer ctx = Some b" by (auto simp: rtsp_read_internal_def)
  from assms b obtain seg rest where net: "rb_net ctx = seg # rest"
    by (cases "rb_net ctx") (auto simp: rtsp_read_internal_def Let_def)
  have ne: "take ?n seg \<noteq> []"
  proof
    assume "take ?n seg = []"
    with assms show False unfolding rtsp_read_internal_def b net Let_def by simp
  qed
  from assms obtain b' where w: "c_write b (rbuftail ctx) (take ?n seg) = Some b'" and
    c: "ctx' = ctx\<lparr>rbuffer := Some b', rbuftail := rbuftail ctx + int (length (take ?n seg)),
          rb_net := (if drop ?n seg = [] then rest else drop ?n seg # rest)\<rparr>"
    unfolding rtsp_read_internal_def b net Let_def bind.simps(2) list.case if_not_P [OF ne] bind_Some_iff
      option.inject prod.inject by blast
  show ?thesis by (rule that [OF b net ne w]) (simp add: c)
qed

lemma read_internal_progress:
  assumes "rtsp_read_internal ctx = Some (r, ctx')" and "\<not> r < 0"
  shows "net_bytes ctx' < net_bytes ctx"
proof (rule read_internal_cases [OF assms])
  fix b b' seg rest
  let ?n = "nat (rbufsize ctx - rbuftail ctx)"
  assume "rb_net ctx = seg # rest" "take ?n seg \<noteq> []" "concat (rb_net ctx') = drop ?n seg @ concat rest"
  moreover from this have "length (drop ?n seg) < length seg" by auto
  ultimately show ?thesis by (simp add: net_bytes_def)
qed

lemma rb_compact_net: "rb_compact ctx = Some c1 \<Longrightarrow> rb_net c1 = rb_net ctx"
  by (auto simp: rb_compact_def)

lemma compact_read_progress:
  "rb_compact ctx = Some c1 \<Longrightarrow> rtsp_read_internal c1 = Some (r, c2) \<Longrightarrow> \<not> r < 0 \<Longrightarrow> net_bytes c2 < net_bytes ctx"
  using read_internal_progress [of c1 r c2] rb_compact_net [of ctx c1] by (simp add: net_bytes_def)

text \<open>A text line, into a buffer of \<open>count\<close> bytes.\<close>

function rtsp_read_text :: "rtsp_rb \<Rightarrow> int \<Rightarrow> (int \<times> byte list \<times> rtsp_rb) option" where
  "rtsp_read_text ctx count = do {
     d \<leftarrow> rb_data ctx;
     (case line_length d of
        Some textlen \<Rightarrow>
          if int textlen > count - 1 then Some (-1, [], ctx)
          else Some (int textlen, take textlen d, rb_advance (int textlen) ctx)
      | None \<Rightarrow>
          if rbuftail ctx - rbufhead ctx = rbufsize ctx then Some (-1, [], ctx)
          else do {
            c1 \<leftarrow> rb_compact ctx;
            (r, c2) \<leftarrow> rtsp_read_internal c1;
            (if r < 0 then Some (-1, [], c2) else rtsp_read_text c2 count) }) }"
  by pat_completeness auto
termination
  by (relation "measure (\<lambda>(ctx, count). net_bytes ctx)") (auto intro: compact_read_progress)

declare rtsp_read_text.simps [simp del]

text \<open>A binary frame: the length is in the third and fourth byte at the head, which are looked at
  again after every read. The frame is copied without regard to the size \<open>count\<close> of the buffer it
  goes to, and a copy beyond it is undefined.\<close>

function read_binary_again :: "rtsp_rb \<Rightarrow> int \<Rightarrow> (int \<times> byte list \<times> rtsp_rb) option" where
  "read_binary_again ctx count = do {
     b \<leftarrow> rbuffer ctx;
     hi \<leftarrow> c_get b (rbufhead ctx + 2);
     lo \<leftarrow> c_get b (rbufhead ctx + 3);
     (let reqlength = uint hi * 256 + uint lo
      in if 4 + reqlength \<le> rbuftail ctx - rbufhead ctx then
           (if 4 + reqlength \<le> count then do {
              f \<leftarrow> c_read b (rbufhead ctx) (4 + reqlength);
              Some (4 + reqlength, f, rb_advance (4 + reqlength) ctx) }
            else None)
         else if rbuftail ctx - rbufhead ctx = rbufsize ctx then Some (-1, [], ctx)
         else do {
           c1 \<leftarrow> rb_compact ctx;
           (r, c2) \<leftarrow> rtsp_read_internal c1;
           (if r < 0 then Some (-1, [], c2) else read_binary_again c2 count) }) }"
  by pat_completeness auto
termination
  by (relation "measure (\<lambda>(ctx, count). net_bytes ctx)") (auto intro: compact_read_progress)

declare read_binary_again.simps [simp del]

definition rtsp_read_binary :: "rtsp_rb \<Rightarrow> int \<Rightarrow> (int \<times> byte list \<times> rtsp_rb) option" where
  "rtsp_read_binary ctx count =
     (if rbuftail ctx - rbufhead ctx < 4 then do {
        c1 \<leftarrow> rb_compact ctx;
        (r, c2) \<leftarrow> rtsp_read_internal c1;
        (if r < 0 then Some (-1, [], c2) else read_binary_again c2 count) }
      else read_binary_again ctx count)"

text \<open>What \<open>malloc\<close> returns is an argument: the contents of the fresh buffer, or nothing.\<close>

definition rtsp_getnext :: "byte list option \<Rightarrow> rtsp_rb \<Rightarrow> int \<Rightarrow> (int \<times> byte list \<times> rtsp_rb) option" where
  "rtsp_getnext fresh ctx count =
     (if rbuffer ctx = None \<and> fresh = None then Some (-1, [], ctx\<lparr>rbufsize := 0\<rparr>)
      else do {
        (let c0 = (if rbuffer ctx = None then ctx\<lparr>rbuffer := fresh, rbufsize := 65536, rbufhead := 0, rbuftail := 0\<rparr> else ctx)
         in do {
           (r, c1) \<leftarrow> (if rbuftail c0 = rbufhead c0 then rtsp_read_internal c0 else Some (0, c0));
           (if r < 0 then Some (-1, [], c1)
            else do {
              b \<leftarrow> rbuffer c1;
              c \<leftarrow> c_get b (rbufhead c1);
              (if c \<noteq> 0x24 then rtsp_read_text c1 count else rtsp_read_binary c1 count) }) }) })"

section \<open>The reader and the stream\<close>

text \<open>The invariant of the buffer, the bytes it holds, and the stream still to be read.\<close>

definition rb_ok :: "rtsp_rb \<Rightarrow> bool" where
  "rb_ok ctx \<longleftrightarrow> (case rbuffer ctx of None \<Rightarrow> False | Some b \<Rightarrow> int (length b) = rbufsize ctx) \<and>
     0 \<le> rbufhead ctx \<and> rbufhead ctx \<le> rbuftail ctx \<and> rbuftail ctx \<le> rbufsize ctx \<and>
     (rbufhead ctx = rbuftail ctx \<longrightarrow> rbuftail ctx = 0) \<and> [] \<notin> set (rb_net ctx)"

definition rb_bytes :: "rtsp_rb \<Rightarrow> byte list" where
  "rb_bytes ctx = (case rb_data ctx of None \<Rightarrow> [] | Some d \<Rightarrow> d)"

definition rb_stream :: "rtsp_rb \<Rightarrow> byte list" where
  "rb_stream ctx = rb_bytes ctx @ concat (rb_net ctx)"

lemma rb_okD:
  assumes "rb_ok ctx"
  obtains b where "rbuffer ctx = Some b" "int (length b) = rbufsize ctx" "rb_data ctx = Some (rb_bytes ctx)"
    "c_read b (rbufhead ctx) (rbuftail ctx - rbufhead ctx) = Some (rb_bytes ctx)"
    "int (length (rb_bytes ctx)) = rbuftail ctx - rbufhead ctx"
proof -
  from assms obtain b where b: "rbuffer ctx = Some b" "int (length b) = rbufsize ctx" "0 \<le> rbufhead ctx"
    "rbufhead ctx \<le> rbuftail ctx" "rbuftail ctx \<le> rbufsize ctx"
    by (auto simp: rb_ok_def split: option.splits)
  then obtain d where d: "c_read b (rbufhead ctx) (rbuftail ctx - rbufhead ctx) = Some d"
    by (simp add: c_read_defined)
  then have "rb_data ctx = Some d" using b by (simp add: rb_data_def)
  with b d c_read_SomeD [OF d] show thesis by (intro that) (auto simp: rb_bytes_def)
qed

lemma rb_bytes_eq: "rbuffer ctx = Some b \<Longrightarrow> c_read b (rbufhead ctx) (rbuftail ctx - rbufhead ctx) = Some d \<Longrightarrow> rb_bytes ctx = d"
  by (simp add: rb_bytes_def rb_data_def)

lemma read_internal_ok:
  assumes "rb_ok ctx" and "rbuftail ctx < rbufsize ctx" and "rb_net ctx \<noteq> []"
  shows "\<exists>r c2 x. rtsp_read_internal ctx = Some (r, c2) \<and> \<not> r < 0 \<and> rb_ok c2 \<and> rbufhead c2 = rbufhead ctx \<and>
    rbufsize c2 = rbufsize ctx \<and> rb_bytes c2 = rb_bytes ctx @ x \<and> x \<noteq> [] \<and> rb_stream c2 = rb_stream ctx"
proof -
  let ?n = "nat (rbufsize ctx - rbuftail ctx)" and ?h = "rbufhead ctx" and ?t = "rbuftail ctx"
  from assms(1) obtain b where b: "rbuffer ctx = Some b" "int (length b) = rbufsize ctx"
    "c_read b ?h (?t - ?h) = Some (rb_bytes ctx)" by (rule rb_okD)
  have h: "0 \<le> ?h" "?h \<le> ?t" "?t \<le> rbufsize ctx" using assms(1) by (simp_all add: rb_ok_def)
  obtain seg rest where net: "rb_net ctx = seg # rest" using assms(3) by (cases "rb_net ctx") auto
  let ?g = "take ?n seg" and ?net = "if drop ?n seg = [] then rest else drop ?n seg # rest"
  have sne: "seg \<noteq> []" "[] \<notin> set rest" using assms(1) net by (auto simp: rb_ok_def)
  then have g: "?g \<noteq> []" using assms(2) by simp
  have fit: "?t + int (length ?g) \<le> int (length b)" using b(2) h by simp
  obtain b' where w: "c_write b ?t ?g = Some b'" "length b' = length b"
    using c_write_defined [OF _ fit] h by auto
  let ?c2 = "ctx\<lparr>rbuffer := Some b', rbuftail := ?t + int (length ?g), rb_net := ?net\<rparr>"
  have r: "rtsp_read_internal ctx = Some (?t + int (length ?g) - ?h, ?c2)"
    unfolding rtsp_read_internal_def b net Let_def bind.simps(2) list.case if_not_P [OF g] w(1) ..
  have "c_read b' ?h (?t - ?h) = Some (rb_bytes ctx)" using b(3) c_read_write_before [OF w(1)] by simp
  moreover have "c_read b' (?h + (?t - ?h)) (int (length ?g)) = Some ?g" using c_read_write_same [OF w(1)] by simp
  ultimately have "c_read b' ?h (?t - ?h + int (length ?g)) = Some (rb_bytes ctx @ ?g)"
    using h by (intro c_read_append) auto
  then have by2: "rb_bytes ?c2 = rb_bytes ctx @ ?g" by (intro rb_bytes_eq) (auto simp: algebra_simps)
  have "0 < length ?g" using g by blast
  then have lt: "?h < ?t + int (length ?g)" using h by linarith
  have nn: "[] \<notin> set ?net" using sne by simp
  have ok: "rb_ok ?c2" using h lt nn fit b(2) w(2) by (simp add: rb_ok_def del: length_take split del: if_split)
  have cc: "?g @ concat ?net = concat (rb_net ctx)" by (simp add: net flip: append_assoc)
  have "rb_stream ?c2 = rb_stream ctx" using cc unfolding rb_stream_def by2 by simp
  moreover have "\<not> ?t + int (length ?g) - ?h < 0" using h by linarith
  moreover have "rbufhead ?c2 = ?h" "rbufsize ?c2 = rbufsize ctx" by simp_all
  ultimately show ?thesis using r ok by2 g by blast
qed

lemma rb_compact_ok:
  assumes "rb_ok ctx"
  shows "\<exists>c1. rb_compact ctx = Some c1 \<and> rb_ok c1 \<and> rbufhead c1 = 0 \<and> rbufsize c1 = rbufsize ctx \<and> rb_net c1 = rb_net ctx \<and>
    rb_bytes c1 = rb_bytes ctx \<and> rbuftail c1 = rbuftail ctx - rbufhead ctx"
proof -
  from assms obtain b where b: "rbuffer ctx = Some b" "int (length b) = rbufsize ctx" "rb_data ctx = Some (rb_bytes ctx)"
    "int (length (rb_bytes ctx)) = rbuftail ctx - rbufhead ctx" by (rule rb_okD)
  have h: "0 \<le> rbufhead ctx" "rbufhead ctx \<le> rbuftail ctx" "rbuftail ctx \<le> rbufsize ctx" "[] \<notin> set (rb_net ctx)"
    using assms by (simp_all add: rb_ok_def)
  obtain b' where w: "c_write b 0 (rb_bytes ctx) = Some b'" "length b' = length b"
    using c_write_defined [of 0 "rb_bytes ctx" b] b h by force
  let ?c1 = "ctx\<lparr>rbuffer := Some b', rbuftail := rbuftail ctx - rbufhead ctx, rbufhead := 0\<rparr>"
  have "rb_compact ctx = Some ?c1" by (simp add: rb_compact_def b w)
  moreover have "rb_bytes ?c1 = rb_bytes ctx"
    using c_read_write_same [OF w(1)] b(4) by (intro rb_bytes_eq) auto
  moreover have "rb_ok ?c1" using h w(2) b(2) by (simp add: rb_ok_def)
  ultimately show ?thesis by (intro exI [of _ ?c1]) simp
qed

lemma compact_read_ok:
  assumes "rb_ok ctx" and "rbuftail ctx - rbufhead ctx \<noteq> rbufsize ctx" and "rb_net ctx \<noteq> []"
  shows "\<exists>c1 r c2 x. rb_compact ctx = Some c1 \<and> rtsp_read_internal c1 = Some (r, c2) \<and> \<not> r < 0 \<and> rb_ok c2 \<and> rbufhead c2 = 0 \<and>
    rbufsize c2 = rbufsize ctx \<and> rb_bytes c2 = rb_bytes ctx @ x \<and> x \<noteq> [] \<and> rb_stream c2 = rb_stream ctx \<and> net_bytes c2 < net_bytes ctx"
proof -
  obtain c1 where c1: "rb_compact ctx = Some c1" "rb_ok c1" "rbufhead c1 = 0" "rbufsize c1 = rbufsize ctx"
    "rb_net c1 = rb_net ctx" "rb_bytes c1 = rb_bytes ctx" "rbuftail c1 = rbuftail ctx - rbufhead ctx"
    using rb_compact_ok [OF assms(1)] by blast
  have "rbuftail c1 < rbufsize c1" using c1(4,7) assms(1,2) by (auto simp: rb_ok_def)
  from read_internal_ok [OF c1(2) this] assms(3) obtain r c2 x where c2: "rtsp_read_internal c1 = Some (r, c2)" "\<not> r < 0"
    "rb_ok c2" "rbufhead c2 = rbufhead c1" "rbufsize c2 = rbufsize c1" "rb_bytes c2 = rb_bytes c1 @ x" "x \<noteq> []" "rb_stream c2 = rb_stream c1"
    unfolding c1(5) by blast
  have "rb_stream c1 = rb_stream ctx" by (simp add: rb_stream_def c1)
  with c1 c2 compact_read_progress [OF c1(1) c2(1,2)] show ?thesis by fastforce
qed

lemma rb_advance_ok:
  assumes "rb_ok ctx" and "0 \<le> n" and "n \<le> int (length (rb_bytes ctx))"
  shows "rb_ok (rb_advance n ctx) \<and> rb_bytes (rb_advance n ctx) = drop (nat n) (rb_bytes ctx) \<and>
    rb_net (rb_advance n ctx) = rb_net ctx \<and> rbufsize (rb_advance n ctx) = rbufsize ctx"
proof -
  from assms(1) obtain b where b: "rbuffer ctx = Some b" "int (length b) = rbufsize ctx"
    "c_read b (rbufhead ctx) (rbuftail ctx - rbufhead ctx) = Some (rb_bytes ctx)"
    "int (length (rb_bytes ctx)) = rbuftail ctx - rbufhead ctx" by (rule rb_okD)
  have h: "0 \<le> rbufhead ctx" "rbufhead ctx \<le> rbuftail ctx" "rbuftail ctx \<le> rbufsize ctx" "[] \<notin> set (rb_net ctx)"
    using assms(1) by (simp_all add: rb_ok_def)
  show ?thesis
  proof (cases "rbufhead ctx + n = rbuftail ctx")
    case True
    have z: "0 \<le> rbufsize ctx" using h by linarith
    have "rb_bytes (ctx\<lparr>rbufhead := 0, rbuftail := 0\<rparr>) = []"
      by (intro rb_bytes_eq [where b = b]) (simp_all add: b z c_read_def)
    then show ?thesis using True h z b assms by (simp add: rb_advance_def rb_ok_def)
  next
    case False
    have n: "rbuftail ctx - rbufhead ctx = n + (rbuftail ctx - rbufhead ctx - n)" by simp
    have "c_read b (rbufhead ctx + n) (rbuftail ctx - rbufhead ctx - n) = Some (drop (nat n) (rb_bytes ctx))"
      using c_read_split(2) [of b "rbufhead ctx" n "rbuftail ctx - rbufhead ctx - n"] b(3,4) assms by simp
    then have "rb_bytes (ctx\<lparr>rbufhead := rbufhead ctx + n\<rparr>) = drop (nat n) (rb_bytes ctx)"
      by (intro rb_bytes_eq [where b = b]) (auto simp: b algebra_simps)
    with False h b assms show ?thesis by (simp add: rb_advance_def rb_ok_def)
  qed
qed

subsection \<open>Messages\<close>

text \<open>A message on the stream: a text line with its newline, or a binary frame with its length;
  both fit a buffer of \<open>count\<close> bytes.\<close>

definition rtsp_line_ok :: "int \<Rightarrow> byte list \<Rightarrow> bool" where
  "rtsp_line_ok count l \<longleftrightarrow> line_length l = Some (length l) \<and> hd l \<noteq> 0x24 \<and> int (length l) < count"

definition rtsp_frame :: "byte list \<Rightarrow> bool" where
  "rtsp_frame f \<longleftrightarrow> 4 \<le> length f \<and> hd f = 0x24 \<and> int (length f) = 4 + (uint (f ! 2) * 256 + uint (f ! 3))"

definition rtsp_message :: "int \<Rightarrow> byte list \<Rightarrow> bool" where
  "rtsp_message count m \<longleftrightarrow> rtsp_line_ok count m \<or> rtsp_frame m \<and> int (length m) \<le> count"

lemma line_length_bounds: "line_length l = Some n \<Longrightarrow> 0 < n \<and> n \<le> length l"
  by (induction l arbitrary: n) (auto split: if_splits)

lemma line_length_append: "line_length l = Some n \<Longrightarrow> line_length (l @ r) = Some n"
  by (induction l arbitrary: n) (auto split: if_splits)

lemma line_length_prefix: "line_length (l @ r) = Some n \<Longrightarrow> n \<le> length l \<Longrightarrow> line_length l = Some n"
proof (induction l arbitrary: n)
  case Nil
  then show ?case using line_length_bounds [of r n] by auto
qed (auto split: if_splits)

lemma rb_stream_advance:
  assumes "rb_ok ctx" and "n \<le> length (rb_bytes ctx)" and "rb_stream ctx = m @ rest" and "length m = n"
  shows "take n (rb_bytes ctx) = m \<and> rb_ok (rb_advance (int n) ctx) \<and> rb_stream (rb_advance (int n) ctx) = rest \<and>
    rbufsize (rb_advance (int n) ctx) = rbufsize ctx"
proof -
  have a: "rb_ok (rb_advance (int n) ctx)" "rb_bytes (rb_advance (int n) ctx) = drop n (rb_bytes ctx)"
    "rb_net (rb_advance (int n) ctx) = rb_net ctx" "rbufsize (rb_advance (int n) ctx) = rbufsize ctx"
    using rb_advance_ok [OF assms(1), of "int n"] assms(2) by auto
  have "rb_bytes ctx @ concat (rb_net ctx) = m @ rest" using assms(3) by (simp add: rb_stream_def)
  then have "take n (rb_bytes ctx) = m" "drop n (rb_bytes ctx) @ concat (rb_net ctx) = rest"
    using assms(2,4) by (auto simp: append_eq_append_conv2)
  with a show ?thesis by (simp add: rb_stream_def)
qed

lemma read_text_line:
  assumes "rb_ok ctx" and "rb_stream ctx = l @ rest" and "rtsp_line_ok count l" and "count \<le> rbufsize ctx"
  shows "\<exists>c'. rtsp_read_text ctx count = Some (int (length l), l, c') \<and> rb_ok c' \<and> rb_stream c' = rest \<and> rbufsize c' = rbufsize ctx"
  using assms
proof (induction "net_bytes ctx" arbitrary: ctx rule: less_induct)
  case less
  let ?d = "rb_bytes ctx"
  have l: "line_length l = Some (length l)" "int (length l) < count" using less.prems(3) by (simp_all add: rtsp_line_ok_def)
  have s: "?d @ concat (rb_net ctx) = l @ rest" using less.prems(2) by (simp add: rb_stream_def)
  from less.prems(1) obtain b where d: "rb_data ctx = Some ?d" "int (length ?d) = rbuftail ctx - rbufhead ctx" by (rule rb_okD)
  show ?case
  proof (cases "line_length ?d")
    case (Some n)
    have n: "n = length l" "n \<le> length ?d"
      using line_length_append [OF Some, of "concat (rb_net ctx)"] line_length_append [OF l(1), of rest] s line_length_bounds [OF Some]
      by auto
    from rb_stream_advance [OF less.prems(1) n(2) less.prems(2)] n show ?thesis
      using l(2) by (subst rtsp_read_text.simps) (simp add: d Some)
  next
    case None
    have lt: "length ?d < length l"
    proof (rule ccontr)
      assume "\<not> length ?d < length l"
      then have "line_length ?d = Some (length l)"
        using line_length_prefix [of ?d "concat (rb_net ctx)" "length l"] line_length_append [OF l(1), of rest] s by simp
      with None show False by simp
    qed
    then have net: "rb_net ctx \<noteq> []" using s by (auto dest: arg_cong [where f = length])
    have full: "rbuftail ctx - rbufhead ctx \<noteq> rbufsize ctx" using lt l(2) less.prems(4) d(2) by linarith
    from compact_read_ok [OF less.prems(1) full net] obtain c1 r c2 where
      c: "rb_compact ctx = Some c1" "rtsp_read_internal c1 = Some (r, c2)" "\<not> r < 0" "rb_ok c2" "rbufsize c2 = rbufsize ctx"
        "rb_stream c2 = rb_stream ctx" "net_bytes c2 < net_bytes ctx" by blast
    have "rtsp_read_text ctx count = rtsp_read_text c2 count"
      using full by (subst rtsp_read_text.simps) (simp add: d None c)
    with less.hyps [OF c(7,4)] less.prems c show ?thesis by simp
  qed
qed

text \<open>With fewer than four bytes at the head the length read is not that of the frame, but no
  length is as short as that.\<close>

lemma read_binary_frame:
  assumes "rb_ok ctx" and "rb_stream ctx = f @ rest" and "rtsp_frame f" and "int (length f) \<le> rbufsize ctx"
    and "4 \<le> rbufsize ctx - rbufhead ctx"
  shows "(int (length f) \<le> count \<longrightarrow> (\<exists>c'. read_binary_again ctx count = Some (int (length f), f, c') \<and> rb_ok c' \<and>
      rb_stream c' = rest \<and> rbufsize c' = rbufsize ctx)) \<and>
    (count < int (length f) \<longrightarrow> read_binary_again ctx count = None)"
  using assms
proof (induction "net_bytes ctx" arbitrary: ctx rule: less_induct)
  case less
  let ?d = "rb_bytes ctx" and ?h = "rbufhead ctx"
  have f: "4 \<le> length f" "int (length f) = 4 + (uint (f ! 2) * 256 + uint (f ! 3))" using less.prems(3) by (simp_all add: rtsp_frame_def)
  have s: "?d @ concat (rb_net ctx) = f @ rest" using less.prems(2) by (simp add: rb_stream_def)
  have h: "0 \<le> ?h" "?h \<le> rbuftail ctx" "rbuftail ctx \<le> rbufsize ctx" using less.prems(1) by (simp_all add: rb_ok_def)
  from less.prems(1) obtain b where b: "rbuffer ctx = Some b" "int (length b) = rbufsize ctx"
    "c_read b ?h (rbuftail ctx - ?h) = Some ?d" "int (length ?d) = rbuftail ctx - ?h" by (rule rb_okD)
  obtain hi lo where g: "c_get b (?h + 2) = Some hi" "c_get b (?h + 3) = Some lo"
    using less.prems(5) h b(2) by (simp add: c_get_def)
  have d: "?d = take (nat (rbuftail ctx - ?h)) (drop (nat ?h) b)" using b(3) by (auto simp: c_read_def split: if_splits)
  have req: "uint hi * 256 + uint lo = int (length f) - 4" if "4 \<le> length ?d"
  proof -
    have nth: "f ! k = ?d ! k" if "k < 4" for k
      using s that \<open>4 \<le> length ?d\<close> f(1) by (metis nth_append order_less_le_trans)
    have "?d ! 2 = hi" "?d ! 3 = lo"
      using g that h b(4) by (auto simp: d c_get_def nat_add_distrib split: if_splits)
    with f(2) nth [of 2] nth [of 3] show ?thesis by simp
  qed
  show ?case
  proof (cases "length f \<le> length ?d")
    case True
    have r: "uint hi * 256 + uint lo = int (length f) - 4" using req True f(1) by simp
    have "c_read b ?h (int (length f)) = Some (take (length f) ?d)"
      using c_read_split(1) [of b ?h "int (length f)" "rbuftail ctx - ?h - int (length f)" ?d] b(3,4) True by simp
    with rb_stream_advance [OF less.prems(1) True less.prems(2) refl] r True b(4) show ?thesis
      by (intro conjI impI; subst read_binary_again.simps) (simp_all add: b(1) g Let_def)
  next
    case False
    have short: "\<not> 4 + (uint hi * 256 + uint lo) \<le> rbuftail ctx - ?h"
    proof (cases "4 \<le> length ?d")
      case True
      with req False b(4) show ?thesis by simp
    next
      case False
      have "0 \<le> uint hi * 256 + uint lo" by simp
      with False b(4) show ?thesis by linarith
    qed
    have full: "rbuftail ctx - ?h \<noteq> rbufsize ctx" using False less.prems(4) b(4) by linarith
    have net: "rb_net ctx \<noteq> []" using s False by (auto dest: arg_cong [where f = length])
    from compact_read_ok [OF less.prems(1) full net] obtain c1 r c2 where
      c: "rb_compact ctx = Some c1" "rtsp_read_internal c1 = Some (r, c2)" "\<not> r < 0" "rb_ok c2" "rbufhead c2 = 0" "rbufsize c2 = rbufsize ctx"
        "rb_stream c2 = rb_stream ctx" "net_bytes c2 < net_bytes ctx" by blast
    have "read_binary_again ctx count = read_binary_again c2 count"
      using full short by (subst read_binary_again.simps) (simp add: b(1) g c Let_def)
    moreover have "4 \<le> rbufsize c2 - rbufhead c2" using c(5,6) less.prems(4) f(1) by linarith
    ultimately show ?thesis using less.hyps [OF c(8,4)] less.prems c by simp
  qed
qed

lemma c_read_hd:
  assumes "c_read b h n = Some d" and "d \<noteq> []"
  shows "c_get b h = Some (hd d)"
proof -
  have c: "0 \<le> h" "h + n \<le> int (length b)" and d: "d = take (nat n) (drop (nat h) b)"
    using assms(1) by (auto simp: c_read_def split: if_splits)
  with assms(2) have "0 < n" "nat h < length b" by auto
  with c d show ?thesis by (simp add: c_get_def hd_drop_conv_nth)
qed

lemma read_message:
  assumes "rb_ok ctx" and "rb_bytes ctx \<noteq> []" and "rb_stream ctx = m @ rest" and "rtsp_message count m" and "count \<le> rbufsize ctx"
    and "rbufsize ctx = 65536"
  shows "\<exists>c'. (if hd (rb_bytes ctx) \<noteq> 0x24 then rtsp_read_text ctx count else rtsp_read_binary ctx count) =
      Some (int (length m), m, c') \<and> rb_ok c' \<and> rb_stream c' = rest \<and> rbufsize c' = rbufsize ctx"
proof -
  have ne: "m \<noteq> []" using assms(4) by (auto simp: rtsp_message_def rtsp_line_ok_def rtsp_frame_def)
  have hd: "hd (rb_bytes ctx) = hd m"
    using assms(2,3) ne by (cases "rb_bytes ctx"; cases m) (auto simp: rb_stream_def)
  show ?thesis
  proof (cases "hd m = 0x24")
    case False
    then have "rtsp_line_ok count m" using assms(4) by (auto simp: rtsp_message_def rtsp_frame_def)
    from read_text_line [OF assms(1,3) this assms(5)] False hd show ?thesis by simp
  next
    case True
    then have f: "rtsp_frame m" "int (length m) \<le> count" using assms(4) by (auto simp: rtsp_message_def rtsp_line_ok_def)
    then have f4: "4 \<le> length m" "int (length m) \<le> rbufsize ctx" using assms(5) by (simp_all add: rtsp_frame_def)
    have again: "\<exists>c'. rtsp_read_binary ctx count = Some (int (length m), m, c') \<and> rb_ok c' \<and> rb_stream c' = rest \<and> rbufsize c' = rbufsize ctx"
    proof (cases "rbuftail ctx - rbufhead ctx < 4")
      case False
      then have "4 \<le> rbufsize ctx - rbufhead ctx" using assms(1) by (simp add: rb_ok_def)
      from read_binary_frame [OF assms(1,3) f(1) f4(2) this] f(2) False show ?thesis by (simp add: rtsp_read_binary_def)
    next
      case short: True
      from assms(1) obtain b where b: "int (length (rb_bytes ctx)) = rbuftail ctx - rbufhead ctx" by (rule rb_okD)
      have full: "rbuftail ctx - rbufhead ctx \<noteq> rbufsize ctx" using short assms(6) by simp
      have "length (rb_bytes ctx) < length m" using short b f4(1) by linarith
      then have net: "rb_net ctx \<noteq> []" using assms(3) by (auto simp: rb_stream_def dest: arg_cong [where f = length])
      from compact_read_ok [OF assms(1) full net] obtain c1 r c2 where
        c: "rb_compact ctx = Some c1" "rtsp_read_internal c1 = Some (r, c2)" "\<not> r < 0" "rb_ok c2" "rbufhead c2 = 0" "rbufsize c2 = rbufsize ctx"
          "rb_stream c2 = rb_stream ctx" by blast
      have "4 \<le> rbufsize c2 - rbufhead c2" using c(5,6) assms(6) by simp
      from read_binary_frame [OF c(4) _ f(1) _ this, of rest] c assms(3) f f4 short show ?thesis by (simp add: rtsp_read_binary_def)
    qed
    with True hd show ?thesis by simp
  qed
qed

text \<open>Reading several messages.\<close>

primrec rtsp_read_many :: "byte list option \<Rightarrow> nat \<Rightarrow> rtsp_rb \<Rightarrow> int \<Rightarrow> (byte list list \<times> rtsp_rb) option" where
  "rtsp_read_many fresh 0 ctx count = Some ([], ctx)"
| "rtsp_read_many fresh (Suc n) ctx count = do {
     (r, m, c1) \<leftarrow> rtsp_getnext fresh ctx count;
     (if r < 0 then Some ([], c1)
      else do { (ms, c2) \<leftarrow> rtsp_read_many fresh n c1 count; Some (m # ms, c2) }) }"

definition rb_new :: "byte list list \<Rightarrow> rtsp_rb" where
  "rb_new net = \<lparr>rbuffer = None, rbufhead = 0, rbuftail = 0, rbufsize = 0, rb_net = net\<rparr>"

lemma getnext_message:
  assumes "rb_ok ctx" and "rbufsize ctx = 65536" and "rb_stream ctx = m @ rest" and "rtsp_message count m" and "count \<le> 65536"
  shows "\<exists>c'. rtsp_getnext fresh ctx count = Some (int (length m), m, c') \<and> rb_ok c' \<and> rb_stream c' = rest \<and> rbufsize c' = 65536"
proof -
  from assms(1) obtain b where b: "rbuffer ctx = Some b" "int (length (rb_bytes ctx)) = rbuftail ctx - rbufhead ctx" by (rule rb_okD)
  have ne: "m \<noteq> []" using assms(4) by (auto simp: rtsp_message_def rtsp_line_ok_def rtsp_frame_def)
  have "\<exists>r c1. (if rbuftail ctx = rbufhead ctx then rtsp_read_internal ctx else Some (0, ctx)) = Some (r, c1) \<and> \<not> r < 0 \<and> rb_ok c1 \<and>
      rb_bytes c1 \<noteq> [] \<and> rb_stream c1 = m @ rest \<and> rbufsize c1 = 65536"
  proof (cases "rbuftail ctx = rbufhead ctx")
    case True
    with b(2) have e: "rb_bytes ctx = []" by simp
    then have "rb_net ctx \<noteq> []" using assms(3) ne by (auto simp: rb_stream_def)
    moreover have "rbuftail ctx < rbufsize ctx" using assms(1,2) True by (simp add: rb_ok_def)
    ultimately show ?thesis using read_internal_ok [OF assms(1)] assms(2,3) True by fastforce
  next
    case False
    with assms b(2) show ?thesis by auto
  qed
  then obtain r c1 where r: "(if rbuftail ctx = rbufhead ctx then rtsp_read_internal ctx else Some (0, ctx)) = Some (r, c1)" "\<not> r < 0"
    and c1: "rb_ok c1" "rb_bytes c1 \<noteq> []" "rb_stream c1 = m @ rest" "rbufsize c1 = 65536" by blast
  from c1(1) obtain b1 where b1: "rbuffer c1 = Some b1" "c_read b1 (rbufhead c1) (rbuftail c1 - rbufhead c1) = Some (rb_bytes c1)" by (rule rb_okD)
  have "c_get b1 (rbufhead c1) = Some (hd (rb_bytes c1))" by (rule c_read_hd [OF b1(2) c1(2)])
  with read_message [OF c1(1-3) assms(4)] c1(4) assms(5) r show ?thesis
    by (simp add: rtsp_getnext_def b(1) b1(1) Let_def)
qed

lemma rb_ok_started: "length f = 65536 \<Longrightarrow> [] \<notin> set net \<Longrightarrow>
  rb_ok \<lparr>rbuffer = Some f, rbufhead = 0, rbuftail = 0, rbufsize = 65536, rb_net = net\<rparr>"
  by (simp add: rb_ok_def)

lemma getnext_started:
  "rtsp_getnext (Some f) (rb_new net) count =
   rtsp_getnext (Some f) \<lparr>rbuffer = Some f, rbufhead = 0, rbuftail = 0, rbufsize = 65536, rb_net = net\<rparr> count"
  by (simp add: rtsp_getnext_def rb_new_def Let_def)

lemma read_many_ok:
  "rb_ok ctx \<Longrightarrow> rbufsize ctx = 65536 \<Longrightarrow> rb_stream ctx = concat ms @ rest \<Longrightarrow> \<forall>m\<in>set ms. rtsp_message count m \<Longrightarrow> count \<le> 65536 \<Longrightarrow>
   \<exists>c'. rtsp_read_many fresh (length ms) ctx count = Some (ms, c') \<and> rb_stream c' = rest"
proof (induction ms arbitrary: ctx)
  case (Cons m ms)
  have s: "rb_stream ctx = m @ (concat ms @ rest)" using Cons.prems(3) by simp
  from getnext_message [OF Cons.prems(1,2) s _ Cons.prems(5)] Cons.prems(4) obtain c1 where
    "rtsp_getnext fresh ctx count = Some (int (length m), m, c1)" "rb_ok c1" "rb_stream c1 = concat ms @ rest" "rbufsize c1 = 65536"
    by auto
  with Cons.IH [OF this(2,4,3)] Cons.prems show ?case by auto
qed simp

lemma read_many_new:
  assumes "length f = 65536" and "[] \<notin> set net" and "concat net = concat ms @ rest" and "\<forall>m\<in>set ms. rtsp_message count m" and "count \<le> 65536"
  shows "\<exists>c'. rtsp_read_many (Some f) (length ms) (rb_new net) count = Some (ms, c')"
proof (cases "ms = []")
  case False
  let ?c = "\<lparr>rbuffer = Some f, rbufhead = 0, rbuftail = 0, rbufsize = 65536, rb_net = net\<rparr>"
  have ok: "rb_ok ?c" by (rule rb_ok_started [OF assms(1,2)])
  have "rb_bytes ?c = []" by (intro rb_bytes_eq [where b = f]) (simp_all add: c_read_def)
  then have "rb_stream ?c = concat ms @ rest" using assms(3) by (simp add: rb_stream_def)
  from read_many_ok [OF ok _ this assms(4,5)] obtain c' where
    c: "rtsp_read_many (Some f) (length ms) ?c count = Some (ms, c')" by auto
  obtain n where n: "length ms = Suc n" using False by (cases ms) auto
  have "rtsp_read_many (Some f) (length ms) (rb_new net) count = rtsp_read_many (Some f) (length ms) ?c count"
    unfolding n by (simp only: rtsp_read_many.simps getnext_started)
  with c show ?thesis by simp
qed simp

text \<open>C7. The reader of the RTSP connection is independent of how the network cuts the stream: for
  any sequence of text lines and interleaved binary frames that fit the caller's buffer, and any
  segmentation of their bytes into non-empty segments, the successive calls return exactly these
  messages, in order, and whole.\<close>

theorem rtsp_getnext_framing:
  assumes "length f = 65536" and "[] \<notin> set net" and "concat net = concat ms" and "\<forall>m\<in>set ms. rtsp_message count m" and "count \<le> 65536"
  shows "\<exists>c'. rtsp_read_many (Some f) (length ms) (rb_new net) count = Some (ms, c')"
  using read_many_new [OF assms(1,2) _ assms(4,5), of "[]"] assms(3) by auto

text \<open>A binary frame is not checked against the size of the buffer that the caller passes: when
  its length field announces more bytes than that and they arrive, the reader writes beyond the
  buffer. The callers pass 8192 bytes and a frame may have 65539.\<close>

theorem rtsp_read_binary_overflow:
  assumes "length f = 65536" and "[] \<notin> set net" and "concat net = m @ rest" and "rtsp_frame m"
    and "count < int (length m)" and "length m \<le> 65536"
  shows "rtsp_getnext (Some f) (rb_new net) count = None"
proof -
  let ?c = "\<lparr>rbuffer = Some f, rbufhead = 0, rbuftail = 0, rbufsize = 65536, rb_net = net\<rparr>"
  have ok: "rb_ok ?c" by (rule rb_ok_started [OF assms(1,2)])
  have "rb_bytes ?c = []" by (intro rb_bytes_eq [where b = f]) (simp_all add: c_read_def)
  then have st: "rb_stream ?c = m @ rest" using assms(3) by (simp add: rb_stream_def)
  have m4: "4 \<le> length m" "m \<noteq> []" "hd m = 0x24" using assms(4) by (auto simp: rtsp_frame_def)
  have "net \<noteq> []" using assms(3) m4 by auto
  with read_internal_ok [OF ok] obtain r c1 where c1: "rtsp_read_internal ?c = Some (r, c1)" "\<not> r < 0" "rb_ok c1" "rbufhead c1 = 0"
    "rbufsize c1 = 65536" "rb_bytes c1 \<noteq> []" "rb_stream c1 = m @ rest" using st by fastforce
  from c1(3) obtain b1 where b1: "rbuffer c1 = Some b1" "c_read b1 (rbufhead c1) (rbuftail c1 - rbufhead c1) = Some (rb_bytes c1)"
    "int (length (rb_bytes c1)) = rbuftail c1 - rbufhead c1" by (rule rb_okD)
  have "hd (rb_bytes c1) = 0x24" using c1(6,7) m4 by (cases "rb_bytes c1"; cases m) (auto simp: rb_stream_def)
  moreover have "c_get b1 (rbufhead c1) = Some (hd (rb_bytes c1))" by (rule c_read_hd [OF b1(2) c1(6)])
  ultimately have g: "rtsp_getnext (Some f) (rb_new net) count = rtsp_read_binary c1 count"
    using c1(1,2) b1(1) by (simp add: getnext_started) (simp add: rtsp_getnext_def Let_def)
  show ?thesis
  proof (cases "rbuftail c1 - rbufhead c1 < 4")
    case False
    with read_binary_frame [OF c1(3,7) assms(4)] assms(5,6) c1(4,5) g show ?thesis by (simp add: rtsp_read_binary_def)
  next
    case True
    have "length (rb_bytes c1) < length m" using True b1(3) m4 by linarith
    then have n1: "rb_net c1 \<noteq> []" using c1(7) by (auto simp: rb_stream_def dest: arg_cong [where f = length])
    have full: "rbuftail c1 - rbufhead c1 \<noteq> rbufsize c1" using True c1(5) by simp
    from compact_read_ok [OF c1(3) full n1] obtain c2 r c3 where
      c: "rb_compact c1 = Some c2" "rtsp_read_internal c2 = Some (r, c3)" "\<not> r < 0" "rb_ok c3" "rbufhead c3 = 0" "rbufsize c3 = rbufsize c1"
        "rb_stream c3 = rb_stream c1" by blast
    with read_binary_frame [OF c(4) _ assms(4), of rest count] assms(5,6) c1(5,7) g True show ?thesis by (simp add: rtsp_read_binary_def)
  qed
qed

section \<open>The writer and the reader\<close>

text \<open>A buffer of packets, as the dynamic packet buffer of FFmpeg holds them: each after its size.\<close>

definition packed :: "byte list list \<Rightarrow> byte list" where
  "packed ps = concat (map (\<lambda>p. rev (le32 (word_of_nat (length p))) @ p) ps)"

definition packet_ok :: "byte list \<Rightarrow> bool" where
  "packet_ok p \<longleftrightarrow> 0 < length p \<and> length p < 65536"

lemma packed_simps [simp]:
  "packed [] = []" "packed (p # ps) = rev (le32 (word_of_nat (length p))) @ p @ packed ps"
  by (simp_all add: packed_def)

lemma c_read_at: "c_read (pre @ xs @ post) (int (length pre)) (int (length xs)) = Some xs"
  by (simp add: c_read_def)

lemma pktlen_at:
  assumes "packet_ok p"
  shows "bin_pktlen (pre @ rev (le32 (word_of_nat (length p))) @ post) (int (length pre)) = Some (int (length p))"
proof -
  have "c_read (pre @ rev (le32 (word_of_nat (length p))) @ post) (int (length pre)) 4 = Some (rev (le32 (word_of_nat (length p))))"
    using c_read_at [of pre "rev (le32 (word_of_nat (length p)))" post] by simp
  moreover have "sint (word_of_nat (length p) :: u32) = int (length p)"
  proof -
    have "sint (word_of_int (int (length p)) :: u32) = int (length p)"
      using to_int32_id [of "int (length p)"] assms by (simp add: packet_ok_def to_int32_def)
    then show ?thesis by simp
  qed
  ultimately show ?thesis by (simp add: bin_pktlen_def)
qed

lemma payload_at:
  "c_read (pre @ rev (le32 w) @ p @ post) (int (length pre) + 4) (int (length p)) = Some p"
  using c_read_at [of "pre @ rev (le32 w)" p post] by (simp add: add.commute)

definition net_works :: "(nat \<Rightarrow> byte list \<Rightarrow> int) \<Rightarrow> bool" where
  "net_works wres \<longleftrightarrow> (\<forall>k b. wres k b = int (length b))"

lemma length_bin_header [simp]: "length (bin_header sid n) = 4"
  by (simp add: bin_header_def)

lemma write_bin_step:
  assumes "packet_ok p" and "\<not> wr_locked w" and "net_works wres"
  shows "write_bin_loop wres sid (pre @ rev (le32 (word_of_nat (length p))) @ p @ post) (int (length pre)) w =
    write_bin_loop wres sid (pre @ rev (le32 (word_of_nat (length p))) @ p @ post) (int (length (pre @ rev (le32 (word_of_nat (length p))) @ p)))
      (w\<lparr>wr_sent := wr_sent w @ [bin_header sid (int (length p)), p], wr_calls := wr_calls w + 2\<rparr>)"
proof -
  have p: "0 < length p" using assms(1) by (simp add: packet_ok_def)
  have e: "w\<lparr>wr_sent := x, wr_calls := y, wr_locked := False\<rparr> = w\<lparr>wr_sent := x, wr_calls := y\<rparr>" for x y
    using assms(2) by (cases w) simp
  show ?thesis
    using pktlen_at [OF assms(1), of pre "p @ post"] payload_at [of pre "word_of_nat (length p)" p post] assms(2,3) p
    by (subst write_bin_loop.simps)
      (simp add: writer_lock_def writer_unlock_def rtsp_write_def net_works_def Let_def e algebra_simps)
qed

lemma write_bin_packets:
  assumes "\<forall>p\<in>set ps. packet_ok p" and "\<not> wr_locked w" and "net_works wres"
  shows "write_bin_loop wres sid (pre @ packed ps) (int (length pre)) w =
    Some (int (length (pre @ packed ps)), w\<lparr>wr_sent := wr_sent w @ concat (map (\<lambda>p. [bin_header sid (int (length p)), p]) ps),
      wr_calls := wr_calls w + 2 * length ps\<rparr>)"
  using assms
proof (induction ps arbitrary: pre w)
  case Nil
  then show ?case by (simp add: write_bin_loop.simps)
next
  case (Cons p ps)
  let ?w = "w\<lparr>wr_sent := wr_sent w @ [bin_header sid (int (length p)), p], wr_calls := wr_calls w + 2\<rparr>"
  let ?pre = "pre @ rev (le32 (word_of_nat (length p))) @ p"
  have "write_bin_loop wres sid (pre @ packed (p # ps)) (int (length pre)) w = write_bin_loop wres sid (?pre @ packed ps) (int (length ?pre)) ?w"
    using write_bin_step [of p w wres sid pre "packed ps"] Cons.prems by simp
  also have "\<dots> = Some (int (length (?pre @ packed ps)), ?w\<lparr>wr_sent := wr_sent ?w @ concat (map (\<lambda>p. [bin_header sid (int (length p)), p]) ps),
      wr_calls := wr_calls ?w + 2 * length ps\<rparr>)"
    using Cons.prems by (intro Cons.IH) auto
  finally show ?case by simp
qed

lemma write_bindata_packets:
  assumes "\<forall>p\<in>set ps. packet_ok p" and "ps \<noteq> []" and "\<not> wr_locked w" and "net_works wres"
  shows "rtsp_write_bindata wres sid (packed ps) w =
    Some (int (length (packed ps)), w\<lparr>wr_sent := wr_sent w @ concat (map (\<lambda>p. [bin_header sid (int (length p)), p]) ps),
      wr_calls := wr_calls w + 2 * length ps\<rparr>)"
proof -
  have "\<not> length (packed ps) < 4" using assms(2) by (cases ps) auto
  with write_bin_packets [OF assms(1,3,4), of sid "[]"] show ?thesis by (simp add: rtsp_write_bindata_def)
qed

lemma header_frame:
  assumes "packet_ok p"
  shows "rtsp_frame (bin_header sid (int (length p)) @ p)"
proof -
  have u: "uint (word_of_int x :: byte) = x mod 256" for x by (simp add: uint_word_of_int)
  have "int (length p) div 256 mod 256 = int (length p) div 256"
    using assms unfolding packet_ok_def by (intro mod_pos_pos_trivial) auto
  then have "uint (word_of_int (int (length p) div 256) :: byte) * 256 + uint (word_of_int (int (length p)) :: byte) = int (length p)"
    unfolding u by simp
  then show ?thesis by (simp add: rtsp_frame_def bin_header_def nth_append del: of_int_of_nat_eq)
qed

definition writer_new :: rtsp_writer where
  "writer_new = \<lparr>wr_sent = [], wr_calls = 0, wr_locked = False\<rparr>"

text \<open>C21. Interleaved media round trip. Packets that the server writes into the connection come out
  of a reader of the same format one by one: each as a frame with the channel of its stream
  followed by exactly the packet. Every write may be delivered on its own.\<close>

theorem rtsp_interleaved_roundtrip:
  assumes "\<forall>p\<in>set ps. packet_ok p \<and> int (length p) + 4 \<le> count" and "count \<le> 65536" and "ps \<noteq> []" and "net_works wres" and "length f = 65536"
  shows "\<exists>w c'. rtsp_write_bindata wres sid (packed ps) writer_new = Some (int (length (packed ps)), w) \<and> \<not> wr_locked w \<and>
    rtsp_read_many (Some f) (length ps) (rb_new (wr_sent w)) count =
      Some (map (\<lambda>p. [0x24, word_of_nat (sid * 2), word_of_int (int (length p) div 256), word_of_int (int (length p))] @ p) ps, c')"
proof -
  let ?h = "\<lambda>p. bin_header sid (int (length p))"
  let ?ms = "map (\<lambda>p. ?h p @ p) ps" and ?net = "concat (map (\<lambda>p. [?h p, p]) ps)"
  have w: "rtsp_write_bindata wres sid (packed ps) writer_new =
      Some (int (length (packed ps)), \<lparr>wr_sent = ?net, wr_calls = 2 * length ps, wr_locked = False\<rparr>)"
    using write_bindata_packets [of ps writer_new wres sid] assms by (simp add: writer_new_def)
  have "[] \<notin> set ?net" using assms(1) by (auto simp: packet_ok_def bin_header_def)
  moreover have "concat ?net = concat ?ms @ []" by (induction ps) auto
  moreover have "\<forall>m\<in>set ?ms. rtsp_message count m" using assms(1) header_frame by (auto simp: rtsp_message_def)
  ultimately obtain c' where r: "rtsp_read_many (Some f) (length ?ms) (rb_new ?net) count = Some (?ms, c')"
    using read_many_new [OF assms(5)] assms(2) by blast
  with w show ?thesis by (simp add: bin_header_def)
qed

text \<open>The early return after a failed write of a packet keeps the mutex of the writers locked:
  the call reports how far it came, and from then on no call that has a packet to send returns.\<close>

theorem rtsp_write_bindata_keeps_lock:
  assumes "packet_ok p" and "\<not> wr_locked w" and "wres (wr_calls w) (bin_header sid (int (length p))) = 4"
    and "wres (Suc (wr_calls w)) p \<noteq> int (length p)" and "packet_ok q"
  shows "\<exists>w'. rtsp_write_bindata wres sid (packed (p # ps)) w = Some (0, w') \<and> wr_locked w' \<and>
    rtsp_write_bindata wres sid2 (packed (q # qs)) w' = None"
proof -
  let ?w = "w\<lparr>wr_sent := wr_sent w @ [bin_header sid (int (length p)), take (nat (wres (Suc (wr_calls w)) p)) p],
     wr_calls := Suc (Suc (wr_calls w)), wr_locked := True\<rparr>"
  have ne: "0 < length p" "0 < length q" using assms by (simp_all add: packet_ok_def)
  have "rtsp_write_bindata wres sid (packed (p # ps)) w = Some (0, ?w)"
    using pktlen_at [OF assms(1), of "[]" "p @ packed ps"] payload_at [of "[]" "word_of_nat (length p)" p "packed ps"] assms(2-4) ne
    by (simp add: rtsp_write_bindata_def, subst write_bin_loop.simps)
      (simp add: writer_lock_def rtsp_write_def Let_def)
  moreover have "rtsp_write_bindata wres sid2 (packed (q # qs)) ?w = None"
    using pktlen_at [OF assms(5), of "[]" "q @ packed qs"] ne
    by (simp add: rtsp_write_bindata_def, subst write_bin_loop.simps) (simp add: writer_lock_def)
  ultimately show ?thesis by (intro exI [of _ ?w]) simp
qed

lemma rtp_bin_packets:
  "\<forall>p\<in>set ps. packet_ok p \<Longrightarrow> rtp_bin_loop (pre @ packed ps) (int (length pre)) = Some (int (length (pre @ packed ps)), ps)"
proof (induction ps arbitrary: pre)
  case (Cons p ps)
  have p: "0 < length p" "packet_ok p" using Cons.prems by (simp_all add: packet_ok_def)
  show ?case
    using pktlen_at [OF p(2), of pre "p @ packed ps"] payload_at [of pre "word_of_nat (length p)" p "packed ps"] p(1)
      Cons.IH [of "pre @ rev (le32 (word_of_nat (length p))) @ p"] Cons.prems
    by (subst rtp_bin_loop.simps) (simp add: algebra_simps)
qed (simp add: rtp_bin_loop.simps)

text \<open>The two transports are equivalent: the datagrams of the UDP transport are the packets of
  the buffer, and the TCP transport writes the same packets in the same order, each after its
  interleaving header; both report the length of the buffer.\<close>

theorem rtp_rtsp_same_packets:
  assumes "\<forall>p\<in>set ps. packet_ok p" and "ps \<noteq> []" and "sock \<noteq> 0" and "\<not> wr_locked w" and "net_works wres"
  shows "\<exists>n ds w'. rtp_write_bindata sock (Some (packed ps)) = Some (n, ds) \<and> rtsp_write_bindata wres sid (packed ps) w = Some (n, w') \<and>
    ds = ps \<and> wr_sent w' = wr_sent w @ concat (map (\<lambda>d. [bin_header sid (int (length d)), d]) ds)"
proof -
  have "\<not> length (packed ps) < 4" using assms(2) by (cases ps) auto
  then have "rtp_write_bindata sock (Some (packed ps)) = Some (int (length (packed ps)), ps)"
    using rtp_bin_packets [OF assms(1), of "[]"] assms(3) by (simp add: rtp_write_bindata_def)
  with write_bindata_packets [OF assms(1,2,4,5), of sid] show ?thesis by simp
qed

section \<open>Concrete runs\<close>

text \<open>A request line and a frame that arrive cut in the middle of the line and after the first
  byte of the frame.\<close>

theorem rtsp_getnext_framing_witness:
  "\<exists>c'. rtsp_read_many (Some (replicate 65536 0)) 2 (rb_new [[0x41], [0x42, 0x0A, 0x24], [1, 0], [2, 7, 8]]) 8192 =
     Some ([[0x41, 0x42, 0x0A], [0x24, 1, 0, 2, 7, 8]], c')"
proof -
  let ?ms = "[[0x41, 0x42, 0x0A], [0x24, 1, 0, 2, 7, 8]] :: byte list list"
  have "line_length [0x41, 0x42, 0x0A] = Some 3" by code_simp
  then have "\<forall>m\<in>set ?ms. rtsp_message 8192 m"
    by (simp add: rtsp_message_def rtsp_line_ok_def rtsp_frame_def)
  from rtsp_getnext_framing [OF _ _ _ this, of "replicate 65536 0" "[[0x41], [0x42, 0x0A, 0x24], [1, 0], [2, 7, 8]]"]
  show ?thesis by (simp add: numeral_2_eq_2 del: rtsp_read_many.simps)
qed

theorem rtsp_read_binary_overflow_witness:
  "rtsp_getnext (Some (replicate 65536 0)) (rb_new [[0x24, 0, 0x20, 0x04] @ replicate 8196 0]) 8192 = None"
proof -
  let ?m = "[0x24, 0, 0x20, 0x04] @ replicate 8196 0 :: byte list"
  have "rtsp_frame ?m" by (simp add: rtsp_frame_def nth_append)
  then show ?thesis
    using rtsp_read_binary_overflow [of "replicate 65536 0" "[?m]" ?m "[]" 8192] by simp
qed

definition sends_all :: "nat \<Rightarrow> byte list \<Rightarrow> int" where
  "sends_all k b = int (length b)"

theorem rtsp_interleaved_roundtrip_witness:
  "\<exists>w c'. rtsp_write_bindata sends_all 1 [0, 0, 0, 2, 9, 8] writer_new = Some (6, w) \<and>
    rtsp_read_many (Some (replicate 65536 0)) 1 (rb_new (wr_sent w)) 8192 = Some ([[0x24, 2, 0, 2, 9, 8]], c')"
proof -
  have p: "packed [[9, 8]] = [0, 0, 0, 2, 9, 8]" by code_simp
  have "net_works sends_all" by (simp add: net_works_def sends_all_def)
  from rtsp_interleaved_roundtrip [of "[[9, 8]]" 8192 sends_all "replicate 65536 0" 1, unfolded p] this
  show ?thesis by (auto simp: packet_ok_def simp del: rtsp_read_many.simps)
qed

theorem rtsp_write_bindata_keeps_lock_witness:
  "\<exists>w'. rtsp_write_bindata (\<lambda>k b. if k = 0 then 4 else -1) 0 (packed [[9, 8]]) writer_new = Some (0, w') \<and> wr_locked w' \<and>
    rtsp_write_bindata (\<lambda>k b. if k = 0 then 4 else -1) 1 (packed [[7]]) w' = None"
  using rtsp_write_bindata_keeps_lock [of "[9, 8]" writer_new "\<lambda>k b. if k = 0 then 4 else -1" 0 "[7]" "[]" 1 "[]"]
  by (simp add: packet_ok_def writer_new_def)

theorem rtp_rtsp_same_packets_witness:
  "\<exists>n ds w'. rtp_write_bindata 5 (Some (packed [[1], [2, 3]])) = Some (n, ds) \<and>
    rtsp_write_bindata sends_all 0 (packed [[1], [2, 3]]) writer_new = Some (n, w') \<and> ds = [[1], [2, 3]]"
proof -
  have "net_works sends_all" by (simp add: net_works_def sends_all_def)
  with rtp_rtsp_same_packets [of "[[1], [2, 3]]" 5 writer_new sends_all 0] show ?thesis
    by (auto simp: packet_ok_def writer_new_def)
qed

end
