(* ===== verification/RtspServer.thy ===== *)
theory RtspServer
  imports RtspSession RtspIo
begin

text \<open>
  The RTSP server as a whole: the connections with their contexts and the table of the clients that
  get packets (\<open>module/server-ffmpeg/server-ffmpeg.cpp\<close>), the steps of the threads as an inductive
  relation, and what holds in every reachable state.
\<close>

section \<open>One turn of a connection's loop\<close>

text \<open>A line that was read, as the string that the C functions see.\<close>

definition c_str :: "byte list \<Rightarrow> string" where
  "c_str m = map (\<lambda>b. char_of (unat b)) (takeWhile (\<lambda>b. b \<noteq> 0) m)"

text \<open>The header lines; \<open>None\<close> in the result when the connection ends before the empty line.\<close>

partial_function (option) rtsp_headers :: "byte list option \<Rightarrow> (string \<Rightarrow> rtsp_header \<Rightarrow> rtsp_header) \<Rightarrow> rtsp_rb \<Rightarrow> rtsp_header \<Rightarrow>
    (rtsp_header option \<times> rtsp_rb) option" where
  "rtsp_headers fresh parse_line rb h = do {
     (r, m, rb1) \<leftarrow> rtsp_getnext fresh rb 8192;
     (if r < 0 then Some (None, rb1)
      else if header_end (c_str m) then
        Some (Some (h\<lparr>h_session := takeWhile (\<lambda>c. c \<noteq> CHR 0x0D \<and> c \<noteq> CHR 0x0A) (h_session h)\<rparr>), rb1)
      else do { h' \<leftarrow> header_line parse_line (c_str m) h; rtsp_headers fresh parse_line rb1 h' }) }"

text \<open>The request on the connection; the flag tells whether the connection goes on.\<close>

definition rtspserver_request :: "byte list option \<Rightarrow> (string \<Rightarrow> rtsp_header \<Rightarrow> rtsp_header) \<Rightarrow> rtsp_env \<Rightarrow> rtspconf \<Rightarrow> nat \<Rightarrow>
    rtsp_rb \<Rightarrow> rtsp_ctx \<Rightarrow> 'w ff_server \<Rightarrow> ((int + bool \<times> rtsp_ctx \<times> 'w ff_server) \<times> rtsp_rb) option" where
  "rtspserver_request fresh parse_line e conf k rb c v = do {
     (r, m, rb1) \<leftarrow> rtsp_getnext fresh rb 8192;
     (if r < 0 then Some (Inr (False, c, v), rb1)
      else if take 1 m = [0x24] then Some (Inr (True, c, v), rb1)
      else let (cmd, url, protocol) = request_line (c_str m)
           in if protocol \<noteq> ''RTSP/1.0'' then Some (Inr (False, rtsp_reply_error e c STATUS_VERSION, v), rb1)
              else do {
                (ho, rb2) \<leftarrow> rtsp_headers fresh parse_line rb1 rtsp_header_zero;
                (case ho of
                   None \<Rightarrow> Some (Inr (False, c, v), rb2)
                 | Some h \<Rightarrow> do {
                     res \<leftarrow> rtsp_command e conf k cmd url h c v;
                     Some (case res of Inl x \<Rightarrow> Inl x
                       | Inr (c', v') \<Rightarrow> Inr (cx_state c' \<noteq> STATE_TEARDOWN, c', v'), rb2) }) }) }"

lemma headers_from_stream:
  "rb_ok rb \<Longrightarrow> rbufsize rb = 65536 \<Longrightarrow> rb_stream rb = concat ls @ rest \<Longrightarrow> \<forall>l\<in>set ls. rtsp_line_ok 8192 l \<Longrightarrow>
   read_headers parse_line (map c_str ls) h0 = Some (Some (h, [])) \<Longrightarrow>
   \<exists>rb'. rtsp_headers fresh parse_line rb h0 = Some (Some h, rb') \<and> rb_stream rb' = rest"
proof (induction ls arbitrary: rb h0)
  case (Cons l ls)
  have s: "rb_stream rb = l @ (concat ls @ rest)" using Cons.prems(3) by simp
  have l: "rtsp_message 8192 l" using Cons.prems(4) by (simp add: rtsp_message_def)
  obtain rb1 where g: "rtsp_getnext fresh rb 8192 = Some (int (length l), l, rb1)" "rb_ok rb1" "rb_stream rb1 = concat ls @ rest" "rbufsize rb1 = 65536"
    using getnext_message [OF Cons.prems(1,2) s l] by auto
  show ?case
  proof (cases "header_end (c_str l)")
    case True
    with Cons.prems(5) g show ?thesis by (subst rtsp_headers.simps) auto
  next
    case False
    with Cons.prems(5) obtain h1 where h1: "header_line parse_line (c_str l) h0 = Some h1"
      "read_headers parse_line (map c_str ls) h1 = Some (Some (h, []))" by auto
    obtain rb' where "rtsp_headers fresh parse_line rb1 h1 = Some (Some h, rb')" "rb_stream rb' = rest"
      using Cons.IH [OF g(2,4,3) _ h1(2)] Cons.prems(4) by auto
    with False g(1) h1(1) show ?thesis by (subst rtsp_headers.simps) simp
  qed
qed simp

text \<open>C6. From bytes to the handler. When the bytes on a connection begin with a request line of
  the three words method, URL and \<open>RTSP/1.0\<close> and header lines up to the empty one, then, however
  they are cut into segments, the server handles exactly the method with the URL and the header
  these lines say, and what follows the request stays on the stream.\<close>

theorem rtspserver_handles_request:
  assumes "rb_ok rb" and "rbufsize rb = 65536" and "rb_stream rb = concat (l # ls) @ rest" and "\<forall>l'\<in>set (l # ls). rtsp_line_ok 8192 l'"
    and "request_line (c_str l) = (cmd, url, ''RTSP/1.0'')" and "read_headers parse_line (map c_str ls) rtsp_header_zero = Some (Some (h, []))"
    and "rtsp_command e conf k cmd url h c v = Some (Inr (c', v'))"
  shows "\<exists>rb'. rtspserver_request fresh parse_line e conf k rb c v = Some (Inr (cx_state c' \<noteq> STATE_TEARDOWN, c', v'), rb') \<and> rb_stream rb' = rest"
proof -
  have s: "rb_stream rb = l @ (concat ls @ rest)" using assms(3) by simp
  have l: "rtsp_message 8192 l" "l \<noteq> []" "take 1 l \<noteq> [0x24]"
    using assms(4) by (cases l; simp add: rtsp_message_def rtsp_line_ok_def)+
  obtain rb1 where g: "rtsp_getnext fresh rb 8192 = Some (int (length l), l, rb1)" "rb_ok rb1" "rb_stream rb1 = concat ls @ rest" "rbufsize rb1 = 65536"
    using getnext_message [OF assms(1,2) s l(1)] by auto
  obtain rb' where "rtsp_headers fresh parse_line rb1 rtsp_header_zero = Some (Some h, rb')" "rb_stream rb' = rest"
    using headers_from_stream [OF g(2,4,3) _ assms(6)] assms(4) by auto
  with g(1) l(3) assms(5,7) show ?thesis by (simp add: rtspserver_request_def)
qed

section \<open>Sending packets to the clients\<close>

text \<open>One client: nothing when the stream is not set up; otherwise the packetised data go to the
  connection or to the client's port. The packetisation is FFmpeg's.\<close>

datatype sent = Sent_rtsp nat nat "byte list" | Sent_rtp nat nat "byte list"

definition ff_server_send_packet_1 :: "(nat \<Rightarrow> byte list) \<Rightarrow> nat \<Rightarrow> rtsp_ctx \<Rightarrow> nat \<Rightarrow> sent list" where
  "ff_server_send_packet_1 packetise k c channelId =
     (if \<not> fmtctx c ! channelId then []
      else if lower_transport c ! channelId = LT_TCP then [Sent_rtsp k channelId (packetise k)]
      else [Sent_rtp k channelId (packetise k)])"

text \<open>All of them: a context that is not that of a living connection is a dangling pointer.\<close>

primrec send_clients :: "(nat \<Rightarrow> rtsp_ctx option) \<Rightarrow> (nat \<Rightarrow> byte list) \<Rightarrow> nat list \<Rightarrow> nat \<Rightarrow> sent list option" where
  "send_clients conns packetise [] channelId = Some []"
| "send_clients conns packetise (k # ks) channelId = do {
     c \<leftarrow> conns k;
     rest \<leftarrow> send_clients conns packetise ks channelId;
     Some (ff_server_send_packet_1 packetise k c channelId @ rest) }"

definition ff_server_send_packet :: "(nat \<Rightarrow> rtsp_ctx option) \<Rightarrow> (nat \<Rightarrow> byte list) \<Rightarrow> 'w ff_server \<Rightarrow> nat \<Rightarrow> sent list option" where
  "ff_server_send_packet conns packetise v channelId = send_clients conns packetise (map snd (client_context v)) channelId"

section \<open>The server with its connections\<close>

text \<open>A step: a client connects, one of its requests is handled (the connection ends when that was a
  \<open>TEARDOWN\<close>), the connection ends, or a datagram arrives at one of its ports. Connections run in
  threads of their own; their requests interleave in any order.\<close>

type_synonym 'w system = "(nat \<Rightarrow> rtsp_ctx option) \<times> 'w ff_server"

inductive rtsp_step :: "rtspconf \<Rightarrow> 'w system \<Rightarrow> 'w system \<Rightarrow> bool" for conf where
  connect: "conns k = None \<Longrightarrow> rtsp_step conf (conns, v) (conns(k \<mapsto> rtsp_ctx_zero addr), v)"
| request: "conns k = Some c \<Longrightarrow> rtsp_command e conf k cmd url h c v = Some (Inr (c', v')) \<Longrightarrow> cx_state c' \<noteq> STATE_TEARDOWN \<Longrightarrow>
    rtsp_step conf (conns, v) (conns(k \<mapsto> c'), v')"
| teardown: "conns k = Some c \<Longrightarrow> rtsp_command e conf k cmd url h c v = Some (Inr (c', v')) \<Longrightarrow> cx_state c' = STATE_TEARDOWN \<Longrightarrow>
    rtsp_quit channels k c' v' = Some (c'', v'') \<Longrightarrow> rtsp_step conf (conns, v) (conns(k := None), v'')"
| hangup: "conns k = Some c \<Longrightarrow> rtsp_quit channels k c v = Some (c', v') \<Longrightarrow> rtsp_step conf (conns, v) (conns(k := None), v')"
| datagram: "conns k = Some c \<Longrightarrow> i < 16 \<Longrightarrow> rtsp_step conf (conns, v) (conns(k \<mapsto> rtp_check_peer i from c), v)"

inductive_cases rtsp_stepE: "rtsp_step conf (conns, v) (conns', v')"

inductive rtsp_reachable :: "rtspconf \<Rightarrow> 'w ff_server \<Rightarrow> 'w system \<Rightarrow> bool" for conf v0 where
  start: "rtsp_reachable conf v0 (Map.empty, v0)"
| step: "rtsp_reachable conf v0 s \<Longrightarrow> rtsp_step conf s s' \<Longrightarrow> rtsp_reachable conf v0 s'"

section \<open>The invariant\<close>

lemma encoder_register_clients:
  "encoder_register_client k s w = Inr (s', w') \<Longrightarrow> encoder_clients s' = smap_put (encoder_clients s) k k"
  by (auto simp: encoder_register_client_def Let_def split: if_splits prod.splits)

lemma encoder_unregister_clients:
  "encoder_unregister_client k s w = Some (r, s', w') \<Longrightarrow> r = 0 \<and> encoder_clients s' = smap_erase (encoder_clients s) k"
  by (auto simp: encoder_unregister_client_def Let_def split: if_splits)

text \<open>The clients that get packets are registered with the encoders as well, and both tables map a
  client to itself.\<close>

definition tables_ok :: "'w ff_server \<Rightarrow> bool" where
  "tables_ok v \<longleftrightarrow> smap_ok (client_context v) \<and> encoder_clients (ff_enc v) = client_context v \<and> (\<forall>x\<in>set (client_context v). snd x = fst x)"

definition registered :: "'w ff_server \<Rightarrow> nat \<Rightarrow> bool" where
  "registered v k \<longleftrightarrow> smap_find (client_context v) k \<noteq> None"

lemma ff_register_ok:
  assumes "ff_server_register_client k v = Inr v'" and "tables_ok v"
  shows "tables_ok v' \<and> (\<forall>x. registered v' x \<longleftrightarrow> x = k \<or> registered v x)"
proof -
  obtain s w where r: "encoder_register_client k (ff_enc v) (ff_world v) = Inr (s, w)"
    and v': "v' = v\<lparr>ff_enc := s, ff_world := w, client_context := smap_put (client_context v) k k\<rparr>"
    using assms(1) by (auto simp: ff_server_register_client_def split: sum.splits)
  have "\<forall>x\<in>set (smap_put (client_context v) k k). snd x = fst x"
    using assms(2) set_smap_put [of "client_context v" k k] by (auto simp: tables_ok_def)
  then show ?thesis using assms(2) encoder_register_clients [OF r]
    by (simp add: v' tables_ok_def registered_def smap_ok_put smap_find_put)
qed

lemma ff_unregister_ok:
  assumes "ff_server_unregister_client k v = Some (r, v')" and "tables_ok v"
  shows "tables_ok v' \<and> (\<forall>x. registered v' x \<longleftrightarrow> x \<noteq> k \<and> registered v x)"
proof -
  obtain r0 s w where r: "encoder_unregister_client k (ff_enc v) (ff_world v) = Some (r0, s, w)"
    using assms(1) by (auto simp: ff_server_unregister_client_def)
  with assms(1) encoder_unregister_clients [OF r] have v': "v' = v\<lparr>ff_enc := s, ff_world := w, client_context := smap_erase (client_context v) k\<rparr>"
    by (simp add: ff_server_unregister_client_def)
  have "\<forall>x\<in>set (smap_erase (client_context v) k). snd x = fst x"
    using assms(2) set_smap_erase [of "client_context v" k] by (auto simp: tables_ok_def)
  then show ?thesis using assms(2) encoder_unregister_clients [OF r]
    by (simp add: v' tables_ok_def registered_def smap_ok_erase smap_find_erase)
qed

lemma sess_ok_seq: "sess_ok (c\<lparr>cx_seq := n\<rparr>) = sess_ok c" "served (c\<lparr>cx_seq := n\<rparr>) = served c"
  by (rule sess_ok_cong) (simp_all add: served_def)

lemma sess_ok_out [simp]:
  "sess_ok (rtsp_printf s c) = sess_ok c" "sess_ok (rtsp_reply_error e c st) = sess_ok c" "sess_ok (reply_ok e c) = sess_ok c"
  "sess_ok (rtsp_reply_header e c st) = sess_ok c"
  by (rule sess_ok_cong; simp)+

lemma served_out [simp]:
  "served (rtsp_printf s c) = served c" "served (rtsp_reply_error e c st) = served c" "served (reply_ok e c) = served c"
  "served (rtsp_reply_header e c st) = served c"
  by (simp_all add: served_def)

lemma play_ok:
  assumes "rtsp_cmd_play e conf k c v url h = Some (Inr (c', v'))" and "sess_ok c" and "tables_ok v" and "served c \<longleftrightarrow> registered v k"
  shows "sess_ok c' \<and> tables_ok v' \<and> (served c' \<longleftrightarrow> registered v' k) \<and> (\<forall>x. x \<noteq> k \<longrightarrow> registered v' x = registered v x)"
proof (cases "v' = v \<and> (\<exists>s. c' = rtsp_reply_error e c s)")
  case True
  with assms show ?thesis by auto
next
  case False
  with assms(1) obtain ss where "cx_session c = Some ss" and r: "ff_server_register_client k v = Inr v'" and
    c': "c' = reply_ok e (c\<lparr>cx_state := STATE_PLAYING\<rparr>)"
    by (auto simp: rtsp_cmd_play_def session_matches_def split: if_splits sum.splits option.splits)
  then have "sess_ok c'" "served c'" using assms(2) by (simp_all add: sess_ok_def served_def)
  with ff_register_ok [OF r assms(3)] show ?thesis by auto
qed

lemma pause_ok:
  assumes "rtsp_cmd_pause e conf c url h = Some c'" and "sess_ok c"
  shows "sess_ok c' \<and> (served c' \<longleftrightarrow> served c)"
  using assms by (auto simp: rtsp_cmd_pause_def session_matches_def sess_ok_def served_def split: if_splits option.splits)

lemma describe_ok: "sess_ok (rtsp_cmd_describe e conf c url) = sess_ok c" "served (rtsp_cmd_describe e conf c url) = served c"
  "sess_ok (rtsp_cmd_options c) = sess_ok c" "served (rtsp_cmd_options c) = served c"
  by (simp_all add: rtsp_cmd_describe_def rtsp_cmd_options_def)

text \<open>A request that does not end the connection keeps the invariant of its session, and changes no
  registration but its own.\<close>

lemma command_ok:
  assumes "rtsp_command e conf k cmd url h c v = Some (Inr (c', v'))" and "cx_state c' \<noteq> STATE_TEARDOWN"
    and "sess_ok c" and "tables_ok v" and "served c \<longleftrightarrow> registered v k"
  shows "sess_ok c' \<and> tables_ok v' \<and> (served c' \<longleftrightarrow> registered v' k) \<and> (\<forall>x. x \<noteq> k \<longrightarrow> registered v' x = registered v x)"
proof -
  let ?c = "c\<lparr>cx_seq := h_seq h\<rparr>"
  have c: "sess_ok ?c" "served ?c \<longleftrightarrow> registered v k" using assms(3,5) by (simp_all add: sess_ok_seq)
  consider "cmd = ''SETUP''" "rtsp_cmd_setup e conf ?c url h = Some c'" "v' = v"
    | "rtsp_cmd_play e conf k ?c v url h = Some (Inr (c', v'))"
    | "rtsp_cmd_pause e conf ?c url h = Some c'" "v' = v"
    | "rtsp_cmd_teardown e conf ?c url h 1 = Some c'" "v' = v"
    | "v' = v" "c' \<in> {rtsp_cmd_describe e conf ?c url, rtsp_cmd_options ?c, rtsp_reply_error e ?c STATUS_METHOD}"
    using assms(1) by (auto simp: rtsp_command_def with_server_def Let_def split: if_splits)
  then show ?thesis
  proof cases
    case 1
    with setup_ok [OF 1(2) c(1)] c assms(4) show ?thesis by simp
  next
    case 2
    from play_ok [OF 2 c(1) assms(4) c(2)] show ?thesis .
  next
    case 3
    with pause_ok [OF 3(1) c(1)] c assms(4) show ?thesis by simp
  next
    case 4
    then obtain s where "c' = rtsp_reply_error e ?c s"
      using assms(2) by (auto simp: rtsp_cmd_teardown_def Let_def split: if_splits)
    with 4 c assms(4) show ?thesis by simp
  next
    case 5
    then show ?thesis using c assms(4) by (auto simp: describe_ok)
  qed
qed

definition sys_inv :: "'w system \<Rightarrow> bool" where
  "sys_inv s \<longleftrightarrow> (case s of (conns, v) \<Rightarrow> tables_ok v \<and> (\<forall>k c. conns k = Some c \<longrightarrow> sess_ok c) \<and>
     (\<forall>k. registered v k \<longleftrightarrow> (\<exists>c. conns k = Some c \<and> served c)))"

lemma quit_ok:
  assumes "rtsp_quit channels k c v = Some (c', v')" and "tables_ok v"
  shows "tables_ok v' \<and> (\<forall>x. registered v' x \<longleftrightarrow> x \<noteq> k \<and> registered v x)"
  using assms ff_unregister_ok by (auto simp: rtsp_quit_def)

lemma check_peer_ok: "sess_ok (rtp_check_peer i from c) = sess_ok c" "served (rtp_check_peer i from c) = served c"
  by (rule sess_ok_cong) (simp_all add: rtp_check_peer_def served_def)

lemma command_teardown:
  assumes "rtsp_command e conf k cmd url h c v = Some (Inr (c', v'))" and "cx_state c' = STATE_TEARDOWN"
  shows "v' = v"
proof (rule ccontr)
  assume "v' \<noteq> v"
  with assms(1) obtain c0 where "rtsp_cmd_play e conf k c0 v url h = Some (Inr (c', v'))"
    by (auto simp: rtsp_command_def with_server_def Let_def split: if_splits)
  with \<open>v' \<noteq> v\<close> have "cx_state c' = STATE_PLAYING"
    by (auto simp: rtsp_cmd_play_def split: if_splits sum.splits)
  with assms(2) show False by simp
qed

lemma step_inv: "rtsp_step conf s s' \<Longrightarrow> sys_inv s \<Longrightarrow> sys_inv s'"
proof (induction rule: rtsp_step.induct)
  case (connect conns k v addr)
  have "sess_ok (rtsp_ctx_zero addr)" "\<not> served (rtsp_ctx_zero addr)" by (rule sess_ok_zero) (simp add: served_def rtsp_ctx_zero_def)
  with connect show ?case by (auto simp: sys_inv_def)
next
  case (request conns k c e cmd url h v c' v')
  have r: "served c \<longleftrightarrow> registered v k" "sess_ok c" "tables_ok v" using request.prems request.hyps(1) by (auto simp: sys_inv_def)
  from command_ok [OF request.hyps(2,3) r(2,3,1)] request.prems show ?case by (auto simp: sys_inv_def)
next
  case (teardown conns k c e cmd url h v c1 v1 channels c2 v2)
  have "v1 = v" by (rule command_teardown [OF teardown.hyps(2,3)])
  moreover have "tables_ok v" using teardown.prems by (simp add: sys_inv_def)
  ultimately show ?case using quit_ok [OF teardown.hyps(4)] teardown.prems by (auto simp: sys_inv_def)
next
  case (hangup conns k c channels v c' v')
  have "tables_ok v" using hangup.prems by (simp add: sys_inv_def)
  from quit_ok [OF hangup.hyps(2) this] hangup.prems show ?case by (auto simp: sys_inv_def)
next
  case (datagram conns k c i v peer)
  then show ?case by (auto simp: sys_inv_def check_peer_ok)
qed

definition ff_server_idle :: "'w ff_server \<Rightarrow> bool" where
  "ff_server_idle v \<longleftrightarrow> client_context v = [] \<and> encoder_clients (ff_enc v) = []"

lemma reachable_inv: "rtsp_reachable conf v0 s \<Longrightarrow> ff_server_idle v0 \<Longrightarrow> sys_inv s"
proof (induction rule: rtsp_reachable.induct)
  case start
  then show ?case by (simp add: sys_inv_def tables_ok_def registered_def ff_server_idle_def)
next
  case (step s s')
  then show ?case using step_inv by blast
qed

text \<open>C2. In every state the server can reach, whatever its clients send and in whatever order the
  threads run, the clients registered with the encoders are those that get packets, and these are
  exactly the connections that are playing or paused; each of them has a session and at least one
  stream, and no stream of theirs is half set up.\<close>

theorem rtsp_sessions_invariant:
  assumes "rtsp_reachable conf v0 (conns, v)" and "ff_server_idle v0"
  shows "encoder_clients (ff_enc v) = client_context v \<and>
    (smap_find (client_context v) k \<noteq> None \<longleftrightarrow> (\<exists>c. conns k = Some c \<and> served c)) \<and>
    (conns k = Some c \<and> served c \<longrightarrow> cx_session c \<noteq> None \<and> (\<exists>i<3. fmtctx c ! i) \<and> stream c = fmtctx c \<and> encoder c = fmtctx c)"
proof -
  have i: "sys_inv (conns, v)" by (rule reachable_inv [OF assms])
  then have "conns k = Some c \<Longrightarrow> sess_ok c" by (simp add: sys_inv_def)
  with i show ?thesis by (auto simp: sys_inv_def tables_ok_def registered_def sess_ok_def)
qed


section \<open>Requests in the wrong order\<close>

text \<open>\<open>PLAY\<close>, \<open>PAUSE\<close> and \<open>TEARDOWN\<close> compare the session of the request with that of the
  context without looking whether there is one: on a connection without a session, which is how
  every connection starts, such a request for the served object is undefined (a NULL pointer is
  passed to \<open>strcmp\<close>). A connection that is fresh is in this state.\<close>

theorem rtsp_play_without_session:
  assumes "cx_session c = None" and "path_matches conf (url_path e url)" and "cmd \<in> {''PLAY'', ''PAUSE'', ''TEARDOWN''}"
  shows "rtsp_command e conf k cmd url h c v = None \<and> cx_session (rtsp_ctx_zero addr) = None"
  using assms by (auto simp: rtsp_command_def rtsp_cmd_play_def rtsp_cmd_pause_def rtsp_cmd_teardown_def session_matches_def
      with_server_def rtsp_ctx_zero_def)

text \<open>Everything that \<open>SETUP\<close> asks of FFmpeg and the sockets works.\<close>

definition env_works :: "rtsp_env \<Rightarrow> rtspconf \<Rightarrow> bool" where
  "env_works e conf \<longleftrightarrow> getpeername_ok e \<and> getsockname_ok e \<and> (\<forall>i. rtp_open_internal e i \<noteq> None) \<and> av_format_ok e \<and> av_alloc_ok e \<and>
     av_dynbuf_ok e \<and> av_stream_ok e \<and> av_encoder_ok e \<and> av_header_ok e \<and> video_encoder_codec conf \<noteq> 0 \<and> audio_encoder_codec conf \<noteq> 0"

lemma open_ports_works:
  assumes "env_works e conf" and "0 \<le> i"
  shows "\<exists>c'. rtp_open_ports e c i = (0, c')"
proof -
  obtain a b a' b' where "rtp_open_internal e (nat (i * 2)) = Some (a, b)" "rtp_open_internal e (nat (i * 2) + 1) = Some (a', b')"
    using assms(1) unfolding env_works_def by (metis not_None_eq surj_pair)
  with assms(2) show ?thesis by (simp add: rtp_open_ports_def Let_def)
qed

lemma new_av_stream_works:
  assumes "env_works e conf" and "i < 3" and "codec = codec_id_of e (video_encoder_codec conf) \<or> codec = codec_id_of e (audio_encoder_codec conf)"
  shows "\<exists>c'. rtp_new_av_stream e conf c i codec = Some (if fmtctx c ! i then -1 else 0, c') \<and> (fmtctx c ! i \<longrightarrow> c' = c) \<and>
    (\<not> fmtctx c ! i \<longrightarrow> fmtctx c' = (fmtctx c)[i := True] \<and> cx_session c' = cx_session c)"
proof -
  obtain c1 where p: "(if lower_transport c ! i = LT_UDP then rtp_open_ports e c (int i) else (0, c)) = (0, c1)"
    using open_ports_works [OF assms(1), of "int i" c] by (cases "lower_transport c ! i = LT_UDP") auto
  have "c1 = snd (if lower_transport c ! i = LT_UDP then rtp_open_ports e c (int i) else (0, c))" unfolding p by simp
  then have c1: "fmtctx c1 = fmtctx c" "cx_session c1 = cx_session c" by simp_all
  have codecs: "codec_id e (video_encoder_codec conf) = Some (codec_id_of e (video_encoder_codec conf))"
    "codec_id e (audio_encoder_codec conf) = Some (codec_id_of e (audio_encoder_codec conf))"
    using assms(1) by (simp_all add: env_works_def codec_id_def)
  have env: "av_format_ok e" "av_alloc_ok e" "av_dynbuf_ok e" "av_stream_ok e" "av_encoder_ok e" "av_header_ok e"
    using assms(1) by (simp_all add: env_works_def)
  have i: "\<not> i > 2" using assms(2) by simp
  have r: "rtp_new_av_stream e conf c i codec = Some (if fmtctx c ! i then (-1, c)
      else (0, c1\<lparr>encoder := (encoder c1)[i := True], stream := (stream c1)[i := True], fmtctx := (fmtctx c1)[i := True]\<rparr>))"
    unfolding rtp_new_av_stream_def if_not_P [OF i] codecs bind.simps p Let_def prod.case using assms(3) by (auto simp: env)
  show ?thesis by (cases "fmtctx c ! i") (simp_all add: r c1)
qed

lemma setup_works:
  assumes "env_works e conf" and "setup_stream conf (url_path e url) = Some (Inr i)" and "cx_state c = STATE_IDLE \<or> cx_state c = STATE_READY"
    and "setup_session e c h = (c1, hs)" and "cx_session c1 = Some hs"
    and "find_transport h LT_UDP \<noteq> None \<or> find_transport h LT_TCP \<noteq> None"
  shows "\<exists>c'. rtsp_cmd_setup e conf c url h = Some c' \<and>
    (\<not> fmtctx c ! i \<longrightarrow> cx_state c' = STATE_READY \<and> cx_session c' = Some hs \<and> fmtctx c' = (fmtctx c)[i := True]) \<and>
    (fmtctx c ! i \<longrightarrow> cx_state c' = cx_state c \<and> cx_session c' = None \<and> fmtctx c' = (fmtctx c)[i := False])"
proof -
  obtain t where t: "(case find_transport h LT_UDP of None \<Rightarrow> find_transport h LT_TCP | Some t \<Rightarrow> Some t) = Some t"
    using assms(6) by (cases "find_transport h LT_UDP") auto
  let ?c = "c1\<lparr>lower_transport := (lower_transport c1)[i := th_lower t]\<rparr>"
  let ?cid = "if i = source_channels e then audio_encoder_codec conf else video_encoder_codec conf"
  have same: "fmtctx c1 = fmtctx c" "cx_state c1 = cx_state c" using assms(4) by (auto simp: setup_session_def Let_def split: if_splits)
  have i: "i < 3" by (rule setup_stream_index [OF assms(2)])
  have cid: "codec_id e ?cid = Some (codec_id_of e ?cid)" using assms(1) by (simp add: env_works_def codec_id_def)
  obtain c2 where c2: "rtp_new_av_stream e conf ?c i (codec_id_of e ?cid) = Some (if fmtctx c ! i then -1 else 0, c2)"
    "fmtctx c ! i \<longrightarrow> c2 = ?c" "\<not> fmtctx c ! i \<longrightarrow> fmtctx c2 = (fmtctx c)[i := True] \<and> cx_session c2 = Some hs"
  proof -
    have "codec_id_of e ?cid = codec_id_of e (video_encoder_codec conf) \<or> codec_id_of e ?cid = codec_id_of e (audio_encoder_codec conf)" by simp
    from new_av_stream_works [OF assms(1) i this, of ?c] same assms(5) that show thesis by auto
  qed
  have env: "getpeername_ok e" "getsockname_ok e" using assms(1) by (simp_all add: env_works_def)
  have "rtsp_cmd_setup e conf c url h = Some (if fmtctx c ! i then setup_error e c2 i STATUS_TRANSPORT else setup_reply e c2 i t)"
    using assms(3,5) env unfolding rtsp_cmd_setup_def assms(2,4) bind.simps sum.case Let_def prod.case t option.case cid c2(1) by auto
  with c2 same show ?thesis by auto
qed

text \<open>The session id that \<open>SETUP\<close> makes up is one that the header reader accepts.\<close>

lemma digit_char_ok: "d < 16 \<Longrightarrow> \<not> c_isspace (digit_char d) \<and> digit_char d \<noteq> CHR '';''"
proof -
  assume "d < 16"
  then have "of_char (digit_char d) = (if d < 10 then 48 + d else 87 + d)" by (simp add: digit_char_def)
  moreover have "digit_char d = CHR '';'' \<Longrightarrow> of_char (digit_char d) = (59 :: nat)" by simp
  ultimately show ?thesis using \<open>d < 16\<close> by (auto simp: c_isspace_def split: if_splits)
qed

lemma hex_chars: "c \<in> set (nat_str 16 n) \<Longrightarrow> \<not> c_isspace c \<and> c \<noteq> CHR '';''"
proof (induction "16 :: nat" n rule: nat_str.induct)
  case (1 n)
  then show ?case using digit_char_ok [of n] digit_char_ok [of "n mod 16"]
    by (subst (asm) nat_str.simps) (auto split: if_splits)
qed

lemma hex_length: "n < 16 ^ Suc k \<Longrightarrow> 0 < length (nat_str 16 n) \<and> length (nat_str 16 n) \<le> Suc k"
proof (induction k arbitrary: n)
  case (Suc k)
  have "n div 16 < 16 ^ Suc k" using Suc.prems by (simp add: div_less_iff_less_mult)
  from Suc.IH [OF this] show ?case by (subst (1 2) nat_str.simps) auto
qed (simp add: nat_str.simps)

lemma show_04x_ok:
  assumes "n < 65536"
  shows "length (show_04x n) = 4 \<and> (\<forall>c\<in>set (show_04x n). \<not> c_isspace c \<and> c \<noteq> CHR '';'')"
proof -
  have z: "\<not> c_isspace CHR ''0''" by (simp add: c_isspace_def)
  show ?thesis using hex_length [of n 3] hex_chars [of _ n] assms z by (auto simp: show_04x_def Let_def)
qed

lemma made_session_ok: "session_ok (show_04x (a mod 65535) @ show_04x (b mod 65535)) \<and> length (show_04x (a mod 65535) @ show_04x (b mod 65535)) = 8"
proof -
  let ?a = "show_04x (a mod 65535)" and ?b = "show_04x (b mod 65535)"
  have m: "x mod 65535 < 65536" for x :: nat using mod_less_divisor [of 65535 x] by linarith
  have a: "length ?a = 4" "\<forall>c\<in>set ?a. \<not> c_isspace c \<and> c \<noteq> CHR '';''" using show_04x_ok [OF m] by blast+
  have b: "length ?b = 4" "\<forall>c\<in>set ?b. \<not> c_isspace c \<and> c \<noteq> CHR '';''" using show_04x_ok [OF m] by blast+
  have l: "length (?a @ ?b) = 8" unfolding length_append a(1) b(1) by simp
  then have "?a @ ?b \<noteq> []" by (metis list.size(3) zero_neq_numeral)
  moreover have "\<forall>c\<in>set (?a @ ?b). \<not> c_isspace c \<and> c \<noteq> CHR '';''" using a(2) b(2) unfolding set_append by blast
  ultimately have "session_ok (?a @ ?b)" unfolding session_ok_def word_ok_def l by auto
  with l show ?thesis by blast
qed

lemma setup_play_works:
  assumes "env_works e conf" and "setup_stream conf (url_path e url) = Some (Inr i)" and "sess_ok c" and "cx_state c = STATE_IDLE"
    and "h_session h = []" and "find_transport h LT_UDP \<noteq> None \<or> find_transport h LT_TCP \<noteq> None"
    and "path_matches conf (url_path e url2)" and "ff_server_register_client k v = Inr v'"
  shows "\<exists>c1 s c2. rtsp_command e conf k ''SETUP'' url h c v = Some (Inr (c1, v)) \<and> cx_state c1 = STATE_READY \<and> cx_session c1 = Some s \<and>
    session_ok s \<and> length s = 8 \<and> fmtctx c1 ! i \<and>
    rtsp_command e conf k ''PLAY'' url2 (h\<lparr>h_session := s\<rparr>) c1 v = Some (Inr (c2, v')) \<and> cx_state c2 = STATE_PLAYING \<and> fmtctx c2 ! i"
proof -
  let ?c = "c\<lparr>cx_seq := h_seq h\<rparr>" and ?s = "show_04x (fst (session_rand e) mod 65535) @ show_04x (snd (session_rand e) mod 65535)"
  have idle: "cx_session c = None" "fmtctx c = replicate 8 False" using assms(3,4) by (auto simp: sess_ok_def)
  have i: "i < 3" by (rule setup_stream_index [OF assms(2)])
  have ss: "setup_session e ?c h = (?c\<lparr>cx_session := Some ?s\<rparr>, ?s)" using idle assms(5) by (simp add: setup_session_def Let_def)
  obtain c1 where c1: "rtsp_cmd_setup e conf ?c url h = Some c1" "cx_state c1 = STATE_READY" "cx_session c1 = Some ?s" "fmtctx c1 ! i"
    using setup_works [OF assms(1,2) _ ss _ assms(6)] assms(4) idle i by auto
  let ?c1 = "c1\<lparr>cx_seq := h_seq h\<rparr>"
  have "rtsp_cmd_play e conf k ?c1 v url2 (h\<lparr>h_session := ?s\<rparr>) = Some (Inr (reply_ok e (?c1\<lparr>cx_state := STATE_PLAYING\<rparr>), v'))"
    using assms(7,8) c1(2,3) by (simp add: rtsp_cmd_play_def session_matches_def)
  with c1 made_session_ok [of "fst (session_rand e)" "snd (session_rand e)"] show ?thesis
    by (simp add: rtsp_command_def with_server_def Let_def)
qed

text \<open>C29. The normal course. On a connection of which nothing is set up yet, when FFmpeg and the
  sockets work, \<open>SETUP\<close> of a stream makes the connection ready with a session of eight
  characters that the header reader accepts, and \<open>PLAY\<close> with that session registers the client and starts playing.\<close>

theorem rtsp_setup_then_play:
  assumes "env_works e conf" and "setup_stream conf (url_path e url) = Some (Inr i)" and "sess_ok c" and "cx_state c = STATE_IDLE"
    and "h_session h = []" and "find_transport h LT_UDP \<noteq> None \<or> find_transport h LT_TCP \<noteq> None"
    and "path_matches conf (url_path e url2)" and "ff_server_register_client k v = Inr v'"
  shows "\<exists>c1 s c2. rtsp_command e conf k ''SETUP'' url h c v = Some (Inr (c1, v)) \<and> cx_state c1 = STATE_READY \<and> cx_session c1 = Some s \<and>
    session_ok s \<and> length s = 8 \<and> fmtctx c1 ! i \<and>
    rtsp_command e conf k ''PLAY'' url2 (h\<lparr>h_session := s\<rparr>) c1 v = Some (Inr (c2, v')) \<and> cx_state c2 = STATE_PLAYING \<and> fmtctx c2 ! i"
  by (rule setup_play_works [OF assms])

text \<open>A second \<open>SETUP\<close> of a stream that is set up, with the right session, destroys it: the error
  path closes the existing stream and forgets the session, although the state stays \<open>READY\<close>; a
  following \<open>PLAY\<close> is undefined.\<close>

theorem rtsp_setup_twice:
  assumes "env_works e conf" and "setup_stream conf (url_path e url) = Some (Inr i)" and "cx_state c = STATE_READY"
    and "cx_session c = Some (h_session h)" and "fmtctx c ! i" and "length (fmtctx c) = 8"
    and "find_transport h LT_UDP \<noteq> None \<or> find_transport h LT_TCP \<noteq> None" and "path_matches conf (url_path e url2)"
  shows "\<exists>c'. rtsp_command e conf k ''SETUP'' url h c v = Some (Inr (c', v)) \<and> cx_state c' = STATE_READY \<and> \<not> fmtctx c' ! i \<and>
    cx_session c' = None \<and> rtsp_command e conf k ''PLAY'' url2 h2 c' v = None"
proof -
  let ?c = "c\<lparr>cx_seq := h_seq h\<rparr>"
  have ss: "setup_session e ?c h = (?c, h_session h)" using assms(4) by (simp add: setup_session_def)
  have i: "i < 3" by (rule setup_stream_index [OF assms(2)])
  obtain c' where c': "rtsp_cmd_setup e conf ?c url h = Some c'" "cx_state c' = STATE_READY" "cx_session c' = None" "\<not> fmtctx c' ! i"
    using setup_works [OF assms(1,2) _ ss _ assms(7)] assms(3-6) i by auto
  then show ?thesis using assms(8)
    by (simp add: rtsp_command_def with_server_def Let_def rtsp_cmd_play_def session_matches_def)
qed

section \<open>Ports\<close>

text \<open>When the second socket of a stream cannot be opened, the call fails but the first socket,
  which has been closed, stays recorded: the next call for the same stream reports success without
  opening anything, with a closed socket and the error value -1 as the stream's sockets.\<close>

theorem rtp_open_ports_failure_sticks:
  assumes "0 \<le> i" and "i < 8" and "length (rtpSocket c) = 16" and "rtpSocket c ! nat (i * 2) = 0"
    and "rtp_open_internal e (nat (i * 2)) = Some (fd, port)" and "fd \<noteq> 0" and "rtp_open_internal e (nat (i * 2) + 1) = None"
  shows "\<exists>c'. rtp_open_ports e c i = (-1, c') \<and> rtp_open_ports e' c' i = (0, c') \<and>
    rtpSocket c' ! nat (i * 2) = fd \<and> rtpSocket c' ! (nat (i * 2) + 1) = -1"
proof -
  have n: "nat (i * 2) < 16" "nat (i * 2) + 1 < 16" using assms(1,2) by auto
  let ?c = "if i + 1 > streamCount c then c\<lparr>streamCount := i + 1\<rparr> else c"
  have "rtpSocket ?c = rtpSocket c" "\<not> i + 1 > streamCount ?c" by simp_all
  with assms n show ?thesis by (auto simp: rtp_open_ports_def Let_def)
qed

text \<open>The datagrams of a connection, each with the index of the socket it arrives at.\<close>

definition rtp_datagrams :: "(nat \<times> u32 \<times> u16) list \<Rightarrow> rtsp_ctx \<Rightarrow> rtsp_ctx" where
  "rtp_datagrams ds c = foldl (\<lambda>c (i, from). rtp_check_peer i from c) c ds"

lemma check_peer_lengths:
  "length (rtpPeerPort (rtp_check_peer i from c)) = length (rtpPeerPort c)"
  "length (rtpPortChecked (rtp_check_peer i from c)) = length (rtpPortChecked c)" "cx_client (rtp_check_peer i from c) = cx_client c"
  by (simp_all add: rtp_check_peer_def)

lemma rtp_datagrams_checked:
  "i < length (rtpPortChecked c) \<Longrightarrow> rtpPortChecked c ! i \<Longrightarrow> rtpPortChecked (rtp_datagrams ds c) ! i \<and> rtpPeerPort (rtp_datagrams ds c) ! i = rtpPeerPort c ! i"
proof (induction ds arbitrary: c)
  case (Cons d ds)
  obtain j p where d: "d = (j, p)" by (cases d)
  have "rtpPortChecked (rtp_check_peer j p c) ! i" "rtpPeerPort (rtp_check_peer j p c) ! i = rtpPeerPort c ! i"
    using Cons.prems by (cases "j = i"; simp add: rtp_check_peer_def)+
  with Cons show ?case by (simp add: rtp_datagrams_def d check_peer_lengths)
qed (simp add: rtp_datagrams_def)

text \<open>Hole punching. The port to which a stream is sent becomes the source port of the first
  datagram that arrives on its socket from the client's own address, and stays that port: neither
  datagrams from other addresses nor later ones from the client change it.\<close>

theorem rtp_peer_port_fixed:
  assumes "\<forall>d\<in>set before. fst d \<noteq> i \<or> fst (snd d) \<noteq> cx_client c" and "i < 16" and "length (rtpPeerPort c) = 16" and "length (rtpPortChecked c) = 16"
    and "\<not> rtpPortChecked c ! i"
  shows "rtpPeerPort (rtp_datagrams before c) ! i = rtpPeerPort c ! i \<and>
    rtpPeerPort (rtp_datagrams (before @ (i, cx_client c, port) # after) c) ! i = port"
proof -
  have b: "rtpPeerPort (rtp_datagrams before c) ! i = rtpPeerPort c ! i \<and> \<not> rtpPortChecked (rtp_datagrams before c) ! i \<and>
      length (rtpPeerPort (rtp_datagrams before c)) = 16 \<and> length (rtpPortChecked (rtp_datagrams before c)) = 16 \<and>
      cx_client (rtp_datagrams before c) = cx_client c"
    using assms
  proof (induction before arbitrary: c)
    case (Cons d ds)
    obtain j p where d: "d = (j, p)" by (cases d)
    let ?c = "rtp_check_peer j p c"
    have "rtpPeerPort ?c ! i = rtpPeerPort c ! i" "\<not> rtpPortChecked ?c ! i"
      using Cons.prems by (cases "j = i"; simp add: rtp_check_peer_def d)+
    with Cons.IH [of ?c] Cons.prems show ?case by (simp add: rtp_datagrams_def d check_peer_lengths)
  qed (simp add: rtp_datagrams_def)
  let ?c = "rtp_check_peer i (cx_client c, port) (rtp_datagrams before c)"
  have "rtpPortChecked ?c ! i" "rtpPeerPort ?c ! i = port" using b assms(2) by (auto simp: rtp_check_peer_def)
  moreover have "rtp_datagrams (before @ (i, cx_client c, port) # after) c = rtp_datagrams after ?c" by (simp add: rtp_datagrams_def)
  ultimately show ?thesis using b rtp_datagrams_checked [of i ?c after] assms(2) by (simp add: check_peer_lengths)
qed

section \<open>Every request has a reply\<close>

text \<open>A reply: the status line, the sequence number of the request, further lines and an empty line.\<close>

definition reply_with :: "int \<Rightarrow> rtsp_status \<Rightarrow> string list \<Rightarrow> bool" where
  "reply_with n s r \<longleftrightarrow> (\<exists>rest. r = [status_text s, ''CSeq: '' @ int_str n @ crlf] @ rest \<and> crlf \<in> set rest)"

definition replies :: "rtsp_ctx \<Rightarrow> rtsp_ctx \<Rightarrow> bool" where
  "replies c c' \<longleftrightarrow> (\<exists>s r. cx_out c' = cx_out c @ r \<and> reply_with (cx_seq c) s r)"

lemma repliesI: "cx_out c' = cx_out c @ [status_text s, ''CSeq: '' @ int_str (cx_seq c) @ crlf] @ rest \<Longrightarrow> crlf \<in> set rest \<Longrightarrow> replies c c'"
  unfolding replies_def reply_with_def by blast

lemma replies_error: "cx_out c1 = cx_out c \<Longrightarrow> cx_seq c1 = cx_seq c \<Longrightarrow> replies c (rtsp_reply_error e c1 s)"
  by (rule repliesI [where rest = "[''Date: '' @ gmt_date e @ '' GMT'' @ crlf, crlf]"])
    (simp_all add: rtsp_reply_error_def rtsp_reply_header_def)

lemma replies_setup_error: "cx_out c1 = cx_out c \<Longrightarrow> cx_seq c1 = cx_seq c \<Longrightarrow> replies c (setup_error e c1 i s)"
  unfolding setup_error_def by (rule replies_error) simp_all

lemma replies_ok: "cx_out c1 = cx_out c \<Longrightarrow> cx_seq c1 = cx_seq c \<Longrightarrow> replies c (reply_ok e c1)"
  by (rule repliesI [where rest = "[''Date: '' @ gmt_date e @ '' GMT'' @ crlf, reply_session c1, crlf]"])
    (simp_all add: reply_ok_def rtsp_reply_header_def)

lemma replies_setup: "cx_out c1 = cx_out c \<Longrightarrow> cx_seq c1 = cx_seq c \<Longrightarrow> replies c (setup_reply e c1 i t)"
proof -
  assume a: "cx_out c1 = cx_out c" "cx_seq c1 = cx_seq c"
  have "\<exists>tr. cx_out (setup_reply e c1 i t) = cx_out c @ [status_text STATUS_OK, ''CSeq: '' @ int_str (cx_seq c) @ crlf] @
      ([''Date: '' @ gmt_date e @ '' GMT'' @ crlf, reply_session c1] @ tr @ [crlf])"
    using a by (cases "th_lower t") (auto simp: setup_reply_def rtsp_reply_header_def Let_def)
  then show ?thesis by (auto intro!: repliesI)
qed

lemma setup_replies:
  assumes "rtsp_cmd_setup e conf c url h = Some c'"
  shows "replies c c'"
  using assms
proof (cases rule: setup_cases)
  case (refused st)
  then show ?thesis using replies_error by blast
next
  case (failed i st c1 hs)
  then show ?thesis using setup_session_same [OF failed(2)] replies_setup_error by blast
next
  case (stream i t codec r c1 hs c2)
  have "cx_out c2 = cx_out c" "cx_seq c2 = cx_seq c"
    using new_av_stream_cases [OF stream(4)] setup_session_same [OF stream(2)] by simp_all
  with stream(5) replies_setup_error replies_setup show ?thesis by (cases "r < 0") auto
qed

lemma describe_replies: "replies c (rtsp_cmd_describe e conf c url)" "replies c (rtsp_cmd_options c)"
proof -
  show "replies c (rtsp_cmd_describe e conf c url)"
  proof (cases "url_path e url = rc_object conf")
    case True
    then show ?thesis
      by (intro repliesI [where rest = "[''Date: '' @ gmt_date e @ '' GMT'' @ crlf, ''Content-Base: '' @ url @ ''/'' @ crlf,
           ''Content-Type: application/sdp'' @ crlf, ''Content-Length: '' @ int_str (int (length (sdp_content e))) @ crlf, crlf, sdp_content e]"])
        (simp_all add: rtsp_cmd_describe_def rtsp_reply_header_def)
  qed (simp add: rtsp_cmd_describe_def replies_error)
  show "replies c (rtsp_cmd_options c)"
    by (rule repliesI [where rest = "[''Public: OPTIONS, DESCRIBE, SETUP, TEARDOWN, PLAY'' @ crlf, crlf]"])
      (simp_all add: rtsp_cmd_options_def)
qed

text \<open>Every request that is handled gets one complete reply with its own sequence number, unless it
  ends the session: an accepted \<open>TEARDOWN\<close> gets no reply at all, since the server calls its handler
  in the mode that does not answer.\<close>

theorem rtsp_command_replies:
  assumes "rtsp_command e conf k cmd url h c v = Some (Inr (c', v'))"
  shows "(\<exists>s r. cx_out c' = cx_out c @ r \<and> reply_with (h_seq h) s r) \<or>
    cmd = ''TEARDOWN'' \<and> cx_state c' = STATE_TEARDOWN \<and> cx_out c' = cx_out c"
proof -
  let ?c = "c\<lparr>cx_seq := h_seq h\<rparr>"
  have *: ?thesis if "replies ?c c'" using that by (auto simp: replies_def)
  consider "rtsp_cmd_setup e conf ?c url h = Some c'" | "rtsp_cmd_play e conf k ?c v url h = Some (Inr (c', v'))"
    | "rtsp_cmd_pause e conf ?c url h = Some c'" | "cmd = ''TEARDOWN''" "rtsp_cmd_teardown e conf ?c url h 1 = Some c'"
    | "c' = rtsp_cmd_describe e conf ?c url" | "c' = rtsp_cmd_options ?c" | "c' = rtsp_reply_error e ?c STATUS_METHOD"
    using assms by (auto simp: rtsp_command_def with_server_def Let_def split: if_splits)
  then show ?thesis
  proof cases
    case 1
    then show ?thesis by (intro * setup_replies)
  next
    case 2
    then have "(\<exists>s. c' = rtsp_reply_error e ?c s) \<or> c' = reply_ok e (?c\<lparr>cx_state := STATE_PLAYING\<rparr>)"
      by (auto simp: rtsp_cmd_play_def split: if_splits sum.splits)
    then show ?thesis using replies_error [of ?c ?c] replies_ok [of "?c\<lparr>cx_state := STATE_PLAYING\<rparr>" ?c] by (auto intro!: *)
  next
    case 3
    then have "(\<exists>s. c' = rtsp_reply_error e ?c s) \<or> c' = reply_ok e (?c\<lparr>cx_state := STATE_PAUSE\<rparr>)"
      by (auto simp: rtsp_cmd_pause_def split: if_splits)
    then show ?thesis using replies_error [of ?c ?c] replies_ok [of "?c\<lparr>cx_state := STATE_PAUSE\<rparr>" ?c] by (auto intro!: *)
  next
    case 4
    then have "(\<exists>s. c' = rtsp_reply_error e ?c s) \<or> c' = ?c\<lparr>cx_state := STATE_TEARDOWN\<rparr>"
      by (auto simp: rtsp_cmd_teardown_def Let_def split: if_splits)
    then show ?thesis using replies_error [of ?c ?c] 4(1) * by auto
  qed (use * describe_replies replies_error [of ?c ?c] in auto)
qed

section \<open>Concrete runs\<close>

text \<open>A client that sets up the video stream over TCP and plays it.\<close>

definition ex_env :: rtsp_env where
  "ex_env = \<lparr>url_path = (\<lambda>u. u), session_rand = (5, 300), getpeername_ok = True, getsockname_ok = True,
     rtp_open_internal = (\<lambda>i. Some (int i + 10, word_of_nat i + 5000)), av_format_ok = True, av_alloc_ok = True, av_dynbuf_ok = True,
     av_stream_ok = True, av_encoder_ok = True, av_header_ok = True, codec_id_of = (\<lambda>c. c), source_channels = 1,
     sdp_content = ''v=0'', gmt_date = ''Thu, 01 Jan 1970 00:00:00''\<rparr>"

definition ex_conf :: rtspconf where
  "ex_conf = rtspconf_init\<lparr>video_encoder_codec := 27, audio_encoder_codec := 40\<rparr>"

definition ex_header :: rtsp_header where
  "ex_header = \<lparr>h_seq = 3, h_session = [], h_transports = [\<lparr>th_lower = LT_TCP, client_port_min = 0, client_port_max = 1\<rparr>]\<rparr>"

definition ex_server :: "enc_call list ff_server" where
  "ex_server = \<lparr>ff_enc = encoder_idle example_queues, ff_world = [], client_context = []\<rparr>"

definition ex_url :: string where "ex_url = ''/desktop/streamid=0''"

lemma ex_works: "env_works ex_env ex_conf"
  by (simp add: env_works_def ex_env_def ex_conf_def)

lemma ex_stream: "setup_stream ex_conf (url_path ex_env ex_url) = Some (Inr 0)"
proof -
  have "setup_stream (rtspconf_init\<lparr>video_encoder_codec := 27, audio_encoder_codec := 40\<rparr>) ''/desktop/streamid=0'' = Some (Inr 0)"
    by code_simp
  then show ?thesis by (simp add: ex_conf_def ex_env_def ex_url_def)
qed

lemma ex_path: "path_matches ex_conf (url_path ex_env ex_url)"
  by (simp add: path_matches_def ex_conf_def ex_env_def ex_url_def rtspconf_init_def)

lemma ex_transport: "find_transport ex_header LT_UDP \<noteq> None \<or> find_transport ex_header LT_TCP \<noteq> None"
  by (simp add: find_transport_def ex_header_def)

lemma ex_idle: "ff_server_idle ex_server"
  by (simp add: ff_server_idle_def ex_server_def encoder_idle_def)

lemma ex_register: "\<exists>v. ff_server_register_client 1 ex_server = Inr v"
proof -
  have "life_inv (encoder_idle example_queues) []"
    using example_ready by (auto simp: life_inv_def encoder_idle_def intro: exI [of _ 0])
  from register_life [OF this, of 1] show ?thesis by (auto simp: ff_server_register_client_def ex_server_def)
qed

text \<open>The server reaches a state in which client 1 plays.\<close>

lemma ex_reachable:
  "\<exists>conns v c. rtsp_reachable ex_conf ex_server (conns, v) \<and> conns 1 = Some c \<and> served c \<and> fmtctx c ! 0"
proof -
  obtain v where v: "ff_server_register_client 1 ex_server = Inr v" using ex_register ..
  have h: "h_session ex_header = []" by (simp add: ex_header_def)
  obtain c1 s c2 where c: "rtsp_command ex_env ex_conf 1 ''SETUP'' ex_url ex_header (rtsp_ctx_zero 7) ex_server = Some (Inr (c1, ex_server))"
    "cx_state c1 = STATE_READY"
    "rtsp_command ex_env ex_conf 1 ''PLAY'' ex_url (ex_header\<lparr>h_session := s\<rparr>) c1 ex_server = Some (Inr (c2, v))"
    "cx_state c2 = STATE_PLAYING" "fmtctx c2 ! 0"
    using setup_play_works [OF ex_works ex_stream sess_ok_zero _ h ex_transport ex_path v, of 7] by (auto simp: rtsp_ctx_zero_def)
  let ?r = "rtsp_reachable ex_conf ex_server"
  have "?r (Map.empty, ex_server)" by (rule rtsp_reachable.start)
  then have "?r (Map.empty(1 \<mapsto> rtsp_ctx_zero 7), ex_server)" by (rule rtsp_reachable.step) (simp add: rtsp_step.connect)
  then have "?r (Map.empty(1 \<mapsto> rtsp_ctx_zero 7, 1 \<mapsto> c1), ex_server)"
    by (rule rtsp_reachable.step) (rule rtsp_step.request [OF _ c(1)], simp_all add: c(2))
  then have "?r (Map.empty(1 \<mapsto> rtsp_ctx_zero 7, 1 \<mapsto> c1, 1 \<mapsto> c2), v)"
    by (rule rtsp_reachable.step) (rule rtsp_step.request [OF _ c(3)], simp_all add: c(4))
  moreover have "served c2" using c(4) by (simp add: served_def)
  ultimately show ?thesis using c(5) by fastforce
qed

theorem rtsp_sessions_invariant_witness:
  "\<exists>conns v c. rtsp_reachable ex_conf ex_server (conns, v) \<and> conns 1 = Some c \<and> served c \<and> cx_session c \<noteq> None \<and>
     smap_find (client_context v) 1 \<noteq> None"
proof -
  obtain conns v c where r: "rtsp_reachable ex_conf ex_server (conns, v)" "conns 1 = Some c" "served c" using ex_reachable by blast
  from rtsp_sessions_invariant [OF r(1) ex_idle, of 1 c] r show ?thesis by blast
qed


theorem rtsp_play_without_session_witness:
  "rtsp_command ex_env ex_conf 1 ''PLAY'' ex_url ex_header (rtsp_ctx_zero 7) ex_server = None"
proof -
  have "cx_session (rtsp_ctx_zero 7) = None" by (simp add: rtsp_ctx_zero_def)
  from rtsp_play_without_session [OF this ex_path] show ?thesis by blast
qed

theorem rtsp_setup_then_play_witness:
  "\<exists>c1 s c2 v. rtsp_command ex_env ex_conf 1 ''SETUP'' ex_url ex_header (rtsp_ctx_zero 7) ex_server = Some (Inr (c1, ex_server)) \<and>
     session_ok s \<and> rtsp_command ex_env ex_conf 1 ''PLAY'' ex_url (ex_header\<lparr>h_session := s\<rparr>) c1 ex_server = Some (Inr (c2, v)) \<and>
     cx_state c2 = STATE_PLAYING"
proof -
  obtain v where v: "ff_server_register_client 1 ex_server = Inr v" using ex_register ..
  have h: "h_session ex_header = []" "cx_state (rtsp_ctx_zero 7) = STATE_IDLE" by (simp_all add: ex_header_def rtsp_ctx_zero_def)
  from rtsp_setup_then_play [OF ex_works ex_stream sess_ok_zero h(2,1) ex_transport ex_path v] show ?thesis by blast
qed

theorem rtsp_setup_twice_witness:
  "\<exists>c'. rtsp_command ex_env ex_conf 1 ''SETUP'' ex_url (ex_header\<lparr>h_session := ''ab''\<rparr>)
       ((rtsp_ctx_zero 7)\<lparr>cx_state := STATE_READY, cx_session := Some ''ab'', fmtctx := True # replicate 7 False\<rparr>) ex_server = Some (Inr (c', ex_server)) \<and>
     cx_session c' = None \<and> rtsp_command ex_env ex_conf 1 ''PLAY'' ex_url ex_header c' ex_server = None"
proof -
  let ?c = "(rtsp_ctx_zero 7)\<lparr>cx_state := STATE_READY, cx_session := Some ''ab'', fmtctx := True # replicate 7 False\<rparr>"
  have "find_transport (ex_header\<lparr>h_session := ''ab''\<rparr>) LT_UDP \<noteq> None \<or> find_transport (ex_header\<lparr>h_session := ''ab''\<rparr>) LT_TCP \<noteq> None"
    by (simp add: find_transport_def ex_header_def)
  from rtsp_setup_twice [where c = ?c and k = 1 and v = ex_server and ?h2.0 = ex_header, OF ex_works ex_stream _ _ _ _ this ex_path]
  show ?thesis by (auto simp: ex_header_def)
qed

theorem rtp_open_ports_failure_sticks_witness:
  "\<exists>c'. rtp_open_ports (ex_env\<lparr>rtp_open_internal := (\<lambda>i. if i = 0 then Some (9, 5000) else None)\<rparr>) (rtsp_ctx_zero 7) 0 = (-1, c') \<and>
     rtp_open_ports ex_env c' 0 = (0, c') \<and> rtpSocket c' ! 1 = -1"
  using rtp_open_ports_failure_sticks [of 0 "rtsp_ctx_zero 7" "ex_env\<lparr>rtp_open_internal := (\<lambda>i. if i = 0 then Some (9, 5000) else None)\<rparr>" 9 5000 ex_env]
  by (auto simp: rtsp_ctx_zero_def)

theorem rtp_peer_port_fixed_witness:
  "rtpPeerPort (rtp_datagrams [(0, 8, 1), (0, 7, 4000), (0, 7, 5), (0, 8, 6)] (rtsp_ctx_zero 7)) ! 0 = 4000"
  using rtp_peer_port_fixed [of "[(0, 8, 1)]" 0 "rtsp_ctx_zero 7" 4000 "[(0, 7, 5), (0, 8, 6)]"]
  by (simp add: rtsp_ctx_zero_def)

theorem rtsp_command_replies_witness:
  "\<exists>c' s r. rtsp_command ex_env ex_conf 1 ''OPTIONS'' ex_url ex_header (rtsp_ctx_zero 7) ex_server = Some (Inr (c', ex_server)) \<and>
     cx_out c' = r \<and> reply_with 3 s r"
proof -
  obtain c' where c: "rtsp_command ex_env ex_conf 1 ''OPTIONS'' ex_url ex_header (rtsp_ctx_zero 7) ex_server = Some (Inr (c', ex_server))"
    by (simp add: rtsp_command_def with_server_def)
  from rtsp_command_replies [OF c] c show ?thesis by (auto simp: ex_header_def rtsp_ctx_zero_def)
qed

definition ex_bytes :: "string \<Rightarrow> byte list" where
  "ex_bytes s = map of_char s"

definition ex_line :: "byte list" where "ex_line = ex_bytes (''OPTIONS * RTSP/1.0'' @ crlf)"
definition ex_blank :: "byte list" where "ex_blank = ex_bytes crlf"

lemma ex_lines:
  "rtsp_line_ok 8192 ex_line" "rtsp_line_ok 8192 ex_blank"
  "request_line (c_str ex_line) = (''OPTIONS'', ''*'', ''RTSP/1.0'')" "header_end (c_str ex_blank)"
  by code_simp+

theorem rtspserver_handles_request_witness:
  "\<exists>rb c' s. rtspserver_request None (\<lambda>l h. h) ex_env ex_conf 1
      \<lparr>rbuffer = Some (ex_line @ ex_blank @ replicate 65514 0), rbufhead = 0, rbuftail = 22, rbufsize = 65536, rb_net = []\<rparr>
      (rtsp_ctx_zero 7) ex_server = Some (Inr (True, c', ex_server), rb) \<and> rb_stream rb = [] \<and> s \<in> set (cx_out c')"
proof -
  let ?b = "ex_line @ ex_blank @ replicate 65514 0"
  let ?rb = "\<lparr>rbuffer = Some ?b, rbufhead = 0, rbuftail = 22, rbufsize = 65536, rb_net = []\<rparr>"
  have len: "length ex_line = 20" "length ex_blank = 2" by code_simp+
  have ok: "rb_ok ?rb" by (simp add: rb_ok_def len)
  have "rb_bytes ?rb = ex_line @ ex_blank" by (intro rb_bytes_eq [where b = ?b]) (simp_all add: c_read_def len)
  then have st: "rb_stream ?rb = concat (ex_line # [ex_blank]) @ []" by (simp add: rb_stream_def)
  have h: "read_headers (\<lambda>l h. h) (map c_str [ex_blank]) rtsp_header_zero = Some (Some (rtsp_header_zero, []))"
    using ex_lines(4) by (simp add: rtsp_header_zero_def)
  have c: "rtsp_command ex_env ex_conf 1 ''OPTIONS'' ''*'' rtsp_header_zero (rtsp_ctx_zero 7) ex_server =
      Some (Inr (rtsp_cmd_options ((rtsp_ctx_zero 7)\<lparr>cx_seq := 0\<rparr>), ex_server))"
    by (simp add: rtsp_command_def with_server_def rtsp_header_zero_def)
  obtain rb' where "rtspserver_request None (\<lambda>l h. h) ex_env ex_conf 1 ?rb (rtsp_ctx_zero 7) ex_server =
      Some (Inr (cx_state (rtsp_cmd_options ((rtsp_ctx_zero 7)\<lparr>cx_seq := 0\<rparr>)) \<noteq> STATE_TEARDOWN, rtsp_cmd_options ((rtsp_ctx_zero 7)\<lparr>cx_seq := 0\<rparr>), ex_server), rb')"
    "rb_stream rb' = []"
    using rtspserver_handles_request [OF ok _ st _ ex_lines(3) h c] ex_lines(1,2) by auto
  then show ?thesis by (auto simp: rtsp_cmd_options_def rtsp_ctx_zero_def)
qed

end
