(* ===== verification/MiniH264.thy ===== *)
theory MiniH264
  imports GaPrelude
begin

text \<open>
  The H.264 parser of the client, \<open>client/minih264.cpp\<close>: the bit reader, the Exp-Golomb codes, the
  sequence parameter set with the size of the picture, the type of a slice, and the classification
  of a NAL unit. A read behind the end of the buffer is undefined, as the source says it is not
  handled; so is a shift of an \<open>int\<close> beyond its width.
\<close>

section \<open>The bit reader\<close>

record bufinfo =
  byteoff :: nat
  bitmask :: byte
  bi_buf :: "byte list"

definition h264_bufinit :: "byte list \<Rightarrow> bufinfo" where
  "h264_bufinit buf = \<lparr>byteoff = 0, bitmask = 0x80, bi_buf = buf\<rparr>"

primrec h264_u_loop :: "nat \<Rightarrow> u32 \<Rightarrow> bufinfo \<Rightarrow> (u32 \<times> bufinfo) option" where
  "h264_u_loop 0 val bi = Some (val, bi)"
| "h264_u_loop (Suc n) val bi =
     (if byteoff bi < length (bi_buf bi) then
        h264_u_loop n (push_bit 1 val OR (if (bi_buf bi ! byteoff bi) AND bitmask bi = 0 then 0 else 1))
          (if bitmask bi \<noteq> 1 then bi\<lparr>bitmask := drop_bit 1 (bitmask bi)\<rparr> else bi\<lparr>byteoff := byteoff bi + 1, bitmask := 0x80\<rparr>)
      else None)"

definition h264_buf_u :: "bufinfo \<Rightarrow> nat \<Rightarrow> (u32 \<times> bufinfo) option" where
  "h264_buf_u bi n = h264_u_loop n 0 bi"

partial_function (option) ue_leading :: "nat \<Rightarrow> bufinfo \<Rightarrow> (nat \<times> bufinfo) option" where
  "ue_leading leading bi = do {
     (b, bi1) \<leftarrow> h264_buf_u bi 1;
     (if b = 0 then ue_leading (Suc leading) bi1 else Some (leading, bi1)) }"

declare ue_leading.simps [code]

definition h264_buf_ue :: "bufinfo \<Rightarrow> (u32 \<times> bufinfo) option" where
  "h264_buf_ue bi = do {
     (leading, bi1) \<leftarrow> ue_leading 0 bi;
     (if leading < 31 then do {
        (v, bi2) \<leftarrow> h264_buf_u bi1 leading;
        Some (push_bit leading 1 - 1 + v, bi2) }
      else None) }"

definition h264_map_se :: "u32 \<Rightarrow> int" where
  "h264_map_se code = sint ((if code AND 1 = 0 then -1 else 1) * drop_bit 1 (code + 1))"

definition h264_buf_se :: "bufinfo \<Rightarrow> (int \<times> bufinfo) option" where
  "h264_buf_se bi = map_option (\<lambda>(c, b). (h264_map_se c, b)) (h264_buf_ue bi)"

text \<open>The loop over a scaling list, whose entries are not used.\<close>

primrec scaling_loop :: "nat \<Rightarrow> int \<Rightarrow> int \<Rightarrow> bufinfo \<Rightarrow> bufinfo option" where
  "scaling_loop 0 lastScale nextScale bi = Some bi"
| "scaling_loop (Suc n) lastScale nextScale bi = do {
     (nextScale', bi1) \<leftarrow> (if nextScale \<noteq> 0 then do {
         (delta, bi1) \<leftarrow> h264_buf_se bi;
         Some ((lastScale + delta + 256) mod 256, bi1) }
       else Some (nextScale, bi));
     scaling_loop n (if nextScale' = 0 then lastScale else nextScale') nextScale' bi1 }"

definition scaling_list :: "bufinfo \<Rightarrow> nat \<Rightarrow> bufinfo option" where
  "scaling_list bi n = scaling_loop n 8 8 bi"

section \<open>The sequence parameter set\<close>

record mini_h264_sps =
  profile_idc :: u32
  level_idc :: u32
  spsid :: u32
  chroma_format_idc :: u32
  separate_colour_plane_flag :: u32
  bit_depth_luma_minus8 :: u32
  bit_depth_chroma_minus8 :: u32
  qpprime_y_zero_transform_bypass_flag :: u32
  seq_scaling_matrix_present_flag :: u32
  seq_scaling_list_present_flag :: "u32 list"
  log2_max_frame_num_minus4 :: u32
  pic_order_cnt_type :: u32
  log2_max_pic_order_cnt_lsb_minus4 :: u32
  delta_pic_order_always_zero_flag :: u32
  offset_for_non_ref_pic :: int
  offset_for_top_to_bottom_field :: int
  num_ref_frames_in_pic_order_cnt_cycle :: u32
  offset_for_ref_frame :: "int list"
  max_num_ref_frames :: u32
  gaps_in_frame_num_value_allowed_flag :: u32
  pic_width_in_mbs_minus1 :: u32
  pic_height_in_map_units_minus1 :: u32
  frame_mbs_only_flag :: u32
  mb_adaptive_frame_field_flag :: u32
  direct_8x8_inference_flag :: u32
  frame_cropping_flag :: u32
  frame_crop_left_offset :: u32
  frame_crop_right_offset :: u32
  frame_crop_top_offset :: u32
  frame_crop_bottom_offset :: u32
  vui_parameters_present_flag :: u32

definition sps_zero :: mini_h264_sps where
  "sps_zero = \<lparr>profile_idc = 0, level_idc = 0, spsid = 0, chroma_format_idc = 0, separate_colour_plane_flag = 0,
     bit_depth_luma_minus8 = 0, bit_depth_chroma_minus8 = 0, qpprime_y_zero_transform_bypass_flag = 0,
     seq_scaling_matrix_present_flag = 0, seq_scaling_list_present_flag = replicate 12 0, log2_max_frame_num_minus4 = 0, pic_order_cnt_type = 0,
     log2_max_pic_order_cnt_lsb_minus4 = 0, delta_pic_order_always_zero_flag = 0, offset_for_non_ref_pic = 0,
     offset_for_top_to_bottom_field = 0, num_ref_frames_in_pic_order_cnt_cycle = 0, offset_for_ref_frame = replicate 64 0, max_num_ref_frames = 0,
     gaps_in_frame_num_value_allowed_flag = 0, pic_width_in_mbs_minus1 = 0, pic_height_in_map_units_minus1 = 0,
     frame_mbs_only_flag = 0, mb_adaptive_frame_field_flag = 0, direct_8x8_inference_flag = 0, frame_cropping_flag = 0,
     frame_crop_left_offset = 0, frame_crop_right_offset = 0, frame_crop_top_offset = 0, frame_crop_bottom_offset = 0,
     vui_parameters_present_flag = 0\<rparr>"

text \<open>The removal of the emulation prevention bytes, in place.\<close>

function rbsp_loop :: "byte list \<Rightarrow> nat \<Rightarrow> nat \<Rightarrow> byte list \<times> nat" where
  "rbsp_loop buf src rbsplen =
     (if src < length buf then
        if src + 2 < length buf \<and> buf ! src = 0 \<and> buf ! (src + 1) = 0 \<and> buf ! (src + 2) = 3 then
          (let b1 = buf[rbsplen := buf ! src]; b2 = b1[rbsplen + 1 := b1 ! (src + 1)] in rbsp_loop b2 (src + 3) (rbsplen + 2))
        else rbsp_loop (buf[rbsplen := buf ! src]) (src + 1) (rbsplen + 1)
      else (buf, rbsplen))"
  by pat_completeness auto
termination
  by (relation "measure (\<lambda>(buf, src, rbsplen). length buf - src)") (auto simp: Let_def)

declare rbsp_loop.simps [simp del]

text \<open>The lists of the scaling matrix, and the offsets of the reference frames, which are written to
  an array of 64.\<close>

primrec scaling_matrix :: "nat list \<Rightarrow> u32 list \<Rightarrow> bufinfo \<Rightarrow> (u32 list \<times> bufinfo) option" where
  "scaling_matrix [] flags bi = Some (flags, bi)"
| "scaling_matrix (i # is) flags bi = do {
     (present, bi1) \<leftarrow> h264_buf_u bi 1;
     bi2 \<leftarrow> (if present \<noteq> 0 then scaling_list bi1 (if i < 6 then 16 else 64) else Some bi1);
     scaling_matrix is (flags[i := present]) bi2 }"

primrec ref_offsets :: "nat \<Rightarrow> nat \<Rightarrow> int list \<Rightarrow> bufinfo \<Rightarrow> (int list \<times> bufinfo) option" where
  "ref_offsets 0 i offs bi = Some (offs, bi)"
| "ref_offsets (Suc n) i offs bi = do {
     (v, bi1) \<leftarrow> h264_buf_se bi;
     (if i < length offs then ref_offsets n (Suc i) (offs[i := v]) bi1 else None) }"

definition sps_start :: "mini_h264_sps \<Rightarrow> bufinfo \<Rightarrow> (mini_h264_sps \<times> bufinfo) option" where
  "sps_start s bi = do {
     (profile, bi) \<leftarrow> h264_buf_u bi 8;
     (_, bi) \<leftarrow> h264_buf_u bi 8;
     (level, bi) \<leftarrow> h264_buf_u bi 8;
     (sid, bi) \<leftarrow> h264_buf_ue bi;
     Some (s\<lparr>profile_idc := profile, level_idc := level, spsid := sid\<rparr>, bi) }"

definition high_profiles :: "u32 list" where
  "high_profiles = [100, 110, 122, 244, 44, 83, 86, 118, 128, 138]"

definition sps_high :: "mini_h264_sps \<Rightarrow> bufinfo \<Rightarrow> (mini_h264_sps \<times> bufinfo) option" where
  "sps_high s bi =
     (if profile_idc s \<in> set high_profiles then do {
        (chroma, bi) \<leftarrow> h264_buf_ue bi;
        (sep, bi) \<leftarrow> (if chroma = 3 then h264_buf_u bi 1 else Some (separate_colour_plane_flag s, bi));
        (luma8, bi) \<leftarrow> h264_buf_ue bi;
        (chroma8, bi) \<leftarrow> h264_buf_ue bi;
        (bypass, bi) \<leftarrow> h264_buf_u bi 1;
        (matrix, bi) \<leftarrow> h264_buf_u bi 1;
        (flags, bi) \<leftarrow> (if matrix \<noteq> 0 then
            scaling_matrix [0..<(if chroma \<noteq> 3 then 8 else 12)] (seq_scaling_list_present_flag s) bi
          else Some (seq_scaling_list_present_flag s, bi));
        Some (s\<lparr>chroma_format_idc := chroma, separate_colour_plane_flag := sep, bit_depth_luma_minus8 := luma8,
          bit_depth_chroma_minus8 := chroma8, qpprime_y_zero_transform_bypass_flag := bypass,
          seq_scaling_matrix_present_flag := matrix, seq_scaling_list_present_flag := flags\<rparr>, bi) }
      else Some (s, bi))"

definition sps_order :: "mini_h264_sps \<Rightarrow> bufinfo \<Rightarrow> (mini_h264_sps \<times> bufinfo) option" where
  "sps_order s bi = do {
     (frame_num, bi) \<leftarrow> h264_buf_ue bi;
     (typ, bi) \<leftarrow> h264_buf_ue bi;
     (let s = s\<lparr>log2_max_frame_num_minus4 := frame_num, pic_order_cnt_type := typ\<rparr>
      in if typ = 0 then do {
           (lsb, bi) \<leftarrow> h264_buf_ue bi;
           Some (s\<lparr>log2_max_pic_order_cnt_lsb_minus4 := lsb\<rparr>, bi) }
         else if typ = 1 then do {
           (zero, bi) \<leftarrow> h264_buf_u bi 1;
           (o1, bi) \<leftarrow> h264_buf_se bi;
           (o2, bi) \<leftarrow> h264_buf_se bi;
           (n, bi) \<leftarrow> h264_buf_ue bi;
           (offs, bi) \<leftarrow> ref_offsets (unat n) 0 (offset_for_ref_frame s) bi;
           Some (s\<lparr>delta_pic_order_always_zero_flag := zero, offset_for_non_ref_pic := o1,
             offset_for_top_to_bottom_field := o2, num_ref_frames_in_pic_order_cnt_cycle := n, offset_for_ref_frame := offs\<rparr>, bi) }
         else Some (s, bi)) }"

definition sps_size :: "mini_h264_sps \<Rightarrow> bufinfo \<Rightarrow> (mini_h264_sps \<times> bufinfo) option" where
  "sps_size s bi = do {
     (refs, bi) \<leftarrow> h264_buf_ue bi;
     (gaps, bi) \<leftarrow> h264_buf_u bi 1;
     (w, bi) \<leftarrow> h264_buf_ue bi;
     (h, bi) \<leftarrow> h264_buf_ue bi;
     (mbs_only, bi) \<leftarrow> h264_buf_u bi 1;
     (adaptive, bi) \<leftarrow> (if mbs_only = 0 then h264_buf_u bi 1 else Some (mb_adaptive_frame_field_flag s, bi));
     (direct, bi) \<leftarrow> h264_buf_u bi 1;
     (cropping, bi) \<leftarrow> h264_buf_u bi 1;
     Some (s\<lparr>max_num_ref_frames := refs, gaps_in_frame_num_value_allowed_flag := gaps, pic_width_in_mbs_minus1 := w,
       pic_height_in_map_units_minus1 := h, frame_mbs_only_flag := mbs_only, mb_adaptive_frame_field_flag := adaptive,
       direct_8x8_inference_flag := direct, frame_cropping_flag := cropping\<rparr>, bi) }"

definition sps_crop :: "mini_h264_sps \<Rightarrow> bufinfo \<Rightarrow> (mini_h264_sps \<times> bufinfo) option" where
  "sps_crop s bi = do {
     (s, bi) \<leftarrow> (if frame_cropping_flag s \<noteq> 0 then do {
         (l, bi) \<leftarrow> h264_buf_ue bi;
         (r, bi) \<leftarrow> h264_buf_ue bi;
         (t, bi) \<leftarrow> h264_buf_ue bi;
         (b, bi) \<leftarrow> h264_buf_ue bi;
         Some (s\<lparr>frame_crop_left_offset := l, frame_crop_right_offset := r, frame_crop_top_offset := t,
           frame_crop_bottom_offset := b\<rparr>, bi) }
       else Some (s, bi));
     (vui, bi) \<leftarrow> h264_buf_u bi 1;
     Some (s\<lparr>vui_parameters_present_flag := vui\<rparr>, bi) }"

text \<open>The size in unsigned arithmetic, as the \<open>int\<close> it is stored in.\<close>

definition sps_width :: "mini_h264_sps \<Rightarrow> int" where
  "sps_width s = sint ((pic_width_in_mbs_minus1 s + 1) * 16 - frame_crop_right_offset s * 2 - frame_crop_left_offset s * 2)"

definition sps_height :: "mini_h264_sps \<Rightarrow> int" where
  "sps_height s = sint ((2 - frame_mbs_only_flag s) * (pic_height_in_map_units_minus1 s + 1) * 16
     - frame_crop_top_offset s * 2 - frame_crop_bottom_offset s * 2)"

definition parse_sps :: "byte list \<Rightarrow> (mini_h264_sps \<times> int \<times> int) option" where
  "parse_sps buf = do {
     (s, bi) \<leftarrow> sps_start sps_zero (h264_bufinit (fst (rbsp_loop buf 0 0)));
     (s, bi) \<leftarrow> sps_high s bi;
     (s, bi) \<leftarrow> sps_order s bi;
     (s, bi) \<leftarrow> sps_size s bi;
     (s, bi) \<leftarrow> sps_crop s bi;
     Some (s, sps_width s, sps_height s) }"

section \<open>NAL units\<close>

datatype frame_type = NO_TYPE | TYPE_I_FRAME | TYPE_SI_FRAME | TYPE_B_FRAME | TYPE_P_FRAME | TYPE_SP_FRAME

record mini_h264_context =
  nri :: u16
  nal_type :: u16
  slicetype :: u16
  frametype :: frame_type
  h_sps :: mini_h264_sps
  rawsps :: "byte list option"
  rawpps :: "byte list option"
  h_width :: int
  h_height :: int
  is_config :: bool

definition h264_context_zero :: mini_h264_context where
  "h264_context_zero = \<lparr>nri = 0, nal_type = 0, slicetype = 0, frametype = NO_TYPE, h_sps = sps_zero, rawsps = None, rawpps = None,
     h_width = 0, h_height = 0, is_config = False\<rparr>"

definition slice_frametype :: "u16 \<Rightarrow> frame_type" where
  "slice_frametype t =
     (if t = 0 \<or> t = 5 then TYPE_P_FRAME else if t = 1 \<or> t = 6 then TYPE_B_FRAME else if t = 2 \<or> t = 7 then TYPE_I_FRAME
      else if t = 3 \<or> t = 8 then TYPE_SP_FRAME else if t = 4 \<or> t = 9 then TYPE_SI_FRAME else NO_TYPE)"

definition parse_slice_layer_wo_partition :: "mini_h264_context \<Rightarrow> byte list \<Rightarrow> mini_h264_context option" where
  "parse_slice_layer_wo_partition ctx buf = do {
     (_, bi) \<leftarrow> h264_buf_ue (h264_bufinit buf);
     (t, bi) \<leftarrow> h264_buf_ue bi;
     Some (ctx\<lparr>slicetype := ucast t, frametype := slice_frametype (ucast t)\<rparr>) }"

text \<open>The next start code behind the header of the first unit; 0 when there is none.\<close>

primrec next_start :: "nat \<Rightarrow> nat \<Rightarrow> byte list \<Rightarrow> nat" where
  "next_start 0 i buf = 0"
| "next_start (Suc n) i buf =
     (if buf ! i = 0 \<and> buf ! (i + 1) = 0 \<and> buf ! (i + 2) = 0 \<and> buf ! (i + 3) = 1 then i else next_start n (i + 1) buf)"

definition nal_end :: "byte list \<Rightarrow> nat" where
  "nal_end buf = next_start (length buf - 8) 4 buf"

definition nal_unit :: "byte list \<Rightarrow> byte list" where
  "nal_unit buf = take (if nal_end buf > 0 then nal_end buf else length buf) buf"

text \<open>\<open>mem\<close> tells for the two copies whether \<open>malloc\<close> succeeds.\<close>

definition mini_h264_parse :: "bool \<times> bool \<Rightarrow> mini_h264_context \<Rightarrow> byte list \<Rightarrow> (int \<times> mini_h264_context) option" where
  "mini_h264_parse mem ctx buf =
     (if length buf < 5 then Some (-1, ctx)
      else if take 4 buf \<noteq> [0, 0, 0, 1] then Some (-1, ctx)
      else if (buf ! 4) AND 0x80 \<noteq> 0 then Some (-1, ctx)
      else let t = (buf ! 4) AND 0x1f;
               c = h264_context_zero\<lparr>nri := ucast (drop_bit 5 ((buf ! 4) AND 0x60)), nal_type := ucast t\<rparr>
           in if t = 1 \<or> t = 5 \<or> t = 19 then do { c' \<leftarrow> parse_slice_layer_wo_partition c (drop 5 buf); Some (0, c') }
              else if 1 < t \<and> t < 5 then Some (0, c)
              else if 19 < t \<and> t \<le> 21 then Some (0, c)
              else if t = 7 then
                (if \<not> fst mem then Some (-1, c\<lparr>is_config := True\<rparr>)
                 else if \<not> snd mem then Some (-1, c\<lparr>is_config := True\<rparr>)
                 else do {
                   (s, w, h) \<leftarrow> parse_sps (drop 5 (nal_unit buf));
                   Some (int (nal_end buf), c\<lparr>is_config := True, rawsps := Some (nal_unit buf), h_sps := s, h_width := w, h_height := h\<rparr>) })
              else if t = 8 then
                (if \<not> fst mem then Some (-1, c\<lparr>is_config := True\<rparr>)
                 else Some (int (nal_end buf), c\<lparr>is_config := True, rawpps := Some (nal_unit buf)\<rparr>))
              else Some (0, c\<lparr>is_config := True\<rparr>))"

section \<open>The bits of a buffer\<close>

text \<open>The bits of a buffer, the reader at the k-th of them, and the value of a list of bits.\<close>

definition bits :: "byte list \<Rightarrow> bool list" where
  "bits buf = concat (map (\<lambda>b. map (\<lambda>i. bit b (7 - i)) [0..<8]) buf)"

definition bi_at :: "byte list \<Rightarrow> nat \<Rightarrow> bufinfo" where
  "bi_at buf k = \<lparr>byteoff = k div 8, bitmask = 2 ^ (7 - k mod 8), bi_buf = buf\<rparr>"

primrec nbits :: "nat \<Rightarrow> nat \<Rightarrow> bool list" where
  "nbits 0 v = []"
| "nbits (Suc n) v = bit v n # nbits n v"

definition bits_val :: "u32 \<Rightarrow> bool list \<Rightarrow> u32" where
  "bits_val v bs = foldl (\<lambda>v b. 2 * v + of_bool b) v bs"

lemma bufinit_at: "h264_bufinit buf = bi_at buf 0"
  by (simp add: h264_bufinit_def bi_at_def)

lemma length_bits [simp]: "length (bits buf) = 8 * length buf"
  by (induction buf) (simp_all add: bits_def)

lemma bits_Cons: "bits (b # buf) = map (\<lambda>i. bit b (7 - i)) [0..<8] @ bits buf"
  by (simp add: bits_def)

lemma bits_append: "bits (xs @ ys) = bits xs @ bits ys"
  by (simp add: bits_def)

lemma bits_nth: "k < 8 * length buf \<Longrightarrow> bits buf ! k = bit (buf ! (k div 8)) (7 - k mod 8)"
proof (induction buf arbitrary: k)
  case (Cons b buf)
  show ?case
  proof (cases "k < 8")
    case True
    then show ?thesis unfolding bits_Cons nth_append by simp
  next
    case False
    then have "k div 8 = Suc ((k - 8) div 8)" "k mod 8 = (k - 8) mod 8" by (simp_all add: le_div_geq le_mod_geq)
    with False Cons show ?thesis unfolding bits_Cons nth_append by simp
  qed
qed simp

lemma below_8: "(m :: nat) < 8 \<Longrightarrow> m = 0 \<or> m = 1 \<or> m = 2 \<or> m = 3 \<or> m = 4 \<or> m = 5 \<or> m = 6 \<or> m = 7"
  by presburger

lemma and_mask: "((b :: byte) AND 2 ^ m = 0) \<longleftrightarrow> \<not> bit b m"
  by (simp add: and_exp_eq_0_iff_not_bit)

lemma mask_step:
  assumes "m < 7"
  shows "2 ^ (7 - m) \<noteq> (1 :: byte)" "drop_bit (Suc 0) (2 ^ (7 - m)) = (2 ^ (6 - m) :: byte)"
  using below_8 [of m] assms by auto

lemma u_step:
  assumes "k < 8 * length buf"
  shows "h264_u_loop (Suc n) val (bi_at buf k) = h264_u_loop n (2 * val + of_bool (bits buf ! k)) (bi_at buf (Suc k))"
proof -
  have off: "k div 8 < length buf" using assms by simp
  have nxt: "(if 2 ^ (7 - k mod 8) \<noteq> (1 :: byte) then bi_at buf k\<lparr>bitmask := drop_bit 1 (2 ^ (7 - k mod 8))\<rparr>
      else (bi_at buf k)\<lparr>byteoff := k div 8 + 1, bitmask := 0x80\<rparr>) = bi_at buf (Suc k)"
  proof (cases "k mod 8 = 7")
    case True
    then have "Suc k mod 8 = 0" "Suc k div 8 = Suc (k div 8)" by presburger+
    with True show ?thesis by (simp add: bi_at_def)
  next
    case False
    then have s: "Suc k mod 8 = Suc (k mod 8)" "Suc k div 8 = k div 8" by presburger+
    have "k mod 8 < 7" using False by presburger
    from mask_step [OF this] show ?thesis by (simp add: bi_at_def s)
  qed
  show ?thesis unfolding h264_u_loop.simps nxt [symmetric]
    using off by (simp add: bi_at_def bits_nth [OF assms] and_mask or_one_eq mult.commute)
qed

lemma u_loop_read:
  "h264_u_loop n val (bi_at buf k) =
     (if n = 0 \<or> k + n \<le> 8 * length buf then Some (bits_val val (take n (drop k (bits buf))), bi_at buf (k + n)) else None)"
proof (induction n arbitrary: val k)
  case (Suc n)
  show ?case
  proof (cases "k < 8 * length buf")
    case True
    then have "take (Suc n) (drop k (bits buf)) = bits buf ! k # take n (drop (Suc k) (bits buf))"
      by (simp add: Cons_nth_drop_Suc [symmetric])
    then show ?thesis unfolding u_step [OF True] Suc.IH using True by (auto simp: bits_val_def)
  next
    case False
    then have "length buf \<le> k div 8" by presburger
    with False show ?thesis by (simp add: bi_at_def)
  qed
qed (simp add: bits_val_def)

text \<open>The bit reader returns the next \<open>n\<close> bits of the buffer, most significant first, and moves over them, and leaves the
  buffer exactly when fewer than \<open>n\<close> are left.\<close>

theorem h264_reads_bits:
  "h264_buf_u (bi_at buf k) n =
     (if n = 0 \<or> k + n \<le> 8 * length buf then Some (bits_val 0 (take n (drop k (bits buf))), bi_at buf (k + n)) else None)"
  by (simp add: h264_buf_u_def u_loop_read)

lemma length_nbits [simp]: "length (nbits n v) = n"
  by (induction n) simp_all

lemma bits_val_nbits: "bits_val val (nbits n v) = val * 2 ^ n + of_nat (take_bit n v)"
  by (induction n arbitrary: val)
    (simp_all add: bits_val_def take_bit_Suc_from_most algebra_simps)

lemma drop_length: "drop k xs = ys @ zs \<Longrightarrow> k + length ys \<le> length xs \<or> ys = []"
  by (metis le_add1 length_append length_drop le_diff_conv2 add.commute list.size(3) nat_le_linear diff_is_0_eq' le_zero_eq length_0_conv)

text \<open>The reading of a field: the reader moves from its bits to the bits behind it.\<close>

lemma u_field:
  assumes "drop k (bits buf) = nbits n v @ rest" "v < 2 ^ n"
  shows "h264_buf_u (bi_at buf k) n = Some (of_nat v, bi_at buf (k + n))" "drop (k + n) (bits buf) = rest"
proof -
  have v: "take_bit n v = v" using assms(2) by (simp add: take_bit_nat_eq_self_iff)
  have t: "take n (drop k (bits buf)) = nbits n v" by (simp add: assms(1))
  have l: "n = 0 \<or> k + n \<le> 8 * length buf" using drop_length [OF assms(1)] by (cases n) simp_all
  show "h264_buf_u (bi_at buf k) n = Some (of_nat v, bi_at buf (k + n))"
    unfolding h264_buf_u_def u_loop_read t bits_val_nbits v using l by simp
  show "drop (k + n) (bits buf) = rest"
    by (metis add.commute append_eq_conv_conj assms(1) drop_drop length_nbits)
qed

lemma u_flag:
  assumes "drop k (bits buf) = b # rest"
  shows "h264_buf_u (bi_at buf k) 1 = Some (of_bool b, bi_at buf (k + 1))" "drop (k + 1) (bits buf) = rest"
proof -
  have "drop k (bits buf) = nbits 1 (of_bool b) @ rest" using assms by (cases b) (simp_all add: bit_0)
  from u_field [OF this] show "h264_buf_u (bi_at buf k) 1 = Some (of_bool b, bi_at buf (k + 1))" "drop (k + 1) (bits buf) = rest"
    by (cases b; simp)+
qed

section \<open>Exp-Golomb codes\<close>

fun log2_floor :: "nat \<Rightarrow> nat" where
  "log2_floor n = (if n \<le> 1 then 0 else Suc (log2_floor (n div 2)))"

declare log2_floor.simps [simp del]

lemma log2_floor_bounds: "0 < n \<Longrightarrow> 2 ^ log2_floor n \<le> n \<and> n < 2 * 2 ^ log2_floor n"
proof (induction n rule: log2_floor.induct)
  case (1 n)
  show ?case
  proof (cases "n \<le> 1")
    case True
    with 1 show ?thesis by (simp add: log2_floor.simps [of n])
  next
    case False
    with 1 have "2 ^ log2_floor (n div 2) \<le> n div 2 \<and> n div 2 < 2 * 2 ^ log2_floor (n div 2)" by simp
    with False show ?thesis by (simp add: log2_floor.simps [of n]) linarith
  qed
qed

definition ue_code :: "nat \<Rightarrow> bool list" where
  "ue_code v = (let n = log2_floor (v + 1) in replicate n False @ True # nbits n (v + 1 - 2 ^ n))"

lemma ue_leading_read:
  "drop k (bits buf) = replicate n False @ True # rest \<Longrightarrow> ue_leading l (bi_at buf k) = Some (l + n, bi_at buf (k + n + 1))"
proof (induction n arbitrary: k l)
  case 0
  then have "drop k (bits buf) = True # rest" by simp
  from u_flag [OF this] show ?case by (simp add: ue_leading.simps [of l])
next
  case (Suc n)
  then have "drop k (bits buf) = False # replicate n False @ True # rest" by simp
  from u_flag [OF this] Suc.IH [of "k + 1" "Suc l"] show ?case by (simp add: ue_leading.simps [of l])
qed


lemma ue_field:
  assumes "drop k (bits buf) = ue_code v @ rest" "v < 2 ^ 31 - 1"
  shows "h264_buf_ue (bi_at buf k) = Some (of_nat v, bi_at buf (k + length (ue_code v)))"
    "drop (k + length (ue_code v)) (bits buf) = rest"
proof -
  define n where "n = log2_floor (v + 1)"
  have b: "2 ^ n \<le> v + 1" "v + 1 < 2 * 2 ^ n" using log2_floor_bounds [of "v + 1"] by (simp_all add: n_def)
  have n: "n < 31"
  proof (rule ccontr)
    assume "\<not> n < 31"
    then have "(2 :: nat) ^ 31 \<le> 2 ^ n" by (intro power_increasing) simp_all
    with b assms(2) show False by simp
  qed
  have c: "ue_code v = replicate n False @ True # nbits n (v + 1 - 2 ^ n)" by (simp add: ue_code_def n_def Let_def)
  have d: "drop k (bits buf) = replicate n False @ True # nbits n (v + 1 - 2 ^ n) @ rest" using assms(1) by (simp add: c)
  from d have d': "drop (k + n + 1) (bits buf) = nbits n (v + 1 - 2 ^ n) @ rest"
    by (metis (no_types) add.commute add.left_commute append_Cons append_eq_conv_conj drop_drop drop_Suc_Cons length_replicate plus_1_eq_Suc drop0 One_nat_def)
  have w: "push_bit n 1 - 1 + (of_nat (v + 1 - 2 ^ n) :: u32) = of_nat v"
    using b by (simp add: of_nat_diff push_bit_eq_mult)
  show "h264_buf_ue (bi_at buf k) = Some (of_nat v, bi_at buf (k + length (ue_code v)))"
    using ue_leading_read [OF d, of 0] u_field(1) [OF d'] b n w by (simp add: h264_buf_ue_def c algebra_simps)
  show "drop (k + length (ue_code v)) (bits buf) = rest" by (metis add.commute append_eq_conv_conj assms(1) drop_drop)
qed

section \<open>Emulation prevention\<close>

fun rbsp :: "byte list \<Rightarrow> byte list" where
  "rbsp [] = []"
| "rbsp (b # bs) = (if b = 0 \<and> take 2 bs = [0, 3] then 0 # 0 # rbsp (drop 2 bs) else b # rbsp bs)"

lemma rbsp_drop:
  assumes "src < length buf"
  shows "rbsp (drop src buf) =
     (if src + 2 < length buf \<and> buf ! src = 0 \<and> buf ! (src + 1) = 0 \<and> buf ! (src + 2) = 3
      then 0 # 0 # rbsp (drop (src + 3) buf) else buf ! src # rbsp (drop (src + 1) buf))"
proof -
  have d: "drop src buf = buf ! src # drop (src + 1) buf" using assms by (simp add: Cons_nth_drop_Suc)
  have t: "take 2 (drop (src + 1) buf) = [0, 3] \<longleftrightarrow> src + 2 < length buf \<and> buf ! (src + 1) = 0 \<and> buf ! (src + 2) = 3"
  proof (cases "src + 2 < length buf")
    case True
    then have "drop (Suc src) buf = buf ! Suc src # drop (Suc (Suc src)) buf"
      "drop (Suc (Suc src)) buf = buf ! Suc (Suc src) # drop (Suc (Suc (Suc src))) buf"
      by (simp_all add: Cons_nth_drop_Suc)
    moreover have "src + 1 = Suc src" "src + 2 = Suc (Suc src)" "src + 3 = Suc (Suc (Suc src))" by simp_all
    ultimately have "drop (src + 1) buf = buf ! (src + 1) # buf ! (src + 2) # drop (src + 3) buf" by (simp only:)
    with True show ?thesis by (simp add: numeral_2_eq_2)
  next
    case False
    then have "length (take 2 (drop (src + 1) buf)) < 2" by simp
    then have "take 2 (drop (src + 1) buf) \<noteq> [0, 3]" by (metis One_nat_def Suc_1 length_Cons list.size(3) nat_less_le)
    with False show ?thesis by simp
  qed
  have "2 + (src + 1) = src + 3" by simp
  then have "drop 2 (drop (src + 1) buf) = drop (src + 3) buf" by (simp only: drop_drop)
  then show ?thesis unfolding d rbsp.simps t by auto
qed

lemma take_Suc_update: "n < length xs \<Longrightarrow> take (Suc n) (xs[n := x]) = take n xs @ [x]"
  by (simp add: take_Suc_conv_app_nth)

lemma rbsp_loop_ok:
  "\<lbrakk> n \<le> src; src \<le> length buf \<rbrakk> \<Longrightarrow>
     rbsp_loop buf src n = (let r = rbsp (drop src buf) in (take n buf @ r @ drop (n + length r) buf, n + length r))"
proof (induction buf src n rule: rbsp_loop.induct)
  case (1 buf src n)
  let ?esc = "src + 2 < length buf \<and> buf ! src = 0 \<and> buf ! (src + 1) = 0 \<and> buf ! (src + 2) = 3"
  consider "src = length buf" | "src < length buf" ?esc | "src < length buf" "\<not> ?esc" using 1(4) by linarith
  then show ?case
  proof cases
    case 1
    then show ?thesis by (simp add: rbsp_loop.simps)
  next
    case 2
    define b1 where "b1 = buf[n := buf ! src]"
    define b2 where "b2 = b1[n + 1 := b1 ! (src + 1)]"
    have b1: "b1 ! (src + 1) = 0" using 2 "1.prems" by (simp add: b1_def)
    have t: "take (n + 2) b2 = take n buf @ [0, 0]"
      using 2 "1.prems" b1 by (simp add: b2_def b1_def take_Suc_update)
    have d: "drop m b2 = drop m buf" if "n + 2 \<le> m" for m using that by (simp add: b2_def b1_def)
    have r: "rbsp (drop src buf) = 0 # 0 # rbsp (drop (src + 3) buf)" using rbsp_drop [OF 2(1)] 2(2) by simp
    have l: "length b2 = length buf" by (simp add: b2_def b1_def)
    have "rbsp_loop buf src n = rbsp_loop b2 (src + 3) (n + 2)"
      using 2 by (simp add: rbsp_loop.simps [of buf src n] b2_def b1_def Let_def)
    also have "\<dots> = (let r = rbsp (drop (src + 3) b2) in (take (n + 2) b2 @ r @ drop (n + 2 + length r) b2, n + 2 + length r))"
      using "1.IH"(1) [OF 2 b1_def b2_def] 2 "1.prems" l by simp
    finally show ?thesis using "1.prems" t by (simp add: d r Let_def)
  next
    case 3
    define b1 where "b1 = buf[n := buf ! src]"
    have t: "take (n + 1) b1 = take n buf @ [buf ! src]" using 3 "1.prems" by (simp add: b1_def take_Suc_update)
    have d: "drop m b1 = drop m buf" if "n + 1 \<le> m" for m using that by (simp add: b1_def)
    have r: "rbsp (drop src buf) = buf ! src # rbsp (drop (src + 1) buf)" unfolding rbsp_drop [OF 3(1)] if_not_P [OF 3(2)] ..
    have "rbsp_loop buf src n = rbsp_loop b1 (src + 1) (n + 1)"
      unfolding rbsp_loop.simps [of buf src n] if_P [OF 3(1)] if_not_P [OF 3(2)] b1_def ..
    also have "\<dots> = (let r = rbsp (drop (src + 1) b1) in (take (n + 1) b1 @ r @ drop (n + 1 + length r) b1, n + 1 + length r))"
      using "1.IH"(2) [OF 3] 3 "1.prems" by (simp add: b1_def)
    finally show ?thesis using "1.prems" t by (simp add: d r Let_def)
  qed
qed

text \<open>The loop of \<open>parse_sps\<close> that removes the emulation prevention bytes in place computes the list function \<open>rbsp\<close>: the
  result stands at the front of the buffer, what was behind it is left.\<close>

theorem rbsp_in_place:
  "rbsp_loop buf 0 0 = (rbsp buf @ drop (length (rbsp buf)) buf, length (rbsp buf))"
  using rbsp_loop_ok [of 0 0 buf] by (simp add: Let_def)

text \<open>What the encoder of the other side inserts, \<open>z\<close> zeros before the byte.\<close>

fun escape :: "nat \<Rightarrow> byte list \<Rightarrow> byte list" where
  "escape z [] = []"
| "escape z (b # bs) =
     (if 2 \<le> z \<and> b \<le> 3 then 3 # b # escape (if b = 0 then 1 else 0) bs
      else b # escape (if b = 0 then Suc z else 0) bs)"

lemma rbsp_nonzero: "b \<noteq> 0 \<Longrightarrow> rbsp (b # bs) = b # rbsp bs"
  and rbsp_zero_nonzero: "b \<noteq> 0 \<Longrightarrow> rbsp (0 # b # bs) = 0 # b # rbsp bs"
  and rbsp_zeros_3: "rbsp (0 # 0 # 3 # bs) = 0 # 0 # rbsp bs"
  and rbsp_zeros_other: "b \<noteq> 0 \<Longrightarrow> b \<noteq> 3 \<Longrightarrow> rbsp (0 # 0 # b # bs) = 0 # 0 # b # rbsp bs"
  and rbsp_zero: "rbsp [0] = [0]"
  and rbsp_zeros: "rbsp [0, 0] = [0, 0]"
  by (simp_all add: numeral_2_eq_2)

lemmas rbsp_rules = rbsp_nonzero rbsp_zero_nonzero rbsp_zeros_3 rbsp_zeros_other rbsp_zero rbsp_zeros

lemma rbsp_escape_zeros:
  "rbsp (escape 0 bs) = bs \<and> rbsp (0 # escape 1 bs) = 0 # bs \<and> rbsp (0 # 0 # escape 2 bs) = 0 # 0 # bs"
proof (induction bs)
  case Nil
  show ?case by (simp add: rbsp_rules del: rbsp.simps(2))
next
  case (Cons b bs)
  consider "b = 0" | "b \<noteq> 0" "b \<le> 3" | "b \<noteq> 0" "\<not> b \<le> 3" by blast
  then show ?case
  proof cases
    case 3
    then have "b \<noteq> 3" by auto
    with 3 Cons.IH show ?thesis by (simp add: rbsp_rules del: rbsp.simps(2))
  qed (use Cons.IH in \<open>simp_all add: rbsp_rules numeral_2_eq_2 del: rbsp.simps(2)\<close>)
qed

text \<open>Removing the emulation prevention bytes undoes their insertion.\<close>

theorem rbsp_escape:
  "rbsp (escape 0 bs) = bs"
  using rbsp_escape_zeros by blast


end
