(* ===== verification/H264Sps.thy ===== *)
theory H264Sps
  imports MiniH264
begin

text \<open>
  The coding of sequence parameter sets and of slices as section 7.3 of the standard writes it, and what
  \<open>mini_h264_parse\<close> reads from it.
\<close>

section \<open>The coding of a sequence parameter set\<close>

record sps_fields =
  f_profile :: nat
  f_level :: nat
  f_high :: "nat \<times> nat \<times> nat \<times> bool"
  f_id :: nat
  f_frame_num :: nat
  f_lsb :: "nat option"
  f_refs :: nat
  f_gaps :: bool
  f_mbs_w :: nat
  f_mbs_h :: nat
  f_mbs_only :: bool
  f_adaptive :: bool
  f_direct :: bool
  f_crop :: "(nat \<times> nat \<times> nat \<times> nat) option"
  f_vui :: bool

definition is_high :: "nat \<Rightarrow> bool" where
  "is_high p = (p \<in> {100, 110, 122, 244, 44, 83, 86, 118, 128, 138})"

text \<open>The syntax of section 7.3.2.1.1 of the standard, with no scaling matrix and the picture order count of
  type 0 (\<open>Some\<close>) or 2.\<close>

definition high_bits :: "sps_fields \<Rightarrow> bool list" where
  "high_bits f =
     (if is_high (f_profile f) then
        (case f_high f of (chroma, luma8, chroma8, bypass) \<Rightarrow> ue_code chroma @ ue_code luma8 @ ue_code chroma8 @ [bypass, False])
      else [])"

definition order_bits :: "sps_fields \<Rightarrow> bool list" where
  "order_bits f = ue_code (f_frame_num f) @ (case f_lsb f of Some lsb \<Rightarrow> ue_code 0 @ ue_code lsb | None \<Rightarrow> ue_code 2)"

definition size_bits :: "sps_fields \<Rightarrow> bool list" where
  "size_bits f = ue_code (f_refs f) @ [f_gaps f] @ ue_code (f_mbs_w f) @ ue_code (f_mbs_h f) @ [f_mbs_only f] @
     (if f_mbs_only f then [] else [f_adaptive f]) @ [f_direct f, f_crop f \<noteq> None]"

definition crop_bits :: "sps_fields \<Rightarrow> bool list" where
  "crop_bits f = (case f_crop f of None \<Rightarrow> [] | Some (l, r, t, b) \<Rightarrow> ue_code l @ ue_code r @ ue_code t @ ue_code b) @ [f_vui f]"

definition sps_bits :: "sps_fields \<Rightarrow> bool list" where
  "sps_bits f = nbits 8 (f_profile f) @ nbits 8 0 @ nbits 8 (f_level f) @ ue_code (f_id f) @
     high_bits f @ order_bits f @ size_bits f @ crop_bits f"

definition ue_ok :: "nat \<Rightarrow> bool" where
  "ue_ok v = (v < 2 ^ 31 - 1)"

definition fields_ok :: "sps_fields \<Rightarrow> bool" where
  "fields_ok f =
     (f_profile f < 256 \<and> f_level f < 256 \<and> ue_ok (f_id f) \<and>
      (case f_high f of (chroma, luma8, chroma8, bypass) \<Rightarrow> chroma < 3 \<and> ue_ok luma8 \<and> ue_ok chroma8) \<and>
      ue_ok (f_frame_num f) \<and> (case f_lsb f of Some lsb \<Rightarrow> ue_ok lsb | None \<Rightarrow> True) \<and> ue_ok (f_refs f) \<and>
      f_mbs_w f < 2 ^ 16 \<and> f_mbs_h f < 2 ^ 16 \<and>
      (case f_crop f of None \<Rightarrow> True | Some (l, r, t, b) \<Rightarrow> l < 2 ^ 16 \<and> r < 2 ^ 16 \<and> t < 2 ^ 16 \<and> b < 2 ^ 16))"

definition crop_w :: "sps_fields \<Rightarrow> int" where
  "crop_w f = (case f_crop f of None \<Rightarrow> 0 | Some (l, r, t, b) \<Rightarrow> 2 * int (l + r))"

definition crop_h :: "sps_fields \<Rightarrow> int" where
  "crop_h f = (case f_crop f of None \<Rightarrow> 0 | Some (l, r, t, b) \<Rightarrow> 2 * int (t + b))"

text \<open>The state of the reader: the bits in front of it.\<close>

definition ahead :: "bufinfo \<Rightarrow> bool list \<Rightarrow> bool" where
  "ahead bi bs = (\<exists>buf k. bi = bi_at buf k \<and> drop k (bits buf) = bs)"

lemma ahead_u:
  assumes "ahead bi (nbits n v @ rest)" "v < 2 ^ n"
  obtains bi' where "h264_buf_u bi n = Some (of_nat v, bi')" "ahead bi' rest"
  using assms u_field unfolding ahead_def by metis

lemma ahead_flag:
  assumes "ahead bi (b # rest)"
  obtains bi' where "h264_buf_u bi (Suc 0) = Some (of_bool b, bi')" "ahead bi' rest"
  using assms u_flag unfolding ahead_def One_nat_def by metis

lemma ahead_ue:
  assumes "ahead bi (ue_code v @ rest)" "ue_ok v"
  obtains bi' where "h264_buf_ue bi = Some (of_nat v, bi')" "ahead bi' rest"
  using assms ue_field unfolding ahead_def ue_ok_def by metis


lemma sps_start_read:
  assumes "ahead bi (nbits 8 p @ nbits 8 0 @ nbits 8 l @ ue_code i @ rest)" "p < 256" "l < 256" "ue_ok i"
  obtains bi' where "sps_start s bi = Some (s\<lparr>profile_idc := of_nat p, level_idc := of_nat l, spsid := of_nat i\<rparr>, bi')" "ahead bi' rest"
proof -
  obtain b1 where 1: "h264_buf_u bi 8 = Some (of_nat p, b1)" "ahead b1 (nbits 8 0 @ nbits 8 l @ ue_code i @ rest)"
    using ahead_u [OF assms(1)] assms(2) by auto
  obtain b2 where 2: "h264_buf_u b1 8 = Some (of_nat 0, b2)" "ahead b2 (nbits 8 l @ ue_code i @ rest)"
    using ahead_u [OF 1(2)] by auto
  obtain b3 where 3: "h264_buf_u b2 8 = Some (of_nat l, b3)" "ahead b3 (ue_code i @ rest)"
    using ahead_u [OF 2(2)] assms(3) by auto
  obtain b4 where 4: "h264_buf_ue b3 = Some (of_nat i, b4)" "ahead b4 rest" using ahead_ue [OF 3(2) assms(4)] .
  show ?thesis by (rule that [of b4]) (simp_all add: sps_start_def 1 2 3 4)
qed

lemma high_profiles_nat: "p < 256 \<Longrightarrow> of_nat p \<in> set high_profiles \<longleftrightarrow> is_high p"
proof -
  assume p: "p < 256"
  have w: "(of_nat p :: u32) = of_nat m \<longleftrightarrow> p = m" if "m < 256" for m
  proof -
    have "p < 2 ^ 32" "m < 2 ^ 32" using p that by simp_all
    then show ?thesis by (simp add: word_of_nat_eq_iff take_bit_nat_eq_self)
  qed
  from w [of 100] w [of 110] w [of 122] w [of 244] w [of 44] w [of 83] w [of 86] w [of 118] w [of 128] w [of 138]
  show ?thesis by (simp add: high_profiles_def is_high_def)
qed

definition high_of :: "sps_fields \<Rightarrow> mini_h264_sps \<Rightarrow> mini_h264_sps" where
  "high_of f s =
     (if is_high (f_profile f) then
        (case f_high f of (chroma, luma8, chroma8, bypass) \<Rightarrow>
           s\<lparr>chroma_format_idc := of_nat chroma, bit_depth_luma_minus8 := of_nat luma8, bit_depth_chroma_minus8 := of_nat chroma8,
             qpprime_y_zero_transform_bypass_flag := of_bool bypass, seq_scaling_matrix_present_flag := 0\<rparr>)
      else s)"

definition order_of :: "sps_fields \<Rightarrow> mini_h264_sps \<Rightarrow> mini_h264_sps" where
  "order_of f s =
     (case f_lsb f of
        Some lsb \<Rightarrow> s\<lparr>log2_max_frame_num_minus4 := of_nat (f_frame_num f), pic_order_cnt_type := 0, log2_max_pic_order_cnt_lsb_minus4 := of_nat lsb\<rparr>
      | None \<Rightarrow> s\<lparr>log2_max_frame_num_minus4 := of_nat (f_frame_num f), pic_order_cnt_type := 2\<rparr>)"

definition size_of :: "sps_fields \<Rightarrow> mini_h264_sps \<Rightarrow> mini_h264_sps" where
  "size_of f s = s\<lparr>max_num_ref_frames := of_nat (f_refs f), gaps_in_frame_num_value_allowed_flag := of_bool (f_gaps f),
     pic_width_in_mbs_minus1 := of_nat (f_mbs_w f), pic_height_in_map_units_minus1 := of_nat (f_mbs_h f),
     frame_mbs_only_flag := of_bool (f_mbs_only f),
     mb_adaptive_frame_field_flag := (if f_mbs_only f then mb_adaptive_frame_field_flag s else of_bool (f_adaptive f)),
     direct_8x8_inference_flag := of_bool (f_direct f), frame_cropping_flag := of_bool (f_crop f \<noteq> None)\<rparr>"

definition crop_of :: "sps_fields \<Rightarrow> mini_h264_sps \<Rightarrow> mini_h264_sps" where
  "crop_of f s =
     (case f_crop f of
        Some (l, r, t, b) \<Rightarrow> s\<lparr>frame_crop_left_offset := of_nat l, frame_crop_right_offset := of_nat r, frame_crop_top_offset := of_nat t,
          frame_crop_bottom_offset := of_nat b, vui_parameters_present_flag := of_bool (f_vui f)\<rparr>
      | None \<Rightarrow> s\<lparr>vui_parameters_present_flag := of_bool (f_vui f)\<rparr>)"

lemma sps_high_read:
  assumes "profile_idc s = of_nat (f_profile f)" "fields_ok f"
    "ahead bi (high_bits f @ rest)"
  obtains bi' where "sps_high s bi = Some (high_of f s, bi')" "ahead bi' rest"
proof (cases "is_high (f_profile f)")
  case False
  with assms show ?thesis using that [of bi] by (simp add: sps_high_def high_bits_def high_of_def high_profiles_nat fields_ok_def)
next
  case True
  obtain c l8 c8 by0 where f: "f_high f = (c, l8, c8, by0)" by (cases "f_high f")
  have ok: "c < 3" "ue_ok l8" "ue_ok c8" using assms(2) f by (simp_all add: fields_ok_def)
  have c: "ue_ok c" "(of_nat c :: u32) \<noteq> 3"
  proof -
    show "ue_ok c" using ok(1) by (simp add: ue_ok_def)
    from ok(1) have "c = 0 \<or> c = 1 \<or> c = 2" by linarith
    then show "(of_nat c :: u32) \<noteq> 3" by auto
  qed
  have a: "ahead bi (ue_code c @ ue_code l8 @ ue_code c8 @ by0 # False # rest)" using assms(3) True f by (simp add: high_bits_def)
  obtain b1 where 1: "h264_buf_ue bi = Some (of_nat c, b1)" "ahead b1 (ue_code l8 @ ue_code c8 @ by0 # False # rest)"
    using ahead_ue [OF a c(1)] .
  obtain b2 where 2: "h264_buf_ue b1 = Some (of_nat l8, b2)" "ahead b2 (ue_code c8 @ by0 # False # rest)" using ahead_ue [OF 1(2) ok(2)] .
  obtain b3 where 3: "h264_buf_ue b2 = Some (of_nat c8, b3)" "ahead b3 (by0 # False # rest)" using ahead_ue [OF 2(2) ok(3)] .
  obtain b4 where 4: "h264_buf_u b3 (Suc 0) = Some (of_bool by0, b4)" "ahead b4 (False # rest)" using ahead_flag [OF 3(2)] .
  obtain b5 where 5: "h264_buf_u b4 (Suc 0) = Some (of_bool False, b5)" "ahead b5 rest" using ahead_flag [OF 4(2)] .
  have p: "profile_idc s \<in> set high_profiles" using assms(1,2) True by (simp add: high_profiles_nat fields_ok_def)
  show ?thesis
    by (rule that [OF _ 5(2)])
      (use p c(2) True in \<open>simp add: sps_high_def high_of_def f 1(1) 2(1) 3(1) 4(1) 5(1) [simplified]\<close>)
qed

lemma sps_order_read:
  assumes "fields_ok f"
    "ahead bi (order_bits f @ rest)"
  obtains bi' where "sps_order s bi = Some (order_of f s, bi')" "ahead bi' rest"
proof -
  have n: "ue_ok (f_frame_num f)" using assms(1) by (simp add: fields_ok_def)
  have small: "ue_ok 0" "ue_ok 2" by (simp_all add: ue_ok_def)
  obtain b1 where 1: "h264_buf_ue bi = Some (of_nat (f_frame_num f), b1)"
    "ahead b1 ((case f_lsb f of Some lsb \<Rightarrow> ue_code 0 @ ue_code lsb | None \<Rightarrow> ue_code 2) @ rest)" using ahead_ue [OF assms(2) [unfolded order_bits_def append_assoc] n] .
  show ?thesis
  proof (cases "f_lsb f")
    case None
    with 1 have "ahead b1 (ue_code 2 @ rest)" by simp
    then obtain b2 where 2: "h264_buf_ue b1 = Some (of_nat 2, b2)" "ahead b2 rest" using ahead_ue small(2) by blast
    show ?thesis by (rule that [OF _ 2(2)]) (simp add: sps_order_def order_of_def None 1(1) 2(1) Let_def)
  next
    case (Some lsb)
    with assms(1) have l: "ue_ok lsb" by (simp add: fields_ok_def)
    from 1 Some have "ahead b1 (ue_code 0 @ ue_code lsb @ rest)" by simp
    then obtain b2 where 2: "h264_buf_ue b1 = Some (of_nat 0, b2)" "ahead b2 (ue_code lsb @ rest)" using ahead_ue small(1) by blast
    obtain b3 where 3: "h264_buf_ue b2 = Some (of_nat lsb, b3)" "ahead b3 rest" using ahead_ue [OF 2(2) l] .
    show ?thesis by (rule that [OF _ 3(2)]) (simp add: sps_order_def order_of_def Some 1(1) 2(1) [simplified] 3(1) Let_def)
  qed
qed

lemma sps_size_read:
  assumes "fields_ok f"
    "ahead bi (size_bits f @ rest)"
  obtains bi' where "sps_size s bi = Some (size_of f s, bi')" "ahead bi' rest"
proof -
  have ok: "ue_ok (f_refs f)" "ue_ok (f_mbs_w f)" "ue_ok (f_mbs_h f)" using assms(1) by (simp_all add: fields_ok_def ue_ok_def)
  let ?r6 = "f_direct f # (f_crop f \<noteq> None) # rest"
  let ?r5 = "(if f_mbs_only f then [] else [f_adaptive f]) @ ?r6"
  have a: "ahead bi (ue_code (f_refs f) @ f_gaps f # ue_code (f_mbs_w f) @ ue_code (f_mbs_h f) @ f_mbs_only f # ?r5)"
    using assms(2) by (simp add: size_bits_def)
  obtain b1 where 1: "h264_buf_ue bi = Some (of_nat (f_refs f), b1)"
    "ahead b1 (f_gaps f # ue_code (f_mbs_w f) @ ue_code (f_mbs_h f) @ f_mbs_only f # ?r5)" using ahead_ue [OF a ok(1)] .
  obtain b2 where 2: "h264_buf_u b1 (Suc 0) = Some (of_bool (f_gaps f), b2)"
    "ahead b2 (ue_code (f_mbs_w f) @ ue_code (f_mbs_h f) @ f_mbs_only f # ?r5)" using ahead_flag [OF 1(2)] .
  obtain b3 where 3: "h264_buf_ue b2 = Some (of_nat (f_mbs_w f), b3)"
    "ahead b3 (ue_code (f_mbs_h f) @ f_mbs_only f # ?r5)" using ahead_ue [OF 2(2) ok(2)] .
  obtain b4 where 4: "h264_buf_ue b3 = Some (of_nat (f_mbs_h f), b4)" "ahead b4 (f_mbs_only f # ?r5)" using ahead_ue [OF 3(2) ok(3)] .
  obtain b5 where 5: "h264_buf_u b4 (Suc 0) = Some (of_bool (f_mbs_only f), b5)" "ahead b5 ?r5" using ahead_flag [OF 4(2)] .
  obtain b6 v where 6: "(if of_bool (f_mbs_only f) = (0 :: u32) then h264_buf_u b5 (Suc 0) else Some (mb_adaptive_frame_field_flag s, b5))
      = Some (if f_mbs_only f then mb_adaptive_frame_field_flag s else of_bool (f_adaptive f), b6)" "ahead b6 ?r6"
    using 5(2) ahead_flag [of b5 "f_adaptive f" ?r6] by (cases "f_mbs_only f") auto
  obtain b7 where 7: "h264_buf_u b6 (Suc 0) = Some (of_bool (f_direct f), b7)" "ahead b7 ((f_crop f \<noteq> None) # rest)" using ahead_flag [OF 6(2)] .
  obtain b8 where 8: "h264_buf_u b7 (Suc 0) = Some (of_bool (f_crop f \<noteq> None), b8)" "ahead b8 rest" using ahead_flag [OF 7(2)] .
  show ?thesis
  proof (rule that [OF _ 8(2)], cases "f_mbs_only f")
    case True
    with 6(1) have "b6 = b5" by simp
    with True show "sps_size s bi = Some (size_of f s, b8)"
      using 7(1) by (simp add: sps_size_def size_of_def 1(1) 2(1) 3(1) 4(1) 5(1) 8(1))
  next
    case False
    with 6(1) have "h264_buf_u b5 (Suc 0) = Some (of_bool (f_adaptive f), b6)" by simp
    with False show "sps_size s bi = Some (size_of f s, b8)"
      using 7(1) by (simp add: sps_size_def size_of_def 1(1) 2(1) 3(1) 4(1) 5(1) 8(1))
  qed
qed

lemma sps_crop_read:
  assumes "fields_ok f" "frame_cropping_flag s = of_bool (f_crop f \<noteq> None)"
    "ahead bi (crop_bits f @ rest)"
  obtains bi' where "sps_crop s bi = Some (crop_of f s, bi')" "ahead bi' rest"
proof (cases "f_crop f")
  case None
  with assms(3) have "ahead bi (f_vui f # rest)" by (simp add: crop_bits_def)
  from ahead_flag [OF this] obtain b1 where 1: "h264_buf_u bi (Suc 0) = Some (of_bool (f_vui f), b1)" "ahead b1 rest" .
  show ?thesis by (rule that [OF _ 1(2)]) (use assms(2) None in \<open>simp add: sps_crop_def crop_of_def 1(1)\<close>)
next
  case (Some q)
  obtain l r t b where q: "q = (l, r, t, b)" by (cases q)
  have ok: "ue_ok l" "ue_ok r" "ue_ok t" "ue_ok b" using assms(1) Some q by (simp_all add: fields_ok_def ue_ok_def)
  have a: "ahead bi (ue_code l @ ue_code r @ ue_code t @ ue_code b @ f_vui f # rest)" using assms(3) Some q by (simp add: crop_bits_def)
  obtain b1 where 1: "h264_buf_ue bi = Some (of_nat l, b1)" "ahead b1 (ue_code r @ ue_code t @ ue_code b @ f_vui f # rest)"
    using ahead_ue [OF a ok(1)] .
  obtain b2 where 2: "h264_buf_ue b1 = Some (of_nat r, b2)" "ahead b2 (ue_code t @ ue_code b @ f_vui f # rest)" using ahead_ue [OF 1(2) ok(2)] .
  obtain b3 where 3: "h264_buf_ue b2 = Some (of_nat t, b3)" "ahead b3 (ue_code b @ f_vui f # rest)" using ahead_ue [OF 2(2) ok(3)] .
  obtain b4 where 4: "h264_buf_ue b3 = Some (of_nat b, b4)" "ahead b4 (f_vui f # rest)" using ahead_ue [OF 3(2) ok(4)] .
  obtain b5 where 5: "h264_buf_u b4 (Suc 0) = Some (of_bool (f_vui f), b5)" "ahead b5 rest" using ahead_flag [OF 4(2)] .
  show ?thesis by (rule that [OF _ 5(2)]) (use assms(2) Some q in \<open>simp add: sps_crop_def crop_of_def 1(1) 2(1) 3(1) 4(1) 5(1)\<close>)
qed


definition sps_of :: "sps_fields \<Rightarrow> mini_h264_sps" where
  "sps_of f = crop_of f (size_of f (order_of f (high_of f
     (sps_zero\<lparr>profile_idc := of_nat (f_profile f), level_idc := of_nat (f_level f), spsid := of_nat (f_id f)\<rparr>))))"

lemma parse_sps_read:
  assumes "fields_ok f" "bits p = sps_bits f @ rest"
  shows "parse_sps (escape 0 p) = Some (sps_of f, sps_width (sps_of f), sps_height (sps_of f))"
proof -
  define tail where "tail = drop (length p) (escape 0 p)"
  have buf: "fst (rbsp_loop (escape 0 p) 0 0) = p @ tail" by (simp add: rbsp_in_place rbsp_escape tail_def)
  let ?s0 = "sps_zero\<lparr>profile_idc := of_nat (f_profile f), level_idc := of_nat (f_level f), spsid := of_nat (f_id f)\<rparr>"
  let ?rest = "rest @ bits tail"
  have a: "ahead (h264_bufinit (p @ tail))
      (nbits 8 (f_profile f) @ nbits 8 0 @ nbits 8 (f_level f) @ ue_code (f_id f) @ high_bits f @ order_bits f @ size_bits f @ crop_bits f @ ?rest)"
    unfolding ahead_def bufinit_at
    by (rule exI [of _ "p @ tail"], rule exI [of _ 0]) (simp add: bits_append assms(2) sps_bits_def)
  have p: "f_profile f < 256" "f_level f < 256" "ue_ok (f_id f)" using assms(1) by (simp_all add: fields_ok_def)
  obtain b1 where 1: "sps_start sps_zero (h264_bufinit (p @ tail)) = Some (?s0, b1)" "ahead b1 (high_bits f @ order_bits f @ size_bits f @ crop_bits f @ ?rest)"
    using sps_start_read [OF a p, of sps_zero] .
  obtain b2 where 2: "sps_high ?s0 b1 = Some (high_of f ?s0, b2)" "ahead b2 (order_bits f @ size_bits f @ crop_bits f @ ?rest)"
    using sps_high_read [OF _ assms(1) 1(2), of ?s0] by auto
  obtain b3 where 3: "sps_order (high_of f ?s0) b2 = Some (order_of f (high_of f ?s0), b3)" "ahead b3 (size_bits f @ crop_bits f @ ?rest)"
    using sps_order_read [OF assms(1) 2(2)] .
  let ?s3 = "size_of f (order_of f (high_of f ?s0))"
  obtain b4 where 4: "sps_size (order_of f (high_of f ?s0)) b3 = Some (?s3, b4)" "ahead b4 (crop_bits f @ ?rest)"
    using sps_size_read [OF assms(1) 3(2)] .
  have c: "frame_cropping_flag ?s3 = of_bool (f_crop f \<noteq> None)" by (simp add: size_of_def)
  obtain b5 where 5: "sps_crop ?s3 b4 = Some (crop_of f ?s3, b5)" using sps_crop_read [OF assms(1) c 4(2)] .
  show ?thesis unfolding parse_sps_def buf by (simp add: 1(1) 2(1) 3(1) 4(1) 5 sps_of_def)
qed

lemma sps_of_fields:
  "pic_width_in_mbs_minus1 (sps_of f) = of_nat (f_mbs_w f)"
  "pic_height_in_map_units_minus1 (sps_of f) = of_nat (f_mbs_h f)"
  "frame_mbs_only_flag (sps_of f) = of_bool (f_mbs_only f)"
  "profile_idc (sps_of f) = of_nat (f_profile f)"
  "level_idc (sps_of f) = of_nat (f_level f)"
  by (simp_all add: sps_of_def crop_of_def size_of_def order_of_def high_of_def split: option.splits prod.splits)


lemma crop_of_None: "f_crop f = None \<Longrightarrow> frame_crop_left_offset (sps_of f) = 0 \<and> frame_crop_right_offset (sps_of f) = 0 \<and>
    frame_crop_top_offset (sps_of f) = 0 \<and> frame_crop_bottom_offset (sps_of f) = 0"
  by (simp add: sps_of_def crop_of_def size_of_def order_of_def high_of_def sps_zero_def split: option.splits prod.splits)

lemma crop_of_Some: "f_crop f = Some (l, r, t, b) \<Longrightarrow> frame_crop_left_offset (sps_of f) = of_nat l \<and>
    frame_crop_right_offset (sps_of f) = of_nat r \<and> frame_crop_top_offset (sps_of f) = of_nat t \<and> frame_crop_bottom_offset (sps_of f) = of_nat b"
  by (simp add: sps_of_def crop_of_def)

lemma sint_u32: "- (2 ^ 31) \<le> x \<Longrightarrow> x < 2 ^ 31 \<Longrightarrow> sint (of_int x :: u32) = x"
  by (simp add: signed_of_int signed_take_bit_int_eq_self)

lemma sps_of_width:
  assumes "fields_ok f"
  shows "sps_width (sps_of f) = 16 * (int (f_mbs_w f) + 1) - crop_w f"
proof (cases "f_crop f")
  case None
  have "sps_width (sps_of f) = sint (of_int (16 * (int (f_mbs_w f) + 1)) :: u32)"
    by (simp add: sps_width_def sps_of_fields crop_of_None [OF None] algebra_simps)
  also have "\<dots> = 16 * (int (f_mbs_w f) + 1)" using assms by (intro sint_u32) (auto simp: fields_ok_def)
  finally show ?thesis by (simp add: crop_w_def None)
next
  case (Some q)
  obtain l r t b where q: "f_crop f = Some (l, r, t, b)" using Some by (cases q) simp
  have "sps_width (sps_of f) = sint (of_int (16 * (int (f_mbs_w f) + 1) - 2 * int (l + r)) :: u32)"
    by (simp add: sps_width_def sps_of_fields crop_of_Some [OF q] algebra_simps)
  also have "\<dots> = 16 * (int (f_mbs_w f) + 1) - 2 * int (l + r)" using assms q by (intro sint_u32) (auto simp: fields_ok_def)
  finally show ?thesis by (simp add: crop_w_def q)
qed

lemma sps_of_height:
  assumes "fields_ok f"
  shows "sps_height (sps_of f) = (if f_mbs_only f then 1 else 2) * 16 * (int (f_mbs_h f) + 1) - crop_h f"
proof -
  let ?m = "(if f_mbs_only f then 1 else 2) :: int"
  have m: "2 - of_bool (f_mbs_only f) = (of_int ?m :: u32)" by simp
  show ?thesis
  proof (cases "f_crop f")
    case None
    have "sps_height (sps_of f) = sint (of_int (?m * 16 * (int (f_mbs_h f) + 1)) :: u32)"
      unfolding sps_height_def sps_of_fields m by (simp add: crop_of_None [OF None] algebra_simps)
    also have "\<dots> = ?m * 16 * (int (f_mbs_h f) + 1)" using assms by (intro sint_u32) (auto simp: fields_ok_def)
    finally show ?thesis by (simp add: crop_h_def None)
  next
    case (Some q)
    obtain l r t b where q: "f_crop f = Some (l, r, t, b)" using Some by (cases q) simp
    have "sps_height (sps_of f) = sint (of_int (?m * 16 * (int (f_mbs_h f) + 1) - 2 * int (t + b)) :: u32)"
      unfolding sps_height_def sps_of_fields m by (simp add: crop_of_Some [OF q] algebra_simps)
    also have "\<dots> = ?m * 16 * (int (f_mbs_h f) + 1) - 2 * int (t + b)" using assms q by (intro sint_u32) (auto simp: fields_ok_def)
    finally show ?thesis by (simp add: crop_h_def q)
  qed
qed

text \<open>The coded unit holds no start code.\<close>

fun no_zeros3 :: "byte list \<Rightarrow> bool" where
  "no_zeros3 (a # b # c # bs) = (\<not> (a = 0 \<and> b = 0 \<and> c = 0) \<and> no_zeros3 (b # c # bs))"
| "no_zeros3 _ = True"

lemma no_zeros3_nonzero: "b \<noteq> 0 \<Longrightarrow> no_zeros3 (b # bs) = no_zeros3 bs"
  by (cases "b # bs" rule: no_zeros3.cases) auto

lemma no_zeros3_zero: "b \<noteq> 0 \<Longrightarrow> no_zeros3 (0 # b # bs) = no_zeros3 bs"
  by (cases bs) (simp_all add: no_zeros3_nonzero)

lemma no_zeros3_zeros: "b \<noteq> 0 \<Longrightarrow> no_zeros3 (0 # 0 # b # bs) = no_zeros3 bs"
  by (simp add: no_zeros3_zero)

lemma escape_no_zeros3:
  "no_zeros3 (escape 0 bs) \<and> no_zeros3 (0 # escape (Suc 0) bs) \<and> no_zeros3 (0 # 0 # escape (Suc (Suc 0)) bs)"
proof (induction bs)
  case (Cons b bs)
  consider "b = 0" | "b \<noteq> 0" "b \<le> 3" | "b \<noteq> 0" "\<not> b \<le> 3" by blast
  then show ?case
    by cases (use Cons.IH in \<open>simp_all add: no_zeros3_nonzero no_zeros3_zero no_zeros3_zeros\<close>)
qed simp

lemma no_zeros3_nth:
  "no_zeros3 bs \<Longrightarrow> j + 2 < length bs \<Longrightarrow> \<not> (bs ! j = 0 \<and> bs ! (j + 1) = 0 \<and> bs ! (j + 2) = 0)"
proof (induction bs arbitrary: j rule: no_zeros3.induct)
  case (1 a b c bs)
  show ?case
  proof (cases j)
    case (Suc i)
    then show ?thesis using 1(1) [of i] 1(2,3) by simp
  qed (use 1 in simp)
qed simp_all

lemma escape_last: "p \<noteq> [] \<Longrightarrow> escape z p \<noteq> [] \<and> last (escape z p) = last p"
proof (induction p arbitrary: z)
  case (Cons b p)
  then show ?case by (cases "p = []") simp_all
qed simp

definition start_code :: "byte list \<Rightarrow> nat \<Rightarrow> bool" where
  "start_code buf i = (buf ! i = 0 \<and> buf ! (i + 1) = 0 \<and> buf ! (i + 2) = 0 \<and> buf ! (i + 3) = 1)"

lemma next_start_Suc: "next_start (Suc n) i buf = (if start_code buf i then i else next_start n (i + 1) buf)"
  unfolding next_start.simps start_code_def ..

lemma next_start_none: "(\<forall>j. i \<le> j \<and> j < i + n \<longrightarrow> \<not> start_code buf j) \<Longrightarrow> next_start n i buf = 0"
proof (induction n arbitrary: i)
  case (Suc n)
  have "\<not> start_code buf i" using Suc.prems by simp
  moreover have "next_start n (i + 1) buf = 0" using Suc.prems by (intro Suc.IH) auto
  ultimately show ?case unfolding next_start_Suc by simp
qed simp

lemma next_start_first:
  "\<lbrakk> i \<le> m; m < i + n; start_code buf m; \<forall>j. i \<le> j \<and> j < m \<longrightarrow> \<not> start_code buf j \<rbrakk> \<Longrightarrow> next_start n i buf = m"
proof (induction n arbitrary: i)
  case (Suc n)
  show ?case
  proof (cases "i = m")
    case True
    with Suc.prems(3) show ?thesis unfolding next_start_Suc by simp
  next
    case False
    then have "\<not> start_code buf i" using Suc.prems by simp
    moreover have "next_start n (i + 1) buf = m" using Suc.prems False by (intro Suc.IH) auto
    ultimately show ?thesis unfolding next_start_Suc by simp
  qed
qed simp

text \<open>No start code begins in the header or in the payload of a unit.\<close>

lemma start_code_not_within:
  assumes "no_zeros3 e" "e \<noteq> []" "last e \<noteq> 0" "hdr \<noteq> 0" "4 \<le> j" "j < 5 + length e"
    "j + 3 < length ([0, 0, 0, 1, hdr] @ e @ next)"
  shows "\<not> start_code ([0, 0, 0, 1, hdr] @ e @ next) j"
proof -
  let ?b = "[0, 0, 0, 1, hdr] @ e @ next"
  have at: "?b ! (5 + i) = e ! i" if "i < length e" for i using that by (simp add: nth_append)
  consider "j = 4" | "5 \<le> j" "j + 2 < 5 + length e" | "5 \<le> j" "\<not> j + 2 < 5 + length e" using assms(5) by linarith
  then show ?thesis
  proof cases
    case 1
    then show ?thesis using assms(4) by (simp add: start_code_def)
  next
    case 2
    define i where "i = j - 5"
    have i: "j = 5 + i" "i + 2 < length e" using 2 by (simp_all add: i_def)
    then have "?b ! j = e ! i" "?b ! (j + 1) = e ! (i + 1)" "?b ! (j + 2) = e ! (i + 2)"
      using at [of i] at [of "i + 1"] at [of "i + 2"] by (simp_all add: add.assoc)
    with no_zeros3_nth [OF assms(1) i(2)] show ?thesis by (auto simp: start_code_def)
  next
    case 3
    let ?l = "length e - 1"
    have l: "?b ! (5 + ?l) \<noteq> 0" using at [of ?l] assms(2,3) by (simp add: last_conv_nth)
    have "5 + ?l = j \<or> 5 + ?l = j + 1" using 3 assms(2,6) by (cases e) auto
    with l show ?thesis unfolding start_code_def by auto
  qed
qed

lemma nal_end_only:
  assumes "no_zeros3 e" "e \<noteq> []" "last e \<noteq> 0" "hdr \<noteq> 0"
  shows "nal_end ([0, 0, 0, 1, hdr] @ e) = 0"
proof -
  have "\<not> start_code ([0, 0, 0, 1, hdr] @ e @ []) j" if "4 \<le> j" "j < 4 + (length e + 5 - 8)" for j
    using that assms by (intro start_code_not_within) auto
  then show ?thesis unfolding nal_end_def by (intro next_start_none) (simp add: add.commute)
qed

lemma nal_end_next:
  assumes "no_zeros3 e" "e \<noteq> []" "last e \<noteq> 0" "hdr \<noteq> 0"
  shows "nal_end ([0, 0, 0, 1, hdr] @ e @ [0, 0, 0, 1, x] @ ys) = 5 + length e"
  unfolding nal_end_def
proof (rule next_start_first)
  show "start_code ([0, 0, 0, 1, hdr] @ e @ [0, 0, 0, 1, x] @ ys) (5 + length e)"
    by (simp add: start_code_def nth_append)
  show "\<forall>j. 4 \<le> j \<and> j < 5 + length e \<longrightarrow> \<not> start_code ([0, 0, 0, 1, hdr] @ e @ [0, 0, 0, 1, x] @ ys) j"
  proof (intro allI impI)
    fix j
    assume "4 \<le> j \<and> j < 5 + length e"
    with assms show "\<not> start_code ([0, 0, 0, 1, hdr] @ e @ [0, 0, 0, 1, x] @ ys) j" by (intro start_code_not_within) auto
  qed
qed auto


lemma nal_unit_only:
  assumes "no_zeros3 e" "e \<noteq> []" "last e \<noteq> 0" "hdr \<noteq> 0"
  shows "nal_unit ([0, 0, 0, 1, hdr] @ e) = [0, 0, 0, 1, hdr] @ e"
  unfolding nal_unit_def nal_end_only [OF assms] by simp

lemma nal_unit_next:
  assumes "no_zeros3 e" "e \<noteq> []" "last e \<noteq> 0" "hdr \<noteq> 0"
  shows "nal_unit ([0, 0, 0, 1, hdr] @ e @ [0, 0, 0, 1, x] @ ys) = [0, 0, 0, 1, hdr] @ e"
proof -
  have "take (length ([0, 0, 0, 1, hdr] @ e)) (([0, 0, 0, 1, hdr] @ e) @ [0, 0, 0, 1, x] @ ys) = [0, 0, 0, 1, hdr] @ e"
    by (rule append_eq_conv_conj [THEN iffD1, OF refl, THEN conjunct1, symmetric])
  moreover have "length ([0, 0, 0, 1, hdr] @ e) = 5 + length e" by simp
  ultimately have "take (5 + length e) ([0, 0, 0, 1, hdr] @ e @ [0, 0, 0, 1, x] @ ys) = [0, 0, 0, 1, hdr] @ e"
    by (simp only: append_assoc)
  moreover have "5 + length e > 0" by simp
  ultimately show ?thesis unfolding nal_unit_def nal_end_next [OF assms] by (simp only: if_True)
qed


definition sps_720p :: sps_fields where
  "sps_720p = \<lparr>f_profile = 66, f_level = 31, f_high = (1, 0, 0, False), f_id = 0, f_frame_num = 0, f_lsb = Some 0, f_refs = 1, f_gaps = False,
     f_mbs_w = 79, f_mbs_h = 44, f_mbs_only = True, f_adaptive = False, f_direct = True, f_crop = None, f_vui = False\<rparr>"

lemma log2_floor_numeral: "log2_floor (numeral (num.Bit0 k)) = Suc (log2_floor (numeral k))"
  "log2_floor (numeral (num.Bit1 k)) = Suc (log2_floor (numeral k))" "log2_floor (Suc 0) = 0"
  "log2_floor (Suc (Suc 0)) = Suc 0"
  by (simp_all add: log2_floor.simps [of "Suc (Suc 0)"] log2_floor.simps [of "numeral (num.Bit0 k)"] log2_floor.simps [of "numeral (num.Bit1 k)"] log2_floor.simps [of "Suc 0"])

lemma nbits_numeral: "nbits (numeral k) v = bit v (pred_numeral k) # nbits (pred_numeral k) v"
  by (simp_all add: numeral_eq_Suc)

lemmas ue_eval = ue_code_def Let_def log2_floor_numeral nbits_numeral bit_Suc [where 'a = nat] bit_0 [where 'a = nat]

lemma ue_720p: "ue_code 0 = [True]" "ue_code (Suc 0) = [False, True, False]" "ue_code 44 = [False, False, False, False, False, True, False, True, True, False, True]"  "ue_code 79 = [False, False, False, False, False, False, True, False, True, False, False, False, False]"
  by (simp_all add: ue_eval)

lemma u8_720p: "nbits 8 66 = [False, True, False, False, False, False, True, False]" "nbits 8 0 = [False, False, False, False, False, False, False, False]" "nbits 8 31 = [False, False, False, True, True, True, True, True]"
  by (simp_all add: ue_eval)

definition sps_720p_bytes :: "byte list" where
  "sps_720p_bytes = [66, 0, 31, 244, 2, 128, 45, 200]"

lemma bits_720p: "bits sps_720p_bytes = sps_bits sps_720p @ [True, False, False, False]"
  by (simp add: sps_720p_bytes_def bits_def upt_rec sps_720p_def sps_bits_def high_bits_def is_high_def order_bits_def size_bits_def crop_bits_def
      ue_720p u8_720p)


text \<open>The type of a slice.\<close>

lemma slice_frametype_mod: "t < 10 \<Longrightarrow> slice_frametype (of_nat t) = [TYPE_P_FRAME, TYPE_B_FRAME, TYPE_I_FRAME, TYPE_SP_FRAME, TYPE_SI_FRAME] ! (t mod 5)"
proof -
  assume "t < 10"
  then have "t \<in> {0, 1, 2, 3, 4, 5, 6, 7, 8, 9}" by auto
  then show ?thesis by (auto simp: slice_frametype_def)
qed

text \<open>The type of a frame comes from the second Exp-Golomb code of a slice: for a unit of type 1, 5 or 19 whose
  payload starts with the codes of the first macroblock and of the slice type \<open>t\<close>, the frame is P, B, I, SP or SI as \<open>t\<close>
  modulo 5 tells, and the parser succeeds.\<close>

theorem mini_h264_slice_type:
  assumes "bits payload = ue_code mb @ ue_code t @ rest" "mb < 2 ^ 31 - 1" "t < 10" "hdr AND 0x80 = 0" "hdr AND 0x1f \<in> {1, 5, 19}"
  shows "\<exists>c. mini_h264_parse mem ctx ([0, 0, 0, 1, hdr] @ payload) = Some (0, c) \<and>
    frametype c = [TYPE_P_FRAME, TYPE_B_FRAME, TYPE_I_FRAME, TYPE_SP_FRAME, TYPE_SI_FRAME] ! (t mod 5)"
proof -
  have a: "ahead (h264_bufinit payload) (ue_code mb @ ue_code t @ rest)"
    unfolding ahead_def bufinit_at by (rule exI [of _ payload], rule exI [of _ 0]) (simp add: assms(1))
  have ok: "ue_ok mb" "ue_ok t" using assms(2,3) by (simp_all add: ue_ok_def)
  obtain b1 where 1: "h264_buf_ue (h264_bufinit payload) = Some (of_nat mb, b1)" "ahead b1 (ue_code t @ rest)" using ahead_ue [OF a ok(1)] .
  obtain b2 where 2: "h264_buf_ue b1 = Some (of_nat t, b2)" using ahead_ue [OF 1(2) ok(2)] .
  have u: "ucast (of_nat t :: u32) = (of_nat t :: u16)" using assms(3) by (simp add: unsigned_of_nat take_bit_nat_eq_self)
  show ?thesis
    using assms(4,5) by (auto simp: mini_h264_parse_def Let_def parse_slice_layer_wo_partition_def 1(1) 2 u slice_frametype_mod [OF assms(3)])
qed

lemma mini_h264_slice_type_witness:
  "\<exists>c. mini_h264_parse (True, True) h264_context_zero ([0, 0, 0, 1, 0x65] @ [0xb0]) = Some (0, c) \<and> frametype c = TYPE_I_FRAME"
proof -
  have t: "ue_code 2 = [False, True, True]" by (simp add: ue_eval)
  have b: "bits [0xb0] = ue_code 0 @ ue_code 2 @ [False, False, False, False]"
    by (simp add: bits_def upt_rec ue_720p(1) t)
  have hdr: "(0x65 :: byte) AND 0x80 = 0" "(0x65 :: byte) AND 0x1f \<in> {1, 5, 19}" by simp_all
  from mini_h264_slice_type [OF b _ _ hdr, of "(True, True)" h264_context_zero] show ?thesis by simp
qed

text \<open>The offsets of the reference frames fit an array of 64; a stream with more writes behind it.\<close>

lemma ref_offsets_bound: "ref_offsets n i offs bi = Some r \<Longrightarrow> n = 0 \<or> i + n \<le> length offs"
proof (induction n arbitrary: i offs bi)
  case (Suc n)
  then obtain v bi1 where v: "i < length offs" "ref_offsets n (Suc i) (offs[i := v]) bi1 = Some r"
    by (auto simp: bind_eq_Some_conv split: if_splits)
  from Suc.IH [OF v(2)] v(1) show ?case by auto
qed simp

lemma sps_order_bound:
  assumes "sps_order s bi = Some (s', bi')" "length (offset_for_ref_frame s) = 64" "pic_order_cnt_type s' = 1"
  shows "unat (num_ref_frames_in_pic_order_cnt_cycle s') \<le> 64"
proof -
  have b: "unat n \<le> 64" if "ref_offsets (unat n) 0 (offset_for_ref_frame s) bi = Some r" for n bi r
    using ref_offsets_bound [OF that] assms(2) by auto
  show ?thesis
    using assms by (auto simp: sps_order_def Let_def bind_eq_Some_conv split: if_splits dest!: b)
qed

lemma sps_start_offs: "sps_start s bi = Some (s', bi') \<Longrightarrow> offset_for_ref_frame s' = offset_for_ref_frame s"
  by (auto simp: sps_start_def bind_eq_Some_conv)

lemma sps_high_offs: "sps_high s bi = Some (s', bi') \<Longrightarrow> offset_for_ref_frame s' = offset_for_ref_frame s"
  by (cases "profile_idc s \<in> set high_profiles") (auto simp: sps_high_def bind_eq_Some_conv)

lemma sps_rest_cycle:
  "sps_size s bi = Some (s', bi') \<Longrightarrow> pic_order_cnt_type s' = pic_order_cnt_type s \<and>
     num_ref_frames_in_pic_order_cnt_cycle s' = num_ref_frames_in_pic_order_cnt_cycle s"
  "sps_crop s bi = Some (s', bi') \<Longrightarrow> pic_order_cnt_type s' = pic_order_cnt_type s \<and>
     num_ref_frames_in_pic_order_cnt_cycle s' = num_ref_frames_in_pic_order_cnt_cycle s"
  by (auto simp: sps_size_def sps_crop_def bind_eq_Some_conv split: if_split_asm)

text \<open>A parameter set of picture order count type 1 that is parsed within its memory announces at most 64 reference
  frames: a larger count, which the code does not refuse, writes behind \<open>offset_for_ref_frame\<close> (or reads behind the buffer).\<close>

theorem parse_sps_ref_frames_bound:
  assumes "parse_sps buf = Some (s, w, h)" "pic_order_cnt_type s = 1"
  shows "unat (num_ref_frames_in_pic_order_cnt_cycle s) \<le> 64"
proof -
  obtain s1 b1 s2 b2 s3 b3 s4 b4 b5 b0 where
    1: "sps_start sps_zero b0 = Some (s1, b1)" and 2: "sps_high s1 b1 = Some (s2, b2)" and 3: "sps_order s2 b2 = Some (s3, b3)"
    and 4: "sps_size s3 b3 = Some (s4, b4)" and 5: "sps_crop s4 b4 = Some (s, b5)"
    using assms(1) by (auto simp: parse_sps_def bind_eq_Some_conv)
  have "length (offset_for_ref_frame s2) = 64" using sps_start_offs [OF 1] sps_high_offs [OF 2] by (simp add: sps_zero_def)
  moreover have "pic_order_cnt_type s3 = 1" using assms(2) sps_rest_cycle(1) [OF 4] sps_rest_cycle(2) [OF 5] by simp
  ultimately show ?thesis using sps_order_bound [OF 3] sps_rest_cycle(1) [OF 4] sps_rest_cycle(2) [OF 5] by simp
qed

end
