(* ===== verification/MiniVp8.thy ===== *)
theory MiniVp8
  imports GaPrelude
begin

text \<open>
  The VP8 parser of the client, \<open>client/minivp8.cpp\<close>: the payload descriptor, the frame tag and the
  size of a key frame. The length of the buffer is not looked at: a read behind it is undefined.
\<close>

record mini_vp8_context =
  vp_extended :: byte
  vp_non_reference :: byte
  vp_start :: byte
  vp_pid :: u16
  vp_has_picid :: byte
  vp_has_TL0PICIDX :: byte
  vp_has_tid :: byte
  vp_has_keyidx :: byte
  vp_show_frame :: byte
  vp_is_keyframe :: byte
  vp_ver :: byte
  vp_size :: u32
  vp_width :: int
  vp_height :: int

definition vp8_context_zero :: mini_vp8_context where
  "vp8_context_zero = \<lparr>vp_extended = 0, vp_non_reference = 0, vp_start = 0, vp_pid = 0, vp_has_picid = 0, vp_has_TL0PICIDX = 0,
     vp_has_tid = 0, vp_has_keyidx = 0, vp_show_frame = 0, vp_is_keyframe = 0, vp_ver = 0, vp_size = 0, vp_width = 0, vp_height = 0\<rparr>"

text \<open>Pointers are offsets into the buffer.\<close>

definition parse_descriptor :: "mini_vp8_context \<Rightarrow> byte list \<Rightarrow> int \<Rightarrow> (mini_vp8_context \<times> int) option" where
  "parse_descriptor ctx buf ptr = do {
     b \<leftarrow> c_get buf ptr;
     let ctx = ctx\<lparr>vp_extended := b AND 0x80, vp_non_reference := b AND 0x20, vp_start := b AND 0x10, vp_pid := ucast (b AND 0x07)\<rparr>;
     let ptr = ptr + 1;
     (ctx, ptr) \<leftarrow> (if vp_extended ctx \<noteq> 0 then do {
         x \<leftarrow> c_get buf ptr;
         Some (ctx\<lparr>vp_has_picid := x AND 0x80, vp_has_TL0PICIDX := x AND 0x40, vp_has_tid := x AND 0x20, vp_has_keyidx := x AND 0x10\<rparr>, ptr + 1) }
       else Some (ctx, ptr));
     let ptr = (if vp_has_picid ctx \<noteq> 0 then ptr + 1 else ptr);
     let ptr = (if vp_has_TL0PICIDX ctx \<noteq> 0 then ptr + 1 else ptr);
     let ptr = (if vp_has_tid ctx \<noteq> 0 \<or> vp_has_keyidx ctx \<noteq> 0 then ptr + 1 else ptr);
     Some (ctx, ptr) }"

definition parse_payload_header :: "mini_vp8_context \<Rightarrow> byte list \<Rightarrow> int \<Rightarrow> (mini_vp8_context \<times> int) option" where
  "parse_payload_header ctx buf ptr = do {
     b \<leftarrow> c_get buf ptr;
     size1 \<leftarrow> c_get buf (ptr + 1);
     size2 \<leftarrow> c_get buf (ptr + 2);
     Some (ctx\<lparr>vp_show_frame := b AND 0x10, vp_ver := drop_bit 1 (b AND 0x0e), vp_is_keyframe := (b AND 0x01) XOR 0x01,
       vp_size := ucast (drop_bit 5 (b AND 0xe0)) + 8 * ucast size1 + 2048 * ucast size2\<rparr>, ptr + 3) }"

definition mini_vp8_parse :: "byte list \<Rightarrow> (int \<times> mini_vp8_context) option" where
  "mini_vp8_parse buf = do {
     (ctx, ptr) \<leftarrow> parse_descriptor vp8_context_zero buf 0;
     (ctx, ptr) \<leftarrow> parse_payload_header ctx buf 0;
     (if vp_is_keyframe ctx \<noteq> 0 then do {
        _ \<leftarrow> c_get buf ptr;
        w \<leftarrow> c_read buf (ptr + 3) 2;
        h \<leftarrow> c_read buf (ptr + 5) 2;
        Some (0, ctx\<lparr>vp_width := uint (un16 w AND 0x3fff), vp_height := uint (un16 h AND 0x3fff)\<rparr>) }
      else Some (0, ctx)) }"

text \<open>The uncompressed chunk of a frame as section 9.1 of RFC 6386 writes it: a tag of three bytes with the
  key frame bit (0 for a key frame), the version, the show flag and the size of the first partition; on a
  key frame the start code and the size of the picture, each with two bits of scale above.\<close>

definition vp8_tag :: "bool \<Rightarrow> nat \<Rightarrow> bool \<Rightarrow> nat \<Rightarrow> u32" where
  "vp8_tag key ver show part = of_nat ((if key then 0 else 1) + 2 * ver + 16 * of_bool show + 32 * part)"

definition vp8_frame :: "bool \<Rightarrow> nat \<Rightarrow> bool \<Rightarrow> nat \<Rightarrow> nat \<Rightarrow> nat \<Rightarrow> nat \<Rightarrow> nat \<Rightarrow> byte list" where
  "vp8_frame key ver show part w hs h vs =
     take 3 (le32 (vp8_tag key ver show part)) @
     (if key then [0x9d, 0x01, 0x2a] @ le16 (of_nat (w + 2 ^ 14 * hs)) @ le16 (of_nat (h + 2 ^ 14 * vs)) else [])"

lemma tag_bytes: "take 3 (le32 (of_nat t)) = [of_nat t, of_nat (t div 256), of_nat (t div 65536)]"
proof -
  have "ucast (of_nat t :: u32) = (of_nat t :: byte)" by (rule bit_word_eqI) (simp add: bit_simps)
  moreover have "ucast (drop_bit 8 (of_nat t :: u32)) = (of_nat (t div 256) :: byte)"
    by (rule bit_word_eqI) (simp add: bit_simps drop_bit_eq_div [of 8, symmetric, simplified])
  moreover have "ucast (drop_bit 16 (of_nat t :: u32)) = (of_nat (t div 65536) :: byte)"
    by (rule bit_word_eqI) (simp add: bit_simps drop_bit_eq_div [of 16, symmetric, simplified])
  ultimately show ?thesis by (simp add: le32_def numeral_3_eq_3)
qed

lemma tag_parts:
  assumes "(t :: nat) < 2 ^ 24"
  shows "t mod 256 div 32 + 8 * (t div 256 mod 256) + 2048 * (t div 65536 mod 256) = t div 32"
proof -
  define q where "q = t div 32"
  have "t mod (32 * 8) = 32 * (t div 32 mod 8) + t mod 32" by (rule mod_mult2_eq)
  then have "t mod 256 div 32 = q mod 8" by (simp add: q_def)
  moreover have "t div 256 = q div 8" "t div 65536 = q div 2048" by (simp_all add: q_def flip: div_mult2_eq)
  moreover have "q div 8 mod 256 + 256 * (q div 2048) = q div 8" by (simp add: div_mult2_eq [of q 8 256, simplified])
  moreover have "q div 2048 mod 256 = q div 2048" using assms by (simp add: q_def less_mult_imp_div_less)
  moreover have "q mod 8 + 8 * (q div 8) = q" by presburger
  ultimately show ?thesis unfolding q_def [symmetric] by (simp only:)
qed

lemma tag_fields:
  assumes "k \<le> 1" "v < 8" "s \<le> 1"
  shows "(k + 2 * v + 16 * s + 32 * p) div 32 = (p :: nat)" "(k + 2 * v + 16 * s + 32 * p) div 2 mod 8 = v"
    "odd ((k + 2 * v + 16 * s + 32 * p) div 16) = (s = 1)" "even (k + 2 * v + 16 * s + 32 * p) = (k = 0)"
proof -
  show "(k + 2 * v + 16 * s + 32 * p) div 32 = p" using assms by simp
  have "(k + 2 * v + 16 * s + 32 * p) div 2 = v + 8 * (s + 2 * p)" using assms by simp
  then have "(k + 2 * v + 16 * s + 32 * p) div 2 mod 8 = v mod 8" by (simp only: mod_mult_self2)
  then show "(k + 2 * v + 16 * s + 32 * p) div 2 mod 8 = v" using assms(2) by simp
  have "(k + 2 * v + 16 * s + 32 * p) div 16 = s + 2 * p" using assms by simp
  then show "odd ((k + 2 * v + 16 * s + 32 * p) div 16) = (s = 1)" using assms by (cases s) simp_all
  show "even (k + 2 * v + 16 * s + 32 * p) = (k = 0)" using assms by (cases k) simp_all
qed

lemma tag_size:
  assumes "t < 2 ^ 24"
  shows "ucast (drop_bit 5 ((of_nat t :: byte) AND 0xe0)) + 8 * ucast (of_nat (t div 256) :: byte) + 2048 * ucast (of_nat (t div 65536) :: byte)
     = (of_nat (t div 32) :: u32)"
proof -
  have m: "drop_bit 5 (b AND 0xe0) = drop_bit 5 b" for b :: byte
  proof (rule bit_word_eqI)
    fix n :: nat
    consider "n = 0" | "n = 1" | "n = 2" | "3 \<le> n" by linarith
    then show "bit (drop_bit 5 (b AND 0xe0)) n = bit (drop_bit 5 b) n"
    proof cases
      case 4
      then have "\<not> bit b (5 + n)" using bit_imp_le_length [of b "5 + n"] by auto
      then show ?thesis by (simp add: bit_simps)
    qed (simp_all add: bit_simps)
  qed
  have u: "ucast b = (of_nat (unat b) :: u32)" for b :: byte by simp
  have "unat (drop_bit 5 (of_nat t :: byte)) = t mod 256 div 32"
    unfolding unat_drop_bit_eq by (simp add: unat_of_nat drop_bit_eq_div)
  then have f1: "ucast (drop_bit 5 (of_nat t :: byte)) = (of_nat (t mod 256 div 32) :: u32)" unfolding u by (rule arg_cong)
  have "unat (of_nat (t div 256) :: byte) = t div 256 mod 256" "unat (of_nat (t div 65536) :: byte) = t div 65536 mod 256"
    by (simp_all add: unat_of_nat)
  then have f2: "ucast (of_nat (t div 256) :: byte) = (of_nat (t div 256 mod 256) :: u32)"
    "ucast (of_nat (t div 65536) :: byte) = (of_nat (t div 65536 mod 256) :: u32)"
    unfolding u by (simp_all only:)
  show ?thesis unfolding m f1 f2
    using arg_cong [OF tag_parts [OF assms], of "of_nat :: nat \<Rightarrow> u32"] by (simp only: of_nat_add of_nat_mult of_nat_numeral)
qed

lemma tag_ver: "drop_bit 1 ((of_nat t :: byte) AND 0x0e) = of_nat (t div 2 mod 8)"
proof -
  have "t div 2 mod 8 = take_bit 3 (drop_bit 1 t)" by (simp add: take_bit_eq_mod drop_bit_eq_div)
  moreover have "drop_bit 1 ((of_nat t :: byte) AND 0x0e) = of_nat (take_bit 3 (drop_bit 1 t))"
    by (rule bit_word_eqI) (auto simp: bit_simps numeral_eq_Suc less_Suc_eq)
  ultimately show ?thesis by simp
qed

lemma tag_show: "((of_nat t :: byte) AND 0x10 \<noteq> 0) = odd (t div 16)"
  using and_exp_eq_0_iff_not_bit [of "of_nat t :: byte" 4] by (simp add: bit_of_nat_iff bit_iff_odd [of t])

lemma tag_key: "((of_nat t :: byte) AND 1) XOR 1 = of_bool (even t)"
  by (simp add: and_one_eq xor_one_eq mod_2_eq_odd)

lemma size_mask: "uint ((of_nat x :: u16) AND 0x3fff) = int (x mod 2 ^ 14)"
proof -
  have m: "x AND 0x3fff = take_bit 14 x" for x :: u16 by (simp add: take_bit_eq_mask mask_eq_exp_minus_1)
  have "uint (take_bit 14 (of_nat x :: u16)) = take_bit 14 (uint (of_nat x :: u16))" by (rule unsigned_take_bit_eq)
  also have "uint (of_nat x :: u16) = take_bit 16 (int x)" by (simp add: unsigned_of_nat of_nat_take_bit)
  finally have "uint (take_bit 14 (of_nat x :: u16)) = take_bit 14 (int x)" by (simp add: take_bit_take_bit)
  also have "\<dots> = int (x mod 2 ^ 14)" by (simp add: take_bit_eq_mod of_nat_mod)
  finally show ?thesis unfolding m .
qed

lemma size_field:
  assumes "w < 2 ^ 14"
  shows "uint ((of_nat (w + 2 ^ 14 * s) :: u16) AND 0x3fff) = int w"
  unfolding size_mask using assms by simp

text \<open>A VP8 frame as RFC 6386 writes it is read back: whether it is a key frame, whether it is shown, its version, the
  size of its first partition, and on a key frame the width and the height without the scale bits.\<close>

theorem vp8_frame_roundtrip:
  assumes "ver < 8" "part < 2 ^ 19" "w < 2 ^ 14" "h < 2 ^ 14"
  shows "\<exists>c. mini_vp8_parse (vp8_frame key ver shown part w hs h vs @ data) = Some (0, c) \<and>
    (vp_is_keyframe c \<noteq> 0 \<longleftrightarrow> key) \<and> (vp_show_frame c \<noteq> 0 \<longleftrightarrow> shown) \<and> vp_ver c = of_nat ver \<and> vp_size c = of_nat part \<and>
    vp_width c = (if key then int w else 0) \<and> vp_height c = (if key then int h else 0)"
proof -
  define t where "t = (if key then 0 else 1) + 2 * ver + 16 * of_bool shown + 32 * part"
  have t: "t < 2 ^ 24" "t div 32 = part" "t div 2 mod 8 = ver" "odd (t div 16) = shown" "even t = key"
    using assms(1,2) tag_fields [of "if key then 0 else 1" ver "of_bool shown" part] by (simp_all add: t_def)
  define b0 b1 b2 where b: "b0 = (of_nat t :: byte)" "b1 = (of_nat (t div 256) :: byte)" "b2 = (of_nat (t div 65536) :: byte)"
  define rest where "rest = (if key then [0x9d, 0x01, 0x2a] @ le16 (of_nat (w + 2 ^ 14 * hs)) @ le16 (of_nat (h + 2 ^ 14 * vs)) else []) @ data"
  have buf: "vp8_frame key ver shown part w hs h vs @ data = b0 # b1 # b2 # rest"
    by (simp add: vp8_frame_def vp8_tag_def tag_bytes b rest_def flip: t_def)
  obtain c0 p0 where d: "parse_descriptor vp8_context_zero (b0 # b1 # b2 # rest) 0 = Some (c0, p0)" "vp_width c0 = 0" "vp_height c0 = 0"
    by (cases "b0 AND 0x80 = 0") (auto simp: parse_descriptor_def c_get_def Let_def vp8_context_zero_def)
  define c1 where "c1 = c0\<lparr>vp_show_frame := b0 AND 0x10, vp_ver := drop_bit 1 (b0 AND 0x0e), vp_is_keyframe := (b0 AND 1) XOR 1,
       vp_size := ucast (drop_bit 5 (b0 AND 0xe0)) + 8 * ucast b1 + 2048 * ucast b2\<rparr>"
  have p: "parse_payload_header c0 (b0 # b1 # b2 # rest) 0 = Some (c1, 3)"
    by (simp add: parse_payload_header_def c_get_def c1_def)
  have c1: "vp_is_keyframe c1 \<noteq> 0 \<longleftrightarrow> key" "vp_show_frame c1 \<noteq> 0 \<longleftrightarrow> shown" "vp_ver c1 = of_nat ver" "vp_size c1 = of_nat part"
    "vp_width c1 = 0" "vp_height c1 = 0"
    using tag_size [OF t(1)] tag_ver [of t] tag_show [of t] tag_key [of t] t d(2,3) by (simp_all add: c1_def b)
  show ?thesis
  proof (cases key)
    case False
    with c1 show ?thesis unfolding buf by (simp add: mini_vp8_parse_def d(1) p)
  next
    case True
    define ws hs' where "ws = le16 (of_nat (w + 2 ^ 14 * hs))" and "hs' = le16 (of_nat (h + 2 ^ 14 * vs))"
    have r: "b0 # b1 # b2 # rest = [b0, b1, b2] @ 0x9d # [0x01, 0x2a] @ ws @ hs' @ data"
      "b0 # b1 # b2 # rest = [b0, b1, b2, 0x9d, 0x01, 0x2a] @ ws @ (hs' @ data)"
      "b0 # b1 # b2 # rest = ([b0, b1, b2, 0x9d, 0x01, 0x2a] @ ws) @ hs' @ data"
      by (simp_all add: rest_def True ws_def hs'_def)
    have "c_get (b0 # b1 # b2 # rest) 3 = Some 0x9d" unfolding r(1) by (rule c_get_at) simp
    moreover have "c_read (b0 # b1 # b2 # rest) 6 2 = Some ws" unfolding r(2) by (rule c_read_append_at) (simp_all add: ws_def)
    moreover have "c_read (b0 # b1 # b2 # rest) 8 2 = Some hs'" unfolding r(3) by (rule c_read_append_at) (simp_all add: ws_def hs'_def)
    ultimately show ?thesis unfolding buf using c1 True size_field [OF assms(3)] size_field [OF assms(4)]
      by (simp add: mini_vp8_parse_def d(1) p ws_def hs'_def)
  qed
qed

lemma vp8_frame_roundtrip_witness:
  "\<exists>c. mini_vp8_parse (vp8_frame True 0 True 3000 1280 0 720 0 @ [1, 2, 3]) = Some (0, c) \<and> vp_width c = 1280 \<and> vp_height c = 720"
  using vp8_frame_roundtrip [where ver = 0 and part = 3000 and w = 1280 and h = 720 and key = True and shown = True and hs = 0 and vs = 0
      and data = "[1, 2, 3]"] by auto

end
