(* ===== verification/SdlMsg.thy ===== *)
theory SdlMsg
  imports CtrlMsg GaConf GaCommon Complex_Main
begin

unbundle bit_operations_syntax

text \<open>
  The input messages of \<open>module/ctrl-sdl/ctrl-sdl.cpp\<close> and their replay on an X11 server, with the resolutions that
  \<open>core/controller.cpp\<close> keeps for the scaling of mouse coordinates. A message is the bytes of its packed
  structure in a buffer; the client fills one in network order and the server converts it in place. The X server, the
  values of the X key symbols and the map from key symbols to key codes are parameters. Scale factors are exact; \<open>None\<close> stands
  for one that is infinite or not a number.
\<close>

section \<open>Messages\<close>

definition SDL_EVENT_MSGTYPE_KEYBOARD :: byte where "SDL_EVENT_MSGTYPE_KEYBOARD = 1"
definition SDL_EVENT_MSGTYPE_MOUSEKEY :: byte where "SDL_EVENT_MSGTYPE_MOUSEKEY = 2"
definition SDL_EVENT_MSGTYPE_MOUSEMOTION :: byte where "SDL_EVENT_MSGTYPE_MOUSEMOTION = 3"
definition SDL_EVENT_MSGTYPE_MOUSEWHEEL :: byte where "SDL_EVENT_MSGTYPE_MOUSEWHEEL = 4"

definition sizeof_sdlmsg :: nat where "sizeof_sdlmsg = 64"
definition sizeof_sdlmsg_keyboard :: nat where "sizeof_sdlmsg_keyboard = 18"
definition sizeof_sdlmsg_mouse :: nat where "sizeof_sdlmsg_mouse = 16"

text \<open>The fields of the keyboard and the mouse message that are read, at their offsets.\<close>

record sdlmsg_keyboard_t =
  k_is_pressed :: byte
  k_scancode :: u16
  k_sdlkey :: u32
  k_unicode :: u32
  k_sdlmod :: u16

record sdlmsg_mouse_t =
  m_is_pressed :: byte
  m_mousebutton :: byte
  m_mousestate :: byte
  m_relativeMouseMode :: byte
  m_mousex :: u16
  m_mousey :: u16
  m_mouseRelX :: u16
  m_mouseRelY :: u16

definition msg_keyboard :: "byte list \<Rightarrow> sdlmsg_keyboard_t option" where
  "msg_keyboard msg = do {
     p \<leftarrow> c_get msg 4; sc \<leftarrow> rd16 msg 6; key \<leftarrow> rd32 msg 8; uni \<leftarrow> rd32 msg 12; md \<leftarrow> rd16 msg 16;
     Some \<lparr>k_is_pressed = p, k_scancode = sc, k_sdlkey = key, k_unicode = uni, k_sdlmod = md\<rparr> }"

definition msg_mouse :: "byte list \<Rightarrow> sdlmsg_mouse_t option" where
  "msg_mouse msg = do {
     p \<leftarrow> c_get msg 4; b \<leftarrow> c_get msg 5; st \<leftarrow> c_get msg 6; rm \<leftarrow> c_get msg 7;
     x \<leftarrow> rd16 msg 8; y \<leftarrow> rd16 msg 10; rx \<leftarrow> rd16 msg 12; ry \<leftarrow> rd16 msg 14;
     Some \<lparr>m_is_pressed = p, m_mousebutton = b, m_mousestate = st, m_relativeMouseMode = rm, m_mousex = x, m_mousey = y, m_mouseRelX = rx, m_mouseRelY = ry\<rparr> }"

text \<open>The conversion of a field that is not zero.\<close>

definition ntohs_field :: "int \<Rightarrow> byte list \<Rightarrow> byte list option" where
  "ntohs_field off msg = do { w \<leftarrow> rd16 msg off; if w \<noteq> 0 then wr16 msg off (ntohs w) else Some msg }"

definition ntohl_field :: "int \<Rightarrow> byte list \<Rightarrow> byte list option" where
  "ntohl_field off msg = do { w \<leftarrow> rd32 msg off; if w \<noteq> 0 then wr32 msg off (ntohl w) else Some msg }"

definition sdlmsg_ntoh :: "byte list option \<Rightarrow> byte list option option" where
  "sdlmsg_ntoh msg = (case msg of
     None \<Rightarrow> Some None
   | Some msg \<Rightarrow> do {
       t \<leftarrow> c_get msg 2;
       msg \<leftarrow> (if t = SDL_EVENT_MSGTYPE_KEYBOARD then do {
                  msg \<leftarrow> ntohs_field 6 msg; msg \<leftarrow> ntohl_field 8 msg; msg \<leftarrow> ntohl_field 12 msg; ntohs_field 16 msg }
                else if t = SDL_EVENT_MSGTYPE_MOUSEKEY \<or> t = SDL_EVENT_MSGTYPE_MOUSEMOTION \<or> t = SDL_EVENT_MSGTYPE_MOUSEWHEEL then do {
                  msg \<leftarrow> ntohs_field 8 msg; msg \<leftarrow> ntohs_field 10 msg; msg \<leftarrow> ntohs_field 12 msg; ntohs_field 14 msg }
                else Some msg);
       Some (Some msg) })"

definition sdlmsg_keyboard :: "byte list \<Rightarrow> byte \<Rightarrow> u16 \<Rightarrow> u32 \<Rightarrow> u16 \<Rightarrow> u32 \<Rightarrow> byte list option" where
  "sdlmsg_keyboard msg pressed scancode key md unicode = do {
     msg \<leftarrow> c_write msg 0 (replicate sizeof_sdlmsg_keyboard 0);
     msg \<leftarrow> wr16 msg 0 (htons (of_nat sizeof_sdlmsg_keyboard));
     msg \<leftarrow> c_write msg 2 [SDL_EVENT_MSGTYPE_KEYBOARD];
     msg \<leftarrow> c_write msg 4 [pressed];
     msg \<leftarrow> wr16 msg 6 (htons scancode);
     msg \<leftarrow> wr32 msg 8 (htonl key);
     msg \<leftarrow> wr32 msg 12 (htonl unicode);
     wr16 msg 16 (htons md) }"

definition sdlmsg_mousekey :: "byte list \<Rightarrow> byte \<Rightarrow> byte \<Rightarrow> u16 \<Rightarrow> u16 \<Rightarrow> byte list option" where
  "sdlmsg_mousekey msg pressed button x y = do {
     msg \<leftarrow> c_write msg 0 (replicate sizeof_sdlmsg_mouse 0);
     msg \<leftarrow> wr16 msg 0 (htons (of_nat sizeof_sdlmsg_mouse));
     msg \<leftarrow> c_write msg 2 [SDL_EVENT_MSGTYPE_MOUSEKEY];
     msg \<leftarrow> c_write msg 4 [pressed];
     msg \<leftarrow> wr16 msg 8 (htons x);
     msg \<leftarrow> wr16 msg 10 (htons y);
     c_write msg 5 [button] }"

definition sdlmsg_mousewheel :: "byte list \<Rightarrow> u16 \<Rightarrow> u16 \<Rightarrow> byte list option" where
  "sdlmsg_mousewheel msg mousex mousey = do {
     msg \<leftarrow> c_write msg 0 (replicate sizeof_sdlmsg_mouse 0);
     msg \<leftarrow> wr16 msg 0 (htons (of_nat sizeof_sdlmsg_mouse));
     msg \<leftarrow> c_write msg 2 [SDL_EVENT_MSGTYPE_MOUSEWHEEL];
     msg \<leftarrow> wr16 msg 8 (htons mousex);
     wr16 msg 10 (htons mousey) }"

definition sdlmsg_mousemotion :: "byte list \<Rightarrow> u16 \<Rightarrow> u16 \<Rightarrow> u16 \<Rightarrow> u16 \<Rightarrow> byte \<Rightarrow> int \<Rightarrow> byte list option" where
  "sdlmsg_mousemotion msg mousex mousey relx rely state relativeMouseMode = do {
     msg \<leftarrow> c_write msg 0 (replicate sizeof_sdlmsg_mouse 0);
     msg \<leftarrow> wr16 msg 0 (htons (of_nat sizeof_sdlmsg_mouse));
     msg \<leftarrow> c_write msg 2 [SDL_EVENT_MSGTYPE_MOUSEMOTION];
     msg \<leftarrow> c_write msg 6 [state];
     msg \<leftarrow> c_write msg 7 [if relativeMouseMode \<noteq> 0 then 1 else 0];
     msg \<leftarrow> wr16 msg 8 (htons mousex);
     msg \<leftarrow> wr16 msg 10 (htons mousey);
     msg \<leftarrow> wr16 msg 12 (htons relx);
     wr16 msg 14 (htons rely) }"

section \<open>The resolutions of the controller\<close>

record ctrl_resolutions =
  curr_width :: int
  curr_height :: int
  output_width :: int
  output_height :: int

definition ctrl_resolutions_init :: ctrl_resolutions where
  "ctrl_resolutions_init = \<lparr>curr_width = -1, curr_height = -1, output_width = -1, output_height = -1\<rparr>"

definition ctrl_server_set_output_resolution :: "int \<Rightarrow> int \<Rightarrow> ctrl_resolutions \<Rightarrow> ctrl_resolutions" where
  "ctrl_server_set_output_resolution w h r = r\<lparr>output_width := w, output_height := h\<rparr>"

definition ctrl_server_set_resolution :: "int \<Rightarrow> int \<Rightarrow> ctrl_resolutions \<Rightarrow> ctrl_resolutions" where
  "ctrl_server_set_resolution w h r = r\<lparr>curr_width := w, curr_height := h\<rparr>"

definition ctrl_server_get_resolution :: "ctrl_resolutions \<Rightarrow> int \<times> int" where
  "ctrl_server_get_resolution r = (curr_width r, curr_height r)"

text \<open>A quotient by zero is minus infinity, infinity or not a number; only the first is replaced by 1.\<close>

definition scale_ratio :: "int \<Rightarrow> int \<Rightarrow> real option" where
  "scale_ratio c out = (if out = 0 then (if c < 0 then Some 1 else None)
     else let r = real_of_int c / real_of_int out in Some (if r \<le> 0 then 1 else r))"

definition ctrl_server_get_scalefactor :: "ctrl_resolutions \<Rightarrow> real option \<times> real option" where
  "ctrl_server_get_scalefactor r = (scale_ratio (curr_width r) (output_width r), scale_ratio (curr_height r) (output_height r))"

section \<open>The state of the replayer\<close>

record sdl_replay =
  scaleFactorX :: "real option"
  scaleFactorY :: "real option"
  outputW :: int
  outputH :: int
  cxsize :: int
  cysize :: int
  keyblock_initialized :: bool
  kbScancode :: "(u16, u16) smap"
  kbSdlkey :: "(int, int) smap"
  x_display :: bool
  screenNumber :: int
  keymap_initialized :: bool
  keymap :: "(int, nat) smap"
  prect :: "gaRect option"
  replay_set :: bool
  sr_resolutions :: ctrl_resolutions

section \<open>Blocked keys\<close>

text \<open>The numbers of a parameter map whose values are true, cut to 16 bits; zero is left out.\<close>

partial_function (option) kb_load :: "string \<Rightarrow> string option \<Rightarrow> ga_conf \<Rightarrow> u16 list \<Rightarrow> (u16 list \<times> ga_conf) option" where
  "kb_load mapname key st acc =
     (case key of
        None \<Rightarrow> Some (acc, st)
      | Some k \<Rightarrow> do {
          acc \<leftarrow> (let sc = word_of_int (fst (strtol 0 k)) :: u16
                 in if sc = 0 then Some acc
                    else do {
                      val \<leftarrow> ga_conf_mapvalue st mapname 64;
                      (case val of None \<Rightarrow> Some acc | Some v \<Rightarrow> Some (if ga_conf_boolval v 0 \<noteq> 0 then acc @ [sc] else acc)) });
          (key, st) \<leftarrow> ga_conf_mapnextkey st mapname 64;
          kb_load mapname key st acc })"

definition kb_load_map :: "string \<Rightarrow> ga_conf \<Rightarrow> (u16 list \<times> ga_conf) option" where
  "kb_load_map mapname st =
     (if ga_conf_mapsize st mapname > 0 then do {
        key \<leftarrow> ga_conf_mapkey (ga_conf_mapreset st mapname) mapname 64;
        kb_load mapname key (ga_conf_mapreset st mapname) [] }
      else Some ([], st))"

definition sdlmsg_kb_init :: "ga_conf \<Rightarrow> sdl_replay \<Rightarrow> (sdl_replay \<times> ga_conf) option" where
  "sdlmsg_kb_init conf s = do {
     (scs, conf) \<leftarrow> kb_load_map ''key-block-scancode'' conf;
     (kcs, conf) \<leftarrow> kb_load_map ''key-block-keycode'' conf;
     Some (s\<lparr>kbScancode := foldl (\<lambda>m sc. smap_put m sc 1) [] scs, kbSdlkey := foldl (\<lambda>m kc. smap_put m (uint kc) 1) [] kcs\<rparr>, conf) }"

definition sdlmsg_kb_add_scancode :: "u16 \<Rightarrow> bool \<Rightarrow> sdl_replay \<Rightarrow> sdl_replay" where
  "sdlmsg_kb_add_scancode v remove s = s\<lparr>kbScancode := (if remove then smap_erase (kbScancode s) v else smap_put (kbScancode s) v v)\<rparr>"

definition sdlmsg_kb_add_sdlkey :: "int \<Rightarrow> bool \<Rightarrow> sdl_replay \<Rightarrow> sdl_replay" where
  "sdlmsg_kb_add_sdlkey v remove s = s\<lparr>kbSdlkey := (if remove then smap_erase (kbSdlkey s) v else smap_put (kbSdlkey s) v v)\<rparr>"

definition sdlmsg_kb_match_scancode :: "sdl_replay \<Rightarrow> u16 \<Rightarrow> bool" where
  "sdlmsg_kb_match_scancode s v = (smap_find (kbScancode s) v \<noteq> None)"

definition sdlmsg_kb_match_sdlkey :: "sdl_replay \<Rightarrow> int \<Rightarrow> bool" where
  "sdlmsg_kb_match_sdlkey s v = (smap_find (kbSdlkey s) v \<noteq> None)"

definition sdlmsg_key_blocked :: "sdl_replay \<Rightarrow> byte list \<Rightarrow> bool option" where
  "sdlmsg_key_blocked s msg = do {
     t \<leftarrow> c_get msg 2;
     if t \<noteq> SDL_EVENT_MSGTYPE_KEYBOARD then Some False
     else do {
       sc \<leftarrow> rd16 msg 6;
       if sdlmsg_kb_match_scancode s sc then Some True
       else do { key \<leftarrow> rd32 msg 8; Some (sdlmsg_kb_match_sdlkey s (sint key)) } } }"

section \<open>Key codes\<close>

text \<open>The map from SDL to X11, by the names of the X key symbols; the printable characters from the space to z stand for themselves.\<close>

definition keymap_before :: "(int \<times> string) list" where
  "keymap_before = [(8, ''BackSpace''), (9, ''Tab''), (0x4000009c, ''Clear''), (13, ''Return''), (0x40000048, ''Pause''), (27, ''Escape'')]"

definition keymap_after :: "(int \<times> string) list" where
  "keymap_after = [(127, ''Delete''),
     (0x40000062, ''KP_0''), (0x40000059, ''KP_1''), (0x4000005a, ''KP_2''), (0x4000005b, ''KP_3''), (0x4000005c, ''KP_4''),
     (0x4000005d, ''KP_5''), (0x4000005e, ''KP_6''), (0x4000005f, ''KP_7''), (0x40000060, ''KP_8''), (0x40000061, ''KP_9''),
     (0x40000063, ''KP_Delete''), (0x40000054, ''KP_Divide''), (0x40000055, ''KP_Multiply''), (0x40000056, ''KP_Subtract''),
     (0x40000057, ''KP_Add''), (0x40000058, ''KP_Enter''), (0x40000067, ''KP_Equal''),
     (0x40000052, ''Up''), (0x40000051, ''Down''), (0x4000004f, ''Right''), (0x40000050, ''Left''), (0x40000049, ''Insert''), (0x4000004a, ''Home''),
     (0x4000004d, ''End''), (0x4000004b, ''Page_Up''), (0x4000004e, ''Page_Down''),
     (0x4000003a, ''F1''), (0x4000003b, ''F2''), (0x4000003c, ''F3''), (0x4000003d, ''F4''), (0x4000003e, ''F5''), (0x4000003f, ''F6''),
     (0x40000040, ''F7''), (0x40000041, ''F8''), (0x40000042, ''F9''), (0x40000043, ''F10''), (0x40000044, ''F11''), (0x40000045, ''F12''),
     (0x40000068, ''F13''), (0x40000069, ''F14''), (0x4000006a, ''F15''),
     (0x40000053, ''Num_Lock''), (0x40000039, ''Caps_Lock''), (0x40000047, ''Scroll_Lock''),
     (0x400000e5, ''Shift_R''), (0x400000e1, ''Shift_L''), (0x400000e4, ''Control_R''), (0x400000e0, ''Control_L''),
     (0x400000e6, ''Alt_R''), (0x400000e2, ''Alt_L''), (0x400000e7, ''Meta_R''), (0x400000e3, ''Meta_L''),
     (0x40000075, ''Help''), (0x4000009a, ''Sys_Req''), (0x40000046, ''Break''), (0x40000076, ''Menu''), (0x4000007a, ''Undo'')]"

definition keymap_entries :: "(string \<Rightarrow> nat) \<Rightarrow> (int \<times> nat) list" where
  "keymap_entries xk = map (apsnd xk) keymap_before @ map (\<lambda>i. (int i, i)) [0x20..<0x7b] @ map (apsnd xk) keymap_after"

definition SDLKeyToKeySym_init :: "(string \<Rightarrow> nat) \<Rightarrow> sdl_replay \<Rightarrow> sdl_replay" where
  "SDLKeyToKeySym_init xk s = s\<lparr>keymap := foldl (\<lambda>m (k, v). smap_put m k v) (keymap s) (keymap_entries xk), keymap_initialized := True\<rparr>"

definition INVALID_KEY :: nat where "INVALID_KEY = 0"

definition SDLKeyToKeySym :: "(string \<Rightarrow> nat) \<Rightarrow> int \<Rightarrow> sdl_replay \<Rightarrow> nat \<times> sdl_replay" where
  "SDLKeyToKeySym xk sdlkey s =
     (let s = (if keymap_initialized s then s else SDLKeyToKeySym_init xk s)
      in (case smap_find (keymap s) sdlkey of Some ks \<Rightarrow> ks | None \<Rightarrow> INVALID_KEY, s))"

section \<open>Replaying\<close>

text \<open>What the replayer asks of the X server.\<close>

datatype x_event = Grab_Control bool | Fake_Key nat bool | Fake_Button nat bool | Fake_Motion int int int | X_Sync

text \<open>The conversion of a coordinate to \<open>int\<close>, undefined for a factor that is not finite and out of range.\<close>

definition c_trunc :: "real \<Rightarrow> int" where
  "c_trunc r = (if r < 0 then \<lceil>r\<rceil> else \<lfloor>r\<rfloor>)"

definition scaled :: "real option \<Rightarrow> int \<Rightarrow> u16 \<Rightarrow> int option" where
  "scaled f base v = do { f \<leftarrow> f; c_int (c_trunc (real_of_int base + f * real_of_int (uint v))) }"

definition sdlmsg_replay_native :: "(string \<Rightarrow> nat) \<Rightarrow> (nat \<Rightarrow> nat) \<Rightarrow> byte list \<Rightarrow> sdl_replay \<Rightarrow> (x_event list \<times> sdl_replay) option" where
  "sdlmsg_replay_native xk keycode msg s = do {
     t \<leftarrow> c_get msg 2;
     (if t = SDL_EVENT_MSGTYPE_KEYBOARD then do {
        k \<leftarrow> msg_keyboard msg;
        (let (ksym, s) = SDLKeyToKeySym xk (sint (k_sdlkey k)) s
         in Some (if ksym \<noteq> INVALID_KEY \<and> keycode ksym > 0
              then [Grab_Control True, Fake_Key (keycode ksym) (k_is_pressed k \<noteq> 0), X_Sync, Grab_Control False] else [], s)) }
      else if t = SDL_EVENT_MSGTYPE_MOUSEKEY then do {
        m \<leftarrow> msg_mouse msg;
        Some ([Grab_Control True, Fake_Button (unat (m_mousebutton m)) (m_is_pressed m \<noteq> 0), X_Sync, Grab_Control False], s) }
      else if t = SDL_EVENT_MSGTYPE_MOUSEWHEEL then do {
        m \<leftarrow> msg_mouse msg;
        Some (if m_mousex m \<noteq> 0 then
            [Grab_Control True] @
            (if sint (m_mousex m) > 0 then [Fake_Button 4 True, X_Sync, Fake_Button 4 False]
             else if sint (m_mousex m) < 0 then [Fake_Button 5 True, X_Sync, Fake_Button 5 False] else []) @
            [X_Sync, Grab_Control False]
          else [], s) }
      else if t = SDL_EVENT_MSGTYPE_MOUSEMOTION then do {
        m \<leftarrow> msg_mouse msg;
        x \<leftarrow> scaled (scaleFactorX s) (case prect s of None \<Rightarrow> 0 | Some r \<Rightarrow> rect_left r) (m_mousex m);
        y \<leftarrow> scaled (scaleFactorY s) (case prect s of None \<Rightarrow> 0 | Some r \<Rightarrow> rect_top r) (m_mousey m);
        Some ([Grab_Control True, Fake_Motion (screenNumber s) x y, X_Sync, Grab_Control False], s) }
      else Some ([], s)) }"

definition sdlmsg_replay :: "(string \<Rightarrow> nat) \<Rightarrow> (nat \<Rightarrow> nat) \<Rightarrow> byte list \<Rightarrow> sdl_replay \<Rightarrow> (int \<times> x_event list \<times> sdl_replay) option" where
  "sdlmsg_replay xk keycode msg s = do {
     m \<leftarrow> sdlmsg_ntoh (Some msg);
     msg \<leftarrow> m;
     blocked \<leftarrow> sdlmsg_key_blocked s msg;
     (if blocked then Some (0, [], s)
      else do { (es, s) \<leftarrow> sdlmsg_replay_native xk keycode msg s; Some (0, es, s) }) }"

text \<open>A wrong length is only logged.\<close>

definition sdlmsg_replay_callback :: "(string \<Rightarrow> nat) \<Rightarrow> (nat \<Rightarrow> nat) \<Rightarrow> byte list \<Rightarrow> nat \<Rightarrow> sdl_replay \<Rightarrow> (x_event list \<times> sdl_replay) option" where
  "sdlmsg_replay_callback xk keycode msg msglen s = do {
     sz \<leftarrow> rd16 msg 0;
     (r, es, s) \<leftarrow> sdlmsg_replay xk keycode msg s;
     Some (es, s) }"

section \<open>Start and end\<close>

record x_server =
  xs_open :: bool
  xs_screen :: int
  xs_width :: int
  xs_height :: int
  xs_xtest :: bool

definition rect_zero :: gaRect where
  "rect_zero = \<lparr>rect_left = 0, rect_top = 0, rect_right = 0, rect_bottom = 0, rect_width = 0, rect_height = 0, rect_linesize = 0, rect_size = 0\<rparr>"

definition set_resolutions :: "(ctrl_resolutions \<Rightarrow> ctrl_resolutions) \<Rightarrow> sdl_replay \<Rightarrow> sdl_replay" where
  "set_resolutions f s = s\<lparr>sr_resolutions := f (sr_resolutions s)\<rparr>"

text \<open>The scale factor, when an output resolution is configured.\<close>

definition replay_scale :: "ga_conf \<Rightarrow> sdl_replay \<Rightarrow> sdl_replay option" where
  "replay_scale conf s = do {
     (n, res) \<leftarrow> ga_conf_readints conf ''output-resolution'' [0, 0] 2;
     (if n \<noteq> 2 then Some s
      else let s = set_resolutions (ctrl_server_set_output_resolution (res ! 0) (res ! 1)) (s\<lparr>outputW := res ! 0, outputH := res ! 1\<rparr>);
               (baseX, baseY) = (case prect s of None \<Rightarrow> (cxsize s, cysize s) | Some r \<Rightarrow> (rect_right r - rect_left r + 1, rect_bottom r - rect_top r + 1));
               s = set_resolutions (ctrl_server_set_resolution baseX baseY) s;
               (fx, fy) = ctrl_server_get_scalefactor (sr_resolutions s)
           in Some (s\<lparr>scaleFactorX := fx, scaleFactorY := fy\<rparr>)) }"

definition sdlmsg_replay_init :: "(string \<Rightarrow> nat) \<Rightarrow> x_server \<Rightarrow> gaRect option \<Rightarrow> ga_conf \<Rightarrow> sdl_replay \<Rightarrow> (int \<times> sdl_replay \<times> ga_conf) option" where
  "sdlmsg_replay_init xk xs rect conf s = do {
     (s, conf) \<leftarrow> (if keyblock_initialized s then Some (s, conf)
                  else do { (s, conf) \<leftarrow> sdlmsg_kb_init conf s; Some (s\<lparr>keyblock_initialized := True\<rparr>, conf) });
     (let s = (if keymap_initialized s then s else SDLKeyToKeySym_init xk s);
          (ok, p) = (case rect of None \<Rightarrow> (True, None)
                     | Some r \<Rightarrow> ga_fillrect (Some rect_zero) (rect_left r) (rect_top r) (rect_right r) (rect_bottom r))
      in if \<not> ok then Some (-1, s, conf)
         else if \<not> xs_open xs then Some (-1, s\<lparr>prect := p, x_display := False\<rparr>, conf)
         else let s = s\<lparr>prect := p, x_display := True, screenNumber := xs_screen xs, cxsize := xs_width xs, cysize := xs_height xs\<rparr>;
                  s = set_resolutions (ctrl_server_set_output_resolution (cxsize s) (cysize s) \<circ> ctrl_server_set_resolution (cxsize s) (cysize s)) s
              in if \<not> xs_xtest xs then Some (-1, s, conf)
                 else do { s \<leftarrow> replay_scale conf s; Some (0, s\<lparr>replay_set := True\<rparr>, conf) }) }"

definition sdlmsg_replay_deinit :: "sdl_replay \<Rightarrow> int \<times> sdl_replay" where
  "sdlmsg_replay_deinit s = (0, s\<lparr>x_display := False\<rparr>)"

text \<open>The state of the file before the first call.\<close>

definition sdl_replay_zero :: sdl_replay where
  "sdl_replay_zero = \<lparr>scaleFactorX = Some 1, scaleFactorY = Some 1, outputW = 0, outputH = 0, cxsize = 0, cysize = 0, keyblock_initialized = False,
     kbScancode = [], kbSdlkey = [], x_display = False, screenNumber = 0, keymap_initialized = False, keymap = [], prect = None, replay_set = False,
     sr_resolutions = ctrl_resolutions_init\<rparr>"

section \<open>Properties\<close>

subsection \<open>Messages arrive\<close>

lemma split_bytes:
  assumes "n \<le> length msg"
  obtains xs post where "msg = xs @ post" "length xs = n"
  using assms by (metis append_take_drop_id length_take min.absorb2)

lemma c_write_front: "length ys = length xs \<Longrightarrow> c_write (xs @ post) 0 ys = Some (ys @ post)"
  by (simp add: c_write_def)

lemmas sdl_bytes = rd16_def wr16_def rd32_def wr32_def c_read_def c_write_def c_get_def le16_def le32_def

lemma ntohs_field_at:
  assumes "off = int (length pre)"
  shows "ntohs_field off (pre @ le16 (htons w) @ post) = Some (pre @ le16 w @ post)"
proof -
  have r: "rd16 (pre @ le16 (htons w) @ post) off = Some (htons w)"
    using c_read_append_at [OF assms, of 2 "le16 (htons w)" post] by (simp add: rd16_def)
  then show ?thesis using assms by (cases "w = 0") (simp_all add: ntohs_field_def wr16_def c_write_def)
qed

lemma ntohl_field_at:
  assumes "off = int (length pre)"
  shows "ntohl_field off (pre @ le32 (htonl w) @ post) = Some (pre @ le32 w @ post)"
proof -
  have r: "rd32 (pre @ le32 (htonl w) @ post) off = Some (htonl w)"
    using c_read_append_at [OF assms, of 4 "le32 (htonl w)" post] by (simp add: rd32_def)
  then show ?thesis using assms by (cases "w = 0") (simp_all add: ntohl_field_def wr32_def c_write_def)
qed

text \<open>The bytes of the messages of the client.\<close>

lemma sdlmsg_keyboard_bytes:
  assumes "18 \<le> length msg"
  shows "sdlmsg_keyboard msg p sc key md uni =
    Some (le16 (htons 18) @ [1, 0, p, 0] @ le16 (htons sc) @ le32 (htonl key) @ le32 (htonl uni) @ le16 (htons md) @ drop 18 msg)"
proof -
  obtain xs post where m: "msg = xs @ post" "length xs = 18" using split_bytes [OF assms] .
  have z: "c_write msg 0 (replicate 18 0) = Some ([0, 0, 0, 0, 0, 0, 0, 0, 0, 0, 0, 0, 0, 0, 0, 0, 0, 0] @ post)"
    unfolding m(1) by (subst c_write_front) (simp_all add: m(2) numeral_eq_Suc)
  show ?thesis unfolding sdlmsg_keyboard_def sizeof_sdlmsg_keyboard_def z
    by (simp add: sdl_bytes m SDL_EVENT_MSGTYPE_KEYBOARD_def)
qed

definition keyboard_bytes :: "byte \<Rightarrow> u16 \<Rightarrow> u32 \<Rightarrow> u32 \<Rightarrow> u16 \<Rightarrow> byte list" where
  "keyboard_bytes p sc key uni md = le16 (htons 18) @ [1, 0, p, 0] @ le16 sc @ le32 key @ le32 uni @ le16 md"

definition mouse_bytes :: "byte \<Rightarrow> byte list \<Rightarrow> u16 \<Rightarrow> u16 \<Rightarrow> u16 \<Rightarrow> u16 \<Rightarrow> byte list" where
  "mouse_bytes t bs x y rx ry = le16 (htons 16) @ [t, 0] @ bs @ le16 x @ le16 y @ le16 rx @ le16 ry"

lemma sdlmsg_mouse_bytes:
  assumes "16 \<le> length msg"
  shows "sdlmsg_mousekey msg p b x y = Some (mouse_bytes 2 [p, b, 0, 0] (htons x) (htons y) (htons 0) (htons 0) @ drop 16 msg)"
    and "sdlmsg_mousewheel msg x y = Some (mouse_bytes 4 [0, 0, 0, 0] (htons x) (htons y) (htons 0) (htons 0) @ drop 16 msg)"
    and "sdlmsg_mousemotion msg x y rx ry st rm =
      Some (mouse_bytes 3 [0, 0, st, if rm \<noteq> 0 then 1 else 0] (htons x) (htons y) (htons rx) (htons ry) @ drop 16 msg)"
proof -
  obtain xs post where m: "msg = xs @ post" "length xs = 16" using split_bytes [OF assms] .
  have z: "c_write msg 0 (replicate 16 0) = Some ([0, 0, 0, 0, 0, 0, 0, 0, 0, 0, 0, 0, 0, 0, 0, 0] @ post)"
    unfolding m(1) by (subst c_write_front) (simp_all add: m(2) numeral_eq_Suc)
  have 0: "le16 0 = [0, 0]" by (simp add: le16_def)
  show "sdlmsg_mousekey msg p b x y = Some (mouse_bytes 2 [p, b, 0, 0] (htons x) (htons y) (htons 0) (htons 0) @ drop 16 msg)"
    unfolding sdlmsg_mousekey_def sizeof_sdlmsg_mouse_def z by (simp add: sdl_bytes m SDL_EVENT_MSGTYPE_MOUSEKEY_def mouse_bytes_def)
  show "sdlmsg_mousewheel msg x y = Some (mouse_bytes 4 [0, 0, 0, 0] (htons x) (htons y) (htons 0) (htons 0) @ drop 16 msg)"
    unfolding sdlmsg_mousewheel_def sizeof_sdlmsg_mouse_def z by (simp add: sdl_bytes m SDL_EVENT_MSGTYPE_MOUSEWHEEL_def mouse_bytes_def)
  show "sdlmsg_mousemotion msg x y rx ry st rm =
      Some (mouse_bytes 3 [0, 0, st, if rm \<noteq> 0 then 1 else 0] (htons x) (htons y) (htons rx) (htons ry) @ drop 16 msg)"
    unfolding sdlmsg_mousemotion_def sizeof_sdlmsg_mouse_def z by (simp add: sdl_bytes m SDL_EVENT_MSGTYPE_MOUSEMOTION_def mouse_bytes_def)
qed

text \<open>The conversion, and what is read then.\<close>

lemma sdlmsg_ntoh_keyboard:
  "sdlmsg_ntoh (Some (keyboard_bytes p (htons sc) (htonl key) (htonl uni) (htons md) @ post)) = Some (Some (keyboard_bytes p sc key uni md @ post))"
proof -
  define h where "h = le16 (htons 18) @ [1, 0, p, 0]"
  have l: "length h = 6" by (simp add: h_def)
  have s1: "ntohs_field 6 (h @ le16 (htons sc) @ r) = Some (h @ le16 sc @ r)" for r using ntohs_field_at [of 6 h sc r] l by simp
  have s2: "ntohl_field 8 (h @ le16 sc @ le32 (htonl key) @ r) = Some (h @ le16 sc @ le32 key @ r)" for r
    using ntohl_field_at [of 8 "h @ le16 sc" key r] l by simp
  have s3: "ntohl_field 12 (h @ le16 sc @ le32 key @ le32 (htonl uni) @ r) = Some (h @ le16 sc @ le32 key @ le32 uni @ r)" for r
    using ntohl_field_at [of 12 "h @ le16 sc @ le32 key" uni r] l by simp
  have s4: "ntohs_field 16 (h @ le16 sc @ le32 key @ le32 uni @ le16 (htons md) @ r) = Some (h @ le16 sc @ le32 key @ le32 uni @ le16 md @ r)" for r
    using ntohs_field_at [of 16 "h @ le16 sc @ le32 key @ le32 uni" md r] l by simp
  have t: "c_get (h @ r) 2 = Some 1" for r by (simp add: c_get_def h_def nth_append)
  have b: "keyboard_bytes p sc' key' uni' md' @ post = h @ le16 sc' @ le32 key' @ le32 uni' @ le16 md' @ post" for sc' key' uni' md'
    by (simp add: keyboard_bytes_def h_def)
  show ?thesis unfolding b sdlmsg_ntoh_def by (simp add: t s1 s2 s3 s4 SDL_EVENT_MSGTYPE_KEYBOARD_def)
qed

lemma sdlmsg_ntoh_mouse:
  assumes "t = 2 \<or> t = 3 \<or> t = 4" "length bs = 4"
  shows "sdlmsg_ntoh (Some (mouse_bytes t bs (htons x) (htons y) (htons rx) (htons ry) @ post)) = Some (Some (mouse_bytes t bs x y rx ry @ post))"
proof -
  define h where "h = le16 (htons 16) @ [t, 0] @ bs"
  have l: "length h = 8" by (simp add: h_def assms(2))
  have s1: "ntohs_field 8 (h @ le16 (htons x) @ r) = Some (h @ le16 x @ r)" for r using ntohs_field_at [of 8 h x r] l by simp
  have s2: "ntohs_field 10 (h @ le16 x @ le16 (htons y) @ r) = Some (h @ le16 x @ le16 y @ r)" for r
    using ntohs_field_at [of 10 "h @ le16 x" y r] l by simp
  have s3: "ntohs_field 12 (h @ le16 x @ le16 y @ le16 (htons rx) @ r) = Some (h @ le16 x @ le16 y @ le16 rx @ r)" for r
    using ntohs_field_at [of 12 "h @ le16 x @ le16 y" rx r] l by simp
  have s4: "ntohs_field 14 (h @ le16 x @ le16 y @ le16 rx @ le16 (htons ry) @ r) = Some (h @ le16 x @ le16 y @ le16 rx @ le16 ry @ r)" for r
    using ntohs_field_at [of 14 "h @ le16 x @ le16 y @ le16 rx" ry r] l by simp
  have t: "c_get (h @ r) 2 = Some t" for r by (simp add: c_get_def h_def nth_append)
  have b: "mouse_bytes t bs x' y' rx' ry' @ post = h @ le16 x' @ le16 y' @ le16 rx' @ le16 ry' @ post" for x' y' rx' ry'
    by (simp add: mouse_bytes_def h_def)
  show ?thesis unfolding b sdlmsg_ntoh_def using assms(1)
    by (auto simp: t s1 s2 s3 s4 SDL_EVENT_MSGTYPE_KEYBOARD_def SDL_EVENT_MSGTYPE_MOUSEKEY_def SDL_EVENT_MSGTYPE_MOUSEMOTION_def SDL_EVENT_MSGTYPE_MOUSEWHEEL_def)
qed

lemma un16_bytes [simp]: "un16 [ucast w, ucast (drop_bit 8 w)] = w"
  using un16_le16 [of w] by (simp add: le16_def)

lemma un32_bytes [simp]: "un32 [ucast w, ucast (drop_bit 8 w), ucast (drop_bit 16 w), ucast (drop_bit 24 w)] = w"
  using un32_le32 [of w] by (simp add: le32_def)

lemma msg_keyboard_bytes:
  "msg_keyboard (keyboard_bytes p sc key uni md @ post) = Some \<lparr>k_is_pressed = p, k_scancode = sc, k_sdlkey = key, k_unicode = uni, k_sdlmod = md\<rparr>"
  by (simp add: msg_keyboard_def keyboard_bytes_def sdl_bytes del: un16.simps un32.simps)

lemma msg_mouse_bytes:
  "msg_mouse (mouse_bytes t [p, b, st, rm] x y rx ry @ post) = Some \<lparr>m_is_pressed = p, m_mousebutton = b, m_mousestate = st, m_relativeMouseMode = rm,
     m_mousex = x, m_mousey = y, m_mouseRelX = rx, m_mouseRelY = ry\<rparr>"
  by (simp add: msg_mouse_def mouse_bytes_def sdl_bytes del: un16.simps un32.simps)

text \<open>Input arrives as it was sent: for any buffer that holds a message, the client's keyboard, button, wheel and motion messages are
  built inside it with their size in front, and after the conversion the server reads every field that was put
  in, whatever the values, zeros included; the rest of the buffer is left alone.\<close>

theorem sdl_messages_arrive:
  assumes "sizeof_sdlmsg \<le> length msg"
  shows "(\<exists>m h. sdlmsg_keyboard msg p sc key md uni = Some m \<and> drop 18 m = drop 18 msg \<and> rd16 m 0 = Some (htons 18) \<and> sdlmsg_ntoh (Some m) = Some (Some h) \<and>
      msg_keyboard h = Some \<lparr>k_is_pressed = p, k_scancode = sc, k_sdlkey = key, k_unicode = uni, k_sdlmod = md\<rparr>) \<and>
    (\<exists>m h. sdlmsg_mousekey msg p b x y = Some m \<and> drop 16 m = drop 16 msg \<and> rd16 m 0 = Some (htons 16) \<and> sdlmsg_ntoh (Some m) = Some (Some h) \<and>
      msg_mouse h = Some \<lparr>m_is_pressed = p, m_mousebutton = b, m_mousestate = 0, m_relativeMouseMode = 0, m_mousex = x, m_mousey = y, m_mouseRelX = 0, m_mouseRelY = 0\<rparr>) \<and>
    (\<exists>m h. sdlmsg_mousewheel msg x y = Some m \<and> drop 16 m = drop 16 msg \<and> rd16 m 0 = Some (htons 16) \<and> sdlmsg_ntoh (Some m) = Some (Some h) \<and>
      msg_mouse h = Some \<lparr>m_is_pressed = 0, m_mousebutton = 0, m_mousestate = 0, m_relativeMouseMode = 0, m_mousex = x, m_mousey = y, m_mouseRelX = 0, m_mouseRelY = 0\<rparr>) \<and>
    (\<exists>m h. sdlmsg_mousemotion msg x y rx ry st rm = Some m \<and> drop 16 m = drop 16 msg \<and> rd16 m 0 = Some (htons 16) \<and> sdlmsg_ntoh (Some m) = Some (Some h) \<and>
      msg_mouse h = Some \<lparr>m_is_pressed = 0, m_mousebutton = 0, m_mousestate = st, m_relativeMouseMode = (if rm \<noteq> 0 then 1 else 0),
        m_mousex = x, m_mousey = y, m_mouseRelX = rx, m_mouseRelY = ry\<rparr>)"
proof -
  have l: "18 \<le> length msg" "16 \<le> length msg" using assms by (simp_all add: sizeof_sdlmsg_def)
  have k: "sdlmsg_keyboard msg p sc key md uni = Some (keyboard_bytes p (htons sc) (htonl key) (htonl uni) (htons md) @ drop 18 msg)"
    using sdlmsg_keyboard_bytes [OF l(1)] by (simp add: keyboard_bytes_def)
  have d: "drop 18 (keyboard_bytes p a b' c d @ r) = r" "rd16 (keyboard_bytes p a b' c d @ r) 0 = Some (htons 18)" for a b' c d r
    by (simp_all add: keyboard_bytes_def rd16_def c_read_def)
  have dm: "drop 16 (mouse_bytes t [b1, b2, b3, b4] a b' c d @ r) = r" "rd16 (mouse_bytes t [b1, b2, b3, b4] a b' c d @ r) 0 = Some (htons 16)" for t b1 b2 b3 b4 a b' c d r
    by (simp_all add: mouse_bytes_def rd16_def c_read_def)
  have n2: "sdlmsg_ntoh (Some (mouse_bytes 2 [p, b, 0, 0] (htons x) (htons y) (htons 0) (htons 0) @ drop 16 msg)) = Some (Some (mouse_bytes 2 [p, b, 0, 0] x y 0 0 @ drop 16 msg))"
    by (rule sdlmsg_ntoh_mouse) simp_all
  have n3: "sdlmsg_ntoh (Some (mouse_bytes 3 [0, 0, st, if rm \<noteq> 0 then 1 else 0] (htons x) (htons y) (htons rx) (htons ry) @ drop 16 msg)) =
      Some (Some (mouse_bytes 3 [0, 0, st, if rm \<noteq> 0 then 1 else 0] x y rx ry @ drop 16 msg))" by (rule sdlmsg_ntoh_mouse) simp_all
  have n4: "sdlmsg_ntoh (Some (mouse_bytes 4 [0, 0, 0, 0] (htons x) (htons y) (htons 0) (htons 0) @ drop 16 msg)) = Some (Some (mouse_bytes 4 [0, 0, 0, 0] x y 0 0 @ drop 16 msg))"
    by (rule sdlmsg_ntoh_mouse) simp_all
  note mb = sdlmsg_mouse_bytes [OF l(2)]
  show ?thesis
  proof (intro conjI)
    show "\<exists>m h. sdlmsg_keyboard msg p sc key md uni = Some m \<and> drop 18 m = drop 18 msg \<and> rd16 m 0 = Some (htons 18) \<and> sdlmsg_ntoh (Some m) = Some (Some h) \<and>
        msg_keyboard h = Some \<lparr>k_is_pressed = p, k_scancode = sc, k_sdlkey = key, k_unicode = uni, k_sdlmod = md\<rparr>"
      by (intro exI conjI, rule k, rule d(1), rule d(2), rule sdlmsg_ntoh_keyboard, rule msg_keyboard_bytes)
  qed (intro exI conjI, rule mb, rule dm(1), rule dm(2), rule n2 n3 n4, rule msg_mouse_bytes)+
qed

subsection \<open>Blocked keys\<close>

text \<open>The numbers that a parameter map blocks.\<close>

definition kb_numbers :: "(string \<times> string) list \<Rightarrow> u16 list" where
  "kb_numbers d = concat (map (\<lambda>(k, v). let sc = word_of_int (fst (strtol 0 k)) in if sc = 0 \<or> ga_conf_boolval v 0 = 0 then [] else [sc]) d)"

definition kb_conf :: "ga_conf \<Rightarrow> string \<Rightarrow> (string \<times> string) list \<Rightarrow> bool" where
  "kb_conf conf name d = (smap_ok d \<and> (\<forall>(k, v) \<in> set d. k \<noteq> [] \<and> length k < 64 \<and> length v < 64) \<and>
     (case smap_find (ga_vars conf) name of None \<Rightarrow> d = [] | Some v \<Rightarrow> cv_mapdata v = d))"

lemma smap_find_suffix: "smap_ok (pre @ (k, x) # d) \<Longrightarrow> smap_find (pre @ (k, x) # d) k = Some x"
  by (induction pre) (auto simp: smap_ok_def)

lemma kb_load_walk:
  assumes "smap_find (ga_vars st) m = Some v" "cv_mapdata v = pre @ d" "smap_ok (pre @ d)" "cv_mi v = smap_begin d"
    "\<forall>(k, x) \<in> set d. k \<noteq> [] \<and> length k < 64 \<and> length x < 64"
  shows "\<exists>st'. kb_load m (smap_begin d) st acc = Some (acc @ kb_numbers d, st') \<and> (\<forall>n. n \<noteq> m \<longrightarrow> smap_find (ga_vars st') n = smap_find (ga_vars st) n)"
  using assms
proof (induction d arbitrary: st v pre acc)
  case Nil
  then show ?case by (simp add: kb_load.simps smap_begin_def kb_numbers_def)
next
  case (Cons kx d)
  obtain k x where kx: "kx = (k, x)" by fastforce
  have len: "k \<noteq> []" "length k < 64" "length x < 64" using Cons.prems(5) by (auto simp: kx)
  have mi: "cv_mi v = Some k" using Cons.prems(4) by (simp add: kx smap_begin_def)
  have fx: "smap_find (cv_mapdata v) k = Some x"
    unfolding Cons.prems(2) kx using smap_find_suffix Cons.prems(3) kx by fast
  have val: "ga_conf_mapvalue st m 64 = Some (Some x)"
    using Cons.prems(1) mi fx len by (simp add: ga_conf_mapvalue_def gaConfVar_mkey_def gaConfVar_mvalue_def strncpy_str_def)
  define v' where "v' = v\<lparr>cv_mi := smap_begin d\<rparr>"
  have nx: "smap_next (cv_mapdata v) k = smap_begin d" using smap_next_suffix [of pre k x d] Cons.prems(2,3) by (simp add: kx)
  have nk: "ga_conf_mapnextkey st m 64 = Some (smap_begin d, conf_set st m v')"
    using Cons.prems(1,5) mi nx
    by (cases d) (auto simp: ga_conf_mapnextkey_def gaConfVar_mnextkey_def v'_def smap_begin_def strncpy_str_def Let_def)
  define acc' where "acc' = acc @ kb_numbers [kx]"
  have step: "kb_load m (smap_begin (kx # d)) st acc = kb_load m (smap_begin d) (conf_set st m v') acc'"
    by (subst kb_load.simps) (simp add: kx smap_begin_def [of "_ # _"] val nk acc'_def kb_numbers_def Let_def)
  have "\<exists>st'. kb_load m (smap_begin d) (conf_set st m v') acc' = Some (acc' @ kb_numbers d, st') \<and>
      (\<forall>n. n \<noteq> m \<longrightarrow> smap_find (ga_vars st') n = smap_find (ga_vars (conf_set st m v')) n)"
    by (rule Cons.IH [where v = v' and pre = "pre @ [kx]"]) (use Cons.prems in \<open>auto simp: v'_def conf_set_def smap_find_put\<close>)
  moreover have "smap_find (ga_vars (conf_set st m v')) n = smap_find (ga_vars st) n" if "n \<noteq> m" for n using that by (simp add: conf_set_def smap_find_put)
  ultimately show ?case unfolding step by (auto simp: acc'_def kb_numbers_def)
qed

lemma kb_load_map_numbers:
  assumes "kb_conf conf name d"
  shows "\<exists>conf'. kb_load_map name conf = Some (kb_numbers d, conf') \<and> (\<forall>n. n \<noteq> name \<longrightarrow> smap_find (ga_vars conf') n = smap_find (ga_vars conf) n)"
proof (cases "smap_find (ga_vars conf) name")
  case None
  then show ?thesis using assms by (simp add: kb_load_map_def ga_conf_mapsize_def kb_conf_def kb_numbers_def)
next
  case (Some v)
  then have d: "cv_mapdata v = d" "smap_ok d" "\<forall>(k, x) \<in> set d. k \<noteq> [] \<and> length k < 64 \<and> length x < 64" using assms by (simp_all add: kb_conf_def)
  show ?thesis
  proof (cases "d = []")
    case True
    with Some d show ?thesis by (simp add: kb_load_map_def ga_conf_mapsize_def gaConfVar_msize_def kb_numbers_def)
  next
    case False
    define st where "st = conf_set conf name (v\<lparr>cv_mi := smap_begin d\<rparr>)"
    have r: "ga_conf_mapreset conf name = st" using Some d(1) by (simp add: ga_conf_mapreset_def gaConfVar_mreset_def st_def)
    have f: "smap_find (ga_vars st) name = Some (v\<lparr>cv_mi := smap_begin d\<rparr>)" by (simp add: st_def conf_set_def smap_find_put)
    have k: "ga_conf_mapkey st name 64 = Some (smap_begin d)"
      using f False d(3) by (cases d) (auto simp: ga_conf_mapkey_def gaConfVar_mkey_def smap_begin_def strncpy_str_def)
    obtain st' where "kb_load name (smap_begin d) st [] = Some ([] @ kb_numbers d, st')" "\<forall>n. n \<noteq> name \<longrightarrow> smap_find (ga_vars st') n = smap_find (ga_vars st) n"
      using kb_load_walk [OF f, of "[]" d "[]"] d by auto
    moreover have "ga_conf_mapsize conf name > 0" using Some d(1) False by (simp add: ga_conf_mapsize_def gaConfVar_msize_def)
    moreover have "smap_find (ga_vars st) n = smap_find (ga_vars conf) n" if "n \<noteq> name" for n using that by (simp add: st_def conf_set_def smap_find_put)
    ultimately show ?thesis by (simp add: kb_load_map_def r k)
  qed
qed

lemma find_put_list: "(smap_find (foldl (\<lambda>m x. smap_put m (f x) c) m xs) k \<noteq> None) = (smap_find m k \<noteq> None \<or> k \<in> f ` set xs)"
  by (induction xs arbitrary: m) (auto simp: smap_find_put)

lemma sdlmsg_kb_init_blocks:
  assumes "kb_conf conf ''key-block-scancode'' ds" "kb_conf conf ''key-block-keycode'' dk"
  shows "\<exists>s' conf'. sdlmsg_kb_init conf s = Some (s', conf') \<and> (\<forall>sc. sdlmsg_kb_match_scancode s' sc = (sc \<in> set (kb_numbers ds))) \<and>
    (\<forall>k. sdlmsg_kb_match_sdlkey s' k = (k \<in> uint ` set (kb_numbers dk)))"
proof -
  obtain conf1 where 1: "kb_load_map ''key-block-scancode'' conf = Some (kb_numbers ds, conf1)"
    "\<forall>n. n \<noteq> ''key-block-scancode'' \<longrightarrow> smap_find (ga_vars conf1) n = smap_find (ga_vars conf) n" using kb_load_map_numbers [OF assms(1)] by blast
  have "kb_conf conf1 ''key-block-keycode'' dk" using assms(2) 1(2) by (simp add: kb_conf_def)
  then obtain conf2 where 2: "kb_load_map ''key-block-keycode'' conf1 = Some (kb_numbers dk, conf2)" using kb_load_map_numbers by blast
  show ?thesis using find_put_list [of "id :: u16 \<Rightarrow> u16" "1 :: u16" "[]"] find_put_list [of "uint :: u16 \<Rightarrow> int" "1 :: int" "[]"]
    by (simp add: sdlmsg_kb_init_def 1(1) 2 sdlmsg_kb_match_scancode_def sdlmsg_kb_match_sdlkey_def)
qed

lemma key_blocked_keyboard:
  "sdlmsg_key_blocked s (keyboard_bytes p sc key uni md @ post) = Some (sdlmsg_kb_match_scancode s sc \<or> sdlmsg_kb_match_sdlkey s (sint key))"
  by (simp add: sdlmsg_key_blocked_def keyboard_bytes_def sdl_bytes SDL_EVENT_MSGTYPE_KEYBOARD_def del: un16.simps un32.simps)

lemma key_blocked_mouse:
  "t \<noteq> 1 \<Longrightarrow> sdlmsg_key_blocked s (mouse_bytes t bs x y rx ry @ post) = Some False"
  by (simp add: sdlmsg_key_blocked_def mouse_bytes_def c_get_def nth_append SDL_EVENT_MSGTYPE_KEYBOARD_def)

text \<open>What the configuration blocks: after the key blocking is initialised, a keyboard message of the client gives no event exactly when
  its scan code is one of the numbers, cut to 16 bits and not zero, whose value is true in the first map, or its key code
  one of those in the second; every other key goes to the replayer of the window system. So no key code of 65536 and more is ever blocked,
  among them those of all function and arrow keys, and the number given for such a key blocks another one.\<close>

theorem sdl_key_blocking:
  assumes "kb_conf conf ''key-block-scancode'' ds" "kb_conf conf ''key-block-keycode'' dk" "sdlmsg_keyboard msg p sc key md uni = Some m" "sizeof_sdlmsg \<le> length msg"
  shows "\<exists>s' conf' h. sdlmsg_kb_init conf s = Some (s', conf') \<and> sdlmsg_ntoh (Some m) = Some (Some h) \<and>
    sdlmsg_replay xk keycode m s' =
      (if sc \<in> set (kb_numbers ds) \<or> (0 < sint key \<and> sint key < 65536 \<and> word_of_int (sint key) \<in> set (kb_numbers dk)) then Some (0, [], s')
       else map_option (\<lambda>(es, s''). (0, es, s'')) (sdlmsg_replay_native xk keycode h s'))"
proof -
  obtain s' conf' where s': "sdlmsg_kb_init conf s = Some (s', conf')" "\<And>sc. sdlmsg_kb_match_scancode s' sc = (sc \<in> set (kb_numbers ds))"
    "\<And>k. sdlmsg_kb_match_sdlkey s' k = (k \<in> uint ` set (kb_numbers dk))" using sdlmsg_kb_init_blocks [OF assms(1,2)] by blast
  have m: "m = keyboard_bytes p (htons sc) (htonl key) (htonl uni) (htons md) @ drop 18 msg"
    using assms(3) sdlmsg_keyboard_bytes [of msg] assms(4) by (simp add: keyboard_bytes_def sizeof_sdlmsg_def)
  define h where "h = keyboard_bytes p sc key uni md @ drop 18 msg"
  have n: "sdlmsg_ntoh (Some m) = Some (Some h)" unfolding m h_def by (rule sdlmsg_ntoh_keyboard)
  have nz: "0 \<notin> set (kb_numbers dk)" by (auto simp: kb_numbers_def Let_def split: if_splits)
  have k: "(k \<in> uint ` set (kb_numbers dk)) = (0 < k \<and> k < 65536 \<and> word_of_int k \<in> set (kb_numbers dk))" for k
  proof
    assume "k \<in> uint ` set (kb_numbers dk)"
    then obtain w where w: "w \<in> set (kb_numbers dk)" "k = uint w" by blast
    then have "w \<noteq> 0" using nz by auto
    then have "uint w \<noteq> 0" by (simp add: uint_0_iff)
    then have "0 < uint w" using uint_ge_0 [of w] by linarith
    then show "0 < k \<and> k < 65536 \<and> word_of_int k \<in> set (kb_numbers dk)" using w uint_bounded [of w] by simp
  next
    assume a: "0 < k \<and> k < 65536 \<and> word_of_int k \<in> set (kb_numbers dk)"
    then have "k = uint (word_of_int k :: u16)" by (simp add: uint_word_of_int)
    with a show "k \<in> uint ` set (kb_numbers dk)" by blast
  qed
  have b: "sdlmsg_key_blocked s' h = Some (sc \<in> set (kb_numbers ds) \<or> (0 < sint key \<and> sint key < 65536 \<and> word_of_int (sint key) \<in> set (kb_numbers dk)))"
    unfolding h_def key_blocked_keyboard s'(2,3) k ..
  show ?thesis
    using s'(1) n b by (cases "sdlmsg_replay_native xk keycode h s'") (auto simp: sdlmsg_replay_def)
qed

subsection \<open>Keys reach the server\<close>

lemma find_put_pairs:
  "smap_find (foldl (\<lambda>m (k, v). smap_put m k v) m xs) k = (case map_of (rev xs) k of Some v \<Rightarrow> Some v | None \<Rightarrow> smap_find m k)"
  by (induction xs arbitrary: m) (auto simp: smap_find_put map_add_def split: option.splits)

lemma map_of_range: "map_of (rev (map (\<lambda>i. (int i, i)) [a..<b])) (int i) = (if a \<le> i \<and> i < b then Some i else None)"
proof -
  have "map_of (map (\<lambda>i. (int i, i)) xs) (int i) = (if i \<in> set xs then Some i else None)" for xs by (induction xs) auto
  from this [of "rev [a..<b]"] show ?thesis by (simp add: rev_map)
qed

lemma map_of_middle:
  "a \<le> i \<Longrightarrow> i < b \<Longrightarrow> map_of (rev zs) (int i) = None \<Longrightarrow> map_of (rev (xs @ map (\<lambda>i. (int i, i)) [a..<b] @ zs)) (int i) = Some i"
  using map_of_range [of a b i] by (simp add: map_add_def)

lemma map_of_small: "\<forall>(k, v) \<in> set xs. k \<noteq> n \<Longrightarrow> map_of xs n = None"
  by (induction xs) auto

lemma keymap_printable:
  assumes "0x20 \<le> i" "i < 0x7b"
  shows "map_of (rev (keymap_entries xk)) (int i) = Some i"
proof -
  have "map_of (rev (map (apsnd xk) keymap_after)) (int i) = None"
    by (rule map_of_small) (use assms in \<open>auto simp: keymap_after_def\<close>)
  from map_of_middle [OF assms this] show ?thesis unfolding keymap_entries_def .
qed

lemma keymap_function_key:
  assumes "map_of (rev keymap_after) k = Some name"
  shows "map_of (rev (keymap_entries xk)) k = Some (xk name)"
proof -
  have "map_of (map (apsnd xk) ys) k = map_option xk (map_of ys k)" for ys by (induction ys) auto
  from this [of "rev keymap_after"] have "map_of (rev (map (apsnd xk) keymap_after)) k = Some (xk name)" using assms by (simp add: rev_map)
  then show ?thesis by (simp add: keymap_entries_def map_add_def)
qed

definition keymap_fresh :: "(string \<Rightarrow> nat) \<Rightarrow> sdl_replay \<Rightarrow> bool" where
  "keymap_fresh xk s = ((keymap_initialized s \<and> (\<exists>m. keymap s = foldl (\<lambda>m (k, v). smap_put m k v) m (keymap_entries xk))) \<or> \<not> keymap_initialized s)"

lemma SDLKeyToKeySym_entry:
  assumes "keymap_fresh xk s" "map_of (rev (keymap_entries xk)) k = Some v"
  shows "fst (SDLKeyToKeySym xk k s) = v"
  using assms by (auto simp: SDLKeyToKeySym_def SDLKeyToKeySym_init_def keymap_fresh_def find_put_pairs)

lemma keyboard_replayed:
  assumes "keymap_fresh xk s" "\<not> sdlmsg_kb_match_scancode s sc" "\<not> sdlmsg_kb_match_sdlkey s (sint key)"
    "(0x20 \<le> sint key \<and> sint key < 0x7b \<and> ksym = nat (sint key)) \<or> (map_of (rev keymap_after) (sint key) = Some name \<and> ksym = xk name)"
    "ksym \<noteq> 0" "keycode ksym > 0"
  shows "\<exists>s'. sdlmsg_replay_callback xk keycode (keyboard_bytes p (htons sc) (htonl key) (htonl uni) (htons md) @ r) n s =
    Some ([Grab_Control True, Fake_Key (keycode ksym) (p \<noteq> 0), X_Sync, Grab_Control False], s')"
proof -
  let ?m = "keyboard_bytes p (htons sc) (htonl key) (htonl uni) (htons md) @ r"
  have nt: "sdlmsg_ntoh (Some ?m) = Some (Some (keyboard_bytes p sc key uni md @ r))" by (rule sdlmsg_ntoh_keyboard)
  have sz: "rd16 ?m 0 = Some (htons 18)" by (simp add: keyboard_bytes_def rd16_def c_read_def)
  have "map_of (rev (keymap_entries xk)) (sint key) = Some ksym"
    using assms(4) keymap_printable [of "nat (sint key)" xk] keymap_function_key [of "sint key" name xk] by (auto simp: nat_less_iff le_nat_iff)
  then have ks: "fst (SDLKeyToKeySym xk (sint key) s) = ksym" by (rule SDLKeyToKeySym_entry [OF assms(1)])
  have t: "c_get (keyboard_bytes p sc key uni md @ r) 2 = Some 1" for r by (simp add: keyboard_bytes_def c_get_def nth_append)
  obtain s' where "SDLKeyToKeySym xk (sint key) s = (ksym, s')" using ks by (metis prod.collapse)
  then have "sdlmsg_replay_native xk keycode (keyboard_bytes p sc key uni md @ r) s =
      Some ([Grab_Control True, Fake_Key (keycode ksym) (p \<noteq> 0), X_Sync, Grab_Control False], s')"
    using assms(5,6) by (simp add: sdlmsg_replay_native_def t msg_keyboard_bytes SDL_EVENT_MSGTYPE_KEYBOARD_def INVALID_KEY_def)
  then show ?thesis using assms(2,3) by (simp add: sdlmsg_replay_callback_def sz sdlmsg_replay_def nt key_blocked_keyboard)
qed

lemma wheel_replayed:
  assumes "x \<noteq> 0"
  shows "sdlmsg_replay_callback xk keycode (mouse_bytes 4 [0, 0, 0, 0] (htons x) (htons y) (htons 0) (htons 0) @ r) n s =
    Some ([Grab_Control True, Fake_Button (if 0 < sint x then 4 else 5) True, X_Sync, Fake_Button (if 0 < sint x then 4 else 5) False, X_Sync, Grab_Control False], s)"
proof -
  let ?m = "\<lambda>x y. mouse_bytes 4 [0, 0, 0, 0] x y 0 0 @ r"
  have nt: "sdlmsg_ntoh (Some (mouse_bytes 4 [0, 0, 0, 0] (htons x) (htons y) (htons 0) (htons 0) @ r)) = Some (Some (?m x y))"
    by (rule sdlmsg_ntoh_mouse) simp_all
  have sz: "rd16 (mouse_bytes 4 [0, 0, 0, 0] a b c d @ r) 0 = Some (htons 16)" for a b c d by (simp add: mouse_bytes_def rd16_def c_read_def)
  have t: "c_get (?m x y) 2 = Some 4" by (simp add: mouse_bytes_def c_get_def nth_append)
  have b: "sdlmsg_key_blocked s (?m x y) = Some False" by (rule key_blocked_mouse) simp
  have "sint x \<noteq> 0" 
  proof
    assume "sint x = 0"
    then have "word_of_int (sint x) = (0 :: u16)" by simp
    then show False using assms by simp
  qed
  then have "sdlmsg_replay_native xk keycode (?m x y) s =
      Some ([Grab_Control True, Fake_Button (if 0 < sint x then 4 else 5) True, X_Sync, Fake_Button (if 0 < sint x then 4 else 5) False, X_Sync, Grab_Control False], s)"
    using assms msg_mouse_bytes [of 4 0 0 0 0 x y 0 0 r]
    by (simp add: sdlmsg_replay_native_def t SDL_EVENT_MSGTYPE_KEYBOARD_def SDL_EVENT_MSGTYPE_MOUSEKEY_def SDL_EVENT_MSGTYPE_MOUSEWHEEL_def)
  then show ?thesis unfolding sdlmsg_replay_callback_def sdlmsg_replay_def nt sz by (simp add: b)
qed

text \<open>A key that is pressed or released at the client is pressed or released at the server: when it is not blocked and the X server has a code for
  its symbol, the message of the client is replayed as that key between taking and giving back control of the server, the printable
  characters from the space to z standing for themselves and each key of the table for its X symbol, whether or
  not the map of the keys was set up before.\<close>

theorem sdl_key_reaches_server:
  assumes "sizeof_sdlmsg \<le> length msg" "sdlmsg_keyboard msg p sc key md uni = Some m" "keymap_fresh xk s"
    "\<not> sdlmsg_kb_match_scancode s sc" "\<not> sdlmsg_kb_match_sdlkey s (sint key)"
    "(0x20 \<le> sint key \<and> sint key < 0x7b \<and> ksym = nat (sint key)) \<or> (map_of (rev keymap_after) (sint key) = Some name \<and> ksym = xk name)"
    "ksym \<noteq> 0" "keycode ksym > 0"
  shows "\<exists>s'. sdlmsg_replay_callback xk keycode m n s = Some ([Grab_Control True, Fake_Key (keycode ksym) (p \<noteq> 0), X_Sync, Grab_Control False], s')"
proof -
  have "m = keyboard_bytes p (htons sc) (htonl key) (htonl uni) (htons md) @ drop 18 msg"
    using assms(2) sdlmsg_keyboard_bytes [of msg] assms(1) by (simp add: keyboard_bytes_def sizeof_sdlmsg_def)
  then show ?thesis using keyboard_replayed [where ksym = ksym and name = name and xk = xk and keycode = keycode, OF assms(3-8)] by simp
qed

subsection \<open>The pointer\<close>

lemma c_trunc_int: "c_trunc (real_of_int b + r) = b + c_trunc r" if "0 \<le> b" "0 \<le> r"
  using that by (simp add: c_trunc_def)

lemma scaled_fraction:
  fixes v :: u16
  assumes that: "0 \<le> base" "0 < b" "uint v < q" "base + b - 1 < 2 ^ 31"
  shows "scaled (Some (real_of_int b / real_of_int q)) base v = Some (base + b * uint v div q) \<and> base + b * uint v div q \<le> base + b - 1 \<and> base \<le> base + b * uint v div q"
proof -
  have q: "0 < q" using that(3) uint_ge_0 [of v] by linarith
  have e: "real_of_int b / real_of_int q * real_of_int (uint v) = real_of_int (b * uint v) / real_of_int q" by simp
  have "0 \<le> b * uint v" using that(2) by simp
  then have "0 \<le> real_of_int (b * uint v) / real_of_int q" using q by (intro divide_nonneg_nonneg) linarith+
  then have nn: "\<not> real_of_int base + real_of_int (b * uint v) / real_of_int q < 0" using that(1) by linarith
  have f: "c_trunc (real_of_int base + real_of_int b / real_of_int q * real_of_int (uint v)) = base + b * uint v div q"
    unfolding e c_trunc_def if_not_P [OF nn] by (simp only: int_add_floor [symmetric] floor_divide_of_int_eq)
  have "b * uint v \<le> b * (q - 1)" using that(2,3) by (intro mult_left_mono) auto
  also have "\<dots> < b * q" using that(2) by simp
  finally have "b * uint v < b * q" .
  moreover have "(b * uint v div q) * q \<le> b * uint v" using q by (simp add: minus_mod_eq_div_mult [symmetric])
  ultimately have "(b * uint v div q) * q < b * q" by linarith
  then have lt: "b * uint v div q < b" using q by (simp add: mult_less_cancel_right)
  have ge: "0 \<le> b * uint v div q" using that(2) q by (simp add: pos_imp_zdiv_nonneg_iff)
  have "c_int (base + b * uint v div q) = Some (base + b * uint v div q)" by (rule c_int_Some) (use lt ge that in auto)
  with lt ge show ?thesis unfolding scaled_def Option.bind.simps f by linarith
qed

text \<open>The pointer stays where the game is: for a crop rectangle with its corners in order and inside the positive quadrant, a configured output resolution, and
  a pointer of the client inside that resolution, the motion message of the client moves the pointer of the server to the left upper corner plus
  the coordinates scaled down to the rectangle, which lies inside it.\<close>

theorem sdl_pointer_in_rectangle:
  assumes "sizeof_sdlmsg \<le> length msg" "sdlmsg_mousemotion msg x y rx ry st rm = Some m"
    "prect s = Some r" "0 \<le> rect_left r" "rect_left r \<le> rect_right r" "rect_right r < 2 ^ 31" "0 \<le> rect_top r" "rect_top r \<le> rect_bottom r" "rect_bottom r < 2 ^ 31"
    "ga_conf_readints conf ''output-resolution'' [0, 0] 2 = Some (2, [w, h])" "uint x < w" "uint y < h" "replay_scale conf s = Some s'"
  shows "\<exists>X Y. sdlmsg_replay_callback xk keycode m n s' = Some ([Grab_Control True, Fake_Motion (screenNumber s) X Y, X_Sync, Grab_Control False], s') \<and>
    X = rect_left r + (rect_right r - rect_left r + 1) * uint x div w \<and> X \<le> rect_right r \<and> rect_left r \<le> X \<and>
    Y = rect_top r + (rect_bottom r - rect_top r + 1) * uint y div h \<and> Y \<le> rect_bottom r \<and> rect_top r \<le> Y"
proof -
  define bx where "bx = rect_right r - rect_left r + 1"
  define by' where "by' = rect_bottom r - rect_top r + 1"
  have p: "0 < bx" "0 < by'" using assms(5,8) by (simp_all add: bx_def by'_def)
  have p2: "0 < w" "0 < h" using le_less_trans [OF uint_ge_0 assms(11)] le_less_trans [OF uint_ge_0 assms(12)] .
  have s': "scaleFactorX s' = Some (real_of_int bx / real_of_int w)" "scaleFactorY s' = Some (real_of_int by' / real_of_int h)"
    "prect s' = Some r" "screenNumber s' = screenNumber s"
    using assms(13,3,10) p p2 by (auto simp: replay_scale_def Let_def set_resolutions_def ctrl_server_set_output_resolution_def ctrl_server_set_resolution_def
        ctrl_server_get_scalefactor_def scale_ratio_def bx_def by'_def divide_le_0_iff)
  note sx = scaled_fraction [of "rect_left r" bx x w] and sy = scaled_fraction [of "rect_top r" by' y h]
  have m: "m = mouse_bytes 3 [0, 0, st, if rm \<noteq> 0 then 1 else 0] (htons x) (htons y) (htons rx) (htons ry) @ drop 16 msg"
    using assms(2) sdlmsg_mouse_bytes(3) [of msg x y rx ry st rm] assms(1) by (simp add: sizeof_sdlmsg_def)
  define hm where "hm = mouse_bytes 3 [0, 0, st, if rm \<noteq> 0 then 1 else 0] x y rx ry @ drop 16 msg"
  have nt: "sdlmsg_ntoh (Some m) = Some (Some hm)" unfolding m hm_def by (rule sdlmsg_ntoh_mouse) simp_all
  have sz: "rd16 m 0 = Some (htons 16)" by (simp add: m mouse_bytes_def rd16_def c_read_def)
  have t: "c_get hm 2 = Some 3" by (simp add: hm_def mouse_bytes_def c_get_def nth_append)
  have b: "sdlmsg_key_blocked s' hm = Some False" unfolding hm_def by (rule key_blocked_mouse) simp
  have nat: "sdlmsg_replay_native xk keycode hm s' = Some ([Grab_Control True, Fake_Motion (screenNumber s) (rect_left r + bx * uint x div w) (rect_top r + by' * uint y div h), X_Sync, Grab_Control False], s')"
    using sx sy assms p s' msg_mouse_bytes [of 3 0 0 st "if rm \<noteq> 0 then 1 else 0" x y rx ry "drop 16 msg"]
    by (simp add: sdlmsg_replay_native_def t hm_def [symmetric] SDL_EVENT_MSGTYPE_KEYBOARD_def SDL_EVENT_MSGTYPE_MOUSEKEY_def SDL_EVENT_MSGTYPE_MOUSEWHEEL_def
        SDL_EVENT_MSGTYPE_MOUSEMOTION_def bx_def by'_def)
  show ?thesis using sx sy assms p nat by (simp add: sdlmsg_replay_callback_def sz sdlmsg_replay_def nt b bx_def by'_def)
qed

subsection \<open>Examples\<close>

theorem sdl_messages_arrive_witness:
  "(\<exists>m h. sdlmsg_keyboard (replicate 64 7) 1 4 97 0 0 = Some m \<and> sdlmsg_ntoh (Some m) = Some (Some h) \<and>
     msg_keyboard h = Some \<lparr>k_is_pressed = 1, k_scancode = 4, k_sdlkey = 97, k_unicode = 0, k_sdlmod = 0\<rparr>)"
  using sdl_messages_arrive [of "replicate 64 7" 1 4 97 0 0 0 0 0 0 0 0 0] by (simp add: sizeof_sdlmsg_def) blast

definition block_conf :: ga_conf where
  "block_conf = \<lparr>ga_vars = [(''key-block-keycode'', \<lparr>cv_data = [], cv_mapdata = [(''0x4000003a'', ''1'')], cv_mi = None\<rparr>)], ga_vmi = CI_end\<rparr>"

lemma block_conf:
  "kb_conf block_conf ''key-block-scancode'' []" "kb_conf block_conf ''key-block-keycode'' [(''0x4000003a'', ''1'')]"
  by (simp_all add: kb_conf_def block_conf_def)

lemma block_numbers: "kb_numbers [(''0x4000003a'', ''1'')] = [58]"
proof -
  have "fst (strtol 0 ''0x4000003a'') = 0x4000003a" by code_simp
  then show ?thesis by (simp add: kb_numbers_def Let_def ga_conf_boolval_def strcaseeq_def)
qed

text \<open>The number of F1 is configured: F1 itself is replayed, and the colon, number 58, is not.\<close>

theorem sdl_key_blocking_witness:
  "\<exists>m s' conf' h. sdlmsg_keyboard (replicate 64 0) 1 0 0x4000003a 0 0 = Some m \<and> sdlmsg_kb_init block_conf sdl_replay_zero = Some (s', conf') \<and>
     sdlmsg_ntoh (Some m) = Some (Some h) \<and>
     sdlmsg_replay (\<lambda>n. 1) (\<lambda>k. 1) m s' = map_option (\<lambda>(es, s''). (0, es, s'')) (sdlmsg_replay_native (\<lambda>n. 1) (\<lambda>k. 1) h s')"
proof -
  have l: "sizeof_sdlmsg \<le> length (replicate 64 (0 :: byte))" by (simp add: sizeof_sdlmsg_def)
  obtain m where m: "sdlmsg_keyboard (replicate 64 0) 1 0 0x4000003a 0 0 = Some m" using sdlmsg_keyboard_bytes [of "replicate 64 0"] by simp
  show ?thesis
    using sdl_key_blocking [OF block_conf m l, of sdl_replay_zero "\<lambda>n. 1" "\<lambda>k. 1"] m by (auto simp: block_numbers) (simp add: kb_numbers_def)
qed

theorem sdl_key_reaches_server_witness:
  "\<exists>m s'. sdlmsg_keyboard (replicate 64 0) 1 4 97 0 0 = Some m \<and>
     sdlmsg_replay_callback (\<lambda>n. 1) (\<lambda>k. 38) m 18 sdl_replay_zero = Some ([Grab_Control True, Fake_Key 38 True, X_Sync, Grab_Control False], s')"
proof -
  have l: "sizeof_sdlmsg \<le> length (replicate 64 (0 :: byte))" by (simp add: sizeof_sdlmsg_def)
  obtain m where m: "sdlmsg_keyboard (replicate 64 0) 1 4 97 0 0 = Some m" using sdlmsg_keyboard_bytes [of "replicate 64 0"] by simp
  have z: "keymap_fresh (\<lambda>n. 1) sdl_replay_zero" "\<not> sdlmsg_kb_match_scancode sdl_replay_zero 4" "\<not> sdlmsg_kb_match_sdlkey sdl_replay_zero (sint (97 :: u32))"
    by (simp_all add: keymap_fresh_def sdl_replay_zero_def sdlmsg_kb_match_scancode_def sdlmsg_kb_match_sdlkey_def)
  have "\<exists>s'. sdlmsg_replay_callback (\<lambda>n. 1) (\<lambda>k. 38) m 18 sdl_replay_zero = Some ([Grab_Control True, Fake_Key 38 ((1 :: byte) \<noteq> 0), X_Sync, Grab_Control False], s')"
    by (rule sdl_key_reaches_server [OF l m z, of 97 "[]"]) simp_all
  with m show ?thesis by auto
qed

definition pointer_conf :: ga_conf where
  "pointer_conf = \<lparr>ga_vars = [(''output-resolution'', \<lparr>cv_data = ''640 360'', cv_mapdata = [], cv_mi = None\<rparr>)], ga_vmi = CI_end\<rparr>"

definition pointer_rect :: gaRect where
  "pointer_rect = \<lparr>rect_left = 100, rect_top = 50, rect_right = 1379, rect_bottom = 769, rect_width = 1280, rect_height = 720, rect_linesize = 5120, rect_size = 3686400\<rparr>"

theorem sdl_pointer_in_rectangle_witness:
  "\<exists>m s'. sdlmsg_mousemotion (replicate 64 0) 320 359 0 0 0 0 = Some m \<and> replay_scale pointer_conf (sdl_replay_zero\<lparr>prect := Some pointer_rect\<rparr>) = Some s' \<and>
     sdlmsg_replay_callback (\<lambda>n. 1) (\<lambda>k. 1) m 16 s' = Some ([Grab_Control True, Fake_Motion 0 740 768, X_Sync, Grab_Control False], s')"
proof -
  have l: "sizeof_sdlmsg \<le> length (replicate 64 (0 :: byte))" by (simp add: sizeof_sdlmsg_def)
  obtain m where m: "sdlmsg_mousemotion (replicate 64 0) 320 359 0 0 0 0 = Some m" using sdlmsg_mouse_bytes(3) [of "replicate 64 0"] by simp
  have c: "ga_conf_readints pointer_conf ''output-resolution'' [0, 0] 2 = Some (2, [640, 360])" unfolding pointer_conf_def by code_simp
  define s where "s = sdl_replay_zero\<lparr>prect := Some pointer_rect\<rparr>"
  have p: "prect s = Some pointer_rect" by (simp add: s_def)
  have "replay_scale pointer_conf s \<noteq> None" by (simp add: replay_scale_def c Let_def set_resolutions_def p split: prod.split)
  then obtain s' where s': "replay_scale pointer_conf s = Some s'" by blast
  from sdl_pointer_in_rectangle [OF l m p _ _ _ _ _ _ c _ _ s', of "\<lambda>n. 1" "\<lambda>k. 1" 16]
  have "sdlmsg_replay_callback (\<lambda>n. 1) (\<lambda>k. 1) m 16 s' = Some ([Grab_Control True, Fake_Motion 0 740 768, X_Sync, Grab_Control False], s')"
    by (simp add: pointer_rect_def s_def sdl_replay_zero_def)
  with m s' show ?thesis by (auto simp: s_def)
qed

end
