(* ===== verification/ClientAudio.thy ===== *)
theory ClientAudio
  imports GaConf "HOL-Library.Sublist"
begin

text \<open>
  The sound of the client, \<open>client/rtspclient.cpp\<close>: the queue of packets between the receiver and the
  player, and the buffer that the player's callback is filled from. The decoder and the converter are
  parameters. The queue is used under its mutex, so its operations are single steps.
\<close>

section \<open>The packet queue\<close>

record packet_queue =
  aq_queue :: "byte list list"
  aq_size :: int

record packet_queue_globals =
  packet_queue_initialized :: bool
  packet_queue_limit :: int
  packet_queue_dropfactor :: int

definition packet_queue_defaults :: packet_queue_globals where
  "packet_queue_defaults = \<lparr>packet_queue_initialized = False, packet_queue_limit = 5, packet_queue_dropfactor = 2\<rparr>"

definition packet_queue_init :: "ga_conf \<Rightarrow> packet_queue_globals \<Rightarrow> packet_queue \<Rightarrow> (packet_queue_globals \<times> packet_queue) option" where
  "packet_queue_init conf g q = do {
     p \<leftarrow> ga_conf_readv conf ''audio-playback-queue-limit'' 8;
     g \<leftarrow> (case p of
         None \<Rightarrow> Some g
       | Some _ \<Rightarrow> do {
           val \<leftarrow> ga_conf_readint conf ''audio-playback-queue-limit'';
           Some (if val \<ge> 0 then g\<lparr>packet_queue_limit := val\<rparr> else g) });
     val \<leftarrow> ga_conf_readint conf ''audio-playback-queue-dropfactor'';
     Some ((if val > 0 then g\<lparr>packet_queue_dropfactor := val\<rparr> else g)\<lparr>packet_queue_initialized := True\<rparr>, q\<lparr>aq_queue := []\<rparr>) }"

text \<open>\<open>dup\<close> tells whether the packet could be duplicated.\<close>

definition packet_queue_put :: "bool \<Rightarrow> packet_queue \<Rightarrow> byte list \<Rightarrow> int \<times> packet_queue" where
  "packet_queue_put dup q pkt =
     (if \<not> dup then (-1, q) else (0, q\<lparr>aq_queue := aq_queue q @ [pkt], aq_size := aq_size q + int (length pkt)\<rparr>))"

text \<open>The waits that end with a signal, each with the queue as the other threads have left it; the next one
  times out.\<close>

fun packet_queue_get_loop :: "packet_queue list \<Rightarrow> bool \<Rightarrow> packet_queue \<Rightarrow> int \<times> byte list option \<times> packet_queue" where
  "packet_queue_get_loop waits block q =
     (case aq_queue q of
        pkt # pkts \<Rightarrow> (1, Some pkt, q\<lparr>aq_queue := pkts, aq_size := aq_size q - int (length pkt)\<rparr>)
      | [] \<Rightarrow> if \<not> block then (0, None, q)
              else (case waits of [] \<Rightarrow> (-1, None, q) | q' # waits' \<Rightarrow> packet_queue_get_loop waits' block q'))"

declare packet_queue_get_loop.simps [simp del]

definition packet_queue_get :: "packet_queue list \<Rightarrow> packet_queue_globals \<Rightarrow> packet_queue \<Rightarrow> bool \<Rightarrow> int \<times> byte list option \<times> packet_queue" where
  "packet_queue_get waits g q block =
     (if \<not> packet_queue_initialized g then (-1, None, q) else packet_queue_get_loop waits block q)"

primrec drop_loop :: "nat \<Rightarrow> int \<Rightarrow> packet_queue \<Rightarrow> int \<times> packet_queue" where
  "drop_loop 0 count q = (count, q)"
| "drop_loop (Suc n) count q =
     (case aq_queue q of
        [] \<Rightarrow> (count, q)
      | pkt # pkts \<Rightarrow> drop_loop n (count + 1) (q\<lparr>aq_queue := pkts, aq_size := aq_size q - int (length pkt)\<rparr>))"

definition packet_queue_drop :: "packet_queue_globals \<Rightarrow> packet_queue \<Rightarrow> int \<times> packet_queue" where
  "packet_queue_drop g q =
     (if packet_queue_limit g \<le> 0 \<or> packet_queue_dropfactor g \<le> 0 then (0, q)
      else if int (length (aq_queue q)) \<le> packet_queue_limit g then (0, q)
      else let dropped = length (aq_queue q) div nat (packet_queue_dropfactor g);
               dropped = (if dropped = length (aq_queue q) then dropped - 1 else dropped)
           in drop_loop dropped 0 q)"

text \<open>A received packet; the result tells also whether the player is to be opened.\<close>

definition play_audio :: "bool \<Rightarrow> packet_queue_globals \<Rightarrow> bool \<Rightarrow> byte list \<Rightarrow> packet_queue \<Rightarrow> bool \<times> packet_queue" where
  "play_audio dup g audioOpened buffer q =
     (\<not> audioOpened, if length buffer > 0 then snd (packet_queue_drop g (snd (packet_queue_put dup q buffer))) else q)"

section \<open>The audio buffer\<close>

text \<open>A decoded frame: whether its format is the one of the device, its data, and the size that the frame has in
  its own format and in the format of the device.\<close>

record audio_frame =
  af_same :: bool
  af_data :: "byte list"
  af_datalen :: int
  af_device_datalen :: int

text \<open>The decoder, a step on its own state, and the converter.\<close>

record 's audio_codec =
  au_decode :: "'s \<Rightarrow> byte list \<Rightarrow> (int \<times> audio_frame option) \<times> 's"
  au_alloc :: bool
  au_init :: bool
  au_max :: int
  au_malloc :: bool
  au_convert :: "audio_frame \<Rightarrow> byte list"

record 's audio_client =
  ad_state :: 's
  ad_swrctx :: bool
  ad_max_decoder_size :: int
  ad_convbuf :: bool

text \<open>The samples of a frame in the format of the device; the outer option is undefined behaviour, the inner one
  an error.\<close>

definition frame_samples :: "'s audio_codec \<Rightarrow> audio_frame \<Rightarrow> 's audio_client \<Rightarrow> (((byte list \<times> int) option) \<times> 's audio_client) option" where
  "frame_samples au f c =
     (if af_same f then Some (Some (af_data f, af_datalen f), c)
      else
        (if \<not> ad_swrctx c \<and> \<not> au_alloc au then Some (None, c)
         else if \<not> ad_swrctx c \<and> \<not> au_init au then Some (None, c\<lparr>ad_swrctx := True\<rparr>)
         else if \<not> ad_swrctx c \<and> \<not> au_malloc au then Some (None, c\<lparr>ad_swrctx := True, ad_max_decoder_size := au_max au\<rparr>)
         else let c = (if ad_swrctx c then c else c\<lparr>ad_swrctx := True, ad_max_decoder_size := au_max au, ad_convbuf := True\<rparr>)
              in if af_device_datalen f > ad_max_decoder_size c then Some (None, c)
                 else if \<not> ad_convbuf c then None
                 else Some (Some (au_convert au f, af_device_datalen f), c)))"

text \<open>Decoding a packet to the buffer at an offset; a decoder that makes no progress is not left.\<close>

partial_function (option) audio_decode_loop :: "'s audio_codec \<Rightarrow> byte list \<Rightarrow> byte list \<Rightarrow> int \<Rightarrow> int \<Rightarrow> int \<Rightarrow> 's audio_client \<Rightarrow>
    (int \<times> byte list \<times> 's audio_client) option" where
  "audio_decode_loop au pkt buf dst dstlen filled c =
     (if pkt = [] then Some (filled, buf, c)
      else let ((len, got), st) = au_decode au (ad_state c) pkt; c = c\<lparr>ad_state := st\<rparr>
           in if len < 0 then Some (-1, buf, c)
              else (case got of
                  None \<Rightarrow> audio_decode_loop au (drop (nat len) pkt) buf dst dstlen filled c
                | Some f \<Rightarrow> do {
                    (r, c) \<leftarrow> frame_samples au f c;
                    (case r of
                       None \<Rightarrow> Some (-1, buf, c)
                     | Some (src, datalen) \<Rightarrow> do {
                         xs \<leftarrow> c_read src 0 (min datalen dstlen);
                         buf \<leftarrow> c_write buf dst xs;
                         audio_decode_loop au (drop (nat len) pkt) buf (dst + min datalen dstlen) (dstlen - min datalen dstlen)
                           (filled + min datalen dstlen) c }) }))"

definition audio_buffer_decode :: "'s audio_codec \<Rightarrow> byte list \<Rightarrow> byte list \<Rightarrow> int \<Rightarrow> int \<Rightarrow> 's audio_client \<Rightarrow> (int \<times> byte list \<times> 's audio_client) option" where
  "audio_buffer_decode au pkt buf dst dstlen c = audio_decode_loop au pkt buf dst dstlen 0 c"

definition abmaxsize :: nat where "abmaxsize = 192000 * 4"

record 's audio_player =
  ap_queue :: packet_queue
  ap_audiobuf :: "byte list option"
  ap_absize :: nat
  ap_abpos :: nat
  ap_client :: "'s audio_client"

text \<open>\<open>mem\<close> is the fresh memory of \<open>malloc\<close>, \<open>None\<close> when there is none.\<close>

definition audio_buffer_init :: "byte list option \<Rightarrow> 's audio_player \<Rightarrow> bool \<times> 's audio_player" where
  "audio_buffer_init mem p =
     (case ap_audiobuf p of Some _ \<Rightarrow> (True, p) | None \<Rightarrow> (mem \<noteq> None, p\<lparr>ap_audiobuf := mem\<rparr>))"

text \<open>The data is moved to the front.\<close>

definition audio_move :: "byte list \<Rightarrow> 's audio_player \<Rightarrow> (byte list \<times> 's audio_player) option" where
  "audio_move buf p =
     (if ap_abpos p \<noteq> 0 then do {
        xs \<leftarrow> c_read buf (int (ap_abpos p)) (int (ap_absize p) - int (ap_abpos p));
        buf \<leftarrow> c_write buf 0 xs;
        Some (buf, p\<lparr>ap_absize := ap_absize p - ap_abpos p, ap_abpos := 0\<rparr>) }
      else Some (buf, p))"

text \<open>The loop of \<open>audio_buffer_fill\<close> over the memory of the buffer; \<open>stream\<close> is what is filled so far. Every round
  after the first takes a packet from the queue, so its length bounds the rounds.\<close>

primrec audio_fill_loop :: "nat \<Rightarrow> 's audio_codec \<Rightarrow> packet_queue_globals \<Rightarrow> nat \<Rightarrow> byte list \<Rightarrow> byte list \<Rightarrow> 's audio_player \<Rightarrow>
    (int \<times> byte list \<times> 's audio_player) option" where
  "audio_fill_loop 0 au g ssize stream buf p = None"
| "audio_fill_loop (Suc n) au g ssize stream buf p =
     (if length stream < ssize then
        (if ap_absize p - ap_abpos p \<ge> ssize - length stream then do {
           xs \<leftarrow> c_read buf (int (ap_abpos p)) (int (ssize - length stream));
           Some (int ssize, stream @ xs, p\<lparr>ap_audiobuf := Some buf, ap_abpos := ap_abpos p + (ssize - length stream)\<rparr>) }
         else do {
           (stream, p) \<leftarrow> (if ap_absize p - ap_abpos p > 0 then do {
               xs \<leftarrow> c_read buf (int (ap_abpos p)) (int (ap_absize p - ap_abpos p));
               Some (stream @ xs, p\<lparr>ap_abpos := 0, ap_absize := 0\<rparr>) }
             else Some (stream, p));
           (buf, p) \<leftarrow> audio_move buf p;
           (case packet_queue_get [] g (ap_queue p) False of
              (r, pkt, q) \<Rightarrow>
                (if r \<le> 0 then Some (int (length stream), stream, p\<lparr>ap_audiobuf := Some buf, ap_queue := q\<rparr>)
                 else do {
                   pkt \<leftarrow> pkt;
                   (dsize, buf, c) \<leftarrow> audio_buffer_decode au pkt buf (int (ap_absize p)) (int abmaxsize - int (ap_absize p)) (ap_client p);
                   (let p = p\<lparr>ap_queue := q, ap_client := c\<rparr>
                    in if dsize < 0 then Some (int (length stream), stream, p\<lparr>ap_audiobuf := Some buf\<rparr>)
                       else audio_fill_loop n au g ssize stream buf (p\<lparr>ap_absize := ap_absize p + nat dsize\<rparr>)) })) })
      else Some (int (length stream), stream, p\<lparr>ap_audiobuf := Some buf\<rparr>))"

text \<open>The program ends when there is no memory for the buffer.\<close>

definition audio_buffer_fill :: "byte list option \<Rightarrow> 's audio_codec \<Rightarrow> packet_queue_globals \<Rightarrow> nat \<Rightarrow> 's audio_player \<Rightarrow>
    (int + int \<times> byte list \<times> 's audio_player) option" where
  "audio_buffer_fill mem au g ssize p =
     (case audio_buffer_init mem p of
        (ok, p) \<Rightarrow>
          (case ap_audiobuf p of
             None \<Rightarrow> Some (Inl (-1))
           | Some buf \<Rightarrow> map_option Inr (audio_fill_loop (length (aq_queue (ap_queue p)) + 2) au g ssize [] buf p)))"

definition audio_buffer_fill_sdl :: "byte list option \<Rightarrow> 's audio_codec \<Rightarrow> packet_queue_globals \<Rightarrow> bool \<Rightarrow> nat \<Rightarrow> 's audio_player \<Rightarrow>
    (int + byte list \<times> 's audio_player) option" where
  "audio_buffer_fill_sdl mem au g image_rendered ssize p = do {
     r \<leftarrow> audio_buffer_fill mem au g ssize p;
     Some (case r of
         Inl e \<Rightarrow> Inl e
       | Inr (filled, stream, p) \<Rightarrow>
           if filled < 0 then Inl (-1)
           else if \<not> image_rendered then Inr (replicate ssize 0, p)
           else Inr (take (nat filled) stream @ replicate (ssize - nat filled) 0, p)) }"

section \<open>Properties\<close>

subsection \<open>The queue\<close>

definition aq_ok :: "packet_queue \<Rightarrow> bool" where
  "aq_ok q = (aq_size q = int (sum_list (map length (aq_queue q))))"

lemma drop_loop_drop:
  "drop_loop n count q = (count + int (min n (length (aq_queue q))),
     q\<lparr>aq_queue := drop n (aq_queue q), aq_size := aq_size q - int (sum_list (map length (take n (aq_queue q))))\<rparr>)"
proof (induction n arbitrary: count q)
  case (Suc n)
  show ?case by (cases "aq_queue q") (simp_all add: Suc)
qed simp

lemma packet_queue_drop_queue:
  "\<exists>n. aq_queue (snd (packet_queue_drop g q)) = drop n (aq_queue q) \<and> aq_size (snd (packet_queue_drop g q)) = aq_size q - int (sum_list (map length (take n (aq_queue q))))"
proof -
  have "\<exists>n. aq_queue q = drop n (aq_queue q) \<and> aq_size q = aq_size q - int (sum_list (map length (take n (aq_queue q))))"
    by (rule exI [of _ 0]) simp
  then show ?thesis by (auto simp: packet_queue_drop_def drop_loop_drop Let_def)
qed

lemma sum_take_drop: "sum_list (map length (take n xs)) + sum_list (map length (drop n xs)) = sum_list (map length xs)"
  by (metis append_take_drop_id map_append sum_list_append)

lemma aq_ok_drop:
  assumes "aq_ok q"
  shows "aq_ok (snd (packet_queue_drop g q))"
proof -
  obtain n where "aq_queue (snd (packet_queue_drop g q)) = drop n (aq_queue q)"
    "aq_size (snd (packet_queue_drop g q)) = aq_size q - int (sum_list (map length (take n (aq_queue q))))"
    using packet_queue_drop_queue by blast
  with assms sum_take_drop [of n "aq_queue q"] show ?thesis by (simp add: aq_ok_def)
qed

lemma packet_queue_drop_bound:
  assumes "0 < packet_queue_limit g" "0 < packet_queue_dropfactor g"
    "int (length (aq_queue q)) \<le> max (packet_queue_limit g) (packet_queue_dropfactor g - 1) + 1"
  shows "int (length (aq_queue (snd (packet_queue_drop g q)))) \<le> max (packet_queue_limit g) (packet_queue_dropfactor g - 1)"
proof (cases "int (length (aq_queue q)) \<le> max (packet_queue_limit g) (packet_queue_dropfactor g - 1)")
  case True
  with packet_queue_drop_queue [of g q] show ?thesis by auto
next
  case False
  let ?n = "length (aq_queue q)" let ?f = "nat (packet_queue_dropfactor g)"
  have f: "?f \<le> ?n" "0 < ?f" "2 \<le> ?n" using False assms(1,2) by auto
  then have "1 \<le> ?n div ?f" by (simp add: Suc_leI div_greater_zero_iff)
  then have "1 \<le> (if ?n div ?f = ?n then ?n div ?f - 1 else ?n div ?f)" using f(3) by auto
  with False assms show ?thesis by (simp add: packet_queue_drop_def drop_loop_drop Let_def)
qed

text \<open>What happens on the queue: packets arrive, and the player takes them.\<close>

datatype audio_event = Packet_Arrives bool "byte list" | Player_Takes

fun audio_event_step :: "packet_queue_globals \<Rightarrow> audio_event \<Rightarrow> packet_queue \<times> byte list list \<Rightarrow> packet_queue \<times> byte list list" where
  "audio_event_step g (Packet_Arrives dup pkt) (q, out) = (snd (play_audio dup g True pkt q), out)"
| "audio_event_step g Player_Takes (q, out) =
     (case packet_queue_get [] g q False of (r, pkt, q') \<Rightarrow> (q', out @ (case pkt of None \<Rightarrow> [] | Some x \<Rightarrow> [x])))"

fun arrivals :: "audio_event list \<Rightarrow> byte list list" where
  "arrivals [] = []"
| "arrivals (Packet_Arrives dup pkt # es) = pkt # arrivals es"
| "arrivals (Player_Takes # es) = arrivals es"

definition audio_queue_inv :: "packet_queue_globals \<Rightarrow> byte list list \<Rightarrow> packet_queue \<times> byte list list \<Rightarrow> bool" where
  "audio_queue_inv g arrived s = (case s of (q, out) \<Rightarrow>
     subseq (out @ aq_queue q) arrived \<and> aq_ok q \<and>
     (0 < packet_queue_limit g \<and> 0 < packet_queue_dropfactor g \<longrightarrow>
        int (length (aq_queue q)) \<le> max (packet_queue_limit g) (packet_queue_dropfactor g - 1)))"

lemma subseq_drop_behind: "subseq (xs @ ys) zs \<Longrightarrow> subseq (xs @ drop n ys) zs"
  by (rule subseq_order.trans [of _ "xs @ ys"]) (simp_all add: subseq_append' suffix_imp_subseq suffix_drop)

lemma audio_step_packet:
  assumes "audio_queue_inv g arrived (q, out)"
  shows "audio_queue_inv g (arrived @ [pkt]) (audio_event_step g (Packet_Arrives dup pkt) (q, out))"
proof (cases "pkt = []")
  case True
  with assms show ?thesis by (simp add: audio_queue_inv_def play_audio_def subseq_rev_drop_many)
next
  case False
  define q1 where "q1 = snd (packet_queue_put dup q pkt)"
  let ?b = "max (packet_queue_limit g) (packet_queue_dropfactor g - 1)"
  have q1: "subseq (out @ aq_queue q1) (arrived @ [pkt])" "aq_ok q1" "length (aq_queue q1) \<le> length (aq_queue q) + 1"
    using assms by (simp_all add: audio_queue_inv_def q1_def packet_queue_put_def subseq_rev_drop_many aq_ok_def flip: append_assoc)
  obtain n where n: "aq_queue (snd (packet_queue_drop g q1)) = drop n (aq_queue q1)" using packet_queue_drop_queue by blast
  have "int (length (aq_queue (snd (packet_queue_drop g q1)))) \<le> ?b" if "0 < packet_queue_limit g" "0 < packet_queue_dropfactor g"
    using assms q1(3) that by (intro packet_queue_drop_bound) (auto simp: audio_queue_inv_def)
  with q1 n aq_ok_drop [OF q1(2), of g] False show ?thesis
    by (simp add: audio_queue_inv_def play_audio_def subseq_drop_behind flip: q1_def)
qed

lemma audio_step_take:
  assumes "audio_queue_inv g arrived (q, out)"
  shows "audio_queue_inv g arrived (audio_event_step g Player_Takes (q, out))"
  using assms
  by (auto simp: audio_queue_inv_def packet_queue_get_def packet_queue_get_loop.simps [of "[]"] aq_ok_def split: list.splits)

text \<open>Over any sequence of packets that arrive and packets that the player takes, the player gets packets that arrived, each
  at most once and in their order; the number of bytes that the queue keeps is that of its packets; and the queue stays
  within its limit, or within the drop factor when that is larger.\<close>

theorem audio_queue_order:
  assumes "aq_queue q = []" "aq_size q = 0"
  shows "audio_queue_inv g (arrivals es) (fold (audio_event_step g) es (q, []))"
proof (induction es rule: rev_induct)
  case Nil
  show ?case using assms by (auto simp: audio_queue_inv_def aq_ok_def)
next
  case (snoc e es)
  have a: "arrivals (es @ es') = arrivals es @ arrivals es'" for es es' by (induction es rule: arrivals.induct) simp_all
  obtain q' out where s: "fold (audio_event_step g) es (q, []) = (q', out)" by (cases "fold (audio_event_step g) es (q, [])")
  with snoc have i: "audio_queue_inv g (arrivals es) (q', out)" by simp
  show ?case
    using audio_step_packet [OF i] audio_step_take [OF i] by (cases e) (simp_all add: s a)
qed

theorem audio_queue_order_witness:
  "audio_queue_inv packet_queue_defaults [[1], [2], [3, 4]]
     (fold (audio_event_step packet_queue_defaults) [Packet_Arrives True [1], Packet_Arrives True [2], Player_Takes, Packet_Arrives True [3, 4]] (\<lparr>aq_queue = [], aq_size = 0\<rparr>, []))"
  using audio_queue_order [of "\<lparr>aq_queue = [], aq_size = 0\<rparr>" packet_queue_defaults
    "[Packet_Arrives True [1], Packet_Arrives True [2], Player_Takes, Packet_Arrives True [3, 4]]"] by simp

subsection \<open>The sound\<close>

text \<open>A decoder that makes one frame of a packet, in the format of the device.\<close>

definition one_frame :: "'s audio_codec \<Rightarrow> (byte list \<Rightarrow> byte list) \<Rightarrow> bool" where
  "one_frame au pcm = (\<forall>st pkt. pkt \<noteq> [] \<longrightarrow> (\<exists>st' f. au_decode au st pkt = ((int (length pkt), Some f), st') \<and>
     af_same f \<and> af_data f = pcm pkt \<and> af_datalen f = int (length (pcm pkt))))"

lemma decode_one_frame:
  assumes "one_frame au pcm" "pkt \<noteq> []" "0 \<le> dst" "int (length (pcm pkt)) \<le> dstlen" "dst + int (length (pcm pkt)) \<le> int (length buf)"
  shows "\<exists>buf' c'. audio_buffer_decode au pkt buf dst dstlen c = Some (int (length (pcm pkt)), buf', c') \<and> c_write buf dst (pcm pkt) = Some buf'"
proof -
  obtain st' f where f: "au_decode au (ad_state c) pkt = ((int (length pkt), Some f), st')" "af_same f" "af_data f = pcm pkt"
    "af_datalen f = int (length (pcm pkt))" using assms(1,2) unfolding one_frame_def by blast
  obtain buf' where w: "c_write buf dst (pcm pkt) = Some buf'" using c_write_defined [of dst "pcm pkt" buf] assms(3,5) by auto
  have r: "c_read (pcm pkt) 0 (int (length (pcm pkt))) = Some (pcm pkt)" by (simp add: c_read_def)
  have m: "min (int (length (pcm pkt))) dstlen = int (length (pcm pkt))" using assms(4) by simp
  have e: "audio_decode_loop au [] b d l n c = Some (n, b, c)" for b d l n and c :: "'a audio_client"
    by (simp add: audio_decode_loop.simps)
  show ?thesis unfolding audio_buffer_decode_def audio_decode_loop.simps [of au pkt]
    using assms(2) by (simp add: f frame_samples_def r m w e Let_def)
qed

definition player_data :: "byte list \<Rightarrow> 's audio_player \<Rightarrow> byte list" where
  "player_data buf p = take (ap_absize p - ap_abpos p) (drop (ap_abpos p) buf)"

definition player_ok :: "byte list \<Rightarrow> 's audio_player \<Rightarrow> bool" where
  "player_ok buf p = (length buf = abmaxsize \<and> ap_abpos p \<le> ap_absize p \<and> ap_absize p \<le> abmaxsize)"

definition queue_sound :: "(byte list \<Rightarrow> byte list) \<Rightarrow> 's audio_player \<Rightarrow> byte list" where
  "queue_sound pcm p = concat (map pcm (aq_queue (ap_queue p)))"

definition packets_ok :: "(byte list \<Rightarrow> byte list) \<Rightarrow> packet_queue \<Rightarrow> bool" where
  "packets_ok pcm q = (\<forall>pkt \<in> set (aq_queue q). pkt \<noteq> [] \<and> length (pcm pkt) \<le> abmaxsize)"

lemma audio_move_empty: "ap_abpos p = ap_absize p \<Longrightarrow> ap_absize p \<le> length buf \<Longrightarrow> audio_move buf p = Some (buf, p\<lparr>ap_abpos := 0, ap_absize := 0\<rparr>)"
  by (cases p; cases "ap_abpos p = 0") (simp_all add: audio_move_def c_read_def c_write_def)

lemma audio_take_out:
  assumes "player_ok buf p"
  shows "(if ap_absize p - ap_abpos p > 0 then do {
               xs \<leftarrow> c_read buf (int (ap_abpos p)) (int (ap_absize p - ap_abpos p));
               Some (stream @ xs, p\<lparr>ap_abpos := 0, ap_absize := 0\<rparr>) }
             else Some (stream, p)) \<bind> (\<lambda>(stream, p). do { (buf, p) \<leftarrow> audio_move buf p; k stream buf p })
    = k (stream @ player_data buf p) buf (p\<lparr>ap_abpos := 0, ap_absize := 0\<rparr>)"
proof (cases "ap_absize p - ap_abpos p > 0")
  case True
  then have "c_read buf (int (ap_abpos p)) (int (ap_absize p - ap_abpos p)) = Some (player_data buf p)"
    using assms by (simp add: c_read_def player_data_def player_ok_def nat_diff_distrib)
  with True show ?thesis by (simp add: audio_move_def)
next
  case False
  then have "ap_abpos p = ap_absize p" using assms by (simp add: player_ok_def)
  moreover from this have "player_data buf p = []" by (simp add: player_data_def)
  ultimately show ?thesis using audio_move_empty [of p buf] assms by (simp add: player_ok_def)
qed

lemma audio_fill_loop_stream:
  assumes "one_frame au pcm" "packet_queue_initialized g" "player_ok buf p" "packets_ok pcm (ap_queue p)"
    "length (aq_queue (ap_queue p)) < n" "length stream \<le> ssize"
  shows "\<exists>out p' buf'. audio_fill_loop n au g ssize stream buf p = Some (int (length out), out, p') \<and> ap_audiobuf p' = Some buf' \<and> player_ok buf' p' \<and>
    packets_ok pcm (ap_queue p') \<and>
    out = take ssize (stream @ player_data buf p @ queue_sound pcm p) \<and>
    player_data buf' p' @ queue_sound pcm p' = drop ssize (stream @ player_data buf p @ queue_sound pcm p)"
  using assms(3-)
proof (induction n arbitrary: stream buf p)
  case (Suc n)
  let ?need = "ssize - length stream"
  have len: "length (player_data buf p) = ap_absize p - ap_abpos p" using Suc.prems(1) by (auto simp: player_data_def player_ok_def min_def)
  consider "length stream = ssize" | "length stream < ssize" "ap_absize p - ap_abpos p \<ge> ?need"
    | "length stream < ssize" "ap_absize p - ap_abpos p < ?need" using Suc.prems(4) by linarith
  then show ?case
  proof cases
    case 1
    with Suc.prems show ?thesis by (intro exI [of _ stream] exI [of _ "p\<lparr>ap_audiobuf := Some buf\<rparr>"] exI [of _ buf])
        (simp add: player_data_def player_ok_def queue_sound_def)
  next
    case 2
    have r: "c_read buf (int (ap_abpos p)) (int ?need) = Some (take ?need (player_data buf p))"
      using 2 Suc.prems(1) by (auto simp: c_read_def player_data_def player_ok_def min_def nat_diff_distrib)
    let ?p = "p\<lparr>ap_audiobuf := Some buf, ap_abpos := ap_abpos p + ?need\<rparr>"
    have d: "player_data buf ?p = drop ?need (player_data buf p)" using 2 by (simp add: player_data_def drop_take add.commute)
    have l: "length (stream @ take ?need (player_data buf p)) = ssize" using 2 len by simp
    have r': "c_read buf (int (ap_abpos p)) (int ssize - int (length stream)) = Some (take ?need (player_data buf p))"
      using r 2 by (simp add: of_nat_diff)
    have le: "ap_abpos p + ssize - length stream \<le> ap_absize p" using 2 Suc.prems(1) by (simp add: player_ok_def)
    show ?thesis
      by (rule exI [of _ "stream @ take ?need (player_data buf p)"], rule exI [of _ ?p], rule exI [of _ buf])
        (use 2 Suc.prems l d len le in \<open>simp add: r' player_ok_def queue_sound_def\<close>)
  next
    case 3
    define p0 where "p0 = p\<lparr>ap_abpos := 0, ap_absize := 0\<rparr>"
    define stream0 where "stream0 = stream @ player_data buf p"
    have l0: "length stream0 < ssize" using 3 len by (simp add: stream0_def)
    have unf: "audio_fill_loop (Suc n) au g ssize stream buf p =
        (case packet_queue_get [] g (ap_queue p0) False of
           (r, pkt, q) \<Rightarrow>
             (if r \<le> 0 then Some (int (length stream0), stream0, p0\<lparr>ap_audiobuf := Some buf, ap_queue := q\<rparr>)
              else do {
                pkt \<leftarrow> pkt;
                (dsize, buf, c) \<leftarrow> audio_buffer_decode au pkt buf (int (ap_absize p0)) (int abmaxsize - int (ap_absize p0)) (ap_client p0);
                (let p = p0\<lparr>ap_queue := q, ap_client := c\<rparr>
                 in if dsize < 0 then Some (int (length stream0), stream0, p\<lparr>ap_audiobuf := Some buf\<rparr>)
                    else audio_fill_loop n au g ssize stream0 buf (p\<lparr>ap_absize := ap_absize p + nat dsize\<rparr>)) }))"
      unfolding audio_fill_loop.simps audio_take_out [OF Suc.prems(1)] stream0_def p0_def using 3 by simp
    show ?thesis
    proof (cases "aq_queue (ap_queue p)")
      case Nil
      have g: "packet_queue_get [] g (ap_queue p0) False = (0, None, ap_queue p0)"
        using assms(2) Nil by (simp add: packet_queue_get_def packet_queue_get_loop.simps p0_def)
      have st: "audio_fill_loop (Suc n) au g ssize stream buf p = Some (int (length stream0), stream0, p0\<lparr>ap_audiobuf := Some buf\<rparr>)"
        unfolding unf g by (simp add: p0_def)
      have "player_data buf p0 = []" "queue_sound pcm p0 = []" "queue_sound pcm p = []"
        using Nil by (simp_all add: player_data_def queue_sound_def p0_def)
      moreover have "player_data buf (p0\<lparr>ap_audiobuf := Some buf\<rparr>) = player_data buf p0" "queue_sound pcm (p0\<lparr>ap_audiobuf := Some buf\<rparr>) = queue_sound pcm p0"
        by (simp_all add: player_data_def queue_sound_def)
      ultimately show ?thesis unfolding st
        by (intro exI [of _ stream0] exI [of _ "p0\<lparr>ap_audiobuf := Some buf\<rparr>"] exI [of _ buf])
          (use l0 Suc.prems in \<open>simp add: player_ok_def p0_def flip: stream0_def append_assoc\<close>)
    next
      case (Cons pkt pkts)
      define q where "q = (ap_queue p)\<lparr>aq_queue := pkts, aq_size := aq_size (ap_queue p) - int (length pkt)\<rparr>"
      have g: "packet_queue_get [] g (ap_queue p0) False = (1, Some pkt, q)"
        using assms(2) Cons by (simp add: packet_queue_get_def packet_queue_get_loop.simps p0_def q_def)
      have pk: "pkt \<noteq> []" "length (pcm pkt) \<le> abmaxsize" "packets_ok pcm q" using Suc.prems(2) Cons by (simp_all add: packets_ok_def q_def)
      have lb: "length buf = abmaxsize" using Suc.prems(1) by (simp add: player_ok_def)
      obtain buf1 c1 where d: "audio_buffer_decode au pkt buf 0 (int abmaxsize) (ap_client p0) = Some (int (length (pcm pkt)), buf1, c1)"
        "c_write buf 0 (pcm pkt) = Some buf1"
        using decode_one_frame [OF assms(1) pk(1), of 0 "int abmaxsize" buf "ap_client p0"] pk(2) lb by auto
      define p1 where "p1 = p0\<lparr>ap_queue := q, ap_client := c1, ap_absize := length (pcm pkt)\<rparr>"
      have b1: "length buf1 = abmaxsize" "take (length (pcm pkt)) buf1 = pcm pkt"
        using c_write_length [OF d(2)] d(2) lb by (auto simp: c_write_def split: if_splits)
      have ok1: "player_ok buf1 p1" "player_data buf1 p1 = pcm pkt" using b1 pk(2) by (simp_all add: player_ok_def player_data_def p1_def p0_def)
      have s1: "pcm pkt @ queue_sound pcm p1 = queue_sound pcm p" using Cons by (simp add: queue_sound_def p1_def q_def)
      have st: "audio_fill_loop (Suc n) au g ssize stream buf p = audio_fill_loop n au g ssize stream0 buf1 p1"
        unfolding unf g using d(1) by (simp add: p1_def p0_def Let_def)
      have "length (aq_queue (ap_queue p1)) < n" using Suc.prems(3) Cons by (simp add: p1_def q_def)
      with Suc.IH [OF ok1(1), of stream0] pk(3) l0 show ?thesis unfolding st ok1(2) s1 stream0_def by (simp add: p1_def)
    qed
  qed
qed simp


definition pcm_codec :: "unit audio_codec" where
  "pcm_codec = \<lparr>au_decode = (\<lambda>st pkt. ((int (length pkt), Some \<lparr>af_same = True, af_data = pkt, af_datalen = int (length pkt), af_device_datalen = 0\<rparr>), st)),
     au_alloc = True, au_init = True, au_max = 0, au_malloc = True, au_convert = af_data\<rparr>"


end
