(* ===== verification/ClientDecoders.thy ===== *)
theory ClientDecoders
  imports ClientAudio GaCommon RtspConf
begin

text \<open>
  The decoders of the client: the search for a codec (\<open>core/ga-avcodec.cpp\<close>), the parameter sets of the session
  description that become the extra data of the video decoder, and the set-up of both decoders
  (\<open>client/rtspclient.cpp\<close>). FFmpeg's codec list, its allocators and its base64 decoder are parameters. The log and
  the optional recording are left out.
\<close>

section \<open>The search for a decoder\<close>

definition ga_avcodec_find_decoder :: "(string \<Rightarrow> nat option) \<Rightarrow> (codec_id \<Rightarrow> nat option) \<Rightarrow> string list option \<Rightarrow> codec_id \<Rightarrow> nat option" where
  "ga_avcodec_find_decoder by_name by_id names cid =
     (case (case names of None \<Rightarrow> None | Some ns \<Rightarrow> List.find (\<lambda>n. by_name n \<noteq> None) ns) of
        Some n \<Rightarrow> by_name n
      | None \<Rightarrow> if cid \<noteq> AV_CODEC_ID_NONE then by_id cid else None)"

section \<open>The parameter sets of the session description\<close>

text \<open>The base64 decoder: the result, and the bytes it has stored.\<close>

type_synonym base64_decoder = "string \<Rightarrow> nat \<Rightarrow> int \<times> byte list"

definition startcode :: "byte list" where "startcode = [0, 0, 0, 1]"

text \<open>One element: its bytes behind a start code, unless it has one.\<close>

definition sprop_element :: "int \<Rightarrow> byte list \<Rightarrow> byte list \<Rightarrow> int \<Rightarrow> (byte list \<times> int) option" where
  "sprop_element blen tmpbuf extra extrasize =
     (if blen > 0 then do {
        head \<leftarrow> c_read tmpbuf 0 4;
        (extra, offset) \<leftarrow> (if head \<noteq> startcode then do { extra \<leftarrow> c_write extra extrasize startcode; Some (extra, 4) } else Some (extra, 0));
        bytes \<leftarrow> c_read tmpbuf 0 blen;
        extra \<leftarrow> c_write extra (extrasize + offset) bytes;
        Some (extra, extrasize + offset + blen) }
      else Some (extra, extrasize))"

lemma sprop_rest_shorter: "s0 \<noteq> [] \<Longrightarrow> length (drop 1 (dropWhile P s0)) < length s0"
proof -
  assume "s0 \<noteq> []"
  then have "0 < length s0" by simp
  with length_dropWhile_le [of P s0] show ?thesis by (simp only: length_drop)
qed

function sprop_loop :: "base64_decoder \<Rightarrow> nat \<Rightarrow> string \<Rightarrow> byte list \<Rightarrow> byte list \<Rightarrow> int \<Rightarrow> (byte list \<times> int) option" where
  "sprop_loop b64 spropsize s0 tmpbuf extra extrasize =
     (if s0 = [] then Some (extra, extrasize)
      else let (blen, out) = b64 (takeWhile (\<lambda>c. c \<noteq> CHR '','') s0) spropsize
           in do {
             tmpbuf \<leftarrow> c_write tmpbuf 0 out;
             (extra, extrasize) \<leftarrow> sprop_element blen tmpbuf extra extrasize;
             sprop_loop b64 spropsize (drop 1 (dropWhile (\<lambda>c. c \<noteq> CHR '','') s0)) tmpbuf extra extrasize })"
  by pat_completeness auto

termination
  by (relation "measure (\<lambda>(_, _, s0, _). length s0)") (auto dest: sprop_rest_shorter)

declare sprop_loop.simps [simp del]

text \<open>The memory that \<open>malloc\<close> gives has room for the old extra data and three bytes for each character.\<close>

definition sprop_sizemax :: "byte list option \<Rightarrow> string \<Rightarrow> nat" where
  "sprop_sizemax extradata sprop = (case extradata of None \<Rightarrow> 0 | Some xs \<Rightarrow> length xs) + length sprop * 3"

definition decode_sprop :: "base64_decoder \<Rightarrow> byte list \<Rightarrow> byte list option \<Rightarrow> string \<Rightarrow> (bool \<times> byte list option) option" where
  "decode_sprop b64 mem extradata sprop =
     (let tmpbuf = map (\<lambda>c. of_char c) sprop @ [0]; old = (case extradata of None \<Rightarrow> [] | Some xs \<Rightarrow> xs)
      in do {
        extra \<leftarrow> c_write mem 0 old;
        (extra, extrasize) \<leftarrow> sprop_loop b64 (length sprop) sprop tmpbuf extra (int (length old));
        Some (if extrasize > 0 then (True, Some (take (nat extrasize) extra)) else (False, extradata)) })"

section \<open>Decoders\<close>

record decoder_context =
  dc_codec :: nat
  dc_truncated :: bool
  dc_extradata :: "byte list option"
  dc_channels :: int
  dc_samplerate :: int
  dc_layout :: int

record decoder_env =
  de_by_name :: "string \<Rightarrow> nat option"
  de_by_id :: "codec_id \<Rightarrow> nat option"
  de_frame :: bool
  de_context :: "nat \<Rightarrow> bool"
  de_truncated :: "nat \<Rightarrow> bool"
  de_base64 :: base64_decoder
  de_malloc :: "nat \<Rightarrow> byte list"
  de_open :: "decoder_context \<Rightarrow> bool"

text \<open>What the client knows of the streams, and the decoders of the channels.\<close>

record client_media =
  video_sess_fmt :: int
  audio_sess_fmt :: int
  video_codec_name :: "string option"
  audio_codec_name :: "string option"
  video_codec_id :: codec_id
  audio_codec_id :: codec_id
  vdecoder :: "decoder_context option list"
  vframe_alloc :: "bool list"
  adecoder :: "decoder_context option"
  audio_globals :: packet_queue_globals
  audioq :: packet_queue

definition VIDEO_SOURCE_CHANNELS :: nat where "VIDEO_SOURCE_CHANNELS = 2"

definition new_context :: "decoder_env \<Rightarrow> nat \<Rightarrow> decoder_context option" where
  "new_context env codec = (if de_context env codec then
     Some \<lparr>dc_codec = codec, dc_truncated = False, dc_extradata = None, dc_channels = 0, dc_samplerate = 0, dc_layout = 0\<rparr> else None)"

text \<open>The parameter sets are only used when they could be decoded.\<close>

definition context_sprop :: "decoder_env \<Rightarrow> string option \<Rightarrow> decoder_context \<Rightarrow> decoder_context option" where
  "context_sprop env sprop ctx =
     (case sprop of
        None \<Rightarrow> Some ctx
      | Some s \<Rightarrow> do {
          (ok, extradata) \<leftarrow> decode_sprop (de_base64 env) (de_malloc env (sprop_sizemax (dc_extradata ctx) s)) (dc_extradata ctx) s;
          Some (ctx\<lparr>dc_extradata := extradata\<rparr>) })"

text \<open>A store behind the end of the arrays is undefined. The last channel number that is let through is the number of
  the channels.\<close>

definition init_vdecoder :: "decoder_env \<Rightarrow> nat \<Rightarrow> string option \<Rightarrow> client_media \<Rightarrow> (int \<times> client_media) option" where
  "init_vdecoder env channel sprop m =
     (if channel > VIDEO_SOURCE_CHANNELS then Some (-1, m)
      else case video_codec_name m of
        None \<Rightarrow> Some (-1, m)
      | Some name \<Rightarrow>
          (case ga_lookup_ffmpeg_decoders name of
             None \<Rightarrow> Some (-1, m)
           | Some names \<Rightarrow>
               (let m = m\<lparr>video_codec_id := ga_lookup_codec_id name\<rparr>
                in case ga_avcodec_find_decoder (de_by_name env) (de_by_id env) (Some names) AV_CODEC_ID_NONE of
                     None \<Rightarrow> Some (-1, m)
                   | Some codec \<Rightarrow>
                       if \<not> de_frame env then Some (-1, m)
                       else case new_context env codec of
                         None \<Rightarrow> Some (-1, m)
                       | Some ctx \<Rightarrow> do {
                           ctx \<leftarrow> context_sprop env sprop (ctx\<lparr>dc_truncated := de_truncated env codec\<rparr>);
                           if \<not> de_open env ctx then Some (-1, m)
                           else if channel < length (vdecoder m) \<and> channel < length (vframe_alloc m)
                           then Some (0, m\<lparr>vdecoder := (vdecoder m)[channel := Some ctx], vframe_alloc := (vframe_alloc m)[channel := True]\<rparr>)
                           else None })))"

definition AV_CH_LAYOUT_MONO :: int where "AV_CH_LAYOUT_MONO = 4"
definition AV_CH_LAYOUT_STEREO :: int where "AV_CH_LAYOUT_STEREO = 3"

definition init_adecoder :: "decoder_env \<Rightarrow> ga_conf \<Rightarrow> rtspconf \<Rightarrow> client_media \<Rightarrow> (int \<times> client_media) option" where
  "init_adecoder env conf rc m =
     (case audio_codec_name m of
        None \<Rightarrow> Some (-1, m)
      | Some name \<Rightarrow>
          (case ga_lookup_ffmpeg_decoders name of
             None \<Rightarrow> Some (-1, m)
           | Some names \<Rightarrow>
               (let m = m\<lparr>audio_codec_id := ga_lookup_codec_id name\<rparr>
                in case ga_avcodec_find_decoder (de_by_name env) (de_by_id env) (Some names) AV_CODEC_ID_NONE of
                     None \<Rightarrow> Some (-1, m)
                   | Some codec \<Rightarrow> do {
                       (g, q) \<leftarrow> packet_queue_init conf (audio_globals m) (audioq m);
                       (let m = m\<lparr>audio_globals := g, audioq := q\<rparr>
                        in if \<not> de_frame env then Some (-1, m)
                           else case new_context env codec of
                             None \<Rightarrow> Some (-1, m)
                           | Some ctx \<Rightarrow>
                               (let ctx = ctx\<lparr>dc_channels := audio_channels rc, dc_samplerate := audio_samplerate rc\<rparr>
                                in if dc_channels ctx \<noteq> 1 \<and> dc_channels ctx \<noteq> 2 then Some (-1, m)
                                   else let ctx = ctx\<lparr>dc_layout := (if dc_channels ctx = 1 then AV_CH_LAYOUT_MONO else AV_CH_LAYOUT_STEREO)\<rparr>
                                        in if \<not> de_open env ctx then Some (-1, m)
                                           else Some (0, m\<lparr>adecoder := Some ctx\<rparr>))) })))"

section \<open>Properties\<close>

subsection \<open>The extra data\<close>

text \<open>What the base64 decoder promises: it stores no more than the room given and than three bytes for four
  characters, and the result is the number of them or an error.\<close>

definition base64_bounded :: "base64_decoder \<Rightarrow> bool" where
  "base64_bounded b64 = (\<forall>s k. length (snd (b64 s k)) \<le> k \<and> fst (b64 s k) \<le> int (length (snd (b64 s k))) \<and> 4 * fst (b64 s k) \<le> 3 * int (length s))"

lemma sprop_element_defined:
  assumes "4 \<le> length tmpbuf" "blen \<le> int (length tmpbuf)" "0 \<le> n" "blen > 0 \<Longrightarrow> n + 4 + blen \<le> int (length extra)"
  shows "\<exists>extra' n'. sprop_element blen tmpbuf extra n = Some (extra', n') \<and> length extra' = length extra \<and>
    n \<le> n' \<and> (if blen > 0 then n' \<le> n + 4 + blen else n' = n)"
proof (cases "blen > 0")
  case False
  then show ?thesis by (simp add: sprop_element_def)
next
  case True
  obtain h where h: "c_read tmpbuf 0 4 = Some h" using assms(1) by (simp add: c_read_def)
  obtain bytes where b: "c_read tmpbuf 0 blen = Some bytes" using True assms(2) by (simp add: c_read_def)
  have lb: "int (length bytes) = blen" by (rule c_read_SomeD [OF b])
  have at: "\<exists>e'. c_write e off bytes = Some e' \<and> length e' = length extra"
    if "length e = length extra" "off = n \<or> off = n + 4" for e off
    using c_write_defined [of off bytes e] that assms(3,4) True lb by auto
  obtain e where e: "c_write extra n startcode = Some e" "length e = length extra"
    using c_write_defined [of n startcode extra] assms(3,4) True by (auto simp: startcode_def)
  obtain e1 e2 where "c_write e (n + 4) bytes = Some e1" "length e1 = length extra" "c_write extra n bytes = Some e2" "length e2 = length extra"
    using at [of e "n + 4"] at [of extra n] e(2) by auto
  with True h b e show ?thesis
    by (cases "h = startcode") (simp_all add: sprop_element_def)
qed

lemma sprop_loop_defined:
  assumes "base64_bounded b64" "4 \<le> length tmpbuf" "k < length tmpbuf" "0 \<le> n" "n + 3 * int (length s0) \<le> int (length extra)"
  shows "\<exists>extra' n'. sprop_loop b64 k s0 tmpbuf extra n = Some (extra', n') \<and> length extra' = length extra \<and> n \<le> n' \<and> n' \<le> n + 3 * int (length s0)"
  using assms(2-5)
proof (induction "length s0" arbitrary: s0 tmpbuf extra n rule: less_induct)
  case less
  show ?case
  proof (cases "s0 = []")
    case True
    then show ?thesis by (simp add: sprop_loop.simps)
  next
    case False
    define el where "el = takeWhile (\<lambda>c. c \<noteq> CHR '','') s0"
    define rest where "rest = drop 1 (dropWhile (\<lambda>c. c \<noteq> CHR '','') s0)"
    obtain blen out where bo: "b64 el k = (blen, out)" by fastforce
    have b: "length out \<le> k" "blen \<le> int (length out)" "4 * blen \<le> 3 * int (length el)"
      using assms(1) bo unfolding base64_bounded_def by (metis fst_conv snd_conv)+
    obtain tmp' where t: "c_write tmpbuf 0 out = Some tmp'" "length tmp' = length tmpbuf"
      using c_write_defined [of 0 out tmpbuf] b(1) less.prems(2) by auto
    have len: "length el + length rest \<le> length s0" "length rest < length s0"
      using arg_cong [OF takeWhile_dropWhile_id [of "\<lambda>c. c \<noteq> CHR '','' " s0], of length] sprop_rest_shorter [OF False]
      unfolding el_def rest_def by (auto simp del: takeWhile_dropWhile_id)
    have room: "blen > 0 \<Longrightarrow> 4 + blen \<le> 3 * int (length el)" using b(3) by presburger
    obtain e1 n1 where e1: "sprop_element blen tmp' extra n = Some (e1, n1)" "length e1 = length extra" "n \<le> n1"
      "if blen > 0 then n1 \<le> n + 4 + blen else n1 = n"
      using sprop_element_defined [of tmp' blen n extra] less.prems b room len t by fastforce
    have n1: "n1 \<le> n + 3 * int (length el)" using e1(4) room by (auto split: if_splits)
    have "\<exists>extra' n'. sprop_loop b64 k rest tmp' e1 n1 = Some (extra', n') \<and> length extra' = length e1 \<and> n1 \<le> n' \<and> n' \<le> n1 + 3 * int (length rest)"
    proof (rule less.hyps)
      show "length rest < length s0" "4 \<le> length tmp'" "k < length tmp'" "0 \<le> n1" using len less.prems t(2) e1(3) by simp_all
      show "n1 + 3 * int (length rest) \<le> int (length e1)" using len(1) less.prems(4) e1(2) n1 by linarith
    qed
    then show ?thesis using False bo t(1) e1 n1 len unfolding el_def rest_def by (subst sprop_loop.simps) fastforce
  qed
qed

text \<open>The buffer for the decoded parameter sets is large enough: for every description of at least three characters, whatever
  commas and start codes it has, the elements with their start codes stay within the memory of three bytes for
  each character behind the old extra data, and the decoder's context gets at most that many bytes.\<close>

lemma decode_sprop_defined:
  assumes "base64_bounded b64" "3 \<le> length sprop" "length mem = sprop_sizemax extradata sprop"
  shows "\<exists>ok ed. decode_sprop b64 mem extradata sprop = Some (ok, ed) \<and> (\<forall>xs. ok \<and> ed = Some xs \<longrightarrow> length xs \<le> sprop_sizemax extradata sprop)"
proof -
  define old where "old = (case extradata of None \<Rightarrow> [] | Some xs \<Rightarrow> xs)"
  define tmpbuf :: "byte list" where "tmpbuf = map (\<lambda>c. of_char c) sprop @ [0]"
  have m: "length mem = length old + 3 * length sprop" using assms(3) by (auto simp: sprop_sizemax_def old_def split: option.splits)
  obtain extra where e: "c_write mem 0 old = Some extra" "length extra = length mem" using c_write_defined [of 0 old mem] m by auto
  obtain extra' n' where l: "sprop_loop b64 (length sprop) sprop tmpbuf extra (int (length old)) = Some (extra', n')"
    "length extra' = length extra" "n' \<le> int (length old) + 3 * int (length sprop)"
    using sprop_loop_defined [OF assms(1), of tmpbuf "length sprop" "int (length old)" sprop extra] assms(2) m e(2) by (auto simp: tmpbuf_def)
  have d: "decode_sprop b64 mem extradata sprop = Some (if n' > 0 then (True, Some (take (nat n') extra')) else (False, extradata))"
    using e(1) l(1) by (simp add: decode_sprop_def Let_def flip: old_def tmpbuf_def)
  have n: "nat n' \<le> sprop_sizemax extradata sprop" using l(3) m assms(3) by linarith
  show ?thesis
  proof (cases "n' > 0")
    case True
    with n show ?thesis unfolding d by (intro exI [of _ True] exI [of _ "Some (take (nat n') extra')"]) simp
  next
    case False
    then show ?thesis unfolding d by (intro exI [of _ False] exI [of _ extradata]) simp
  qed
qed

definition sprop_example :: "(string \<times> byte list) list" where
  "sprop_example = [(''Z0LAHg=='', [0x67, 0x42, 0xC0, 0x1E]), (''aM48gA=='', [0x68, 0xCE, 0x3C, 0x80])]"

definition example_base64 :: base64_decoder where
  "example_base64 s k = (case map_of sprop_example s of None \<Rightarrow> (-1, []) | Some n \<Rightarrow> if length n \<le> k then (int (length n), n) else (-1, []))"

lemma example_base64_bounded: "base64_bounded example_base64"
proof -
  have "length s = 8 \<and> length n = 4" if "map_of sprop_example s = Some n" for s n
    using that by (auto simp: sprop_example_def split: if_splits)
  then show ?thesis by (fastforce simp: base64_bounded_def example_base64_def split: option.split)
qed

subsection \<open>The parameter sets arrive\<close>

text \<open>A description: the elements separated by commas.\<close>

fun sprop_text :: "(string \<times> byte list) list \<Rightarrow> string" where
  "sprop_text [] = []"
| "sprop_text [(s, n)] = s"
| "sprop_text ((s, n) # ps) = s @ CHR '','' # sprop_text ps"

definition sprop_codes :: "base64_decoder \<Rightarrow> nat \<Rightarrow> string \<times> byte list \<Rightarrow> bool" where
  "sprop_codes b64 k p = (CHR '','' \<notin> set (fst p) \<and> b64 (fst p) k = (int (length (snd p)), snd p) \<and> 4 * length (snd p) \<le> 3 * length (fst p) \<and>
     4 \<le> length (snd p) \<and> take 4 (snd p) \<noteq> startcode)"

definition sprop_units :: "(string \<times> byte list) list \<Rightarrow> byte list" where
  "sprop_units ps = concat (map (\<lambda>p. startcode @ snd p) ps)"

lemma sprop_text_Cons: "sprop_text (p # ps) = fst p @ (if ps = [] then [] else CHR '','' # sprop_text ps)"
  by (cases p; cases ps) auto

lemma sprop_element_unit:
  assumes "4 \<le> length n" "take 4 n \<noteq> startcode" "4 + length n \<le> length post"
  shows "sprop_element (int (length n)) (n @ t) (pre @ post) (int (length pre)) =
    Some ((pre @ startcode @ n) @ drop (4 + length n) post, int (length (pre @ startcode @ n)))"
proof -
  have h: "c_read (n @ t) 0 4 = Some (take 4 n)" using assms(1) by (simp add: c_read_def)
  have b: "c_read (n @ t) 0 (int (length n)) = Some n" by (simp add: c_read_def)
  have w1: "c_write (pre @ post) (int (length pre)) startcode = Some ((pre @ startcode) @ drop 4 post)"
    using c_write_append [of "int (length pre)" pre startcode post] assms(3) by (simp add: startcode_def numeral_eq_Suc)
  have w2: "c_write ((pre @ startcode) @ drop 4 post) (int (length pre) + 4) n = Some (((pre @ startcode) @ n) @ drop (length n) (drop 4 post))"
    by (rule c_write_append) (use assms(3) in \<open>simp_all add: startcode_def\<close>)
  have "n \<noteq> []" using assms(1) by auto
  then show ?thesis using assms(1,2) h b w1 w2 by (simp add: sprop_element_def startcode_def [symmetric] add.commute) (simp add: startcode_def)
qed

lemma sprop_loop_units:
  assumes "\<forall>p \<in> set ps. sprop_codes b64 k p \<and> length (snd p) \<le> length tmpbuf" "3 * length (sprop_text ps) \<le> length post"
  shows "\<exists>post'. sprop_loop b64 k (sprop_text ps) tmpbuf (pre @ post) (int (length pre)) =
    Some ((pre @ sprop_units ps) @ post', int (length (pre @ sprop_units ps)))"
  using assms
proof (induction ps arbitrary: tmpbuf pre post)
  case Nil
  then show ?case by (simp add: sprop_loop.simps sprop_units_def)
next
  case (Cons p ps)
  obtain s n where p: "p = (s, n)" by fastforce
  have c: "CHR '','' \<notin> set s" "b64 s k = (int (length n), n)" "4 * length n \<le> 3 * length s" "4 \<le> length n" "take 4 n \<noteq> startcode" "length n \<le> length tmpbuf"
    using Cons.prems(1) by (simp_all add: p sprop_codes_def)
  have s: "takeWhile (\<lambda>c. c \<noteq> CHR '','') (sprop_text (p # ps)) = s"
    "drop 1 (dropWhile (\<lambda>c. c \<noteq> CHR '','') (sprop_text (p # ps))) = sprop_text ps"
    using c(1) by (auto simp: sprop_text_Cons p takeWhile_append dropWhile_append)
  have w: "c_write tmpbuf 0 n = Some (n @ drop (length n) tmpbuf)" using c(6) by (simp add: c_write_def)
  have e: "sprop_element (int (length n)) (n @ drop (length n) tmpbuf) (pre @ post) (int (length pre)) =
      Some ((pre @ startcode @ n) @ drop (4 + length n) post, int (length (pre @ startcode @ n)))"
    by (rule sprop_element_unit) (use c Cons.prems(2) in \<open>auto simp: sprop_text_Cons p\<close>)
  have ih: "\<exists>post'. sprop_loop b64 k (sprop_text ps) (n @ drop (length n) tmpbuf) ((pre @ startcode @ n) @ drop (4 + length n) post) (int (length (pre @ startcode @ n))) =
      Some (((pre @ startcode @ n) @ sprop_units ps) @ post', int (length ((pre @ startcode @ n) @ sprop_units ps)))"
    by (rule Cons.IH) (use c Cons.prems in \<open>auto simp: sprop_text_Cons p split: if_splits\<close>)
  have "sprop_text (p # ps) \<noteq> []" using c(3,4) by (auto simp: sprop_text_Cons p)
  then have "sprop_loop b64 k (sprop_text (p # ps)) tmpbuf (pre @ post) (int (length pre)) =
      sprop_loop b64 k (sprop_text ps) (n @ drop (length n) tmpbuf) ((pre @ startcode @ n) @ drop (4 + length n) post) (int (length (pre @ startcode @ n)))"
    by (subst sprop_loop.simps) (simp only: s c(2) w e prod.case if_False Option.bind.simps Let_def split)
  with ih show ?case by (simp add: sprop_units_def p)
qed

text \<open>C33. The parameter sets of the description reach the decoder: when base64 decodes every element to its NAL unit, the extra data of the
  context is each unit in its order behind a start code, for any number of units that have no start code of their own.\<close>

theorem decode_sprop_units:
  assumes "ps \<noteq> []" "\<forall>p \<in> set ps. sprop_codes b64 (length (sprop_text ps)) p" "length mem = 3 * length (sprop_text ps)"
  shows "decode_sprop b64 mem None (sprop_text ps) = Some (True, Some (sprop_units ps))"
proof -
  define tmpbuf :: "byte list" where "tmpbuf = map (\<lambda>c. of_char c) (sprop_text ps) @ [0]"
  have "length (fst p) \<le> length (sprop_text ps)" if "p \<in> set ps" for p
    using that by (induction ps) (auto simp: sprop_text_Cons)
  then have "\<forall>p \<in> set ps. sprop_codes b64 (length (sprop_text ps)) p \<and> length (snd p) \<le> length tmpbuf"
    using assms(2) by (fastforce simp: sprop_codes_def tmpbuf_def)
  then obtain post' where l: "sprop_loop b64 (length (sprop_text ps)) (sprop_text ps) tmpbuf mem 0 =
      Some (sprop_units ps @ post', int (length (sprop_units ps)))"
    using sprop_loop_units [of ps b64 "length (sprop_text ps)" tmpbuf mem "[]"] assms(3) by auto
  have "sprop_units ps \<noteq> []" using assms(1) by (cases ps) (simp_all add: sprop_units_def startcode_def)
  with l show ?thesis by (simp add: decode_sprop_def c_write_def Let_def flip: tmpbuf_def)
qed

theorem decode_sprop_units_witness:
  "decode_sprop example_base64 (replicate 51 0) None ''Z0LAHg==,aM48gA=='' =
     Some (True, Some [0, 0, 0, 1, 0x67, 0x42, 0xC0, 0x1E, 0, 0, 0, 1, 0x68, 0xCE, 0x3C, 0x80])"
  using decode_sprop_units [of sprop_example example_base64 "replicate 51 0"]
  by (simp add: sprop_example_def sprop_codes_def example_base64_def startcode_def sprop_units_def)

end
