(* ===== verification/ClientQos.thy ===== *)
theory ClientQos
  imports GaCommon Complex_Main
begin

text \<open>
  The reception reports of the client, \<open>client/qosreport.cpp\<close>: the table of sources, the report that live555's scheduler runs
  every 30 seconds, and its scheduling. The counters of the receiver and the clock are arguments; kilobytes, a
  \<open>double\<close> of the source, are exact here. The text of a report is its numbers.
\<close>

section \<open>The table of sources\<close>

record qos_record =
  q_prefix :: string
  q_rtpsrc :: nat
  q_pkts_expected :: u32
  q_pkts_received :: u32
  q_KB_received :: real

text \<open>The state of the module; the task is its delay in microseconds.\<close>

record qos_state =
  qos_env :: bool
  qos_task :: "int option"
  qrec :: "qos_record list"
  qos_tv :: timeval

definition Q_MAX :: nat where "Q_MAX = 3"
definition QOS_INTERVAL_MS :: int where "QOS_INTERVAL_MS = 30 * 1000"
definition QOS_PREFIX_LEN :: nat where "QOS_PREFIX_LEN = 64"

definition qos_init :: "bool \<Rightarrow> qos_state \<Rightarrow> qos_state" where
  "qos_init ue q = q\<lparr>qos_env := ue, qrec := []\<rparr>"

text \<open>The table is cleared by \<open>qos_init\<close>, so a new record has no counts.\<close>

definition qos_add_source :: "string \<Rightarrow> nat option \<Rightarrow> qos_state \<Rightarrow> int \<times> qos_state" where
  "qos_add_source prefix rtpsrc q =
     (if length (qrec q) \<ge> Q_MAX then (-1, q)
      else case rtpsrc of
        None \<Rightarrow> (-1, q)
      | Some src \<Rightarrow> (0, q\<lparr>qrec := qrec q @
          [\<lparr>q_prefix = take (QOS_PREFIX_LEN - 1) prefix, q_rtpsrc = src, q_pkts_expected = 0, q_pkts_received = 0, q_KB_received = 0\<rparr>]\<rparr>))"

section \<open>Scheduling\<close>

definition qos_schedule :: "timeval \<Rightarrow> qos_state \<Rightarrow> qos_state" where
  "qos_schedule now q =
     (let usec = tv_usec (qos_tv q) + QOS_INTERVAL_MS * 1000;
          timeout = \<lparr>tv_sec = tv_sec (qos_tv q) + usec div 1000000, tv_usec = usec mod 1000000\<rparr>
      in q\<lparr>qos_task := Some (tvdiff_us timeout now)\<rparr>)"

text \<open>The clock is read twice.\<close>

definition qos_start :: "timeval \<Rightarrow> timeval \<Rightarrow> qos_state \<Rightarrow> int \<times> qos_state" where
  "qos_start now now2 q =
     (if \<not> qos_env q then (-1, q) else if qrec q = [] then (0, q) else (0, qos_schedule now2 (q\<lparr>qos_tv := now\<rparr>)))"

definition qos_deinit :: "qos_state \<Rightarrow> qos_state" where
  "qos_deinit q = q\<lparr>qos_task := None, qos_env := False, qrec := []\<rparr>"

section \<open>The report\<close>

text \<open>The counters of a source: packets expected, packets received, kilobytes.\<close>

type_synonym reception_stats = "u32 \<times> u32 \<times> real"

record qos_line =
  ql_prefix :: string
  ql_KB :: real
  ql_lost :: u32
  ql_expected :: u32

definition qos_report_source :: "(nat \<Rightarrow> reception_stats option) \<Rightarrow> qos_record \<Rightarrow> qos_record \<times> qos_line list" where
  "qos_report_source stats r =
     (case stats (q_rtpsrc r) of
        None \<Rightarrow> (r, [])
      | Some (pkts_expected, pkts_received, KB_received) \<Rightarrow>
          (let dExp = pkts_expected - q_pkts_expected r;
               dRcvd = pkts_received - q_pkts_received r;
               dKB = KB_received - q_KB_received r
           in (r\<lparr>q_pkts_expected := pkts_expected, q_pkts_received := pkts_received, q_KB_received := KB_received\<rparr>,
               [\<lparr>ql_prefix = q_prefix r, ql_KB = dKB, ql_lost = dExp - dRcvd, ql_expected = dExp\<rparr>])))"

definition qos_report :: "(nat \<Rightarrow> reception_stats option) \<Rightarrow> timeval \<Rightarrow> timeval \<Rightarrow> qos_state \<Rightarrow> qos_state \<times> qos_line list" where
  "qos_report stats now now2 q =
     (let rs = map (qos_report_source stats) (qrec q)
      in (qos_schedule now2 (q\<lparr>qrec := map fst rs, qos_tv := now\<rparr>), concat (map snd rs)))"

section \<open>Properties\<close>

text \<open>The reports of a source over a run.\<close>

primrec qos_reports :: "(nat \<Rightarrow> reception_stats option) list \<Rightarrow> qos_record \<Rightarrow> qos_record \<times> qos_line list" where
  "qos_reports [] r = (r, [])"
| "qos_reports (st # sts) r = (let (r', ls) = qos_report_source st r; (r'', ls') = qos_reports sts r' in (r'', ls @ ls'))"

text \<open>The reports of a source add up: whatever the intervals, and whether or not the receiver had counters at each of them, the losses, the
  expected packets and the kilobytes printed sum up, in the 32-bit arithmetic of the counters, to what its record
  has advanced by; a report of the module prints each source in turn and sets the next one 30 seconds after it began.\<close>

theorem qos_reports_add_up:
  "case qos_reports sts r of (r', ls) \<Rightarrow>
     sum_list (map ql_expected ls) = q_pkts_expected r' - q_pkts_expected r \<and>
     sum_list (map ql_lost ls) = (q_pkts_expected r' - q_pkts_received r') - (q_pkts_expected r - q_pkts_received r) \<and>
     sum_list (map ql_KB ls) = q_KB_received r' - q_KB_received r \<and>
     qos_report st now now2 q = (q\<lparr>qrec := map (\<lambda>r. fst (qos_report_source st r)) (qrec q), qos_tv := now, qos_task := Some (tvdiff_us now now2 + 30000000)\<rparr>,
       concat (map (\<lambda>r. snd (qos_report_source st r)) (qrec q)))"
proof -
  have q: "qos_report st now now2 q = (q\<lparr>qrec := map (\<lambda>r. fst (qos_report_source st r)) (qrec q), qos_tv := now, qos_task := Some (tvdiff_us now now2 + 30000000)\<rparr>,
       concat (map (\<lambda>r. snd (qos_report_source st r)) (qrec q)))"
    by (simp add: qos_report_def qos_schedule_def QOS_INTERVAL_MS_def tvdiff_us_def Let_def comp_def algebra_simps minus_mod_eq_mult_div [symmetric])
  have "case qos_reports sts r of (r', ls) \<Rightarrow>
     sum_list (map ql_expected ls) = q_pkts_expected r' - q_pkts_expected r \<and>
     sum_list (map ql_lost ls) = (q_pkts_expected r' - q_pkts_received r') - (q_pkts_expected r - q_pkts_received r) \<and>
     sum_list (map ql_KB ls) = q_KB_received r' - q_KB_received r"
  proof (induction sts arbitrary: r)
    case Nil
    then show ?case by simp
  next
    case (Cons st sts)
    obtain r1 ls where s: "qos_report_source st r = (r1, ls)" by fastforce
    have "sum_list (map ql_expected ls) = q_pkts_expected r1 - q_pkts_expected r \<and>
       sum_list (map ql_lost ls) = (q_pkts_expected r1 - q_pkts_received r1) - (q_pkts_expected r - q_pkts_received r) \<and>
       sum_list (map ql_KB ls) = q_KB_received r1 - q_KB_received r"
      using s by (auto simp: qos_report_source_def Let_def split: option.splits)
    with Cons.IH [of r1] s show ?case by (auto simp: split: prod.splits)
  qed
  with q show ?thesis by (auto split: prod.splits)
qed

text \<open>At most three sources are watched.\<close>

lemma qos_add_source_bound: "length (qrec q) \<le> Q_MAX \<Longrightarrow> length (qrec (snd (qos_add_source p s q))) \<le> Q_MAX"
  by (auto simp: qos_add_source_def Q_MAX_def split: option.split)

end
