(* ===== verification/ClientVideo.thy ===== *)
theory ClientVideo
  imports Dpipe VConverter "HOL-Library.Sublist"
begin

text \<open>
  The video of the client, \<open>client/rtspclient.cpp\<close>: the collection of the fragments of a frame, the
  dropping of late frames, and the way of the decoded pictures into the frame pipe of the renderer. One
  channel is modelled; the decoder and swscale are parameters. Frame rate messages and the
  optional saving of pictures are left out.
\<close>

section \<open>Dropping late frames\<close>

record drop_vframe =
  tv_real_start :: timeval
  tv_stream_start :: timeval
  no_drop :: int

definition drop_vframe_zero :: drop_vframe where
  "drop_vframe_zero = \<lparr>tv_real_start = \<lparr>tv_sec = 0, tv_usec = 0\<rparr>, tv_stream_start = \<lparr>tv_sec = 0, tv_usec = 0\<rparr>, no_drop = 0\<rparr>"

text \<open>The contexts of both channels, and the limit.\<close>

definition drop_video_frame_init :: "int \<Rightarrow> drop_vframe list \<times> int" where
  "drop_video_frame_init max_delay_us = (replicate 2 drop_vframe_zero, max_delay_us)"

text \<open>The offset of the NAL header, \<open>None\<close> where the frame is not examined.\<close>

definition drop_nal_offset :: "byte list \<Rightarrow> int option option" where
  "drop_nal_offset buffer = do {
     b0 \<leftarrow> c_get buffer 0;
     b1 \<leftarrow> c_get buffer 1;
     b2 \<leftarrow> c_get buffer 2;
     b3 \<leftarrow> c_get buffer 3;
     Some (if b0 \<noteq> 0 \<and> b1 \<noteq> 0 then None
       else if b2 = 1 then Some 3 else if b2 = 0 \<and> b3 = 1 then Some 4 else None) }"

definition drop_video_frame :: "int \<Rightarrow> bool \<Rightarrow> timeval \<Rightarrow> byte list \<Rightarrow> timeval \<Rightarrow> drop_vframe \<Rightarrow> (bool \<times> drop_vframe) option" where
  "drop_video_frame max_delay h264 now buffer pts dv =
     (if max_delay \<le> 0 then Some (False, dv)
      else if tv_sec (tv_real_start dv) = 0 then Some (False, dv\<lparr>tv_real_start := now, tv_stream_start := pts\<rparr>)
      else if \<not> h264 then Some (False, dv)
      else do {
        nal \<leftarrow> drop_nal_offset buffer;
        (case nal of
           None \<Rightarrow> Some (False, dv)
         | Some offset \<Rightarrow> do {
             b \<leftarrow> c_get buffer offset;
             (let nalt = b AND 0x1f;
                  dv = dv\<lparr>no_drop := (if nalt = 0x1c then 2 else if nalt = 0x07 then 4 else if nalt = 0x08 then 3 else no_drop dv)\<rparr>;
                  dstream = tvdiff_us pts (tv_stream_start dv);
                  dreal = tvdiff_us now (tv_real_start dv);
                  dv = (if no_drop dv > 0 then dv\<lparr>no_drop := no_drop dv - 1\<rparr> else dv)
              in if dreal - dstream > max_delay \<and> \<not> no_drop dv > 0 then Some (True, dv) else Some (False, dv)) }) })"

section \<open>Decoding a frame\<close>

record vframe =
  vf_width :: int
  vf_height :: int
  vf_format :: int
  vf_data :: "byte list"

datatype video_event = Create_Overlay | Render_Image

record 's video_env =
  ve_max_delay :: int
  ve_h264 :: bool
  ve_decode :: "'s \<Rightarrow> byte list \<Rightarrow> (int \<times> vframe option) \<times> 's"
  ve_getContext :: "vconvcfg \<Rightarrow> nat"

text \<open>A channel: the parameters that the renderer shares, the pipe, the picture in each buffer of the pipe, the
  events pushed, and the state of the decoder.\<close>

record 's video_channel =
  vc_swsctx :: bool
  vc_width :: int
  vc_height :: int
  vc_format :: int
  vc_heap :: dheap
  vc_pipe :: dpipe_t
  vc_image :: "nat \<Rightarrow> vframe option"
  vc_events :: "video_event list"
  vc_conv :: converters
  vc_drop :: drop_vframe
  vc_decoder :: 's

text \<open>A decoded picture. \<open>Inl\<close> is the exit of the program; a NULL buffer is undefined.\<close>

definition picture_out :: "'s video_env \<Rightarrow> vframe \<Rightarrow> 's video_channel \<Rightarrow> (int + 's video_channel) option" where
  "picture_out env f c =
     (if \<not> vc_swsctx c then
        Some (Inr (c\<lparr>vc_width := vf_width f, vc_height := vf_height f, vc_format := vf_format f, vc_events := vc_events c @ [Create_Overlay]\<rparr>))
      else do {
        (b, h, d) \<leftarrow> dpipe_get (vc_heap c) (vc_pipe c);
        b \<leftarrow> b;
        (let (ok, conv) =
               (if vf_width f = vc_width c \<and> vf_height f = vc_height c \<and> vf_format f = vc_format c then (True, vc_conv c)
                else let (ctx, conv) = create_frame_converter (ve_getContext env) (vc_conv c) (vf_width f) (vf_height f) (vf_format f)
                           (vc_width c) (vc_height c) (vc_format c) in (ctx \<noteq> 0, conv))
         in if \<not> ok then Some (Inl (-1))
            else do {
              (h, d) \<leftarrow> dpipe_store h d b;
              Some (Inr (c\<lparr>vc_heap := h, vc_pipe := d, vc_image := (vc_image c)(b \<mapsto> f), vc_events := vc_events c @ [Render_Image], vc_conv := conv\<rparr>)) }) })"

text \<open>The decoder loop of \<open>play_video_priv\<close>: the bytes left. A decoder that consumes nothing is called again.\<close>

partial_function (option) video_decode_loop :: "'s video_env \<Rightarrow> byte list \<Rightarrow> 's video_channel \<Rightarrow> (int + int \<times> 's video_channel) option" where
  "video_decode_loop env pkt c =
     (if pkt = [] then Some (Inr (0, c))
      else let ((len, got), st) = ve_decode env (vc_decoder c) pkt; c = c\<lparr>vc_decoder := st\<rparr>
           in if len < 0 then Some (Inr (int (length pkt), c))
              else do {
                r \<leftarrow> (case got of None \<Rightarrow> Some (Inr c) | Some f \<Rightarrow> picture_out env f c);
                (case r of
                   Inl e \<Rightarrow> Some (Inl e)
                 | Inr c \<Rightarrow>
                     (if len > int (length pkt) then Some (Inr (int (length pkt) - len, c))
                      else video_decode_loop env (drop (nat len) pkt) c)) })"

definition play_video_priv :: "'s video_env \<Rightarrow> timeval \<Rightarrow> byte list \<Rightarrow> nat \<Rightarrow> timeval \<Rightarrow> 's video_channel \<Rightarrow> (int + int \<times> 's video_channel) option" where
  "play_video_priv env now buffer bufsize pts c = do {
     (dropped, dv) \<leftarrow> drop_video_frame (ve_max_delay env) (ve_h264 env) now buffer pts (vc_drop c);
     (let c = c\<lparr>vc_drop := dv\<rparr>
      in if dropped then Some (Inr (int bufsize, c))
         else do { pkt \<leftarrow> c_read buffer 0 (int bufsize); video_decode_loop env pkt c }) }"

section \<open>Collecting the fragments of a frame\<close>

definition PRIVATE_BUFFER_SIZE :: nat where "PRIVATE_BUFFER_SIZE = 1048576"

record decoder_buffer =
  db_privbuflen :: nat
  db_privbuf :: "byte list"
  db_lastpts :: timeval

text \<open>The memory that \<open>malloc\<close> gives for each channel with its address; the buffer begins at a multiple of 16.\<close>

primrec alloc_decoder_buffers :: "(nat \<times> byte list) option list \<Rightarrow> decoder_buffer list option" where
  "alloc_decoder_buffers [] = Some []"
| "alloc_decoder_buffers (m # ms) = do {
     (a, mem) \<leftarrow> m;
     dbs \<leftarrow> alloc_decoder_buffers ms;
     Some (\<lparr>db_privbuflen = 0, db_privbuf = drop (16 - a mod 16) mem, db_lastpts = \<lparr>tv_sec = 0, tv_usec = 0\<rparr>\<rparr> # dbs) }"

definition init_decoder_buffer :: "(nat \<times> byte list) option list \<Rightarrow> int \<times> decoder_buffer list" where
  "init_decoder_buffer mems = (case alloc_decoder_buffers mems of None \<Rightarrow> (-1, []) | Some dbs \<Rightarrow> (0, dbs))"

text \<open>What is collected is decoded; the bytes left are moved to the front.\<close>

definition flush_frame :: "'s video_env \<Rightarrow> timeval \<Rightarrow> decoder_buffer \<times> 's video_channel \<Rightarrow> (int + decoder_buffer \<times> 's video_channel) option" where
  "flush_frame env now s = (case s of (db, c) \<Rightarrow> do {
     r \<leftarrow> play_video_priv env now (db_privbuf db) (db_privbuflen db) (db_lastpts db) c;
     (case r of
        Inl e \<Rightarrow> Some (Inl e)
      | Inr (left, c) \<Rightarrow>
          (if left > 0 then do {
             xs \<leftarrow> c_read (db_privbuf db) (int (db_privbuflen db) - left) left;
             buf \<leftarrow> c_write (db_privbuf db) 0 xs;
             Some (Inr (db\<lparr>db_privbuf := buf, db_privbuflen := nat left\<rparr>, c)) }
           else Some (Inr (db\<lparr>db_privbuflen := 0\<rparr>, c)))) })"

text \<open>A new time stamp ends the frame before; \<open>then_do\<close> goes on after it.\<close>

definition then_do :: "('e + 'a) option \<Rightarrow> ('a \<Rightarrow> ('e + 'b) option) \<Rightarrow> ('e + 'b) option" where
  "then_do m k = do { r \<leftarrow> m; (case r of Inl e \<Rightarrow> Some (Inl e) | Inr x \<Rightarrow> k x) }"

definition play_video :: "'s video_env \<Rightarrow> timeval \<Rightarrow> byte list \<Rightarrow> timeval \<Rightarrow> bool \<Rightarrow> decoder_buffer \<times> 's video_channel \<Rightarrow>
    (int + decoder_buffer \<times> 's video_channel) option" where
  "play_video env now buffer pts marker s =
     (if buffer = [] then Some (Inr s)
      else then_do
        (if pts \<noteq> db_lastpts (fst s) then
           then_do (if db_privbuflen (fst s) > 0 then flush_frame env now s else Some (Inr s)) (\<lambda>(db, c). Some (Inr (db\<lparr>db_lastpts := pts\<rparr>, c)))
         else Some (Inr s))
        (\<lambda>(db, c).
           (if db_privbuflen db + length buffer \<le> PRIVATE_BUFFER_SIZE then do {
              buf \<leftarrow> c_write (db_privbuf db) (int (db_privbuflen db)) buffer;
              (let db = db\<lparr>db_privbuf := buf, db_privbuflen := db_privbuflen db + length buffer\<rparr>
               in if marker \<and> db_privbuflen db > 0 then flush_frame env now (db, c) else Some (Inr (db, c))) }
            else flush_frame env now (db, c))))"

section \<open>The sink\<close>

text \<open>The first 8 bytes of the receive buffer of a sink: a start code ends them for H.264 and H.265. The length of
  the framing is shared by all sinks.\<close>

definition dummy_sink :: "string \<Rightarrow> byte list \<Rightarrow> nat \<Rightarrow> byte list \<times> nat" where
  "dummy_sink codec mem framing =
     (if codec = ''H264'' \<or> codec = ''H265'' then (take 4 mem @ [0, 0, 0, 1], 4) else (mem, framing))"

definition sink_buffer :: "byte list \<Rightarrow> nat \<Rightarrow> byte list \<Rightarrow> byte list" where
  "sink_buffer header framing frame = drop (8 - framing) header @ frame"

section \<open>Properties\<close>

text \<open>A decoder that keeps a log of the bytes it has consumed, and that makes progress.\<close>

definition logging :: "('s \<Rightarrow> byte list \<Rightarrow> (int \<times> vframe option) \<times> 's) \<Rightarrow> 's \<times> byte list \<Rightarrow> byte list \<Rightarrow> (int \<times> vframe option) \<times> ('s \<times> byte list)" where
  "logging dec s pkt = (case s of (st, log) \<Rightarrow> case dec st pkt of ((len, got), st') \<Rightarrow> ((len, got), (st', log @ take (nat len) pkt)))"

definition progress :: "('s \<Rightarrow> byte list \<Rightarrow> (int \<times> vframe option) \<times> 's) \<Rightarrow> bool" where
  "progress dec = (\<forall>st pkt. pkt \<noteq> [] \<longrightarrow> fst (fst (dec st pkt)) \<noteq> 0)"

abbreviation consumed :: "('s \<times> byte list) video_channel \<Rightarrow> byte list" where
  "consumed c \<equiv> snd (vc_decoder c)"

text \<open>The pipe has a buffer for the decoder.\<close>

definition channel_ok :: "'s video_channel \<Rightarrow> bool" where
  "channel_ok c = (\<exists>ins outs. dpipe_rep (vc_heap c) (vc_pipe c) ins outs \<and> ins @ outs \<noteq> [])"

lemma picture_out_ok:
  assumes "channel_ok c"
  shows "picture_out env f c = Some (Inl (-1)) \<or> (\<exists>c'. picture_out env f c = Some (Inr c') \<and> channel_ok c' \<and> vc_decoder c' = vc_decoder c \<and> vc_drop c' = vc_drop c)"
proof (cases "vc_swsctx c")
  case False
  with assms show ?thesis by (simp add: picture_out_def channel_ok_def)
next
  case True
  obtain ins outs where rep: "dpipe_rep (vc_heap c) (vc_pipe c) ins outs" "ins @ outs \<noteq> []" using assms by (auto simp: channel_ok_def)
  obtain b bs where b: "ins @ outs = b # bs" using rep(2) by (cases "ins @ outs") auto
  obtain h d where g: "dpipe_get (vc_heap c) (vc_pipe c) = Some (Some b, h, d)" "dpipe_rep h d (tl ins) (if ins = [] then tl outs else outs)"
    "\<forall>x. (h x = None) = (vc_heap c x = None)" using get_rep [OF rep(1)] b by auto
  have "b \<in> set (ins @ outs)" "distinct (ins @ outs)" using b rep(1) by (simp_all add: dpipe_rep_def)
  then have "vc_heap c b \<noteq> None" "b \<notin> set (tl ins @ (if ins = [] then tl outs else outs))"
    using rep(1) plist_alloc [of "vc_heap c" "dp_in (vc_pipe c)" ins b] plist_alloc [of "vc_heap c" "dp_out (vc_pipe c)" outs b] b
    by (auto simp: dpipe_rep_def neq_Nil_conv append_eq_Cons_conv)
  then obtain h' d' where s: "dpipe_store h d b = Some (h', d')" "dpipe_rep h' d' (tl ins) ((if ins = [] then tl outs else outs) @ [b])"
    using store_rep [OF g(2), of b] g(3) by auto
  have ok: "channel_ok c'" if "vc_heap c' = h'" "vc_pipe c' = d'" for c' :: "'a video_channel" using s(2) that unfolding channel_ok_def by blast
  show ?thesis using True by (auto simp: picture_out_def g(1) s(1) Let_def ok split: prod.splits)
qed

lemma video_decode_loop_conserves:
  assumes "ve_decode env = logging dec" "progress dec" "channel_ok c"
  shows "video_decode_loop env pkt c = Some (Inl (-1)) \<or>
    (\<exists>left c'. video_decode_loop env pkt c = Some (Inr (left, c')) \<and> channel_ok c' \<and> vc_drop c' = vc_drop c \<and> left \<le> int (length pkt) \<and>
      consumed c' @ drop (length pkt - nat left) pkt = consumed c @ pkt)"
  using assms(3)
proof (induction "length pkt" arbitrary: pkt c rule: less_induct)
  case less
  show ?case
  proof (cases "pkt = []")
    case True
    with less.prems show ?thesis by (simp add: video_decode_loop.simps)
  next
    case False
    obtain st log where st: "vc_decoder c = (st, log)" by (cases "vc_decoder c")
    obtain len got st' where d: "dec st pkt = ((len, got), st')" by (metis surj_pair)
    have ne: "len \<noteq> 0" using assms(2) False d unfolding progress_def by (metis fst_conv)
    define c1 where "c1 = c\<lparr>vc_decoder := (st', log @ take (nat len) pkt)\<rparr>"
    have ok1: "channel_ok c1" using less.prems by (simp add: channel_ok_def c1_def)
    have unf: "video_decode_loop env pkt c =
        (if len < 0 then Some (Inr (int (length pkt), c1))
         else do {
           r \<leftarrow> (case got of None \<Rightarrow> Some (Inr c1) | Some f \<Rightarrow> picture_out env f c1);
           (case r of
              Inl e \<Rightarrow> Some (Inl e)
            | Inr c \<Rightarrow> (if len > int (length pkt) then Some (Inr (int (length pkt) - len, c)) else video_decode_loop env (drop (nat len) pkt) c)) })"
      unfolding video_decode_loop.simps [of env pkt] assms(1) logging_def st c1_def using False d by (simp add: Let_def)
    show ?thesis
    proof (cases "len < 0")
      case True
      then show ?thesis unfolding unf using ok1 by (simp add: c1_def st)
    next
      case False
      consider "(case got of None \<Rightarrow> Some (Inr c1) | Some f \<Rightarrow> picture_out env f c1) = Some (Inl (-1))"
        | c2 where "(case got of None \<Rightarrow> Some (Inr c1) | Some f \<Rightarrow> picture_out env f c1) = Some (Inr c2)" "channel_ok c2"
            "vc_decoder c2 = vc_decoder c1" "vc_drop c2 = vc_drop c1"
        using picture_out_ok [OF ok1] ok1 by (cases got) fastforce+
      then show ?thesis
      proof cases
        case 1
        with False show ?thesis unfolding unf by simp
      next
        case 2
        show ?thesis
        proof (cases "len > int (length pkt)")
          case True
          with False 2 show ?thesis unfolding unf by (simp add: c1_def st)
        next
          case le: False
          have l: "length (drop (nat len) pkt) < length pkt" using False ne le \<open>pkt \<noteq> []\<close> by simp
          have c2: "consumed c2 = log @ take (nat len) pkt" "vc_drop c2 = vc_drop c" using 2(3,4) by (simp_all add: c1_def)
          from less.hyps [OF l 2(2)] show ?thesis
          proof
            assume "video_decode_loop env (drop (nat len) pkt) c2 = Some (Inl (- 1))"
            with False le 2(1) show ?thesis unfolding unf by simp
          next
            assume "\<exists>left c'. video_decode_loop env (drop (nat len) pkt) c2 = Some (Inr (left, c')) \<and> channel_ok c' \<and> vc_drop c' = vc_drop c2 \<and>
              left \<le> int (length (drop (nat len) pkt)) \<and> consumed c' @ drop (length (drop (nat len) pkt) - nat left) (drop (nat len) pkt) = consumed c2 @ drop (nat len) pkt"
            then obtain left c' where r: "video_decode_loop env (drop (nat len) pkt) c2 = Some (Inr (left, c'))" "channel_ok c'" "vc_drop c' = vc_drop c2"
              "left \<le> int (length (drop (nat len) pkt))"
              "consumed c' @ drop (length (drop (nat len) pkt) - nat left) (drop (nat len) pkt) = consumed c2 @ drop (nat len) pkt" by blast
            have e: "length pkt - nat len - nat left + nat len = length pkt - nat left" using r(4) le False by (simp add: of_nat_diff)
            show ?thesis using False le 2(1) r c2 unfolding unf by (simp add: st e)
          qed
        qed
      qed
    qed
  qed
qed


text \<open>The bytes collected.\<close>

definition pending :: "decoder_buffer \<Rightarrow> byte list" where
  "pending db = take (db_privbuflen db) (db_privbuf db)"

definition db_ok :: "decoder_buffer \<Rightarrow> bool" where
  "db_ok db = (PRIVATE_BUFFER_SIZE \<le> length (db_privbuf db) \<and> db_privbuflen db \<le> PRIVATE_BUFFER_SIZE)"

lemma drop_nal_offset_defined: "db_ok db \<Longrightarrow> \<exists>r. drop_nal_offset (db_privbuf db) = Some r \<and> (\<forall>k. r = Some k \<longrightarrow> k = 3 \<or> k = 4)"
  by (auto simp: drop_nal_offset_def c_get_def db_ok_def PRIVATE_BUFFER_SIZE_def)

lemma drop_video_frame_defined:
  assumes "db_ok db"
  shows "drop_video_frame m h now (db_privbuf db) pts dv \<noteq> None"
proof -
  obtain r where r: "drop_nal_offset (db_privbuf db) = Some r" "\<forall>k. r = Some k \<longrightarrow> k = 3 \<or> k = 4"
    using drop_nal_offset_defined [OF assms] by blast
  show ?thesis
  proof (cases r)
    case None
    with r(1) show ?thesis by (simp add: drop_video_frame_def del: not_None_eq)
  next
    case (Some k)
    then obtain b where "c_get (db_privbuf db) k = Some b" using r(2) assms by (auto simp: c_get_def db_ok_def PRIVATE_BUFFER_SIZE_def)
    with r(1) Some show ?thesis by (simp add: drop_video_frame_def Let_def del: not_None_eq)
  qed
qed

lemma move_left:
  assumes "db_ok db" "0 < left" "left \<le> int (db_privbuflen db)"
  shows "\<exists>xs buf. c_read (db_privbuf db) (int (db_privbuflen db) - left) left = Some xs \<and> c_write (db_privbuf db) 0 xs = Some buf \<and>
    length buf = length (db_privbuf db) \<and> take (nat left) buf = drop (db_privbuflen db - nat left) (pending db)"
proof -
  define xs where "xs = take (nat left) (drop (db_privbuflen db - nat left) (db_privbuf db))"
  have l: "length xs = nat left" using assms by (auto simp: xs_def db_ok_def min_def)
  have r: "c_read (db_privbuf db) (int (db_privbuflen db) - left) left = Some xs"
    using assms by (simp add: c_read_def xs_def db_ok_def nat_diff_distrib)
  obtain buf where w: "c_write (db_privbuf db) 0 xs = Some buf" "length buf = length (db_privbuf db)"
    using c_write_defined [of 0 xs "db_privbuf db"] assms l by (auto simp: db_ok_def)
  have "take (nat left) buf = xs" using w(1) l by (auto simp: c_write_def split: if_splits)
  moreover have "xs = drop (db_privbuflen db - nat left) (pending db)" using assms by (simp add: xs_def pending_def drop_take)
  ultimately show ?thesis using r w by blast
qed

text \<open>A flush decodes what is pending, or keeps all of it when the frame is late.\<close>

lemma flush_frame_conserves:
  assumes "ve_decode env = logging dec" "progress dec" "channel_ok c" "db_ok db"
  shows "flush_frame env now (db, c) = Some (Inl (-1)) \<or>
    (\<exists>db' c'. flush_frame env now (db, c) = Some (Inr (db', c')) \<and> channel_ok c' \<and> db_ok db' \<and> db_privbuflen db' \<le> db_privbuflen db \<and>
      db_lastpts db' = db_lastpts db \<and> consumed c' @ pending db' = consumed c @ pending db)"
proof -
  obtain dropped dv where dv: "drop_video_frame (ve_max_delay env) (ve_h264 env) now (db_privbuf db) (db_lastpts db) (vc_drop c) = Some (dropped, dv)"
    using drop_video_frame_defined [OF assms(4)] by fast
  define c1 where "c1 = c\<lparr>vc_drop := dv\<rparr>"
  have c1: "channel_ok c1" "consumed c1 = consumed c" using assms(3) by (simp_all add: c1_def channel_ok_def)
  have rd: "c_read (db_privbuf db) 0 (int (db_privbuflen db)) = Some (pending db)" using assms(4) by (simp add: c_read_def pending_def db_ok_def)
  have lp: "length (pending db) = db_privbuflen db" using assms(4) by (simp add: pending_def db_ok_def)
  have "play_video_priv env now (db_privbuf db) (db_privbuflen db) (db_lastpts db) c = Some (Inl (-1)) \<or>
    (\<exists>left c'. play_video_priv env now (db_privbuf db) (db_privbuflen db) (db_lastpts db) c = Some (Inr (left, c')) \<and> channel_ok c' \<and>
      left \<le> int (db_privbuflen db) \<and> consumed c' @ drop (db_privbuflen db - nat left) (pending db) = consumed c @ pending db)"
    using video_decode_loop_conserves [OF assms(1,2) c1(1), of "pending db"] c1 rd lp
    by (cases dropped) (auto simp: play_video_priv_def dv Let_def simp flip: c1_def)
  then show ?thesis
  proof
    assume "play_video_priv env now (db_privbuf db) (db_privbuflen db) (db_lastpts db) c = Some (Inl (-1))"
    then show ?thesis by (simp add: flush_frame_def)
  next
    assume "\<exists>left c'. play_video_priv env now (db_privbuf db) (db_privbuflen db) (db_lastpts db) c = Some (Inr (left, c')) \<and> channel_ok c' \<and>
      left \<le> int (db_privbuflen db) \<and> consumed c' @ drop (db_privbuflen db - nat left) (pending db) = consumed c @ pending db"
    then obtain left c' where r: "play_video_priv env now (db_privbuf db) (db_privbuflen db) (db_lastpts db) c = Some (Inr (left, c'))" "channel_ok c'"
      "left \<le> int (db_privbuflen db)" "consumed c' @ drop (db_privbuflen db - nat left) (pending db) = consumed c @ pending db" by blast
    show ?thesis
    proof (cases "left > 0")
      case False
      with r lp assms(4) show ?thesis by (simp add: flush_frame_def pending_def db_ok_def)
    next
      case True
      obtain xs buf where m: "c_read (db_privbuf db) (int (db_privbuflen db) - left) left = Some xs" "c_write (db_privbuf db) 0 xs = Some buf"
        "length buf = length (db_privbuf db)" "take (nat left) buf = drop (db_privbuflen db - nat left) (pending db)"
        using move_left [OF assms(4) True r(3)] by blast
      have "nat left \<le> db_privbuflen db" "nat left \<le> PRIVATE_BUFFER_SIZE" using r(3) assms(4) by (auto simp: db_ok_def)
      with m True r assms(4) show ?thesis by (simp add: flush_frame_def pending_def [of "db\<lparr>db_privbuf := buf, db_privbuflen := nat left\<rparr>"] db_ok_def)
    qed
  qed
qed

lemma second_conserves:
  assumes "ve_decode env = logging dec" "progress dec" "channel_ok c" "db_ok db"
    "r = (if db_privbuflen db + length buffer \<le> PRIVATE_BUFFER_SIZE then do {
         buf \<leftarrow> c_write (db_privbuf db) (int (db_privbuflen db)) buffer;
         (let db = db\<lparr>db_privbuf := buf, db_privbuflen := db_privbuflen db + length buffer\<rparr>
          in if marker \<and> db_privbuflen db > 0 then flush_frame env now (db, c) else Some (Inr (db, c))) }
       else flush_frame env now (db, c))"
  shows "r = Some (Inl (-1)) \<or> (\<exists>db' c' kept. r = Some (Inr (db', c')) \<and> channel_ok c' \<and> db_ok db' \<and>
      (kept = buffer \<or> kept = [] \<and> PRIVATE_BUFFER_SIZE < db_privbuflen db + length buffer) \<and>
      consumed c' @ pending db' = consumed c @ pending db @ kept \<and> db_privbuflen db' \<le> db_privbuflen db + length kept)"
proof (cases "db_privbuflen db + length buffer \<le> PRIVATE_BUFFER_SIZE")
  case False
  then show ?thesis using flush_frame_conserves [OF assms(1-4), of now] by (auto simp: assms(5))
next
  case True
  obtain buf where w: "c_write (db_privbuf db) (int (db_privbuflen db)) buffer = Some buf" "length buf = length (db_privbuf db)"
    using c_write_defined [of "int (db_privbuflen db)" buffer "db_privbuf db"] True assms(4) by (auto simp: db_ok_def)
  define db2 where "db2 = db\<lparr>db_privbuf := buf, db_privbuflen := db_privbuflen db + length buffer\<rparr>"
  have db2: "db_ok db2" "pending db2 = pending db @ buffer" "db_privbuflen db2 = db_privbuflen db + length buffer"
    using True assms(4) w by (auto simp: db_ok_def db2_def pending_def c_write_def split: if_splits)
  have r: "r = (if marker \<and> db_privbuflen db2 > 0 then flush_frame env now (db2, c) else Some (Inr (db2, c)))"
    using True w(1) by (auto simp: assms(5) Let_def db2_def)
  show ?thesis unfolding r using flush_frame_conserves [OF assms(1-3) db2(1), of now] db2 assms(3)
    by (cases "marker \<and> db_privbuflen db2 > 0") fastforce+
qed

text \<open>A fragment is collected, or lost when the buffer cannot hold it beside what is pending.\<close>

lemma play_video_conserves:
  assumes "ve_decode env = logging dec" "progress dec" "channel_ok c" "db_ok db"
  shows "play_video env now buffer pts marker (db, c) = Some (Inl (-1)) \<or>
    (\<exists>db' c' kept. play_video env now buffer pts marker (db, c) = Some (Inr (db', c')) \<and> channel_ok c' \<and> db_ok db' \<and>
      (kept = buffer \<or> kept = [] \<and> PRIVATE_BUFFER_SIZE < db_privbuflen db + length buffer) \<and>
      consumed c' @ pending db' = consumed c @ pending db @ kept \<and> db_privbuflen db' \<le> db_privbuflen db + length kept)"
proof (cases "buffer = []")
  case True
  with assms show ?thesis by (simp add: play_video_def)
next
  case False
  define first where "first = (if pts \<noteq> db_lastpts db then
      then_do (if db_privbuflen db > 0 then flush_frame env now (db, c) else Some (Inr (db, c))) (\<lambda>(db, c). Some (Inr (db\<lparr>db_lastpts := pts\<rparr>, c)))
      else Some (Inr (db, c)))"
  define second where "second = (\<lambda>(db, c).
      (if db_privbuflen db + length buffer \<le> PRIVATE_BUFFER_SIZE then do {
         buf \<leftarrow> c_write (db_privbuf db) (int (db_privbuflen db)) buffer;
         (let db = db\<lparr>db_privbuf := buf, db_privbuflen := db_privbuflen db + length buffer\<rparr>
          in if marker \<and> db_privbuflen db > 0 then flush_frame env now (db, c) else Some (Inr (db, c))) }
       else flush_frame env now (db, c)))"
  have pv: "play_video env now buffer pts marker (db, c) = then_do first second"
    unfolding play_video_def first_def second_def fst_conv if_not_P [OF False] ..
  have p: "pending (db\<lparr>db_lastpts := pts\<rparr>) = pending db" "db_ok (db\<lparr>db_lastpts := pts\<rparr>) = db_ok db" for db by (simp_all add: pending_def db_ok_def)
  have "first = Some (Inl (-1)) \<or> (\<exists>db' c'. first = Some (Inr (db', c')) \<and> channel_ok c' \<and> db_ok db' \<and> db_privbuflen db' \<le> db_privbuflen db \<and>
      consumed c' @ pending db' = consumed c @ pending db)"
    using flush_frame_conserves [OF assms(1-4), of now] assms(3,4) by (auto simp: first_def then_do_def p)
  then consider "first = Some (Inl (-1))" | db1 c1 where "first = Some (Inr (db1, c1))" "channel_ok c1" "db_ok db1"
    "db_privbuflen db1 \<le> db_privbuflen db" "consumed c1 @ pending db1 = consumed c @ pending db" by blast
  then show ?thesis
  proof cases
    case 1
    then show ?thesis unfolding pv by (simp add: then_do_def)
  next
    case (2 db1 c1)
    have unf: "then_do first second = second (db1, c1)" using 2(1) by (simp add: then_do_def)
    show ?thesis unfolding pv unf using second_conserves [OF assms(1,2) 2(2,3) refl, of buffer marker now] 2(4,5)
      by (fastforce simp: second_def)
  qed
qed

text \<open>A stream of fragments: the time now, the bytes, the time stamp and the marker of each.\<close>

type_synonym fragment = "timeval \<times> byte list \<times> timeval \<times> bool"

primrec play_stream :: "'s video_env \<Rightarrow> fragment list \<Rightarrow> decoder_buffer \<times> 's video_channel \<Rightarrow> (int + decoder_buffer \<times> 's video_channel) option" where
  "play_stream env [] s = Some (Inr s)"
| "play_stream env (f # fs) s = (case f of (now, buffer, pts, marker) \<Rightarrow> then_do (play_video env now buffer pts marker s) (play_stream env fs))"

definition fragment_bytes :: "fragment \<Rightarrow> byte list" where
  "fragment_bytes f = fst (snd f)"

text \<open>What a stream gives: the exit, or a state that accounts for every byte.\<close>

definition stream_kept :: "('s \<times> byte list) video_env \<Rightarrow> fragment list \<Rightarrow> decoder_buffer \<times> ('s \<times> byte list) video_channel \<Rightarrow> bool" where
  "stream_kept env fs s = (case s of (db, c) \<Rightarrow> play_stream env fs (db, c) = Some (Inl (-1)) \<or>
    (\<exists>db' c' kept. play_stream env fs (db, c) = Some (Inr (db', c')) \<and> channel_ok c' \<and> db_ok db' \<and>
      consumed c' @ pending db' = consumed c @ pending db @ concat kept \<and> subseq kept (map fragment_bytes fs) \<and>
      (db_privbuflen db + length (concat (map fragment_bytes fs)) \<le> PRIVATE_BUFFER_SIZE \<longrightarrow> kept = map fragment_bytes fs)))"

lemma play_stream_step:
  assumes "play_stream env (f # fs) (db, c) = play_stream env fs (db1, c1)"
    "k = fragment_bytes f \<or> k = [] \<and> PRIVATE_BUFFER_SIZE < db_privbuflen db + length (fragment_bytes f)"
    "consumed c1 @ pending db1 = consumed c @ pending db @ k" "db_privbuflen db1 \<le> db_privbuflen db + length k"
    "stream_kept env fs (db1, c1)"
  shows "stream_kept env (f # fs) (db, c)"
proof -
  define ks where "ks = (if k = fragment_bytes f then [fragment_bytes f] else [])"
  have ks: "concat ks = k" using assms(2) by (auto simp: ks_def)
  show ?thesis using assms(5) unfolding stream_kept_def assms(1) split
  proof (elim disjE exE conjE)
    fix db' c' kept
    assume r: "play_stream env fs (db1, c1) = Some (Inr (db', c'))" "channel_ok c'" "db_ok db'"
      "consumed c' @ pending db' = consumed c1 @ pending db1 @ concat kept" "subseq kept (map fragment_bytes fs)"
      "db_privbuflen db1 + length (concat (map fragment_bytes fs)) \<le> PRIVATE_BUFFER_SIZE \<longrightarrow> kept = map fragment_bytes fs"
    have "consumed c' @ pending db' = consumed c @ pending db @ concat (ks @ kept)" using r(4) assms(3) ks by (metis append.assoc concat_append)
    moreover have "ks @ kept = map fragment_bytes (f # fs)"
      if "db_privbuflen db + length (concat (map fragment_bytes (f # fs))) \<le> PRIVATE_BUFFER_SIZE"
      using that assms(2,4) r(6) by (auto simp: ks_def)
    moreover have "subseq (ks @ kept) (map fragment_bytes (f # fs))" using r(5) by (auto simp: ks_def intro: list_emb.intros)
    ultimately show "play_stream env fs (db1, c1) = Some (Inl (- 1)) \<or> (\<exists>db' c' kept. play_stream env fs (db1, c1) = Some (Inr (db', c')) \<and>
        channel_ok c' \<and> db_ok db' \<and> consumed c' @ pending db' = consumed c @ pending db @ concat kept \<and> subseq kept (map fragment_bytes (f # fs)) \<and>
        (db_privbuflen db + length (concat (map fragment_bytes (f # fs))) \<le> PRIVATE_BUFFER_SIZE \<longrightarrow> kept = map fragment_bytes (f # fs)))"
      using r(1-3) by blast
  qed simp
qed

lemma play_stream_kept:
  assumes "ve_decode env = logging dec" "progress dec" "channel_ok c" "db_ok db"
  shows "stream_kept env fs (db, c)"
  using assms(3,4)
proof (induction fs arbitrary: db c)
  case Nil
  then show ?case by (auto simp: stream_kept_def intro!: exI [of _ "[]"])
next
  case (Cons f fs)
  obtain now buffer pts marker where f: "f = (now, buffer, pts, marker)" by (metis surj_pair)
  consider "play_video env now buffer pts marker (db, c) = Some (Inl (-1))"
    | db1 c1 k where "play_video env now buffer pts marker (db, c) = Some (Inr (db1, c1))" "channel_ok c1" "db_ok db1"
      "k = buffer \<or> k = [] \<and> PRIVATE_BUFFER_SIZE < db_privbuflen db + length buffer"
      "consumed c1 @ pending db1 = consumed c @ pending db @ k" "db_privbuflen db1 \<le> db_privbuflen db + length k"
    using play_video_conserves [OF assms(1,2) Cons.prems, of now buffer pts marker] by blast
  then show ?case
  proof cases
    case 1
    then show ?thesis by (simp add: stream_kept_def f then_do_def)
  next
    case (2 db1 c1 k)
    have step: "play_stream env (f # fs) (db, c) = play_stream env fs (db1, c1)" using 2(1) by (simp add: f then_do_def)
    have k: "k = fragment_bytes f \<or> k = [] \<and> PRIVATE_BUFFER_SIZE < db_privbuflen db + length (fragment_bytes f)"
      using 2(4) by (simp add: f fragment_bytes_def)
    show ?thesis by (rule play_stream_step [OF step k 2(5,6) Cons.IH [OF 2(2,3)]])
  qed
qed

text \<open>C12. The client decodes the stream in order: whatever the fragments, their time stamps, the markers and the late frames, the
  bytes that the decoder has consumed and those still pending are what was there before and the fragments
  received, in their order; a fragment is missing only when it did not fit beside what was pending, so none is while the
  stream and what is pending fit the private buffer. No read or write leaves the buffers, and the only other outcome is the exit for a missing converter.\<close>

theorem client_video_conservation:
  assumes "ve_decode env = logging dec" "progress dec" "channel_ok c" "db_ok db"
  shows "play_stream env fs (db, c) = Some (Inl (-1)) \<or>
    (\<exists>db' c' kept. play_stream env fs (db, c) = Some (Inr (db', c')) \<and> channel_ok c' \<and> db_ok db' \<and>
      consumed c' @ pending db' = consumed c @ pending db @ concat kept \<and> subseq kept (map fragment_bytes fs) \<and>
      (db_privbuflen db + length (concat (map fragment_bytes fs)) \<le> PRIVATE_BUFFER_SIZE \<longrightarrow> kept = map fragment_bytes fs))"
  using play_stream_kept [OF assms] by (simp add: stream_kept_def)


text \<open>A late frame: nothing is decoded, and all of it stays.\<close>

lemma flush_frame_drops:
  assumes "db_ok db" "0 < db_privbuflen db"
    "drop_video_frame (ve_max_delay env) (ve_h264 env) now (db_privbuf db) (db_lastpts db) (vc_drop c) = Some (True, dv)"
  shows "\<exists>db'. flush_frame env now (db, c) = Some (Inr (db', c\<lparr>vc_drop := dv\<rparr>)) \<and> db_ok db' \<and> pending db' = pending db \<and> db_privbuflen db' = db_privbuflen db"
proof -
  obtain xs buf where "c_read (db_privbuf db) (int (db_privbuflen db) - int (db_privbuflen db)) (int (db_privbuflen db)) = Some xs"
    "c_write (db_privbuf db) 0 xs = Some buf" "length buf = length (db_privbuf db)"
    "take (nat (int (db_privbuflen db))) buf = drop (db_privbuflen db - nat (int (db_privbuflen db))) (pending db)"
    using move_left [OF assms(1), of "int (db_privbuflen db)"] assms(2) by auto
  with assms show ?thesis by (simp add: flush_frame_def play_video_priv_def Let_def db_ok_def pending_def)
qed

text \<open>A frame that the client reports as dropped is not dropped: nothing of it is decoded when it ends, but every byte of it stays in the
  private buffer, and the first fragment of the next frame is put behind it, so that the decoder gets both as one
  packet under the time stamp of the second.\<close>

theorem client_drop_keeps_frame:
  assumes "db_ok db" "0 < db_privbuflen db" "pts \<noteq> db_lastpts db" "buffer \<noteq> []" "db_privbuflen db + length buffer \<le> PRIVATE_BUFFER_SIZE"
    "drop_video_frame (ve_max_delay env) (ve_h264 env) now (db_privbuf db) (db_lastpts db) (vc_drop c) = Some (True, dv)"
  shows "\<exists>db'. play_video env now buffer pts False (db, c) = Some (Inr (db', c\<lparr>vc_drop := dv\<rparr>)) \<and>
    pending db' = pending db @ buffer \<and> db_lastpts db' = pts"
proof -
  obtain db1 where fl: "flush_frame env now (db, c) = Some (Inr (db1, c\<lparr>vc_drop := dv\<rparr>))" "db_ok db1" "pending db1 = pending db"
    "db_privbuflen db1 = db_privbuflen db" using flush_frame_drops [OF assms(1,2,6)] by blast
  obtain buf where w: "c_write (db_privbuf db1) (int (db_privbuflen db1)) buffer = Some buf"
    using c_write_defined [of "int (db_privbuflen db1)" buffer "db_privbuf db1"] fl(2,4) assms(5) by (auto simp: db_ok_def)
  then have "take (db_privbuflen db1 + length buffer) buf = pending db1 @ buffer"
    using fl(2,4) assms(5) by (auto simp: c_write_def pending_def db_ok_def split: if_splits)
  with fl w assms show ?thesis by (auto simp: play_video_def then_do_def Let_def pending_def)
qed

definition example_decode :: "unit \<Rightarrow> byte list \<Rightarrow> (int \<times> vframe option) \<times> unit" where
  "example_decode s pkt = ((int (length pkt), None), s)"

definition example_video_env :: "(unit \<times> byte list) video_env" where
  "example_video_env = \<lparr>ve_max_delay = 1000, ve_h264 = True, ve_decode = logging example_decode, ve_getContext = (\<lambda>cfg. 1)\<rparr>"

definition example_channel :: "(unit \<times> byte list) video_channel" where
  "example_channel = \<lparr>vc_swsctx = True, vc_width = 8, vc_height = 8, vc_format = 0, vc_heap = [1 \<mapsto> \<lparr>buf_pointer = 16, buf_internal = 0, buf_offset = 16, buf_next = None\<rparr>],
     vc_pipe = \<lparr>dp_channel_id = 0, dp_name = ''v'', dp_in = Some 1, dp_out = None, dp_out_tail = None, dp_in_count = 1, dp_out_count = 0\<rparr>, vc_image = Map.empty, vc_events = [],
     vc_conv = [], vc_drop = \<lparr>tv_real_start = \<lparr>tv_sec = 1, tv_usec = 0\<rparr>, tv_stream_start = \<lparr>tv_sec = 1, tv_usec = 0\<rparr>, no_drop = 0\<rparr>, vc_decoder = ((), [])\<rparr>"

definition example_db :: decoder_buffer where
  "example_db = \<lparr>db_privbuflen = 5, db_privbuf = [0, 0, 0, 1, 0x41] @ replicate PRIVATE_BUFFER_SIZE 0, db_lastpts = \<lparr>tv_sec = 1, tv_usec = 5\<rparr>\<rparr>"

lemma example_video:
  "ve_decode example_video_env = logging example_decode" "progress example_decode" "channel_ok example_channel" "db_ok example_db" "vc_drop example_channel =
    \<lparr>tv_real_start = \<lparr>tv_sec = 1, tv_usec = 0\<rparr>, tv_stream_start = \<lparr>tv_sec = 1, tv_usec = 0\<rparr>, no_drop = 0\<rparr>"
  by (auto simp: example_video_env_def progress_def example_decode_def channel_ok_def example_channel_def dpipe_rep_def db_ok_def example_db_def PRIVATE_BUFFER_SIZE_def
      intro!: exI [of _ "[1 :: nat]"])

lemma example_pending: "pending example_db = [0, 0, 0, 1, 0x41]"
  by (simp add: pending_def example_db_def)

theorem client_video_conservation_witness:
  "play_stream example_video_env [(\<lparr>tv_sec = 1, tv_usec = 9\<rparr>, [7], \<lparr>tv_sec = 1, tv_usec = 5\<rparr>, True)] (example_db, example_channel) = Some (Inl (-1)) \<or>
    (\<exists>db' c'. play_stream example_video_env [(\<lparr>tv_sec = 1, tv_usec = 9\<rparr>, [7], \<lparr>tv_sec = 1, tv_usec = 5\<rparr>, True)] (example_db, example_channel) = Some (Inr (db', c')) \<and>
      consumed c' @ pending db' = [0, 0, 0, 1, 0x41, 7])"
  using client_video_conservation [OF example_video(1-4), of "[(\<lparr>tv_sec = 1, tv_usec = 9\<rparr>, [7], \<lparr>tv_sec = 1, tv_usec = 5\<rparr>, True)]"]
  unfolding example_pending
  by (auto simp: fragment_bytes_def example_channel_def) (auto simp: example_db_def PRIVATE_BUFFER_SIZE_def)

theorem client_drop_keeps_frame_witness:
  "\<exists>db'. play_video example_video_env \<lparr>tv_sec = 2, tv_usec = 0\<rparr> [0, 0, 0, 1] \<lparr>tv_sec = 1, tv_usec = 6\<rparr> False (example_db, example_channel) =
      Some (Inr (db', example_channel\<lparr>vc_drop := vc_drop example_channel\<rparr>)) \<and>
    pending db' = pending example_db @ [0, 0, 0, 1] \<and> db_lastpts db' = \<lparr>tv_sec = 1, tv_usec = 6\<rparr>"
proof (rule client_drop_keeps_frame [OF example_video(4)])
  show "0 < db_privbuflen example_db" "\<lparr>tv_sec = 1, tv_usec = 6\<rparr> \<noteq> db_lastpts example_db" "[0, 0, 0, 1 :: byte] \<noteq> []"
    "db_privbuflen example_db + length [0, 0, 0, 1 :: byte] \<le> PRIVATE_BUFFER_SIZE"
    by (simp_all add: example_db_def PRIVATE_BUFFER_SIZE_def)
  show "drop_video_frame (ve_max_delay example_video_env) (ve_h264 example_video_env) \<lparr>tv_sec = 2, tv_usec = 0\<rparr> (db_privbuf example_db) (db_lastpts example_db)
      (vc_drop example_channel) = Some (True, vc_drop example_channel)"
    by (simp add: drop_video_frame_def drop_nal_offset_def c_get_def example_db_def example_video_env_def example_channel_def tvdiff_us_def nth_Cons')
qed

end
