(* ===== verification/ClientStats.thy ===== *)
theory ClientStats
  imports GaCommon CtrlMsg StdMap "HOL-Library.Sublist"
begin

text \<open>
  The receiver statistics of the client, \<open>client/rtspclient.cpp\<close>: the monitor of lost packets, the
  bandwidth estimator with its reports to the server, and the handler that feeds both from the bytes of
  an RTP packet. The floating-point quotient of the estimator is a parameter, \<open>capacity\<close>.
\<close>

section \<open>The packet loss monitor\<close>

record pktloss_record =
  pl_reset :: int
  pl_lost :: int
  pl_ssrc :: u32
  pl_initseq :: u16
  pl_lastseq :: u16

type_synonym pktmap = "(u32, pktloss_record) smap"

definition pktloss_monitor_init :: pktmap where
  "pktloss_monitor_init = []"

text \<open>The difference of the sequence numbers is computed in \<open>int\<close>.\<close>

definition pktloss_monitor_update :: "u32 \<Rightarrow> u16 \<Rightarrow> pktmap \<Rightarrow> pktmap option" where
  "pktloss_monitor_update ssrc seqnum m =
     (case smap_find m ssrc of
        None \<Rightarrow> Some (smap_put m ssrc \<lparr>pl_reset = 0, pl_lost = 0, pl_ssrc = ssrc, pl_initseq = seqnum, pl_lastseq = seqnum\<rparr>)
      | Some r \<Rightarrow>
          (if pl_reset r \<noteq> 0 then
             Some (smap_put m ssrc (r\<lparr>pl_reset := 0, pl_lost := 0, pl_initseq := seqnum, pl_lastseq := seqnum\<rparr>))
           else do {
             lost \<leftarrow> (if uint seqnum - 1 \<noteq> uint (pl_lastseq r)
                then c_int (pl_lost r + (uint seqnum - 1 - uint (pl_lastseq r))) else Some (pl_lost r));
             Some (smap_put m ssrc (r\<lparr>pl_lost := lost, pl_lastseq := seqnum\<rparr>)) }))"

definition pktloss_monitor_reset :: "u32 \<Rightarrow> pktmap \<Rightarrow> pktmap" where
  "pktloss_monitor_reset ssrc m =
     (case smap_find m ssrc of None \<Rightarrow> m | Some r \<Rightarrow> smap_put m ssrc (r\<lparr>pl_reset := 1\<rparr>))"

text \<open>The return value, and what is stored through \<open>count\<close>.\<close>

definition pktloss_monitor_get :: "u32 \<Rightarrow> bool \<Rightarrow> pktmap \<Rightarrow> int \<times> int option \<times> pktmap" where
  "pktloss_monitor_get ssrc reset m =
     (case smap_find m ssrc of
        None \<Rightarrow> (-1, None, m)
      | Some r \<Rightarrow> (pl_lost r, Some (uint (pl_lastseq r) - uint (pl_initseq r) + 1),
          if reset then smap_put m ssrc (r\<lparr>pl_reset := 1\<rparr>) else m))"

section \<open>The bandwidth estimator\<close>

record bwe_record =
  initTime :: timeval
  framecount :: u32
  pktcount :: u32
  pktloss :: u32
  bytesRcvd :: u32
  lastPktSeq :: u16
  lastPktRcvdTimestamp :: timeval
  lastPktSentTimestamp :: u32
  lastPktSize :: u32
  bw_samples :: u32
  totalBytes :: u32
  totalElapsed :: u32

definition tv_zero :: timeval where "tv_zero = \<lparr>tv_sec = 0, tv_usec = 0\<rparr>"

definition bwe_zero :: bwe_record where
  "bwe_zero = \<lparr>initTime = tv_zero, framecount = 0, pktcount = 0, pktloss = 0, bytesRcvd = 0, lastPktSeq = 0,
     lastPktRcvdTimestamp = tv_zero, lastPktSentTimestamp = 0, lastPktSize = 0, bw_samples = 0, totalBytes = 0, totalElapsed = 0\<rparr>"

type_synonym bwe_watchlist = "(u32, bwe_record) smap"

text \<open>A sample: two packets of one frame with consecutive numbers. When enough samples are collected, a report
  is built in the message \<open>msg\<close> and its 28 bytes are sent.\<close>

definition bwe_sample :: "(u32 \<Rightarrow> u32 \<Rightarrow> u32) \<Rightarrow> byte list \<Rightarrow> timeval \<Rightarrow> bwe_record \<Rightarrow> (bwe_record \<times> byte list option) option" where
  "bwe_sample capacity msg rcvtv r =
     (let elapsed = of_int (tvdiff_us rcvtv (lastPktRcvdTimestamp r));
          r = r\<lparr>bw_samples := bw_samples r + 1, totalElapsed := totalElapsed r + elapsed, totalBytes := totalBytes r + lastPktSize r\<rparr>
      in if framecount r \<ge> 240 \<and> bw_samples r \<ge> 3000 then do {
           m \<leftarrow> ctrlsys_netreport msg (of_int (tvdiff_us rcvtv (initTime r))) (framecount r) (pktcount r) (pktloss r) (bytesRcvd r)
             (capacity (totalBytes r) (totalElapsed r));
           Some (bwe_zero\<lparr>initTime := rcvtv, framecount := 1\<rparr>, Some (take 28 m)) }
         else Some (r, None))"

definition bandwidth_estimator_update :: "(u32 \<Rightarrow> u32 \<Rightarrow> u32) \<Rightarrow> byte list \<Rightarrow> u32 \<Rightarrow> u16 \<Rightarrow> timeval \<Rightarrow> u32 \<Rightarrow> u32 \<Rightarrow> bwe_watchlist \<Rightarrow>
    (bwe_watchlist \<times> byte list option) option" where
  "bandwidth_estimator_update capacity msg ssrc seq rcvtv timestamp pktsize wl =
     (case smap_find wl ssrc of
        None \<Rightarrow> Some (smap_put wl ssrc (bwe_zero\<lparr>initTime := rcvtv, framecount := 1, pktcount := 1, bytesRcvd := pktsize, lastPktSeq := seq,
            lastPktRcvdTimestamp := rcvtv, lastPktSentTimestamp := timestamp, lastPktSize := pktsize\<rparr>), None)
      | Some r \<Rightarrow>
          (let sampleframe = (timestamp = lastPktSentTimestamp r);
               r = (if sampleframe then r else r\<lparr>framecount := framecount r + 1\<rparr>)
           in do {
             (r, report) \<leftarrow> (if uint seq - 1 = uint (lastPktSeq r) then
                 (if sampleframe then bwe_sample capacity msg rcvtv r else Some (r, None))
               else let delta = ucast (seq - lastPktSeq r - 1)
                    in Some (r\<lparr>pktloss := pktloss r + delta, pktcount := pktcount r + delta\<rparr>, None));
             Some (smap_put wl ssrc (r\<lparr>pktcount := pktcount r + 1, bytesRcvd := bytesRcvd r + pktsize, lastPktSeq := seq,
                 lastPktRcvdTimestamp := rcvtv, lastPktSentTimestamp := timestamp, lastPktSize := pktsize\<rparr>), report) }))"

text \<open>The handler of every RTP packet: the fields of the header in network order.\<close>

record client_stats =
  cs_pktmap :: pktmap
  cs_watchlist :: bwe_watchlist

definition rtp_packet_handler :: "(u32 \<Rightarrow> u32 \<Rightarrow> u32) \<Rightarrow> byte list \<Rightarrow> timeval \<Rightarrow> byte list \<Rightarrow> client_stats \<Rightarrow> (client_stats \<times> byte list option) option" where
  "rtp_packet_handler capacity msg tv packet s =
     (if length packet < 12 then Some (s, None)
      else do {
        seqnum \<leftarrow> rd16 packet 2;
        timestamp \<leftarrow> rd32 packet 4;
        ssrc \<leftarrow> rd32 packet 8;
        (wl, report) \<leftarrow> bandwidth_estimator_update capacity msg (ntohl ssrc) (ntohs seqnum) tv (ntohl timestamp) (of_nat (length packet)) (cs_watchlist s);
        m \<leftarrow> pktloss_monitor_update (ntohl ssrc) (ntohs seqnum) (cs_pktmap s);
        Some (\<lparr>cs_pktmap = m, cs_watchlist = wl\<rparr>, report) })"

section \<open>Properties\<close>

text \<open>Feeding the monitor with the sequence numbers of one source.\<close>

primrec pktloss_feed :: "u32 \<Rightarrow> u16 list \<Rightarrow> pktmap \<Rightarrow> pktmap option" where
  "pktloss_feed ssrc [] m = Some m"
| "pktloss_feed ssrc (s # ss) m = do { m' \<leftarrow> pktloss_monitor_update ssrc s m; pktloss_feed ssrc ss m' }"

lemma uint16_bounds: "0 \<le> uint (s :: u16) \<and> uint s < 65536"
  using uint_lt2p [of s] by simp

lemma pktloss_step:
  assumes "smap_find m ssrc = Some r" "pl_reset r = 0" "- (2 ^ 31) \<le> pl_lost r - 65536" "pl_lost r + 65536 < 2 ^ 31"
  shows "pktloss_monitor_update ssrc s m = Some (smap_put m ssrc (r\<lparr>pl_lost := pl_lost r + (uint s - 1 - uint (pl_lastseq r)), pl_lastseq := s\<rparr>))"
proof -
  have "c_int (pl_lost r + (uint s - 1 - uint (pl_lastseq r))) = Some (pl_lost r + (uint s - 1 - uint (pl_lastseq r)))"
    using assms(3,4) uint16_bounds [of s] uint16_bounds [of "pl_lastseq r"] by (intro c_int_Some) linarith+
  then show ?thesis using assms(1,2) by (simp add: pktloss_monitor_update_def)
qed

lemma pktloss_feed_from:
  assumes "smap_find m ssrc = Some r" "pl_reset r = 0" "\<bar>pl_lost r\<bar> + 65536 * (int (length ss) + 1) < 2 ^ 31"
  shows "\<exists>m'. pktloss_feed ssrc ss m = Some m' \<and>
    smap_find m' ssrc = Some (r\<lparr>pl_lost := pl_lost r + uint (last (pl_lastseq r # ss)) - uint (pl_lastseq r) - int (length ss), pl_lastseq := last (pl_lastseq r # ss)\<rparr>) \<and>
    (\<forall>k. k \<noteq> ssrc \<longrightarrow> smap_find m' k = smap_find m k)"
  using assms
proof (induction ss arbitrary: m r)
  case (Cons s ss)
  let ?r = "r\<lparr>pl_lost := pl_lost r + (uint s - 1 - uint (pl_lastseq r)), pl_lastseq := s\<rparr>"
  have u: "pktloss_monitor_update ssrc s m = Some (smap_put m ssrc ?r)"
    using Cons.prems by (intro pktloss_step) auto
  have b: "\<bar>pl_lost ?r\<bar> + 65536 * (int (length ss) + 1) < 2 ^ 31"
  proof -
    have "\<bar>uint s - 1 - uint (pl_lastseq r)\<bar> \<le> 65536" using uint16_bounds [of s] uint16_bounds [of "pl_lastseq r"] by linarith
    then have "\<bar>pl_lost r + (uint s - 1 - uint (pl_lastseq r))\<bar> \<le> \<bar>pl_lost r\<bar> + 65536" by linarith
    then show ?thesis using Cons.prems(3) by simp
  qed
  obtain m' where m': "pktloss_feed ssrc ss (smap_put m ssrc ?r) = Some m'"
    "smap_find m' ssrc = Some (?r\<lparr>pl_lost := pl_lost ?r + uint (last (pl_lastseq ?r # ss)) - uint (pl_lastseq ?r) - int (length ss),
       pl_lastseq := last (pl_lastseq ?r # ss)\<rparr>)"
    "\<forall>k. k \<noteq> ssrc \<longrightarrow> smap_find m' k = smap_find (smap_put m ssrc ?r) k"
    using Cons.IH [of "smap_put m ssrc ?r" ?r] b Cons.prems(2) by (auto simp: smap_find_put)
  show ?case by (rule exI [of _ m']) (use u m' in \<open>simp add: smap_find_put algebra_simps\<close>)
qed simp


lemma pktloss_feed_new:
  assumes "smap_find m ssrc = None" "length ss < 30000"
  shows "\<exists>m'. pktloss_feed ssrc (s0 # ss) m = Some m' \<and>
    smap_find m' ssrc = Some \<lparr>pl_reset = 0, pl_lost = uint (last (s0 # ss)) - uint s0 - int (length ss), pl_ssrc = ssrc,
      pl_initseq = s0, pl_lastseq = last (s0 # ss)\<rparr>"
proof -
  let ?r = "\<lparr>pl_reset = 0, pl_lost = 0, pl_ssrc = ssrc, pl_initseq = s0, pl_lastseq = s0\<rparr>"
  have u: "pktloss_monitor_update ssrc s0 m = Some (smap_put m ssrc ?r)" using assms(1) by (simp add: pktloss_monitor_update_def)
  obtain m' where "pktloss_feed ssrc ss (smap_put m ssrc ?r) = Some m'"
    "smap_find m' ssrc = Some (?r\<lparr>pl_lost := uint (last (s0 # ss)) - uint s0 - int (length ss), pl_lastseq := last (s0 # ss)\<rparr>)"
    using pktloss_feed_from [of "smap_put m ssrc ?r" ssrc ?r ss] assms(2) by (auto simp: smap_find_put)
  then show ?thesis using u by (intro exI [of _ m']) simp
qed

text \<open>After any packets of a source, in any order, the monitor reports as expected the numbers from the first to the last
  packet and as lost the difference to the packets that arrived.\<close>

theorem pktloss_expected_minus_received:
  assumes "smap_find m ssrc = None" "length ss < 30000"
  shows "\<exists>m'. pktloss_feed ssrc (s0 # ss) m = Some m' \<and>
    fst (pktloss_monitor_get ssrc reset m') = uint (last (s0 # ss)) - uint s0 + 1 - int (length (s0 # ss)) \<and>
    fst (snd (pktloss_monitor_get ssrc reset m')) = Some (uint (last (s0 # ss)) - uint s0 + 1)"
  using pktloss_feed_new [OF assms, of s0] by (auto simp: pktloss_monitor_get_def)

theorem pktloss_expected_minus_received_witness:
  "\<exists>m'. pktloss_feed 7 [10, 12, 11, 15] [] = Some m' \<and> fst (pktloss_monitor_get 7 True m') = 2"
  using pktloss_expected_minus_received [of "[]" 7 "[12, 11, 15]" 10 True] by auto

text \<open>When the numbers wrap around, the monitor is wrong: on packets with consecutive numbers, none of them lost, every
  wrap takes 65536 from the count of lost packets.\<close>

theorem pktloss_wrap_negative:
  assumes "smap_find m ssrc = None" "a < 65536" "n < 30000"
  shows "\<exists>m'. pktloss_feed ssrc (map (\<lambda>i. of_nat (a + i)) [0..<Suc n]) m = Some m' \<and>
    fst (pktloss_monitor_get ssrc reset m') = - 65536 * int ((a + n) div 65536)"
proof -
  let ?s = "\<lambda>i. of_nat (a + i) :: u16"
  define ss where "ss = map ?s [Suc 0..<Suc n]"
  have c: "map ?s [0..<Suc n] = ?s 0 # ss" by (simp add: upt_rec ss_def)
  have "last (map ?s [0..<Suc n]) = ?s n" by simp
  then have l: "last (?s 0 # ss) = ?s n" unfolding c .
  have "uint (of_nat x :: u16) = int x mod 65536" for x by (simp add: unsigned_of_nat of_nat_take_bit take_bit_eq_mod of_nat_mod)
  then have u: "uint (?s i) = int (a + i) mod 65536" for i .
  have "uint (?s n) - uint (?s 0) - int (length ss) = - 65536 * int ((a + n) div 65536)"
    unfolding u using assms(2) by (simp add: ss_def zmod_int zdiv_int minus_div_mult_eq_mod [symmetric])
  then show ?thesis
    using pktloss_feed_new [OF assms(1), of ss "?s 0"] assms(3) unfolding c l by (auto simp: pktloss_monitor_get_def ss_def)
qed

theorem pktloss_wrap_negative_witness:
  "\<exists>m'. pktloss_feed 7 (map (\<lambda>i. of_nat (65534 + i)) [0..<Suc 5]) [] = Some m' \<and> fst (pktloss_monitor_get 7 True m') = - 65536"
  using pktloss_wrap_negative [of "[]" 7 65534 5 True] by simp


text \<open>Feeding the estimator with the packets of one source: number, arrival time, time stamp and size.\<close>

type_synonym bwe_packet = "u16 \<times> timeval \<times> u32 \<times> u32"

primrec bwe_feed :: "(u32 \<Rightarrow> u32 \<Rightarrow> u32) \<Rightarrow> byte list \<Rightarrow> u32 \<Rightarrow> bwe_packet list \<Rightarrow> bwe_watchlist \<Rightarrow> (bwe_watchlist \<times> byte list list) option" where
  "bwe_feed capacity msg ssrc [] wl = Some (wl, [])"
| "bwe_feed capacity msg ssrc (p # ps) wl = (case p of (seq, tv, ts, sz) \<Rightarrow> do {
     (wl, report) \<leftarrow> bandwidth_estimator_update capacity msg ssrc seq tv ts sz wl;
     (wl, reports) \<leftarrow> bwe_feed capacity msg ssrc ps wl;
     Some (wl, (case report of None \<Rightarrow> reports | Some m \<Rightarrow> m # reports)) })"

definition bwe_accounts :: "bwe_record \<Rightarrow> bwe_packet list \<Rightarrow> bool" where
  "bwe_accounts r qs = (qs \<noteq> [] \<and> pktcount r = pktloss r + of_nat (length qs) \<and>
     bytesRcvd r = sum_list (map (\<lambda>(seq, tv, ts, sz). sz) qs) \<and> lastPktSeq r = fst (last qs))"

lemma bwe_step_accounts:
  assumes "bandwidth_estimator_update capacity msg ssrc seq tv ts sz wl = Some (wl', report)" "smap_find wl ssrc = Some r" "bwe_accounts r qs"
  shows "\<exists>r'. smap_find wl' ssrc = Some r' \<and> bwe_accounts r' (if report = None then qs @ [(seq, tv, ts, sz)] else [(seq, tv, ts, sz)])"
  using assms
  by (auto simp: bandwidth_estimator_update_def bwe_sample_def Let_def smap_find_put bwe_accounts_def bwe_zero_def algebra_simps split: if_split_asm)

lemma bwe_feed_accounts:
  assumes "bwe_feed capacity msg ssrc ps wl = Some (wl', reports)" "smap_find wl ssrc = Some r" "bwe_accounts r qs0"
  shows "\<exists>r' qs. smap_find wl' ssrc = Some r' \<and> bwe_accounts r' qs \<and> suffix qs (qs0 @ ps) \<and> (reports = [] \<longrightarrow> qs = qs0 @ ps)"
  using assms
proof (induction ps arbitrary: wl r qs0 reports)
  case (Cons p ps)
  obtain seq tv ts sz where p: "p = (seq, tv, ts, sz)" by (cases p)
  from Cons.prems(1) obtain wl1 report reports1 where 1: "bandwidth_estimator_update capacity msg ssrc seq tv ts sz wl = Some (wl1, report)"
    "bwe_feed capacity msg ssrc ps wl1 = Some (wl', reports1)" "reports = (case report of None \<Rightarrow> reports1 | Some m \<Rightarrow> m # reports1)"
    by (auto simp: p)
  let ?qs = "if report = None then qs0 @ [p] else [p]"
  obtain r1 where "smap_find wl1 ssrc = Some r1" "bwe_accounts r1 ?qs" using bwe_step_accounts [OF 1(1) Cons.prems(2,3)] p by auto
  from Cons.IH [OF 1(2) this] obtain r' qs where q: "smap_find wl' ssrc = Some r'" "bwe_accounts r' qs" "suffix qs (?qs @ ps)"
    "reports1 = [] \<longrightarrow> qs = ?qs @ ps" by blast
  have "suffix (?qs @ ps) (qs0 @ p # ps)" by (cases report) (simp_all add: suffix_def)
  with q(3) have "suffix qs (qs0 @ p # ps)" by (rule suffix_order.trans)
  moreover have "reports = [] \<longrightarrow> qs = qs0 @ p # ps" using 1(3) q(4) by (cases report) simp_all
  ultimately show ?case using q(1,2) by blast
qed simp

text \<open>The accounts of the estimator balance: after any packets of a source, those since the last report (all of them
  when none was sent) are exactly the packets counted and not counted as lost, and their sizes are the bytes received.\<close>

theorem bwe_accounts_balance:
  assumes "bwe_feed capacity msg ssrc ps wl = Some (wl', reports)" "smap_find wl ssrc = None" "ps \<noteq> []"
  shows "\<exists>r qs. smap_find wl' ssrc = Some r \<and> suffix qs ps \<and> qs \<noteq> [] \<and> (reports = [] \<longrightarrow> qs = ps) \<and>
    pktcount r - pktloss r = of_nat (length qs) \<and> bytesRcvd r = sum_list (map (\<lambda>(seq, tv, ts, sz). sz) qs) \<and> lastPktSeq r = fst (last ps)"
proof -
  obtain seq tv ts sz ps' where p: "ps = (seq, tv, ts, sz) # ps'" using assms(3) by (cases ps) auto
  define r0 where "r0 = bwe_zero\<lparr>initTime := tv, framecount := 1, pktcount := 1, bytesRcvd := sz, lastPktSeq := seq,
    lastPktRcvdTimestamp := tv, lastPktSentTimestamp := ts, lastPktSize := sz\<rparr>"
  have f: "bwe_feed capacity msg ssrc ps' (smap_put wl ssrc r0) = Some (wl', reports)"
    using assms(1,2) by (auto simp: p bandwidth_estimator_update_def r0_def)
  have "bwe_accounts r0 [(seq, tv, ts, sz)]" by (simp add: bwe_accounts_def r0_def bwe_zero_def)
  from bwe_feed_accounts [OF f _ this] obtain r qs where "smap_find wl' ssrc = Some r" "bwe_accounts r qs" "suffix qs ps"
    "reports = [] \<longrightarrow> qs = ps" by (auto simp: smap_find_put p)
  moreover from this have "last qs = last ps" unfolding bwe_accounts_def by (auto simp: suffix_def)
  ultimately show ?thesis unfolding bwe_accounts_def by auto
qed

theorem bwe_accounts_balance_witness:
  "\<exists>wl' r. bwe_feed (\<lambda>_ _. 0) [] 7 [(1, tv_zero, 90, 1200), (4, tv_zero, 90, 300)] [] = Some (wl', []) \<and> smap_find wl' 7 = Some r \<and>
     pktcount r - pktloss r = 2 \<and> bytesRcvd r = 1500"
proof -
  obtain wl' where f: "bwe_feed (\<lambda>_ _. 0) [] 7 [(1, tv_zero, 90, 1200), (4, tv_zero, 90, 300)] [] = Some (wl', [])"
    by (simp add: bandwidth_estimator_update_def bwe_sample_def bwe_zero_def Let_def)
  from bwe_accounts_balance [OF this] show ?thesis using f by auto
qed

lemma bwe_gap:
  assumes "smap_find wl ssrc = Some r" "uint seq - 1 \<noteq> uint (lastPktSeq r)"
  shows "\<exists>wl' r'. bandwidth_estimator_update capacity msg ssrc seq tv ts sz wl = Some (wl', None) \<and> smap_find wl' ssrc = Some r' \<and>
    pktloss r' = pktloss r + ucast (seq - lastPktSeq r - 1) \<and> lastPktSeq r' = seq"
  using assms by (cases "ts = lastPktSentTimestamp r") (auto simp: bandwidth_estimator_update_def Let_def smap_find_put)

text \<open>Two packets of a source that change places count as 65536 lost packets, although none is lost.\<close>

theorem bwe_reordering_counts_as_loss:
  assumes "smap_find wl ssrc = Some r" "lastPktSeq r = s" "uint s < 65000"
  shows "\<exists>wl' r'. bwe_feed capacity msg ssrc [(s + 2, tv2, ts, n2), (s + 1, tv1, ts, n1), (s + 3, tv3, ts, n3)] wl = Some (wl', []) \<and>
    smap_find wl' ssrc = Some r' \<and> pktloss r' = pktloss r + 65536"
proof -
  have u: "uint (s + k) = uint s + uint k" if "uint k < 500" for k
    using assms(3) that uint16_bounds [of s] uint16_bounds [of k] by (simp add: uint_plus_simple_iff uint_word_ariths)
  have u: "uint (s + 1) = uint s + 1" "uint (s + 2) = uint s + 2" "uint (s + 3) = uint s + 3" using u [of 1] u [of 2] u [of 3] by simp_all
  have ne: "uint (s + 2) - 1 \<noteq> uint (lastPktSeq r)" using u assms(2) by simp
  obtain wl1 r1 where 1: "bandwidth_estimator_update capacity msg ssrc (s + 2) tv2 ts n2 wl = Some (wl1, None)" "smap_find wl1 ssrc = Some r1"
    "pktloss r1 = pktloss r + ucast (s + 2 - lastPktSeq r - 1)" "lastPktSeq r1 = s + 2"
    using bwe_gap [OF assms(1) ne] by blast
  have ne: "uint (s + 1) - 1 \<noteq> uint (lastPktSeq r1)" using u 1(4) by simp
  obtain wl2 r2 where 2: "bandwidth_estimator_update capacity msg ssrc (s + 1) tv1 ts n1 wl1 = Some (wl2, None)" "smap_find wl2 ssrc = Some r2"
    "pktloss r2 = pktloss r1 + ucast (s + 1 - lastPktSeq r1 - 1)" "lastPktSeq r2 = s + 1"
    using bwe_gap [OF 1(2) ne] by blast
  have ne: "uint (s + 3) - 1 \<noteq> uint (lastPktSeq r2)" using u 2(4) by simp
  obtain wl3 r3 where 3: "bandwidth_estimator_update capacity msg ssrc (s + 3) tv3 ts n3 wl2 = Some (wl3, None)" "smap_find wl3 ssrc = Some r3"
    "pktloss r3 = pktloss r2 + ucast (s + 3 - lastPktSeq r2 - 1)"
    using bwe_gap [OF 2(2) ne] by blast
  have "s + 2 - s - 1 = 1" "s + 1 - (s + 2) - 1 = - 2" "s + 3 - (s + 1) - 1 = 1" by simp_all
  then have "pktloss r3 = pktloss r + 65536" using 1(3,4) 2(3,4) 3(3) assms(2) by simp
  then show ?thesis using 1(1) 2(1) 3(1,2) by simp
qed

theorem bwe_reordering_counts_as_loss_witness:
  "\<exists>wl' r'. bwe_feed (\<lambda>_ _. 0) [] 7 [(12, tv_zero, 90, 100), (11, tv_zero, 90, 100), (13, tv_zero, 90, 100)] [(7, bwe_zero\<lparr>lastPktSeq := 10\<rparr>)] = Some (wl', [])
     \<and> smap_find wl' 7 = Some r' \<and> pktloss r' = 65536"
  using bwe_reordering_counts_as_loss [of "[(7, bwe_zero\<lparr>lastPktSeq := 10\<rparr>)]" 7 "bwe_zero\<lparr>lastPktSeq := 10\<rparr>" 10 "\<lambda>_ _. 0" "[]" tv_zero 90 100 tv_zero 100 tv_zero 100]
  by (simp add: bwe_zero_def)

text \<open>The handler reads the number, the time stamp and the source from the header of a packet.\<close>

lemma rtp_packet_handler_header:
  "rtp_packet_handler capacity msg tv ([x, y] @ rev (le16 seq) @ rev (le32 ts) @ rev (le32 ssrc) @ payload) s = do {
     (wl, report) \<leftarrow> bandwidth_estimator_update capacity msg ssrc seq tv ts (of_nat (12 + length payload)) (cs_watchlist s);
     m \<leftarrow> pktloss_monitor_update ssrc seq (cs_pktmap s);
     Some (\<lparr>cs_pktmap = m, cs_watchlist = wl\<rparr>, report) }"
proof -
  let ?p = "[x, y] @ rev (le16 seq) @ rev (le32 ts) @ rev (le32 ssrc) @ payload"
  have c2: "c_read ?p 2 2 = Some (rev (le16 seq))" by (rule c_read_append_at) simp_all
  have c4: "c_read (([x, y] @ rev (le16 seq)) @ rev (le32 ts) @ (rev (le32 ssrc) @ payload)) 4 4 = Some (rev (le32 ts))"
    by (rule c_read_append_at) simp_all
  have c8: "c_read (([x, y] @ rev (le16 seq) @ rev (le32 ts)) @ rev (le32 ssrc) @ payload) 8 4 = Some (rev (le32 ssrc))"
    by (rule c_read_append_at) simp_all
  have r: "rd16 ?p 2 = Some (htons seq)" "rd32 ?p 4 = Some (htonl ts)" "rd32 ?p 8 = Some (htonl ssrc)"
    using c4 c8 unfolding rd16_def rd32_def c2 append_assoc htons_def htonl_def by simp_all
  have l: "length ?p = 12 + length payload" by simp
  show ?thesis unfolding rtp_packet_handler_def l r bind.bind_lunit htons_htons htonl_htonl by simp
qed

text \<open>C23. A report that the estimator sends is understood by the server: its handler for network reports gets the numbers
  that the estimator had accumulated.\<close>

theorem bwe_report_reaches_server:
  assumes "bandwidth_estimator_update capacity msg ssrc seq tv ts sz wl = Some (wl', Some m)" "28 \<le> length msg"
    and "ctrlsys_set_handler tab 2 (Some h) = (old, tab')" "length tab = 3"
  shows "\<exists>r. smap_find wl ssrc = Some r \<and> 240 \<le> framecount r \<and> length m = 28 \<and>
    ctrlsys_handle_message tab' m 0 28 = Some (1, netreport_host [of_int (tvdiff_us tv (initTime r)), framecount r, pktcount r, pktloss r, bytesRcvd r,
      capacity (totalBytes r + lastPktSize r) (totalElapsed r + of_int (tvdiff_us tv (lastPktRcvdTimestamp r)))],
      Some (h, netreport_host [of_int (tvdiff_us tv (initTime r)), framecount r, pktcount r, pktloss r, bytesRcvd r,
      capacity (totalBytes r + lastPktSize r) (totalElapsed r + of_int (tvdiff_us tv (lastPktRcvdTimestamp r)))]))"
proof -
  from assms(1) obtain r m0 where r: "smap_find wl ssrc = Some r" "240 \<le> framecount r" "m = take 28 m0"
    and m0: "ctrlsys_netreport msg (of_int (tvdiff_us tv (initTime r))) (framecount r) (pktcount r) (pktloss r) (bytesRcvd r)
      (capacity (totalBytes r + lastPktSize r) (totalElapsed r + of_int (tvdiff_us tv (lastPktRcvdTimestamp r)))) = Some m0"
    by (auto simp: bandwidth_estimator_update_def bwe_sample_def Let_def split: option.splits if_split_asm)
  let ?xs = "[of_int (tvdiff_us tv (initTime r)), framecount r, pktcount r, pktloss r, bytesRcvd r,
      capacity (totalBytes r + lastPktSize r) (totalElapsed r + of_int (tvdiff_us tv (lastPktRcvdTimestamp r)))]"
  have "m0 = netreport_bytes (map htonl ?xs) @ drop 28 msg" using netreport_build [OF assms(2)] m0 by simp
  then have m: "m = netreport_bytes (map htonl ?xs)" by (simp add: r(3))
  show ?thesis
    using netreport_handled [OF ctrlsys_set_report_handler [OF assms(3,4)], where pre = "[]" and post = "[]"] r(1,2)
    by (intro exI [of _ r] conjI) (simp_all add: m)
qed

definition bwe_example :: bwe_record where
  "bwe_example = bwe_zero\<lparr>framecount := 240, pktcount := 5000, pktloss := 20, bytesRcvd := 7000, lastPktSeq := 10, lastPktSentTimestamp := 90, bw_samples := 2999\<rparr>"

theorem bwe_report_reaches_server_witness:
  "\<exists>wl' m. bandwidth_estimator_update (\<lambda>_ _. 800) (replicate 128 0) 7 11 tv_zero 90 100 [(7, bwe_example)] = Some (wl', Some m) \<and>
     ctrlsys_handle_message [None, None, Some ()] m 0 28 = Some (1, netreport_host [0, 240, 5000, 20, 7000, 800],
       Some ((), netreport_host [0, 240, 5000, 20, 7000, 800]))"
proof -
  obtain wl' m where u: "bandwidth_estimator_update (\<lambda>_ _. 800) (replicate 128 0) 7 11 tv_zero 90 100 [(7, bwe_example)] = Some (wl', Some m)"
    using netreport_build [of "replicate 128 0"]
    by (simp add: bandwidth_estimator_update_def bwe_sample_def Let_def bwe_example_def bwe_zero_def)
  have s: "ctrlsys_set_handler [None, None, None] 2 (Some ()) = (None, [None, None, Some ()])" by code_simp
  have t: "of_int (tvdiff_us tv_zero tv_zero) = (0 :: u32)" by (simp add: tvdiff_us_def tv_zero_def)
  from bwe_report_reaches_server [OF u _ s] show ?thesis
    using u by (auto simp: bwe_example_def bwe_zero_def t)
qed

end
