(* ===== verification/ClientSession.thy ===== *)
theory ClientSession
  imports ClientDecoders ClientQos ClientVideo ClientStats Complex_Main
begin

text \<open>
  The RTSP session of the client, \<open>client/rtspclient.cpp\<close>: the handlers of the answers of the server, which set up the
  subsessions one by one, start the stream and close it, and the sink that takes the frames. live555's client,
  session and scheduler call the handlers; what they promise (one answer to each request in the order of the requests, no call
  for a client that is closed, a timer only after it was set) are the conditions of the steps below. \<open>DummySink::createNew\<close>
  always gives a sink. Durations are exact.
\<close>

section \<open>State\<close>

record media_subsession =
  ms_initiate :: bool
  ms_medium :: string
  ms_codec :: string
  ms_fmt :: int
  ms_source :: "nat option"
  ms_rtcp :: bool
  ms_port :: u16
  ms_server_port :: u16
  ms_sprop :: "string option"
  ms_sprop_vps :: "string option"
  ms_sprop_sps :: "string option"
  ms_sprop_pps :: "string option"

record media_session =
  mse_subsessions :: "media_subsession list"
  mse_duration :: real

record session_env =
  se_decoders :: decoder_env
  se_conf :: ga_conf
  se_rtspconf :: rtspconf
  se_reordering :: u32
  se_server :: u32
  se_getsockname :: "nat \<Rightarrow> bool"

text \<open>What the client asks of live555 and of the network, in its order.\<close>

datatype client_call =
    Send_Describe
  | Send_Setup nat bool
  | Send_Play
  | Send_Teardown
  | Set_Read_Handler nat
  | Set_Reordering nat u32
  | Start_Playing nat
  | Set_Receive_Buffer nat nat
  | Punch nat u32 u16

text \<open>The client object with its \<open>StreamClientState\<close>, and the global variables.\<close>

record stream_client =
  sc_alive :: bool
  sc_session :: "media_session option"
  sc_iter :: nat
  sc_subsession :: "nat option"
  sc_sinks :: "bool list"
  sc_bye :: "bool list"
  sc_timer :: "nat option"
  sc_duration :: real
  sc_calls :: "client_call list"
  sc_count :: u32
  sc_quit :: bool
  sc_media :: client_media
  sc_port2channel :: "(u16, nat) smap"
  sc_qos :: qos_state

section \<open>Setting up\<close>

definition sprop_or_empty :: "string option \<Rightarrow> string" where
  "sprop_or_empty s = (case s of None \<Rightarrow> [] | Some s \<Rightarrow> s)"

text \<open>The parameter sets for the decoder; those of H.265 are printed into a buffer of 1024 bytes.\<close>

definition video_sprop :: "codec_id \<Rightarrow> media_subsession \<Rightarrow> string option" where
  "video_sprop cid x =
     (if cid = AV_CODEC_ID_H264 then ms_sprop x
      else if cid = AV_CODEC_ID_H265 then
        Some (take 1023 (sprop_or_empty (ms_sprop_vps x) @ '','' @ sprop_or_empty (ms_sprop_sps x) @ '','' @ sprop_or_empty (ms_sprop_pps x)))
      else None)"

text \<open>The reordering threshold is set on a source that must be there.\<close>

definition set_reordering :: "session_env \<Rightarrow> nat \<Rightarrow> media_subsession \<Rightarrow> stream_client \<Rightarrow> stream_client option" where
  "set_reordering env i x s =
     (if se_reordering env > 0 then do { src \<leftarrow> ms_source x; Some (s\<lparr>sc_calls := sc_calls s @ [Set_Reordering i (se_reordering env)]\<rparr>) } else Some s)"

text \<open>Whether to go on, and the state.\<close>

definition setup_video :: "session_env \<Rightarrow> nat \<Rightarrow> media_subsession \<Rightarrow> stream_client \<Rightarrow> (bool \<times> stream_client) option" where
  "setup_video env i x s = do {
     (let s = s\<lparr>sc_media := (sc_media s)\<lparr>video_sess_fmt := ms_fmt x, video_codec_name := Some (ms_codec x)\<rparr>,
                sc_qos := snd (qos_add_source (ms_codec x) (ms_source x) (sc_qos s))\<rparr>
      in do {
        src \<leftarrow> ms_source x;
        s \<leftarrow> set_reordering env i x (s\<lparr>sc_calls := sc_calls s @ [Set_Read_Handler i]\<rparr>);
        (case smap_find (sc_port2channel s) (ms_port x) of
           Some _ \<Rightarrow> Some (True, s)
         | None \<Rightarrow>
             (let cid = length (sc_port2channel s); codec = ga_lookup_codec_id (ms_codec x);
                  s = s\<lparr>sc_port2channel := smap_put (sc_port2channel s) (ms_port x) cid, sc_media := (sc_media s)\<lparr>video_codec_id := codec\<rparr>\<rparr>
              in do {
                (r, m) \<leftarrow> init_vdecoder (se_decoders env) cid (video_sprop codec x) (sc_media s);
                (if r < 0 then Some (False, s\<lparr>sc_media := m, sc_quit := True\<rparr>) else Some (True, s\<lparr>sc_media := m\<rparr>)) })) }) }"

definition setup_audio :: "session_env \<Rightarrow> nat \<Rightarrow> media_subsession \<Rightarrow> stream_client \<Rightarrow> (bool \<times> stream_client) option" where
  "setup_audio env i x s =
     (let s = s\<lparr>sc_media := (sc_media s)\<lparr>audio_sess_fmt := ms_fmt x, audio_codec_name := Some (ms_codec x)\<rparr>,
                sc_qos := snd (qos_add_source (ms_codec x) (ms_source x) (sc_qos s))\<rparr>
      in do {
        s \<leftarrow> set_reordering env i x s;
        (if adecoder (sc_media s) \<noteq> None then Some (True, s)
         else do {
           (r, m) \<leftarrow> init_adecoder (se_decoders env) (se_conf env) (se_rtspconf env) (sc_media s);
           (if r < 0 then Some (False, s\<lparr>sc_media := m, sc_quit := True\<rparr>) else Some (True, s\<lparr>sc_media := m\<rparr>)) }) })"

definition setup_media :: "session_env \<Rightarrow> nat \<Rightarrow> media_subsession \<Rightarrow> stream_client \<Rightarrow> (bool \<times> stream_client) option" where
  "setup_media env i x s =
     (if ms_medium x = ''video'' then setup_video env i x s
      else if ms_medium x = ''audio'' then setup_audio env i x s
      else Some (True, s))"

text \<open>The subsessions that the iterator has left; the recursion skips those that cannot be initiated.\<close>

primrec setup_from :: "session_env \<Rightarrow> real \<Rightarrow> media_subsession list \<Rightarrow> stream_client \<Rightarrow> stream_client option" where
  "setup_from env dur [] s = Some (s\<lparr>sc_subsession := None, sc_duration := dur, sc_calls := sc_calls s @ [Send_Play]\<rparr>)"
| "setup_from env dur (x # xs) s =
     (let i = sc_iter s; s = s\<lparr>sc_subsession := Some i, sc_iter := Suc i\<rparr>
      in if \<not> ms_initiate x then setup_from env dur xs s
         else do {
           (go, s) \<leftarrow> setup_media env i x s;
           (if go then Some (s\<lparr>sc_calls := sc_calls s @ [Send_Setup i (rc_proto (se_rtspconf env) = IPPROTO_TCP)]\<rparr>) else Some s) })"

definition setupNextSubsession :: "session_env \<Rightarrow> stream_client \<Rightarrow> stream_client option" where
  "setupNextSubsession env s = do {
     ms \<leftarrow> sc_session s;
     setup_from env (mse_duration ms) (drop (sc_iter s) (mse_subsessions ms)) s }"

section \<open>Closing\<close>

definition unsinked :: "bool list \<Rightarrow> bool list \<Rightarrow> bool list" where
  "unsinked sinks bye = map2 (\<lambda>s b. b \<and> \<not> s) sinks bye"

text \<open>A use of the client object after it was closed is undefined. Closing it reclaims its state and takes its timer out
  of the scheduler.\<close>

definition shutdownStream :: "stream_client \<Rightarrow> stream_client option" where
  "shutdownStream s =
     (if \<not> sc_alive s then None
      else if sc_count s = 0 then Some s
      else (let active = (\<exists>x \<in> set (sc_sinks s). x);
                s = (if sc_session s \<noteq> None then s\<lparr>sc_bye := unsinked (sc_sinks s) (sc_bye s), sc_sinks := map (\<lambda>_. False) (sc_sinks s)\<rparr> else s);
                s = (if sc_session s \<noteq> None \<and> active then s\<lparr>sc_calls := sc_calls s @ [Send_Teardown]\<rparr> else s);
                s = s\<lparr>sc_alive := False, sc_session := None, sc_timer := None, sc_count := sc_count s - 1\<rparr>
            in Some (if sc_count s = 0 then s\<lparr>sc_quit := True\<rparr> else s)))"

definition subsessionAfterPlaying :: "nat \<Rightarrow> stream_client \<Rightarrow> stream_client option" where
  "subsessionAfterPlaying i s =
     (let s = s\<lparr>sc_sinks := (sc_sinks s)[i := False]\<rparr>
      in if (\<exists>x \<in> set (sc_sinks s). x) then Some s else shutdownStream s)"

definition subsessionByeHandler :: "nat \<Rightarrow> stream_client \<Rightarrow> stream_client option" where
  "subsessionByeHandler i s = subsessionAfterPlaying i s"

definition streamTimerHandler :: "stream_client \<Rightarrow> stream_client option" where
  "streamTimerHandler s = shutdownStream (s\<lparr>sc_timer := None\<rparr>)"

section \<open>The answers of the server\<close>

text \<open>live555's session for the description is an argument; \<open>None\<close> when it cannot be made.\<close>

definition continueAfterDESCRIBE :: "session_env \<Rightarrow> int \<Rightarrow> media_session option \<Rightarrow> stream_client \<Rightarrow> stream_client option" where
  "continueAfterDESCRIBE env code ms s =
     (if code \<noteq> 0 then Some (s\<lparr>sc_quit := True\<rparr>)
      else case ms of
        None \<Rightarrow> Some (s\<lparr>sc_session := None, sc_quit := True\<rparr>)
      | Some se \<Rightarrow>
          (let n = length (mse_subsessions se); s = s\<lparr>sc_session := Some se, sc_sinks := replicate n False, sc_bye := replicate n False\<rparr>
           in if mse_subsessions se = [] then Some (s\<lparr>sc_quit := True\<rparr>)
              else setupNextSubsession env (s\<lparr>sc_iter := 0\<rparr>)))"

text \<open>Five packets of one byte, to the address of the server and the port of the subsession.\<close>

definition NATHolePunch :: "session_env \<Rightarrow> nat \<Rightarrow> media_subsession \<Rightarrow> client_call list" where
  "NATHolePunch env i x =
     (if se_server env = 0 \<or> se_server env = 0xFFFFFFFF then []
      else if ms_source x = None then []
      else if \<not> se_getsockname env i then []
      else replicate 5 (Punch i (se_server env) (ms_server_port x)))"

definition RCVBUF_SIZE :: nat where "RCVBUF_SIZE = 2097152"

definition start_sink :: "session_env \<Rightarrow> nat \<Rightarrow> media_subsession \<Rightarrow> stream_client \<Rightarrow> stream_client" where
  "start_sink env i x s =
     s\<lparr>sc_sinks := (sc_sinks s)[i := True], sc_bye := (if ms_rtcp x then (sc_bye s)[i := True] else sc_bye s),
       sc_calls := sc_calls s @ [Start_Playing i] @ (if ms_source x \<noteq> None then [Set_Receive_Buffer i RCVBUF_SIZE] else []) @ NATHolePunch env i x\<rparr>"

definition continueAfterSETUP :: "session_env \<Rightarrow> int \<Rightarrow> stream_client \<Rightarrow> stream_client option" where
  "continueAfterSETUP env code s = do {
     s \<leftarrow> (if code \<noteq> 0 then Some s
           else do {
             ms \<leftarrow> sc_session s;
             i \<leftarrow> sc_subsession s;
             x \<leftarrow> c_get (mse_subsessions ms) (int i);
             Some (start_sink env i x s) });
     setupNextSubsession env s }"

text \<open>The time is a conversion to \<open>unsigned\<close>, undefined when it does not fit.\<close>

definition continueAfterPLAY :: "timeval \<Rightarrow> timeval \<Rightarrow> int \<Rightarrow> stream_client \<Rightarrow> stream_client option" where
  "continueAfterPLAY now now2 code s =
     (if code \<noteq> 0 then shutdownStream s
      else do {
        s \<leftarrow> (if sc_duration s > 0 then
               (let d = sc_duration s + 2; us = nat \<lfloor>d * 1000000\<rfloor>
                in if us < 2 ^ 32 then Some (s\<lparr>sc_duration := d, sc_timer := Some us\<rparr>) else None)
             else Some s);
        Some (s\<lparr>sc_qos := snd (qos_start now now2 (sc_qos s))\<rparr>) })"

section \<open>The thread\<close>

text \<open>The variables that the thread resets before it opens the connection; decoders and the state of the queue stay.\<close>

definition reset_media :: "client_media \<Rightarrow> client_media" where
  "reset_media m = m\<lparr>video_sess_fmt := -1, audio_sess_fmt := -1, video_codec_name := None, audio_codec_name := None\<rparr>"

definition openURL :: "bool \<Rightarrow> stream_client \<Rightarrow> stream_client option" where
  "openURL created s =
     (if \<not> created then None else Some (s\<lparr>sc_alive := True, sc_count := sc_count s + 1, sc_calls := sc_calls s @ [Send_Describe]\<rparr>))"

definition rtsp_thread_start :: "client_media \<Rightarrow> qos_state \<Rightarrow> bool \<Rightarrow> stream_client option" where
  "rtsp_thread_start m q created =
     openURL created \<lparr>sc_alive = False, sc_session = None, sc_iter = 0, sc_subsession = None, sc_sinks = [], sc_bye = [], sc_timer = None, sc_duration = 0,
       sc_calls = [], sc_count = 0, sc_quit = False, sc_media = reset_media m, sc_port2channel = [], sc_qos = qos_init True q\<rparr>"

text \<open>After the loop.\<close>

definition rtsp_thread_end :: "stream_client \<Rightarrow> stream_client option" where
  "rtsp_thread_end s = shutdownStream (s\<lparr>sc_qos := qos_deinit (sc_qos s)\<rparr>)"

section \<open>Steps\<close>

text \<open>The calls that the server answers; nobody waits for the answer to a teardown.\<close>

fun is_request :: "client_call \<Rightarrow> bool" where
  "is_request Send_Describe = True"
| "is_request (Send_Setup i tcp) = True"
| "is_request Send_Play = True"
| "is_request c = False"

definition requests :: "stream_client \<Rightarrow> client_call list" where
  "requests s = filter is_request (sc_calls s)"

definition teardowns :: "stream_client \<Rightarrow> nat" where
  "teardowns s = length (filter ((=) Send_Teardown) (sc_calls s))"

text \<open>The request that waits for its answer, after \<open>a\<close> answers.\<close>

definition outstanding :: "stream_client \<Rightarrow> nat \<Rightarrow> client_call option" where
  "outstanding s a = (if a < length (requests s) then Some (requests s ! a) else None)"

text \<open>A step of the scheduler: \<open>dsc\<close> is the session that live555 makes of the description.\<close>

inductive client_step :: "session_env \<Rightarrow> media_session option \<Rightarrow> stream_client \<times> nat \<Rightarrow> stream_client \<times> nat \<Rightarrow> bool" for env dsc where
  described: "sc_alive s \<Longrightarrow> outstanding s a = Some Send_Describe \<Longrightarrow> continueAfterDESCRIBE env code dsc s = Some s' \<Longrightarrow> client_step env dsc (s, a) (s', Suc a)"
| set_up: "sc_alive s \<Longrightarrow> outstanding s a = Some (Send_Setup i tcp) \<Longrightarrow> continueAfterSETUP env code s = Some s' \<Longrightarrow> client_step env dsc (s, a) (s', Suc a)"
| played: "sc_alive s \<Longrightarrow> outstanding s a = Some Send_Play \<Longrightarrow> continueAfterPLAY now now2 code s = Some s' \<Longrightarrow> client_step env dsc (s, a) (s', Suc a)"
| closed: "sc_alive s \<Longrightarrow> i < length (sc_sinks s) \<Longrightarrow> sc_sinks s ! i \<Longrightarrow> subsessionAfterPlaying i s = Some s' \<Longrightarrow> client_step env dsc (s, a) (s', a)"
| bye: "sc_alive s \<Longrightarrow> i < length (sc_bye s) \<Longrightarrow> sc_bye s ! i \<Longrightarrow> subsessionByeHandler i s = Some s' \<Longrightarrow> client_step env dsc (s, a) (s', a)"
| timer: "sc_alive s \<Longrightarrow> sc_timer s \<noteq> None \<Longrightarrow> streamTimerHandler s = Some s' \<Longrightarrow> client_step env dsc (s, a) (s', a)"
| report: "qos_task (sc_qos s) \<noteq> None \<Longrightarrow> client_step env dsc (s, a) (s\<lparr>sc_qos := fst (qos_report st now now2 (sc_qos s))\<rparr>, a)"
| user_quit: "client_step env dsc (s, a) (s\<lparr>sc_quit := True\<rparr>, a)"

inductive client_reach :: "session_env \<Rightarrow> media_session option \<Rightarrow> stream_client \<times> nat \<Rightarrow> bool" for env dsc where
  start: "rtsp_thread_start m q True = Some s \<Longrightarrow> client_reach env dsc (s, 0)"
| step: "client_reach env dsc x \<Longrightarrow> client_step env dsc x y \<Longrightarrow> client_reach env dsc y"

section \<open>The order of the requests, and the end\<close>

definition described_subsessions :: "media_session option \<Rightarrow> media_subsession list" where
  "described_subsessions dsc = (case dsc of None \<Rightarrow> [] | Some ms \<Rightarrow> mse_subsessions ms)"

text \<open>The set-up requests for the first \<open>k\<close> subsessions.\<close>

definition setups :: "session_env \<Rightarrow> media_session option \<Rightarrow> nat \<Rightarrow> client_call list" where
  "setups env dsc k = map (\<lambda>i. Send_Setup i (rc_proto (se_rtspconf env) = IPPROTO_TCP))
     (filter (\<lambda>i. ms_initiate (described_subsessions dsc ! i)) [0..<k])"

abbreviation asked :: "session_env \<Rightarrow> media_session option \<Rightarrow> nat \<Rightarrow> stream_client \<Rightarrow> bool" where
  "asked env dsc k s \<equiv> requests s = Send_Describe # setups env dsc k"

abbreviation asked_play :: "session_env \<Rightarrow> media_session option \<Rightarrow> stream_client \<Rightarrow> bool" where
  "asked_play env dsc s \<equiv> requests s = Send_Describe # setups env dsc (length (described_subsessions dsc)) @ [Send_Play]"

text \<open>Nothing but the media, the reports, the calls and the wish to quit.\<close>

definition same_client :: "stream_client \<Rightarrow> stream_client \<Rightarrow> bool" where
  "same_client s s' = (sc_alive s' = sc_alive s \<and> sc_session s' = sc_session s \<and> sc_sinks s' = sc_sinks s \<and> sc_bye s' = sc_bye s \<and>
     sc_timer s' = sc_timer s \<and> sc_count s' = sc_count s \<and> teardowns s' = teardowns s)"

lemma same_client_refl [simp]: "same_client s s" by (simp add: same_client_def)

lemma same_client_trans: "same_client s s1 \<Longrightarrow> same_client s1 s2 \<Longrightarrow> same_client s s2" by (simp add: same_client_def)

text \<open>Nor the iterator and the requests.\<close>

definition framed :: "stream_client \<Rightarrow> stream_client \<Rightarrow> bool" where
  "framed s s' = (same_client s s' \<and> requests s' = requests s \<and> sc_iter s' = sc_iter s \<and> sc_subsession s' = sc_subsession s)"

lemma framed_trans: "framed s s1 \<Longrightarrow> framed s1 s2 \<Longrightarrow> framed s s2"
  by (auto simp: framed_def same_client_def)

lemma framed_updates:
  "framed s s' \<Longrightarrow> framed s (s'\<lparr>sc_media := m\<rparr>)" "framed s s' \<Longrightarrow> framed s (s'\<lparr>sc_qos := q\<rparr>)"
  "framed s s' \<Longrightarrow> framed s (s'\<lparr>sc_port2channel := p\<rparr>)" "framed s s' \<Longrightarrow> framed s (s'\<lparr>sc_quit := b\<rparr>)"
  "framed s s' \<Longrightarrow> \<not> is_request c \<and> c \<noteq> Send_Teardown \<Longrightarrow> framed s (s'\<lparr>sc_calls := sc_calls s' @ [c]\<rparr>)"
  by (auto simp: framed_def same_client_def requests_def teardowns_def)

lemma framed_refl: "framed s s" by (simp add: framed_def)

lemma set_reordering_framed: "set_reordering env i x s = Some s' \<Longrightarrow> framed s s'"
  by (cases "ms_source x") (auto simp: set_reordering_def framed_refl intro: framed_updates split: if_splits)

lemma setup_video_framed:
  assumes "setup_video env i x s = Some (go, s')"
  shows "framed s s' \<and> (go \<or> sc_quit s')"
proof -
  define s0 where "s0 = s\<lparr>sc_media := (sc_media s)\<lparr>video_sess_fmt := ms_fmt x, video_codec_name := Some (ms_codec x)\<rparr>,
      sc_qos := snd (qos_add_source (ms_codec x) (ms_source x) (sc_qos s))\<rparr>"
  have s0: "framed s (s0\<lparr>sc_calls := sc_calls s0 @ [Set_Read_Handler i]\<rparr>)" unfolding s0_def by (rule framed_updates(5), (rule framed_updates framed_refl)+) simp
  obtain s1 where r: "set_reordering env i x (s0\<lparr>sc_calls := sc_calls s0 @ [Set_Read_Handler i]\<rparr>) = Some s1"
    using assms unfolding setup_video_def Let_def s0_def [symmetric] by (auto simp: bind_eq_Some_conv)
  note f1 = framed_trans [OF s0 set_reordering_framed [OF r]]
  show ?thesis
  proof (cases "smap_find (sc_port2channel s1) (ms_port x)")
    case (Some c)
    then have "s' = s1 \<and> go" using assms r unfolding setup_video_def Let_def s0_def [symmetric] by (auto simp: bind_eq_Some_conv)
    with f1 show ?thesis by simp
  next
    case None
    then show ?thesis using assms r unfolding setup_video_def Let_def s0_def [symmetric]
      by (auto simp: bind_eq_Some_conv split: if_splits intro!: framed_updates f1)
  qed
qed

lemma setup_audio_framed:
  assumes "setup_audio env i x s = Some (go, s')"
  shows "framed s s' \<and> (go \<or> sc_quit s')"
proof -
  define s0 where "s0 = s\<lparr>sc_media := (sc_media s)\<lparr>audio_sess_fmt := ms_fmt x, audio_codec_name := Some (ms_codec x)\<rparr>,
      sc_qos := snd (qos_add_source (ms_codec x) (ms_source x) (sc_qos s))\<rparr>"
  have s0: "framed s s0" unfolding s0_def by (rule framed_updates framed_refl)+
  obtain s1 where r: "set_reordering env i x s0 = Some s1"
    using assms unfolding setup_audio_def Let_def s0_def [symmetric] by (auto simp: bind_eq_Some_conv)
  note f1 = framed_trans [OF s0 set_reordering_framed [OF r]]
  show ?thesis using assms r f1 unfolding setup_audio_def Let_def s0_def [symmetric]
    by (auto simp: bind_eq_Some_conv split: if_splits intro!: framed_updates f1)
qed

lemma setup_media_framed: "setup_media env i x s = Some (go, s') \<Longrightarrow> framed s s' \<and> (go \<or> sc_quit s')"
  using setup_video_framed setup_audio_framed by (auto simp: setup_media_def framed_refl split: if_splits)

lemma setups_Suc: "setups env dsc (Suc k) = setups env dsc k @
    (if ms_initiate (described_subsessions dsc ! k) then [Send_Setup k (rc_proto (se_rtspconf env) = IPPROTO_TCP)] else [])"
  by (simp add: setups_def)

text \<open>Setting up goes on to the next subsession that can be initiated, gives up when its decoder fails, or plays.\<close>

lemma setup_from_asks:
  assumes "setup_from env dur xs s = Some s'" "xs = drop (sc_iter s) (described_subsessions dsc)" "sc_iter s \<le> length (described_subsessions dsc)"
    "asked env dsc (sc_iter s) s"
  shows "same_client s s' \<and> (requests s' = requests s \<and> sc_quit s' \<or> length (requests s') = Suc (length (requests s)) \<and>
    (asked env dsc (sc_iter s') s' \<and> sc_iter s' \<le> length (described_subsessions dsc) \<or> asked_play env dsc s'))"
  using assms
proof (induction xs arbitrary: s)
  case Nil
  then have "sc_iter s = length (described_subsessions dsc)" by simp
  with Nil show ?case by (auto simp: same_client_def teardowns_def requests_def)
next
  case (Cons x xs)
  define s1 where "s1 = s\<lparr>sc_subsession := Some (sc_iter s), sc_iter := Suc (sc_iter s)\<rparr>"
  have x: "x = described_subsessions dsc ! sc_iter s" "sc_iter s < length (described_subsessions dsc)" "xs = drop (Suc (sc_iter s)) (described_subsessions dsc)"
    using Cons.prems(2) by (metis nth_via_drop, metis drop_all leI list.distinct(1), metis drop_Suc tl_drop list.sel(3))
  have s1: "same_client s s1" "requests s1 = requests s" by (simp_all add: same_client_def requests_def teardowns_def s1_def)
  show ?case
  proof (cases "ms_initiate x")
    case False
    then have "setup_from env dur xs s1 = Some s'" using Cons.prems(1) by (simp add: s1_def Let_def)
    moreover have "asked env dsc (sc_iter s1) s1" using Cons.prems(4) False x(1) s1(2) by (simp add: s1_def setups_Suc)
    moreover have "xs = drop (sc_iter s1) (described_subsessions dsc)" "sc_iter s1 \<le> length (described_subsessions dsc)"
      using x by (simp_all add: s1_def)
    ultimately show ?thesis using Cons.IH [of s1] same_client_trans [OF s1(1)] unfolding s1(2) by blast
  next
    case True
    then have "\<exists>go s2. setup_media env (sc_iter s) x s1 = Some (go, s2)" using Cons.prems(1) by (auto simp: s1_def bind_eq_Some_conv Let_def)
    then obtain go s2 where m: "setup_media env (sc_iter s) x s1 = Some (go, s2)" by blast
    then have s': "s' = (if go then s2\<lparr>sc_calls := sc_calls s2 @ [Send_Setup (sc_iter s) (rc_proto (se_rtspconf env) = IPPROTO_TCP)]\<rparr> else s2)"
      using Cons.prems(1) True by (simp add: s1_def Let_def split: if_splits)
    from setup_media_framed [OF m] have s2: "same_client s1 s2" "requests s2 = requests s" "sc_iter s2 = Suc (sc_iter s)" "go \<or> sc_quit s2"
      using s1(2) by (simp_all add: framed_def s1_def)
    show ?thesis
    proof (cases go)
      case False
      with s' s1 s2 show ?thesis using same_client_trans by auto
    next
      case go: True
      have "same_client s s'" using same_client_trans [OF s1(1) s2(1)] s' go by (simp add: same_client_def teardowns_def)
      moreover have "requests s' = requests s @ [Send_Setup (sc_iter s) (rc_proto (se_rtspconf env) = IPPROTO_TCP)]"
        using s' go s2(2) by (simp add: requests_def)
      ultimately show ?thesis using s' go s2(3) Cons.prems(4) True x by (simp add: setups_Suc)
    qed
  qed
qed

text \<open>The requests sent and answered so far: the description waits, or something has failed, or a set-up waits, or the session plays.\<close>

definition phase :: "session_env \<Rightarrow> media_session option \<Rightarrow> nat \<Rightarrow> client_call list \<Rightarrow> nat \<Rightarrow> bool \<Rightarrow> bool" where
  "phase env dsc a rq iter quit = (let n = length (described_subsessions dsc) in
     (rq = [Send_Describe] \<and> a = 0) \<or>
     (a = length rq \<and> quit \<and> (\<exists>k\<le>n. rq = Send_Describe # setups env dsc k)) \<or>
     (rq = Send_Describe # setups env dsc iter \<and> iter \<le> n \<and> Suc a = length rq \<and> 1 \<le> a \<and> dsc \<noteq> None) \<or>
     (rq = Send_Describe # setups env dsc n @ [Send_Play] \<and> (Suc a = length rq \<or> a = length rq)))"

lemma phase_quit: "phase env dsc a rq iter quit \<Longrightarrow> phase env dsc a rq iter True"
  by (auto simp: phase_def Let_def)

lemma setups_are_setups: "c \<in> set (setups env dsc k) \<Longrightarrow> \<exists>i tcp. c = Send_Setup i tcp"
  by (auto simp: setups_def)

lemma phase_outstanding:
  assumes "phase env dsc a rq iter quit" "a < length rq" "c = rq ! a"
  shows "c = Send_Describe \<Longrightarrow> rq = [Send_Describe] \<and> a = 0"
    "c = Send_Setup i tcp \<Longrightarrow> rq = Send_Describe # setups env dsc iter \<and> iter \<le> length (described_subsessions dsc) \<and> Suc a = length rq \<and> 1 \<le> a"
    "c = Send_Play \<Longrightarrow> rq = Send_Describe # setups env dsc (length (described_subsessions dsc)) @ [Send_Play] \<and> Suc a = length rq \<and> 1 \<le> a"
proof -
  have "(Send_Describe # setups env dsc iter) ! a \<in> set (setups env dsc iter)" if "1 \<le> a" "a < length (Send_Describe # setups env dsc iter)"
    using that by (cases a) simp_all
  then have 3: "\<exists>i tcp. c = Send_Setup i tcp" if "rq = Send_Describe # setups env dsc iter" "1 \<le> a"
    using that assms(2,3) setups_are_setups by metis
  show "rq = [Send_Describe] \<and> a = 0" if "c = Send_Describe"
    using assms 3 that by (auto simp: phase_def Let_def nth_append)
  show "rq = Send_Describe # setups env dsc iter \<and> iter \<le> length (described_subsessions dsc) \<and> Suc a = length rq \<and> 1 \<le> a" if "c = Send_Setup i tcp"
    using assms 3 that by (auto simp: phase_def Let_def nth_append)
  show "rq = Send_Describe # setups env dsc (length (described_subsessions dsc)) @ [Send_Play] \<and> Suc a = length rq \<and> 1 \<le> a" if "c = Send_Play"
    using assms 3 that by (auto simp: phase_def Let_def nth_append)
qed

definition client_inv :: "session_env \<Rightarrow> media_session option \<Rightarrow> stream_client \<Rightarrow> nat \<Rightarrow> bool" where
  "client_inv env dsc s a =
    ((sc_alive s \<longrightarrow> sc_count s = 1 \<and> teardowns s = 0 \<and> (sc_session s = None \<longrightarrow> sc_sinks s = [])) \<and>
     (\<not> sc_alive s \<longrightarrow> sc_count s = 0 \<and> teardowns s \<le> 1 \<and> sc_quit s \<and> sc_timer s = None \<and> (\<forall>x \<in> set (sc_sinks s). \<not> x)) \<and>
     (sc_alive s \<and> a = 0 \<longrightarrow> sc_session s = None) \<and>
     (sc_alive s \<and> 1 \<le> a \<and> a < length (requests s) \<longrightarrow> sc_session s = dsc) \<and>
     phase env dsc a (requests s) (sc_iter s) (sc_quit s))"

lemma client_inv_quit: "client_inv env dsc s a \<Longrightarrow> client_inv env dsc (s\<lparr>sc_quit := True\<rparr>) a"
  by (auto simp: client_inv_def requests_def teardowns_def intro: phase_quit)

lemma shutdown_inv:
  assumes "client_inv env dsc s a" "shutdownStream s = Some s'"
  shows "client_inv env dsc s' a"
proof -
  have al: "sc_alive s" "sc_count s = 1" "teardowns s = 0" "sc_session s = None \<Longrightarrow> sc_sinks s = []"
    using assms by (auto simp: client_inv_def shutdownStream_def split: if_splits)
  have "requests s' = requests s" "sc_iter s' = sc_iter s" "\<not> sc_alive s'" "sc_count s' = 0" "sc_quit s'" "sc_timer s' = None"
    using assms(2) al by (auto simp: shutdownStream_def Let_def requests_def split: if_splits)
  moreover have "teardowns s' \<le> 1" "\<forall>x \<in> set (sc_sinks s'). \<not> x"
    using assms(2) al by (auto simp: shutdownStream_def Let_def teardowns_def split: if_splits)
  moreover have "phase env dsc a (requests s) (sc_iter s) True" using assms(1) phase_quit by (auto simp: client_inv_def)
  ultimately show ?thesis by (simp add: client_inv_def)
qed

lemma after_playing_inv:
  assumes "client_inv env dsc s a" "sc_alive s" "subsessionAfterPlaying i s = Some s'"
  shows "client_inv env dsc s' a"
proof -
  have "client_inv env dsc (s\<lparr>sc_sinks := (sc_sinks s)[i := False]\<rparr>) a"
    using assms(1,2) by (auto simp: client_inv_def requests_def teardowns_def)
  with assms(3) shutdown_inv show ?thesis by (auto simp: subsessionAfterPlaying_def Let_def split: if_splits)
qed

text \<open>A set-up answered, or the description: the next request, whatever is done to the sinks before.\<close>

lemma setup_next_inv:
  assumes "setupNextSubsession env s = Some s'" "sc_alive s" "sc_count s = 1" "teardowns s = 0" "sc_session s = dsc" "dsc \<noteq> None"
    "asked env dsc (sc_iter s) s" "sc_iter s \<le> length (described_subsessions dsc)" "a = length (requests s)"
  shows "client_inv env dsc s' a"
proof -
  obtain ms where ms: "dsc = Some ms" "sc_session s = Some ms" using assms(5,6) by auto
  then have sf: "setup_from env (mse_duration ms) (drop (sc_iter s) (described_subsessions dsc)) s = Some s'"
    using assms(1) by (simp add: setupNextSubsession_def described_subsessions_def)
  have a: "1 \<le> a" using assms(7,9) by simp
  from setup_from_asks [OF sf refl assms(8,7)] assms(2-9) a
  show ?thesis
    by (auto simp: client_inv_def same_client_def phase_def Let_def)
qed

lemma client_step_inv:
  assumes "client_step env dsc (s, a) (s', a')" "client_inv env dsc s a"
  shows "client_inv env dsc s' a'"
  using assms(1)
proof cases
  case (described code)
  have o: "requests s = [Send_Describe]" "a = 0"
    using phase_outstanding(1) [of env dsc a "requests s" "sc_iter s" "sc_quit s" Send_Describe] described(3) assms(2)
    by (auto simp: client_inv_def outstanding_def split: if_splits)
  have i: "sc_count s = 1" "teardowns s = 0" "sc_sinks s = []" using assms(2) described(2) o(2) by (auto simp: client_inv_def)
  have fail: "client_inv env dsc (s1\<lparr>sc_quit := True\<rparr>) (Suc a)"
    if "sc_alive s1" "sc_count s1 = 1" "teardowns s1 = 0" "sc_sinks s1 = []" "requests s1 = [Send_Describe]" for s1
    using that o by (auto simp: client_inv_def phase_def Let_def requests_def teardowns_def setups_def intro!: exI [of _ 0])
  consider "s' = s\<lparr>sc_quit := True\<rparr>" | "s' = s\<lparr>sc_session := None, sc_quit := True\<rparr>"
    | "s' = s\<lparr>sc_session := dsc, sc_sinks := [], sc_bye := [], sc_quit := True\<rparr>"
    | ms n where "dsc = Some ms"
      "setupNextSubsession env (s\<lparr>sc_session := dsc, sc_sinks := replicate n False, sc_bye := replicate n False, sc_iter := 0\<rparr>) = Some s'"
    using described(4) by (auto simp: continueAfterDESCRIBE_def Let_def split: if_splits option.splits)
  then show ?thesis
  proof cases
    case 1
    then show ?thesis using fail [of s] described(1,2) i o by simp
  next
    case 2
    then show ?thesis using fail [of "s\<lparr>sc_session := None\<rparr>"] described(1,2) i o by (simp add: requests_def teardowns_def)
  next
    case 3
    then show ?thesis using fail [of "s\<lparr>sc_session := dsc, sc_sinks := [], sc_bye := []\<rparr>"] described(1,2) i o
      by (simp add: requests_def teardowns_def)
  next
    case (4 ms n)
    from setup_next_inv [OF 4(2)] show ?thesis
      using described(1,2) 4(1) i o by (simp add: requests_def teardowns_def setups_def)
  qed
next
  case (set_up i tcp code)
  have o: "asked env dsc (sc_iter s) s" "sc_iter s \<le> length (described_subsessions dsc)" "Suc a = length (requests s)" "1 \<le> a"
    using phase_outstanding(2) [of env dsc a "requests s" "sc_iter s" "sc_quit s" "Send_Setup i tcp" i tcp] set_up(3) assms(2)
    by (auto simp: client_inv_def outstanding_def split: if_splits)
  have se: "sc_session s = dsc" "sc_count s = 1" "teardowns s = 0" using assms(2) set_up(2) o(3,4) by (auto simp: client_inv_def)
  obtain s1 where s1: "s1 = s \<or> (\<exists>i x. s1 = start_sink env i x s)" "setupNextSubsession env s1 = Some s'"
    using set_up(4) by (auto simp: continueAfterSETUP_def bind_eq_Some_conv split: if_splits)
  have "sc_session s1 \<noteq> None" using s1(2) by (auto simp: setupNextSubsession_def bind_eq_Some_conv)
  moreover have "sc_alive s1 = sc_alive s" "sc_count s1 = sc_count s" "teardowns s1 = teardowns s" "sc_session s1 = sc_session s" "requests s1 = requests s" "sc_iter s1 = sc_iter s"
    using s1(1) by (auto simp: start_sink_def requests_def teardowns_def NATHolePunch_def)
  ultimately show ?thesis using setup_next_inv [OF s1(2)] set_up(1,2) se o by simp
next
  case (played now now2 code)
  have o: "asked_play env dsc s" "Suc a = length (requests s)" "1 \<le> a"
    using phase_outstanding(3) [of env dsc a "requests s" "sc_iter s" "sc_quit s" Send_Play] played(3) assms(2)
    by (auto simp: client_inv_def outstanding_def split: if_splits)
  have "client_inv env dsc s (Suc a)" using assms(2) o played(2) by (auto simp: client_inv_def phase_def Let_def)
  then show ?thesis using played(1,4) shutdown_inv [of env dsc s "Suc a" s'] played(2)
    by (auto simp: continueAfterPLAY_def Let_def bind_eq_Some_conv client_inv_def requests_def teardowns_def split: if_splits)
next
  case (closed i)
  then show ?thesis using after_playing_inv assms(2) by blast
next
  case (bye i)
  then show ?thesis using after_playing_inv assms(2) by (auto simp: subsessionByeHandler_def)
next
  case timer
  have "client_inv env dsc (s\<lparr>sc_timer := None\<rparr>) a" using assms(2) by (auto simp: client_inv_def requests_def teardowns_def)
  then show ?thesis using timer shutdown_inv by (auto simp: streamTimerHandler_def)
next
  case (report st now now2)
  then show ?thesis using assms(2) by (auto simp: client_inv_def requests_def teardowns_def)
next
  case user_quit
  then show ?thesis using client_inv_quit assms(2) by simp
qed

lemma client_start_inv: "rtsp_thread_start m q True = Some s \<Longrightarrow> client_inv env dsc s 0"
  by (auto simp: rtsp_thread_start_def openURL_def client_inv_def requests_def teardowns_def phase_def Let_def)

lemma client_reach_inv: "client_reach env dsc x \<Longrightarrow> client_inv env dsc (fst x) (snd x)"
proof (induction rule: client_reach.induct)
  case (start m q s)
  then show ?case using client_start_inv by simp
next
  case (step x y)
  then show ?case using client_step_inv [of env dsc "fst x" "snd x" "fst y" "snd y"] by simp
qed

text \<open>C4. The client asks in order and waits for every answer: in whatever order the server's answers, closed sources, goodbyes, the timer, the
  reports and the user's wish to quit arrive, the requests sent so far are the description, the set-ups of the subsessions that
  can be initiated in the order of the description (those of a first part of them), and the play request
  only behind the set-ups of all; there is never a second request without an answer.\<close>

theorem client_session_order:
  assumes "client_reach env dsc (s, a)"
  shows "((\<exists>k \<le> length (described_subsessions dsc). asked env dsc k s) \<or> asked_play env dsc s) \<and> a \<le> length (requests s) \<and> length (requests s) \<le> Suc a"
proof -
  have "phase env dsc a (requests s) (sc_iter s) (sc_quit s)" using client_reach_inv [OF assms] by (simp add: client_inv_def)
  moreover have "setups env dsc 0 = []" by (simp add: setups_def)
  ultimately show ?thesis by (auto simp: phase_def Let_def)
qed

text \<open>C35. The stream is closed once: at every moment the client object either lives, and then nothing has been torn down and the end of the thread closes
  it with all its sinks and its timer, sending a teardown exactly when a sink is open; or it is gone, and then
  at most one teardown was sent, every sink is closed, no timer is left and the thread has been told to quit. But in that
  second case the end of the thread uses the client that is gone.\<close>

theorem client_session_end:
  assumes "client_reach env dsc (s, a)"
  shows "if sc_alive s
    then teardowns s = 0 \<and> (\<exists>s'. rtsp_thread_end s = Some s' \<and> \<not> sc_alive s' \<and> sc_count s' = 0 \<and> sc_timer s' = None \<and> (\<forall>x \<in> set (sc_sinks s'). \<not> x) \<and>
      teardowns s' = (if \<exists>x \<in> set (sc_sinks s). x then 1 else 0))
    else teardowns s \<le> 1 \<and> (\<forall>x \<in> set (sc_sinks s). \<not> x) \<and> sc_timer s = None \<and> sc_quit s \<and> rtsp_thread_end s = None"
proof (cases "sc_alive s")
  case False
  then show ?thesis using client_reach_inv [OF assms] by (auto simp: client_inv_def rtsp_thread_end_def shutdownStream_def)
next
  case True
  then have "sc_count s = 1" "teardowns s = 0" "sc_session s = None \<longrightarrow> sc_sinks s = []" using client_reach_inv [OF assms] by (simp_all add: client_inv_def)
  with True show ?thesis by (auto simp: rtsp_thread_end_def shutdownStream_def Let_def teardowns_def)
qed

section \<open>The session plays\<close>

definition decoders_ok :: "decoder_env \<Rightarrow> bool" where
  "decoders_ok de = ((\<forall>n. de_by_name de n \<noteq> None) \<and> de_frame de \<and> (\<forall>c. de_context de c) \<and> base64_bounded (de_base64 de) \<and>
     (\<forall>n. length (de_malloc de n) = n) \<and> (\<forall>ctx. de_open de ctx))"

lemma find_decoder_ok:
  assumes "decoders_ok de" "ga_lookup_ffmpeg_decoders name = Some names"
  shows "\<exists>c. ga_avcodec_find_decoder (de_by_name de) (de_by_id de) (Some names) AV_CODEC_ID_NONE = Some c"
proof -
  have "names \<noteq> []" using assms(2)
    by (auto simp: ga_lookup_ffmpeg_decoders_def ga_lookup_core_def ga_codec_table_def split: if_splits)
  then show ?thesis using assms(1) by (cases names) (auto simp: ga_avcodec_find_decoder_def decoders_ok_def)
qed

lemma context_sprop_ok:
  assumes "decoders_ok de" "\<And>t. sprop = Some t \<Longrightarrow> 3 \<le> length t"
  shows "\<exists>ctx'. context_sprop de sprop ctx = Some ctx'"
proof (cases sprop)
  case None
  then show ?thesis by (simp add: context_sprop_def)
next
  case (Some t)
  obtain ok ed where "decode_sprop (de_base64 de) (de_malloc de (sprop_sizemax (dc_extradata ctx) t)) (dc_extradata ctx) t = Some (ok, ed)"
    using decode_sprop_defined [of "de_base64 de" t "de_malloc de (sprop_sizemax (dc_extradata ctx) t)" "dc_extradata ctx"] assms Some
    by (auto simp: decoders_ok_def)
  with Some show ?thesis by (simp add: context_sprop_def)
qed

lemma init_vdecoder_ok:
  assumes "decoders_ok de" "\<And>t. sprop = Some t \<Longrightarrow> 3 \<le> length t" "video_codec_name m = Some name" "ga_lookup_ffmpeg_decoders name \<noteq> None"
    "length (vdecoder m) = 2" "length (vframe_alloc m) = 2"
  shows "channel < 2 \<Longrightarrow> \<exists>m'. init_vdecoder de channel sprop m = Some (0, m') \<and> length (vdecoder m') = 2 \<and> length (vframe_alloc m') = 2"
    and "channel = 2 \<Longrightarrow> init_vdecoder de channel sprop m = None"
proof -
  obtain names where n: "ga_lookup_ffmpeg_decoders name = Some names" using assms(4) by blast
  obtain c where c: "ga_avcodec_find_decoder (de_by_name de) (de_by_id de) (Some names) AV_CODEC_ID_NONE = Some c" using find_decoder_ok [OF assms(1) n] ..
  obtain ctx where x: "new_context de c = Some ctx" using assms(1) by (auto simp: new_context_def decoders_ok_def)
  obtain ctx' where s: "context_sprop de sprop (ctx\<lparr>dc_truncated := de_truncated de c\<rparr>) = Some ctx'" using context_sprop_ok [OF assms(1,2)] by blast
  have o: "de_frame de" "de_open de ctx'" using assms(1) by (simp_all add: decoders_ok_def)
  show "\<exists>m'. init_vdecoder de channel sprop m = Some (0, m') \<and> length (vdecoder m') = 2 \<and> length (vframe_alloc m') = 2" if "channel < 2"
    using that assms(3,5,6) n c x s o by (simp add: init_vdecoder_def VIDEO_SOURCE_CHANNELS_def Let_def)
  show "init_vdecoder de channel sprop m = None" if "channel = 2"
    using that assms(3,5,6) n c x s o by (simp add: init_vdecoder_def VIDEO_SOURCE_CHANNELS_def Let_def)
qed

definition video_ports :: "media_session \<Rightarrow> u16 set" where
  "video_ports ms = ms_port ` {x \<in> set (mse_subsessions ms). ms_initiate x \<and> ms_medium x = ''video''}"

definition subsession_ok :: "session_env \<Rightarrow> media_subsession \<Rightarrow> bool" where
  "subsession_ok env x =
     ((ms_medium x = ''video'' \<or> ms_medium x = ''audio'' \<longrightarrow> ms_source x \<noteq> None \<and> ga_lookup_ffmpeg_decoders (ms_codec x) \<noteq> None) \<and>
      (ms_medium x = ''video'' \<longrightarrow> (\<forall>t. video_sprop (ga_lookup_codec_id (ms_codec x)) x = Some t \<longrightarrow> 3 \<le> length t)) \<and>
      (ms_medium x = ''audio'' \<longrightarrow> (audio_channels (se_rtspconf env) = 1 \<or> audio_channels (se_rtspconf env) = 2) \<and>
         (\<forall>g q. packet_queue_init (se_conf env) g q \<noteq> None)))"

definition session_ok :: "session_env \<Rightarrow> media_session \<Rightarrow> bool" where
  "session_ok env ms = (decoders_ok (se_decoders env) \<and> card (video_ports ms) \<le> 2 \<and> (\<forall>x \<in> set (mse_subsessions ms). ms_initiate x \<longrightarrow> subsession_ok env x))"

definition media_inv :: "media_session \<Rightarrow> stream_client \<Rightarrow> bool" where
  "media_inv ms s = (smap_ok (sc_port2channel s) \<and> set (smap_keys (sc_port2channel s)) \<subseteq> video_ports ms \<and>
     length (vdecoder (sc_media s)) = 2 \<and> length (vframe_alloc (sc_media s)) = 2)"

lemma set_reordering_ok:
  assumes "ms_source x \<noteq> None"
  shows "\<exists>cs. set_reordering env i x s = Some (s\<lparr>sc_calls := cs\<rparr>)"
  using assms by (auto simp: set_reordering_def intro: exI [of _ "sc_calls s"])

lemma setup_video_ok:
  assumes "session_ok env ms" "x \<in> set (mse_subsessions ms)" "ms_initiate x" "ms_medium x = ''video''" "media_inv ms s"
  shows "\<exists>s'. setup_video env i x s = Some (True, s') \<and> media_inv ms s'"
proof -
  have x: "ms_source x \<noteq> None" "ga_lookup_ffmpeg_decoders (ms_codec x) \<noteq> None"
    "\<And>t. video_sprop (ga_lookup_codec_id (ms_codec x)) x = Some t \<Longrightarrow> 3 \<le> length t" "decoders_ok (se_decoders env)" "card (video_ports ms) \<le> 2"
    using assms(1-4) by (auto simp: session_ok_def subsession_ok_def)
  define s0 where "s0 = s\<lparr>sc_media := (sc_media s)\<lparr>video_sess_fmt := ms_fmt x, video_codec_name := Some (ms_codec x)\<rparr>,
      sc_qos := snd (qos_add_source (ms_codec x) (ms_source x) (sc_qos s))\<rparr>"
  obtain cs where r: "set_reordering env i x (s0\<lparr>sc_calls := sc_calls s0 @ [Set_Read_Handler i]\<rparr>) = Some (s0\<lparr>sc_calls := cs\<rparr>)"
    using set_reordering_ok [OF x(1), of env i "s0\<lparr>sc_calls := sc_calls s0 @ [Set_Read_Handler i]\<rparr>"] by auto
  have i0: "media_inv ms (s0\<lparr>sc_calls := cs\<rparr>)" using assms(5) by (simp add: media_inv_def s0_def)
  have p0: "sc_port2channel s0 = sc_port2channel s" by (simp add: s0_def)
  show ?thesis
  proof (cases "smap_find (sc_port2channel s) (ms_port x)")
    case (Some c)
    then have "setup_video env i x s = Some (True, s0\<lparr>sc_calls := cs\<rparr>)"
      using x(1) r p0 unfolding setup_video_def Let_def s0_def [symmetric] by auto
    with i0 show ?thesis by blast
  next
    case None
    have new: "ms_port x \<notin> set (smap_keys (sc_port2channel s))" using None smap_keys_find by blast
    have inn: "ms_port x \<in> video_ports ms" using assms(2-4) by (auto simp: video_ports_def)
    have ok: "smap_ok (sc_port2channel s)" "set (smap_keys (sc_port2channel s)) \<subseteq> video_ports ms" using assms(5) by (simp_all add: media_inv_def)
    have "length (sc_port2channel s) = card (set (smap_keys (sc_port2channel s)))"
      using sm.length_keys [OF ok(1)] by (simp add: smap_keys_def)
    also have "\<dots> < card (video_ports ms)" using new inn ok(2) by (intro psubset_card_mono) (auto simp: video_ports_def)
    finally have "length (sc_port2channel s) < 2" using x(5) by simp
    then obtain m' where m: "init_vdecoder (se_decoders env) (length (sc_port2channel s)) (video_sprop (ga_lookup_codec_id (ms_codec x)) x)
        ((sc_media s0)\<lparr>video_codec_id := ga_lookup_codec_id (ms_codec x)\<rparr>) = Some (0, m')" "length (vdecoder m') = 2" "length (vframe_alloc m') = 2"
      using init_vdecoder_ok(1) [OF x(4) x(3) _ x(2), where m = "(sc_media s0)\<lparr>video_codec_id := ga_lookup_codec_id (ms_codec x)\<rparr>" and
        channel = "length (sc_port2channel s)"] assms(5)
      by (auto simp: s0_def media_inv_def)
    define s' where "s' = s0\<lparr>sc_calls := cs, sc_port2channel := smap_put (sc_port2channel s) (ms_port x) (length (sc_port2channel s)), sc_media := m'\<rparr>"
    have "setup_video env i x s = Some (True, s')"
      using x(1) r p0 None m(1) unfolding setup_video_def Let_def s0_def [symmetric] s'_def by auto
    moreover have "media_inv ms s'"
      using m(2,3) ok inn smap_ok_put [OF ok(1)] set_fst_smap_put [of "sc_port2channel s" "ms_port x"] by (auto simp: media_inv_def s'_def smap_keys_def)
    ultimately show ?thesis by blast
  qed
qed

lemma init_adecoder_ok:
  assumes "decoders_ok (se_decoders env)" "audio_codec_name m = Some name" "ga_lookup_ffmpeg_decoders name \<noteq> None"
    "audio_channels (se_rtspconf env) = 1 \<or> audio_channels (se_rtspconf env) = 2" "\<And>g q. packet_queue_init (se_conf env) g q \<noteq> None"
  shows "\<exists>m'. init_adecoder (se_decoders env) (se_conf env) (se_rtspconf env) m = Some (0, m') \<and> vdecoder m' = vdecoder m \<and> vframe_alloc m' = vframe_alloc m"
proof -
  obtain names where n: "ga_lookup_ffmpeg_decoders name = Some names" using assms(3) by blast
  obtain c where c: "ga_avcodec_find_decoder (de_by_name (se_decoders env)) (de_by_id (se_decoders env)) (Some names) AV_CODEC_ID_NONE = Some c"
    using find_decoder_ok [OF assms(1) n] ..
  obtain ctx where x: "new_context (se_decoders env) c = Some ctx" using assms(1) by (auto simp: new_context_def decoders_ok_def)
  obtain g q where p: "packet_queue_init (se_conf env) (audio_globals m) (audioq m) = Some (g, q)"
    using assms(5) [of "audio_globals m" "audioq m"] by (auto simp: not_None_eq)
  show ?thesis using assms(1,2,4) n c x p by (auto simp: init_adecoder_def Let_def decoders_ok_def)
qed

lemma setup_audio_ok:
  assumes "session_ok env ms" "x \<in> set (mse_subsessions ms)" "ms_initiate x" "ms_medium x = ''audio''" "media_inv ms s"
  shows "\<exists>s'. setup_audio env i x s = Some (True, s') \<and> media_inv ms s'"
proof -
  have x: "ms_source x \<noteq> None" "ga_lookup_ffmpeg_decoders (ms_codec x) \<noteq> None" "decoders_ok (se_decoders env)"
    "audio_channels (se_rtspconf env) = 1 \<or> audio_channels (se_rtspconf env) = 2" "\<And>g q. packet_queue_init (se_conf env) g q \<noteq> None"
    using assms(1-4) by (auto simp: session_ok_def subsession_ok_def)
  define s0 where "s0 = s\<lparr>sc_media := (sc_media s)\<lparr>audio_sess_fmt := ms_fmt x, audio_codec_name := Some (ms_codec x)\<rparr>,
      sc_qos := snd (qos_add_source (ms_codec x) (ms_source x) (sc_qos s))\<rparr>"
  obtain cs where r: "set_reordering env i x s0 = Some (s0\<lparr>sc_calls := cs\<rparr>)" using set_reordering_ok [OF x(1)] by blast
  obtain m' where m: "init_adecoder (se_decoders env) (se_conf env) (se_rtspconf env) (sc_media s0) = Some (0, m')"
    "vdecoder m' = vdecoder (sc_media s0)" "vframe_alloc m' = vframe_alloc (sc_media s0)"
    using init_adecoder_ok [OF x(3) _ x(2,4,5), of "sc_media s0"] by (auto simp: s0_def)
  have "setup_audio env i x s = Some (True, if adecoder (sc_media s0) \<noteq> None then s0\<lparr>sc_calls := cs\<rparr> else s0\<lparr>sc_calls := cs, sc_media := m'\<rparr>)"
    using r m(1) unfolding setup_audio_def Let_def s0_def [symmetric] by simp
  moreover have "media_inv ms (if adecoder (sc_media s0) \<noteq> None then s0\<lparr>sc_calls := cs\<rparr> else s0\<lparr>sc_calls := cs, sc_media := m'\<rparr>)"
    using assms(5) m(2,3) by (simp add: media_inv_def s0_def)
  ultimately show ?thesis by blast
qed

lemma setup_media_ok:
  assumes "session_ok env ms" "x \<in> set (mse_subsessions ms)" "ms_initiate x" "media_inv ms s"
  shows "\<exists>s'. setup_media env i x s = Some (True, s') \<and> media_inv ms s' \<and> framed s s'"
proof -
  have "\<exists>s'. setup_media env i x s = Some (True, s') \<and> media_inv ms s'"
    using setup_video_ok [OF assms(1-3) _ assms(4)] setup_audio_ok [OF assms(1-3) _ assms(4)] assms(4) by (auto simp: setup_media_def)
  then show ?thesis using setup_media_framed by blast
qed

text \<open>The subsessions that are still to be set up from the \<open>k\<close>-th on.\<close>

definition todo :: "media_session \<Rightarrow> nat \<Rightarrow> nat list" where
  "todo ms k = filter (\<lambda>i. ms_initiate (mse_subsessions ms ! i)) [k..<length (mse_subsessions ms)]"

lemma todo_rec: "k < length (mse_subsessions ms) \<Longrightarrow> todo ms k = (if ms_initiate (mse_subsessions ms ! k) then k # todo ms (Suc k) else todo ms (Suc k))"
  by (simp add: todo_def upt_rec [of k])

abbreviation setup_of :: "session_env \<Rightarrow> nat \<Rightarrow> client_call" where
  "setup_of env i \<equiv> Send_Setup i (rc_proto (se_rtspconf env) = IPPROTO_TCP)"

text \<open>The next request and the subsession it is for.\<close>

definition asks_next :: "session_env \<Rightarrow> media_session \<Rightarrow> nat list \<Rightarrow> stream_client \<Rightarrow> stream_client \<Rightarrow> bool" where
  "asks_next env ms ks s s' = (same_client s s' \<and> media_inv ms s' \<and> (case ks of
     [] \<Rightarrow> requests s' = requests s @ [Send_Play]
   | k # ks' \<Rightarrow> requests s' = requests s @ [setup_of env k] \<and> sc_subsession s' = Some k \<and> todo ms (sc_iter s') = ks' \<and> k < length (mse_subsessions ms)))"

lemma setup_from_ok:
  assumes "session_ok env ms" "xs = drop (sc_iter s) (mse_subsessions ms)" "media_inv ms s"
  shows "\<exists>s'. setup_from env dur xs s = Some s' \<and> asks_next env ms (todo ms (sc_iter s)) s s'"
  using assms(2,3)
proof (induction xs arbitrary: s)
  case Nil
  then show ?case by (simp add: asks_next_def todo_def same_client_def teardowns_def requests_def media_inv_def)
next
  case (Cons x xs)
  define s1 where "s1 = s\<lparr>sc_subsession := Some (sc_iter s), sc_iter := Suc (sc_iter s)\<rparr>"
  have x: "x = mse_subsessions ms ! sc_iter s" "sc_iter s < length (mse_subsessions ms)" "xs = drop (Suc (sc_iter s)) (mse_subsessions ms)"
    using Cons.prems(1) by (metis nth_via_drop, metis drop_all leI list.distinct(1), metis drop_Suc tl_drop list.sel(3))
  have s1: "same_client s s1" "requests s1 = requests s" "media_inv ms s1" "sc_iter s1 = Suc (sc_iter s)" "sc_subsession s1 = Some (sc_iter s)"
    using Cons.prems(2) by (simp_all add: same_client_def requests_def teardowns_def s1_def media_inv_def)
  show ?case
  proof (cases "ms_initiate x")
    case False
    then have u: "setup_from env dur (x # xs) s = setup_from env dur xs s1" by (simp add: s1_def Let_def)
    obtain s' where s': "setup_from env dur xs s1 = Some s'" "asks_next env ms (todo ms (Suc (sc_iter s))) s1 s'"
      using Cons.IH [of s1] x(3) s1(3,4) by auto
    have "asks_next env ms (todo ms (sc_iter s)) s s'"
      using s'(2) same_client_trans [OF s1(1)] s1(2) False todo_rec [OF x(2)] x(1) by (auto simp: asks_next_def split: list.splits)
    with u s'(1) show ?thesis by auto
  next
    case True
    have "x \<in> set (mse_subsessions ms)" using x(1,2) by simp
    then obtain s2 where s2: "setup_media env (sc_iter s) x s1 = Some (True, s2)" "media_inv ms s2" "framed s1 s2"
      using setup_media_ok [OF assms(1) _ True s1(3)] by blast
    define s' where "s' = s2\<lparr>sc_calls := sc_calls s2 @ [setup_of env (sc_iter s)]\<rparr>"
    have r: "setup_from env dur (x # xs) s = Some s'" using True s2(1) by (simp add: s1_def s'_def Let_def)
    have f: "same_client s s'" "requests s' = requests s @ [setup_of env (sc_iter s)]" "sc_iter s' = Suc (sc_iter s)" "sc_subsession s' = Some (sc_iter s)" "media_inv ms s'"
      using s2(2,3) s1 by (simp_all add: framed_def s'_def same_client_def requests_def teardowns_def media_inv_def)
    show ?thesis using r f todo_rec [OF x(2)] True x(1,2) by (simp add: asks_next_def)
  qed
qed

primrec answer_setups :: "session_env \<Rightarrow> int list \<Rightarrow> stream_client \<Rightarrow> stream_client option" where
  "answer_setups env [] s = Some s"
| "answer_setups env (c # cs) s = do { s \<leftarrow> continueAfterSETUP env c s; answer_setups env cs s }"

text \<open>The sinks that are open: those of the set-ups answered with success, and those open before.\<close>

definition opened :: "nat list \<Rightarrow> int list \<Rightarrow> bool list \<Rightarrow> bool list" where
  "opened ks codes sinks = map (\<lambda>j. sinks ! j \<or> (j, 0) \<in> set (zip ks codes)) [0..<length sinks]"

lemma opened_Nil: "opened [] codes sinks = sinks"
  by (simp add: opened_def map_nth)

lemma opened_Cons: "opened (k # ks) (c # cs) sinks = opened ks cs (if c = 0 then sinks[k := True] else sinks)"
  by (cases "k < length sinks") (auto simp: opened_def nth_list_update intro!: nth_equalityI)

lemma answer_setups_plays:
  assumes "session_ok env ms" "length codes = length ks" "sc_session s = Some ms" "asks_next env ms ks s0 s"
  shows "\<exists>s'. answer_setups env codes s = Some s' \<and> requests s' = requests s0 @ map (setup_of env) ks @ [Send_Play] \<and> sc_alive s' = sc_alive s \<and>
    sc_sinks s' = opened ks codes (sc_sinks s)"
  using assms(2-4)
proof (induction codes arbitrary: ks s s0)
  case Nil
  then show ?case by (simp add: asks_next_def opened_Nil)
next
  case (Cons c codes)
  then obtain k ks' where ks: "ks = k # ks'" by (cases ks) auto
  have a: "media_inv ms s" "requests s = requests s0 @ [setup_of env k]" "sc_subsession s = Some k" "todo ms (sc_iter s) = ks'" "k < length (mse_subsessions ms)"
    using Cons.prems(3) by (simp_all add: asks_next_def ks)
  define s1 where "s1 = (if c = 0 then start_sink env k (mse_subsessions ms ! k) s else s)"
  have s1: "sc_session s1 = Some ms" "media_inv ms s1" "requests s1 = requests s" "sc_iter s1 = sc_iter s" "sc_alive s1 = sc_alive s"
    "sc_sinks s1 = (if c = 0 then (sc_sinks s)[k := True] else sc_sinks s)"
    using a(1) Cons.prems(2) by (simp_all add: s1_def start_sink_def media_inv_def requests_def NATHolePunch_def)
  have ca: "continueAfterSETUP env c s = setupNextSubsession env s1"
    using Cons.prems(2) a(3,5) by (simp add: continueAfterSETUP_def s1_def c_get_def)
  obtain s2 where s2: "setupNextSubsession env s1 = Some s2" "asks_next env ms ks' s1 s2"
    using setup_from_ok [OF assms(1) refl s1(2), of "mse_duration ms"] s1(1,4) a(4) by (auto simp: setupNextSubsession_def)
  have "sc_session s2 = Some ms" "sc_alive s2 = sc_alive s" "sc_sinks s2 = sc_sinks s1" using s2(2) s1 by (simp_all add: asks_next_def same_client_def)
  moreover have "length codes = length ks'" using Cons.prems(1) ks by simp
  ultimately show ?case using Cons.IH [of ks' s2 s1] s2 ca s1(3,6) a(2) by (auto simp: ks opened_Cons)
qed


text \<open>A third video stream is not refused: with the decoders of the session working and two ports in use, the set-up of a video on a new port
  passes the check for too many decoders with the channel number 2 and stores behind the arrays of two.\<close>

theorem client_third_video:
  assumes "decoders_ok (se_decoders env)" "length (sc_port2channel s) = 2" "length (vdecoder (sc_media s)) = 2" "length (vframe_alloc (sc_media s)) = 2"
    "subsession_ok env x" "ms_medium x = ''video''" "smap_find (sc_port2channel s) (ms_port x) = None"
  shows "setup_media env i x s = None"
proof -
  have x: "ms_source x \<noteq> None" "ga_lookup_ffmpeg_decoders (ms_codec x) \<noteq> None" "\<And>t. video_sprop (ga_lookup_codec_id (ms_codec x)) x = Some t \<Longrightarrow> 3 \<le> length t"
    using assms(5,6) by (auto simp: subsession_ok_def)
  define s0 where "s0 = s\<lparr>sc_media := (sc_media s)\<lparr>video_sess_fmt := ms_fmt x, video_codec_name := Some (ms_codec x)\<rparr>,
      sc_qos := snd (qos_add_source (ms_codec x) (ms_source x) (sc_qos s))\<rparr>"
  obtain cs where r: "set_reordering env i x (s0\<lparr>sc_calls := sc_calls s0 @ [Set_Read_Handler i]\<rparr>) = Some (s0\<lparr>sc_calls := cs\<rparr>)"
    using set_reordering_ok [OF x(1), of env i "s0\<lparr>sc_calls := sc_calls s0 @ [Set_Read_Handler i]\<rparr>"] by auto
  have "init_vdecoder (se_decoders env) 2 (video_sprop (ga_lookup_codec_id (ms_codec x)) x) ((sc_media s0)\<lparr>video_codec_id := ga_lookup_codec_id (ms_codec x)\<rparr>) = None"
    by (rule init_vdecoder_ok(2) [OF assms(1) x(3) _ x(2)]) (simp_all add: assms(3,4) s0_def)
  moreover have "sc_port2channel s0 = sc_port2channel s" by (simp add: s0_def)
  ultimately show ?thesis using x(1) r assms(2,6,7) unfolding setup_media_def setup_video_def Let_def s0_def [symmetric] by simp
qed

subsection \<open>Examples\<close>

definition example_decoder_env :: decoder_env where
  "example_decoder_env = \<lparr>de_by_name = (\<lambda>n. Some 1), de_by_id = (\<lambda>i. None), de_frame = True, de_context = (\<lambda>c. True), de_truncated = (\<lambda>c. False),
     de_base64 = example_base64, de_malloc = (\<lambda>n. replicate n 0), de_open = (\<lambda>ctx. True)\<rparr>"

definition example_session_env :: session_env where
  "example_session_env = \<lparr>se_decoders = example_decoder_env, se_conf = \<lparr>ga_vars = [], ga_vmi = CI_end\<rparr>, se_rtspconf = rtspconf_init, se_reordering = 300000,
     se_server = 1, se_getsockname = (\<lambda>i. True)\<rparr>"

definition example_subsession :: "string \<Rightarrow> string \<Rightarrow> u16 \<Rightarrow> string option \<Rightarrow> media_subsession" where
  "example_subsession medium codec port sprop = \<lparr>ms_initiate = True, ms_medium = medium, ms_codec = codec, ms_fmt = 96, ms_source = Some 7, ms_rtcp = True,
     ms_port = port, ms_server_port = 8000, ms_sprop = sprop, ms_sprop_vps = None, ms_sprop_sps = None, ms_sprop_pps = None\<rparr>"

definition example_session :: media_session where
  "example_session = \<lparr>mse_subsessions = [example_subsession ''video'' ''H264'' 5000 (Some ''Z0LAHg==,aM48gA==''), example_subsession ''audio'' ''OPUS'' 5002 None],
     mse_duration = 0\<rparr>"

definition example_media :: client_media where
  "example_media = \<lparr>video_sess_fmt = 0, audio_sess_fmt = 0, video_codec_name = None, audio_codec_name = None, video_codec_id = AV_CODEC_ID_NONE,
     audio_codec_id = AV_CODEC_ID_NONE, vdecoder = [None, None], vframe_alloc = [False, False], adecoder = None, audio_globals = packet_queue_defaults,
     audioq = \<lparr>aq_queue = [], aq_size = 0\<rparr>\<rparr>"

definition example_qos :: qos_state where
  "example_qos = \<lparr>qos_env = False, qos_task = None, qrec = [], qos_tv = \<lparr>tv_sec = 0, tv_usec = 0\<rparr>\<rparr>"

lemma example_decoders_ok: "decoders_ok example_decoder_env"
  by (simp add: decoders_ok_def example_decoder_env_def example_base64_bounded)

lemma example_session_ok: "session_ok example_session_env example_session"
proof -
  have "video_ports example_session \<subseteq> {5000}" by (auto simp: video_ports_def example_session_def example_subsession_def)
  from card_mono [OF _ this] have "card (video_ports example_session) \<le> 2" by simp
  moreover have "packet_queue_init (se_conf example_session_env) g q \<noteq> None" for g q
    by (simp add: example_session_env_def packet_queue_init_def ga_conf_readv_def ga_conf_readint_def)
  ultimately show ?thesis
    using example_decoders_ok
    by (auto simp: session_ok_def subsession_ok_def example_session_def example_subsession_def video_sprop_def ga_lookup_codec_id_def ga_lookup_core_def
        ga_codec_table_def strcaseeq_def ga_lookup_ffmpeg_decoders_def example_session_env_def rtspconf_init_def)
qed

definition example_started :: stream_client where
  "example_started = the (rtsp_thread_start example_media example_qos True)"

lemma example_started: "rtsp_thread_start example_media example_qos True = Some example_started"
  by (simp add: example_started_def rtsp_thread_start_def openURL_def)


theorem client_third_video_witness:
  "setup_media example_session_env 2 (example_subsession ''video'' ''VP8'' 5008 None)
     (example_started\<lparr>sc_port2channel := [(5000, 0), (5004, 1)]\<rparr>) = None"
proof (rule client_third_video)
  show "decoders_ok (se_decoders example_session_env)" using example_decoders_ok by (simp add: example_session_env_def)
  show "subsession_ok example_session_env (example_subsession ''video'' ''VP8'' 5008 None)"
    by (simp add: subsession_ok_def example_subsession_def video_sprop_def ga_lookup_codec_id_def ga_lookup_core_def ga_codec_table_def strcaseeq_def
        ga_lookup_ffmpeg_decoders_def)
qed (simp_all add: example_started_def rtsp_thread_start_def openURL_def reset_media_def example_media_def example_subsession_def)

text \<open>A session of a single stream that nobody decodes, played, and then a goodbye.\<close>

definition text_session :: media_session where
  "text_session = \<lparr>mse_subsessions = [example_subsession ''text'' ''T140'' 5000 None], mse_duration = 0\<rparr>"

definition example_asked :: stream_client where
  "example_asked = the (continueAfterDESCRIBE example_session_env 0 (Some text_session) example_started)"

definition example_set_up :: stream_client where
  "example_set_up = the (continueAfterSETUP example_session_env 0 example_asked)"

definition example_gone :: stream_client where
  "example_gone = the (subsessionByeHandler 0 example_set_up)"

lemmas example_run = example_started_def rtsp_thread_start_def openURL_def example_asked_def example_set_up_def example_gone_def
  continueAfterDESCRIBE_def continueAfterSETUP_def setupNextSubsession_def setup_media_def start_sink_def NATHolePunch_def text_session_def example_subsession_def
  subsessionByeHandler_def subsessionAfterPlaying_def shutdownStream_def unsinked_def c_get_def example_session_env_def rtspconf_init_def IPPROTO_TCP_def IPPROTO_UDP_def
  Let_def outstanding_def requests_def teardowns_def

lemma example_reach_asked: "client_reach example_session_env (Some text_session) (example_asked, 1)"
proof -
  have "client_step example_session_env (Some text_session) (example_started, 0) (example_asked, Suc 0)"
    by (rule client_step.described [where code = 0]) (simp_all add: example_run)
  then show ?thesis using client_reach.step [OF client_reach.start [OF example_started]] by simp
qed

lemma example_reach_gone: "client_reach example_session_env (Some text_session) (example_gone, 2)"
proof -
  have "client_step example_session_env (Some text_session) (example_asked, 1) (example_set_up, Suc 1)"
    by (rule client_step.set_up [where code = 0 and i = 0 and tcp = False]) (simp_all add: example_run)
  moreover have "client_step example_session_env (Some text_session) (example_set_up, Suc 1) (example_gone, Suc 1)"
    by (rule client_step.bye [where i = 0]) (simp_all add: example_run)
  ultimately show ?thesis using client_reach.step example_reach_asked by (metis Suc_1)
qed

theorem client_session_order_witness:
  "(\<exists>k \<le> 1. asked example_session_env (Some text_session) k example_asked) \<or> asked_play example_session_env (Some text_session) example_asked"
  using client_session_order [OF example_reach_asked] by (simp add: described_subsessions_def text_session_def)

theorem client_session_end_witness:
  "\<not> sc_alive example_gone \<and> teardowns example_gone \<le> 1 \<and> sc_quit example_gone \<and> rtsp_thread_end example_gone = None"
proof -
  have "\<not> sc_alive example_gone" by (simp add: example_run)
  with client_session_end [OF example_reach_gone] show ?thesis by simp
qed

section \<open>The sink\<close>

text \<open>What the receiver of a subsession tells of a frame: the marker bit and the sender, where there are statistics.\<close>

record rtp_frame =
  rf_fmt :: int
  rf_port :: u16
  rf_source :: "(bool \<times> u32 option) option"
  rf_data :: "byte list"
  rf_time :: timeval

record 's frame_client =
  fc_video_fmt :: int
  fc_audio_fmt :: int
  fc_port2channel :: "(u16, nat) smap"
  fc_channels :: "(decoder_buffer \<times> 's video_channel) list"
  fc_pktmap :: pktmap
  fc_globals :: packet_queue_globals
  fc_audioq :: packet_queue
  fc_audioOpened :: bool
  fc_open_events :: nat
  fc_watchdog :: timeval
  fc_requested :: nat

text \<open>The next frame is asked for while there is a source.\<close>

definition continuePlaying :: "bool \<Rightarrow> 's frame_client \<Rightarrow> bool \<times> 's frame_client" where
  "continuePlaying source s = (if \<not> source then (False, s) else (True, s\<lparr>fc_requested := fc_requested s + 1\<rparr>))"

text \<open>\<open>header\<close> is the framing area of the receive buffer of the sink and \<open>framing\<close> the length of the framing. The source of a video frame
  is used before it is checked.\<close>

definition afterGettingFrame :: "'s video_env \<Rightarrow> bool \<Rightarrow> timeval \<Rightarrow> bool \<Rightarrow> byte list \<Rightarrow> nat \<Rightarrow> rtp_frame \<Rightarrow> 's frame_client \<Rightarrow> (int + 's frame_client) option" where
  "afterGettingFrame env dup now source header framing f s =
     then_do
       (if rf_fmt f = fc_video_fmt s then do {
          (marker, ssrc) \<leftarrow> rf_source f;
          (let channel = (case smap_find (fc_port2channel s) (rf_port f) of Some c \<Rightarrow> c | None \<Rightarrow> 0);
               s = (if smap_find (fc_port2channel s) (rf_port f) = None then s\<lparr>fc_port2channel := smap_put (fc_port2channel s) (rf_port f) 0\<rparr> else s);
               s = (case ssrc of None \<Rightarrow> s | Some x \<Rightarrow> s\<lparr>fc_pktmap := snd (snd (pktloss_monitor_get x True (fc_pktmap s)))\<rparr>)
           in do {
             dbc \<leftarrow> c_get (fc_channels s) (int channel);
             then_do (play_video env now (sink_buffer header framing (rf_data f)) (rf_time f) marker dbc)
               (\<lambda>dbc. Some (Inr (s\<lparr>fc_channels := (fc_channels s)[channel := dbc]\<rparr>))) }) }
        else if rf_fmt f = fc_audio_fmt s then
          (let (opens, q) = play_audio dup (fc_globals s) (fc_audioOpened s) (rf_data f) (fc_audioq s)
           in Some (Inr (s\<lparr>fc_audioq := q, fc_open_events := fc_open_events s + (if opens then 1 else 0)\<rparr>)))
        else Some (Inr s))
       (\<lambda>s. Some (Inr (snd (continuePlaying source (s\<lparr>fc_watchdog := now\<rparr>)))))"

lemma play_video_collects:
  assumes "db_ok db" "pts = db_lastpts db" "db_privbuflen db + length buffer \<le> PRIVATE_BUFFER_SIZE"
  shows "\<exists>db'. play_video env now buffer pts False (db, c) = Some (Inr (db', c)) \<and> pending db' = pending db @ buffer \<and> db_ok db'"
proof (cases "buffer = []")
  case True
  then show ?thesis using assms(1) by (simp add: play_video_def)
next
  case False
  obtain buf where w: "c_write (db_privbuf db) (int (db_privbuflen db)) buffer = Some buf" "length buf = length (db_privbuf db)"
    using c_write_defined [of "int (db_privbuflen db)" buffer "db_privbuf db"] assms by (auto simp: db_ok_def)
  then have "take (db_privbuflen db + length buffer) buf = pending db @ buffer"
    using assms by (auto simp: c_write_def pending_def db_ok_def split: if_splits)
  with False w assms show ?thesis by (auto simp: play_video_def then_do_def Let_def pending_def db_ok_def)
qed

text \<open>A frame of a stream reaches the decoder of its own channel: inside a frame, the bytes that the sink has received are collected behind those pending
  for the channel of their port, for H.264 and H.265 behind the start code that the sink keeps in front of its receive buffer; the other
  channels and the sound are left alone, and the next frame is asked for. The framing is shared by all sinks: any other
  codec gets, once a sink for H.264 exists, as many bytes of its uninitialised receive buffer in front of each frame.\<close>

theorem client_frame_collected:
  assumes "dummy_sink codec mem framing0 = (header, framing)" "length mem = 8"
    "rf_fmt f = fc_video_fmt s" "rf_source f = Some (False, ssrc)" "smap_find (fc_port2channel s) (rf_port f) = Some k"
    "k < length (fc_channels s)" "fc_channels s ! k = (db, c)" "db_ok db" "rf_time f = db_lastpts db"
    "db_privbuflen db + 8 + length (rf_data f) \<le> PRIVATE_BUFFER_SIZE"
  shows "\<exists>s' db'. afterGettingFrame env dup now True header framing f s = Some (Inr s') \<and> fc_channels s' = (fc_channels s)[k := (db', c)] \<and>
    pending db' = pending db @ (if codec = ''H264'' \<or> codec = ''H265'' then [0, 0, 0, 1] else drop (8 - framing0) mem) @ rf_data f \<and>
    fc_audioq s' = fc_audioq s \<and> fc_port2channel s' = fc_port2channel s \<and> fc_requested s' = fc_requested s + 1"
proof -
  define pre where "pre = (if codec = ''H264'' \<or> codec = ''H265'' then [0, 0, 0, 1] else drop (8 - framing0) mem)"
  have h: "sink_buffer header framing (rf_data f) = pre @ rf_data f"
    using assms(1,2) by (auto simp: dummy_sink_def sink_buffer_def pre_def split: if_splits)
  have "length (sink_buffer header framing (rf_data f)) \<le> 8 + length (rf_data f)" using assms(2) by (auto simp: h pre_def)
  then obtain db' where p: "play_video env now (sink_buffer header framing (rf_data f)) (rf_time f) False (db, c) = Some (Inr (db', c))"
    "pending db' = pending db @ sink_buffer header framing (rf_data f)"
    using play_video_collects [OF assms(8,9), of "sink_buffer header framing (rf_data f)" env now c] assms(10) by auto
  show ?thesis unfolding pre_def [symmetric] using assms(3-7) p
    by (cases ssrc) (auto simp: afterGettingFrame_def then_do_def c_get_def Let_def continuePlaying_def h)
qed

definition example_frame_client :: "(unit \<times> byte list) frame_client" where
  "example_frame_client = \<lparr>fc_video_fmt = 96, fc_audio_fmt = 97, fc_port2channel = [(5000, 0)], fc_channels = [(example_db, example_channel)], fc_pktmap = [],
     fc_globals = packet_queue_defaults, fc_audioq = \<lparr>aq_queue = [], aq_size = 0\<rparr>, fc_audioOpened = True, fc_open_events = 0,
     fc_watchdog = \<lparr>tv_sec = 0, tv_usec = 0\<rparr>, fc_requested = 0\<rparr>"

theorem client_frame_collected_witness:
  "\<exists>s' db'. afterGettingFrame example_video_env True \<lparr>tv_sec = 2, tv_usec = 0\<rparr> True [9, 9, 9, 9, 0, 0, 0, 1] 4
      \<lparr>rf_fmt = 96, rf_port = 5000, rf_source = Some (False, None), rf_data = [0x42], rf_time = db_lastpts example_db\<rparr> example_frame_client = Some (Inr s') \<and>
    fc_channels s' = [(db', example_channel)] \<and> pending db' = pending example_db @ [0, 0, 0, 1, 0x42]"
proof -
  have d: "dummy_sink ''H264'' (replicate 8 9) 0 = ([9, 9, 9, 9, 0, 0, 0, 1], 4)" "length (replicate 8 (9 :: byte)) = 8"
    by (simp_all add: dummy_sink_def numeral_eq_Suc)
  show ?thesis
    using client_frame_collected [OF d, of "\<lparr>rf_fmt = 96, rf_port = 5000, rf_source = Some (False, None), rf_data = [0x42], rf_time = db_lastpts example_db\<rparr>"
        example_frame_client None 0 example_db example_channel example_video_env True "\<lparr>tv_sec = 2, tv_usec = 0\<rparr>"] example_video(4)
    by (auto simp: example_frame_client_def example_db_def PRIVATE_BUFFER_SIZE_def)
qed

end
