(* ===== verification/CtrlClient.thy ===== *)
theory CtrlClient
  imports CtrlServer RtspConf
begin

text \<open>
  The client side of the controller and the connections of its server (\<open>core/controller.cpp\<close>):
  resolving the address and opening the socket, the handshake of the client, the thread that sends what is
  queued, and the loop of the server over its connections. The event thread puts messages into
  the queue while the sending thread waits for a signal; a signal that finds nobody waiting is
  lost, as POSIX specifies for condition variables. Sockets, the resolver and what \<open>send\<close> and
  \<open>recv\<close> return are parameters.
\<close>

section \<open>Sockets\<close>

record ctrl_net =
  cn_inet_addr :: "string \<Rightarrow> u32"
  cn_gethostbyname :: "string \<Rightarrow> u32 option"
  cn_tcp_socket :: int
  cn_udp_socket :: int
  cn_connect :: bool
  cn_send_handshake :: "byte list \<Rightarrow> int"
  cn_reuse :: bool
  cn_bind :: bool
  cn_listen :: bool

definition INADDR_NONE :: u32 where "INADDR_NONE = 0xFFFFFFFF"

definition name_resolve :: "ctrl_net \<Rightarrow> string \<Rightarrow> u32" where
  "name_resolve net hostname =
     (let a = cn_inet_addr net hostname
      in if a = INADDR_NONE then (case cn_gethostbyname net hostname of None \<Rightarrow> INADDR_NONE | Some b \<Rightarrow> b) else a)"

record ctrl_conn =
  co_socket :: int
  co_port :: u16
  co_addr :: u32

definition ctrl_socket_init :: "ctrl_net \<Rightarrow> rtspconf \<Rightarrow> ctrl_conn \<Rightarrow> int \<times> ctrl_conn" where
  "ctrl_socket_init net conf c =
     (if rc_ctrlproto conf \<noteq> IPPROTO_TCP \<and> rc_ctrlproto conf \<noteq> IPPROTO_UDP then (-1, c)
      else let s = (if rc_ctrlproto conf = IPPROTO_TCP then cn_tcp_socket net else cn_udp_socket net);
               c = \<lparr>co_socket = s, co_port = htons (to_u16 (rc_ctrlport conf)), co_addr = 0\<rparr>
           in case rc_servername conf of
                None \<Rightarrow> (s, c)
              | Some h \<Rightarrow> (let a = name_resolve net h in if a = INADDR_NONE then (-1, c\<lparr>co_addr := a\<rparr>) else (s, c\<lparr>co_addr := a\<rparr>)))"

text \<open>The result, the configuration, \<open>ctrlenabled\<close>, and the handshake that was sent.\<close>

definition ctrl_client_init :: "ctrl_net \<Rightarrow> rtspconf \<Rightarrow> byte list \<Rightarrow> ctrl_conn \<Rightarrow> bool \<Rightarrow> int \<times> rtspconf \<times> bool \<times> ctrl_conn" where
  "ctrl_client_init net conf ctrlid c enabled =
     (case ctrl_socket_init net conf c of
        (r, c) \<Rightarrow>
          (if r < 0 then (-1, conf\<lparr>rc_ctrlenable := 0\<rparr>, enabled, c)
           else if rc_ctrlproto conf = IPPROTO_TCP \<and> (\<not> cn_connect net \<or> cn_send_handshake net (ctrl_handshake_msg ctrlid) \<le> 0)
           then (-1, conf\<lparr>rc_ctrlenable := 0\<rparr>, False, c\<lparr>co_socket := -1\<rparr>)
           else (0, conf, enabled, c)))"

definition ctrl_server_init :: "ctrl_net \<Rightarrow> rtspconf \<Rightarrow> ctrl_conn \<Rightarrow> int \<times> ctrl_conn" where
  "ctrl_server_init net conf c =
     (case ctrl_socket_init net conf c of
        (r, c) \<Rightarrow>
          (if r < 0 then (-1, c)
           else if \<not> cn_reuse net \<or> \<not> cn_bind net \<or> (rc_ctrlproto conf = IPPROTO_TCP \<and> \<not> cn_listen net)
           then (-1, c\<lparr>co_socket := -1\<rparr>)
           else (0, c)))"

text \<open>Setting the callback returns the old one.\<close>

definition ctrl_server_setreplay :: "'f option \<Rightarrow> 'f option \<Rightarrow> 'f option \<times> 'f option" where
  "ctrl_server_setreplay callback replay = (replay, callback)"

section \<open>Sending\<close>

text \<open>Where the sending thread is: before \<open>pthread_cond_wait\<close>, in it, in the loop over the queue, or ended.\<close>

datatype client_pos = Before_Wait | Waiting | Draining | Ended

record ctrl_client =
  cl_queue :: ctrl_queue
  cl_enabled :: bool
  cl_pos :: client_pos
  cl_sent :: "byte list list"
  cl_dropped :: nat

definition wake_client :: "ctrl_client \<Rightarrow> ctrl_client" where
  "wake_client c = (if cl_pos c = Waiting then c\<lparr>cl_pos := Draining\<rparr> else c)"

definition ctrl_client_sendmsg :: "byte list \<Rightarrow> int \<Rightarrow> ctrl_client \<Rightarrow> ctrl_client option" where
  "ctrl_client_sendmsg msg msglen c =
     (if \<not> cl_enabled c then Some c
      else do {
        (n, q) \<leftarrow> ctrl_queue_write_msg (cl_queue c) msg msglen;
        (let c = c\<lparr>cl_queue := q\<rparr>
         in Some (if n \<noteq> msglen then c\<lparr>cl_dropped := cl_dropped c + 1\<rparr> else wake_client c)) })"

text \<open>
  A pass of the loop over the queue. The program ends when \<open>send\<close> fails. The message stays in its unit, which
  no write touches, until it is released.
\<close>

definition drain_pass :: "(byte list \<Rightarrow> int) \<Rightarrow> rtspconf \<Rightarrow> ctrl_client \<Rightarrow> (int + ctrl_client) option" where
  "drain_pass snd_msg conf c =
     (case ctrl_queue_read_msg (cl_queue c) of
        None \<Rightarrow> Some (Inr (c\<lparr>cl_pos := Before_Wait\<rparr>))
      | Some off \<Rightarrow> do {
          buf \<leftarrow> qbuffer (cl_queue c);
          sz \<leftarrow> rd16 buf off;
          (if sz = 0 then Some (Inr (c\<lparr>cl_pos := Ended\<rparr>))
           else do {
             m \<leftarrow> queuemsg_at buf off;
             (let sending = (rc_ctrlproto conf = IPPROTO_TCP \<or> rc_ctrlproto conf = IPPROTO_UDP)
              in if sending \<and> snd_msg m < 0 then Some (Inl (-1))
                 else Some (Inr (c\<lparr>cl_sent := (if sending then cl_sent c @ [m] else cl_sent c),
                   cl_queue := ctrl_queue_release_msg (cl_queue c)\<rparr>))) }) })"

text \<open>The steps of the sending thread, where a wait may also end without a signal, and those of the two threads together. The last argument is the list of the messages
  that the queue has accepted.\<close>

inductive sender_step :: "(byte list \<Rightarrow> int) \<Rightarrow> rtspconf \<Rightarrow> ctrl_client \<Rightarrow> ctrl_client \<Rightarrow> bool" for snd_msg conf where
  waits: "cl_pos c = Before_Wait \<Longrightarrow> sender_step snd_msg conf c (c\<lparr>cl_pos := Waiting\<rparr>)"
| wakes: "cl_pos c = Waiting \<Longrightarrow> sender_step snd_msg conf c (c\<lparr>cl_pos := Draining\<rparr>)"
| drains: "cl_pos c = Draining \<Longrightarrow> drain_pass snd_msg conf c = Some (Inr c') \<Longrightarrow> sender_step snd_msg conf c c'"

inductive client_run :: "(byte list \<Rightarrow> int) \<Rightarrow> rtspconf \<Rightarrow> ctrl_client \<Rightarrow> ctrl_client \<Rightarrow> byte list list \<Rightarrow> bool" for snd_msg conf c0 where
  start: "client_run snd_msg conf c0 c0 []"
| sends: "client_run snd_msg conf c0 c acc \<Longrightarrow> sender_step snd_msg conf c c' \<Longrightarrow> client_run snd_msg conf c0 c' acc"
| puts: "client_run snd_msg conf c0 c acc \<Longrightarrow> ctrl_client_sendmsg m (int (length m)) c = Some c' \<Longrightarrow> ctrl_valid m \<Longrightarrow>
    client_run snd_msg conf c0 c' (if cl_enabled c \<and> fst (ctrl_enq (cl_queue c) m) then acc @ [m] else acc)"

section \<open>The connections of the server\<close>

text \<open>A TCP connection, given by what \<open>recv\<close> returns: the first piece is the handshake, and what came with it is not
  looked at any further. The flag tells whether the client was accepted.\<close>

definition ctrl_server_connection :: "byte list \<Rightarrow> byte list list \<Rightarrow> ctrl_server \<Rightarrow> (bool \<times> ctrl_server) option" where
  "ctrl_server_connection myctrlid segs s =
     (case segs of
        [] \<Rightarrow> Some (False, s)
      | d # rest \<Rightarrow> do {
          ok \<leftarrow> ctrl_handshake_check myctrlid (sv_buf s) (take 8192 d);
          b \<leftarrow> c_write (sv_buf s) 0 (take 8192 d);
          (if \<not> ok then Some (False, s\<lparr>sv_buf := b\<rparr>)
           else do {
             (s, closed) \<leftarrow> ctrl_tcp_session (if length d > 8192 then drop 8192 d # rest else rest) (s\<lparr>sv_buf := b, sv_head := 0, sv_len := 0\<rparr>);
             Some (True, s) }) })"

section \<open>Properties\<close>

lemma sendmsg_queue:
  assumes "ctrlq_ok (cl_queue c)" "ctrl_valid m" "ctrl_client_sendmsg m (int (length m)) c = Some c'"
  shows "ctrlq_ok (cl_queue c') \<and> cl_sent c' = cl_sent c \<and> cl_enabled c' = cl_enabled c \<and>
    ctrlq_items (cl_queue c') = (if cl_enabled c \<and> fst (ctrl_enq (cl_queue c) m) then ctrlq_items (cl_queue c) @ [m] else ctrlq_items (cl_queue c))"
proof (cases "cl_enabled c")
  case True
  then obtain n q where w: "ctrl_queue_write_msg (cl_queue c) m (int (length m)) = Some (n, q)"
    using assms(3) by (auto simp: ctrl_client_sendmsg_def)
  then have e: "ctrl_enq (cl_queue c) m = (n = int (length m), q)" by (simp add: ctrl_enq_def)
  have "cl_queue c' = q" "cl_sent c' = cl_sent c" "cl_enabled c' = cl_enabled c"
    using assms(3) True w by (auto simp: ctrl_client_sendmsg_def Let_def wake_client_def split: if_splits)
  then show ?thesis using cq.enq_invar [OF assms(1,2)] cq.enq_items [OF assms(1,2)] e True by simp
qed (use assms in \<open>auto simp: ctrl_client_sendmsg_def\<close>)

lemma drain_pass_queue:
  assumes "ctrlq_ok (cl_queue c)" "rc_ctrlproto conf = IPPROTO_TCP \<or> rc_ctrlproto conf = IPPROTO_UDP" "drain_pass snd_msg conf c = Some (Inr c')"
  shows "ctrlq_ok (cl_queue c') \<and> cl_sent c' @ ctrlq_items (cl_queue c') = cl_sent c @ ctrlq_items (cl_queue c) \<and> cl_enabled c' = cl_enabled c"
proof (cases "ctrl_queue_read_msg (cl_queue c)")
  case (Some off)
  then obtain buf sz where b: "qbuffer (cl_queue c) = Some buf" "rd16 buf off = Some sz"
    using assms(3) by (auto simp: drain_pass_def)
  show ?thesis
  proof (cases "sz = 0")
    case False
    then obtain m where m: "queuemsg_at buf off = Some m" using assms(3) Some b by (auto simp: drain_pass_def Let_def)
    have c': "c' = c\<lparr>cl_sent := cl_sent c @ [m], cl_queue := ctrl_queue_release_msg (cl_queue c)\<rparr>"
      using assms(2,3) Some b False m by (auto simp: drain_pass_def Let_def split: if_splits)
    have "ctrl_front (cl_queue c) = Some m" using Some b m by (simp add: ctrl_front_def)
    then obtain ms where "ctrlq_items (cl_queue c) = m # ms" using cq.front_items [OF assms(1)] by (cases "ctrlq_items (cl_queue c)") auto
    then show ?thesis using cq.deq_invar [OF assms(1)] cq.deq_items [OF assms(1)] by (simp add: c')
  qed (use assms Some b in \<open>auto simp: drain_pass_def\<close>)
qed (use assms in \<open>auto simp: drain_pass_def\<close>)

lemma sender_step_queue:
  assumes "sender_step snd_msg conf c c'" "ctrlq_ok (cl_queue c)" "rc_ctrlproto conf = IPPROTO_TCP \<or> rc_ctrlproto conf = IPPROTO_UDP"
  shows "ctrlq_ok (cl_queue c') \<and> cl_sent c' @ ctrlq_items (cl_queue c') = cl_sent c @ ctrlq_items (cl_queue c)"
  using assms(1) by cases (use assms(2) drain_pass_queue [OF assms(2,3)] in auto)

lemma client_run_queue:
  assumes "client_run snd_msg conf c0 c acc" "ctrlq_ok (cl_queue c0)" "rc_ctrlproto conf = IPPROTO_TCP \<or> rc_ctrlproto conf = IPPROTO_UDP"
  shows "ctrlq_ok (cl_queue c) \<and> cl_sent c @ ctrlq_items (cl_queue c) = cl_sent c0 @ ctrlq_items (cl_queue c0) @ acc"
  using assms(1)
proof induction
  case (sends c acc c')
  then show ?case using sender_step_queue [OF sends(2) _ assms(3)] by simp
next
  case (puts c acc m c')
  then show ?case using sendmsg_queue [OF _ puts(3,2)] by auto
qed (use assms(2) in auto)

lemma client_run_steps:
  assumes "(sender_step snd_msg conf)\<^sup>*\<^sup>* c c'" "client_run snd_msg conf c0 c acc"
  shows "client_run snd_msg conf c0 c' acc"
  using assms by induction (auto intro: client_run.sends)

text \<open>What no step changes: the size of the queue and of its units, and whether the controller is enabled.\<close>

definition client_shape :: "ctrl_client \<Rightarrow> int \<times> int \<times> bool" where
  "client_shape c = (qunit (cl_queue c), qsize (cl_queue c), cl_enabled c)"

lemma client_run_shape:
  assumes "client_run snd_msg conf c0 c acc"
  shows "client_shape c = client_shape c0"
  using assms
proof induction
  case (sends c acc c')
  have "client_shape c' = client_shape c" using sends(2)
    by cases (auto simp: client_shape_def drain_pass_def ctrl_queue_release_msg_def Let_def split: if_splits option.splits)
  then show ?case using sends(3) by simp
next
  case (puts c acc m c')
  have "client_shape c' = client_shape c" using puts(2)
    by (auto simp: client_shape_def ctrl_client_sendmsg_def ctrl_queue_write_msg_def Let_def wake_client_def split: if_splits option.splits)
  then show ?case using puts(4) by simp
qed simp

text \<open>C27. Input is sent in order: however the event thread and the sending thread take turns, what was passed
  to \<open>send\<close>, followed by what is still queued, is exactly what the queue accepted, in order and byte for byte.\<close>

theorem ctrl_client_sends_in_order:
  assumes "client_run snd_msg conf c0 c acc" "ctrlq_ok (cl_queue c0)" "ctrlq_items (cl_queue c0) = []" "cl_sent c0 = []"
    "rc_ctrlproto conf = IPPROTO_TCP \<or> rc_ctrlproto conf = IPPROTO_UDP"
  shows "cl_sent c @ ctrlq_items (cl_queue c) = acc"
  using client_run_queue [OF assms(1,2,5)] assms(3,4) by simp


lemma length_handshake: "length (ctrl_handshake_msg ctrlid) \<le> 65"
  by (simp add: ctrl_handshake_msg_def Let_def)

lemma handshake_written:
  assumes "length buf = 8192"
  shows "\<exists>b. c_write buf 0 (take 8192 (ctrl_handshake_msg ctrlid)) = Some b \<and> length b = 8192"
  using c_write_defined [of 0 "take 8192 (ctrl_handshake_msg ctrlid)" buf] assms length_handshake [of ctrlid] by simp

lemma connection_messages:
  assumes "length ctrlid \<le> 63" "length (sv_buf s) = 8192" "sv_replay s" "\<forall>m \<in> set ms. ctrl_app_msg m"
  shows "\<exists>s'. ctrl_server_connection ctrlid (ctrl_handshake_msg ctrlid # ms) s = Some (True, s') \<and> sv_replayed s' = sv_replayed s @ ms"
proof -
  obtain b where b: "c_write (sv_buf s) 0 (take 8192 (ctrl_handshake_msg ctrlid)) = Some b" "length b = 8192"
    using handshake_written [OF assms(2)] by blast
  have t: "take 8192 (ctrl_handshake_msg ctrlid) = ctrl_handshake_msg ctrlid" "\<not> length (ctrl_handshake_msg ctrlid) > 8192"
    using length_handshake [of ctrlid] by simp_all
  have "\<exists>s'. ctrl_tcp_session (map concat (map (\<lambda>m. [m]) ms)) (s\<lparr>sv_buf := b, sv_head := 0, sv_len := 0\<rparr>) = Some (s', False) \<and>
      sv_replayed s' = sv_replayed (s\<lparr>sv_buf := b, sv_head := 0, sv_len := 0\<rparr>) @ concat (map (\<lambda>m. [m]) ms) \<and>
      sv_queue s' = sv_queue (s\<lparr>sv_buf := b, sv_head := 0, sv_len := 0\<rparr>) \<and> sv_calls s' = sv_calls (s\<lparr>sv_buf := b, sv_head := 0, sv_len := 0\<rparr>)"
    using assms(3,4) b(2) by (intro tcp_session_whole) (auto simp: ctrl_app_msg_def ctrl_framed_def)
  then show ?thesis using handshake_accepted [OF assms(1,2), of "[]"] b(1) t by (auto simp: ctrl_server_connection_def comp_def)
qed

lemma input_crosses:
  assumes "client_run snd_msg conf c0 c acc" "ctrlq_ok (cl_queue c0)" "ctrlq_items (cl_queue c0) = []" "cl_sent c0 = []"
    "rc_ctrlproto conf = IPPROTO_TCP" "\<forall>m \<in> set acc. ctrl_app_msg m" "length ctrlid \<le> 63" "length buf = 8192"
  shows "\<exists>s'. ctrl_server_connection ctrlid (ctrl_handshake_msg ctrlid # cl_sent c) (ctrl_server_start buf q tab True) = Some (True, s') \<and>
    sv_replayed s' @ ctrlq_items (cl_queue c) = acc"
proof -
  have e: "cl_sent c @ ctrlq_items (cl_queue c) = acc" using client_run_queue [OF assms(1,2)] assms(3,4,5) by simp
  then have "\<forall>m \<in> set (cl_sent c). ctrl_app_msg m" using assms(6) by auto
  from connection_messages [OF assms(7) _ _ this, of "ctrl_server_start buf q tab True"] show ?thesis
    using assms(8) e by (auto simp: ctrl_server_start_def)
qed

text \<open>What comes with the handshake is lost: when the network joins the handshake of a client and its first messages into
  one piece, the client is accepted and these messages are neither replayed, nor handled, nor queued.\<close>

theorem ctrl_handshake_swallows:
  assumes "length ctrlid \<le> 63" "length (sv_buf s) = 8192" "length (concat ms) \<le> 8000"
  shows "\<exists>s'. ctrl_server_connection ctrlid [ctrl_handshake_msg ctrlid @ concat ms] s = Some (True, s') \<and>
    sv_replayed s' = sv_replayed s \<and> sv_calls s' = sv_calls s \<and> sv_queue s' = sv_queue s"
proof -
  have l: "length (ctrl_handshake_msg ctrlid @ concat ms) \<le> 8192" using length_handshake [of ctrlid] assms(3) by simp
  then obtain b where "c_write (sv_buf s) 0 (ctrl_handshake_msg ctrlid @ concat ms) = Some b"
    using c_write_defined [of 0 "ctrl_handshake_msg ctrlid @ concat ms" "sv_buf s"] assms(2) by auto
  then show ?thesis using l handshake_accepted [OF assms(1,2,3)] by (simp add: ctrl_server_connection_def)
qed

text \<open>The loop over the queue sends everything, and ends before the wait.\<close>

lemma drain_pass_front:
  assumes "ctrlq_rep u n h (cl_queue c) (m # ms)" "m \<noteq> []" "rc_ctrlproto conf = IPPROTO_TCP" "0 \<le> snd_msg m"
  shows "drain_pass snd_msg conf c = Some (Inr (c\<lparr>cl_sent := cl_sent c @ [m], cl_queue := ctrl_queue_release_msg (cl_queue c)\<rparr>))"
proof -
  obtain buf where b: "qbuffer (cl_queue c) = Some buf" using assms(1) by (auto simp: ctrlq_rep_def)
  have q: "queuemsg_at buf (qhead (cl_queue c)) = Some m" using read_rep(2) [OF assms(1)] b by simp
  then obtain sz where s: "rd16 buf (qhead (cl_queue c)) = Some sz" "c_read buf (qhead (cl_queue c) + 2) (uint sz) = Some m"
    by (auto simp: queuemsg_at_def)
  have "sz \<noteq> 0" using c_read_SomeD [OF s(2)] assms(2) by auto
  then show ?thesis using read_rep(1) [OF assms(1)] b q s(1) assms(3,4) by (simp add: drain_pass_def Let_def)
qed

lemma drains_all:
  assumes "cl_pos c = Draining" "ctrlq_rep u n h (cl_queue c) ms" "[] \<notin> set ms" "rc_ctrlproto conf = IPPROTO_TCP" "\<forall>m. 0 \<le> snd_msg m"
  shows "\<exists>c'. (sender_step snd_msg conf)\<^sup>*\<^sup>* c c' \<and> cl_pos c' = Before_Wait \<and> cl_sent c' = cl_sent c @ ms \<and> ctrlq_items (cl_queue c') = []"
  using assms(1-3)
proof (induction ms arbitrary: c h)
  case Nil
  have "drain_pass snd_msg conf c = Some (Inr (c\<lparr>cl_pos := Before_Wait\<rparr>))"
    using read_rep(1) [OF Nil(2)] by (simp add: drain_pass_def)
  then show ?case using sender_step.drains [OF Nil(1)] rep_items [OF Nil(2)]
    by (intro exI [of _ "c\<lparr>cl_pos := Before_Wait\<rparr>"]) auto
next
  case (Cons m ms)
  let ?c = "c\<lparr>cl_sent := cl_sent c @ [m], cl_queue := ctrl_queue_release_msg (cl_queue c)\<rparr>"
  have d: "drain_pass snd_msg conf c = Some (Inr ?c)" using drain_pass_front [OF Cons(3)] Cons(4) assms(4,5) by auto
  have r: "ctrlq_rep u n ((h + 1) mod n) (cl_queue ?c) ms" using release_rep [OF Cons(3)] by simp
  obtain c' where c': "(sender_step snd_msg conf)\<^sup>*\<^sup>* ?c c'" "cl_pos c' = Before_Wait" "cl_sent c' = cl_sent ?c @ ms" "ctrlq_items (cl_queue c') = []"
    using Cons.IH [OF _ r] Cons(2,4) by auto
  from converse_rtranclp_into_rtranclp [OF sender_step.drains [OF Cons(2) d] c'(1)] c'(2-4) show ?case by auto
qed

section \<open>Examples\<close>

definition example_client :: ctrl_client where
  "example_client = \<lparr>cl_queue = snd (the (ctrl_queue_init True 32768 64 \<lparr>qhead = 0, qtail = 0, qsize = 0, qunit = 0, qbuffer = None\<rparr>)),
     cl_enabled = True, cl_pos = Before_Wait, cl_sent = [], cl_dropped = 0\<rparr>"

lemma example_client_rep: "ctrlq_rep 68 481 0 (cl_queue example_client) []"
proof -
  obtain r q where q: "ctrl_queue_init True 32768 64 \<lparr>qhead = 0, qtail = 0, qsize = 0, qunit = 0, qbuffer = None\<rparr> = Some (r, q)"
    by (simp add: ctrl_queue_init_def Let_def)
  from init_rep [OF _ _ _ q] show ?thesis by (simp add: example_client_def q)
qed

definition example_msg :: "byte list" where "example_msg = [0, 4, 1, 0]"

lemma example_msg: "ctrl_app_msg example_msg" "ctrl_valid example_msg" "example_msg \<noteq> []" "length example_msg = 4"
  by (simp_all add: example_msg_def ctrl_app_msg_def ctrl_framed_def ctrl_valid_def CTRL_MSGTYPE_SYSTEM_def le16_def htons_def)

lemma example_put:
  "\<exists>q. ctrl_queue_write_msg (cl_queue example_client) example_msg 4 = Some (4, q) \<and> ctrlq_rep 68 481 0 q [example_msg]"
  using write_rep [OF example_client_rep, of example_msg] example_msg(3,4) by simp

lemma example_run:
  "\<exists>c. client_run (\<lambda>m. int (length m)) rtspconf_init example_client c [example_msg] \<and> cl_pos c = Before_Wait \<and> cl_sent c = [example_msg] \<and>
    ctrlq_items (cl_queue c) = []"
proof -
  obtain q where q: "ctrl_queue_write_msg (cl_queue example_client) example_msg 4 = Some (4, q)" "ctrlq_rep 68 481 0 q [example_msg]"
    using example_put by blast
  let ?w = "example_client\<lparr>cl_pos := Waiting\<rparr>" and ?d = "example_client\<lparr>cl_queue := q, cl_pos := Draining\<rparr>"
  have w: "client_run (\<lambda>m. int (length m)) rtspconf_init example_client ?w []"
    by (intro client_run.sends [OF client_run.start] sender_step.waits) (simp add: example_client_def)
  have "ctrl_client_sendmsg example_msg (int (length example_msg)) ?w = Some ?d"
    using q(1) by (simp add: ctrl_client_sendmsg_def example_msg(4) Let_def wake_client_def example_client_def)
  from client_run.puts [OF w this example_msg(2)] have "client_run (\<lambda>m. int (length m)) rtspconf_init example_client ?d [example_msg]"
    using q(1) by (simp add: ctrl_enq_def example_msg(4) example_client_def)
  moreover obtain c where "(sender_step (\<lambda>m. int (length m)) rtspconf_init)\<^sup>*\<^sup>* ?d c" "cl_pos c = Before_Wait" "cl_sent c = [example_msg]" "ctrlq_items (cl_queue c) = []"
    using drains_all [of ?d 68 481 0 "[example_msg]" rtspconf_init "\<lambda>m. int (length m)"] q(2) example_msg(3)
    by (auto simp: rtspconf_init_def example_client_def)
  ultimately show ?thesis using client_run_steps by blast
qed

lemma example_client_ok: "ctrlq_ok (cl_queue example_client)" "ctrlq_items (cl_queue example_client) = []" "cl_sent example_client = []"
  using example_client_rep rep_items [OF example_client_rep] by (auto simp: ctrlq_ok_def) (simp add: example_client_def)

theorem ctrl_client_sends_in_order_witness:
  "\<exists>c. client_run (\<lambda>m. int (length m)) rtspconf_init example_client c [example_msg] \<and> cl_sent c @ ctrlq_items (cl_queue c) = [example_msg]"
proof -
  obtain c where c: "client_run (\<lambda>m. int (length m)) rtspconf_init example_client c [example_msg]" using example_run by blast
  from ctrl_client_sends_in_order [OF c example_client_ok] c show ?thesis by (auto simp: rtspconf_init_def)
qed


theorem ctrl_handshake_swallows_witness:
  "\<exists>s'. ctrl_server_connection [71, 65] [ctrl_handshake_msg [71, 65] @ example_msg] (ctrl_server_start (replicate 8192 0) (cl_queue example_client) [] True) = Some (True, s') \<and>
    sv_replayed s' = []"
  using ctrl_handshake_swallows [of "[71, 65]" "ctrl_server_start (replicate 8192 0) (cl_queue example_client) [] True" "[example_msg]"] example_msg(4)
  by (auto simp: ctrl_server_start_def)

end
