(* ===== verification/ClientProgram.thy ===== *)
theory ClientProgram
  imports CtrlClient SdlMsg ClientVideo
begin

unbundle bit_operations_syntax

text \<open>
  The program of the player (\<open>client/ga-client.cpp\<close>): its windows, the events of SDL that become input
  messages or requests of the other threads, the picture put on the screen, the watchdog, and
  \<open>main\<close>. The events of SDL are a datatype with the fields that the code reads; what SDL, the memory allocator and the converter library answer are
  parameters, and the calls of SDL that change the window are recorded. The scaling of the pointer is exact.
\<close>

section \<open>State\<close>

datatype ui_call = Set_Fullscreen u32 | Set_Grab bool | Set_Relative bool | Set_Title nat int int | Set_Minimum int int |
  Warp_Mouse int int | Pause_Audio int | Draw_Text "nat option" string | Present nat

text \<open>A picture is its three planes; a texture is its pitch and its bytes.\<close>

type_synonym planes = "byte list \<times> byte list \<times> byte list"

record view_channel =
  vw_width :: int
  vw_height :: int
  vw_format :: int
  vw_surface :: "int option"
  vw_pipe :: nat
  vw_swsctx :: nat
  vw_overlay :: "int \<times> byte list"

record key_stamp =
  ks_down :: bool
  ks_time :: timeval
  ks_scan :: int
  ks_sym :: int
  ks_mod :: u16

record player =
  pl_relative :: int
  pl_showCursor :: int
  pl_native :: "(int \<times> int) list"
  pl_window :: "(int \<times> int) list"
  pl_ids :: "(int, nat) smap"
  pl_running :: bool
  pl_client :: ctrl_client
  pl_keyts :: "key_stamp list option"
  pl_channels :: "view_channel list"
  pl_pipes :: dpipe_sys
  pl_conv :: converters
  pl_picture :: "nat \<Rightarrow> planes option"
  pl_audioOpened :: bool
  pl_rendered :: bool
  pl_watchdog :: timeval
  pl_ui :: "ui_call list"

definition ui :: "ui_call list \<Rightarrow> player \<Rightarrow> player" where
  "ui cs p = p\<lparr>pl_ui := pl_ui p @ cs\<rparr>"

text \<open>The answers of SDL and of the environment.\<close>

record sdl_env =
  se_conf :: ga_conf
  se_now :: timeval
  se_flags :: u32
  se_grabbed :: bool
  se_getContext :: "vconvcfg \<Rightarrow> nat"
  se_palloc :: "nat option"
  se_nalloc :: bool
  se_balloc :: "nat \<Rightarrow> nat option"
  se_malloc :: "nat \<Rightarrow> int \<Rightarrow> nat option"
  se_picture :: "nat \<Rightarrow> planes option"
  se_window :: "int \<Rightarrow> int \<Rightarrow> u32 \<Rightarrow> int option"
  se_drivers :: "(string \<times> u32) option list"
  se_renderer :: "int \<Rightarrow> u32 \<Rightarrow> bool"
  se_texture :: "(int \<times> byte list) option"
  se_lock :: bool
  se_openaudio :: bool

section \<open>Windows\<close>

definition SDL_WINDOW_FULLSCREEN_DESKTOP :: u32 where "SDL_WINDOW_FULLSCREEN_DESKTOP = 0x1001"
definition SDL_WINDOW_BORDERLESS :: u32 where "SDL_WINDOW_BORDERLESS = 0x10"
definition SDL_WINDOW_RESIZABLE :: u32 where "SDL_WINDOW_RESIZABLE = 0x20"
definition SDL_WINDOW_INPUT_GRABBED :: u32 where "SDL_WINDOW_INPUT_GRABBED = 0x100"

definition surface0 :: "player \<Rightarrow> bool" where
  "surface0 p = (case pl_channels p of [] \<Rightarrow> False | c # _ \<Rightarrow> vw_surface c \<noteq> None)"

definition switch_fullscreen :: "sdl_env \<Rightarrow> player \<Rightarrow> player" where
  "switch_fullscreen env p =
     (if surface0 p then ui [Set_Fullscreen ((se_flags env AND SDL_WINDOW_FULLSCREEN_DESKTOP) XOR SDL_WINDOW_FULLSCREEN_DESKTOP)] p else p)"

definition switch_grab_input :: "sdl_env \<Rightarrow> player \<Rightarrow> player" where
  "switch_grab_input env p = (if surface0 p then ui [Set_Grab (\<not> se_grabbed env)] p else p)"

definition xlat_mouse :: "int \<Rightarrow> int \<Rightarrow> int \<Rightarrow> int option" where
  "xlat_mouse native window x = (if window = 0 then None else c_int (c_trunc (real_of_int native / real_of_int window * real_of_int x)))"

definition xlat_mouseX :: "player \<Rightarrow> nat \<Rightarrow> int \<Rightarrow> int option" where
  "xlat_mouseX p ch x = (if ch < length (pl_native p) \<and> ch < length (pl_window p) then xlat_mouse (fst (pl_native p ! ch)) (fst (pl_window p ! ch)) x else None)"

definition xlat_mouseY :: "player \<Rightarrow> nat \<Rightarrow> int \<Rightarrow> int option" where
  "xlat_mouseY p ch y = (if ch < length (pl_native p) \<and> ch < length (pl_window p) then xlat_mouse (snd (pl_native p ! ch)) (snd (pl_window p ! ch)) y else None)"

text \<open>The choice of the renderer: its index and flags.\<close>

definition SDL_RENDERER_SOFTWARE :: u32 where "SDL_RENDERER_SOFTWARE = 1"
definition SDL_RENDERER_ACCELERATED :: u32 where "SDL_RENDERER_ACCELERATED = 2"

fun choose_renderer :: "string \<Rightarrow> int \<Rightarrow> (string \<times> u32) option list \<Rightarrow> int \<times> u32 \<Rightarrow> int \<times> u32" where
  "choose_renderer nm i [] r = r"
| "choose_renderer nm i (None # ds) r = choose_renderer nm (i + 1) ds r"
| "choose_renderer nm i (Some (d, fl) # ds) (idx, flags) =
     choose_renderer nm (i + 1) ds
       (if nm = d then i else idx,
        if flags \<noteq> SDL_RENDERER_SOFTWARE \<and> fl AND SDL_RENDERER_ACCELERATED \<noteq> 0 then SDL_RENDERER_ACCELERATED else flags)"

definition POOLSIZE :: int where "POOLSIZE = 16"
definition sizeof_AVPicture :: int where "sizeof_AVPicture = 64"

text \<open>A picture for every free buffer of a pipe; the fuel bounds their number. \<open>None\<close> inside is a failed allocation.\<close>

primrec alloc_pictures :: "nat \<Rightarrow> (nat \<Rightarrow> planes option) \<Rightarrow> dheap \<Rightarrow> nat option \<Rightarrow> (nat \<Rightarrow> planes option) \<Rightarrow> (nat \<Rightarrow> planes option) option option" where
  "alloc_pictures 0 pic h b m = (if b = None then Some (Some m) else None)"
| "alloc_pictures (Suc n) pic h b m =
     (case b of None \<Rightarrow> Some (Some m)
      | Some b \<Rightarrow> do {
          x \<leftarrow> h b;
          (case pic b of None \<Rightarrow> Some None
           | Some f \<Rightarrow> alloc_pictures n pic h (buf_next x) (m(b \<mapsto> f))) })"

text \<open>The window, once the pipe is ready. \<open>Inl\<close> is the exit of the program.\<close>

definition window_flags :: "sdl_env \<Rightarrow> player \<Rightarrow> u32 option" where
  "window_flags env p = do {
     fs \<leftarrow> ga_conf_readbool (se_conf env) ''fullscreen'' 0;
     (let fl = SDL_WINDOW_RESIZABLE OR (if fs \<noteq> 0 then SDL_WINDOW_FULLSCREEN_DESKTOP OR SDL_WINDOW_BORDERLESS else 0)
      in Some (if pl_relative p \<noteq> 0 then fl OR SDL_WINDOW_INPUT_GRABBED else fl)) }"

definition window_ready :: "nat \<Rightarrow> int \<Rightarrow> int \<Rightarrow> int \<Rightarrow> player \<Rightarrow> player" where
  "window_ready ch w h wid p =
     (let p = ui [Set_Minimum (drop_bit 2 w) (drop_bit 2 h), Warp_Mouse (w sdiv 2) (h sdiv 2)]
                (p\<lparr>pl_native := (pl_native p)[ch := (w, h)], pl_window := (pl_window p)[ch := (w, h)], pl_ids := smap_put (pl_ids p) wid ch\<rparr>)
      in if pl_relative p \<noteq> 0 then ui [Set_Relative True] (p\<lparr>pl_showCursor := 0\<rparr>) else p)"

definition create_renderer :: "sdl_env \<Rightarrow> string \<Rightarrow> (int \<times> byte list) option" where
  "create_renderer env name =
     (let (idx, flags) = choose_renderer name 0 (se_drivers env) (-1, if name = ''software'' then SDL_RENDERER_SOFTWARE else 0)
      in if se_renderer env idx flags then se_texture env else None)"

definition open_window :: "sdl_env \<Rightarrow> nat \<Rightarrow> int \<Rightarrow> int \<Rightarrow> nat \<Rightarrow> nat \<Rightarrow> player \<Rightarrow> (int + player) option" where
  "open_window env ch w h pipe ctx p = do {
     flags \<leftarrow> window_flags env p;
     (case se_window env w h flags of
        None \<Rightarrow> Some (Inl (-1))
      | Some wid \<Rightarrow> do {
          c \<leftarrow> (if ch < length (pl_channels p) then Some (pl_channels p ! ch) else None);
          nm \<leftarrow> ga_conf_readv (se_conf env) ''video-renderer'' 64;
          Some (case create_renderer env (case nm of None \<Rightarrow> '''' | Some s \<Rightarrow> s) of
                  None \<Rightarrow> Inl (-1)
                | Some t \<Rightarrow> (let p = window_ready ch w h wid p
                    in Inr (p\<lparr>pl_channels := (pl_channels p)[ch := c\<lparr>vw_surface := Some wid, vw_pipe := pipe, vw_swsctx := ctx, vw_overlay := t\<rparr>],
                         pl_watchdog := se_now env\<rparr>))) }) }"

definition create_overlay :: "sdl_env \<Rightarrow> nat \<Rightarrow> player \<Rightarrow> (int + player) option" where
  "create_overlay env ch p = do {
     c \<leftarrow> (if ch < length (pl_channels p) then Some (pl_channels p ! ch) else None);
     (if vw_surface c \<noteq> None then Some (Inr p)
      else let w = vw_width c; h = vw_height c;
               (ctx, conv) = create_frame_converter (se_getContext env) (pl_conv p) w h (vw_format c) w h 0
           in if ctx = 0 then Some (Inl (-1))
              else do {
                (pa, sys) \<leftarrow> dpipe_create (se_palloc env) (se_nalloc env) (se_balloc env) (se_malloc env) (int ch)
                   (Some (''channel-'' @ [char_of (48 + ch)])) POOLSIZE sizeof_AVPicture (pl_pipes p);
                (case pa of
                   None \<Rightarrow> Some (Inl (-1))
                 | Some a \<Rightarrow> do {
                     d \<leftarrow> ds_pipes sys a;
                     m \<leftarrow> alloc_pictures (nat POOLSIZE) (se_picture env) (ds_heap sys) (dp_in d) (pl_picture p);
                     (case m of
                        None \<Rightarrow> Some (Inl (-1))
                      | Some m \<Rightarrow> open_window env ch w h a ctx (p\<lparr>pl_conv := conv, pl_pipes := sys, pl_picture := m\<rparr>)) }) }) }"

text \<open>The sound device; a callback already open is kept.\<close>

definition open_audio :: "sdl_env \<Rightarrow> rtspconf \<Rightarrow> player \<Rightarrow> player" where
  "open_audio env conf p =
     (if audio_device_format conf \<noteq> 1 then p
      else if pl_audioOpened p then p
      else if \<not> se_openaudio env then p
      else ui [Pause_Audio 0] (p\<lparr>pl_audioOpened := True\<rparr>))"

text \<open>The planes go into the texture at offsets that its pitch determines, without regard to the pitch of a line.\<close>

definition draw_planes :: "int \<Rightarrow> int \<Rightarrow> planes \<Rightarrow> int \<times> byte list \<Rightarrow> (int \<times> byte list) option" where
  "draw_planes w h f t = (case (f, t) of ((y, u, v), (pitch, px)) \<Rightarrow> do {
     a \<leftarrow> c_read y 0 (w * h); px \<leftarrow> c_write px 0 a;
     b \<leftarrow> c_read u 0 (w * h sdiv 4); px \<leftarrow> c_write px (drop_bit 2 (pitch * h * 5)) b;
     c \<leftarrow> c_read v 0 (w * h sdiv 4); px \<leftarrow> c_write px (pitch * h) c;
     Some (pitch, px) })"

definition render_image :: "sdl_env \<Rightarrow> nat \<Rightarrow> player \<Rightarrow> player option" where
  "render_image env ch p = do {
     c \<leftarrow> (if ch < length (pl_channels p) then Some (pl_channels p ! ch) else None);
     d \<leftarrow> ds_pipes (pl_pipes p) (vw_pipe c);
     (b, hp, d) \<leftarrow> dpipe_load_nowait (ds_heap (pl_pipes p)) d;
     (case b of
        None \<Rightarrow> Some p
      | Some b \<Rightarrow> do {
          f \<leftarrow> pl_picture p b;
          t \<leftarrow> (if se_lock env then draw_planes (vw_width c) (vw_height c) f (vw_overlay c) else Some (vw_overlay c));
          (hp, d) \<leftarrow> dpipe_put hp d b;
          Some (ui [Present ch] (p\<lparr>pl_pipes := (pl_pipes p)\<lparr>ds_heap := hp, ds_pipes := (ds_pipes (pl_pipes p))(vw_pipe c \<mapsto> d)\<rparr>,
            pl_channels := (pl_channels p)[ch := c\<lparr>vw_overlay := t\<rparr>], pl_rendered := True\<rparr>)) }) }"

section \<open>Events\<close>

text \<open>
  The events with the fields that are read. The handler of the wheel reads the position of the motion event, which
  lies at the vertical amount of the wheel and behind its structure: \<open>ev_behind\<close> is what is there.
\<close>

datatype sdl_event =
    SDL_KEYUP (ev_scancode: int) (ev_sym: int) (ev_mod: u16)
  | SDL_KEYDOWN (ev_scancode: int) (ev_sym: int) (ev_mod: u16)
  | SDL_MOUSEBUTTONUP (ev_window: int) (ev_button: byte) (ev_x: int) (ev_y: int)
  | SDL_MOUSEBUTTONDOWN (ev_window: int) (ev_button: byte) (ev_x: int) (ev_y: int)
  | SDL_MOUSEMOTION (ev_window: int) (ev_x: int) (ev_y: int) (ev_xrel: int) (ev_yrel: int) (ev_state: u32)
  | SDL_MOUSEWHEEL (ev_wheelx: int) (ev_wheely: int) (ev_behind: int)
  | SDL_WINDOWEVENT_CLOSE
  | SDL_WINDOWEVENT_SIZE_CHANGED (ev_window: int) (ev_data1: int) (ev_data2: int)
  | SDL_USEREVENT_RENDER_IMAGE (ev_channel: nat)
  | SDL_USEREVENT_CREATE_OVERLAY (ev_channel: nat)
  | SDL_USEREVENT_OPEN_AUDIO
  | SDL_USEREVENT_RENDER_TEXT (ev_text: string)
  | SDL_QUIT
  | SDL_OTHER

definition SDLK_BACKQUOTE :: int where "SDLK_BACKQUOTE = 96"
definition SDLK_RETURN :: int where "SDLK_RETURN = 13"
definition KMOD_ALT :: u16 where "KMOD_ALT = 0x300"

text \<open>A message is built in the buffer \<open>m\<close>, of which the first \<open>n\<close> bytes are sent.\<close>

definition send_input :: "byte list option \<Rightarrow> nat \<Rightarrow> player \<Rightarrow> player option" where
  "send_input m n p = do {
     m \<leftarrow> m;
     x \<leftarrow> c_read m 0 (int n);
     c \<leftarrow> ctrl_client_sendmsg x (int n) (pl_client p);
     Some (p\<lparr>pl_client := c\<rparr>) }"

definition log_key :: "sdl_env \<Rightarrow> bool \<Rightarrow> int \<Rightarrow> int \<Rightarrow> u16 \<Rightarrow> player \<Rightarrow> player" where
  "log_key env dn sc sy md p = (case pl_keyts p of None \<Rightarrow> p
     | Some ks \<Rightarrow> p\<lparr>pl_keyts := Some (ks @ [\<lparr>ks_down = dn, ks_time = se_now env, ks_scan = sc, ks_sym = sy, ks_mod = md\<rparr>])\<rparr>)"

definition fullscreen_key :: "int \<Rightarrow> u16 \<Rightarrow> bool" where
  "fullscreen_key sy md \<longleftrightarrow> sy = SDLK_RETURN \<and> md AND KMOD_ALT \<noteq> 0"

definition release_mouse :: "sdl_env \<Rightarrow> int \<Rightarrow> player \<Rightarrow> player" where
  "release_mouse env sy p =
     (if sy = SDLK_BACKQUOTE \<and> pl_relative p \<noteq> 0
      then let p = switch_grab_input env (p\<lparr>pl_showCursor := 1 - pl_showCursor p\<rparr>)
           in ui [Set_Relative (pl_showCursor p = 0)] p
      else p)"

definition send_key :: "rtspconf \<Rightarrow> byte list \<Rightarrow> byte \<Rightarrow> int \<Rightarrow> int \<Rightarrow> u16 \<Rightarrow> player \<Rightarrow> player option" where
  "send_key conf m pressed sc sy md p =
     (if rc_ctrlenable conf \<noteq> 0
      then send_input (sdlmsg_keyboard m pressed (word_of_int sc) (word_of_int sy) md 0) sizeof_sdlmsg_keyboard p
      else Some p)"

definition send_button :: "rtspconf \<Rightarrow> byte list \<Rightarrow> byte \<Rightarrow> int \<Rightarrow> byte \<Rightarrow> int \<Rightarrow> int \<Rightarrow> player \<Rightarrow> player option" where
  "send_button conf m pressed win b x y p =
     (case smap_find (pl_ids p) win of
        Some ch \<Rightarrow>
          (if rc_ctrlenable conf \<noteq> 0
           then do { X \<leftarrow> xlat_mouseX p ch x; Y \<leftarrow> xlat_mouseY p ch y;
                  send_input (sdlmsg_mousekey m pressed b (word_of_int X) (word_of_int Y)) sizeof_sdlmsg_mouse p }
           else Some p)
      | None \<Rightarrow> Some p)"

definition ProcessEvent :: "sdl_env \<Rightarrow> rtspconf \<Rightarrow> byte list \<Rightarrow> sdl_event \<Rightarrow> player \<Rightarrow> (int + player) option" where
  "ProcessEvent env conf m ev p = (case ev of
       SDL_KEYUP sc sy md \<Rightarrow>
         do { p \<leftarrow> (let p = release_mouse env sy p in if fullscreen_key sy md then Some p else send_key conf m 0 sc sy md p);
              Some (Inr (log_key env False sc sy md p)) }
     | SDL_KEYDOWN sc sy md \<Rightarrow>
         do { p \<leftarrow> (if fullscreen_key sy md then Some (switch_fullscreen env p) else send_key conf m 1 sc sy md p);
              Some (Inr (log_key env True sc sy md p)) }
     | SDL_MOUSEBUTTONUP win b x y \<Rightarrow> do { p \<leftarrow> send_button conf m 0 win b x y p; Some (Inr p) }
     | SDL_MOUSEBUTTONDOWN win b x y \<Rightarrow> do { p \<leftarrow> send_button conf m 1 win b x y p; Some (Inr p) }
     | SDL_MOUSEMOTION win x y xrel yrel st \<Rightarrow>
         (case smap_find (pl_ids p) win of
            Some ch \<Rightarrow>
              (if rc_ctrlenable conf \<noteq> 0 \<and> rc_sendmousemotion conf \<noteq> 0
               then do { X \<leftarrow> xlat_mouseX p ch x; Y \<leftarrow> xlat_mouseY p ch y; RX \<leftarrow> xlat_mouseX p ch xrel; RY \<leftarrow> xlat_mouseY p ch yrel;
                      p \<leftarrow> send_input (sdlmsg_mousemotion m (word_of_int X) (word_of_int Y) (word_of_int RX) (word_of_int RY) (ucast st)
                             (if pl_relative p = 0 then 0 else 1)) sizeof_sdlmsg_mouse p;
                      Some (Inr p) }
               else Some (Inr p))
          | None \<Rightarrow> Some (Inr p))
     | SDL_MOUSEWHEEL wx wy behind \<Rightarrow>
         (if rc_ctrlenable conf \<noteq> 0 \<and> rc_sendmousemotion conf \<noteq> 0
          then do { p \<leftarrow> send_input (sdlmsg_mousewheel m (word_of_int wy) (word_of_int behind)) sizeof_sdlmsg_mouse p; Some (Inr p) }
          else Some (Inr p))
     | SDL_WINDOWEVENT_CLOSE \<Rightarrow> Some (Inr (p\<lparr>pl_running := False\<rparr>))
     | SDL_WINDOWEVENT_SIZE_CHANGED win w h \<Rightarrow>
         (case smap_find (pl_ids p) win of
            Some ch \<Rightarrow> (if ch < length (pl_window p) then Some (Inr (ui [Set_Title ch w h] (p\<lparr>pl_window := (pl_window p)[ch := (w, h)]\<rparr>))) else None)
          | None \<Rightarrow> Some (Inr p))
     | SDL_USEREVENT_RENDER_IMAGE ch \<Rightarrow> do { p \<leftarrow> render_image env ch p; Some (Inr p) }
     | SDL_USEREVENT_CREATE_OVERLAY ch \<Rightarrow> create_overlay env ch p
     | SDL_USEREVENT_OPEN_AUDIO \<Rightarrow> Some (Inr (open_audio env conf p))
     | SDL_USEREVENT_RENDER_TEXT t \<Rightarrow> Some (Inr (ui [Draw_Text (if surface0 p then Some 0 else None) t, Present 0] p))
     | SDL_QUIT \<Rightarrow> Some (Inr (p\<lparr>pl_running := False\<rparr>))
     | SDL_OTHER \<Rightarrow> Some (Inr p))"

text \<open>The loop of \<open>main\<close>, over the events that SDL delivers with the buffer of each call.\<close>

fun event_loop :: "rtspconf \<Rightarrow> (sdl_env \<times> byte list \<times> sdl_event) list \<Rightarrow> player \<Rightarrow> (int + player) option" where
  "event_loop conf [] p = Some (Inr p)"
| "event_loop conf ((env, m, ev) # es) p =
     (if \<not> pl_running p then Some (Inr p)
      else do { r \<leftarrow> ProcessEvent env conf m ev p;
                (case r of Inl e \<Rightarrow> Some (Inl e) | Inr p \<Rightarrow> event_loop conf es p) })"

section \<open>The watchdog\<close>

definition IDLE_MAXIMUM_THRESHOLD :: int where "IDLE_MAXIMUM_THRESHOLD = 3600000"
definition IDLE_DETECTION_THRESHOLD :: int where "IDLE_DETECTION_THRESHOLD = 600000"

datatype watchdog_action = Wd_Exit | Wd_Stall int | Wd_Nothing | Wd_No_Frames

definition watchdog_pass :: "timeval \<Rightarrow> timeval \<Rightarrow> watchdog_action" where
  "watchdog_pass now timer =
     (if tv_sec timer \<noteq> 0
      then let d = tvdiff_us now timer
           in if d > IDLE_MAXIMUM_THRESHOLD then Wd_Exit
              else if d > IDLE_DETECTION_THRESHOLD then Wd_Stall ((IDLE_MAXIMUM_THRESHOLD - d) sdiv 1000000)
              else Wd_Nothing
      else Wd_No_Frames)"

text \<open>The passes up to the end of the program; each is given its time and the timer then.\<close>

fun watchdog_thread :: "(timeval \<times> timeval) list \<Rightarrow> int list \<times> bool" where
  "watchdog_thread [] = ([], False)"
| "watchdog_thread ((now, timer) # ps) =
     (case watchdog_pass now timer of
        Wd_Exit \<Rightarrow> ([], True)
      | Wd_Stall n \<Rightarrow> (let (ms, e) = watchdog_thread ps in (n # ms, e))
      | _ \<Rightarrow> watchdog_thread ps)"

section \<open>The program\<close>

text \<open>What the calls of \<open>main\<close> answer; \<open>mn_exit\<close> tells whether the font, SDL and the threads can be set up.\<close>

record main_env =
  mn_fuel :: nat
  mn_mkpath :: "string \<Rightarrow> string \<Rightarrow> string"
  mn_fs :: "string \<Rightarrow> string option"
  mn_fopen :: "string \<Rightarrow> bool"
  mn_codec :: codec_env
  mn_resolve :: "rtspconf \<Rightarrow> rtspconf"
  mn_ttf :: bool
  mn_font :: bool
  mn_sdl :: bool
  mn_queue :: bool
  mn_ctrlthread :: bool
  mn_watchdog :: bool
  mn_rtspthread :: bool

text \<open>The controller: the configuration, which is changed when something fails, and the queue.\<close>

definition launch_controller :: "main_env \<Rightarrow> rtspconf \<Rightarrow> ctrl_queue \<Rightarrow> (rtspconf \<times> ctrl_queue) option" where
  "launch_controller env conf q =
     (if rc_ctrlenable conf = 0 then Some (conf, q)
      else do {
        (r, q) \<leftarrow> ctrl_queue_init (mn_queue env) 32768 (int sizeof_sdlmsg) q;
        Some (if r < 0 then (conf\<lparr>rc_ctrlenable := 0\<rparr>, q)
              else if \<not> mn_ctrlthread env then (conf\<lparr>rc_ctrlenable := 0\<rparr>, q)
              else (conf, q)) })"

definition empty_ctrl_queue :: ctrl_queue where
  "empty_ctrl_queue = \<lparr>qhead = 0, qtail = 0, qsize = 0, qunit = 0, qbuffer = None\<rparr>"

definition view_zero :: view_channel where
  "view_zero = \<lparr>vw_width = 0, vw_height = 0, vw_format = 0, vw_surface = None, vw_pipe = 0, vw_swsctx = 0, vw_overlay = (0, [])\<rparr>"

definition player_start :: "int \<Rightarrow> key_stamp list option \<Rightarrow> ctrl_queue \<Rightarrow> player" where
  "player_start rel ks q =
     \<lparr>pl_relative = rel, pl_showCursor = 1, pl_native = [(0, 0), (0, 0)], pl_window = [(0, 0), (0, 0)], pl_ids = [], pl_running = True,
      pl_client = \<lparr>cl_queue = q, cl_enabled = True, cl_pos = Before_Wait, cl_sent = [], cl_dropped = 0\<rparr>, pl_keyts = ks,
      pl_channels = [view_zero, view_zero], pl_pipes = \<lparr>ds_heap = (\<lambda>_. None), ds_pipes = (\<lambda>_. None), dpipemap = []\<rparr>,
      pl_conv = [], pl_picture = (\<lambda>_. None), pl_audioOpened = False, pl_rendered = False, pl_watchdog = \<lparr>tv_sec = 0, tv_usec = 0\<rparr>, pl_ui = []\<rparr>"

text \<open>\<open>main\<close> up to its loop of events: a return value, or the configuration and the state of the program.\<close>

definition client_main :: "main_env \<Rightarrow> string list \<Rightarrow> (int + rtspconf \<times> player) option" where
  "client_main env argv = (case argv of
       prog # config # url # rest \<Rightarrow> do {
         (r, st) \<leftarrow> ga_init (mn_fuel env) (mn_mkpath env) (mn_fs env) (Some config) (Some url) ga_conf_empty;
         (if r < 0 then Some (Inl (-1))
          else do {
            logf \<leftarrow> ga_openlog st (mn_fopen env) None;
            rel \<leftarrow> ga_conf_readbool st ''control-relative-mouse-mode'' 0;
            kf \<leftarrow> ga_conf_readv st ''save-key-timestamp'' 128;
            (r, conf, st) \<leftarrow> rtspconf_parse (mn_codec env) st;
            (if r < 0 \<or> \<not> mn_ttf env \<or> \<not> mn_font env then Some (Inl (-1))
             else let conf = mn_resolve env conf
                  in if \<not> mn_sdl env then Some (Inl (-1))
                     else do {
                       (conf, q) \<leftarrow> launch_controller env conf empty_ctrl_queue;
                       wd \<leftarrow> ga_conf_readbool st ''enable-watchdog'' 1;
                       (if wd = 1 \<and> \<not> mn_watchdog env \<or> \<not> mn_rtspthread env then Some (Inl (-1))
                        else let ks = (case kf of Some fn \<Rightarrow> if mn_fopen env fn then Some [] else None | None \<Rightarrow> None)
                             in Some (Inr (conf, player_start (if rel \<noteq> 0 then 1 else 0) ks q))) }) }) }
     | _ \<Rightarrow> Some (Inl (-1)))"

section \<open>A run of the program\<close>

text \<open>The event thread, which has its events, and the sending thread of the controller, in any order.\<close>

inductive player_run :: "(byte list \<Rightarrow> int) \<Rightarrow> rtspconf \<Rightarrow> player \<Rightarrow> player \<Rightarrow> bool" for snd_msg conf p0 where
  begins: "player_run snd_msg conf p0 p0"
| event: "player_run snd_msg conf p0 p \<Longrightarrow> pl_running p \<Longrightarrow> sizeof_sdlmsg \<le> length m \<Longrightarrow> ProcessEvent env conf m ev p = Some (Inr p') \<Longrightarrow> player_run snd_msg conf p0 p'"
| sender: "player_run snd_msg conf p0 p \<Longrightarrow> sender_step snd_msg conf (pl_client p) c \<Longrightarrow> player_run snd_msg conf p0 (p\<lparr>pl_client := c\<rparr>)"

section \<open>Properties\<close>

subsection \<open>Input\<close>

lemma ui_client [simp]: "pl_client (ui cs p) = pl_client p" "pl_running (ui cs p) = pl_running p"
  by (simp_all add: ui_def)

lemma log_key_client [simp]: "pl_client (log_key env dn sc sy md p) = pl_client p"
  by (simp add: log_key_def split: option.split)

lemma release_mouse_client [simp]: "pl_client (release_mouse env sy p) = pl_client p"
  by (simp add: release_mouse_def switch_grab_input_def Let_def)

lemma switch_fullscreen_client [simp]: "pl_client (switch_fullscreen env p) = pl_client p"
  by (simp add: switch_fullscreen_def)

lemma open_audio_client [simp]: "pl_client (open_audio env conf p) = pl_client p"
  by (simp add: open_audio_def)

lemma render_image_client: "render_image env ch p = Some p' \<Longrightarrow> pl_client p' = pl_client p"
  by (auto simp: render_image_def split: if_splits option.splits)

lemma window_ready_client [simp]: "pl_client (window_ready ch w h wid p) = pl_client p"
  by (simp add: window_ready_def Let_def)

lemma open_window_client: "open_window env ch w h a ctx p = Some (Inr p') \<Longrightarrow> pl_client p' = pl_client p"
  by (auto simp: open_window_def Let_def split: if_split_asm option.split_asm)

lemma create_overlay_client: "create_overlay env ch p = Some (Inr p') \<Longrightarrow> pl_client p' = pl_client p"
  by (auto simp: create_overlay_def Let_def case_prod_beta split: if_split_asm option.split_asm dest!: open_window_client)

text \<open>What an event may send: one message that the server's loop takes as an input message.\<close>

definition input_msg :: "byte list \<Rightarrow> bool" where
  "input_msg x \<longleftrightarrow> ctrl_app_msg x \<and> ctrl_valid x"

lemma keyboard_input: "input_msg (keyboard_bytes p sc key uni md)"
  by (simp add: input_msg_def ctrl_app_msg_def ctrl_framed_def ctrl_valid_def keyboard_bytes_def CTRL_MSGTYPE_SYSTEM_def nth_append)

lemma mouse_input: "t \<noteq> 254 \<Longrightarrow> length bs = 4 \<Longrightarrow> input_msg (mouse_bytes t bs x y rx ry)"
  by (simp add: input_msg_def ctrl_app_msg_def ctrl_framed_def ctrl_valid_def mouse_bytes_def CTRL_MSGTYPE_SYSTEM_def nth_append)

lemma length_input [simp]: "length (keyboard_bytes p sc key uni md) = 18" "length bs = 4 \<Longrightarrow> length (mouse_bytes t bs x y rx ry) = 16"
  by (simp_all add: keyboard_bytes_def mouse_bytes_def)

definition sends :: "player \<Rightarrow> byte list \<Rightarrow> player \<Rightarrow> bool" where
  "sends p x p' \<longleftrightarrow> ctrl_client_sendmsg x (int (length x)) (pl_client p) = Some (pl_client p')"

lemma send_input_sends:
  "send_input (Some (x @ r)) n p = Some p' \<Longrightarrow> n = length x \<Longrightarrow> sends p x p'"
  by (auto simp: send_input_def sends_def c_read_def)

lemma send_key_sends:
  assumes "sizeof_sdlmsg \<le> length m" "send_key conf m pr sc sy md p = Some p'" "rc_ctrlenable conf \<noteq> 0"
  shows "sends p (keyboard_bytes pr (htons (word_of_int sc)) (htonl (word_of_int sy)) (htonl 0) (htons md)) p'"
proof -
  have "sdlmsg_keyboard m pr (word_of_int sc) (word_of_int sy) md 0 =
      Some (keyboard_bytes pr (htons (word_of_int sc)) (htonl (word_of_int sy)) (htonl 0) (htons md) @ drop 18 m)"
    using sdlmsg_keyboard_bytes [of m] assms(1) by (simp add: keyboard_bytes_def sizeof_sdlmsg_def)
  then show ?thesis using assms(2,3) send_input_sends by (simp add: send_key_def sizeof_sdlmsg_keyboard_def)
qed

lemma process_event_sends:
  assumes "sizeof_sdlmsg \<le> length m" "ProcessEvent env conf m ev p = Some (Inr p')"
  shows "pl_client p' = pl_client p \<or> (\<exists>x. input_msg x \<and> sends p x p')"
proof -
  have l: "16 \<le> length m" using assms(1) by (simp add: sizeof_sdlmsg_def)
  have key: "pl_client q = pl_client p \<or> (\<exists>x. input_msg x \<and> sends p x q)" if "send_key conf m pr sc sy md p1 = Some q" "pl_client p1 = pl_client p" for pr sc sy md p1 q
  proof (cases "rc_ctrlenable conf = 0")
    case False
    then have "sends p1 (keyboard_bytes pr (htons (word_of_int sc)) (htonl (word_of_int sy)) (htonl 0) (htons md)) q" using send_key_sends [OF assms(1) that(1)] by simp
    then have "sends p (keyboard_bytes pr (htons (word_of_int sc)) (htonl (word_of_int sy)) (htonl 0) (htons md)) q" by (simp add: sends_def that(2))
    then show ?thesis using keyboard_input by blast
  qed (use that in \<open>simp add: send_key_def\<close>)
  have mouse: "\<exists>x. input_msg x \<and> sends p x q" if "send_input (Some (mouse_bytes t bs a b c d @ r)) sizeof_sdlmsg_mouse p = Some q" "length bs = 4" "t \<noteq> 254" for t bs a b c d r q
    using send_input_sends [OF that(1)] mouse_input [OF that(3,2)] that(2)
    by (intro exI [of _ "mouse_bytes t bs a b c d"]) (simp add: sizeof_sdlmsg_mouse_def)
  have button: "pl_client q = pl_client p \<or> (\<exists>x. input_msg x \<and> sends p x q)" if "send_button conf m pr win b x y p = Some q" for pr win b x y q
    using that by (auto simp: send_button_def sdlmsg_mouse_bytes [OF l] split: option.splits if_splits dest: mouse)
  show ?thesis
  proof (cases ev)
    case (SDL_KEYUP sc sy md)
    then obtain q where "(if fullscreen_key sy md then Some (release_mouse env sy p) else send_key conf m 0 sc sy md (release_mouse env sy p)) = Some q" "pl_client p' = pl_client q"
      using assms(2) by (auto simp: ProcessEvent_def Let_def)
    then show ?thesis using key [of 0 sc sy md "release_mouse env sy p" q] by (auto simp: sends_def split: if_splits)
  next
    case (SDL_KEYDOWN sc sy md)
    then obtain q where "(if fullscreen_key sy md then Some (switch_fullscreen env p) else send_key conf m 1 sc sy md p) = Some q" "pl_client p' = pl_client q"
      using assms(2) by (auto simp: ProcessEvent_def Let_def)
    then show ?thesis using key [of 1 sc sy md p q] by (auto simp: sends_def split: if_splits)
  qed (use assms(2) in \<open>auto simp: ProcessEvent_def sdlmsg_mouse_bytes [OF l] split: if_splits option.splits
      dest!: button mouse render_image_client create_overlay_client\<close>)
qed

lemma player_run_client:
  assumes "player_run snd_msg conf p0 p"
  shows "\<exists>acc. client_run snd_msg conf (pl_client p0) (pl_client p) acc \<and> (\<forall>x \<in> set acc. ctrl_app_msg x)"
  using assms
proof induction
  case begins
  then show ?case using client_run.start [of snd_msg conf "pl_client p0"] by auto
next
  case (event p m env ev p')
  then obtain acc where r: "client_run snd_msg conf (pl_client p0) (pl_client p) acc" "\<forall>x \<in> set acc. ctrl_app_msg x" by blast
  show ?case
  proof (cases "pl_client p' = pl_client p")
    case False
    then obtain x where x: "ctrl_app_msg x" "ctrl_valid x" "ctrl_client_sendmsg x (int (length x)) (pl_client p) = Some (pl_client p')"
      using process_event_sends [OF event(3,4)] by (auto simp: input_msg_def sends_def)
    show ?thesis by (intro exI conjI, rule client_run.puts [OF r(1) x(3,2)]) (use x(1) r(2) in auto)
  qed (use r in auto)
next
  case (sender p c)
  then show ?case by (auto intro: client_run.sends)
qed

text \<open>The state in which \<open>main\<close> enters its loop.\<close>

definition program_start :: "player \<Rightarrow> bool" where
  "program_start p0 \<longleftrightarrow> (\<exists>rel ks q. ctrl_queue_init True 32768 64 empty_ctrl_queue = Some (0, q) \<and> p0 = player_start rel ks q)"

lemma program_start_queue:
  assumes "program_start p0"
  shows "ctrlq_rep 68 481 0 (cl_queue (pl_client p0)) []" "cl_sent (pl_client p0) = []" "cl_enabled (pl_client p0)" "cl_pos (pl_client p0) = Before_Wait"
    "ctrlq_ok (cl_queue (pl_client p0))" "ctrlq_items (cl_queue (pl_client p0)) = []"
proof -
  obtain rel ks q where q: "ctrl_queue_init True 32768 64 empty_ctrl_queue = Some (0, q)" and p: "p0 = player_start rel ks q"
    using assms by (auto simp: program_start_def)
  from init_rep [OF _ _ _ q] show r: "ctrlq_rep 68 481 0 (cl_queue (pl_client p0)) []" by (simp add: p player_start_def)
  then show "ctrlq_ok (cl_queue (pl_client p0))" "ctrlq_items (cl_queue (pl_client p0)) = []" using rep_items [OF r] by (auto simp: ctrlq_ok_def)
qed (use assms in \<open>auto simp: program_start_def player_start_def\<close>)


lemma queue_accepts:
  assumes "ctrlq_ok q" "ctrlq_items q = []" "qunit q = 68" "qsize q = 68 * 481" "ctrl_valid m" "length m \<le> 64"
  shows "\<exists>h q'. ctrl_queue_write_msg q m (int (length m)) = Some (int (length m), q') \<and> ctrlq_rep 68 481 h q' [m]"
proof -
  obtain u n h ms where r: "ctrlq_rep u n h q ms" using assms(1) by (auto simp: ctrlq_ok_def)
  then have u: "u = 68" using assms(3) by (simp add: ctrlq_rep_def)
  then have n: "n = 481" using r assms(4) by (auto simp: ctrlq_rep_def)
  have "ms = []" using rep_items [OF r] assms(2) by simp
  then show ?thesis using write_rep [OF r, of m] assms(5,6) u n by (auto simp: ctrl_valid_def)
qed

lemma player_run_steps:
  assumes "(sender_step snd_msg conf)\<^sup>*\<^sup>* (pl_client p) c" "player_run snd_msg conf p0 p"
  shows "player_run snd_msg conf p0 (p\<lparr>pl_client := c\<rparr>)"
  using assms
proof induction
  case (step c c')
  then show ?case using player_run.sender [of snd_msg conf p0 "p\<lparr>pl_client := c\<rparr>" c'] by simp
qed simp

text \<open>Sending a message while the other thread waits and the queue is empty: the thread wakes up and sends it.\<close>

lemma sent_at_once:
  assumes "program_start p0" "player_run snd_msg conf p0 p" "cl_pos (pl_client p) = Waiting" "ctrlq_items (cl_queue (pl_client p)) = []"
    "rc_ctrlproto conf = IPPROTO_TCP" "\<forall>m. 0 \<le> snd_msg m" "ctrl_valid x" "length x \<le> 64"
  shows "\<exists>c1 c2. ctrl_client_sendmsg x (int (length x)) (pl_client p) = Some c1 \<and> (sender_step snd_msg conf)\<^sup>*\<^sup>* c1 c2 \<and> cl_sent c2 = cl_sent (pl_client p) @ [x]"
proof -
  obtain acc where r: "client_run snd_msg conf (pl_client p0) (pl_client p) acc" using player_run_client [OF assms(2)] by blast
  note s = program_start_queue [OF assms(1)]
  have sh: "qunit (cl_queue (pl_client p)) = 68" "qsize (cl_queue (pl_client p)) = 68 * 481" "cl_enabled (pl_client p)"
    using client_run_shape [OF r] s(1,3) by (auto simp: client_shape_def ctrlq_rep_def)
  have ok: "ctrlq_ok (cl_queue (pl_client p))" using client_run_queue [OF r s(5)] assms(5) by simp
  obtain h q where q: "ctrl_queue_write_msg (cl_queue (pl_client p)) x (int (length x)) = Some (int (length x), q)" "ctrlq_rep 68 481 h q [x]"
    using queue_accepts [OF ok assms(4) sh(1,2) assms(7,8)] by blast
  let ?c = "(pl_client p)\<lparr>cl_queue := q, cl_pos := Draining\<rparr>"
  have "ctrl_client_sendmsg x (int (length x)) (pl_client p) = Some ?c"
    using q(1) sh(3) assms(3) by (simp add: ctrl_client_sendmsg_def Let_def wake_client_def)
  moreover obtain c2 where "(sender_step snd_msg conf)\<^sup>*\<^sup>* ?c c2" "cl_sent c2 = cl_sent ?c @ [x]"
    using drains_all [of ?c 68 481 h "[x]" conf snd_msg] q(2) assms(5,6,7) by (auto simp: ctrl_valid_def)
  ultimately show ?thesis by auto
qed

lemma ProcessEvent_key:
  assumes "sizeof_sdlmsg \<le> length m" "ev = SDL_KEYDOWN sc sy md \<and> pr = 1 \<or> ev = SDL_KEYUP sc sy md \<and> pr = 0" "\<not> fullscreen_key sy md" "rc_ctrlenable conf \<noteq> 0"
    "ctrl_client_sendmsg (keyboard_bytes pr (htons (word_of_int sc)) (htonl (word_of_int sy)) (htonl 0) (htons md)) 18 (pl_client p) = Some c"
  shows "\<exists>p'. ProcessEvent env conf m ev p = Some (Inr p') \<and> pl_client p' = c"
proof -
  have b: "sdlmsg_keyboard m pr (word_of_int sc) (word_of_int sy) md 0 =
      Some (keyboard_bytes pr (htons (word_of_int sc)) (htonl (word_of_int sy)) (htonl 0) (htons md) @ drop 18 m)"
    using sdlmsg_keyboard_bytes [of m] assms(1) by (simp add: keyboard_bytes_def sizeof_sdlmsg_def)
  have "send_key conf m pr sc sy md p1 = Some (p1\<lparr>pl_client := c\<rparr>)" if "pl_client p1 = pl_client p" for p1
    using assms(4,5) that unfolding send_key_def b by (simp add: send_input_def c_read_def sizeof_sdlmsg_keyboard_def)
  then show ?thesis using assms(2,3) by (auto simp: ProcessEvent_def Let_def)
qed


text \<open>The wheel of the mouse scrolls: although its handler reads the position of another kind of event, the vertical amount lies where that event has its
  horizontal position, so turning the wheel away from the player presses and releases button 4 in the X server and turning it back button 5.\<close>

theorem wheel_scrolls_game:
  assumes "sizeof_sdlmsg \<le> length m" "rc_ctrlenable conf \<noteq> 0" "rc_sendmousemotion conf \<noteq> 0" "wy \<noteq> 0" "- (2 ^ 15) \<le> wy" "wy < 2 ^ 15"
    "ProcessEvent env conf m (SDL_MOUSEWHEEL wx wy behind) p = Some (Inr p')"
  shows "\<exists>x. sends p x p' \<and> (\<forall>r n s. sdlmsg_replay_callback xk keycode (x @ r) n s = Some ([Grab_Control True,
    Fake_Button (if 0 < wy then 4 else 5) True, X_Sync, Fake_Button (if 0 < wy then 4 else 5) False, X_Sync, Grab_Control False], s))"
proof -
  let ?x = "mouse_bytes 4 [0, 0, 0, 0] (htons (word_of_int wy)) (htons (word_of_int behind)) (htons 0) (htons 0)"
  have l: "16 \<le> length m" using assms(1) by (simp add: sizeof_sdlmsg_def)
  have "send_input (Some (?x @ drop 16 m)) 16 p = Some p'"
    using assms(2,3,7) unfolding ProcessEvent_def sdlmsg_mouse_bytes(2) [OF l] by (auto simp: sizeof_sdlmsg_mouse_def)
  then have "sends p ?x p'" by (rule send_input_sends) simp
  moreover have sy: "sint (word_of_int wy :: u16) = wy" using assms(5,6) unfolding sint_sbintrunc' by (intro signed_take_bit_int_eq_self) simp_all
  moreover have "word_of_int wy \<noteq> (0 :: u16)" using sy assms(4) by (metis signed_0)
  ultimately show ?thesis using wheel_replayed [of "word_of_int wy"] by (intro exI [of _ ?x]) simp
qed

subsection \<open>The pointer\<close>

lemma xlat_mouse_inside:
  assumes "0 < W" "0 \<le> x" "x < W" "0 < n" "n < 2 ^ 31"
  shows "xlat_mouse n W x = Some (n * x div W) \<and> 0 \<le> n * x div W \<and> n * x div W < n"
proof -
  have e: "real_of_int n / real_of_int W * real_of_int x = real_of_int (n * x) / real_of_int W" by simp
  have nn: "\<not> real_of_int (n * x) / real_of_int W < 0" using assms by (simp add: divide_less_0_iff mult_less_0_iff)
  have t: "c_trunc (real_of_int n / real_of_int W * real_of_int x) = n * x div W"
    unfolding e c_trunc_def if_not_P [OF nn] by (rule floor_divide_of_int_eq)
  have "n * x < n * W" using assms by simp
  moreover have "(n * x div W) * W \<le> n * x" using assms(1) by (simp add: minus_mod_eq_div_mult [symmetric])
  ultimately have lt: "n * x div W < n" using assms(1) by (smt (verit) mult_right_mono)
  have "0 \<le> n * x div W" using assms by (simp add: pos_imp_zdiv_nonneg_iff)
  then show ?thesis using lt t assms(1,5) c_int_Some [of "n * x div W"] by (simp add: xlat_mouse_def)
qed


subsection \<open>Pictures\<close>

lemma draw_planes_exact:
  assumes "0 \<le> w" "0 \<le> h" "length y = nat (w * h)" "length y = 4 * length u" "length v = length u" "length px = length y + length u + length v"
  shows "draw_planes w h (y, u, v) (w, px) = Some (w, y @ v @ u)"
proof -
  have wh: "w * h = 4 * int (length u)" using assms(1-4) by (metis int_nat_eq of_nat_mult of_nat_numeral mult_nonneg_nonneg)
  have q: "w * h sdiv 4 = int (length u)" by (cases "u = []") (simp_all add: wh signed_divide_int_def sgn_if)
  have o5: "drop_bit 2 (w * h * 5) = 5 * int (length u)" by (simp add: wh drop_bit_int_def)
  obtain p1 p2 p3 where p: "px = p1 @ p2 @ p3" "length p1 = length y" "length p2 = length u" "length p3 = length u"
  proof
    show "px = take (length y) px @ take (length u) (drop (length y) px) @ drop (length y + length u) px"
      by (metis append.assoc append_take_drop_id take_add)
  qed (use assms(5,6) in auto)
  have r: "c_read y 0 (w * h) = Some y" "c_read u 0 (w * h sdiv 4) = Some u" "c_read v 0 (w * h sdiv 4) = Some v"
    using wh q assms(4,5) by (simp_all add: c_read_def)
  have w1: "c_write px 0 y = Some (y @ p2 @ p3)" using p(2) by (simp add: c_write_def p(1))
  have w2: "c_write (y @ p2 @ p3) (drop_bit 2 (w * h * 5)) u = Some (y @ p2 @ u)" using p(3,4) assms(4) by (simp add: c_write_def o5)
  have w3: "c_write (y @ p2 @ u) (w * h) v = Some (y @ v @ u)" using p(3) assms(4,5) by (simp add: c_write_def wh)
  show ?thesis by (simp add: draw_planes_def r w1 w2 w3)
qed

text \<open>C30. The picture is shown: when the texture has the pitch of the picture, rendering takes the eldest decoded picture of the channel, puts its planes into the texture
  in the order that the texture wants them, and gives the buffer back to the free ones; nothing is written outside the texture.\<close>

theorem render_image_shows:
  assumes "ch < length (pl_channels p)" "c = pl_channels p ! ch" "ds_pipes (pl_pipes p) (vw_pipe c) = Some d" "dpipe_rep (ds_heap (pl_pipes p)) d ins (b # outs)"
    "pl_picture p b = Some (y, u, v)" "0 \<le> vw_width c" "0 \<le> vw_height c" "length y = nat (vw_width c * vw_height c)" "length y = 4 * length u" "length v = length u"
    "vw_overlay c = (vw_width c, px)" "length px = length y + length u + length v" "se_lock env"
  shows "\<exists>p' d'. render_image env ch p = Some p' \<and> vw_overlay (pl_channels p' ! ch) = (vw_width c, y @ v @ u) \<and> ds_pipes (pl_pipes p') (vw_pipe c) = Some d' \<and>
    dpipe_rep (ds_heap (pl_pipes p')) d' (b # ins) outs \<and> pl_rendered p'"
proof -
  obtain h1 d1 where l: "dpipe_load_nowait (ds_heap (pl_pipes p)) d = Some (Some b, h1, d1)" "dpipe_rep h1 d1 ins outs" "\<forall>x. (h1 x = None) = (ds_heap (pl_pipes p) x = None)"
    using load_nowait_rep [OF assms(4)] by auto
  have b: "h1 b \<noteq> None" "b \<notin> set (ins @ outs)" using l(3) assms(4) by (auto simp: dpipe_rep_def)
  obtain h2 d2 where pt: "dpipe_put h1 d1 b = Some (h2, d2)" "dpipe_rep h2 d2 (b # ins) outs" using put_rep [OF l(2) b] by blast
  note dp = draw_planes_exact [OF assms(6,7,8,9,10,12)]
  show ?thesis using assms(1-3,5,11,13) l(1) pt dp by (simp add: render_image_def ui_def)
qed

subsection \<open>Windows\<close>

lemma alloc_pictures_all:
  assumes "plist h b xs" "length xs \<le> n" "distinct xs" "alloc_pictures n pic h b m = Some (Some m')"
  shows "(\<forall>x \<in> set xs. m' x = pic x \<and> pic x \<noteq> None) \<and> (\<forall>x. x \<notin> set xs \<longrightarrow> m' x = m x)"
  using assms
proof (induction xs arbitrary: b n m)
  case Nil
  then show ?case by (cases n) auto
next
  case (Cons x xs)
  from Cons.prems obtain k where n: "n = Suc k" by (cases n) auto
  from Cons.prems obtain y where y: "b = Some x" "h x = Some y" "plist h (buf_next y) xs" by auto
  from Cons.prems(4) n y obtain f where f: "pic x = Some f" "alloc_pictures k pic h (buf_next y) (m(x \<mapsto> f)) = Some (Some m')"
    by (auto split: option.splits)
  obtain f1 f2 f3 where "f = (f1, f2, f3)" by (rule prod_cases3)
  with Cons.IH [OF y(3) _ _ f(2)] Cons.prems(2,3) n f(1) show ?case by auto
qed

lemma open_window_ready:
  assumes "ch < length (pl_channels p)" "length (pl_native p) = length (pl_channels p)" "length (pl_window p) = length (pl_channels p)"
    "open_window env ch w h a ctx p = Some (Inr p')"
  shows "\<exists>wid. vw_surface (pl_channels p' ! ch) = Some wid \<and> vw_pipe (pl_channels p' ! ch) = a \<and> smap_find (pl_ids p') wid = Some ch \<and>
    pl_native p' ! ch = (w, h) \<and> pl_window p' ! ch = (w, h) \<and> pl_pipes p' = pl_pipes p \<and> pl_picture p' = pl_picture p \<and> length (pl_channels p') = length (pl_channels p)"
  using assms by (auto simp: open_window_def window_ready_def ui_def Let_def smap_find_put split: if_splits option.splits)

text \<open>A channel that can be shown: when the window of a channel is created, its number is found under the window, the sizes of window and picture agree,
  its pipe holds sixteen free buffers, each with a picture; and a further request for the same channel changes nothing.\<close>

theorem create_overlay_ready:
  assumes "ch < length (pl_channels p)" "length (pl_native p) = length (pl_channels p)" "length (pl_window p) = length (pl_channels p)"
    "c = pl_channels p ! ch" "vw_surface c = None" "alloc_fresh (se_balloc env) (pl_pipes p)" "smap_ok (dpipemap (pl_pipes p))"
    "se_palloc env = Some a" "se_nalloc env" "ds_pipes (pl_pipes p) a = None" "create_overlay env ch p = Some (Inr p')"
  shows "\<exists>wid d frames. vw_surface (pl_channels p' ! ch) = Some wid \<and> smap_find (pl_ids p') wid = Some ch \<and> pl_native p' ! ch = (vw_width c, vw_height c) \<and>
    pl_window p' ! ch = (vw_width c, vw_height c) \<and> ds_pipes (pl_pipes p') (vw_pipe (pl_channels p' ! ch)) = Some d \<and>
    dpipe_rep (ds_heap (pl_pipes p')) d frames [] \<and> length frames = 16 \<and> (\<forall>b \<in> set frames. pl_picture p' b \<noteq> None) \<and>
    create_overlay env2 ch p' = Some (Inr p')"
proof -
  obtain ctx conv where fc: "create_frame_converter (se_getContext env) (pl_conv p) (vw_width c) (vw_height c) (vw_format c) (vw_width c) (vw_height c) 0 = (ctx, conv)" "ctx \<noteq> 0"
    using assms(1,4,5,11) by (cases "create_frame_converter (se_getContext env) (pl_conv p) (vw_width c) (vw_height c) (vw_format c) (vw_width c) (vw_height c) 0")
      (auto simp: create_overlay_def Let_def split: if_splits)
  obtain a' sys d m where s: "dpipe_create (Some a) True (se_balloc env) (se_malloc env) (int ch) (Some (''channel-'' @ [char_of (48 + ch)])) POOLSIZE sizeof_AVPicture (pl_pipes p) = Some (Some a', sys)"
    "ds_pipes sys a' = Some d" "alloc_pictures (nat POOLSIZE) (se_picture env) (ds_heap sys) (dp_in d) (pl_picture p) = Some (Some m)"
    "open_window env ch (vw_width c) (vw_height c) a' ctx (p\<lparr>pl_conv := conv, pl_pipes := sys, pl_picture := m\<rparr>) = Some (Inr p')"
    using assms(1,4,5,8,9,11) fc by (auto simp: create_overlay_def Let_def split: option.splits)
  from create_cases [OF assms(6,7,10) s(1)] obtain frames where fr: "a' = a" "dpipe_rep (ds_heap sys) d frames []" "int (length frames) = POOLSIZE"
    using s(2) by auto
  then have l: "length frames = 16" "plist (ds_heap sys) (dp_in d) frames" "distinct frames" by (auto simp: POOLSIZE_def dpipe_rep_def)
  from alloc_pictures_all [OF l(2) _ l(3) s(3)] l(1) have pic: "\<forall>b \<in> set frames. m b \<noteq> None" by (auto simp: POOLSIZE_def)
  obtain wid where w: "vw_surface (pl_channels p' ! ch) = Some wid" "vw_pipe (pl_channels p' ! ch) = a'" "smap_find (pl_ids p') wid = Some ch"
    "pl_native p' ! ch = (vw_width c, vw_height c)" "pl_window p' ! ch = (vw_width c, vw_height c)" "pl_pipes p' = sys" "pl_picture p' = m" "length (pl_channels p') = length (pl_channels p)"
    using open_window_ready [OF _ _ _ s(4)] assms(1-3) by auto
  have "create_overlay env2 ch p' = Some (Inr p')" using w(1,8) assms(1) by (simp add: create_overlay_def)
  then show ?thesis using w s(2) fr(2) l(1) pic by (intro exI [of _ wid] exI [of _ d] exI [of _ frames]) simp
qed

subsection \<open>The watchdog\<close>

text \<open>The watchdog ends the program only after a stall: exactly when at one of its passes a first picture has been shown and the last frame is more than
  3.6 seconds old; the seconds that it announces before are 0, 1 or 2. Before the first picture it waits for ever.\<close>

theorem watchdog_ends_on_stall:
  "snd (watchdog_thread ps) = (\<exists>now timer. (now, timer) \<in> set ps \<and> tv_sec timer \<noteq> 0 \<and> tvdiff_us now timer > 3600000) \<and>
   set (fst (watchdog_thread ps)) \<subseteq> {0, 1, 2}"
proof (induction ps)
  case (Cons q ps)
  obtain now timer where q: "q = (now, timer)" by (cases q)
  have r: "(3600000 - d) sdiv 1000000 \<in> {0, 1, 2 :: int}" if "600000 < d" "d \<le> 3600000" for d
  proof -
    have "(3600000 - d) sdiv 1000000 = (3600000 - d) div 1000000" using that by (cases "d = 3600000") (simp_all add: signed_divide_int_def sgn_if)
    moreover have "0 \<le> (3600000 - d) div 1000000" "(3600000 - d) div 1000000 < 3" using that by (simp_all add: pos_imp_zdiv_nonneg_iff)
    ultimately show ?thesis by auto
  qed
  show ?case using Cons r [of "tvdiff_us now timer"]
    by (auto simp: q watchdog_pass_def Let_def IDLE_MAXIMUM_THRESHOLD_def IDLE_DETECTION_THRESHOLD_def split: prod.splits)
qed simp

subsection \<open>The start of the program\<close>

lemma client_main_starts:
  assumes "client_main env argv = Some (Inr (conf, p0))" "rc_ctrlenable conf \<noteq> 0"
  shows "program_start p0 \<and> pl_running p0 \<and> 3 \<le> length argv"
proof -
  obtain prog config url rest where argv: "argv = prog # config # url # rest"
    using assms(1) by (auto simp: client_main_def split: list.splits)
  obtain conf1 q rel ks where l: "launch_controller env conf1 empty_ctrl_queue = Some (conf, q)" "p0 = player_start rel ks q"
    using assms(1) by (auto simp: client_main_def argv Let_def split: if_splits)
  then have c: "rc_ctrlenable conf1 \<noteq> 0" using assms(2) by (auto simp: launch_controller_def)
  obtain r q' where i: "ctrl_queue_init (mn_queue env) 32768 64 empty_ctrl_queue = Some (r, q')" by (cases "mn_queue env") (simp_all add: ctrl_queue_init_def Let_def)
  have r: "ctrl_queue_init (mn_queue env) 32768 64 empty_ctrl_queue = Some (r, q)" "0 \<le> r"
    using l(1) assms(2) c i by (auto simp: launch_controller_def sizeof_sdlmsg_def split: if_splits)
  then have "mn_queue env" by (auto simp: ctrl_queue_init_def Let_def split: if_splits)
  then have "ctrl_queue_init True 32768 64 empty_ctrl_queue = Some (0, q)" using r init_rep [of 64 32768 empty_ctrl_queue r q] by simp
  then show ?thesis using l(2) argv by (auto simp: program_start_def player_start_def)
qed

section \<open>Examples\<close>

definition example_player :: player where
  "example_player = player_start 0 None (snd (the (ctrl_queue_init True 32768 64 empty_ctrl_queue)))"

lemma example_program: "program_start example_player"
proof -
  obtain r q where q: "ctrl_queue_init True 32768 64 empty_ctrl_queue = Some (r, q)" by (simp add: ctrl_queue_init_def Let_def)
  moreover have "r = 0" using init_rep [OF _ _ _ q] by simp
  ultimately show ?thesis by (auto simp: program_start_def example_player_def)
qed

definition example_rtsp :: rtspconf where
  "example_rtsp = rtspconf_init\<lparr>rc_ctrlenable := 1, rc_sendmousemotion := 1\<rparr>"

definition example_sdl :: sdl_env where
  "example_sdl = \<lparr>se_conf = ga_conf_empty, se_now = \<lparr>tv_sec = 100, tv_usec = 0\<rparr>, se_flags = 0, se_grabbed = False, se_getContext = (\<lambda>_. 7),
     se_palloc = Some 9, se_nalloc = True, se_balloc = (\<lambda>j. Some (100 + j)), se_malloc = (\<lambda>i n. Some (1000 * i)), se_picture = (\<lambda>_. Some (replicate 8 0, [0, 0], [0, 0])),
     se_window = (\<lambda>w h fl. Some 5), se_drivers = [], se_renderer = (\<lambda>i fl. True), se_texture = Some (4, replicate 12 0), se_lock = True, se_openaudio = True\<rparr>"

lemma example_conf: "rc_ctrlproto example_rtsp = IPPROTO_TCP" "rc_ctrlenable example_rtsp \<noteq> 0" "rc_sendmousemotion example_rtsp \<noteq> 0"
  by (simp_all add: example_rtsp_def rtspconf_init_def)

definition waiting_player :: player where
  "waiting_player = example_player\<lparr>pl_client := (pl_client example_player)\<lparr>cl_pos := Waiting\<rparr>\<rparr>"

lemma waiting_player:
  "player_run snd_msg conf example_player waiting_player" "pl_running waiting_player" "cl_pos (pl_client waiting_player) = Waiting"
  "ctrlq_items (cl_queue (pl_client waiting_player)) = []" "cl_sent (pl_client waiting_player) = []"
  using player_run.sender [OF player_run.begins sender_step.waits [OF program_start_queue(4) [OF example_program]]] program_start_queue [OF example_program]
  by (auto simp: waiting_player_def) (simp add: example_player_def player_start_def)



definition shown_player :: player where
  "shown_player = waiting_player\<lparr>pl_native := [(640, 480), (0, 0)], pl_window := [(1280, 240), (0, 0)], pl_ids := [(5, 0)]\<rparr>"


definition rendering_player :: player where
  "rendering_player = example_player\<lparr>pl_channels := [view_zero\<lparr>vw_width := 4, vw_height := 2, vw_pipe := 3, vw_overlay := (4, replicate 12 0)\<rparr>],
     pl_pipes := \<lparr>ds_heap = (\<lambda>a. if a = 1 then Some \<lparr>buf_pointer = 16, buf_internal = 0, buf_offset = 16, buf_next = None\<rparr> else None),
       ds_pipes = (\<lambda>a. if a = 3 then Some \<lparr>dp_channel_id = 0, dp_name = ''v'', dp_in = None, dp_out = Some 1, dp_out_tail = Some 1, dp_in_count = 0, dp_out_count = 1\<rparr> else None),
       dpipemap = []\<rparr>, pl_picture := (\<lambda>a. if a = 1 then Some ([1, 2, 3, 4, 5, 6, 7, 8], [9, 10], [11, 12]) else None)\<rparr>"

theorem render_image_shows_witness:
  "\<exists>p'. render_image example_sdl 0 rendering_player = Some p' \<and> vw_overlay (pl_channels p' ! 0) = (4, [1, 2, 3, 4, 5, 6, 7, 8, 11, 12, 9, 10])"
proof -
  let ?c = "pl_channels rendering_player ! 0"
  obtain d where d: "ds_pipes (pl_pipes rendering_player) (vw_pipe ?c) = Some d" "dpipe_rep (ds_heap (pl_pipes rendering_player)) d [] [1]"
    by (simp add: rendering_player_def dpipe_rep_def)
  have "0 < length (pl_channels rendering_player)" by (simp add: rendering_player_def)
  from render_image_shows [OF this refl d, of "[1, 2, 3, 4, 5, 6, 7, 8]" "[9, 10]" "[11, 12]" "replicate 12 0" example_sdl] show ?thesis
    by (auto simp: rendering_player_def example_sdl_def)
qed

end
