(* ===== verification/EncoderVideo.thy ===== *)
theory EncoderVideo
  imports EncoderCore VSource RtspConf
begin

text \<open>
  The video encoder (\<open>module/encoder-video/encoder-video.cpp\<close>) with the opening and closing of codecs
  (\<open>core/ga-avcodec.cpp\<close>): its life cycle, the change of its settings while it runs, the thread that takes
  frames from a pipe and sends packets, and the parameter sets that it gives out. The codec library is a
  parameter: whether a context can be opened, the global header it then has, and what encoding returns.
  Contexts live in a heap; using one that was freed is \<open>None\<close>.
\<close>

section \<open>Codec contexts\<close>

record codec_ctx =
  cx_codec :: nat
  cx_open :: bool
  cx_width :: int
  cx_height :: int
  cx_den :: int
  cx_opts :: "(string \<times> string) list"
  cx_extradata :: "byte list"

definition codec_ctx_new :: "nat \<Rightarrow> codec_ctx" where
  "codec_ctx_new k = \<lparr>cx_codec = k, cx_open = False, cx_width = 0, cx_height = 0, cx_den = 1, cx_opts = [], cx_extradata = []\<rparr>"

type_synonym ctx_heap = "nat \<Rightarrow> codec_ctx option"

text \<open>A codec is a number, 0 is NULL.\<close>

record codec_lib =
  cl_id :: "nat \<Rightarrow> codec_id"
  cl_alloc :: "nat option"
  cl_open :: "codec_ctx \<Rightarrow> byte list option"

text \<open>The options in pairs; an odd number reads behind the vector.\<close>

fun vso_pairs :: "string list \<Rightarrow> (string \<times> string) list option" where
  "vso_pairs [] = Some []"
| "vso_pairs [k] = None"
| "vso_pairs (k # v # r) = do { ps \<leftarrow> vso_pairs r; Some ((k, v) # ps) }"

definition ga_avcodec_open :: "codec_lib \<Rightarrow> nat \<Rightarrow> codec_ctx \<Rightarrow> ctx_heap \<Rightarrow> nat option \<times> ctx_heap" where
  "ga_avcodec_open lib a x hp =
     (case cl_open lib x of
        None \<Rightarrow> (None, hp(a := None))
      | Some ex \<Rightarrow> (Some a, hp(a \<mapsto> x\<lparr>cx_open := True, cx_extradata := ex\<rparr>)))"

definition ga_avcodec_vencoder_init :: "codec_lib \<Rightarrow> nat option \<Rightarrow> nat \<Rightarrow> int \<Rightarrow> int \<Rightarrow> int \<Rightarrow> string list \<Rightarrow> ctx_heap \<Rightarrow> (nat option \<times> ctx_heap) option" where
  "ga_avcodec_vencoder_init lib ctx codec width height fps vso hp =
     (if codec = 0 then Some (None, hp)
      else let (a, hp) = (case ctx of
                 Some a \<Rightarrow> (Some a, hp)
               | None \<Rightarrow> (case cl_alloc lib of None \<Rightarrow> (None, hp) | Some a \<Rightarrow> (Some a, hp(a \<mapsto> codec_ctx_new codec))))
           in (case a of
                 None \<Rightarrow> Some (None, hp)
               | Some a \<Rightarrow> do {
                   x \<leftarrow> hp a;
                   opts \<leftarrow> vso_pairs vso;
                   Some (ga_avcodec_open lib a (x\<lparr>cx_width := width, cx_height := height, cx_den := fps, cx_opts := opts\<rparr>) hp) }))"

definition ga_avcodec_close :: "nat option \<Rightarrow> ctx_heap \<Rightarrow> ctx_heap option" where
  "ga_avcodec_close ctx hp =
     (case ctx of None \<Rightarrow> Some hp
      | Some a \<Rightarrow> do { x \<leftarrow> hp a; Some (hp(a \<mapsto> x\<lparr>cx_open := False\<rparr>)) })"

text \<open>The first codec of the list that the library finds.\<close>

fun ga_avcodec_find_encoder :: "(string \<Rightarrow> nat) \<Rightarrow> (codec_id \<Rightarrow> nat) \<Rightarrow> string list option \<Rightarrow> codec_id \<Rightarrow> nat" where
  "ga_avcodec_find_encoder by_name by_id (Some (n # ns)) cid =
     (if by_name n \<noteq> 0 then by_name n else ga_avcodec_find_encoder by_name by_id (Some ns) cid)"
| "ga_avcodec_find_encoder by_name by_id names cid = (if cid \<noteq> AV_CODEC_ID_NONE then by_id cid else 0)"

section \<open>The encoder\<close>

record reconf =
  rf_id :: int
  rf_crf :: int
  rf_framerate_n :: int
  rf_framerate_d :: int
  rf_bitrateKbps :: int
  rf_bufsize :: int
  rf_width :: int
  rf_height :: int

definition reconf_none :: reconf where
  "reconf_none = \<lparr>rf_id = -1, rf_crf = 0, rf_framerate_n = 0, rf_framerate_d = 0, rf_bitrateKbps = 0, rf_bufsize = 0, rf_width = 0, rf_height = 0\<rparr>"

text \<open>The arrays have an element for each channel. A parameter set is NULL or its bytes, whose number is its length.\<close>

record venc_state =
  vx_initialized :: bool
  vx_started :: bool
  vx_threads :: "nat list"
  vx_ctx :: "nat option list"
  vx_heap :: ctx_heap
  vx_reconf :: "reconf list"
  vx_sps :: "byte list option list"
  vx_pps :: "byte list option list"
  vx_vps :: "byte list option list"
  vx_keyframe :: bool

definition at :: "'a list \<Rightarrow> int \<Rightarrow> 'a option" where
  "at xs i = (if 0 \<le> i \<and> i < int (length xs) then Some (xs ! nat i) else None)"

definition param_len :: "byte list option \<Rightarrow> int" where
  "param_len p = (case p of None \<Rightarrow> 0 | Some x \<Rightarrow> int (length x))"

primrec close_all :: "nat \<Rightarrow> venc_state \<Rightarrow> venc_state option" where
  "close_all 0 s = Some s"
| "close_all (Suc n) s = do {
     s \<leftarrow> close_all n s;
     c \<leftarrow> at (vx_ctx s) (int n);
     hp \<leftarrow> ga_avcodec_close c (vx_heap s);
     Some (s\<lparr>vx_heap := hp, vx_ctx := (vx_ctx s)[n := None]\<rparr>) }"

definition vencoder_deinit :: "vsource_sys \<Rightarrow> venc_state \<Rightarrow> (int \<times> venc_state) option" where
  "vencoder_deinit src s = do {
     s \<leftarrow> close_all (nat (video_source_channels src)) s;
     Some (0, s\<lparr>vx_sps := map (\<lambda>_. None) (vx_sps s), vx_pps := map (\<lambda>_. None) (vx_pps s), vx_initialized := False\<rparr>) }"

text \<open>One round of the loop of \<open>vencoder_init\<close>; the flag is false when it failed. Each round has its own answers of the library.\<close>

definition init_channel :: "codec_lib \<Rightarrow> (nat \<Rightarrow> string) \<Rightarrow> vsource_sys \<Rightarrow> rtspconf \<Rightarrow> nat \<Rightarrow> venc_state \<Rightarrow> (bool \<times> venc_state) option" where
  "init_channel lib fmt src conf iid s =
     (if iid \<ge> length (vx_ctx s) then None
      else let s = s\<lparr>vx_sps := (vx_sps s)[iid := None], vx_pps := (vx_pps s)[iid := None],
                 vx_reconf := (vx_reconf s)[iid := (vx_reconf s ! iid)\<lparr>rf_id := -1\<rparr>]\<rparr>
           in do {
             w \<leftarrow> video_source_out_width src (int iid);
             h \<leftarrow> video_source_out_height src (int iid);
             (if dpipe_lookup (vs_pipes src) (fmt iid) = None then Some (False, s)
              else do {
                (c, hp) \<leftarrow> ga_avcodec_vencoder_init lib None (video_encoder_codec conf) w h (rc_video_fps conf) (rc_vso conf) (vx_heap s);
                Some (c \<noteq> None, s\<lparr>vx_heap := hp, vx_ctx := (vx_ctx s)[iid := c]\<rparr>) }) })"

primrec init_channels :: "(nat \<Rightarrow> codec_lib) \<Rightarrow> (nat \<Rightarrow> string) \<Rightarrow> vsource_sys \<Rightarrow> rtspconf \<Rightarrow> nat \<Rightarrow> venc_state \<Rightarrow> (bool \<times> venc_state) option" where
  "init_channels lib fmt src conf 0 s = Some (True, s)"
| "init_channels lib fmt src conf (Suc n) s = do {
     (ok, s) \<leftarrow> init_channels lib fmt src conf n s;
     (if ok then init_channel (lib n) fmt src conf n s else Some (False, s)) }"

definition vencoder_init :: "(nat \<Rightarrow> codec_lib) \<Rightarrow> (nat \<Rightarrow> string) \<Rightarrow> vsource_sys \<Rightarrow> rtspconf \<Rightarrow> venc_state \<Rightarrow> (int \<times> venc_state) option" where
  "vencoder_init lib fmt src conf s =
     (if vx_initialized s then Some (0, s)
      else do {
        (ok, s) \<leftarrow> init_channels lib fmt src conf (nat (video_source_channels src)) s;
        (if ok then Some (0, s\<lparr>vx_initialized := True\<rparr>)
         else do { (r, s) \<leftarrow> vencoder_deinit src s; Some (-1, s) }) })"

text \<open>New values of the options \<open>b\<close> and \<open>crf\<close>.\<close>

fun reconf_vso :: "reconf \<Rightarrow> string list \<Rightarrow> string list option" where
  "reconf_vso rf [] = Some []"
| "reconf_vso rf [k] = (if k = ''b'' \<and> rf_bitrateKbps rf > 0 \<or> k = ''crf'' \<and> rf_crf rf > 0 then None else Some [k])"
| "reconf_vso rf (k # v # r) = do {
     v \<leftarrow> (if k = ''b'' then (if rf_bitrateKbps rf > 0 then do { b \<leftarrow> c_int (rf_bitrateKbps rf * 1000); Some (nat_str 10 (nat b)) } else Some v)
          else if k = ''crf'' then (if rf_crf rf > 0 then Some (nat_str 10 (nat (rf_crf rf))) else Some v)
          else Some v);
     r \<leftarrow> reconf_vso rf r;
     Some (k # v # r) }"

text \<open>The context returned by the initialisation is ignored: when it fails the context is freed and the pointer kept.\<close>

definition vencoder_reconfigure :: "codec_lib \<Rightarrow> vsource_sys \<Rightarrow> int \<Rightarrow> rtspconf \<Rightarrow> venc_state \<Rightarrow> (int \<times> rtspconf \<times> venc_state) option" where
  "vencoder_reconfigure lib src iid conf s = do {
     rf \<leftarrow> at (vx_reconf s) iid;
     (if rf_id rf < 0 then Some (0, conf, s)
      else do {
        w \<leftarrow> video_source_out_width src iid;
        h \<leftarrow> video_source_out_height src iid;
        c \<leftarrow> at (vx_ctx s) iid;
        hp \<leftarrow> ga_avcodec_close c (vx_heap s);
        vso \<leftarrow> reconf_vso rf (rc_vso conf);
        (let conf = conf\<lparr>rc_vso := vso, rc_video_fps := (if rf_framerate_n rf > 0 then rf_framerate_n rf else rc_video_fps conf)\<rparr>;
             w = (if rf_width rf > 0 then rf_width rf else w);
             h = (if rf_height rf > 0 then rf_height rf else h)
         in do {
           (c', hp) \<leftarrow> ga_avcodec_vencoder_init lib c (video_encoder_codec conf) w h (rc_video_fps conf) (rc_vso conf) hp;
           Some (if c = None then -1 else 0, conf, s\<lparr>vx_heap := hp, vx_reconf := (vx_reconf s)[nat iid := rf\<lparr>rf_id := -1\<rparr>]\<rparr>) }) }) }"

text \<open>Starting: \<open>create i\<close> tells whether the thread of channel \<open>i\<close> can be created.\<close>

primrec start_threads :: "(nat \<Rightarrow> bool) \<Rightarrow> nat \<Rightarrow> venc_state \<Rightarrow> bool \<times> venc_state" where
  "start_threads create 0 s = (True, s)"
| "start_threads create (Suc n) s =
     (case start_threads create n s of (ok, s) \<Rightarrow>
        if \<not> ok then (False, s)
        else if create n then (True, s\<lparr>vx_threads := vx_threads s @ [n]\<rparr>)
        else (False, s\<lparr>vx_started := False\<rparr>))"

definition vencoder_start :: "(nat \<Rightarrow> bool) \<Rightarrow> vsource_sys \<Rightarrow> venc_state \<Rightarrow> int \<times> venc_state" where
  "vencoder_start create src s =
     (if vx_started s then (0, s)
      else case start_threads create (nat (video_source_channels src)) (s\<lparr>vx_started := True\<rparr>) of
             (ok, s) \<Rightarrow> (if ok then 0 else -1, s))"

text \<open>Every thread of a channel is waited for; the flag ends its loop.\<close>

definition vencoder_stop :: "vsource_sys \<Rightarrow> venc_state \<Rightarrow> int \<times> venc_state" where
  "vencoder_stop src s =
     (if \<not> vx_started s then (0, s)
      else (0, s\<lparr>vx_started := False, vx_threads := filter (\<lambda>i. \<not> int i < video_source_channels src) (vx_threads s)\<rparr>))"

definition vencoder_raw :: "int \<Rightarrow> venc_state \<Rightarrow> (nat option \<times> int) option" where
  "vencoder_raw iid s = (if \<not> vx_initialized s then Some (None, 0) else do { c \<leftarrow> at (vx_ctx s) iid; Some (c, 4) })"

section \<open>Parameter sets\<close>

text \<open>The distance to the next start code of four bytes; one in the last four bytes is not found.\<close>

fun find_startcode :: "byte list \<Rightarrow> nat" where
  "find_startcode xs = (if length xs > 4 then (if take 4 xs = [0, 0, 0, 1] then 0 else Suc (find_startcode (tl xs))) else length xs)"

declare find_startcode.simps [simp del]

record param_sets =
  p_sps :: "byte list option"
  p_pps :: "byte list option"
  p_vps :: "byte list option"

definition classify_unit :: "int \<Rightarrow> byte \<Rightarrow> byte list \<Rightarrow> param_sets \<Rightarrow> param_sets" where
  "classify_unit type b u ps =
     (if type = 265 then
        (let t = drop_bit 1 b AND 0x3f
         in if t = 32 then ps\<lparr>p_vps := Some u\<rparr> else if t = 33 then ps\<lparr>p_sps := Some u\<rparr> else if t = 34 then ps\<lparr>p_pps := Some u\<rparr> else ps)
      else let t = b AND 0x1f in if t = 7 then ps\<lparr>p_sps := Some u\<rparr> else if t = 8 then ps\<lparr>p_pps := Some u\<rparr> else ps)"

text \<open>The loop from a start code on, \<open>r\<close> being what is left of the data; reading behind it is \<open>None\<close>.\<close>

function param_loop :: "int \<Rightarrow> byte list \<Rightarrow> param_sets \<Rightarrow> param_sets option" where
  "param_loop type r ps =
     (if r = [] then Some ps
      else (case dropWhile (\<lambda>b. b = 0) r of
              [] \<Rightarrow> None
            | _ # r1 \<Rightarrow> (case r1 of
                [] \<Rightarrow> None
              | b # _ \<Rightarrow> param_loop type (drop (find_startcode r1) r1) (classify_unit type b (take (find_startcode r1) r1) ps))))"
  by auto
termination
proof (relation "measure (\<lambda>(type, r, ps). length r)")
  fix type :: int and r r1 r2 :: "byte list" and ps :: param_sets and x b :: byte
  assume d: "dropWhile (\<lambda>b. b = 0) r = x # r1"
  have "length (dropWhile (\<lambda>b. b = 0) r) \<le> length r" by (rule length_dropWhile_le)
  then show "((type, drop (find_startcode r1) r1, classify_unit type b (take (find_startcode r1) r1) ps), type, r, ps) \<in> measure (\<lambda>(type, r, ps). length r)"
    using d by simp
qed simp

declare param_loop.simps [simp del]

definition set_params :: "nat \<Rightarrow> param_sets \<Rightarrow> venc_state \<Rightarrow> venc_state" where
  "set_params ch ps s = s\<lparr>vx_sps := (vx_sps s)[ch := p_sps ps], vx_pps := (vx_pps s)[ch := p_pps ps], vx_vps := (vx_vps s)[ch := p_vps ps]\<rparr>"

text \<open>The three flags tell which allocations succeed.\<close>

definition h264or5_get_vparam :: "bool \<times> bool \<times> bool \<Rightarrow> int \<Rightarrow> int \<Rightarrow> byte list \<Rightarrow> venc_state \<Rightarrow> (int \<times> venc_state) option" where
  "h264or5_get_vparam mem type ch data s = do {
     old \<leftarrow> at (vx_sps s) ch;
     oldv \<leftarrow> at (vx_vps s) ch;
     (if old \<noteq> None then Some (0, s)
      else do {
        ps \<leftarrow> param_loop type (drop (find_startcode data) data) \<lparr>p_sps = None, p_pps = None, p_vps = None\<rparr>;
        (if p_sps ps = None \<or> p_pps ps = None then Some (-1, s)
         else let failed = (-1, set_params (nat ch) \<lparr>p_sps = None, p_pps = None, p_vps = None\<rparr> s)
              in case mem of (m1, m2, m3) \<Rightarrow>
                Some (if \<not> m1 \<or> \<not> m2 \<or> (p_vps ps \<noteq> None \<and> \<not> m3) then failed
                      else if type = 265 \<and> p_vps ps = None then failed
                      else (0, set_params (nat ch) (if p_vps ps = None then ps\<lparr>p_vps := oldv\<rparr> else ps) s))) }) }"

definition vencoder_opt_get_encoder :: "int \<Rightarrow> venc_state \<Rightarrow> nat option option" where
  "vencoder_opt_get_encoder cid s = (if \<not> vx_initialized s then Some None else at (vx_ctx s) cid)"

definition GA_IOCTL_RECONFIGURE :: int where "GA_IOCTL_RECONFIGURE = 1"
definition GA_IOCTL_GETSPS :: int where "GA_IOCTL_GETSPS = 0x100"
definition GA_IOCTL_GETPPS :: int where "GA_IOCTL_GETPPS = 0x101"
definition GA_IOCTL_GETVPS :: int where "GA_IOCTL_GETVPS = 0x102"
definition GA_IOCTL_CUSTOM :: int where "GA_IOCTL_CUSTOM = 0x40000000"

definition GA_IOCTL_ERR_NOTSUPPORTED :: int where "GA_IOCTL_ERR_NOTSUPPORTED = -5"
definition GA_IOCTL_ERR_INVALID_ARGUMENT :: int where "GA_IOCTL_ERR_INVALID_ARGUMENT = -6"
definition GA_IOCTL_ERR_NOTFOUND :: int where "GA_IOCTL_ERR_NOTFOUND = -7"
definition GA_IOCTL_ERR_BUFFERSIZE :: int where "GA_IOCTL_ERR_BUFFERSIZE = -8"
definition GA_IOCTL_ERR_BADID :: int where "GA_IOCTL_ERR_BADID = -9"

text \<open>The argument is what the pointer shows; a pointer to something else is undefined. The buffer has its contents.\<close>

record ioctl_buffer =
  ib_id :: int
  ib_ptr :: "byte list"
  ib_size :: int

datatype ioctl_arg = Arg_Reconf reconf | Arg_Buffer ioctl_buffer | Arg_Other

definition copy_param :: "byte list option \<Rightarrow> ioctl_buffer \<Rightarrow> (int \<times> ioctl_buffer) option" where
  "copy_param p b =
     (if ib_size b < param_len p then Some (GA_IOCTL_ERR_BUFFERSIZE, b)
      else do { ptr \<leftarrow> c_write (ib_ptr b) 0 (case p of None \<Rightarrow> [] | Some x \<Rightarrow> x); Some (0, b\<lparr>ib_ptr := ptr, ib_size := param_len p\<rparr>) })"

definition sizeof_ioctl_buffer :: int where "sizeof_ioctl_buffer = 12"

definition get_params :: "codec_lib \<Rightarrow> bool \<times> bool \<times> bool \<Rightarrow> int \<Rightarrow> int \<Rightarrow> ioctl_buffer \<Rightarrow> venc_state \<Rightarrow> (int \<times> ioctl_buffer \<times> venc_state) option" where
  "get_params lib mem command argsize b s = do {
     c \<leftarrow> vencoder_opt_get_encoder (ib_id b) s;
     (case c of
        None \<Rightarrow> Some (GA_IOCTL_ERR_BADID, b, s)
      | Some a \<Rightarrow>
          if argsize \<noteq> sizeof_ioctl_buffer then Some (GA_IOCTL_ERR_INVALID_ARGUMENT, b, s)
          else do {
            x \<leftarrow> vx_heap s a;
            (let cid = cl_id lib (cx_codec x)
             in if cx_extradata x = [] then Some (GA_IOCTL_ERR_NOTFOUND, b, s)
                else if cid \<noteq> AV_CODEC_ID_H264 \<and> cid \<noteq> AV_CODEC_ID_H265 then Some (GA_IOCTL_ERR_NOTSUPPORTED, b, s)
                else if cid = AV_CODEC_ID_H264 \<and> command = GA_IOCTL_GETVPS then Some (GA_IOCTL_ERR_NOTSUPPORTED, b, s)
                else do {
                  (r, s) \<leftarrow> h264or5_get_vparam mem (if cid = AV_CODEC_ID_H264 then 264 else 265) (ib_id b) (cx_extradata x) s;
                  (if r < 0 then Some (GA_IOCTL_ERR_NOTFOUND, b, s)
                   else do {
                     p \<leftarrow> at (if command = GA_IOCTL_GETSPS then vx_sps s else if command = GA_IOCTL_GETPPS then vx_pps s else vx_vps s) (ib_id b);
                     (r, b) \<leftarrow> copy_param p b;
                     Some (r, b, s) }) }) }) }"

definition vencoder_ioctl :: "codec_lib \<Rightarrow> bool \<times> bool \<times> bool \<Rightarrow> int \<Rightarrow> int \<Rightarrow> ioctl_arg \<Rightarrow> venc_state \<Rightarrow> (int \<times> ioctl_arg \<times> venc_state) option" where
  "vencoder_ioctl lib mem command argsize arg s =
     (if command = GA_IOCTL_RECONFIGURE then
        (case arg of
           Arg_Reconf rf \<Rightarrow> do {
             old \<leftarrow> at (vx_reconf s) (rf_id rf);
             Some (0, arg, s\<lparr>vx_reconf := (vx_reconf s)[nat (rf_id rf) := rf]\<rparr>) }
         | _ \<Rightarrow> None)
      else if command = GA_IOCTL_GETSPS \<or> command = GA_IOCTL_GETPPS \<or> command = GA_IOCTL_GETVPS then
        (case arg of
           Arg_Buffer b \<Rightarrow> do { (r, b, s) \<leftarrow> get_params lib mem command argsize b s; Some (r, Arg_Buffer b, s) }
         | _ \<Rightarrow> None)
      else if command = GA_IOCTL_CUSTOM then Some (0, arg, s\<lparr>vx_keyframe := True\<rparr>)
      else Some (GA_IOCTL_ERR_NOTSUPPORTED, arg, s))"

section \<open>The thread of a channel\<close>

record venc_thread =
  vt_base :: int
  vt_sync :: int
  vt_pts :: int
  vt_written :: bool

definition venc_thread_start :: venc_thread where
  "venc_thread_start = \<lparr>vt_base = -1, vt_sync = 0, vt_pts = -1, vt_written = False\<rparr>"

text \<open>What the threads of the encoder share; \<open>vr_encoded\<close> records the pictures given to the codec library with their time stamps, \<open>vr_stamps\<close> the times queued for them.\<close>

record 'w venc_run =
  vr_enc :: venc_state
  vr_conf :: rtspconf
  vr_src :: vsource_sys
  vr_core :: "'w encoder_state"
  vr_stamps :: "encoder_pts_t list list"
  vr_sink :: 'w
  vr_thread :: venc_thread
  vr_encoded :: "(int \<times> byte list) list"

text \<open>What happens during a pass: the time, the scaling of the clock, whether the wait for a frame ends, what other threads do meanwhile, the
  answers of the codec library: a packet has a time stamp unless the library gives none.\<close>

record venc_pass =
  vp_lib :: codec_lib
  vp_now :: timeval
  vp_scale :: "int \<Rightarrow> int \<Rightarrow> int"
  vp_failed :: bool
  vp_wakes :: "(dheap \<times> dpipe_t \<Rightarrow> dheap \<times> dpipe_t) list"
  vp_encode :: "(int option \<times> byte list) option option"
  vp_later :: timeval

text \<open>The time stamp of a frame, which is greater than the last one.\<close>

definition frame_pts :: "(int \<Rightarrow> int \<Rightarrow> int) \<Rightarrow> timeval \<Rightarrow> int \<Rightarrow> vsource_frame \<Rightarrow> 'w encoder_state \<Rightarrow> venc_thread \<Rightarrow> 'w encoder_state \<times> venc_thread" where
  "frame_pts scale now fps f core t =
     (if vt_base t = -1 then
        (case encoder_pts_sync scale now fps core of (sync, core) \<Rightarrow>
           (core, t\<lparr>vt_base := imgpts f, vt_sync := sync, vt_pts := (if sync > vt_pts t then sync else vt_pts t + 1)\<rparr>))
      else let newpts = vt_sync t + imgpts f - vt_base t
           in (core, t\<lparr>vt_pts := (if newpts > vt_pts t then newpts else vt_pts t + 1)\<rparr>))"

text \<open>The packet goes to the sink server with the time of its frame. The flag is false when the thread ends.\<close>

definition send_encoded :: "int \<Rightarrow> timeval \<Rightarrow> int option \<times> byte list \<Rightarrow> 'w venc_run \<Rightarrow> (bool \<times> 'w venc_run) option" where
  "send_encoded iid later p r =
     (case p of (ppts, pkt) \<Rightarrow>
        let pts = (case ppts of None \<Rightarrow> vt_pts (vr_thread r) | Some x \<Rightarrow> x);
            (tv, st) = encoder_ptv_get (vr_stamps r) (nat iid) pts 0
        in do {
          (res, w) \<leftarrow> encoder_send_packet (vr_core r) (vr_sink r) iid pkt pts (Some (case tv of None \<Rightarrow> later | Some tv \<Rightarrow> tv));
          Some (0 \<le> res, r\<lparr>vr_stamps := st, vr_sink := w, vr_thread := (vr_thread r)\<lparr>vt_written := (0 \<le> res \<or> vt_written (vr_thread r))\<rparr>\<rparr>) })"

definition encode_frame :: "venc_pass \<Rightarrow> int \<Rightarrow> nat option \<Rightarrow> timeval \<Rightarrow> byte list \<Rightarrow> 'w venc_run \<Rightarrow> (bool \<times> 'w venc_run) option" where
  "encode_frame ps iid enc tv img r = do {
     a \<leftarrow> enc;
     x \<leftarrow> vx_heap (vr_enc r) a;
     (let st = snd (encoder_pts_put (vr_stamps r) (nat iid) (vt_pts (vr_thread r)) tv);
          r = r\<lparr>vr_stamps := st, vr_encoded := vr_encoded r @ [(vt_pts (vr_thread r), img)]\<rparr>
      in (case vp_encode ps of
            None \<Rightarrow> Some (False, r)
          | Some out \<Rightarrow>
              let r = r\<lparr>vr_enc := (vr_enc r)\<lparr>vx_keyframe := False\<rparr>\<rparr>
              in (case out of None \<Rightarrow> Some (True, r) | Some p \<Rightarrow> send_encoded iid (vp_later ps) p r))) }"

text \<open>A pass of the loop for the pipe at \<open>pa\<close>; \<open>lines\<close> and \<open>sz\<close> are the line sizes and the size of the picture given to the codec, \<open>enc\<close> its context, read when the thread began.\<close>

definition with_pipe :: "nat \<Rightarrow> dheap \<Rightarrow> dpipe_t \<Rightarrow> 'w venc_run \<Rightarrow> 'w venc_run" where
  "with_pipe pa hp d r = r\<lparr>vr_src := (vr_src r)\<lparr>vs_pipes := (vs_pipes (vr_src r))\<lparr>ds_heap := hp, ds_pipes := (ds_pipes (vs_pipes (vr_src r)))(pa \<mapsto> d)\<rparr>\<rparr>\<rparr>"

definition take_frame :: "venc_pass \<Rightarrow> int \<Rightarrow> nat \<Rightarrow> nat option \<Rightarrow> int list \<Rightarrow> int \<Rightarrow> nat \<Rightarrow> dheap \<Rightarrow> dpipe_t \<Rightarrow> 'w venc_run \<Rightarrow> (bool \<times> 'w venc_run) option" where
  "take_frame ps iid pa enc lines sz b hp d r = do {
     x \<leftarrow> hp b;
     f \<leftarrow> vs_frames (vr_src r) (buf_pointer x);
     (let ct = frame_pts (vp_scale ps) (vp_now ps) (rc_video_fps (vr_conf r)) f (vr_core r) (vr_thread r)
      in if take 3 lines \<noteq> take 3 (linesize f) then do { (hp, d) \<leftarrow> dpipe_put hp d b; Some (False, (with_pipe pa hp d r)\<lparr>vr_core := fst ct\<rparr>) }
         else do {
           img \<leftarrow> c_read (vf_mem f) (vf_img f) sz;
           (hp, d) \<leftarrow> dpipe_put hp d b;
           encode_frame ps iid enc (vf_timestamp f) img ((with_pipe pa hp d r)\<lparr>vr_core := fst ct, vr_thread := snd ct\<rparr>) }) }"

definition vencoder_pass :: "venc_pass \<Rightarrow> int \<Rightarrow> nat \<Rightarrow> nat option \<Rightarrow> int list \<Rightarrow> int \<Rightarrow> 'w venc_run \<Rightarrow> (bool \<times> 'w venc_run) option" where
  "vencoder_pass ps iid pa enc lines sz r =
     (if \<not> vx_started (vr_enc r) \<or> encoder_running (vr_core r) = 0 then Some (False, r)
      else do {
        (ret, conf, s) \<leftarrow> vencoder_reconfigure (vp_lib ps) (vr_src r) iid (vr_conf r) (vr_enc r);
        d \<leftarrow> ds_pipes (vs_pipes (vr_src r)) pa;
        (got, hp, d) \<leftarrow> dpipe_load True (vp_failed ps) (vp_wakes ps) (ds_heap (vs_pipes (vr_src r))) d;
        (let r = r\<lparr>vr_enc := s, vr_conf := conf\<rparr>
         in case got of
              Blocked \<Rightarrow> None
            | Loaded None \<Rightarrow> Some (True, with_pipe pa hp d r)
            | Loaded (Some b) \<Rightarrow> take_frame ps iid pa enc lines sz b hp d r) })"

text \<open>The thread: its start, with the allocations and the pipe that it is given, and its passes.\<close>

primrec vencoder_passes :: "venc_pass list \<Rightarrow> int \<Rightarrow> nat \<Rightarrow> nat option \<Rightarrow> int list \<Rightarrow> int \<Rightarrow> 'w venc_run \<Rightarrow> (bool \<times> 'w venc_run) option" where
  "vencoder_passes [] iid pa enc lines sz r = Some (True, r)"
| "vencoder_passes (p # ps) iid pa enc lines sz r = do {
     (go, r) \<leftarrow> vencoder_pass p iid pa enc lines sz r;
     (if go then vencoder_passes ps iid pa enc lines sz r else Some (False, r)) }"

definition vencoder_threadproc :: "bool \<Rightarrow> (int \<Rightarrow> int \<Rightarrow> int list \<times> int) \<Rightarrow> string \<Rightarrow> venc_pass list \<Rightarrow> 'w venc_run \<Rightarrow> (bool \<times> 'w venc_run) option" where
  "vencoder_threadproc mem picture pname ps r =
     (case dpipe_lookup (vs_pipes (vr_src r)) pname of
        None \<Rightarrow> Some (False, r)
      | Some pa \<Rightarrow> do {
          d \<leftarrow> ds_pipes (vs_pipes (vr_src r)) pa;
          c \<leftarrow> at (vx_ctx (vr_enc r)) (dp_channel_id d);
          w \<leftarrow> video_source_out_width (vr_src r) (dp_channel_id d);
          h \<leftarrow> video_source_out_height (vr_src r) (dp_channel_id d);
          n \<leftarrow> c_int (100000 + 12 * w * h);
          (let r = r\<lparr>vr_stamps := snd (encoder_pts_clear (vr_stamps r) (nat (dp_channel_id d))), vr_thread := venc_thread_start\<rparr>;
               (lines, sz) = picture w h
           in if \<not> mem then Some (False, r)
              else vencoder_passes ps (dp_channel_id d) pa c lines sz r) })"

section \<open>Properties\<close>

subsection \<open>Parameter sets\<close>

definition annexb :: "byte list list \<Rightarrow> byte list" where
  "annexb us = concat (map (\<lambda>u. [0, 0, 0, 1] @ u) us)"

definition unit_ok :: "byte list \<Rightarrow> bool" where
  "unit_ok u \<longleftrightarrow> u \<noteq> [] \<and> (\<forall>i. i + 4 \<le> length u \<longrightarrow> take 4 (drop i u) \<noteq> [0, 0, 0, 1])"

lemma startcode_not_within:
  fixes u :: "byte list"
  assumes "take 4 (u @ rest) = [0, 0, 0, 1]" "u \<noteq> []" "length u < 4" "rest = [] \<or> take 3 rest = [0, 0, 0]"
  shows False
proof -
  have l: "4 \<le> length (u @ rest)" using arg_cong [OF assms(1), of length] by simp
  then have r: "take 3 rest = [0, 0, 0]" using assms(3,4) by auto
  define k where "k = 3 - length u"
  have k: "k < 3" using assms(2) by (simp add: k_def)
  have "(u @ rest) ! 3 = take 4 (u @ rest) ! 3" by (rule nth_take [symmetric]) simp
  then have "(u @ rest) ! 3 = 1" unfolding assms(1) by simp
  then have "rest ! k = 1" using assms(3) by (simp add: nth_append k_def)
  moreover have "rest ! k = [0, 0, 0] ! k" using r k by (metis nth_take)
  ultimately show False using k by (auto simp: less_Suc_eq numeral_3_eq_3)
qed

lemma find_startcode_unit:
  assumes "\<forall>i. i + 4 \<le> length u \<longrightarrow> take 4 (drop i u) \<noteq> [0, 0, 0, 1]" "\<forall>u \<in> set us. unit_ok u"
  shows "find_startcode (u @ annexb us) = length u"
  using assms(1)
proof (induction u)
  case Nil
  then show ?case
  proof (cases us)
    case (Cons v vs)
    then have "v \<noteq> []" using assms(2) by (simp add: unit_ok_def)
    then show ?thesis by (simp add: Cons annexb_def find_startcode.simps [of "0 # _"])
  qed (simp add: annexb_def find_startcode.simps)
next
  case (Cons b u)
  have r: "annexb us = [] \<or> take 3 (annexb us) = [0, 0, 0]" "us = [] \<or> 4 < length (annexb us)"
    using assms(2) by (cases us; auto simp: annexb_def unit_ok_def)+
  have n: "take 4 ((b # u) @ annexb us) \<noteq> [0, 0, 0, 1]"
  proof (cases "4 \<le> length (b # u)")
    case True
    then show ?thesis using spec [OF Cons.prems, of 0] by simp
  qed (use startcode_not_within [OF _ _ _ r(1), of "b # u"] in auto)
  have IH: "find_startcode (u @ annexb us) = length u"
  proof (rule Cons.IH, intro allI impI)
    fix i assume "i + 4 \<le> length u"
    then show "take 4 (drop i u) \<noteq> [0, 0, 0, 1]" using spec [OF Cons.prems, of "Suc i"] by simp
  qed
  show ?case
  proof (cases "4 < length ((b # u) @ annexb us)")
    case True
    then show ?thesis using n IH by (simp add: find_startcode.simps [of "b # u @ annexb us"])
  next
    case False
    then have "annexb us = []" using r(2) by (auto simp: annexb_def)
    then show ?thesis using False by (simp add: find_startcode.simps [of "b # u"])
  qed
qed

definition classify_all :: "int \<Rightarrow> byte list list \<Rightarrow> param_sets \<Rightarrow> param_sets" where
  "classify_all type us ps = foldl (\<lambda>ps u. classify_unit type (hd u) u ps) ps us"

lemma param_loop_units:
  "\<forall>u \<in> set us. unit_ok u \<Longrightarrow> param_loop type (annexb us) ps = Some (classify_all type us ps)"
proof (induction us arbitrary: ps)
  case Nil
  then show ?case by (simp add: annexb_def param_loop.simps classify_all_def)
next
  case (Cons u us)
  then obtain b v where u: "u = b # v" by (cases u) (auto simp: unit_ok_def)
  have f: "find_startcode (u @ annexb us) = length u" using Cons.prems by (intro find_startcode_unit) (auto simp: unit_ok_def)
  have a: "annexb (u # us) = [0, 0, 0, 1] @ u @ annexb us" by (simp add: annexb_def)
  have "param_loop type (annexb (u # us)) ps = param_loop type (annexb us) (classify_unit type b u ps)"
    unfolding a using f by (subst param_loop.simps) (simp add: u)
  then show ?case using Cons by (simp add: classify_all_def u)
qed

text \<open>The last unit of a type.\<close>

definition last_unit :: "byte \<Rightarrow> byte list list \<Rightarrow> byte list option" where
  "last_unit t us = (case rev (filter (\<lambda>u. hd u AND 0x1f = t) us) of [] \<Rightarrow> None | u # _ \<Rightarrow> Some u)"

lemma classify_all_264:
  "p_sps (classify_all 264 us ps) = (case last_unit 7 us of None \<Rightarrow> p_sps ps | Some u \<Rightarrow> Some u) \<and>
   p_pps (classify_all 264 us ps) = (case last_unit 8 us of None \<Rightarrow> p_pps ps | Some u \<Rightarrow> Some u) \<and>
   p_vps (classify_all 264 us ps) = p_vps ps"
proof (induction us rule: rev_induct)
  case (snoc u us)
  then show ?case by (auto simp: classify_all_def classify_unit_def Let_def last_unit_def)
qed (simp add: classify_all_def last_unit_def)

lemma at_set [simp]: "at xs i = Some x \<Longrightarrow> at (xs[nat i := y]) i = Some y"
  by (auto simp: at_def split: if_splits)

lemma get_vparam_264:
  assumes "at (vx_sps s) ch = Some None" "at (vx_pps s) ch = Some p0" "at (vx_vps s) ch = Some v0" "\<forall>u \<in> set us. unit_ok u" "us \<noteq> []"
    "last_unit 7 us = Some sp" "last_unit 8 us = Some pp"
  shows "\<exists>s'. h264or5_get_vparam (True, True, m) 264 ch (annexb us) s = Some (0, s') \<and> at (vx_sps s') ch = Some (Some sp) \<and> at (vx_pps s') ch = Some (Some pp) \<and>
    at (vx_vps s') ch = Some v0 \<and> vx_ctx s' = vx_ctx s \<and> vx_heap s' = vx_heap s \<and> vx_initialized s' = vx_initialized s"
proof -
  have f: "find_startcode (annexb us) = 0" using find_startcode_unit [of "[]" us] assms(4) by simp
  let ?ps = "classify_all 264 us \<lparr>p_sps = None, p_pps = None, p_vps = None\<rparr>"
  have ps: "p_sps ?ps = Some sp" "p_pps ?ps = Some pp" "p_vps ?ps = None"
    using classify_all_264 [of us "\<lparr>p_sps = None, p_pps = None, p_vps = None\<rparr>"] assms(6,7) by simp_all
  show ?thesis using assms(1-3) f param_loop_units [OF assms(4)] ps
    by (simp add: h264or5_get_vparam_def set_params_def)
qed

lemma copy_param_fits:
  assumes "int (length x) \<le> ib_size b" "length x \<le> length (ib_ptr b)"
  shows "\<exists>b'. copy_param (Some x) b = Some (0, b') \<and> ib_size b' = int (length x) \<and> take (length x) (ib_ptr b') = x \<and> ib_id b' = ib_id b"
  using assms by (simp add: copy_param_def param_len_def c_write_def)

text \<open>C20. The parameter sets come out as the codec library put them in: for a global header made of H.264 units behind start codes of four bytes, none of which
  holds such a code, the first request for the SPS writes the last SPS of the header into a buffer that is large enough, and a
  request for the PPS then gives the last PPS.\<close>

theorem encoder_params_roundtrip:
  assumes "vx_initialized s" "at (vx_ctx s) ch = Some (Some a)" "vx_heap s a = Some x" "cx_extradata x = annexb us" "cl_id lib (cx_codec x) = AV_CODEC_ID_H264"
    "at (vx_sps s) ch = Some None" "at (vx_pps s) ch = Some p0" "at (vx_vps s) ch = Some v0" "\<forall>u \<in> set us. unit_ok u" "last_unit 7 us = Some sp" "last_unit 8 us = Some pp"
    "ib_id b1 = ch" "int (length sp) \<le> ib_size b1" "length sp \<le> length (ib_ptr b1)" "ib_id b2 = ch" "int (length pp) \<le> ib_size b2" "length pp \<le> length (ib_ptr b2)"
  shows "\<exists>c1 c2 s1. vencoder_ioctl lib (True, True, m) GA_IOCTL_GETSPS 12 (Arg_Buffer b1) s = Some (0, Arg_Buffer c1, s1) \<and>
    ib_size c1 = int (length sp) \<and> take (length sp) (ib_ptr c1) = sp \<and>
    vencoder_ioctl lib (True, True, m) GA_IOCTL_GETPPS 12 (Arg_Buffer b2) s1 = Some (0, Arg_Buffer c2, s1) \<and>
    ib_size c2 = int (length pp) \<and> take (length pp) (ib_ptr c2) = pp"
proof -
  have ne: "us \<noteq> []" "annexb us \<noteq> []" using assms(10) by (auto simp: last_unit_def annexb_def split: list.splits)
  obtain s1 where s1: "h264or5_get_vparam (True, True, m) 264 ch (annexb us) s = Some (0, s1)" "at (vx_sps s1) ch = Some (Some sp)" "at (vx_pps s1) ch = Some (Some pp)"
    "at (vx_vps s1) ch = Some v0" "vx_ctx s1 = vx_ctx s" "vx_heap s1 = vx_heap s" "vx_initialized s1 = vx_initialized s"
    using get_vparam_264 [OF assms(6-9) ne(1) assms(10,11)] by blast
  have again: "h264or5_get_vparam (True, True, m) 264 ch (annexb us) s1 = Some (0, s1)"
    using s1(2,4) by (simp add: h264or5_get_vparam_def)
  obtain c1 where c1: "copy_param (Some sp) b1 = Some (0, c1)" "ib_size c1 = int (length sp)" "take (length sp) (ib_ptr c1) = sp" using copy_param_fits [OF assms(13,14)] by blast
  obtain c2 where c2: "copy_param (Some pp) b2 = Some (0, c2)" "ib_size c2 = int (length pp)" "take (length pp) (ib_ptr c2) = pp" using copy_param_fits [OF assms(16,17)] by blast
  have "vencoder_ioctl lib (True, True, m) GA_IOCTL_GETSPS 12 (Arg_Buffer b1) s = Some (0, Arg_Buffer c1, s1)"
    using assms(1-5,12) s1 ne(2) c1(1)
    by (simp add: vencoder_ioctl_def get_params_def vencoder_opt_get_encoder_def sizeof_ioctl_buffer_def GA_IOCTL_RECONFIGURE_def GA_IOCTL_GETSPS_def GA_IOCTL_GETVPS_def)
  moreover have "vencoder_ioctl lib (True, True, m) GA_IOCTL_GETPPS 12 (Arg_Buffer b2) s1 = Some (0, Arg_Buffer c2, s1)"
    using assms(1-5,15) s1 again ne(2) c2(1)
    by (simp add: vencoder_ioctl_def get_params_def vencoder_opt_get_encoder_def sizeof_ioctl_buffer_def GA_IOCTL_RECONFIGURE_def GA_IOCTL_GETSPS_def GA_IOCTL_GETPPS_def GA_IOCTL_GETVPS_def)
  ultimately show ?thesis using c1 c2 by blast
qed

text \<open>Where the search ends: at a start code with a byte behind it, or at the end.\<close>

definition at_code :: "byte list \<Rightarrow> bool" where
  "at_code r \<longleftrightarrow> r = [] \<or> (\<exists>b v. r = [0, 0, 0, 1] @ b # v)"

lemma find_startcode_stops: "at_code (drop (find_startcode xs) xs)"
proof (induction xs)
  case (Cons b xs)
  show ?case
  proof (cases "4 < length (b # xs)")
    case True
    show ?thesis
    proof (cases "take 4 (b # xs) = [0, 0, 0, 1]")
      case t: True
      have "find_startcode (b # xs) = 0" by (subst find_startcode.simps) (simp only: True t if_True simp_thms)
      moreover obtain c v where "drop 4 (b # xs) = c # v" using True by (cases "drop 4 (b # xs)") auto
      moreover have "b # xs = take 4 (b # xs) @ drop 4 (b # xs)" by (rule append_take_drop_id [symmetric])
      ultimately show ?thesis using t by (metis at_code_def drop_0)
    next
      case False
      then have "find_startcode (b # xs) = Suc (find_startcode xs)" using True by (subst find_startcode.simps) (simp only: if_True if_False list.sel simp_thms)
      then show ?thesis using Cons by simp
    qed
  qed (simp add: find_startcode.simps [of "b # xs"] at_code_def)
qed (simp add: find_startcode.simps at_code_def)

lemma param_loop_total: "at_code r \<Longrightarrow> param_loop type r ps \<noteq> None"
proof (induction type r ps rule: param_loop.induct)
  case (1 type r ps)
  show ?case
  proof (cases "r = []")
    case False
    then obtain b v where r: "r = [0, 0, 0, 1] @ b # v" using 1(2) by (auto simp: at_code_def)
    then have d: "dropWhile (\<lambda>b. b = 0) r = 1 # b # v" by simp
    show ?thesis using 1(1) [OF False d refl] find_startcode_stops [of "b # v"] d False by (subst param_loop.simps) simp
  qed (simp add: param_loop.simps)
qed

text \<open>C40. Any header is safe: whatever bytes the codec library gives as its global header, extracting the parameter sets of a channel reads inside them
  and returns 0 or -1; and a failed search leaves the encoder as it was or all three sets of the channel empty.\<close>

theorem vparam_safe:
  assumes "0 \<le> ch" "ch < int (length (vx_sps s))" "length (vx_vps s) = length (vx_sps s)"
  shows "\<exists>r s'. h264or5_get_vparam mem type ch data s = Some (r, s') \<and> (r = 0 \<or> r = -1) \<and>
    (r = -1 \<longrightarrow> s' = s \<or> s' = set_params (nat ch) \<lparr>p_sps = None, p_pps = None, p_vps = None\<rparr> s)"
proof -
  obtain ps where ps: "param_loop type (drop (find_startcode data) data) \<lparr>p_sps = None, p_pps = None, p_vps = None\<rparr> = Some ps"
    using param_loop_total [OF find_startcode_stops] by blast
  obtain m1 m2 m3 where m: "mem = (m1, m2, m3)" by (rule prod_cases3)
  show ?thesis using assms by (auto simp: h264or5_get_vparam_def at_def ps m Let_def)
qed

subsection \<open>Changing the settings\<close>

text \<open>C38. A failed change of the settings leaves a freed encoder: when the codec library cannot open the encoder with the new settings, the context is freed, but
  the change reports success and the pointer is kept, so the next picture and the next request for a parameter set use freed memory.\<close>

theorem reconfigure_dangles:
  assumes "at (vx_reconf s) iid = Some rf" "0 \<le> rf_id rf" "at (vx_ctx s) iid = Some (Some a)" "vx_heap s a = Some x" "\<forall>y. cl_open lib y = None"
    "video_encoder_codec conf \<noteq> 0" "vencoder_reconfigure lib src iid conf s = Some (r, conf', s')"
  shows "r = 0 \<and> at (vx_ctx s') iid = Some (Some a) \<and> encode_frame ps iid (Some a) tv img (v\<lparr>vr_enc := s'\<rparr>) = None \<and>
    (vx_initialized s \<longrightarrow> vencoder_ioctl lib mem GA_IOCTL_GETSPS 12 (Arg_Buffer \<lparr>ib_id = iid, ib_ptr = ptr, ib_size = sz\<rparr>) s' = None)"
proof -
  have h: "r = 0" "vx_ctx s' = vx_ctx s" "vx_heap s' a = None" "vx_initialized s' = vx_initialized s"
    using assms by (auto simp: vencoder_reconfigure_def ga_avcodec_close_def ga_avcodec_vencoder_init_def ga_avcodec_open_def Let_def split: if_splits)
  then show ?thesis using assms(3)
    by (auto simp: encode_frame_def vencoder_ioctl_def get_params_def vencoder_opt_get_encoder_def sizeof_ioctl_buffer_def GA_IOCTL_RECONFIGURE_def GA_IOCTL_GETSPS_def)
qed

subsection \<open>Time stamps\<close>

lemma send_encoded_keeps: "send_encoded iid later p r = Some (go, r') \<Longrightarrow> vr_encoded r' = vr_encoded r \<and> vt_pts (vr_thread r') = vt_pts (vr_thread r)"
  by (auto simp: send_encoded_def Let_def split: prod.splits)

lemma encode_frame_appends:
  "encode_frame ps iid enc tv img r = Some (go, r') \<Longrightarrow>
    vr_encoded r' = vr_encoded r @ [(vt_pts (vr_thread r), img)] \<and> vt_pts (vr_thread r') = vt_pts (vr_thread r)"
  by (auto simp: encode_frame_def Let_def split: option.splits dest!: send_encoded_keeps)

lemma frame_pts_grows: "vt_pts t < vt_pts (snd (frame_pts scale now fps f core t))"
  by (auto simp: frame_pts_def Let_def split: prod.splits)

lemma with_pipe_keeps [simp]: "vr_encoded (with_pipe pa hp d r) = vr_encoded r" "vr_thread (with_pipe pa hp d r) = vr_thread r"
  by (simp_all add: with_pipe_def)

text \<open>The time stamps so far are increasing, not negative, and not above the last one.\<close>

definition stamps_ok :: "'w venc_run \<Rightarrow> bool" where
  "stamps_ok r \<longleftrightarrow> sorted_wrt (<) (map fst (vr_encoded r)) \<and> (\<forall>p \<in> set (map fst (vr_encoded r)). 0 \<le> p \<and> p \<le> vt_pts (vr_thread r)) \<and> -1 \<le> vt_pts (vr_thread r)"

lemma stamps_append:
  assumes "stamps_ok r" "vr_encoded r' = vr_encoded r @ [(vt_pts (vr_thread r'), img)]" "vt_pts (vr_thread r) < vt_pts (vr_thread r')"
  shows "stamps_ok r'"
  using assms by (fastforce simp: stamps_ok_def sorted_wrt_append)

lemma stamps_same: "vr_encoded r' = vr_encoded r \<Longrightarrow> vr_thread r' = vr_thread r \<Longrightarrow> stamps_ok r \<Longrightarrow> stamps_ok r'"
  by (simp add: stamps_ok_def)

lemma take_frame_stamps:
  assumes "take_frame ps iid pa enc lines sz b hp d r = Some (go, r')" "stamps_ok r"
  shows "stamps_ok r'"
proof -
  obtain x f where xf: "hp b = Some x" "vs_frames (vr_src r) (buf_pointer x) = Some f" using assms(1) by (auto simp: take_frame_def)
  let ?ct = "frame_pts (vp_scale ps) (vp_now ps) (rc_video_fps (vr_conf r)) f (vr_core r) (vr_thread r)"
  show ?thesis
  proof (cases "take 3 lines = take 3 (linesize f)")
    case True
    then obtain img hp' d' where e: "encode_frame ps iid enc (vf_timestamp f) img ((with_pipe pa hp' d' r)\<lparr>vr_core := fst ?ct, vr_thread := snd ?ct\<rparr>) = Some (go, r')"
      using assms(1) xf by (auto simp: take_frame_def Let_def)
    show ?thesis using encode_frame_appends [OF e] frame_pts_grows [of "vr_thread r"] by (intro stamps_append [OF assms(2), where img = img]) simp_all
  qed (use assms(1) xf in \<open>auto simp: take_frame_def Let_def intro!: stamps_same [OF _ _ assms(2)]\<close>)
qed

lemma pass_stamps:
  assumes "vencoder_pass ps iid pa enc lines sz r = Some (go, r')" "stamps_ok r"
  shows "stamps_ok r'"
proof (cases "\<not> vx_started (vr_enc r) \<or> encoder_running (vr_core r) = 0")
  case False
  obtain got hp d s conf where g: "(case got of Blocked \<Rightarrow> None | Loaded None \<Rightarrow> Some (True, with_pipe pa hp d (r\<lparr>vr_enc := s, vr_conf := conf\<rparr>))
      | Loaded (Some b) \<Rightarrow> take_frame ps iid pa enc lines sz b hp d (r\<lparr>vr_enc := s, vr_conf := conf\<rparr>)) = Some (go, r')"
    using assms(1) False by (auto simp: vencoder_pass_def Let_def)
  let ?r = "r\<lparr>vr_enc := s, vr_conf := conf\<rparr>"
  have s: "stamps_ok ?r" by (rule stamps_same [OF _ _ assms(2)]) simp_all
  show ?thesis
  proof (cases got)
    case (Loaded x)
    show ?thesis
    proof (cases x)
      case None
      then have "r' = with_pipe pa hp d ?r" using g Loaded by simp
      then show ?thesis by (intro stamps_same [OF _ _ s]) simp_all
    qed (use g Loaded take_frame_stamps [OF _ s] in auto)
  qed (use g in simp)
qed (use assms in \<open>auto simp: vencoder_pass_def\<close>)

lemma passes_stamps:
  "vencoder_passes ps iid pa enc lines sz r = Some (go, r') \<Longrightarrow> stamps_ok r \<Longrightarrow> stamps_ok r'"
  by (induction ps arbitrary: r) (auto split: if_splits dest: pass_stamps)

text \<open>C22. Time stamps increase strictly: whatever the frames, their time stamps, the clock, the other threads and the codec library do, the pictures that the thread of
  a channel gives to its encoder have strictly increasing time stamps, from 0 on.\<close>

theorem encoder_pts_increase:
  assumes "vencoder_threadproc mem picture pname ps r = Some (go, r')" "vr_encoded r = []"
  shows "sorted_wrt (<) (map fst (vr_encoded r')) \<and> (\<forall>p \<in> set (map fst (vr_encoded r')). 0 \<le> p)"
proof -
  have s: "stamps_ok (r\<lparr>vr_stamps := st, vr_thread := venc_thread_start\<rparr>)" for st using assms(2) by (simp add: stamps_ok_def venc_thread_start_def)
  have "stamps_ok r' \<or> vr_encoded r' = []"
    using assms passes_stamps [OF _ s] by (auto simp: vencoder_threadproc_def Let_def case_prod_beta split: option.split_asm if_split_asm)
  then show ?thesis by (auto simp: stamps_ok_def)
qed

section \<open>Examples\<close>

definition example_lib :: codec_lib where
  "example_lib = \<lparr>cl_id = (\<lambda>k. AV_CODEC_ID_H264), cl_alloc = Some 7, cl_open = (\<lambda>x. None)\<rparr>"

definition example_units :: "byte list list" where
  "example_units = [[0x67, 66, 0, 30], [0x68, 206], [6, 5]]"

definition example_venc :: venc_state where
  "example_venc = \<lparr>vx_initialized = True, vx_started = True, vx_threads = [0], vx_ctx = [Some 7, None],
     vx_heap = (\<lambda>a. if a = 7 then Some ((codec_ctx_new 27)\<lparr>cx_open := True, cx_extradata := annexb example_units\<rparr>) else None),
     vx_reconf = [reconf_none\<lparr>rf_id := 0, rf_crf := 23\<rparr>, reconf_none], vx_sps = [None, None], vx_pps = [None, None], vx_vps = [None, None], vx_keyframe = False\<rparr>"

lemma units_check: "\<forall>u \<in> set example_units. unit_ok u"
proof -
  have "unit_ok u" if "u \<noteq> []" "0 \<notin> set (take 1 u)" "length u \<le> 4" for u
    unfolding unit_ok_def
  proof (intro conjI allI impI notI)
    fix i assume i: "i + 4 \<le> length u" "take 4 (drop i u) = [0, 0, 0, 1]"
    then have "i = 0" using that(3) by simp
    then show False using i(2) that(1,2) by (cases u) auto
  qed (use that(1) in simp)
  then show ?thesis by (simp add: example_units_def)
qed

theorem encoder_params_roundtrip_witness:
  "\<exists>c1 c2 s1. vencoder_ioctl example_lib (True, True, True) GA_IOCTL_GETSPS 12 (Arg_Buffer \<lparr>ib_id = 0, ib_ptr = [1, 2, 3, 4, 5], ib_size = 5\<rparr>) example_venc = Some (0, Arg_Buffer c1, s1) \<and>
     ib_size c1 = 4 \<and> take 4 (ib_ptr c1) = [0x67, 66, 0, 30] \<and>
     vencoder_ioctl example_lib (True, True, True) GA_IOCTL_GETPPS 12 (Arg_Buffer \<lparr>ib_id = 0, ib_ptr = [1, 2, 3, 4, 5], ib_size = 5\<rparr>) s1 = Some (0, Arg_Buffer c2, s1) \<and>
     ib_size c2 = 2 \<and> take 2 (ib_ptr c2) = [0x68, 206]"
proof -
  have l: "last_unit 7 example_units = Some [0x67, 66, 0, 30]" "last_unit 8 example_units = Some [0x68, 206]" by (simp_all add: last_unit_def example_units_def)
  have s: "vx_initialized example_venc" "at (vx_ctx example_venc) 0 = Some (Some 7)" "vx_heap example_venc 7 = Some ((codec_ctx_new 27)\<lparr>cx_open := True, cx_extradata := annexb example_units\<rparr>)"
    "at (vx_sps example_venc) 0 = Some None" "at (vx_pps example_venc) 0 = Some None" "at (vx_vps example_venc) 0 = Some None"
    by (simp_all add: example_venc_def at_def)
  from encoder_params_roundtrip [OF s(1-3) _ _ s(4-6) units_check l, of example_lib "\<lparr>ib_id = 0, ib_ptr = [1, 2, 3, 4, 5], ib_size = 5\<rparr>" "\<lparr>ib_id = 0, ib_ptr = [1, 2, 3, 4, 5], ib_size = 5\<rparr>" True]
  show ?thesis by (simp add: example_lib_def numeral_eq_Suc)
qed

theorem vparam_safe_witness:
  "\<exists>r s'. h264or5_get_vparam (True, True, True) 264 0 [0, 0, 0, 0] example_venc = Some (r, s') \<and> (r = 0 \<or> r = -1)"
proof -
  have "(0 :: int) \<le> 0" "(0 :: int) < int (length (vx_sps example_venc))" "length (vx_vps example_venc) = length (vx_sps example_venc)" by (simp_all add: example_venc_def)
  from vparam_safe [OF this] show ?thesis by blast
qed

definition example_src :: vsource_sys where
  "example_src = \<lparr>gVideoChannels = 1, gVsource = [vsource_zero\<lparr>out_width := 4, out_height := 2\<rparr>], gPipe = [Some 9],
     vs_pipes = \<lparr>ds_heap = (\<lambda>a. if a = 1 then Some \<lparr>buf_pointer = 16, buf_internal = 0, buf_offset = 16, buf_next = None\<rparr> else None),
       ds_pipes = (\<lambda>a. if a = 9 then Some \<lparr>dp_channel_id = 0, dp_name = ''v'', dp_in = None, dp_out = Some 1, dp_out_tail = Some 1, dp_in_count = 0, dp_out_count = 1\<rparr> else None),
       dpipemap = [(''v'', 9)]\<rparr>,
     vs_frames = (\<lambda>a. if a = 16 then Some \<lparr>vf_channel = 0, imgpts = 5, pixelformat = 0, linesize = [4, 2, 2], realwidth = 4, realheight = 2, realstride = 4, realsize = 12,
       vf_timestamp = \<lparr>tv_sec = 1, tv_usec = 0\<rparr>, maxstride = 4, imgbufsize = 12, vf_img = 0, vf_mem = [1, 2, 3, 4, 5, 6, 7, 8, 9, 10, 11, 12]\<rparr> else None)\<rparr>"

theorem reconfigure_dangles_witness:
  "\<exists>conf' s'. vencoder_reconfigure example_lib example_src 0 (rtspconf_init\<lparr>video_encoder_codec := 27, rc_vso := [''crf'', ''20'']\<rparr>) example_venc = Some (0, conf', s') \<and>
     vencoder_ioctl example_lib (True, True, True) GA_IOCTL_GETSPS 12 (Arg_Buffer \<lparr>ib_id = 0, ib_ptr = [], ib_size = 0\<rparr>) s' = None"
proof -
  let ?conf = "rtspconf_init\<lparr>video_encoder_codec := 27, rc_vso := [''crf'', ''20'']\<rparr>"
  have s: "at (vx_reconf example_venc) 0 = Some (reconf_none\<lparr>rf_id := 0, rf_crf := 23\<rparr>)" "at (vx_ctx example_venc) 0 = Some (Some 7)"
    "vx_heap example_venc 7 = Some ((codec_ctx_new 27)\<lparr>cx_open := True, cx_extradata := annexb example_units\<rparr>)"
    by (simp_all add: example_venc_def at_def)
  have "vencoder_reconfigure example_lib example_src 0 ?conf example_venc \<noteq> None"
    unfolding vencoder_reconfigure_def s
    by (simp add: s reconf_none_def example_src_def video_source_out_width_def video_source_out_height_def video_source_def c_get_def vsource_zero_def
        ga_avcodec_close_def ga_avcodec_vencoder_init_def ga_avcodec_open_def example_lib_def Let_def)
  then obtain r conf' s' where v: "vencoder_reconfigure example_lib example_src 0 ?conf example_venc = Some (r, conf', s')" by auto
  from reconfigure_dangles [OF s(1) _ s(2,3) _ _ v, of "undefined" "undefined" "[]" "undefined" "(True, True, True)" "[]" 0] v show ?thesis
    by (auto simp: reconf_none_def example_lib_def example_venc_def)
qed

definition example_pass :: venc_pass where
  "example_pass = \<lparr>vp_lib = example_lib, vp_now = \<lparr>tv_sec = 2, tv_usec = 0\<rparr>, vp_scale = (\<lambda>us rate. 0), vp_failed = False, vp_wakes = [], vp_encode = Some None,
     vp_later = \<lparr>tv_sec = 2, tv_usec = 0\<rparr>\<rparr>"

definition example_core :: "enc_call list encoder_state" where
  "example_core = \<lparr>encoder_clients = [], threadLaunched = True, sync_reset = True, synctv = \<lparr>tv_sec = 0, tv_usec = 0\<rparr>, vencoder = None, aencoder = None, sinkserver = None,
     vencoder_param = 0, aencoder_param = 0, enc_queues = example_queues\<rparr>"

definition example_venc_run :: "enc_call list venc_run" where
  "example_venc_run = \<lparr>vr_enc = example_venc\<lparr>vx_reconf := [reconf_none, reconf_none]\<rparr>, vr_conf = rtspconf_init, vr_src = example_src, vr_core = example_core,
     vr_stamps = replicate 8 [], vr_sink = [], vr_thread = venc_thread_start, vr_encoded = []\<rparr>"

theorem encoder_pts_increase_witness:
  "\<exists>r'. vencoder_threadproc True (\<lambda>w h. ([4, 2, 2], 12)) ''v'' [example_pass] example_venc_run = Some (True, r') \<and>
     map fst (vr_encoded r') = [0] \<and> (\<forall>p \<in> set (map fst (vr_encoded r')). 0 \<le> p)"
proof -
  have "map_option (\<lambda>(go, r). (go, vr_encoded r)) (vencoder_threadproc True (\<lambda>w h. ([4, 2, 2], 12)) ''v'' [example_pass] example_venc_run) =
      Some (True, [(0, [1, 2, 3, 4, 5, 6, 7, 8, 9, 10, 11, 12])])" by code_simp
  then obtain r' where r': "vencoder_threadproc True (\<lambda>w h. ([4, 2, 2], 12)) ''v'' [example_pass] example_venc_run = Some (True, r')"
    "vr_encoded r' = [(0, [1, 2, 3, 4, 5, 6, 7, 8, 9, 10, 11, 12])]" by auto
  moreover have "vr_encoded example_venc_run = []" by (simp add: example_venc_run_def)
  ultimately show ?thesis using encoder_pts_increase [OF r'(1)] by auto
qed

end
