(* ===== verification/EncoderAudio.thy ===== *)
theory EncoderAudio
  imports EncoderVideo AudioSource
begin

text \<open>
  The audio encoder (\<open>module/encoder-audio/encoder-audio.cpp\<close>): its set-up with the optional conversion of samples,
  and the thread that reads the captured samples of its buffer, cuts them into the blocks of the codec and sends the packets. The codec and the
  resampling library are parameters.
\<close>

section \<open>Set-up\<close>

record audio_ctx =
  ax_codec :: nat
  ax_open :: bool
  ax_bit_rate :: int
  ax_sample_rate :: int
  ax_channels :: int
  ax_sample_fmt :: int
  ax_channel_layout :: int
  ax_global_header :: bool
  ax_frame_size :: int

definition audio_ctx_new :: "nat \<Rightarrow> audio_ctx" where
  "audio_ctx_new k = \<lparr>ax_codec = k, ax_open = False, ax_bit_rate = 0, ax_sample_rate = 0, ax_channels = 0, ax_sample_fmt = 0,
     ax_channel_layout = 0, ax_global_header = False, ax_frame_size = 0\<rparr>"

record audio_lib =
  al_alloc :: "nat option"
  al_alloc2 :: "nat option"
  al_open :: "audio_ctx \<Rightarrow> int option"
  al_aac :: "nat \<Rightarrow> bool"
  al_bufsize :: "int \<Rightarrow> int \<Rightarrow> int \<Rightarrow> int"
  al_swr_alloc :: bool
  al_swr_init :: bool
  al_convbuf :: bool

definition ga_avcodec_aencoder_init :: "audio_lib \<Rightarrow> nat option \<Rightarrow> nat option \<Rightarrow> nat \<Rightarrow> rtspconf \<Rightarrow> (nat \<Rightarrow> audio_ctx option) \<Rightarrow> (nat option \<times> (nat \<Rightarrow> audio_ctx option)) option" where
  "ga_avcodec_aencoder_init lib new ctx codec conf hp =
     (if codec = 0 then Some (None, hp)
      else let (a, hp) = (case ctx of
                 Some a \<Rightarrow> (Some a, hp)
               | None \<Rightarrow> (case new of None \<Rightarrow> (None, hp) | Some a \<Rightarrow> (Some a, hp(a \<mapsto> audio_ctx_new codec))))
           in (case a of
                 None \<Rightarrow> Some (None, hp)
               | Some a \<Rightarrow> do {
                   x \<leftarrow> hp a;
                   (let x = x\<lparr>ax_bit_rate := audio_bitrate conf, ax_sample_fmt := audio_codec_format conf, ax_sample_rate := audio_samplerate conf,
                          ax_channels := audio_channels conf, ax_channel_layout := audio_codec_channel_layout conf\<rparr>
                    in Some (case al_open lib x of
                               None \<Rightarrow> (None, hp(a := None))
                             | Some fs \<Rightarrow> (Some a, hp(a \<mapsto> x\<lparr>ax_open := True, ax_frame_size := fs\<rparr>)))) }))"

text \<open>The resampler is NULL, or allocated and perhaps initialised.\<close>

record aenc_state =
  ae_initialized :: bool
  ae_started :: bool
  ae_thread :: bool
  ae_rtp_id :: int
  ae_encoder :: "nat option"
  ae_sdp :: "nat option"
  ae_heap :: "nat \<Rightarrow> audio_ctx option"
  ae_source_size :: int
  ae_encoder_size :: int
  ae_swr :: "bool option"
  ae_convbuf :: "byte list option"

definition audio_close :: "nat option \<Rightarrow> (nat \<Rightarrow> audio_ctx option) \<Rightarrow> (nat \<Rightarrow> audio_ctx option) option" where
  "audio_close c hp = (case c of None \<Rightarrow> Some hp | Some a \<Rightarrow> do { x \<leftarrow> hp a; Some (hp(a \<mapsto> x\<lparr>ax_open := False\<rparr>)) })"

definition aencoder_deinit :: "aenc_state \<Rightarrow> (int \<times> aenc_state) option" where
  "aencoder_deinit s =
     (if \<not> ae_initialized s then Some (0, s)
      else do {
        hp \<leftarrow> audio_close (ae_encoder s) (ae_heap s);
        hp \<leftarrow> audio_close (ae_sdp s) hp;
        Some (0, s\<lparr>ae_heap := hp, ae_swr := None, ae_convbuf := None, ae_encoder := None, ae_sdp := None, ae_source_size := -1, ae_encoder_size := -1,
          ae_initialized := False\<rparr>) })"

text \<open>The conversion between the format of the device and that of the codec; the flag is false when it cannot be set up.\<close>

definition setup_conversion :: "audio_lib \<Rightarrow> rtspconf \<Rightarrow> audio_ctx \<Rightarrow> aenc_state \<Rightarrow> bool \<times> aenc_state" where
  "setup_conversion lib conf x s =
     (if audio_device_format conf = ax_sample_fmt x then (True, s)
      else if \<not> al_swr_alloc lib then (False, s\<lparr>ae_swr := None\<rparr>)
      else if \<not> al_swr_init lib then (False, s\<lparr>ae_swr := Some False\<rparr>)
      else if \<not> al_convbuf lib then (False, s\<lparr>ae_swr := Some True, ae_convbuf := None\<rparr>)
      else (True, s\<lparr>ae_swr := Some True, ae_convbuf := Some (replicate (nat (ae_encoder_size s)) 0)\<rparr>))"

definition setup_encoders :: "audio_lib \<Rightarrow> rtspconf \<Rightarrow> aenc_state \<Rightarrow> (bool \<times> aenc_state) option" where
  "setup_encoders lib conf s = do {
     (c, hp) \<leftarrow> ga_avcodec_aencoder_init lib (al_alloc lib) None (audio_encoder_codec conf) conf (ae_heap s);
     (let s = s\<lparr>ae_encoder := c, ae_heap := hp\<rparr>
      in (case c of
            None \<Rightarrow> Some (False, s)
          | Some a \<Rightarrow>
              (if al_aac lib (audio_encoder_codec conf) then
                 (case al_alloc2 lib of
                    None \<Rightarrow> Some (False, s\<lparr>ae_sdp := None\<rparr>)
                  | Some b \<Rightarrow> do {
                      (d, hp) \<leftarrow> ga_avcodec_aencoder_init lib None (Some b) (audio_encoder_codec conf) conf
                         (hp(b \<mapsto> (audio_ctx_new (audio_encoder_codec conf))\<lparr>ax_global_header := True\<rparr>));
                      Some (True, s\<lparr>ae_sdp := d, ae_heap := hp\<rparr>) })
               else Some (True, s)))) }"

definition aencoder_init :: "audio_lib \<Rightarrow> int \<Rightarrow> rtspconf \<Rightarrow> aenc_state \<Rightarrow> (int \<times> aenc_state) option" where
  "aencoder_init lib channels conf s =
     (let s = s\<lparr>ae_rtp_id := channels\<rparr>
      in if ae_initialized s then Some (0, s)
         else if ae_encoder s \<noteq> None then Some (0, s)
         else do {
           (ok, s) \<leftarrow> setup_encoders lib conf s;
           (ok, s) \<leftarrow> (if \<not> ok then Some (False, s)
              else do {
                a \<leftarrow> ae_encoder s;
                x \<leftarrow> ae_heap s a;
                Some (setup_conversion lib conf x
                  (s\<lparr>ae_source_size := al_bufsize lib (audio_channels conf) (ax_frame_size x) (audio_device_format conf),
                     ae_encoder_size := al_bufsize lib (ax_channels x) (ax_frame_size x) (ax_sample_fmt x)\<rparr>)) });
           (if ok then Some (0, s\<lparr>ae_initialized := True\<rparr>)
            else do { (r, s) \<leftarrow> aencoder_deinit s; Some (-1, s) }) })"

definition aencoder_start :: "bool \<Rightarrow> aenc_state \<Rightarrow> int \<times> aenc_state" where
  "aencoder_start create s =
     (if ae_started s then (0, s)
      else if create then (0, s\<lparr>ae_started := True, ae_thread := True\<rparr>)
      else (-1, s))"

definition aencoder_stop :: "aenc_state \<Rightarrow> int \<times> aenc_state" where
  "aencoder_stop s = (if \<not> ae_started s then (0, s) else (0, s\<lparr>ae_started := False, ae_thread := False\<rparr>))"

section \<open>The thread\<close>

text \<open>The state of the thread, with its buffer of captured sound; \<open>ar_blocks\<close> records the blocks given to the codec.\<close>

record 'w aenc_run =
  ar_enc :: aenc_state
  ar_conf :: rtspconf
  ar_core :: "'w encoder_state"
  ar_stamps :: "encoder_pts_t list list"
  ar_sink :: 'w
  ar_ab :: audio_buffer
  ar_samples :: "byte list"
  ar_nsamples :: int
  ar_samplebytes :: int
  ar_pts :: int
  ar_sync :: int
  ar_offset :: int
  ar_purged :: bool
  ar_blocks :: "(int \<times> byte list) list"

record aenc_pass =
  ap_waited :: "audio_buffer \<Rightarrow> audio_buffer"
  ap_now :: timeval
  ap_elapsed :: int
  ap_scale :: "int \<Rightarrow> int \<Rightarrow> int"
  ap_convert :: "byte list \<Rightarrow> byte list"
  ap_encode :: "byte list \<Rightarrow> (int option \<times> byte list) option option"
  ap_later :: timeval

text \<open>The time stamp after \<open>n\<close> frames were read; -1 is none yet.\<close>

definition audio_pts :: "aenc_pass \<Rightarrow> int \<Rightarrow> 'w aenc_run \<Rightarrow> 'w aenc_run" where
  "audio_pts ps n r =
     (if ar_pts r = -1 then
        (case encoder_pts_sync (ap_scale ps) (ap_now ps) (audio_samplerate (ar_conf r)) (ar_core r) of
           (sync, core) \<Rightarrow> r\<lparr>ar_core := core, ar_sync := sync, ar_pts := sync, ar_offset := n\<rparr>)
      else let newpts = ar_sync r + (ap_elapsed ps * audio_samplerate (ar_conf r)) sdiv 1000000 - n - ar_offset r
           in if newpts > ar_pts r then r\<lparr>ar_pts := newpts\<rparr> else r)"

text \<open>The bytes of a block: those of the samples at an offset, or what the resampler makes of them in its buffer.\<close>

definition block_bytes :: "aenc_pass \<Rightarrow> int \<Rightarrow> 'w aenc_run \<Rightarrow> (byte list \<times> 'w aenc_run) option" where
  "block_bytes ps offset r =
     (case ae_swr (ar_enc r) of
        None \<Rightarrow> do { xs \<leftarrow> c_read (ar_samples r) offset (ae_source_size (ar_enc r)); Some (xs, r) }
      | Some ok \<Rightarrow> do {
          xs \<leftarrow> c_read (ar_samples r) offset (ae_source_size (ar_enc r));
          cb \<leftarrow> ae_convbuf (ar_enc r);
          cb \<leftarrow> (if ok then c_write cb 0 (ap_convert ps xs) else None);
          ys \<leftarrow> c_read cb 0 (ae_encoder_size (ar_enc r));
          Some (ys, r\<lparr>ar_enc := (ar_enc r)\<lparr>ae_convbuf := Some cb\<rparr>\<rparr>) })"

definition send_audio :: "aenc_pass \<Rightarrow> int option \<times> byte list \<Rightarrow> 'w aenc_run \<Rightarrow> (bool \<times> 'w aenc_run) option" where
  "send_audio ps p r =
     (case p of (ppts, pkt) \<Rightarrow>
        let pts = (case ppts of None \<Rightarrow> ar_pts r | Some x \<Rightarrow> x);
            (tv, st) = encoder_ptv_get (ar_stamps r) (nat (ae_rtp_id (ar_enc r))) pts (audio_samplerate (ar_conf r))
        in do {
          (res, w) \<leftarrow> encoder_send_packet (ar_core r) (ar_sink r) (ae_rtp_id (ar_enc r)) pkt pts (Some (case tv of None \<Rightarrow> ap_later ps | Some tv \<Rightarrow> tv));
          Some (0 \<le> res, r\<lparr>ar_stamps := st, ar_sink := w\<rparr>) })"

definition encode_block :: "aenc_pass \<Rightarrow> int \<Rightarrow> 'w aenc_run \<Rightarrow> (bool \<times> 'w aenc_run) option" where
  "encode_block ps offset r = do {
     (xs, r) \<leftarrow> block_bytes ps offset r;
     (let r = r\<lparr>ar_stamps := snd (encoder_pts_put (ar_stamps r) (nat (ae_rtp_id (ar_enc r))) (ar_pts r) (ap_now ps)), ar_blocks := ar_blocks r @ [(ar_pts r, xs)]\<rparr>
      in (case ap_encode ps xs of
            None \<Rightarrow> Some (False, r)
          | Some None \<Rightarrow> Some (True, r)
          | Some (Some p) \<Rightarrow> send_audio ps p r)) }"

lemma send_audio_keeps: "send_audio ps p r = Some (go, r') \<Longrightarrow> ar_nsamples r' = ar_nsamples r"
  by (cases p) (auto simp: send_audio_def Let_def case_prod_beta)

lemma block_bytes_keeps: "block_bytes ps offset r = Some (xs, r') \<Longrightarrow> ar_nsamples r' = ar_nsamples r"
  by (auto simp: block_bytes_def split: option.splits if_splits)

lemma encode_block_keeps:
  assumes "encode_block ps offset r = Some (go, r')"
  shows "ar_nsamples r' = ar_nsamples r"
proof -
  obtain xs r1 where b: "block_bytes ps offset r = Some (xs, r1)" using assms by (auto simp: encode_block_def)
  then show ?thesis
    using assms block_bytes_keeps [OF b] by (cases "ap_encode ps xs"; cases "the (ap_encode ps xs)") (auto simp: encode_block_def Let_def dest!: send_audio_keeps)
qed

text \<open>The loop over whole blocks: whether the thread goes on, and the offset reached.\<close>

function encode_blocks :: "aenc_pass \<Rightarrow> int \<Rightarrow> int \<Rightarrow> int \<Rightarrow> 'w aenc_run \<Rightarrow> (bool \<times> int \<times> 'w aenc_run) option" where
  "encode_blocks ps fs unit offset r =
     (if ar_nsamples r < fs then Some (True, offset, r)
      else if fs \<le> 0 then None
      else (case encode_block ps offset r of
              None \<Rightarrow> None
            | Some (go, r1) \<Rightarrow>
                if \<not> go then Some (False, offset, r1)
                else encode_blocks ps fs unit (offset + fs * unit) (r1\<lparr>ar_nsamples := ar_nsamples r1 - fs, ar_pts := ar_pts r1 + fs\<rparr>)))"
  by auto
termination by (relation "measure (\<lambda>(ps, fs, unit, offset, r). nat (ar_nsamples r))") (auto dest!: encode_block_keeps)

declare encode_blocks.simps [simp del]

definition aencoder_pass :: "aenc_pass \<Rightarrow> int \<Rightarrow> int \<Rightarrow> 'w aenc_run \<Rightarrow> (bool \<times> 'w aenc_run) option" where
  "aencoder_pass ps fs unit r =
     (if \<not> ae_started (ar_enc r) \<or> encoder_running (ar_core r) = 0 then Some (False, r)
      else do {
        (n, tl, ab) \<leftarrow> audio_source_buffer_read (ap_waited ps) (if ar_purged r then ar_ab r else audio_source_buffer_purge (ar_ab r))
           (drop (nat (ar_samplebytes r)) (ar_samples r)) (fs - ar_nsamples r);
        (let r = r\<lparr>ar_purged := True, ar_ab := ab, ar_samples := take (nat (ar_samplebytes r)) (ar_samples r) @ tl\<rparr>
         in if n \<le> 0 then Some (True, r)
            else do {
              (go, offset, r) \<leftarrow> encode_blocks ps fs unit 0 ((audio_pts ps n r)\<lparr>ar_nsamples := ar_nsamples r + n, ar_samplebytes := ar_samplebytes r + n * unit\<rparr>);
              (if \<not> go then Some (False, r)
               else if offset > 0 then do {
                 xs \<leftarrow> (if ar_samplebytes r - offset > 0 then c_read (ar_samples r) offset (ar_samplebytes r - offset) else Some []);
                 b \<leftarrow> c_write (ar_samples r) 0 xs;
                 Some (True, r\<lparr>ar_samples := b, ar_samplebytes := ar_samplebytes r - offset\<rparr>) }
               else Some (True, r)) }) })"

text \<open>The start of the thread: whether it enters its loop, the sound sources, and its state. \<open>p\<close> and \<open>abmem\<close> are the memory for its buffer, \<open>smem\<close> that for the
  samples, \<open>bmem\<close> whether there is memory for packets.\<close>

definition aencoder_thread_end :: "int \<Rightarrow> nat \<Rightarrow> audio_state \<Rightarrow> 'w aenc_run \<Rightarrow> (audio_state \<times> 'w aenc_run) option" where
  "aencoder_thread_end tid p as r = do {
     as \<leftarrow> audio_source_buffer_deinit p (audio_source_client_unregister tid as);
     (x, s) \<leftarrow> aencoder_deinit (ar_enc r);
     Some (as, r\<lparr>ar_enc := s\<rparr>) }"

definition aencoder_thread_start :: "int \<Rightarrow> nat \<Rightarrow> (int \<Rightarrow> byte list option) \<Rightarrow> (int \<Rightarrow> byte list option) \<Rightarrow> bool \<Rightarrow> audio_state \<Rightarrow> 'w aenc_run \<Rightarrow> (bool \<times> audio_state \<times> 'w aenc_run) option" where
  "aencoder_thread_start tid p abmem smem bmem as r = do {
     a \<leftarrow> ae_encoder (ar_enc r);
     x \<leftarrow> ae_heap (ar_enc r) a;
     samplesize \<leftarrow> audio_bytes (ax_frame_size x) (gChannels as) (gBitspersample as);
     (b, as) \<leftarrow> audio_source_buffer_init p abmem as;
     (let r = r\<lparr>ar_stamps := snd (encoder_pts_clear (ar_stamps r) (nat (ae_rtp_id (ar_enc r))))\<rparr>;
          as' = audio_source_client_register tid b as
      in if b = 0 then Some (False, as, r)
         else (case smem samplesize of
                 Some m \<Rightarrow>
                   if bmem then do {
                     ab \<leftarrow> ab_heap as' b;
                     Some (True, as', r\<lparr>ar_ab := ab, ar_samples := m, ar_nsamples := 0, ar_samplebytes := 0, ar_pts := -1, ar_sync := 0, ar_offset := 0, ar_purged := False\<rparr>) }
                   else do { (as, r) \<leftarrow> aencoder_thread_end tid b as' r; Some (False, as, r) }
               | None \<Rightarrow> do { (as, r) \<leftarrow> aencoder_thread_end tid b as' r; Some (False, as, r) })) }"

section \<open>Properties\<close>

text \<open>The capture thread and the thread of the encoder, in any order: whether the encoder still runs, the sound that its buffer accepted, and the state.\<close>

datatype sound_step = Capture "byte list option" int | Encode aenc_pass

primrec sound_run :: "sound_step list \<Rightarrow> int \<Rightarrow> int \<Rightarrow> 'w aenc_run \<Rightarrow> (bool \<times> byte list \<times> 'w aenc_run) option" where
  "sound_run [] fs unit r = Some (True, [], r)"
| "sound_run (st # ss) fs unit r = (case st of
       Capture data n \<Rightarrow> do {
         ab \<leftarrow> audio_source_buffer_fill_one (ar_ab r) data n;
         (go, acc, r') \<leftarrow> sound_run ss fs unit (r\<lparr>ar_ab := ab\<rparr>);
         Some (go, if bframes ab = bframes (ar_ab r) then acc else fill_bytes data (n * unit) @ acc, r') }
     | Encode ps \<Rightarrow> do {
         (go, r) \<leftarrow> aencoder_pass ps fs unit r;
         (if go then sound_run ss fs unit r else Some (False, [], r)) })"

definition step_ok :: "audio_buffer \<Rightarrow> sound_step \<Rightarrow> bool" where
  "step_ok ab st \<longleftrightarrow> (case st of Capture data n \<Rightarrow> aop_ok ab (AFill data n) | Encode ps \<Rightarrow> ap_waited ps = (\<lambda>x. x))"

definition aenc_inv :: "int \<Rightarrow> int \<Rightarrow> 'w aenc_run \<Rightarrow> bool" where
  "aenc_inv fs unit r \<longleftrightarrow> audio_ok (ar_ab r) \<and> frame_bytes (ar_ab r) = unit \<and> 0 < fs \<and> ae_swr (ar_enc r) = None \<and> ae_source_size (ar_enc r) = fs * unit \<and>
     0 \<le> ar_nsamples r \<and> ar_nsamples r < fs \<and> ar_samplebytes r = ar_nsamples r * unit \<and> int (length (ar_samples r)) = fs * unit \<and> ar_purged r \<and>
     (case sinkserver (ar_core r) of None \<Rightarrow> True | Some m \<Rightarrow> m_send_packet m \<noteq> None)"

text \<open>What was captured and not yet given to the codec.\<close>

definition waiting_sound :: "'w aenc_run \<Rightarrow> byte list" where
  "waiting_sound r = take (nat (ar_samplebytes r)) (ar_samples r) @ audio_content (ar_ab r)"

lemma read_length: "audio_source_buffer_read w ab buf f = Some (n, buf', ab') \<Longrightarrow> length buf' = length buf"
  by (auto simp: audio_source_buffer_read_def Let_def dest!: c_write_length split: if_splits)

text \<open>What neither sending nor the time stamps touch.\<close>

definition aenc_data :: "'w aenc_run \<Rightarrow> aenc_state \<times> 'w ga_module option \<times> audio_buffer \<times> byte list \<times> int \<times> int \<times> bool" where
  "aenc_data r = (ar_enc r, sinkserver (ar_core r), ar_ab r, ar_samples r, ar_nsamples r, ar_samplebytes r, ar_purged r)"

lemma send_audio_spec:
  assumes "case sinkserver (ar_core r) of None \<Rightarrow> True | Some m \<Rightarrow> m_send_packet m \<noteq> None"
  shows "\<exists>go r'. send_audio ps p r = Some (go, r') \<and> aenc_data r' = aenc_data r \<and> ar_blocks r' = ar_blocks r"
proof -
  obtain ppts pkt where p: "p = (ppts, pkt)" by (cases p)
  obtain tv st where t: "encoder_ptv_get (ar_stamps r) (nat (ae_rtp_id (ar_enc r))) (case ppts of None \<Rightarrow> ar_pts r | Some x \<Rightarrow> x) (audio_samplerate (ar_conf r)) = (tv, st)"
    by fastforce
  let ?tv = "Some (case tv of None \<Rightarrow> ap_later ps | Some tv \<Rightarrow> tv)" and ?pts = "case ppts of None \<Rightarrow> ar_pts r | Some x \<Rightarrow> x"
  have "encoder_send_packet (ar_core r) (ar_sink r) (ae_rtp_id (ar_enc r)) pkt ?pts ?tv \<noteq> None"
    using assms by (auto simp: encoder_send_packet_def split: option.splits)
  then obtain res w where "encoder_send_packet (ar_core r) (ar_sink r) (ae_rtp_id (ar_enc r)) pkt ?pts ?tv = Some (res, w)" by auto
  then show ?thesis by (simp add: send_audio_def p t Let_def aenc_data_def)
qed

lemma encode_block_spec:
  assumes "ae_swr (ar_enc r) = None" "ae_source_size (ar_enc r) = int (length (ar_samples r))" "case sinkserver (ar_core r) of None \<Rightarrow> True | Some m \<Rightarrow> m_send_packet m \<noteq> None"
  shows "\<exists>go r'. encode_block ps 0 r = Some (go, r') \<and> aenc_data r' = aenc_data r \<and> ar_blocks r' = ar_blocks r @ [(ar_pts r, ar_samples r)]"
proof -
  have b: "block_bytes ps 0 r = Some (ar_samples r, r)" using assms(1,2) by (simp add: block_bytes_def c_read_def)
  let ?r = "r\<lparr>ar_stamps := snd (encoder_pts_put (ar_stamps r) (nat (ae_rtp_id (ar_enc r))) (ar_pts r) (ap_now ps)), ar_blocks := ar_blocks r @ [(ar_pts r, ar_samples r)]\<rparr>"
  have d: "aenc_data ?r = aenc_data r" by (simp add: aenc_data_def)
  have s: "\<exists>go r'. send_audio ps p ?r = Some (go, r') \<and> aenc_data r' = aenc_data ?r \<and> ar_blocks r' = ar_blocks ?r" for p
    by (rule send_audio_spec) (use assms(3) in simp)
  show ?thesis
  proof (cases "ap_encode ps (ar_samples r)")
    case (Some out)
    then show ?thesis using s [of "the out"] d by (cases out) (auto simp: encode_block_def b Let_def)
  qed (simp add: encode_block_def b Let_def d exI [of _ False])
qed

lemma audio_pts_keeps: "aenc_data (audio_pts ps n r) = aenc_data r \<and> ar_blocks (audio_pts ps n r) = ar_blocks r"
  by (auto simp: audio_pts_def aenc_data_def encoder_pts_sync_def Let_def split: prod.splits if_splits)

lemma pass_stream:
  assumes "aenc_inv fs unit r" "ap_waited ps = (\<lambda>x. x)"
  shows "\<exists>go r'. aencoder_pass ps fs unit r = Some (go, r') \<and> ab_channels (ar_ab r') = ab_channels (ar_ab r) \<and> ab_bits (ar_ab r') = ab_bits (ar_ab r) \<and>
    (\<exists>more rest. ar_blocks r' = ar_blocks r @ more \<and> (\<forall>b \<in> set more. int (length (snd b)) = fs * unit) \<and>
       waiting_sound r = concat (map snd more) @ rest \<and> (go \<longrightarrow> aenc_inv fs unit r' \<and> rest = waiting_sound r'))"
proof (cases "\<not> ae_started (ar_enc r) \<or> encoder_running (ar_core r) = 0")
  case True
  then show ?thesis by (intro exI [of _ False] exI [of _ r]) (auto simp: aencoder_pass_def intro!: exI [of _ "[]"])
next
  case False
  note inv = assms(1) [unfolded aenc_inv_def]
  let ?sb = "nat (ar_samplebytes r)" and ?f = "fs - ar_nsamples r"
  have fb: "0 < unit" using inv frame_bytes_pos by blast
  have sb: "0 \<le> ar_samplebytes r" "ar_samplebytes r \<le> int (length (ar_samples r))" using inv fb by (simp_all add: mult_right_mono)
  have room: "?f * frame_bytes (ar_ab r) \<le> int (length (drop ?sb (ar_samples r)))" "0 < ?f"
  proof -
    have "int (length (drop ?sb (ar_samples r))) = int (length (ar_samples r)) - ar_samplebytes r" using sb by (simp add: of_nat_diff)
    then show "?f * frame_bytes (ar_ab r) \<le> int (length (drop ?sb (ar_samples r)))" using inv by (simp add: left_diff_distrib)
  qed (use inv in simp)
  define n where "n = min ?f (bframes (ar_ab r))"
  obtain tl ab where rd: "audio_source_buffer_read (\<lambda>x. x) (ar_ab r) (drop ?sb (ar_samples r)) ?f = Some (n, tl, ab)" "audio_ok ab"
    "ab_channels ab = ab_channels (ar_ab r)" "ab_bits ab = ab_bits (ar_ab r)" "audio_content (ar_ab r) = take (nat (n * unit)) tl @ audio_content ab"
    using read_spec [OF _ room] inv unfolding n_def by blast
  have lt: "length tl = length (ar_samples r) - ?sb" using read_length [OF rd(1)] by simp
  have n: "0 \<le> n" "n \<le> ?f" using inv by (auto simp: n_def audio_ok_def)
  have fab: "frame_bytes ab = unit" using inv rd(3,4) by (simp add: frame_bytes_def)
  let ?sm = "take ?sb (ar_samples r) @ tl"
  let ?r1 = "r\<lparr>ar_purged := True, ar_ab := ab, ar_samples := ?sm\<rparr>"
  have ls: "length ?sm = length (ar_samples r)" using lt sb by simp
  have pass: "aencoder_pass ps fs unit r = (if n \<le> 0 then Some (True, ?r1)
      else do {
        (go, offset, r) \<leftarrow> encode_blocks ps fs unit 0 ((audio_pts ps n ?r1)\<lparr>ar_nsamples := ar_nsamples r + n, ar_samplebytes := ar_samplebytes r + n * unit\<rparr>);
        (if \<not> go then Some (False, r)
         else if offset > 0 then do {
           xs \<leftarrow> (if ar_samplebytes r - offset > 0 then c_read (ar_samples r) offset (ar_samplebytes r - offset) else Some []);
           b \<leftarrow> c_write (ar_samples r) 0 xs;
           Some (True, r\<lparr>ar_samples := b, ar_samplebytes := ar_samplebytes r - offset\<rparr>) }
         else Some (True, r)) })"
    using False inv rd(1) assms(2) audio_pts_keeps [of ps n ?r1] unfolding aencoder_pass_def by (simp add: Let_def aenc_data_def)
  have w: "waiting_sound r = take ?sb (ar_samples r) @ take (nat (n * unit)) tl @ audio_content ab" by (simp add: waiting_sound_def rd(5))
  have tk: "take (nat (ar_samplebytes r + n * unit)) ?sm = take ?sb (ar_samples r) @ take (nat (n * unit)) tl"
  proof -
    have "nat (ar_samplebytes r + n * unit) = ?sb + nat (n * unit)" using sb n(1) fb by (simp add: nat_add_distrib)
    moreover have "length (take ?sb (ar_samples r)) = ?sb" using sb by simp
    ultimately show ?thesis by simp
  qed
  show ?thesis
  proof (cases "n \<le> 0")
    case True
    then have "n = 0" using n(1) by simp
    then have "waiting_sound ?r1 = waiting_sound r" using tk w by (simp add: waiting_sound_def)
    moreover have "aenc_inv fs unit ?r1" using inv rd(2) fab ls by (simp add: aenc_inv_def)
    ultimately show ?thesis using True rd(3,4) unfolding pass by (intro exI [of _ True] exI [of _ ?r1]) (auto intro!: exI [of _ "[]"])
  next
    case pos: False
    let ?r2 = "(audio_pts ps n ?r1)\<lparr>ar_nsamples := ar_nsamples r + n, ar_samplebytes := ar_samplebytes r + n * unit\<rparr>"
    have d2: "aenc_data ?r2 = (ar_enc r, sinkserver (ar_core r), ab, ?sm, ar_nsamples r + n, ar_samplebytes r + n * unit, True)" "ar_blocks ?r2 = ar_blocks r"
      using audio_pts_keeps [of ps n ?r1] by (simp_all add: aenc_data_def)
    have sb2: "ar_samplebytes r + n * unit = (ar_nsamples r + n) * unit" using inv by (simp add: distrib_right)
    show ?thesis
    proof (cases "ar_nsamples r + n < fs")
      case True
      then have e: "encode_blocks ps fs unit 0 ?r2 = Some (True, 0, ?r2)" by (simp add: encode_blocks.simps)
      have "aenc_inv fs unit ?r2" using inv True n(1) rd(2) fab ls sb2 d2 by (simp add: aenc_inv_def aenc_data_def)
      moreover have "waiting_sound ?r2 = waiting_sound r" using d2 w tk by (simp add: waiting_sound_def aenc_data_def)
      ultimately show ?thesis using pos e rd(3,4) d2 unfolding pass
        by (intro exI [of _ True] exI [of _ ?r2]) (auto simp: aenc_data_def intro!: exI [of _ "[]"])
    next
      case False
      then have full: "ar_nsamples r + n = fs" using n(2) by simp
      have all: "take ?sb (ar_samples r) @ take (nat (n * unit)) tl = ?sm"
      proof -
        have "nat (ar_samplebytes r + n * unit) = length (ar_samples r)" using sb2 full inv by (metis nat_int)
        then have "length ?sm \<le> nat (ar_samplebytes r + n * unit)" using ls by simp
        then have "take (nat (ar_samplebytes r + n * unit)) ?sm = ?sm" by (rule take_all)
        then show ?thesis by (rule trans [OF tk [symmetric]])
      qed
      have src: "ae_swr (ar_enc ?r2) = None" "ae_source_size (ar_enc ?r2) = int (length (ar_samples ?r2))"
        "case sinkserver (ar_core ?r2) of None \<Rightarrow> True | Some m \<Rightarrow> m_send_packet m \<noteq> None" using d2 inv ls by (simp_all add: aenc_data_def)
      obtain go r3 where e: "encode_block ps 0 ?r2 = Some (go, r3)" "aenc_data r3 = aenc_data ?r2" "ar_blocks r3 = ar_blocks r @ [(ar_pts ?r2, ?sm)]"
        using encode_block_spec [OF src, of ps] d2 by (auto simp: aenc_data_def)
      let ?r4 = "r3\<lparr>ar_nsamples := ar_nsamples r3 - fs, ar_pts := ar_pts r3 + fs\<rparr>"
      have ns: "ar_nsamples r3 = fs" "ar_samplebytes r3 = fs * unit" using e(2) d2 full sb2 by (auto simp: aenc_data_def)
      have eb: "encode_blocks ps fs unit 0 ?r2 = (if go then Some (True, fs * unit, ?r4) else Some (False, 0, r3))"
        using e(1) full ns inv by (subst encode_blocks.simps) (auto simp: encode_blocks.simps)
      let ?r5 = "?r4\<lparr>ar_samples := ar_samples r3, ar_samplebytes := 0\<rparr>"
      have res: "aencoder_pass ps fs unit r = Some (go, if go then ?r5 else r3)"
        unfolding pass using pos eb ns inv fb by (auto simp: c_write_def)
      have "aenc_inv fs unit ?r5" using inv rd(2) fab ls e(2) d2 ns by (auto simp: aenc_inv_def aenc_data_def)
      moreover have "waiting_sound ?r5 = audio_content ab" using e(2) d2 by (simp add: waiting_sound_def aenc_data_def)
      moreover have "waiting_sound r = ?sm @ audio_content ab" using w all by simp
      moreover have "int (length ?sm) = fs * unit" using ls inv by simp
      moreover have "ar_ab r3 = ab" using e(2) d2 by (simp add: aenc_data_def)
      ultimately show ?thesis using res e(3) rd(3,4)
        by (intro exI [of _ go] exI [of _ "if go then ?r5 else r3"]) (auto intro!: exI [of _ "[(ar_pts ?r2, ?sm)]"])
    qed
  qed
qed

lemma step_ok_cong: "ab_channels a = ab_channels b \<Longrightarrow> ab_bits a = ab_bits b \<Longrightarrow> step_ok a = step_ok b"
  by (rule ext) (simp add: step_ok_def aop_ok_cong [of a b] split: sound_step.splits)

text \<open>C11. The sound that is captured is the sound that is encoded: in any order of captures and rounds of the encoder, without conversion, every buffer access stays inside, the
  blocks given to the codec have its size, and put together they are, without gap or repetition, the sound that the buffer accepted, up to what still
  waits in the buffers while the encoder runs.\<close>

theorem captured_sound_is_encoded:
  assumes "aenc_inv fs unit r" "\<forall>st \<in> set ss. step_ok (ar_ab r) st"
  shows "\<exists>go acc r' more rest. sound_run ss fs unit r = Some (go, acc, r') \<and> ar_blocks r' = ar_blocks r @ more \<and> (\<forall>b \<in> set more. int (length (snd b)) = fs * unit) \<and>
    waiting_sound r @ acc = concat (map snd more) @ rest \<and> (go \<longrightarrow> rest = waiting_sound r')"
  using assms
proof (induction ss arbitrary: r)
  case Nil
  then show ?case by (auto intro!: exI [of _ "[]"])
next
  case (Cons st ss)
  show ?case
  proof (cases st)
    case (Capture data n)
    have a: "audio_ok (ar_ab r)" "data_ok data (n * frame_bytes (ar_ab r))" "0 < n" "audio_valid (ar_ab r) n"
      using Cons.prems Capture by (auto simp: step_ok_def aop_ok_def aenc_inv_def)
    obtain ab where f: "audio_source_buffer_fill_one (ar_ab r) data n = Some ab" "audio_ok ab" "ab_channels ab = ab_channels (ar_ab r)" "ab_bits ab = ab_bits (ar_ab r)"
      "bframes ab = bframes (ar_ab r) + n \<and> audio_content ab = audio_content (ar_ab r) @ fill_bytes data (n * frame_bytes (ar_ab r)) \<or> ab = ar_ab r"
      using fill_spec [OF a] by (auto split: if_splits)
    let ?r = "r\<lparr>ar_ab := ab\<rparr>" and ?new = "if bframes ab = bframes (ar_ab r) then [] else fill_bytes data (n * unit)"
    have inv: "aenc_inv fs unit ?r" using Cons.prems(1) f(2-4) by (simp add: aenc_inv_def frame_bytes_def)
    have "\<forall>st \<in> set ss. step_ok (ar_ab ?r) st" using Cons.prems(2) step_ok_cong [OF f(3,4)] by simp
    from Cons.IH [OF inv this] obtain go acc r' more rest where r': "sound_run ss fs unit ?r = Some (go, acc, r')" "ar_blocks r' = ar_blocks r @ more"
      "\<forall>b \<in> set more. int (length (snd b)) = fs * unit" "waiting_sound ?r @ acc = concat (map snd more) @ rest" "go \<longrightarrow> rest = waiting_sound r'" by auto
    have "waiting_sound ?r = waiting_sound r @ ?new" using f(5) a(3) Cons.prems(1) by (auto simp: waiting_sound_def aenc_inv_def)
    then show ?thesis using r' f(1) Capture by (intro exI [of _ go] exI [of _ "?new @ acc"] exI [of _ r'] exI [of _ more] exI [of _ rest]) auto
  next
    case (Encode ps)
    then have "ap_waited ps = (\<lambda>x. x)" using Cons.prems(2) by (simp add: step_ok_def)
    from pass_stream [OF Cons.prems(1) this] obtain go r1 more rest where p: "aencoder_pass ps fs unit r = Some (go, r1)" "ab_channels (ar_ab r1) = ab_channels (ar_ab r)"
      "ab_bits (ar_ab r1) = ab_bits (ar_ab r)" "ar_blocks r1 = ar_blocks r @ more" "\<forall>b \<in> set more. int (length (snd b)) = fs * unit"
      "waiting_sound r = concat (map snd more) @ rest" "go \<longrightarrow> aenc_inv fs unit r1 \<and> rest = waiting_sound r1" by blast
    show ?thesis
    proof (cases go)
      case True
      have "\<forall>st \<in> set ss. step_ok (ar_ab r1) st" using Cons.prems(2) step_ok_cong [OF p(2,3)] by simp
      from Cons.IH [OF _ this] p(7) True obtain go2 acc r' more2 rest2 where r': "sound_run ss fs unit r1 = Some (go2, acc, r')" "ar_blocks r' = ar_blocks r1 @ more2"
        "\<forall>b \<in> set more2. int (length (snd b)) = fs * unit" "waiting_sound r1 @ acc = concat (map snd more2) @ rest2" "go2 \<longrightarrow> rest2 = waiting_sound r'" by blast
      then show ?thesis using p True Encode
        by (intro exI [of _ go2] exI [of _ acc] exI [of _ r'] exI [of _ "more @ more2"] exI [of _ rest2]) auto
    next
      case False
      then show ?thesis using p Encode by (intro exI [of _ False] exI [of _ "[]"] exI [of _ r1] exI [of _ more] exI [of _ rest]) simp
    qed
  qed
qed

text \<open>A failed set-up is taken for a success: when the codec opens but the conversion of its samples cannot be set up, the first initialisation
  fails without undoing anything, since the clean-up only works for an encoder that is initialised; the next one then finds the codec and reports success, and the
  first block that the thread converts uses the missing resampler or buffer.\<close>

theorem aencoder_init_twice:
  assumes "\<not> ae_initialized s" "ae_encoder s = None" "audio_encoder_codec conf \<noteq> 0" "al_alloc lib = Some a" "al_open lib = (\<lambda>x. Some fs)" "\<not> al_aac lib (audio_encoder_codec conf)"
    "audio_device_format conf \<noteq> audio_codec_format conf" "al_swr_alloc lib" "\<not> al_swr_init lib \<or> \<not> al_convbuf lib" "ae_convbuf s = None"
  shows "\<exists>s1 s2. aencoder_init lib channels conf s = Some (-1, s1) \<and> aencoder_init lib2 channels conf s1 = Some (0, s2) \<and> \<not> ae_initialized s2 \<and>
    ae_encoder s2 = Some a \<and> block_bytes ps offset (r\<lparr>ar_enc := s2\<rparr>) = None"
  using assms
  by (cases "al_swr_init lib")
    (auto simp: aencoder_init_def setup_encoders_def ga_avcodec_aencoder_init_def setup_conversion_def aencoder_deinit_def block_bytes_def Let_def split: Option.bind_splits)

section \<open>Examples\<close>

definition example_alib :: audio_lib where
  "example_alib = \<lparr>al_alloc = Some 3, al_alloc2 = None, al_open = (\<lambda>x. Some 4), al_aac = (\<lambda>k. False), al_bufsize = (\<lambda>ch n fmt. ch * n * 2), al_swr_alloc = True, al_swr_init = False, al_convbuf = True\<rparr>"

definition example_aenc :: aenc_state where
  "example_aenc = \<lparr>ae_initialized = False, ae_started = False, ae_thread = False, ae_rtp_id = -1, ae_encoder = None, ae_sdp = None, ae_heap = (\<lambda>_. None),
     ae_source_size = -1, ae_encoder_size = -1, ae_swr = None, ae_convbuf = None\<rparr>"

definition example_aconf :: rtspconf where
  "example_aconf = rtspconf_init\<lparr>audio_encoder_codec := 86, audio_device_format := 1, audio_codec_format := 8\<rparr>"

definition example_arun :: "enc_call list aenc_run" where
  "example_arun = \<lparr>ar_enc = example_aenc\<lparr>ae_started := True, ae_rtp_id := 1, ae_encoder := Some 3, ae_source_size := 8\<rparr>, ar_conf = rtspconf_init, ar_core = example_core, ar_stamps = replicate 8 [],
     ar_sink = [], ar_ab = example_audio, ar_samples = replicate 8 0, ar_nsamples = 0, ar_samplebytes = 0, ar_pts = -1, ar_sync = 0, ar_offset = 0, ar_purged = True, ar_blocks = []\<rparr>"

definition example_apass :: aenc_pass where
  "example_apass = \<lparr>ap_waited = (\<lambda>x. x), ap_now = \<lparr>tv_sec = 1, tv_usec = 0\<rparr>, ap_elapsed = 0, ap_scale = (\<lambda>us rate. 0), ap_convert = (\<lambda>x. x), ap_encode = (\<lambda>x. Some None),
     ap_later = \<lparr>tv_sec = 1, tv_usec = 0\<rparr>\<rparr>"

theorem captured_sound_is_encoded_witness:
  "\<exists>go acc r' rest. sound_run [Capture (Some [1, 2, 3, 4]) 1, Encode example_apass, Capture (Some [5, 6, 7, 8, 9, 10, 11, 12]) 2, Encode example_apass] 2 4 example_arun = Some (go, acc, r') \<and>
     (\<forall>b \<in> set (ar_blocks r'). length (snd b) = 8) \<and> acc = concat (map snd (ar_blocks r')) @ rest"
proof -
  let ?ss = "[Capture (Some [1, 2, 3, 4]) 1, Encode example_apass, Capture (Some [5, 6, 7, 8, 9, 10, 11, 12]) 2, Encode example_apass]"
  have i: "aenc_inv 2 4 example_arun" using example_audio_ok by (simp add: aenc_inv_def example_arun_def example_aenc_def example_core_def frame_bytes_def example_audio_def)
  have o: "\<forall>st \<in> set ?ss. step_ok (ar_ab example_arun) st"
    by (simp add: step_ok_def aop_ok_def audio_valid_def data_ok_def frame_bytes_def example_arun_def example_audio_def example_apass_def)
  have w: "waiting_sound example_arun = []" "ar_blocks example_arun = []" by (simp_all add: waiting_sound_def example_arun_def audio_content_def example_audio_def)
  from captured_sound_is_encoded [OF i o] obtain go acc r' more rest where r: "sound_run ?ss 2 4 example_arun = Some (go, acc, r')" "ar_blocks r' = ar_blocks example_arun @ more"
    "\<forall>b \<in> set more. int (length (snd b)) = 2 * 4" "waiting_sound example_arun @ acc = concat (map snd more) @ rest" by blast
  then have "\<forall>b \<in> set (ar_blocks r'). length (snd b) = 8" "acc = concat (map snd (ar_blocks r')) @ rest" using w by auto
  then show ?thesis using r(1) by blast
qed

theorem aencoder_init_twice_witness:
  "\<exists>s1 s2. aencoder_init example_alib 1 example_aconf example_aenc = Some (-1, s1) \<and> aencoder_init example_alib 1 example_aconf s1 = Some (0, s2) \<and> \<not> ae_initialized s2 \<and>
     block_bytes example_apass 0 (example_arun\<lparr>ar_enc := s2\<rparr>) = None"
proof -
  have "\<not> ae_initialized example_aenc" "ae_encoder example_aenc = None" "audio_encoder_codec example_aconf \<noteq> 0" "al_alloc example_alib = Some 3" "al_open example_alib = (\<lambda>x. Some 4)"
    "\<not> al_aac example_alib (audio_encoder_codec example_aconf)" "audio_device_format example_aconf \<noteq> audio_codec_format example_aconf" "al_swr_alloc example_alib"
    "\<not> al_swr_init example_alib \<or> \<not> al_convbuf example_alib" "ae_convbuf example_aenc = None"
    by (simp_all add: example_aenc_def example_aconf_def example_alib_def)
  from aencoder_init_twice [OF this, of 1 example_alib example_apass 0 example_arun] show ?thesis by blast
qed

end
