(* ===== verification/FilterYuv.thy ===== *)
theory FilterYuv
  imports ColorCode VConverter VSource
begin

text \<open>
  The colour filter between the video source and the encoder, \<open>module/filter-rgb2yuv/filter-rgb2yuv.cpp\<close>:
  per channel a thread that loads the frames of the source pipe, converts them to planar YUV with
  a cached converter, embeds the colour code and stores them in the destination pipe. The scaling
  library is an argument: from a context, the memory of the source frame, its planes (\<open>None\<close> is NULL),
  their strides and the height it gives the three planes of the result, packed; a context that was freed is
  remembered, and using one is undefined (\<open>None\<close>). \<open>exit(-1)\<close> is a result of its own.
\<close>

section \<open>State\<close>

record filter_state =
  filter_initialized :: int
  filter_started :: int
  filter_tid :: "nat list"
  filter_savefp :: "byte list option"
  fl_code :: colorcode
  fl_conv :: converters
  fl_freed :: "nat list"
  fl_src :: vsource_sys

type_synonym sws = "nat \<Rightarrow> byte list \<Rightarrow> int option list \<Rightarrow> int list \<Rightarrow> int \<Rightarrow> (byte list \<times> byte list \<times> byte list) option"

definition FILTER_POOLSIZE :: nat where "FILTER_POOLSIZE = 8"

section \<open>Initialisation\<close>

text \<open>The default converter of a channel, from the configured format or else RGBA; 0 is NULL.\<close>

definition default_converter :: "(int \<Rightarrow> vconvcfg \<Rightarrow> nat) \<Rightarrow> ga_conf \<Rightarrow> int \<Rightarrow> int \<Rightarrow> int \<Rightarrow> int \<Rightarrow> converters \<Rightarrow> (nat \<times> converters) option" where
  "default_converter getContext conf inputW inputH outputW outputH m = do {
     pf \<leftarrow> ga_conf_readv conf ''filter-source-pixelformat'' 64;
     (let create = (\<lambda>k fmt m. create_frame_converter (getContext k) m inputW inputH fmt outputW outputH AV_PIX_FMT_YUV420P);
          (swsctx, m) = (case pf of
             None \<Rightarrow> (0, m)
           | Some pixelfmt \<Rightarrow>
               if strcaseeq ''rgba'' pixelfmt then create 0 AV_PIX_FMT_RGBA m
               else if strcaseeq ''bgra'' pixelfmt then create 0 AV_PIX_FMT_BGRA m
               else if strcaseeq ''yuv420p'' pixelfmt then create 0 AV_PIX_FMT_YUV420P m
               else (0, m))
      in Some (if swsctx = 0 then create 1 AV_PIX_FMT_RGBA m else (swsctx, m))) }"

text \<open>
  One round of the loop: the flag is false on \<open>goto init_failed\<close>; \<open>src\<close> and \<open>dst\<close> are the formatted
  names. \<open>dsts\<close> collects the pipes created.
\<close>

definition filter_init_channel :: "setup_env \<Rightarrow> (int \<Rightarrow> vconvcfg \<Rightarrow> nat) \<Rightarrow> ga_conf \<Rightarrow> (nat \<Rightarrow> string) \<Rightarrow> (nat \<Rightarrow> string) \<Rightarrow> nat \<Rightarrow>
    filter_state \<times> nat list \<Rightarrow> (bool \<times> filter_state \<times> nat list) option" where
  "filter_init_channel e getContext conf src dst iid sd =
     (case sd of (s, dsts) \<Rightarrow>
        if dpipe_lookup (vs_pipes (fl_src s)) (src iid) = None then Some (False, s, dsts)
        else do {
          iw \<leftarrow> video_source_curr_width (fl_src s) (int iid);
          ih \<leftarrow> video_source_curr_height (fl_src s) (int iid);
          ow \<leftarrow> video_source_out_width (fl_src s) (int iid);
          oh \<leftarrow> video_source_out_height (fl_src s) (int iid);
          (swsctx, m) \<leftarrow> default_converter getContext conf iw ih ow oh (fl_conv s);
          (let s = s\<lparr>fl_conv := m\<rparr>
           in if swsctx = 0 then Some (False, s, dsts)
              else do {
                n \<leftarrow> video_source_mem_size (fl_src s) (int iid);
                sz \<leftarrow> c_int (sizeof_frame + n);
                (p, pipes) \<leftarrow> dpipe_create (se_pipe e iid) (se_pipename e iid) (se_buffer e iid) (se_malloc e iid)
                   (int iid) (Some (dst iid)) (int FILTER_POOLSIZE) sz (vs_pipes (fl_src s));
                (let s = s\<lparr>fl_src := (fl_src s)\<lparr>vs_pipes := pipes\<rparr>\<rparr>
                 in case p of
                      None \<Rightarrow> Some (False, s, dsts)
                    | Some a \<Rightarrow> do {
                        d \<leftarrow> ds_pipes pipes a;
                        (ok, fs) \<leftarrow> init_frames FILTER_POOLSIZE (gVsource (fl_src s)) (int iid) (se_memory e) (ds_heap pipes) (dp_in d) (vs_frames (fl_src s));
                        (let s = s\<lparr>fl_src := (fl_src s)\<lparr>vs_frames := fs\<rparr>\<rparr>
                         in if \<not> ok then Some (False, s, dsts @ [a])
                            else do {
                              (nm, v) \<leftarrow> video_source_add_pipename (se_name e iid) (fl_src s) (int iid) (Some (dst iid));
                              Some (True, s\<lparr>fl_src := v\<rparr>, dsts @ [a]) }) }) }) })"

primrec filter_init_channels :: "setup_env \<Rightarrow> (nat \<Rightarrow> int \<Rightarrow> vconvcfg \<Rightarrow> nat) \<Rightarrow> ga_conf \<Rightarrow> (nat \<Rightarrow> string) \<Rightarrow> (nat \<Rightarrow> string) \<Rightarrow> nat \<Rightarrow>
    filter_state \<Rightarrow> (bool \<times> filter_state \<times> nat list) option" where
  "filter_init_channels e getContext conf src dst 0 s = Some (True, s, [])"
| "filter_init_channels e getContext conf src dst (Suc n) s = do {
     (ok, s, dsts) \<leftarrow> filter_init_channels e getContext conf src dst n s;
     (if ok then filter_init_channel e (getContext n) conf src dst n (s, dsts) else Some (False, s, dsts)) }"

primrec destroy_pipes :: "nat list \<Rightarrow> dpipe_sys \<Rightarrow> dpipe_sys option" where
  "destroy_pipes [] s = Some s"
| "destroy_pipes (a # as) s = do { (r, s) \<leftarrow> dpipe_destroy FILTER_POOLSIZE s (Some a); destroy_pipes as s }"

text \<open>\<open>open\<close> tells whether the file for saving can be opened.\<close>

definition filter_RGB2YUV_init :: "setup_env \<Rightarrow> (nat \<Rightarrow> int \<Rightarrow> vconvcfg \<Rightarrow> nat) \<Rightarrow> (string \<Rightarrow> bool) \<Rightarrow> ga_conf \<Rightarrow> (nat \<Rightarrow> string) \<Rightarrow> (nat \<Rightarrow> string) \<Rightarrow>
    filter_state \<Rightarrow> (int \<times> filter_state) option" where
  "filter_RGB2YUV_init e getContext open conf src dst s =
     (if filter_initialized s \<noteq> 0 then Some (0, s)
      else do {
        sf \<leftarrow> ga_conf_readv conf ''save-yuv-image'' 128;
        (let s = (case sf of None \<Rightarrow> s | Some f \<Rightarrow> s\<lparr>filter_savefp := (if open f then Some [] else None)\<rparr>)
         in do {
           (r, cc) \<leftarrow> vsource_embed_colorcode_init conf 0 (fl_code s);
           (ok, s, dsts) \<leftarrow> filter_init_channels e getContext conf src dst (nat (video_source_channels (fl_src s))) (s\<lparr>fl_code := cc\<rparr>);
           (if ok then Some (0, s\<lparr>filter_initialized := 1\<rparr>)
            else do {
              pipes \<leftarrow> destroy_pipes dsts (vs_pipes (fl_src s));
              Some (-1, s\<lparr>fl_src := (fl_src s)\<lparr>vs_pipes := pipes\<rparr>\<rparr>) }) }) })"

definition filter_RGB2YUV_deinit :: "filter_state \<Rightarrow> int \<times> filter_state" where
  "filter_RGB2YUV_deinit s = (0, s\<lparr>filter_savefp := None\<rparr>)"

section \<open>Starting and stopping\<close>

text \<open>\<open>create i\<close> tells whether the thread of channel \<open>i\<close> can be created.\<close>

primrec filter_start_threads :: "(nat \<Rightarrow> bool) \<Rightarrow> nat \<Rightarrow> filter_state \<Rightarrow> bool \<times> filter_state" where
  "filter_start_threads create 0 s = (True, s)"
| "filter_start_threads create (Suc n) s =
     (case filter_start_threads create n s of (ok, s) \<Rightarrow>
        if \<not> ok then (False, s)
        else if create n then (True, s\<lparr>filter_tid := filter_tid s @ [n]\<rparr>)
        else (False, s\<lparr>filter_started := 0\<rparr>))"

definition filter_RGB2YUV_start :: "(nat \<Rightarrow> bool) \<Rightarrow> filter_state \<Rightarrow> int \<times> filter_state" where
  "filter_RGB2YUV_start create s =
     (if filter_started s \<noteq> 0 then (0, s)
      else case filter_start_threads create (nat (video_source_channels (fl_src s))) (s\<lparr>filter_started := 1\<rparr>) of
             (ok, s) \<Rightarrow> (if ok then 0 else -1, s))"

definition filter_RGB2YUV_stop :: "filter_state \<Rightarrow> int \<times> filter_state" where
  "filter_RGB2YUV_stop s =
     (if filter_started s = 0 then (0, s)
      else (0, s\<lparr>filter_started := 0, filter_tid := filter (\<lambda>i. \<not> int i < video_source_channels (fl_src s)) (filter_tid s)\<rparr>))"

section \<open>The thread of a channel\<close>

datatype filter_end = Filter_Go | Filter_Quit | Filter_Exit

text \<open>The planes and strides of a source frame up to the terminating NULL, or an unsupported format.\<close>

definition source_planes :: "vsource_frame \<Rightarrow> (int option list \<times> int list) option" where
  "source_planes f =
     (if pixelformat f = AV_PIX_FMT_RGBA \<or> pixelformat f = AV_PIX_FMT_BGRA then
        Some ([Some (vf_img f), None], [realstride f, 0])
      else if pixelformat f = AV_PIX_FMT_YUV420P then
        (let p1 = vf_img f + realwidth f * realheight f;
             p2 = p1 + drop_bit 2 (realwidth f * realheight f)
         in Some ([Some (vf_img f), Some p1, Some p2, None], [linesize f ! 0, linesize f ! 1, linesize f ! 2, 0]))
      else None)"

text \<open>The fields of the destination frame before the conversion.\<close>

definition dst_info :: "int \<Rightarrow> int \<Rightarrow> vsource_frame \<Rightarrow> vsource_frame \<Rightarrow> vsource_frame" where
  "dst_info outputW outputH srcframe dstframe =
     dstframe\<lparr>imgpts := imgpts srcframe, vf_timestamp := vf_timestamp srcframe, pixelformat := AV_PIX_FMT_YUV420P,
       realwidth := outputW, realheight := outputH, realstride := outputW, realsize := outputW * outputH * 3 div 2\<rparr>"

definition frame_converter :: "(vconvcfg \<Rightarrow> nat) \<Rightarrow> vsource_frame \<Rightarrow> vsource_frame \<Rightarrow> converters \<Rightarrow> nat \<times> converters" where
  "frame_converter getContext f g m =
     (let ctx = lookup_frame_converter m (realwidth f) (realheight f) (pixelformat f) (realwidth g) (realheight g) (pixelformat g)
      in if ctx \<noteq> 0 then (ctx, m)
         else create_frame_converter getContext m (realwidth f) (realheight f) (pixelformat f) (realwidth g) (realheight g) (pixelformat g))"

text \<open>The conversion into the three planes of the destination frame.\<close>

definition dst_planes :: "int \<Rightarrow> int \<Rightarrow> vsource_frame \<Rightarrow> int list" where
  "dst_planes outputW outputH g = [vf_img g, vf_img g + outputH * outputW, vf_img g + outputH * outputW + drop_bit 2 (outputH * outputW)]"

definition scale_frame :: "sws \<Rightarrow> nat list \<Rightarrow> nat \<Rightarrow> int \<Rightarrow> int \<Rightarrow> vsource_frame \<Rightarrow> vsource_frame \<Rightarrow> vsource_frame option" where
  "scale_frame sws_scale freed swsctx outputW outputH f g = do {
     (src, strides) \<leftarrow> source_planes f;
     (if swsctx = 0 \<or> swsctx \<in> set freed then None
      else do {
        (y, u, v) \<leftarrow> sws_scale swsctx (vf_mem f) src strides (realheight f);
        m1 \<leftarrow> c_write (vf_mem g) (dst_planes outputW outputH g ! 0) y;
        m2 \<leftarrow> c_write m1 (dst_planes outputW outputH g ! 1) u;
        m3 \<leftarrow> c_write m2 (dst_planes outputW outputH g ! 2) v;
        Some (g\<lparr>linesize := [outputW, drop_bit 1 outputW, drop_bit 1 outputW, 0], vf_mem := m3\<rparr>) }) }"

text \<open>Saving the first channel; what is written is the frame with the code. \<open>limit\<close> is the room on the device.\<close>

definition save_frame :: "nat \<Rightarrow> int \<Rightarrow> int \<Rightarrow> int \<Rightarrow> vsource_frame \<Rightarrow> byte list option \<Rightarrow> byte list option option" where
  "save_frame limit iid outputW outputH g fp =
     (if iid = 0 \<and> fp \<noteq> None then
        (let plane = (\<lambda>i. drop (nat (dst_planes outputW outputH g ! i)) (vf_mem g))
         in map_option snd (ga_save_yuv420p limit fp outputW outputH (Some (plane 0, plane 1, plane 2))
              (Some (linesize g ! 0, linesize g ! 1, linesize g ! 2))))
      else Some fp)"

text \<open>What a pass is given: what other threads do while it waits, the libraries and the room on the device.\<close>

record filter_env =
  fe_wakes :: "(dheap \<times> dpipe_t \<Rightarrow> dheap \<times> dpipe_t) list"
  fe_getContext :: "vconvcfg \<Rightarrow> nat"
  fe_scale :: sws
  fe_limit :: nat

definition set_pipe :: "nat \<Rightarrow> dheap \<Rightarrow> dpipe_t \<Rightarrow> filter_state \<Rightarrow> filter_state" where
  "set_pipe a h d s = s\<lparr>fl_src := (fl_src s)\<lparr>vs_pipes := (vs_pipes (fl_src s))\<lparr>ds_heap := h, ds_pipes := (ds_pipes (vs_pipes (fl_src s)))(a \<mapsto> d)\<rparr>\<rparr>\<rparr>"

text \<open>The frame in the buffer \<open>b\<close> converted into the frame in the buffer \<open>c\<close>.\<close>

definition convert_frame :: "filter_env \<Rightarrow> int \<Rightarrow> int \<Rightarrow> int \<Rightarrow> nat \<Rightarrow> nat \<Rightarrow> filter_state \<Rightarrow> (filter_end \<times> nat \<times> filter_state) option" where
  "convert_frame e iid outputW outputH pf pg s = do {
     f \<leftarrow> vs_frames (fl_src s) pf;
     g0 \<leftarrow> vs_frames (fl_src s) pg;
     (let g = dst_info outputW outputH f g0;
          (swsctx, m) = frame_converter (fe_getContext e) f g (fl_conv s);
          s = s\<lparr>fl_conv := m, fl_src := (fl_src s)\<lparr>vs_frames := (vs_frames (fl_src s))(pg \<mapsto> g)\<rparr>\<rparr>
      in if source_planes f = None then Some (Filter_Exit, swsctx, s)
         else do {
           g \<leftarrow> scale_frame (fe_scale e) (fl_freed s) swsctx outputW outputH f g;
           (cc, gg) \<leftarrow> vsource_embed_colorcode_inc (fl_code s) (Some g);
           g \<leftarrow> gg;
           fp \<leftarrow> save_frame (fe_limit e) iid outputW outputH g (filter_savefp s);
           Some (Filter_Go, swsctx, s\<lparr>fl_code := cc, filter_savefp := fp, fl_src := (fl_src s)\<lparr>vs_frames := (vs_frames (fl_src s))(pg \<mapsto> g)\<rparr>\<rparr>) }) }"

text \<open>
  A pass of the loop for the pipes at \<open>pa\<close> and \<open>pb\<close>. A destination pipe without any buffer gives
  NULL, which is followed. The result carries the converter that the thread remembers.
\<close>

definition filter_pass :: "filter_env \<Rightarrow> int \<Rightarrow> int \<Rightarrow> int \<Rightarrow> nat \<Rightarrow> nat \<Rightarrow> nat \<times> filter_state \<Rightarrow> (filter_end \<times> nat \<times> filter_state) option" where
  "filter_pass e iid outputW outputH pa pb cs =
     (case cs of (ctx, s) \<Rightarrow>
        if filter_started s = 0 then Some (Filter_Quit, ctx, s)
        else do {
          d \<leftarrow> ds_pipes (vs_pipes (fl_src s)) pa;
          (got, h, d) \<leftarrow> dpipe_load False False (fe_wakes e) (ds_heap (vs_pipes (fl_src s))) d;
          (let s = set_pipe pa h d s
           in case got of
                Blocked \<Rightarrow> None
              | Loaded None \<Rightarrow> Some (Filter_Exit, ctx, s)
              | Loaded (Some b) \<Rightarrow> do {
                  x \<leftarrow> h b;
                  d2 \<leftarrow> ds_pipes (vs_pipes (fl_src s)) pb;
                  (dst, h, d2) \<leftarrow> dpipe_get h d2;
                  c \<leftarrow> dst;
                  y \<leftarrow> h c;
                  (r, ctx, s) \<leftarrow> convert_frame e iid outputW outputH (buf_pointer x) (buf_pointer y) (set_pipe pb h d2 s);
                  (if r \<noteq> Filter_Go then Some (r, ctx, s)
                   else do {
                     d \<leftarrow> ds_pipes (vs_pipes (fl_src s)) pa;
                     (h, d) \<leftarrow> dpipe_put (ds_heap (vs_pipes (fl_src s))) d b;
                     (let s = set_pipe pa h d s
                      in do {
                        d2 \<leftarrow> ds_pipes (vs_pipes (fl_src s)) pb;
                        (h, d2) \<leftarrow> dpipe_store h d2 c;
                        Some (Filter_Go, ctx, set_pipe pb h d2 s) }) }) }) })"

primrec filter_passes :: "filter_env list \<Rightarrow> int \<Rightarrow> int \<Rightarrow> int \<Rightarrow> nat \<Rightarrow> nat \<Rightarrow> nat \<times> filter_state \<Rightarrow> (filter_end \<times> nat \<times> filter_state) option" where
  "filter_passes [] iid outputW outputH pa pb cs = Some (Filter_Go, cs)"
| "filter_passes (e # es) iid outputW outputH pa pb cs = do {
     (r, cs) \<leftarrow> filter_pass e iid outputW outputH pa pb cs;
     (if r = Filter_Go then filter_passes es iid outputW outputH pa pb cs else Some (r, cs)) }"

text \<open>The end of the thread: the destination pipe is destroyed and the last converter freed.\<close>

definition filter_quit :: "nat option \<Rightarrow> nat \<times> filter_state \<Rightarrow> filter_state option" where
  "filter_quit dstpipe cs = (case cs of (ctx, s) \<Rightarrow> do {
     (r, pipes) \<leftarrow> dpipe_destroy FILTER_POOLSIZE (vs_pipes (fl_src s)) dstpipe;
     Some (s\<lparr>fl_src := (fl_src s)\<lparr>vs_pipes := pipes\<rparr>, fl_freed := (if ctx \<noteq> 0 then ctx # fl_freed s else fl_freed s)\<rparr>) })"

definition filter_RGB2YUV_threadproc :: "string \<Rightarrow> string \<Rightarrow> filter_env list \<Rightarrow> filter_state \<Rightarrow> (filter_end \<times> filter_state) option" where
  "filter_RGB2YUV_threadproc src dst es s =
     (case (dpipe_lookup (vs_pipes (fl_src s)) src, dpipe_lookup (vs_pipes (fl_src s)) dst) of
        (Some pa, Some pb) \<Rightarrow> do {
          d2 \<leftarrow> ds_pipes (vs_pipes (fl_src s)) pb;
          outputW \<leftarrow> video_source_out_width (fl_src s) (dp_channel_id d2);
          outputH \<leftarrow> video_source_out_height (fl_src s) (dp_channel_id d2);
          (r, ctx, s) \<leftarrow> filter_passes es (dp_channel_id d2) outputW outputH pa pb (0, s\<lparr>fl_code := vsource_embed_colorcode_reset (fl_code s)\<rparr>);
          (if r = Filter_Quit then do { s \<leftarrow> filter_quit (Some pb) (ctx, s); Some (r, s) } else Some (r, s)) }
      | (_, p) \<Rightarrow> do { s \<leftarrow> filter_quit p (0, s); Some (Filter_Quit, s) })"

section \<open>Pictures through the filter\<close>

subsection \<open>Two pipes in one heap\<close>

text \<open>An operation on a pipe changes only the buffers of that pipe and keeps what every buffer points to.\<close>

definition ptr :: "dheap \<Rightarrow> nat \<Rightarrow> nat option" where
  "ptr h b = map_option buf_pointer (h b)"

lemma set_next_frame: "set_next h b n = Some h' \<Longrightarrow> ptr h' = ptr h \<and> (\<forall>x. x \<noteq> b \<longrightarrow> h' x = h x)"
  by (cases "h b") (auto simp: set_next_def ptr_def)

lemma take_out_frame: "dpipe_take_out h d b = Some (r, h', d') \<Longrightarrow> ptr h' = ptr h \<and> (\<forall>x. x \<noteq> b \<longrightarrow> h' x = h x)"
  by (auto simp: dpipe_take_out_def dest!: set_next_frame)

lemma get_frame:
  assumes "dpipe_get h d = Some (r, h', d')" "dpipe_rep h d ins outs"
  shows "ptr h' = ptr h \<and> (\<forall>x. x \<notin> set (ins @ outs) \<longrightarrow> h' x = h x)"
  using assms by (cases ins; cases outs) (auto simp: dpipe_get_def dpipe_rep_def dest!: set_next_frame take_out_frame)

lemma put_frame: "dpipe_put h d b = Some (h', d') \<Longrightarrow> ptr h' = ptr h \<and> (\<forall>x. x \<noteq> b \<longrightarrow> h' x = h x)"
  by (auto simp: dpipe_put_def dest!: set_next_frame)

lemma store_frame:
  assumes "dpipe_store h d b = Some (h', d')" "dpipe_rep h d ins outs"
  shows "ptr h' = ptr h \<and> (\<forall>x. x \<noteq> b \<and> x \<notin> set (ins @ outs) \<longrightarrow> h' x = h x)"
proof (cases "outs = []")
  case False
  then have "x \<noteq> last outs" if "x \<notin> set outs" for x using that by auto
  then show ?thesis using assms False by (auto simp: dpipe_store_def dpipe_rep_def dest!: set_next_frame)
qed (use assms in \<open>auto simp: dpipe_store_def dpipe_rep_def dest!: set_next_frame\<close>)

lemma rep_cong:
  assumes "dpipe_rep h d ins outs" "\<forall>x\<in>set (ins @ outs). h' x = h x"
  shows "dpipe_rep h' d ins outs"
  using assms plist_cong [of h "dp_in d" ins h'] plist_cong [of h "dp_out d" outs h'] by (auto simp: dpipe_rep_def)

lemma rep_alloc: "dpipe_rep h d ins outs \<Longrightarrow> x \<in> set (ins @ outs) \<Longrightarrow> h x \<noteq> None"
  using plist_alloc [of h "dp_in d" ins x] plist_alloc [of h "dp_out d" outs x] by (auto simp: dpipe_rep_def)

definition two_pipes :: "dheap \<Rightarrow> dpipe_t \<Rightarrow> dpipe_t \<Rightarrow> nat list \<Rightarrow> nat list \<Rightarrow> nat list \<Rightarrow> nat list \<Rightarrow> bool" where
  "two_pipes h d e ins outs ins2 outs2 \<longleftrightarrow>
     dpipe_rep h d ins outs \<and> dpipe_rep h e ins2 outs2 \<and> set (ins @ outs) \<inter> set (ins2 @ outs2) = {}"

lemma load_takes:
  assumes "dpipe_rep h d ins (b # outs)"
  shows "\<exists>h' d'. dpipe_load timed failed wakes h d = Some (Loaded (Some b), h', d') \<and> dpipe_rep h' d' ins outs \<and>
    ptr h' = ptr h \<and> (\<forall>x. x \<noteq> b \<longrightarrow> h' x = h x)"
proof -
  obtain h' d' where t: "dpipe_take_out h d b = Some (Some b, h', d')" "dpipe_rep h' d' ins outs" using take_out_rep [OF assms] by blast
  have "dp_out d = Some b" using assms by (simp add: dpipe_rep_def)
  then show ?thesis using t take_out_frame [OF t(1)] by (subst dpipe_load.simps) simp
qed

text \<open>Taking the eldest buffer \<open>b\<close> of the first pipe and a free buffer \<open>c\<close> of the second, and later giving \<open>b\<close> back and storing \<open>c\<close>.\<close>

lemma load_get:
  assumes "two_pipes h d e ins (b # outs) (c # ins2) outs2"
  shows "\<exists>h1 d1 h2 e1. dpipe_load False False wakes h d = Some (Loaded (Some b), h1, d1) \<and>
    dpipe_get h1 e = Some (Some c, h2, e1) \<and> ptr h1 = ptr h \<and> ptr h2 = ptr h \<and> h1 b \<noteq> None \<and> h2 b \<noteq> None \<and> h2 c \<noteq> None \<and>
    dpipe_rep h2 d1 ins outs \<and> dpipe_rep h2 e1 ins2 outs2"
proof -
  have "dpipe_rep h d ins (b # outs)" using assms by (simp add: two_pipes_def)
  from load_takes [OF this, of False False wakes] obtain h1 d1 where l: "dpipe_load False False wakes h d = Some (Loaded (Some b), h1, d1)" "dpipe_rep h1 d1 ins outs"
    "ptr h1 = ptr h" "\<forall>x. x \<noteq> b \<longrightarrow> h1 x = h x"
    by (elim exE conjE) (rule that; assumption)
  have "\<forall>x\<in>set ((c # ins2) @ outs2). h1 x = h x" using assms l(4) by (auto simp: two_pipes_def)
  then have e: "dpipe_rep h1 e (c # ins2) outs2" using assms rep_cong [of h e "c # ins2" outs2 h1] by (simp add: two_pipes_def)
  obtain h2 e1 where g: "dpipe_get h1 e = Some (Some c, h2, e1)" "dpipe_rep h2 e1 ins2 outs2"
    using get_rep [OF e] by auto
  note f = get_frame [OF g(1) e]
  have d: "dpipe_rep h2 d1 ins outs" using assms f by (intro rep_cong [OF l(2)]) (auto simp: two_pipes_def disjoint_iff)
  have p: "ptr h1 = ptr h" "ptr h2 = ptr h" using f l(3) by simp_all
  have "h b \<noteq> None" "h c \<noteq> None" using assms rep_alloc [of h d ins "b # outs" b] rep_alloc [of h e "c # ins2" outs2 c] by (auto simp: two_pipes_def)
  then have "h1 b \<noteq> None" "h2 b \<noteq> None" "h2 c \<noteq> None" using p by (metis ptr_def option.map_disc_iff)+
  then show ?thesis using l(1) g d p by blast
qed

lemma put_store:
  assumes "dpipe_rep h d ins outs" "dpipe_rep h e ins2 outs2" "set (ins @ outs) \<inter> set (ins2 @ outs2) = {}"
    "h b \<noteq> None" "h c \<noteq> None" "b \<noteq> c" "b \<notin> set (ins @ outs @ ins2 @ outs2)" "c \<notin> set (ins @ outs @ ins2 @ outs2)"
  shows "\<exists>h1 d1 h2 e1. dpipe_put h d b = Some (h1, d1) \<and> dpipe_store h1 e c = Some (h2, e1) \<and> ptr h2 = ptr h \<and>
    two_pipes h2 d1 e1 (b # ins) outs ins2 (outs2 @ [c])"
proof -
  obtain h1 d1 where p: "dpipe_put h d b = Some (h1, d1)" "dpipe_rep h1 d1 (b # ins) outs"
    using put_rep [OF assms(1,4)] assms(7) by auto
  note f = put_frame [OF p(1)]
  have e: "dpipe_rep h1 e ins2 outs2" using f assms(7) by (auto intro!: rep_cong [OF assms(2)])
  have c: "h1 c \<noteq> None" using f assms(5,6) by metis
  obtain h2 e1 where s: "dpipe_store h1 e c = Some (h2, e1)" "dpipe_rep h2 e1 ins2 (outs2 @ [c])"
    using store_rep [OF e c] assms(8) by auto
  note g = store_frame [OF s(1) e]
  have "dpipe_rep h2 d1 (b # ins) outs" using g assms(3,6,7,8) by (intro rep_cong [OF p(2)]) (auto simp: disjoint_iff)
  then show ?thesis using p(1) s f g assms(3,6,7,8) by (auto simp: two_pipes_def)
qed

subsection \<open>One picture\<close>

text \<open>What the scaling library promises for a frame: any context gives three planes of the size of the output.\<close>

definition source_ok :: "sws \<Rightarrow> int \<Rightarrow> int \<Rightarrow> vsource_frame \<Rightarrow> bool" where
  "source_ok sws W H f \<longleftrightarrow> (\<exists>src strides. source_planes f = Some (src, strides) \<and>
     (\<forall>ctx. ctx \<noteq> 0 \<longrightarrow> (\<exists>y u v. sws ctx (vf_mem f) src strides (realheight f) = Some (y, u, v) \<and>
        int (length y) = H * W \<and> int (length u) = drop_bit 2 (H * W) \<and> int (length v) = drop_bit 2 (H * W))))"

definition dest_ok :: "int \<Rightarrow> int \<Rightarrow> vsource_frame \<Rightarrow> bool" where
  "dest_ok W H g \<longleftrightarrow> 0 \<le> vf_img g \<and> vf_img g + H * W + 2 * drop_bit 2 (H * W) \<le> int (length (vf_mem g))"

definition yuv_cfg :: "int \<Rightarrow> int \<Rightarrow> vsource_frame \<Rightarrow> vconvcfg" where
  "yuv_cfg W H f = Vconvcfg (realwidth f) (realheight f) (pixelformat f) W H AV_PIX_FMT_YUV420P"

text \<open>The frame \<open>g\<close> holds the frame \<open>f\<close>, converted by the context cached for its size and format.\<close>

definition holds_picture :: "sws \<Rightarrow> int \<Rightarrow> int \<Rightarrow> converters \<Rightarrow> vsource_frame \<Rightarrow> vsource_frame \<Rightarrow> bool" where
  "holds_picture sws W H m f g \<longleftrightarrow>
     imgpts g = imgpts f \<and> vf_timestamp g = vf_timestamp f \<and> pixelformat g = AV_PIX_FMT_YUV420P \<and> realwidth g = W \<and> realheight g = H \<and>
     (\<exists>ctx src strides y u v. smap_find m (yuv_cfg W H f) = Some ctx \<and> source_planes f = Some (src, strides) \<and>
        sws ctx (vf_mem f) src strides (realheight f) = Some (y, u, v) \<and>
        c_read (vf_mem g) (vf_img g) (H * W) = Some y \<and> c_read (vf_mem g) (vf_img g + H * W) (drop_bit 2 (H * W)) = Some u \<and>
        c_read (vf_mem g) (vf_img g + H * W + drop_bit 2 (H * W)) (drop_bit 2 (H * W)) = Some v)"

definition keeps_converters :: "converters \<Rightarrow> converters \<Rightarrow> bool" where
  "keeps_converters m m' \<longleftrightarrow> (\<forall>c x. smap_find m c = Some x \<longrightarrow> smap_find m' c = Some x)"

lemma holds_picture_mono: "holds_picture sws W H m f g \<Longrightarrow> keeps_converters m m' \<Longrightarrow> holds_picture sws W H m' f g"
  unfolding holds_picture_def keeps_converters_def by blast

lemma frame_converter_cached:
  assumes "converters_ok m" "\<forall>c. getContext c \<noteq> 0"
  shows "\<exists>ctx m'. frame_converter getContext f (dst_info W H f g) m = (ctx, m') \<and> ctx \<noteq> 0 \<and> converters_ok m' \<and>
    smap_find m' (yuv_cfg W H f) = Some ctx \<and> keeps_converters m m'"
proof (cases "smap_find m (yuv_cfg W H f)")
  case None
  let ?x = "getContext (yuv_cfg W H f)"
  have "frame_converter getContext f (dst_info W H f g) m = (?x, smap_put m (yuv_cfg W H f) ?x)"
    using None spec [OF assms(2), of "yuv_cfg W H f"] by (simp add: frame_converter_def lookup_frame_converter_def lookup_frame_converter_internal_def create_frame_converter_def dst_info_def yuv_cfg_def Let_def)
  then show ?thesis using None assms converters_ok_put [OF assms(1), of ?x] by (simp add: smap_find_put keeps_converters_def)
next
  case (Some x)
  have "x \<noteq> 0" using converters_find [OF assms(1) Some] .
  moreover have "frame_converter getContext f (dst_info W H f g) m = (x, m)"
    using Some \<open>x \<noteq> 0\<close> by (simp add: frame_converter_def lookup_frame_converter_def lookup_frame_converter_internal_def dst_info_def yuv_cfg_def)
  ultimately show ?thesis using Some assms(1) by (simp add: keeps_converters_def)
qed

lemma three_planes:
  assumes "0 \<le> a" "b = a + int (length y)" "c = b + int (length u)" "c + int (length v) \<le> int (length mem)"
  shows "\<exists>m1 m2 m3. c_write mem a y = Some m1 \<and> c_write m1 b u = Some m2 \<and> c_write m2 c v = Some m3 \<and> length m3 = length mem \<and>
    c_read m3 a (int (length y)) = Some y \<and> c_read m3 b (int (length u)) = Some u \<and> c_read m3 c (int (length v)) = Some v"
proof -
  obtain m1 where 1: "c_write mem a y = Some m1" "length m1 = length mem" using c_write_defined [of a y mem] assms by auto
  obtain m2 where 2: "c_write m1 b u = Some m2" "length m2 = length mem" using c_write_defined [of b u m1] assms 1(2) by auto
  obtain m3 where 3: "c_write m2 c v = Some m3" "length m3 = length mem" using c_write_defined [of c v m2] assms 2(2) by auto
  have "c_read m3 a (int (length y)) = c_read m2 a (int (length y))" using assms by (intro c_read_write_before [OF 3(1)]) simp
  also have "\<dots> = c_read m1 a (int (length y))" using assms by (intro c_read_write_before [OF 2(1)]) simp
  also have "\<dots> = Some y" by (rule c_read_write_same [OF 1(1)])
  finally have y: "c_read m3 a (int (length y)) = Some y" .
  have "c_read m3 b (int (length u)) = c_read m2 b (int (length u))" using assms by (intro c_read_write_before [OF 3(1)]) simp
  also have "\<dots> = Some u" by (rule c_read_write_same [OF 2(1)])
  finally show ?thesis using 1(1) 2(1) 3 y c_read_write_same [OF 3(1)] by blast
qed

lemma scale_frame_ok:
  assumes "source_ok sws W H f" "dest_ok W H g" "ctx \<noteq> 0"
  shows "\<exists>mem src strides y u v. scale_frame sws [] ctx W H f g = Some (g\<lparr>linesize := [W, drop_bit 1 W, drop_bit 1 W, 0], vf_mem := mem\<rparr>) \<and>
    source_planes f = Some (src, strides) \<and> sws ctx (vf_mem f) src strides (realheight f) = Some (y, u, v) \<and> length mem = length (vf_mem g) \<and>
    c_read mem (vf_img g) (H * W) = Some y \<and> c_read mem (vf_img g + H * W) (drop_bit 2 (H * W)) = Some u \<and>
    c_read mem (vf_img g + H * W + drop_bit 2 (H * W)) (drop_bit 2 (H * W)) = Some v"
proof -
  obtain src strides y u v where s: "source_planes f = Some (src, strides)" "sws ctx (vf_mem f) src strides (realheight f) = Some (y, u, v)"
    "int (length y) = H * W" "int (length u) = drop_bit 2 (H * W)" "int (length v) = drop_bit 2 (H * W)"
    using assms(1,3) unfolding source_ok_def by blast
  obtain m1 m2 m3 where m: "c_write (vf_mem g) (vf_img g) y = Some m1" "c_write m1 (vf_img g + H * W) u = Some m2"
    "c_write m2 (vf_img g + H * W + drop_bit 2 (H * W)) v = Some m3" "length m3 = length (vf_mem g)"
    "c_read m3 (vf_img g) (int (length y)) = Some y" "c_read m3 (vf_img g + H * W) (int (length u)) = Some u"
    "c_read m3 (vf_img g + H * W + drop_bit 2 (H * W)) (int (length v)) = Some v"
    using three_planes [of "vf_img g" "vf_img g + H * W" y "vf_img g + H * W + drop_bit 2 (H * W)" u v "vf_mem g"] assms(2) s(3-5)
    unfolding dest_ok_def by auto
  have e: "scale_frame sws [] ctx W H f g = Some (g\<lparr>linesize := [W, drop_bit 1 W, drop_bit 1 W, 0], vf_mem := m3\<rparr>)"
    using s(1,2) m(1-3) assms(3) by (simp add: scale_frame_def dst_planes_def)
  show ?thesis by (rule exI [of _ m3], rule exI [of _ src], rule exI [of _ strides], rule exI [of _ y], rule exI [of _ u], rule exI [of _ v])
      (use e s(1,2) m(4) m(5-7) [unfolded s(3-5)] in simp)
qed

text \<open>Neither the colour code nor saving is configured, the cache of converters is in order and nothing was freed.\<close>

definition filter_plain :: "filter_state \<Rightarrow> bool" where
  "filter_plain s \<longleftrightarrow> filter_started s \<noteq> 0 \<and> filter_savefp s = None \<and> cc_initialized (fl_code s) = 0 \<and> fl_freed s = [] \<and> converters_ok (fl_conv s)"

lemma convert_frame_ok:
  assumes "filter_plain s" "vs_frames (fl_src s) pf = Some f" "vs_frames (fl_src s) pg = Some g0" "source_ok (fe_scale e) W H f" "dest_ok W H g0"
    "\<forall>c. fe_getContext e c \<noteq> 0"
  shows "\<exists>ctx s' g. convert_frame e iid W H pf pg s = Some (Filter_Go, ctx, s') \<and> filter_plain s' \<and>
    vs_pipes (fl_src s') = vs_pipes (fl_src s) \<and> vs_frames (fl_src s') = (vs_frames (fl_src s))(pg \<mapsto> g) \<and>
    holds_picture (fe_scale e) W H (fl_conv s') f g \<and> keeps_converters (fl_conv s) (fl_conv s')"
proof -
  have p: "fl_freed s = []" "filter_savefp s = None" "cc_initialized (fl_code s) = 0" "converters_ok (fl_conv s)" "filter_started s \<noteq> 0"
    using assms(1) by (simp_all add: filter_plain_def)
  let ?g = "dst_info W H f g0"
  obtain ctx m where c: "frame_converter (fe_getContext e) f ?g (fl_conv s) = (ctx, m)" "ctx \<noteq> 0" "converters_ok m"
    "smap_find m (yuv_cfg W H f) = Some ctx" "keeps_converters (fl_conv s) m"
    using frame_converter_cached [OF p(4) assms(6)] by blast
  have "dest_ok W H ?g" using assms(5) by (simp add: dest_ok_def dst_info_def)
  from scale_frame_ok [OF assms(4) this c(2)] obtain mem src strides y u v where
    m: "scale_frame (fe_scale e) [] ctx W H f ?g = Some (?g\<lparr>linesize := [W, drop_bit 1 W, drop_bit 1 W, 0], vf_mem := mem\<rparr>)"
      (is "_ = Some ?h") and
    s: "source_planes f = Some (src, strides)" "fe_scale e ctx (vf_mem f) src strides (realheight f) = Some (y, u, v)" and
    r: "c_read mem (vf_img ?g) (H * W) = Some y" "c_read mem (vf_img ?g + H * W) (drop_bit 2 (H * W)) = Some u"
      "c_read mem (vf_img ?g + H * W + drop_bit 2 (H * W)) (drop_bit 2 (H * W)) = Some v" by blast
  let ?cc = "(fl_code s)\<lparr>cc_counter := (cc_counter (fl_code s) + 1) AND cc_counter_mask (fl_code s)\<rparr>"
  let ?s = "s\<lparr>fl_conv := m, fl_code := ?cc, filter_savefp := None, fl_src := (fl_src s)\<lparr>vs_frames := (vs_frames (fl_src s))(pg \<mapsto> ?h)\<rparr>\<rparr>"
  have "convert_frame e iid W H pf pg s = Some (Filter_Go, ctx, ?s)"
    using assms(2,3) c(1) m s(1) p
    by (simp add: convert_frame_def vsource_embed_colorcode_inc_def vsource_embed_colorcode_def save_frame_def Let_def)
  moreover have "filter_plain ?s" using p c(3) by (simp add: filter_plain_def)
  moreover have "holds_picture (fe_scale e) W H (fl_conv ?s) f ?h"
    unfolding holds_picture_def using c(4) s r by (simp add: dst_info_def)
  ultimately show ?thesis using c(5) by (intro exI [of _ ctx] exI [of _ ?s] exI [of _ ?h]) simp
qed

subsection \<open>The stream\<close>

text \<open>The frame in a buffer; and the pools of both pipes while the filter runs: whole frames wait in the source pipe, and the free buffers of
  the destination pipe have room for a picture.\<close>

definition frame_in :: "filter_state \<Rightarrow> nat \<Rightarrow> vsource_frame option" where
  "frame_in s b = do { p \<leftarrow> ptr (ds_heap (vs_pipes (fl_src s))) b; vs_frames (fl_src s) p }"

definition filter_flow :: "sws \<Rightarrow> int \<Rightarrow> int \<Rightarrow> nat \<Rightarrow> nat \<Rightarrow> filter_state \<Rightarrow> nat list \<Rightarrow> nat list \<Rightarrow> nat list \<Rightarrow> nat list \<Rightarrow> bool" where
  "filter_flow sws W H pa pb s ins outs ins2 outs2 \<longleftrightarrow> filter_plain s \<and> pa \<noteq> pb \<and>
     (\<exists>d e. ds_pipes (vs_pipes (fl_src s)) pa = Some d \<and> ds_pipes (vs_pipes (fl_src s)) pb = Some e \<and>
        two_pipes (ds_heap (vs_pipes (fl_src s))) d e ins outs ins2 outs2) \<and>
     inj_on (ptr (ds_heap (vs_pipes (fl_src s)))) (set (ins @ outs @ ins2 @ outs2)) \<and>
     (\<forall>b\<in>set outs. \<exists>f. frame_in s b = Some f \<and> source_ok sws W H f) \<and>
     (\<forall>c\<in>set ins2. \<exists>g. frame_in s c = Some g \<and> dest_ok W H g)"

lemma set_pipe_sel [simp]:
  "ds_heap (vs_pipes (fl_src (set_pipe a h d s))) = h" "ds_pipes (vs_pipes (fl_src (set_pipe a h d s))) = (ds_pipes (vs_pipes (fl_src s)))(a \<mapsto> d)"
  "vs_frames (fl_src (set_pipe a h d s)) = vs_frames (fl_src s)" "fl_conv (set_pipe a h d s) = fl_conv s"
  "filter_plain (set_pipe a h d s) = filter_plain s"
  by (simp_all add: set_pipe_def filter_plain_def)

text \<open>A pass takes the eldest frame of the source, converts it into a free buffer, gives the source its buffer back and queues the picture.\<close>

lemma filter_pass_flow:
  assumes flow: "filter_flow sws W H pa pb s ins (b # outs) (c # ins2) outs2" and e: "fe_scale e = sws" "\<forall>c. fe_getContext e c \<noteq> 0"
  shows "\<exists>ctx' s' f g. filter_pass e iid W H pa pb (ctx, s) = Some (Filter_Go, ctx', s') \<and> filter_flow sws W H pa pb s' (b # ins) outs ins2 (outs2 @ [c]) \<and>
    frame_in s b = Some f \<and> frame_in s' c = Some g \<and> holds_picture sws W H (fl_conv s') f g \<and> keeps_converters (fl_conv s) (fl_conv s') \<and>
    (\<forall>x\<in>set (ins @ b # outs @ ins2 @ outs2). frame_in s' x = frame_in s x)"
proof -
  let ?hp = "\<lambda>s. ds_heap (vs_pipes (fl_src s))" and ?ps = "\<lambda>s. ds_pipes (vs_pipes (fl_src s))"
  obtain d d2 where pl: "filter_plain s" "pa \<noteq> pb" "?ps s pa = Some d" "?ps s pb = Some d2" and tp: "two_pipes (?hp s) d d2 ins (b # outs) (c # ins2) outs2"
    using flow by (auto simp: filter_flow_def)
  obtain f g0 where fr: "frame_in s b = Some f" "source_ok sws W H f" "frame_in s c = Some g0" "dest_ok W H g0" using flow by (auto simp: filter_flow_def)
  obtain h1 d1 h2 e1 where l: "dpipe_load False False (fe_wakes e) (?hp s) d = Some (Loaded (Some b), h1, d1)" "dpipe_get h1 d2 = Some (Some c, h2, e1)"
    "ptr h1 = ptr (?hp s)" "ptr h2 = ptr (?hp s)" "h1 b \<noteq> None" "h2 b \<noteq> None" "h2 c \<noteq> None" "dpipe_rep h2 d1 ins outs" "dpipe_rep h2 e1 ins2 outs2"
    using load_get [OF tp, of "fe_wakes e"] by blast
  obtain x y where xy: "h1 b = Some x" "h2 c = Some y" using l(5,7) by blast
  have pt: "ptr (?hp s) b = Some (buf_pointer x)" "ptr (?hp s) c = Some (buf_pointer y)"
    using xy l(3,4) by (metis ptr_def option.simps(9))+
  let ?s2 = "set_pipe pb h2 e1 (set_pipe pa h1 d1 s)"
  have "vs_frames (fl_src ?s2) (buf_pointer x) = Some f" "vs_frames (fl_src ?s2) (buf_pointer y) = Some g0" using fr(1,3) pt by (simp_all add: frame_in_def)
  from convert_frame_ok [OF _ this, where e = e and W = W and H = H and iid = iid] pl(1) fr(2,4) e
  obtain ctx' s3 g where cv: "convert_frame e iid W H (buf_pointer x) (buf_pointer y) ?s2 = Some (Filter_Go, ctx', s3)" "filter_plain s3"
    "vs_pipes (fl_src s3) = vs_pipes (fl_src ?s2)" "vs_frames (fl_src s3) = (vs_frames (fl_src s))(buf_pointer y \<mapsto> g)"
    "holds_picture sws W H (fl_conv s3) f g" "keeps_converters (fl_conv s) (fl_conv s3)" by auto
  have ne: "b \<noteq> c" "b \<notin> set (ins @ outs @ ins2 @ outs2)" "c \<notin> set (ins @ outs @ ins2 @ outs2)" "set (ins @ outs) \<inter> set (ins2 @ outs2) = {}"
    using tp by (auto simp: two_pipes_def dpipe_rep_def)
  obtain h3 d3 h4 e4 where w: "dpipe_put h2 d1 b = Some (h3, d3)" "dpipe_store h3 e1 c = Some (h4, e4)" "ptr h4 = ptr (?hp s)"
    "two_pipes h4 d3 e4 (b # ins) outs ins2 (outs2 @ [c])"
    using put_store [OF l(8,9) ne(4) l(6,7) ne(1-3)] l(4) by auto
  let ?s4 = "set_pipe pb h4 e4 (set_pipe pa h3 d3 s3)"
  have pass: "filter_pass e iid W H pa pb (ctx, s) = Some (Filter_Go, ctx', ?s4)"
    using pl l(1,2) xy cv(1,3) w(1,2) by (simp add: filter_pass_def filter_plain_def)
  have keep: "frame_in ?s4 z = frame_in s z" if "z \<in> set (ins @ b # outs @ ins2 @ outs2)" for z
  proof -
    have "z \<noteq> c" "z \<in> set (ins @ (b # outs) @ (c # ins2) @ outs2)" using that ne by auto
    then have "ptr (?hp s) z \<noteq> Some (buf_pointer y)" using flow pt(2) unfolding filter_flow_def by (metis (no_types, lifting) inj_on_def in_set_conv_decomp append_Cons append_assoc)
    then show ?thesis using w(3) cv(4) by (auto simp: frame_in_def split: Option.bind_split)
  qed
  have new: "frame_in ?s4 c = Some g" using w(3) cv(4) pt(2) by (simp add: frame_in_def)
  have "filter_flow sws W H pa pb ?s4 (b # ins) outs ins2 (outs2 @ [c])"
  proof -
    have "inj_on (ptr h4) (set ((b # ins) @ outs @ ins2 @ (outs2 @ [c])))"
      using flow w(3) unfolding filter_flow_def by (auto intro: inj_on_subset)
    moreover have "\<forall>z\<in>set outs. \<exists>f. frame_in ?s4 z = Some f \<and> source_ok sws W H f" using flow keep by (auto simp: filter_flow_def)
    moreover have "\<forall>z\<in>set ins2. \<exists>g. frame_in ?s4 z = Some g \<and> dest_ok W H g" using flow keep by (auto simp: filter_flow_def)
    ultimately show ?thesis using pl(2) cv(2) w(4) by (simp add: filter_flow_def)
  qed
  then show ?thesis using pass fr(1) new cv(5,6) keep by (intro exI [of _ ctx'] exI [of _ ?s4] exI [of _ f] exI [of _ g]) simp
qed

text \<open>C10. Every frame reaches the encoder in order: while the source pipe holds frames and the destination pipe has as many free buffers, each pass moves one
  frame on: after the passes the destination pipe holds the pictures of the frames in their order, each with the time stamps of its frame and its three planes as the
  converter of its size and format gives them; the buffers are back in the source pipe, the frames still to be taken are untouched and no converter is replaced.\<close>

theorem filter_streams_pictures:
  assumes "filter_flow sws W H pa pb s ins (bs @ outs) (cs @ ins2) outs2" "length bs = length es" "length cs = length es"
    "\<forall>e\<in>set es. fe_scale e = sws \<and> (\<forall>c. fe_getContext e c \<noteq> 0)"
  shows "\<exists>ctx' s'. filter_passes es iid W H pa pb (ctx, s) = Some (Filter_Go, ctx', s') \<and>
    filter_flow sws W H pa pb s' (rev bs @ ins) outs ins2 (outs2 @ cs) \<and>
    list_all2 (\<lambda>b c. \<exists>f g. frame_in s b = Some f \<and> frame_in s' c = Some g \<and> holds_picture sws W H (fl_conv s') f g) bs cs \<and>
    (\<forall>x\<in>set (ins @ bs @ outs @ ins2 @ outs2). frame_in s' x = frame_in s x) \<and> keeps_converters (fl_conv s) (fl_conv s')"
  using assms
proof (induction es arbitrary: ctx s ins bs cs outs2)
  case Nil
  then show ?case by (simp add: keeps_converters_def)
next
  case (Cons e es)
  obtain b bs' c cs' where bc: "bs = b # bs'" "cs = c # cs'" using Cons.prems(2,3) by (metis length_Suc_conv)
  have e: "fe_scale e = sws" "\<forall>c. fe_getContext e c \<noteq> 0" using Cons.prems(4) by simp_all
  have "filter_flow sws W H pa pb s ins (b # bs' @ outs) (c # cs' @ ins2) outs2" using Cons.prems(1) bc by simp
  from filter_pass_flow [OF this e] obtain ctx1 s1 f g where
    s1: "filter_pass e iid W H pa pb (ctx, s) = Some (Filter_Go, ctx1, s1)" "filter_flow sws W H pa pb s1 (b # ins) (bs' @ outs) (cs' @ ins2) (outs2 @ [c])"
    "frame_in s b = Some f" "frame_in s1 c = Some g" "holds_picture sws W H (fl_conv s1) f g" "keeps_converters (fl_conv s) (fl_conv s1)"
    "\<forall>x\<in>set (ins @ b # (bs' @ outs) @ (cs' @ ins2) @ outs2). frame_in s1 x = frame_in s x" by blast
  have len: "length bs' = length es" "length cs' = length es" using Cons.prems(2,3) bc by simp_all
  have es: "\<forall>e\<in>set es. fe_scale e = sws \<and> (\<forall>c. fe_getContext e c \<noteq> 0)" using Cons.prems(4) by simp
  from Cons.IH [OF s1(2) len es, of ctx1] obtain ctx2 s2 where
    s2: "filter_passes es iid W H pa pb (ctx1, s1) = Some (Filter_Go, ctx2, s2)" "filter_flow sws W H pa pb s2 (rev bs' @ b # ins) outs ins2 ((outs2 @ [c]) @ cs')"
    "list_all2 (\<lambda>b c. \<exists>f g. frame_in s1 b = Some f \<and> frame_in s2 c = Some g \<and> holds_picture sws W H (fl_conv s2) f g) bs' cs'"
    "\<forall>x\<in>set ((b # ins) @ bs' @ outs @ ins2 @ (outs2 @ [c])). frame_in s2 x = frame_in s1 x" "keeps_converters (fl_conv s1) (fl_conv s2)" by blast
  have hd: "\<exists>f g. frame_in s b = Some f \<and> frame_in s2 c = Some g \<and> holds_picture sws W H (fl_conv s2) f g"
    using s1(3-5) s2(4) holds_picture_mono [OF s1(5) s2(5)] by simp
  have "list_all2 (\<lambda>b c. \<exists>f g. frame_in s b = Some f \<and> frame_in s2 c = Some g \<and> holds_picture sws W H (fl_conv s2) f g) bs' cs'"
    by (rule list.rel_mono_strong [OF s2(3)]) (use s1(7) in auto)
  moreover have "keeps_converters (fl_conv s) (fl_conv s2)" using s1(6) s2(5) by (simp add: keeps_converters_def)
  moreover have "filter_passes (e # es) iid W H pa pb (ctx, s) = Some (Filter_Go, ctx2, s2)" using s1(1) s2(1) by simp
  moreover have "\<forall>x\<in>set (ins @ bs @ outs @ ins2 @ outs2). frame_in s2 x = frame_in s x" using s1(7) s2(4) bc(1) by auto
  moreover have "filter_flow sws W H pa pb s2 (rev bs @ ins) outs ins2 (outs2 @ cs)" using s2(2) bc by simp
  ultimately show ?case using bc hd by (intro exI [of _ ctx2] exI [of _ s2]) (simp only: list.rel_inject simp_thms)
qed

section \<open>The end of the thread\<close>

text \<open>A thread that ends leaves a freed converter in the cache: the context it remembers is freed but stays cached, so the next thread that has a frame of the same
  size and format is given the freed context, and converting with it is undefined.\<close>

theorem filter_quit_dangles:
  assumes "filter_quit p (ctx, s) = Some s'" "ctx \<noteq> 0" "smap_find (fl_conv s) (yuv_cfg W H f) = Some ctx"
    "vs_frames (fl_src s) pf = Some f" "source_planes f \<noteq> None"
  shows "ctx \<in> set (fl_freed s') \<and> smap_find (fl_conv s') (yuv_cfg W H f) = Some ctx \<and> convert_frame e iid W H pf pg s' = None"
proof -
  have s: "fl_conv s' = fl_conv s" "fl_freed s' = ctx # fl_freed s" "vs_frames (fl_src s') = vs_frames (fl_src s)"
    using assms(1,2) by (auto simp: filter_quit_def)
  have "frame_converter (fe_getContext e) f (dst_info W H f g) (fl_conv s) = (ctx, fl_conv s)" for g
    using assms(2,3) by (simp add: frame_converter_def lookup_frame_converter_def lookup_frame_converter_internal_def dst_info_def yuv_cfg_def)
  then show ?thesis using s assms(3-5) by (auto simp: convert_frame_def scale_frame_def Let_def split: Option.bind_split)
qed

section \<open>Initialisation\<close>

lemma init_channel_keeps:
  assumes "filter_init_channel e gc conf src dst i (s, []) = Some (ok, s', dsts)"
  shows "filter_initialized s' = filter_initialized s"
  using assms by (auto simp: filter_init_channel_def Let_def split: if_split_asm option.split_asm prod.splits)

lemma init_channel_fails:
  assumes "filter_init_channel e gc conf src dst i (s, []) = Some (False, s', dsts)" "dsts \<noteq> [] \<or> vs_pipes (fl_src s') \<noteq> vs_pipes (fl_src s)"
  shows "\<exists>p sz. dpipe_create (se_pipe e i) (se_pipename e i) (se_buffer e i) (se_malloc e i) (int i) (Some (dst i)) (int FILTER_POOLSIZE) sz (vs_pipes (fl_src s)) =
        Some (p, vs_pipes (fl_src s')) \<and> dsts = (case p of None \<Rightarrow> [] | Some a \<Rightarrow> [a])"
proof -
  obtain iw ih ow oh ctx m n sz p pipes where
    c: "dpipe_create (se_pipe e i) (se_pipename e i) (se_buffer e i) (se_malloc e i) (int i) (Some (dst i)) (int FILTER_POOLSIZE) sz (vs_pipes (fl_src s)) = Some (p, pipes)" and
    g: "default_converter gc conf iw ih ow oh (fl_conv s) = Some (ctx, m)" "ctx \<noteq> 0" "dpipe_lookup (vs_pipes (fl_src s)) (src i) \<noteq> None"
    "video_source_curr_width (fl_src s) (int i) = Some iw" "video_source_curr_height (fl_src s) (int i) = Some ih" "video_source_out_width (fl_src s) (int i) = Some ow"
    "video_source_out_height (fl_src s) (int i) = Some oh" "video_source_mem_size (fl_src s) (int i) = Some n" "c_int (sizeof_frame + n) = Some sz"
    using assms by (auto simp: filter_init_channel_def Let_def split: if_split_asm)
  show ?thesis
    by (rule exI [of _ p], rule exI [of _ sz])
      (use assms(1) c g in \<open>cases p; auto simp: filter_init_channel_def Let_def split: if_split_asm option.split_asm prod.splits\<close>)
qed

lemma init_steps:
  assumes "filter_RGB2YUV_init e gc open conf src dst s = Some (r, s')" "filter_initialized s = 0" "gVideoChannels (fl_src s) = 1"
  shows "\<exists>s0 ok s1 dsts. fl_src s0 = fl_src s \<and> filter_initialized s0 = 0 \<and> filter_init_channel e (gc 0) conf src dst 0 (s0, []) = Some (ok, s1, dsts) \<and>
    (if ok then r = 0 \<and> s' = s1\<lparr>filter_initialized := 1\<rparr>
     else r = -1 \<and> (\<exists>pipes. destroy_pipes dsts (vs_pipes (fl_src s1)) = Some pipes \<and> s' = s1\<lparr>fl_src := (fl_src s1)\<lparr>vs_pipes := pipes\<rparr>\<rparr>))"
proof -
  obtain sf where sf: "ga_conf_readv conf ''save-yuv-image'' 128 = Some sf" using assms(1,2) by (auto simp: filter_RGB2YUV_init_def split: if_splits)
  let ?s = "case sf of None \<Rightarrow> s | Some f \<Rightarrow> s\<lparr>filter_savefp := (if open f then Some [] else None)\<rparr>"
  have k: "fl_src ?s = fl_src s" "filter_initialized ?s = 0" using assms(2) by (simp_all split: option.split)
  obtain n cc where cc: "vsource_embed_colorcode_init conf 0 (fl_code ?s) = Some (n, cc)" using assms(1,2) sf by (auto simp: filter_RGB2YUV_init_def Let_def split: if_splits)
  let ?s0 = "?s\<lparr>fl_code := cc\<rparr>"
  obtain ok s1 dsts where ch: "filter_init_channel e (gc 0) conf src dst 0 (?s0, []) = Some (ok, s1, dsts)"
    using assms sf cc k(1) by (auto simp: filter_RGB2YUV_init_def video_source_channels_def Let_def split: if_splits)
  show ?thesis
    by (rule exI [of _ ?s0], rule exI [of _ ok], rule exI [of _ s1], rule exI [of _ dsts])
      (use assms sf cc k ch in \<open>auto simp: filter_RGB2YUV_init_def video_source_channels_def Let_def split: if_splits\<close>)
qed

text \<open>A failed initialisation leaves nothing behind: with one channel, when the source pipe is missing, no converter can be made, the memory for the destination
  pipe runs out or a frame cannot be initialised, the heap, the pipes and their names are as before, and a later call tries again.\<close>

theorem filter_init_failed_frees:
  assumes "filter_RGB2YUV_init e gc open conf src dst s = Some (-1, s')" "gVideoChannels (fl_src s) = 1"
    "alloc_fresh (se_buffer e 0) (vs_pipes (fl_src s))" "smap_ok (dpipemap (vs_pipes (fl_src s)))"
    "se_pipe e 0 = Some a" "ds_pipes (vs_pipes (fl_src s)) a = None" "se_pipename e 0"
  shows "ds_heap (vs_pipes (fl_src s')) = ds_heap (vs_pipes (fl_src s)) \<and> ds_pipes (vs_pipes (fl_src s')) = ds_pipes (vs_pipes (fl_src s)) \<and>
    (\<forall>n. dpipe_lookup (vs_pipes (fl_src s')) n = dpipe_lookup (vs_pipes (fl_src s)) n) \<and> filter_initialized s' = 0"
proof -
  have i: "filter_initialized s = 0" using assms(1) by (auto simp: filter_RGB2YUV_init_def split: if_splits)
  obtain s0 s1 dsts pipes where s0: "fl_src s0 = fl_src s" "filter_initialized s0 = 0" and
    ch: "filter_init_channel e (gc 0) conf src dst 0 (s0, []) = Some (False, s1, dsts)" and
    dp: "destroy_pipes dsts (vs_pipes (fl_src s1)) = Some pipes" and s': "vs_pipes (fl_src s') = pipes" "filter_initialized s' = filter_initialized s1"
    using init_steps [OF assms(1) i assms(2)] by (auto split: if_splits)
  have fi: "filter_initialized s1 = 0" using init_channel_keeps [OF ch] s0(2) by simp
  show ?thesis
  proof (cases "dsts \<noteq> [] \<or> vs_pipes (fl_src s1) \<noteq> vs_pipes (fl_src s0)")
    case True
    from init_channel_fails [OF ch this] obtain p sz where
      c: "dpipe_create (se_pipe e 0) (se_pipename e 0) (se_buffer e 0) (se_malloc e 0) (int 0) (Some (dst 0)) (int FILTER_POOLSIZE) sz (vs_pipes (fl_src s0)) =
        Some (p, vs_pipes (fl_src s1))" and d: "dsts = (case p of None \<Rightarrow> [] | Some a \<Rightarrow> [a])" by blast
    have c': "dpipe_create (Some a) True (se_buffer e 0) (se_malloc e 0) (int 0) (Some (dst 0)) (int FILTER_POOLSIZE) sz (vs_pipes (fl_src s)) = Some (p, vs_pipes (fl_src s1))"
      using c assms(5,7) s0(1) by simp
    from create_destroy [OF assms(3,4,6) c'] show ?thesis using d dp s' fi by auto
  qed (use dp s' s0 fi in simp)
qed

lemma init_channel_done:
  assumes "filter_init_channel e gc conf src dst i (s, []) = Some (True, s', dsts)"
  shows "\<exists>p sz pipes d fs nm. dpipe_create (se_pipe e i) (se_pipename e i) (se_buffer e i) (se_malloc e i) (int i) (Some (dst i)) (int FILTER_POOLSIZE) sz (vs_pipes (fl_src s)) =
        Some (Some p, pipes) \<and> ds_pipes pipes p = Some d \<and>
      init_frames FILTER_POOLSIZE (gVsource (fl_src s)) (int i) (se_memory e) (ds_heap pipes) (dp_in d) (vs_frames (fl_src s)) = Some (True, fs) \<and>
      video_source_add_pipename (se_name e i) ((fl_src s)\<lparr>vs_pipes := pipes, vs_frames := fs\<rparr>) (int i) (Some (dst i)) = Some (nm, fl_src s') \<and> dsts = [p]"
  using assms by (auto simp: filter_init_channel_def Let_def split: if_split_asm option.split_asm prod.splits)
    (intro exI conjI, assumption, assumption, assumption, assumption, rule refl)

lemma ready_has_room: "frame_ready vs a g \<Longrightarrow> H * W + 2 * drop_bit 2 (H * W) \<le> max_height vs * max_stride vs \<Longrightarrow> dest_ok W H g"
  by (auto simp: frame_ready_def dest_ok_def c_read_def split: if_splits)

text \<open>A successful initialisation prepares the stream: with one channel whose pictures fit its largest size, the destination pipe is registered under its name and
  announced for the channel, and holds eight free buffers, each with room for a picture.\<close>

theorem filter_init_prepares:
  assumes "filter_RGB2YUV_init e gc open conf src dst s = Some (0, s')" "filter_initialized s = 0" "gVideoChannels (fl_src s) = 1"
    "alloc_fresh (se_buffer e 0) (vs_pipes (fl_src s))" "smap_ok (dpipemap (vs_pipes (fl_src s)))"
    "se_pipe e 0 = Some a" "ds_pipes (vs_pipes (fl_src s)) a = None" "se_pipename e 0" "se_name e 0"
    "c_get (gVsource (fl_src s)) 0 = Some vs" "max_width vs \<noteq> 0" "0 \<le> max_height vs * max_stride vs" "max_height vs * max_stride vs < 2 ^ 31"
    "\<forall>x. max_height vs * max_stride vs + VSOURCE_ALIGNMENT \<le> int (length (se_memory e x))"
    "H * W + 2 * drop_bit 2 (H * W) \<le> max_height vs * max_stride vs"
  shows "filter_initialized s' = 1 \<and> dpipe_lookup (vs_pipes (fl_src s')) (dst 0) = Some a \<and>
    video_source_get_pipename (fl_src s') 0 = Some (Some (dst 0)) \<and>
    (\<exists>d bs. ds_pipes (vs_pipes (fl_src s')) a = Some d \<and> dpipe_rep (ds_heap (vs_pipes (fl_src s'))) d bs [] \<and> length bs = 8 \<and>
       (\<forall>b\<in>set bs. \<exists>g. frame_in s' b = Some g \<and> dest_ok W H g))"
proof -
  obtain s0 s1 dsts where s0: "fl_src s0 = fl_src s" and ch: "filter_init_channel e (gc 0) conf src dst 0 (s0, []) = Some (True, s1, dsts)" and
    s': "fl_src s' = fl_src s1" "filter_initialized s' = 1"
    using init_steps [OF assms(1-3)] by (auto split: if_splits)
  from init_channel_done [OF ch] obtain p sz pipes d fs nm where
    c: "dpipe_create (Some a) True (se_buffer e 0) (se_malloc e 0) (int 0) (Some (dst 0)) (int FILTER_POOLSIZE) sz (vs_pipes (fl_src s)) = Some (Some p, pipes)"
    "ds_pipes pipes p = Some d" "init_frames FILTER_POOLSIZE (gVsource (fl_src s)) 0 (se_memory e) (ds_heap pipes) (dp_in d) (vs_frames (fl_src s)) = Some (True, fs)"
    "video_source_add_pipename True ((fl_src s)\<lparr>vs_pipes := pipes, vs_frames := fs\<rparr>) 0 (Some (dst 0)) = Some (nm, fl_src s1)"
    using assms(6,8,9) s0 by auto
  from create_cases [OF assms(4,5,7) c(1)] obtain d' bs where b: "p = a" "ds_pipes pipes = (ds_pipes (vs_pipes (fl_src s)))(a \<mapsto> d')"
    "dpipe_rep (ds_heap pipes) d' bs []" "int (length bs) = int FILTER_POOLSIZE" "dpipemap pipes = smap_put (dpipemap (vs_pipes (fl_src s))) (dst 0) a" by auto
  have d: "d' = d" using b(1,2) c(2) by simp
  have len: "length bs \<le> FILTER_POOLSIZE" using b(4) by simp
  have pl: "plist (ds_heap pipes) (dp_in d) bs" using b(3) d by (simp add: dpipe_rep_def)
  from init_frames_ready [OF pl len assms(10) _ assms(11-13), where mem = "se_memory e" and fs = "vs_frames (fl_src s)"] assms(14) c(3)
  have rd: "\<forall>b\<in>set bs. \<exists>x f. ds_heap pipes b = Some x \<and> fs (buf_pointer x) = Some f \<and> frame_ready vs (buf_pointer x) f" by auto
  have "fl_src s1 = (fl_src s)\<lparr>vs_pipes := pipes, vs_frames := fs, gVsource := (gVsource (fl_src s))[0 := vs\<lparr>pipename := dst 0 # pipename vs\<rparr>]\<rparr> \<and> gVsource (fl_src s) \<noteq> []"
    using c(4) assms(3,10) by (auto simp: video_source_add_pipename_def video_source_add_pipename_internal_def video_source_def c_get_def split: if_splits)
  then have f1: "vs_pipes (fl_src s1) = pipes" "vs_frames (fl_src s1) = fs" "video_source_get_pipename (fl_src s1) 0 = Some (Some (dst 0))"
    using assms(3) by (simp_all add: video_source_get_pipename_def video_source_def c_get_def)
  have "\<forall>b\<in>set bs. \<exists>g. frame_in s' b = Some g \<and> dest_ok W H g"
  proof
    fix b assume "b \<in> set bs"
    then obtain x f where "ds_heap pipes b = Some x" "fs (buf_pointer x) = Some f" "frame_ready vs (buf_pointer x) f" using rd by blast
    then show "\<exists>g. frame_in s' b = Some g \<and> dest_ok W H g" using ready_has_room assms(15) s'(1) f1(1,2) by (auto simp: frame_in_def ptr_def)
  qed
  moreover have "dpipe_lookup pipes (dst 0) = Some a" using b(5) by (simp add: dpipe_lookup_def smap_find_put)
  moreover have "ds_pipes pipes a = Some d" using b(2) d by simp
  moreover have "length bs = 8" using b(4) by (simp add: FILTER_POOLSIZE_def)
  ultimately show ?thesis using s' f1 b(3) d by auto
qed

section \<open>Examples\<close>

definition example_rgba_frame :: vsource_frame where
  "example_rgba_frame = \<lparr>vf_channel = 0, imgpts = 5, pixelformat = 28, linesize = [8, 8, 8, 8], realwidth = 2, realheight = 2, realstride = 8, realsize = 16,
     vf_timestamp = \<lparr>tv_sec = 1, tv_usec = 2\<rparr>, maxstride = 8, imgbufsize = 16, vf_img = 0, vf_mem = [1, 2, 3, 4, 5, 6, 7, 8, 9, 10, 11, 12, 13, 14, 15, 16]\<rparr>"

definition example_yuv_frame :: vsource_frame where
  "example_yuv_frame = example_rgba_frame\<lparr>imgpts := 0, pixelformat := 0, vf_mem := [0, 0, 0, 0, 0, 0, 0, 0]\<rparr>"

definition example_sws :: sws where
  "example_sws = (\<lambda>ctx mem src strides h. Some ([mem ! 0, mem ! 4, mem ! 8, mem ! 12], [mem ! 1], [mem ! 2]))"

definition example_filter :: filter_state where
  "example_filter = \<lparr>filter_initialized = 1, filter_started = 1, filter_tid = [0], filter_savefp = None, fl_code = example_cc\<lparr>cc_initialized := 0\<rparr>, fl_conv = [], fl_freed = [],
     fl_src = \<lparr>gVideoChannels = 1, gVsource = [vsource_zero, vsource_zero], gPipe = [None, None], vs_pipes = \<lparr>
         ds_heap = [1 \<mapsto> \<lparr>buf_pointer = 10, buf_internal = 0, buf_offset = 10, buf_next = None\<rparr>, 2 \<mapsto> \<lparr>buf_pointer = 20, buf_internal = 0, buf_offset = 20, buf_next = None\<rparr>],
         ds_pipes = [7 \<mapsto> \<lparr>dp_channel_id = 0, dp_name = ''video-0'', dp_in = None, dp_out = Some 1, dp_out_tail = Some 1, dp_in_count = 0, dp_out_count = 1\<rparr>,
           8 \<mapsto> \<lparr>dp_channel_id = 0, dp_name = ''filter-0'', dp_in = Some 2, dp_out = None, dp_out_tail = None, dp_in_count = 1, dp_out_count = 0\<rparr>],
         dpipemap = []\<rparr>, vs_frames = [10 \<mapsto> example_rgba_frame, 20 \<mapsto> example_yuv_frame]\<rparr>\<rparr>"

definition example_fenv :: filter_env where
  "example_fenv = \<lparr>fe_wakes = [], fe_getContext = (\<lambda>c. 3), fe_scale = example_sws, fe_limit = 0\<rparr>"

lemma example_flow: "filter_flow example_sws 2 2 7 8 example_filter [] [1] [2] []"
proof -
  have "filter_plain example_filter" by (simp add: filter_plain_def example_filter_def converters_ok_def)
  moreover have "source_ok example_sws 2 2 example_rgba_frame"
    by (simp add: source_ok_def source_planes_def example_rgba_frame_def example_sws_def AV_PIX_FMT_RGBA_def)
  moreover have "dest_ok 2 2 example_yuv_frame" by (simp add: dest_ok_def example_yuv_frame_def example_rgba_frame_def)
  moreover have "frame_in example_filter 1 = Some example_rgba_frame" "frame_in example_filter 2 = Some example_yuv_frame"
    by (simp_all add: frame_in_def ptr_def example_filter_def)
  ultimately show ?thesis
    by (simp add: filter_flow_def) (simp add: example_filter_def two_pipes_def dpipe_rep_def ptr_def)
qed

theorem filter_streams_pictures_witness:
  "\<exists>ctx s g. filter_passes [example_fenv] 0 2 2 7 8 (0, example_filter) = Some (Filter_Go, ctx, s) \<and>
    frame_in s 2 = Some g \<and> imgpts g = 5 \<and> c_read (vf_mem g) (vf_img g) 4 = Some [1, 5, 9, 13]"
proof -
  have f: "filter_flow example_sws 2 2 7 8 example_filter [] ([1] @ []) ([2] @ []) []" using example_flow by simp
  have e: "\<forall>e\<in>set [example_fenv]. fe_scale e = example_sws \<and> (\<forall>c. fe_getContext e c \<noteq> 0)" by (simp add: example_fenv_def)
  have l: "length [1 :: nat] = length [example_fenv]" "length [2 :: nat] = length [example_fenv]" by simp_all
  obtain ctx s where s: "filter_passes [example_fenv] 0 2 2 7 8 (0, example_filter) = Some (Filter_Go, ctx, s)"
    "list_all2 (\<lambda>b c. \<exists>f g. frame_in example_filter b = Some f \<and> frame_in s c = Some g \<and> holds_picture example_sws 2 2 (fl_conv s) f g) [1] [2]"
    using filter_streams_pictures [OF f l e, of 0 0] by (elim exE conjE) (rule that; assumption)
  have "frame_in example_filter 1 = Some example_rgba_frame" by (simp add: frame_in_def ptr_def example_filter_def)
  then obtain g where "frame_in s 2 = Some g" "holds_picture example_sws 2 2 (fl_conv s) example_rgba_frame g" using s(2) by auto
  then show ?thesis using s(1) by (intro exI [of _ ctx] exI [of _ s] exI [of _ g])
      (auto simp: holds_picture_def example_rgba_frame_def example_sws_def simp del: filter_passes.simps)
qed

theorem filter_quit_dangles_witness:
  "convert_frame example_fenv 0 2 2 10 20 (example_filter\<lparr>fl_conv := [(yuv_cfg 2 2 example_rgba_frame, 3)], fl_freed := [3]\<rparr>) = None"
proof -
  let ?s = "example_filter\<lparr>fl_conv := [(yuv_cfg 2 2 example_rgba_frame, 3)]\<rparr>"
  have q: "filter_quit None (3, ?s) = Some (?s\<lparr>fl_freed := [3]\<rparr>)" by (simp add: filter_quit_def dpipe_destroy_def example_filter_def)
  show ?thesis using filter_quit_dangles [OF q, of 2 2 example_rgba_frame 10 example_fenv 0 20]
    by (simp add: example_filter_def source_planes_def example_rgba_frame_def AV_PIX_FMT_RGBA_def)
qed

end
