(* ===== verification/Spec2Isabelle.thy ===== *)
theory Spec2Isabelle
  imports GaConf GaCommon Crc5 Dpipe CtrlServer EncoderCore AudioSource VConverter ColorCode RtspServer
    H264Sps MiniVp8 SdlMsg ClientSession ClientProgram EncoderVideo EncoderAudio FilterYuv
begin

text \<open>
  A model of GamingAnywhere, a cloud gaming system in C++: a server captures the screen and the
  sound of a game, encodes them and streams them over RTSP; a client decodes the streams and
  sends the player's input back over a controller connection. The development models the core
  library \<open>ga/core\<close>, whose components the server modules and the client are built from, the
  RTSP server \<open>ga/module/server-ffmpeg\<close> that delivers the streams, the modules of the stream between
  capture and network (\<open>ga/module/filter-rgb2yuv\<close>, \<open>encoder-video\<close>, \<open>encoder-audio\<close>), the client
  \<open>ga/client\<close> that receives, decodes and shows it, and the input module \<open>ga/module/ctrl-sdl\<close>. The
  target is the Win32 build, the one that the README supports: \<open>int\<close> and \<open>long\<close> have 32 bits
  and integers are stored little-endian.

  Conventions. Undefined behaviour (an access outside an object, a NULL or dangling pointer, a
  signed overflow where it is checked) and a loop that does not end are \<open>None\<close>; so a theorem
  that a function gives \<open>Some\<close> says that it returns and stays in bounds. A pointer result that
  may be NULL is a second option inside. A program that exits is \<open>Inl\<close> of its code. State is
  passed explicitly; what the environment decides (memory from \<open>malloc\<close>, the clock, file
  contents, data from \<open>recv\<close>, the window system, the dynamic loader, swscale) is an argument.
  Functions that the source runs under a mutex are single steps; where other threads can
  interleave, a property quantifies over sequences of steps.

  Theories and what they model:

  \<^item> \<open>GaPrelude\<close>: machine integers, bounded access to byte arrays, byte order, C strings,
    \<open>strtol\<close>. \<open>StdMap\<close>: \<open>std::map\<close> as an ordered association list, with the locale
    \<open>ordered_map\<close> for its laws. \<open>Fifo\<close>: the locale \<open>bounded_fifo\<close>, the contract of a bounded
    queue that accepts or refuses, with the theorem that what comes out is what was accepted.
  \<^item> \<open>GaConf\<close>: the configuration store (\<open>core/ga-conf.cpp\<close>, \<open>core/ga-confvar.cpp\<close>): parameters
    with a value or a map, the line parser, the loader of files with includes, the URL parser.
    Loading what was printed, malformed lines, the invariant on the table and its iterators,
    termination of includes, enumeration. The loader's fuel is the depth of nested includes;
    enough fuel exists exactly when the includes are ranked, and a file that includes itself
    exhausts every fuel.
  \<^item> \<open>GaCommon\<close>: \<open>core/ga-common.cpp\<close>: time, aligned allocation, saving of raw frames, the
    aggregated log, start codes, window cropping, the codec table.
  \<^item> \<open>Crc5\<close>: \<open>core/ga-crc.cpp\<close>, with a bit-serial register as the specification of the tables.
  \<^item> \<open>Dpipe\<close>: the frame pipe \<open>core/dpipe.cpp\<close>: two linked lists of buffers on an explicit heap,
    refined to a free pool and a queue; ownership of frames over any interleaving of the
    operations of the threads; creation and destruction. The fuel of the loop that frees a
    list is the number of frames.
  \<^item> \<open>CtrlMsg\<close>, \<open>CtrlQueue\<close>, \<open>CtrlServer\<close>: the controller, \<open>core/ctrl-msg.cpp\<close> and
    \<open>core/controller.cpp\<close>: system messages in network order, the ring of messages (an
    interpretation of \<open>bounded_fifo\<close>), the handshake, the receive loops for TCP and UDP.
    \<open>CtrlClient\<close>: the sockets and the name resolution of both sides, the first bytes of a connection,
    and the thread of the client that sends what is queued, as a step relation with its waits and
    wake-ups: what was sent and what is queued is what was accepted, in order; and a message queued
    between two waits stays until the next one.
  \<^item> \<open>GaModule\<close>: \<open>core/ga-module.cpp\<close>: loaded modules and the calls through their interface.
  \<^item> \<open>PktQueue\<close>, \<open>EncoderCore\<close>: \<open>core/encoder-common.cpp\<close>: the ring of encoded packets of each
    channel (an interpretation of \<open>bounded_fifo\<close>; the retry of an append needs fuel 2, since the
    second attempt starts at the front of the buffer), the life cycle of the encoders driven by
    clients, time stamps.
  \<^item> \<open>AudioSource\<close>: \<open>core/asource.cpp\<close>: the audio buffer of each client as a byte stream, and the
    broadcast to all clients.
  \<^item> \<open>VConverter\<close>: \<open>core/vconverter.cpp\<close>: the order on converter configurations, made a
    \<open>linorder\<close>, and the cache over it.
  \<^item> \<open>VSource\<close>, \<open>ColorCode\<close>: \<open>core/vsource.cpp\<close>: video channels, their frames and pipes, and
    the sequence numbers drawn into frames, read back by a decoder.
  \<^item> \<open>FilterYuv\<close>: \<open>module/filter-rgb2yuv\<close>: the thread that takes the frames of the video source,
    converts them to planar YUV with the cached converters and hands them to the encoder. Both pipes
    live in one heap; the pictures arrive in order, with their time stamps, and every buffer goes back.
    A failed initialisation gives everything back; a thread that ends leaves a freed converter in
    the cache.
  \<^item> \<open>EncoderVideo\<close>, \<open>EncoderAudio\<close>: \<open>module/encoder-video\<close>, \<open>module/encoder-audio\<close> and the codec
    helpers of \<open>core/ga-avcodec.cpp\<close>: codec contexts on a heap where a freed one is undefined,
    reconfiguration, the parameter sets of the stream and the requests for them, the threads with
    their time stamps, and the cutting of captured sound into blocks.

  \<^item> \<open>RtspConf\<close>: \<open>core/rtspconf.cpp\<close>: the parser of the streaming parameters over the
    configuration store, the ranges of an accepted configuration, the list of video options.
  \<^item> \<open>RtspIo\<close>: the byte level of \<open>module/server-ffmpeg/rtspserver.cpp\<close>: the reader that separates
    lines and interleaved frames on the connection, independent of segmentation, and the writers of
    media packets.
  \<^item> \<open>RtspRequest\<close>, \<open>RtspSession\<close>: the words and headers of a request, and the handlers of the RTSP
    methods with their replies, ports and hole punching.
  \<^item> \<open>RtspServer\<close>: a request from its bytes to its handler; the connections and the table of clients
    (\<open>module/server-ffmpeg/server-ffmpeg.cpp\<close>) as an inductive step relation, with the invariant of
    the reachable states: the clients registered with the encoders are exactly the connections that
    play or pause, and no packet is sent through a dangling context.

  \<^item> \<open>MiniH264\<close>, \<open>H264Sps\<close>, \<open>MiniVp8\<close>: the parsers of the client for the first bytes of a video stream
    (\<open>client/minih264.cpp\<close>, \<open>client/minivp8.cpp\<close>): the bit reader with its Exp-Golomb codes, the
    sequence parameter set, slice types, the VP8 payload descriptor and key frame header. What a
    specification of the bit syntax encodes, the parsers read back.
  \<^item> \<open>ClientStats\<close>: loss and bandwidth measured from the RTP packets (\<open>client/rtspclient.cpp\<close>), up to the
    report that the server's message handler receives.
  \<^item> \<open>ClientAudio\<close>, \<open>ClientVideo\<close>: the queue of sound packets and the buffer that the sound device
    reads from; the buffers that collect the fragments of video frames, the dropping of late frames,
    and the decoded pictures put into the frame pipe. Decoders are parameters that consume bytes of a
    packet; a decoder that consumes nothing makes the loops endless, which is \<open>None\<close>.
  \<^item> \<open>ClientDecoders\<close>, \<open>ClientQos\<close>, \<open>ClientSession\<close>: setting up the decoders with the parameter sets of
    the session description; the reception reports (\<open>client/qosreport.cpp\<close>); the callbacks of the client
    session, as an inductive relation over the events that live555 may deliver, with the order of the
    requests and the end of the client as invariants of the reachable states.
  \<^item> \<open>SdlMsg\<close>: the input messages (\<open>module/ctrl-sdl/ctrl-sdl.cpp\<close>), from the event of the player to the
    event injected into the X server: encoding, byte order, blocked keys, the table of key symbols,
    and the scaling of the pointer with the resolutions kept by the controller.
  \<^item> \<open>ClientProgram\<close>: the main program of the client (\<open>client/ga-client.cpp\<close>): start-up, windows with
    their textures, the event loop with all its handlers, the watchdog. SDL is an argument and the
    calls it is given are recorded. A key pressed in the window is followed through the handler, the
    queue, the sender, the TCP stream, the server's loop and the replay into the game.

  How the parts interact: the video source creates its frame pipes with \<open>dpipe_create\<close> and reads
  its limits from the configuration store; the colour codes are drawn into its frames; the
  colour filter moves them, converted, to the pipes of the encoders; the encoders, started when the
  first client registers, take frames from these pipes and sound from the audio buffers, and give packets
  to the sink server or the packet queues; a server module sends the packets to its clients, and the RTSP server
  registers a client with the encoders when it plays and unregisters it when its connection ends;
  the controller hands messages to the
  system message handlers or to its queue. The client's session sets up decoders and reception
  reports from the session description; each RTP packet passes the statistics, each frame its sink,
  which feeds the video buffers or the sound queue; the statistics go back to the server as a system
  message, and the player's input as the messages of the input module.

  Not modelled: the readers of floating-point parameters; the log functions; the accept loop of the
  RTSP server and its set-up of FFmpeg objects; the platform modules for capture
  (\<open>ga/module/asource-*\<close>, \<open>vsource-desktop\<close>), the encoders of one vendor or library
  (\<open>encoder-x264\<close>, \<open>encoder-nvenc\<close>, \<open>encoder-mfx\<close>, \<open>encoder-vpu\<close>) and the hooks for games
  (\<open>ga/server/event-*\<close>), which are calls of their libraries; the live555 server, written against the
  classes of that library; the OpenMAX streamer; in the client, the drawing of text, the Android branches
  and the functions that nothing calls (\<open>main1\<close>, \<open>main2\<close>, \<open>main3\<close>, \<open>maintt\<close>); the Windows and
  macOS variants of the input replay; the perceptual hashing code and \<open>CImg.h\<close>, which are third-party.
\<close>

end
